(* ===== verification/Rinku_Prelude.thy ===== *)
theory Rinku_Prelude
  imports Main "HOL-Library.Word" "HOL-Library.List_Lexorder" "HOL-Library.Char_ord"
    "HOL-Library.Product_Lexorder" "HOL-Library.Multiset"
begin

text \<open>
  Shared vocabulary of the development: the fixed-width integers of the Rust sources as
  words, Rust's saturating and wrapping operations on them, and the generic facts on
  lists, maps and words on which the component theories rest.

  Strings are byte lists (\<open>string\<close>); \<open>List_Lexorder\<close> with \<open>Char_ord\<close> gives
  them the byte-wise lexicographic order of Rust's \<open>str::cmp\<close>, and
  \<open>Product_Lexorder\<close> gives tuples the order of a chain of \<open>then_with\<close>.
  Integer addition, subtraction and multiplication written with the plain operators wrap,
  as they do in the release profile the node is deployed with (\<open>Dockerfile.fly\<close>).
\<close>

section \<open>Types\<close>

type_synonym byte = "8 word"
type_synonym bytes = "byte list"
type_synonym u64 = "64 word"
type_synonym u32 = "32 word"

named_theorems u64_arith \<open>unsigned readings of the word operations used by the code\<close>

lemma unat_bound: "unat (a :: 'a::len word) < 2 ^ LENGTH('a)"
  by simp

lemma unat_u64_bound: "unat (a :: u64) < 2 ^ 64"
  using unat_bound [of a] by simp

section \<open>Saturating arithmetic\<close>

definition saturating_add :: "'a::len word \<Rightarrow> 'a word \<Rightarrow> 'a word" where
  "saturating_add a b = (if unat a + unat b < 2 ^ LENGTH('a) then a + b else - 1)"

definition saturating_sub :: "'a::len word \<Rightarrow> 'a word \<Rightarrow> 'a word" where
  "saturating_sub a b = (if b \<le> a then a - b else 0)"

lemma unat_saturating_add [u64_arith]:
  "unat (saturating_add a b) = min (unat a + unat b) (2 ^ LENGTH('a) - 1)"
  for a b :: "'a::len word"
  by (auto simp: saturating_add_def unat_word_ariths unsigned_minus_1_eq_mask mask_eq_exp_minus_1)

lemma unat_saturating_sub [u64_arith]: "unat (saturating_sub a b) = unat a - unat b"
  by (auto simp: saturating_sub_def unat_sub word_le_nat_alt)

lemma saturating_add_ge: "a \<le> saturating_add a b"
proof -
  have "unat a \<le> 2 ^ LENGTH('a) - 1" for a :: "'a::len word"
    using unat_bound [of a] by linarith
  then show ?thesis by (auto simp: word_le_nat_alt unat_saturating_add)
qed

lemma saturating_add_0 [simp]: "saturating_add a 0 = a" "saturating_add 0 a = a"
  by (auto simp: saturating_add_def)

lemma saturating_sub_le: "saturating_sub a b \<le> a"
  by (simp add: word_le_nat_alt unat_saturating_sub)

lemma unat_max [u64_arith]: "unat (max a b) = max (unat a) (unat b)"
  by (simp add: max_def word_le_nat_alt)

lemma unat_min [u64_arith]: "unat (min a b) = min (unat a) (unat b)"
  by (simp add: min_def word_le_nat_alt)

lemma unat_add_no_overflow [u64_arith]:
  "unat a + unat b < 2 ^ LENGTH('a) \<Longrightarrow> unat (a + b) = unat a + unat b"
  for a b :: "'a::len word"
  by (simp add: unat_word_ariths)

text \<open>\<open>iter().sum()\<close> over machine integers: a left fold of the wrapping addition.\<close>

definition wsum :: "'a::len word list \<Rightarrow> 'a word" where
  "wsum xs = foldl (+) 0 xs"

lemma foldl_word_plus: "foldl (+) a xs = a + foldl (+) 0 (xs :: 'a::len word list)"
proof (induction xs arbitrary: a)
  case (Cons x xs)
  show ?case using Cons [of "a + x"] Cons [of "0 + x"] by (simp add: ac_simps)
qed simp

lemma wsum_simps [simp]: "wsum [] = 0" "wsum (x # xs) = x + wsum xs"
  using foldl_word_plus [of x xs] by (simp_all add: wsum_def)

lemma wsum_append [simp]: "wsum (xs @ ys) = wsum xs + wsum ys"
  by (induction xs) (auto simp: ac_simps)

lemma unat_wsum_le: "unat (wsum xs) \<le> sum_list (map unat xs)"
proof (induction xs)
  case (Cons x xs)
  have "unat (x + wsum xs) \<le> unat x + unat (wsum xs)" by (simp add: unat_word_ariths)
  with Cons show ?case by simp
qed simp

lemma unat_wsum [u64_arith]:
  "sum_list (map unat xs) < 2 ^ LENGTH('a) \<Longrightarrow> unat (wsum xs) = sum_list (map unat xs)"
  for xs :: "'a::len word list"
proof (induction xs)
  case (Cons x xs)
  then have "unat (wsum xs) = sum_list (map unat xs)" by simp
  with Cons.prems show ?case by (simp add: unat_add_no_overflow)
qed simp

section \<open>Lists, options and maps\<close>

text \<open>\<open>Option::unwrap_or\<close>.\<close>

fun unwrap_or :: "'a option \<Rightarrow> 'a \<Rightarrow> 'a" where
  "unwrap_or None d = d"
| "unwrap_or (Some x) d = x"

text \<open>\<open>HashMap::entry(k).or_insert(d)\<close> followed by an update in place.\<close>

definition entry_update :: "('k \<rightharpoonup> 'v) \<Rightarrow> 'k \<Rightarrow> 'v \<Rightarrow> ('v \<Rightarrow> 'v) \<Rightarrow> ('k \<rightharpoonup> 'v)" where
  "entry_update m k d f = m(k \<mapsto> f (unwrap_or (m k) d))"

lemma dom_entry_update [simp]: "dom (entry_update m k d f) = insert k (dom m)"
  by (simp add: entry_update_def)

lemma entry_update_apply:
  "entry_update m k d f k' = (if k' = k then Some (f (unwrap_or (m k) d)) else m k')"
  by (simp add: entry_update_def)

text \<open>A list indexed as Rust does with \<open>get\<close>: \<open>None\<close> out of range.\<close>

definition get_at :: "'a list \<Rightarrow> nat \<Rightarrow> 'a option" where
  "get_at xs i = (if i < length xs then Some (xs ! i) else None)"

lemma get_at_simps [simp]:
  "get_at [] i = None" "get_at (x # xs) 0 = Some x" "get_at (x # xs) (Suc i) = get_at xs i"
  by (simp_all add: get_at_def)

lemma sum_list_map_le:
  "(\<And>x. x \<in> set xs \<Longrightarrow> f x \<le> (g x :: nat)) \<Longrightarrow> sum_list (map f xs) \<le> sum_list (map g xs)"
  by (induction xs) (auto intro: add_mono)

lemma zip_map_fst_snd: "zip (map fst xs) (map snd xs) = xs"
  by (induction xs) auto

lemma map_Some_setD: "map f xs = map Some ds \<Longrightarrow> d \<in> set ds \<Longrightarrow> \<exists>x \<in> set xs. f x = Some d"
  by (metis (no_types, lifting) image_iff list.set_map)

text \<open>
  The iteration order of a hash set or hash map, which Rust leaves unspecified: any
  permutation of what is iterated over.
\<close>

definition iteration_order :: "('a list \<Rightarrow> 'a list) \<Rightarrow> bool" where
  "iteration_order iter \<longleftrightarrow> (\<forall>xs. mset (iter xs) = mset xs)"

lemma iteration_order_set: "iteration_order iter \<Longrightarrow> set (iter xs) = set xs"
  by (metis iteration_order_def mset_eq_setD)

lemma iteration_order_id [simp]: "iteration_order (\<lambda>xs. xs)"
  by (simp add: iteration_order_def)

lemma iteration_order_rev [simp]: "iteration_order rev"
  by (simp add: iteration_order_def)

end
