(* ===== verification/Rinku_Crypto.thy ===== *)
theory Rinku_Crypto
  imports Rinku_Prelude
begin

text \<open>
  The hashing helpers of \<open>rinku-core/src/crypto.rs\<close>. SHA-256 itself (crate \<open>sha2\<close>)
  and the hexadecimal codec (crate \<open>hex\<close>) are third-party code: they are the fields of
  the record \<open>crypto_env\<close>, which every definition that hashes takes as an argument.
  What the code relies on is stated by the named predicates \<open>digest_32\<close> (a digest
  has 32 bytes), \<open>hex_roundtrip\<close> (decoding an encoded byte string gives it back) and
  \<open>hex_length\<close> (two characters encode a byte).
  Collision resistance is never assumed: the binding theorems exhibit the collision among
  the inputs that were hashed.
\<close>

record crypto_env =
  sha256_digest :: "bytes \<Rightarrow> bytes"
  hex_encode :: "bytes \<Rightarrow> string"
  hex_decode :: "string \<Rightarrow> bytes option"

definition digest_32 :: "crypto_env \<Rightarrow> bool" where
  "digest_32 env \<longleftrightarrow> (\<forall>d. length (sha256_digest env d) = 32)"

definition hex_roundtrip :: "crypto_env \<Rightarrow> bool" where
  "hex_roundtrip env \<longleftrightarrow> (\<forall>b. hex_decode env (hex_encode env b) = Some b)"

definition hex_length :: "crypto_env \<Rightarrow> bool" where
  "hex_length env \<longleftrightarrow> (\<forall>b. length (hex_encode env b) = 2 * length b)"

text \<open>
  Two different inputs with one digest among given ones. (Over all byte strings such inputs
  always exist, so what matters is that they are exhibited among the inputs that were hashed.)
\<close>

definition sha256_collision_in :: "crypto_env \<Rightarrow> bytes set \<Rightarrow> bool" where
  "sha256_collision_in env M \<longleftrightarrow>
     (\<exists>d \<in> M. \<exists>d' \<in> M. d \<noteq> d' \<and> sha256_digest env d = sha256_digest env d')"

definition as_bytes :: "string \<Rightarrow> bytes" where
  "as_bytes s = map (\<lambda>c. word_of_nat (of_char c)) s"

definition sha256 :: "crypto_env \<Rightarrow> bytes \<Rightarrow> bytes" where
  "sha256 env data = sha256_digest env data"

definition sha256_hex :: "crypto_env \<Rightarrow> string \<Rightarrow> string" where
  "sha256_hex env data = hex_encode env (sha256 env (as_bytes data))"

definition double_sha256 :: "crypto_env \<Rightarrow> bytes \<Rightarrow> bytes" where
  "double_sha256 env data = sha256 env (sha256 env data)"

definition hash_transaction :: "crypto_env \<Rightarrow> string \<Rightarrow> string" where
  "hash_transaction env tx_json = sha256_hex env tx_json"

lemma length_sha256 [simp]: "digest_32 env \<Longrightarrow> length (sha256 env d) = 32"
  by (simp add: digest_32_def sha256_def)

lemma hex_decode_encode [simp]: "hex_roundtrip env \<Longrightarrow> hex_decode env (hex_encode env b) = Some b"
  by (simp add: hex_roundtrip_def)

lemma hex_encode_inj: "hex_roundtrip env \<Longrightarrow> hex_encode env a = hex_encode env b \<longleftrightarrow> a = b"
  by (metis hex_decode_encode option.inject)

lemma length_sha256_hex [simp]:
  "digest_32 env \<Longrightarrow> hex_length env \<Longrightarrow> length (sha256_hex env s) = 64"
  by (simp add: sha256_hex_def hex_length_def)

lemma as_bytes_append [simp]: "as_bytes (s @ t) = as_bytes s @ as_bytes t"
  by (simp add: as_bytes_def)

lemma length_as_bytes [simp]: "length (as_bytes s) = length s"
  by (simp add: as_bytes_def)

lemma of_char_word_inj:
  "(word_of_nat (of_char c) :: byte) = word_of_nat (of_char c') \<longleftrightarrow> c = c'"
proof
  assume "(word_of_nat (of_char c) :: byte) = word_of_nat (of_char c')"
  then have "unat (word_of_nat (of_char c) :: byte) = unat (word_of_nat (of_char c') :: byte)"
    by simp
  then have "(of_char c :: nat) mod 256 = of_char c' mod 256"
    by (simp only: unat_of_nat) simp
  then show "c = c'" by simp
qed simp

lemma as_bytes_inj [simp]: "as_bytes s = as_bytes t \<longleftrightarrow> s = t"
  by (auto simp: as_bytes_def inj_map_eq_map inj_def of_char_word_inj)

lemma sha256_collisionI:
  "sha256 env d = sha256 env d' \<Longrightarrow> d \<noteq> d' \<Longrightarrow> d \<in> M \<Longrightarrow> d' \<in> M \<Longrightarrow> sha256_collision_in env M"
  by (auto simp: sha256_collision_in_def sha256_def)

lemma sha256_hex_collisionI:
  "hex_roundtrip env \<Longrightarrow> sha256_hex env s = sha256_hex env t \<Longrightarrow> s \<noteq> t
   \<Longrightarrow> as_bytes s \<in> M \<Longrightarrow> as_bytes t \<in> M \<Longrightarrow> sha256_collision_in env M"
  by (rule sha256_collisionI [of env "as_bytes s" "as_bytes t"]) (simp_all add: sha256_hex_def hex_encode_inj)

section \<open>A concrete environment\<close>

text \<open>
  A concrete environment on which the hypotheses above hold: a 32-byte \<open>digest\<close> (the
  input padded or cut to 32 bytes, rotated by its length) and the ordinary lower-case
  hexadecimal codec. It is used to evaluate the model at concrete inputs.
\<close>

definition hex_digit :: "nat \<Rightarrow> char" where
  "hex_digit n = ''0123456789abcdef'' ! n"

definition hex_value :: "char \<Rightarrow> nat option" where
  "hex_value c = map_of (zip ''0123456789abcdef'' [0..<16]) c"

fun sample_hex_encode :: "bytes \<Rightarrow> string" where
  "sample_hex_encode [] = []"
| "sample_hex_encode (b # bs) =
     hex_digit (unat b div 16) # hex_digit (unat b mod 16) # sample_hex_encode bs"

fun sample_hex_decode :: "string \<Rightarrow> bytes option" where
  "sample_hex_decode [] = Some []"
| "sample_hex_decode [c] = None"
| "sample_hex_decode (c # d # cs) =
     (case (hex_value c, hex_value d, sample_hex_decode cs) of
        (Some h, Some l, Some bs) \<Rightarrow> Some (of_nat (16 * h + l) # bs)
      | _ \<Rightarrow> None)"

definition sample_digest :: "bytes \<Rightarrow> bytes" where
  "sample_digest d = take 32 (rotate1 d @ replicate 32 (of_nat (length d)))"

definition sample_env :: crypto_env where
  "sample_env = \<lparr>sha256_digest = sample_digest, hex_encode = sample_hex_encode,
                 hex_decode = sample_hex_decode\<rparr>"

lemma hex_value_digit: "n < 16 \<Longrightarrow> hex_value (hex_digit n) = Some n"
proof -
  have "\<forall>n \<in> set [0..<16]. hex_value (hex_digit n) = Some n" by code_simp
  then show "n < 16 \<Longrightarrow> hex_value (hex_digit n) = Some n" by auto
qed

lemma sample_hex_roundtrip: "sample_hex_decode (sample_hex_encode b) = Some b"
proof (induction b)
  case (Cons x xs)
  have "unat x < 256" using unat_bound [of x] by simp
  then have "hex_value (hex_digit (unat x div 16)) = Some (unat x div 16)"
    "hex_value (hex_digit (unat x mod 16)) = Some (unat x mod 16)"
    by (simp_all add: hex_value_digit less_mult_imp_div_less)
  moreover have "of_nat (16 * (unat x div 16) + unat x mod 16) = x" by simp
  ultimately show ?case using Cons by (simp del: of_nat_add of_nat_mult)
qed simp

lemma length_sample_hex_encode: "length (sample_hex_encode b) = 2 * length b"
  by (induction b) auto

declare sample_hex_encode.simps [simp del] sample_hex_decode.simps [simp del]

lemma sample_env_digest [simp]: "digest_32 sample_env"
  by (auto simp: digest_32_def sample_env_def sample_digest_def)

lemma sample_env_hex [simp]: "hex_roundtrip sample_env"
  by (simp add: hex_roundtrip_def sample_env_def sample_hex_roundtrip)

lemma sample_env_hex_length [simp]: "hex_length sample_env"
  by (simp add: hex_length_def sample_env_def length_sample_hex_encode)

end
