(* ===== verification/Rinku_Hash_Tree.thy ===== *)
theory Rinku_Hash_Tree
  imports Rinku_Prelude
begin

text \<open>
  The interface shared by the two binary hash trees of the code, \<open>MerkleTree\<close> in
  \<open>rinku-core/src/merkle.rs\<close> and the weight trie in \<open>rinku-core/src/weight.rs\<close>.
  Both build a level from the one below by hashing neighbours, and pair an odd last node
  with itself. The locale \<open>hash_level\<close> states exactly that about one step of the
  construction; what is proved in it once (how the level's nodes arise, that climbing
  along the collected siblings reaches the root) is used by both components through
  their interpretations.
\<close>

section \<open>Climbing\<close>

text \<open>
  Recomputing a root from a leaf hash and its siblings, bottom up. Each sibling comes with
  a side: \<open>True\<close> when the current node is the right child.
\<close>

fun climb :: "('a \<Rightarrow> 'a \<Rightarrow> 'a) \<Rightarrow> 'a \<Rightarrow> (bool \<times> 'a) list \<Rightarrow> 'a" where
  "climb node h [] = h"
| "climb node h ((right, s) # ss) = climb node (if right then node s h else node h s) ss"

text \<open>The sides of the path from index \<open>i\<close>: the bits of the index, lowest first.\<close>

fun sided :: "nat \<Rightarrow> 'a list \<Rightarrow> (bool \<times> 'a) list" where
  "sided i [] = []"
| "sided i (s # ss) = (odd i, s) # sided (i div 2) ss"

lemma length_sided [simp]: "length (sided i ss) = length ss"
  by (induction i ss rule: sided.induct) auto

lemma map_snd_sided [simp]: "map snd (sided i ss) = ss"
  by (induction i ss rule: sided.induct) auto

lemma map_fst_sided_eq: "length ss = length ts \<Longrightarrow> map fst (sided i ss) = map fst (sided i ts)"
proof (induction i ss arbitrary: ts rule: sided.induct)
  case (2 i s ss)
  then show ?case by (cases ts) auto
qed simp

text \<open>The pairs that are hashed on the way.\<close>

fun climb_pairs :: "('a \<Rightarrow> 'a \<Rightarrow> 'a) \<Rightarrow> 'a \<Rightarrow> (bool \<times> 'a) list \<Rightarrow> ('a \<times> 'a) list" where
  "climb_pairs node h [] = []"
| "climb_pairs node h ((right, s) # ss) =
     (if right then (s, h) else (h, s)) # climb_pairs node (if right then node s h else node h s) ss"

text \<open>
  Two different leaves that climb to one value along the same sides expose, among the pairs
  hashed on the two ways, two different ones on which the node hash agrees. \<open>P\<close> is any
  property of hashes that the inputs have and the node hash produces (their length, for
  instance).
\<close>

lemma climb_collision:
  assumes "climb node h ss = climb node h' ts" and "map fst ss = map fst ts" and "h \<noteq> h'"
    and "P h" "P h'" "\<forall>s \<in> set ss. P (snd s)" "\<forall>s \<in> set ts. P (snd s)"
    and node: "\<And>a b. P a \<Longrightarrow> P b \<Longrightarrow> P (node a b)"
  shows "\<exists>a b c d. (a, b) \<in> set (climb_pairs node h ss) \<and> (c, d) \<in> set (climb_pairs node h' ts)
    \<and> P a \<and> P c \<and> (a, b) \<noteq> (c, d) \<and> node a b = node c d"
  using assms(1-7)
proof (induction ss arbitrary: h h' ts)
  case (Cons x ss)
  from Cons.prems(2) obtain y ys where ts: "ts = y # ys" by (cases ts) auto
  obtain r s where x: "x = (r, s)" by (cases x)
  with Cons.prems(2) ts obtain s' where y: "y = (r, s')" by (cases y) auto
  let ?n = "if r then node s h else node h s"
  let ?n' = "if r then node s' h' else node h' s'"
  have P: "P s" "P s'" "P ?n" "P ?n'" using Cons.prems x y ts node by auto
  show ?case
  proof (cases "?n = ?n'")
    case True
    let ?p = "if r then (s, h) else (h, s)" and ?q = "if r then (s', h') else (h', s')"
    have "?p \<in> set (climb_pairs node h (x # ss))" "?q \<in> set (climb_pairs node h' ts)"
      unfolding x ts y by simp_all
    moreover have "?p \<noteq> ?q" "node (fst ?p) (snd ?p) = node (fst ?q) (snd ?q)" "P (fst ?p)" "P (fst ?q)"
      using True Cons.prems(3-5) P(1,2) by (auto split: if_splits)
    ultimately show ?thesis
      by (intro exI [of _ "fst ?p"] exI [of _ "snd ?p"] exI [of _ "fst ?q"] exI [of _ "snd ?q"]) simp
  next
    case False
    have "\<exists>a b c d. (a, b) \<in> set (climb_pairs node ?n ss) \<and> (c, d) \<in> set (climb_pairs node ?n' ys)
        \<and> P a \<and> P c \<and> (a, b) \<noteq> (c, d) \<and> node a b = node c d"
      by (rule Cons.IH [of ?n ?n' ys]) (use Cons.prems x y ts P False in auto)
    moreover have "set (climb_pairs node ?n ss) \<subseteq> set (climb_pairs node h (x # ss))"
      "set (climb_pairs node ?n' ys) \<subseteq> set (climb_pairs node h' ts)" unfolding x ts y by auto
    ultimately show ?thesis by blast
  qed
qed simp

section \<open>One level of a hash tree\<close>

locale hash_level =
  fixes node :: "'a \<Rightarrow> 'a \<Rightarrow> 'a"
    and level :: "'a list \<Rightarrow> 'a list"
  assumes level_Nil: "level [] = []"
    and level_single: "level [x] = [node x x]"
    and level_pair: "level (x # y # zs) = node x y # level zs"
begin

lemmas level_simps = level_Nil level_single level_pair

lemma length_level: "length (level xs) = (length xs + 1) div 2"
  by (induction xs rule: induct_list012) (simp_all add: level_simps)

lemma length_level_less: "1 < length xs \<Longrightarrow> length (level xs) < length xs"
  by (simp add: length_level)

lemma level_nonempty: "xs \<noteq> [] \<Longrightarrow> level xs \<noteq> []"
  by (induction xs rule: induct_list012) (auto simp: level_simps)

lemma level_nth:
  "i < length (level xs) \<Longrightarrow>
   level xs ! i = node (xs ! (2 * i)) (if 2 * i + 1 < length xs then xs ! (2 * i + 1) else xs ! (2 * i))"
proof (induction xs arbitrary: i rule: induct_list012)
  case (3 x y zs)
  then show ?case by (cases i) (auto simp: level_simps)
qed (simp_all add: level_simps)

text \<open>The sibling index of the proofs: the odd last node is its own sibling.\<close>

definition sibling :: "nat \<Rightarrow> nat \<Rightarrow> nat" where
  "sibling n i = (if odd i then i - 1 else if i + 1 < n then i + 1 else i)"

lemma sibling_less: "i < n \<Longrightarrow> sibling n i < n"
  by (auto simp: sibling_def)

lemma level_parent:
  assumes "i < length xs"
  shows "level xs ! (i div 2) =
    (if odd i then node (xs ! sibling (length xs) i) (xs ! i)
     else node (xs ! i) (xs ! sibling (length xs) i))"
proof -
  have "i div 2 < length (level xs)" using assms by (simp add: length_level)
  from level_nth [OF this] show ?thesis
    using assms by (cases "odd i") (auto simp: sibling_def elim!: oddE evenE)
qed

text \<open>Root and sibling path, as relations: every terminating construction computes them.\<close>

inductive tree_root :: "'a list \<Rightarrow> 'a \<Rightarrow> bool" where
  root_one: "tree_root [x] x"
| root_up: "1 < length xs \<Longrightarrow> tree_root (level xs) r \<Longrightarrow> tree_root xs r"

inductive tree_path :: "'a list \<Rightarrow> nat \<Rightarrow> 'a list \<Rightarrow> bool" where
  path_one: "tree_path [x] 0 []"
| path_up: "1 < length xs \<Longrightarrow> i < length xs \<Longrightarrow> tree_path (level xs) (i div 2) ss \<Longrightarrow>
     tree_path xs i (xs ! sibling (length xs) i # ss)"

inductive_cases tree_root_oneE: "tree_root [x] r"

lemma climb_root: "tree_path xs i ss \<Longrightarrow> tree_root xs r \<Longrightarrow> climb node (xs ! i) (sided i ss) = r"
proof (induction arbitrary: r rule: tree_path.induct)
  case (path_one x)
  then show ?case by (auto elim: tree_root.cases)
next
  case (path_up xs i ss)
  from path_up.prems path_up.hyps(1) have "tree_root (level xs) r"
    by (auto elim: tree_root.cases)
  then have "climb node (level xs ! (i div 2)) (sided (i div 2) ss) = r" by (rule path_up.IH)
  with level_parent [OF path_up.hyps(2)] show ?case by (simp split: if_splits)
qed

lemma tree_path_length:
  "tree_path xs i ss \<Longrightarrow> length xs \<le> 2 ^ length ss \<and> (ss \<noteq> [] \<longrightarrow> 2 ^ (length ss - 1) < length xs)"
proof (induction rule: tree_path.induct)
  case (path_up xs i ss)
  have "length (level xs) = (length xs + 1) div 2" by (rule length_level)
  with path_up show ?case by (cases ss) auto
qed simp

text \<open>Duplicating an odd last node does not change the level above.\<close>

lemma level_duplicate_last:
  "odd (length xs) \<Longrightarrow> level (xs @ [last xs]) = level xs"
  by (induction xs rule: induct_list012) (auto simp: level_simps)

end

end
