(* ===== verification/Rinku_Merkle.thy ===== *)
theory Rinku_Merkle
  imports Rinku_Crypto Rinku_Hash_Tree
begin

text \<open>
  \<open>rinku-core/src/merkle.rs\<close>: the Merkle tree over 32-byte leaves that commits to a
  checkpoint's transactions, its inclusion proofs and their verifier.

  \<open>Result<_, MerkleError>\<close> is a sum with the error on the left. Multiproofs are in the
  theory \<open>Rinku_Multiproof\<close>.
\<close>

section \<open>Data\<close>

datatype MerkleError = EmptyLeaves | InvalidProof | LeafNotFound

record MerkleProof =
  mp_leaf_hash :: string
  mp_siblings :: "string list"
  mp_path_bits :: "bool list"
  mp_root :: string

record MerkleTree =
  mt_leaves :: "bytes list"
  mt_layers :: "bytes list list"
  mt_root :: bytes

section \<open>Construction\<close>

fun compute_next_layer :: "crypto_env \<Rightarrow> bytes list \<Rightarrow> bytes list" where
  "compute_next_layer env [] = []"
| "compute_next_layer env [left] = [sha256 env (left @ left)]"
| "compute_next_layer env (left # right # rest) =
     sha256 env (left @ right) # compute_next_layer env rest"

interpretation merkle_level: hash_level "\<lambda>l r. sha256 env (l @ r)" "compute_next_layer env"
  for env
  by unfold_locales auto

function merkle_layers :: "crypto_env \<Rightarrow> bytes list \<Rightarrow> bytes list list" where
  "merkle_layers env current_layer =
     (if length current_layer > 1
      then current_layer # merkle_layers env (compute_next_layer env current_layer)
      else [current_layer])"
  by pat_completeness auto
termination
  by (relation "measure (\<lambda>(env, l). length l)") (auto simp: merkle_level.length_level)

declare merkle_layers.simps [simp del]

definition merkle_new :: "crypto_env \<Rightarrow> bytes list \<Rightarrow> MerkleError + MerkleTree" where
  "merkle_new env leaf_hashes =
     (if leaf_hashes = [] then Inl EmptyLeaves
      else let layers = merkle_layers env leaf_hashes
           in Inr \<lparr>mt_leaves = leaf_hashes, mt_layers = layers, mt_root = last layers ! 0\<rparr>)"

fun decode_leaves :: "crypto_env \<Rightarrow> string list \<Rightarrow> MerkleError + bytes list" where
  "decode_leaves env [] = Inr []"
| "decode_leaves env (hex_str # rest) =
     (case hex_decode env hex_str of
        None \<Rightarrow> Inl InvalidProof
      | Some b \<Rightarrow>
          if length b \<noteq> 32 then Inl InvalidProof
          else (case decode_leaves env rest of Inl e \<Rightarrow> Inl e | Inr bs \<Rightarrow> Inr (b # bs)))"

definition from_hex_leaves :: "crypto_env \<Rightarrow> string list \<Rightarrow> MerkleError + MerkleTree" where
  "from_hex_leaves env hex_leaves =
     (case decode_leaves env hex_leaves of Inl e \<Rightarrow> Inl e | Inr leaves \<Rightarrow> merkle_new env leaves)"

definition root_hex :: "crypto_env \<Rightarrow> MerkleTree \<Rightarrow> string" where
  "root_hex env t = hex_encode env (mt_root t)"

section \<open>Inclusion proofs\<close>

text \<open>The loop of \<open>get_proof\<close> over all layers but the last.\<close>

fun proof_path :: "bytes list list \<Rightarrow> nat \<Rightarrow> (bytes \<times> bool) list" where
  "proof_path [] current_index = []"
| "proof_path (layer # layers) current_index =
     (let is_right = (current_index mod 2 = 1);
          sibling_index =
            (if is_right then current_index - 1
             else if current_index + 1 < length layer then current_index + 1
             else current_index)
      in (layer ! sibling_index, is_right) # proof_path layers (current_index div 2))"

definition get_proof :: "crypto_env \<Rightarrow> MerkleTree \<Rightarrow> nat \<Rightarrow> MerkleError + MerkleProof" where
  "get_proof env t leaf_index =
     (if leaf_index \<ge> length (mt_leaves t) then Inl LeafNotFound
      else let path = proof_path (butlast (mt_layers t)) leaf_index
           in Inr \<lparr>mp_leaf_hash = hex_encode env (mt_leaves t ! leaf_index),
                   mp_siblings = map (hex_encode env \<circ> fst) path,
                   mp_path_bits = map snd path,
                   mp_root = root_hex env t\<rparr>)"

fun find_leaf :: "bytes list \<Rightarrow> bytes \<Rightarrow> nat \<Rightarrow> nat option" where
  "find_leaf [] target i = None"
| "find_leaf (leaf # leaves) target i =
     (if leaf = target then Some i else find_leaf leaves target (i + 1))"

text \<open>
  \<open>get_proof_by_hash\<close> copies \<open>min 32 (length b)\<close> bytes into a 32-byte array with
  \<open>copy_from_slice\<close>, which panics when the lengths differ: \<open>None\<close> is that panic.
\<close>

definition get_proof_by_hash ::
  "crypto_env \<Rightarrow> MerkleTree \<Rightarrow> string \<Rightarrow> (MerkleError + MerkleProof) option" where
  "get_proof_by_hash env t leaf_hash =
     (case hex_decode env leaf_hash of
        None \<Rightarrow> Some (Inl InvalidProof)
      | Some b \<Rightarrow>
          if length (take (min 32 (length b)) b) \<noteq> 32 then None
          else Some (case find_leaf (mt_leaves t) (take 32 b) 0 of
                       Some i \<Rightarrow> get_proof env t i
                     | None \<Rightarrow> Inl LeafNotFound))"

fun verify_climb ::
  "crypto_env \<Rightarrow> bytes \<Rightarrow> string list \<Rightarrow> bool list \<Rightarrow> MerkleError + bytes" where
  "verify_climb env current_hash [] path_bits = Inr current_hash"
| "verify_climb env current_hash (sibling_hex # siblings) path_bits =
     (case hex_decode env sibling_hex of
        None \<Rightarrow> Inl InvalidProof
      | Some sibling \<Rightarrow>
          let is_right = unwrap_or (get_at path_bits 0) False;
              combined = (if is_right then sibling @ current_hash else current_hash @ sibling)
          in verify_climb env (sha256 env combined) siblings (tl path_bits))"

definition verify_proof :: "crypto_env \<Rightarrow> MerkleProof \<Rightarrow> MerkleError + bool" where
  "verify_proof env proof =
     (case hex_decode env (mp_leaf_hash proof) of
        None \<Rightarrow> Inl InvalidProof
      | Some leaf \<Rightarrow>
          (case verify_climb env leaf (mp_siblings proof) (mp_path_bits proof) of
             Inl e \<Rightarrow> Inl e
           | Inr computed \<Rightarrow> Inr (hex_encode env computed = mp_root proof)))"

section \<open>The tree that is built\<close>

lemma merkle_layers_nonempty [simp]: "merkle_layers env xs \<noteq> []"
  by (simp add: merkle_layers.simps)

lemma merkle_layers_single [simp]: "length xs \<le> 1 \<Longrightarrow> merkle_layers env xs = [xs]"
  by (simp add: merkle_layers.simps)

lemma merkle_layers_step:
  "1 < length xs \<Longrightarrow> merkle_layers env xs = xs # merkle_layers env (compute_next_layer env xs)"
  by (subst merkle_layers.simps) simp

lemma merkle_layers_hd [simp]: "merkle_layers env xs ! 0 = xs" "hd (merkle_layers env xs) = xs"
  by (simp_all add: merkle_layers.simps)

lemma merkle_layers_root:
  "xs \<noteq> [] \<Longrightarrow> merkle_level.tree_root env xs (last (merkle_layers env xs) ! 0)"
proof (induction env xs rule: merkle_layers.induct)
  case (1 env xs)
  show ?case
  proof (cases "1 < length xs")
    case True
    then have "compute_next_layer env xs \<noteq> []" by (intro merkle_level.level_nonempty) auto
    with 1 True show ?thesis
      by (auto simp: merkle_layers_step intro: merkle_level.root_up)
  next
    case False
    with 1 obtain x where "xs = [x]" by (cases xs) auto
    then show ?thesis by (auto intro: merkle_level.root_one)
  qed
qed

lemma proof_path_Cons:
  "proof_path (layer # layers) i =
     (layer ! merkle_level.sibling (length layer) i, odd i) # proof_path layers (i div 2)"
proof -
  have "i mod 2 = 1 \<longleftrightarrow> odd i" by presburger
  then show ?thesis by (simp only: proof_path.simps Let_def merkle_level.sibling_def)
qed

declare proof_path.simps(2) [simp del]

lemma proof_path_tree_path:
  "i < length xs \<Longrightarrow>
   merkle_level.tree_path env xs i (map fst (proof_path (butlast (merkle_layers env xs)) i))
   \<and> map snd (proof_path (butlast (merkle_layers env xs)) i)
     = map fst (sided i (map fst (proof_path (butlast (merkle_layers env xs)) i)))"
proof (induction env xs arbitrary: i rule: merkle_layers.induct)
  case (1 env xs)
  show ?case
  proof (cases "1 < length xs")
    case True
    have "i div 2 < length (compute_next_layer env xs)"
      using 1(2) by (simp add: merkle_level.length_level)
    note IH = 1(1) [OF True this]
    show ?thesis
      using IH merkle_level.path_up [OF True 1(2), of env] True
      by (simp add: merkle_layers_step proof_path_Cons)
  next
    case False
    with 1 obtain x where "xs = [x]" "i = 0" by (cases xs) auto
    then show ?thesis by (auto intro: merkle_level.path_one)
  qed
qed

lemma verify_climb_correct:
  assumes "hex_roundtrip env"
  shows "verify_climb env h (map (hex_encode env) ss) bits
    = Inr (climb (\<lambda>l r. sha256 env (l @ r)) h (zip (map (\<lambda>i. unwrap_or (get_at bits i) False) [0..<length ss]) ss))"
proof (induction ss arbitrary: h bits)
  case (Cons s ss)
  have nth: "unwrap_or (get_at (tl bits) i) False = unwrap_or (get_at bits (Suc i)) False" for i
    by (cases bits) auto
  have "map (\<lambda>i. unwrap_or (get_at bits i) False) [0..<length (s # ss)]
    = unwrap_or (get_at bits 0) False # map (\<lambda>i. unwrap_or (get_at (tl bits) i) False) [0..<length ss]"
    by (simp add: nth upt_conv_Cons map_Suc_upt [symmetric] del: upt_Suc)
  with Cons [of _ "tl bits"] assms show ?case by (simp add: Let_def)
qed simp

text \<open>What a proof of the code looks like, once and for all.\<close>

lemma get_proof_Inr:
  assumes "merkle_new env xs = Inr t" and "i < length xs"
  obtains ss where "merkle_level.tree_path env xs i ss"
    and "get_proof env t i = Inr \<lparr>mp_leaf_hash = hex_encode env (xs ! i),
           mp_siblings = map (hex_encode env) ss, mp_path_bits = map fst (sided i ss),
           mp_root = hex_encode env (mt_root t)\<rparr>"
proof -
  let ?p = "proof_path (butlast (merkle_layers env xs)) i"
  have t: "mt_leaves t = xs" "mt_layers t = merkle_layers env xs"
    using assms(1) by (auto simp: merkle_new_def Let_def split: if_splits)
  note p = proof_path_tree_path [OF assms(2), of env]
  show thesis
  proof (rule that)
    show "merkle_level.tree_path env xs i (map fst ?p)" using p by simp
    show "get_proof env t i = Inr \<lparr>mp_leaf_hash = hex_encode env (xs ! i),
           mp_siblings = map (hex_encode env) (map fst ?p), mp_path_bits = map fst (sided i (map fst ?p)),
           mp_root = hex_encode env (mt_root t)\<rparr>"
      using assms(2) p t by (simp add: get_proof_def root_hex_def Let_def)
  qed
qed

lemma merkle_new_root:
  "merkle_new env xs = Inr t \<Longrightarrow> merkle_level.tree_root env xs (mt_root t)"
  by (auto simp: merkle_new_def Let_def merkle_layers_root split: if_splits)

lemma get_at_bits:
  "length bits = n \<Longrightarrow> map (\<lambda>i. unwrap_or (get_at bits i) False) [0..<n] = bits"
  by (auto simp: get_at_def intro: nth_equalityI)

text \<open>
  Every leaf of a tree that \<open>MerkleTree::new\<close> builds has an inclusion proof:
  \<open>get_proof\<close> succeeds, its proof carries that leaf, and \<open>verify_proof\<close> accepts it.
\<close>
theorem get_proof_verifies:
  assumes "hex_roundtrip env" and "merkle_new env xs = Inr t" and "i < length xs"
  shows "\<exists>p. get_proof env t i = Inr p \<and> mp_leaf_hash p = hex_encode env (xs ! i)
    \<and> verify_proof env p = Inr True"
proof -
  from get_proof_Inr [OF assms(2,3)] obtain ss where path: "merkle_level.tree_path env xs i ss"
    and p: "get_proof env t i = Inr \<lparr>mp_leaf_hash = hex_encode env (xs ! i),
           mp_siblings = map (hex_encode env) ss, mp_path_bits = map fst (sided i ss),
           mp_root = hex_encode env (mt_root t)\<rparr>" .
  have "zip (map fst (sided i ss)) ss = sided i ss"
    using zip_map_fst_snd [of "sided i ss"] by simp
  with merkle_level.climb_root [OF path merkle_new_root [OF assms(2)]]
  show ?thesis
    using p assms(1) by (simp add: verify_proof_def verify_climb_correct get_at_bits)
qed

theorem get_proof_verifies_witness:
  "\<exists>t p. merkle_new sample_env [[1], [2], [3]] = Inr t \<and> get_proof sample_env t 2 = Inr p
     \<and> mp_leaf_hash p = ''03'' \<and> verify_proof sample_env p = Inr True"
proof -
  obtain t where t: "merkle_new sample_env [[1], [2], [3]] = Inr t"
    by (simp add: merkle_new_def Let_def)
  have "hex_encode sample_env ([[1], [2], [3]] ! 2) = ''03''" by code_simp
  with get_proof_verifies [OF sample_env_hex t, of 2] t show ?thesis by fastforce
qed

text \<open>The proof has as many siblings as the tree has levels above the leaves.\<close>

lemma get_proof_size:
  assumes "merkle_new env xs = Inr t" and "i < length xs" and "get_proof env t i = Inr p"
  shows "length xs \<le> 2 ^ length (mp_siblings p)
    \<and> (mp_siblings p \<noteq> [] \<longrightarrow> 2 ^ (length (mp_siblings p) - 1) < length xs)
    \<and> length (mp_path_bits p) = length (mp_siblings p)"
proof -
  from get_proof_Inr [OF assms(1,2)] obtain ss where path: "merkle_level.tree_path env xs i ss"
    and p: "get_proof env t i = Inr \<lparr>mp_leaf_hash = hex_encode env (xs ! i),
           mp_siblings = map (hex_encode env) ss, mp_path_bits = map fst (sided i ss),
           mp_root = hex_encode env (mt_root t)\<rparr>" .
  with merkle_level.tree_path_length [OF path] assms(3) show ?thesis by auto
qed

section \<open>Binding\<close>

definition path_sides :: "bool list \<Rightarrow> nat \<Rightarrow> bool list" where
  "path_sides bits n = map (\<lambda>i. unwrap_or (get_at bits i) False) [0..<n]"

lemma path_sides_Suc: "path_sides bits (Suc n) = unwrap_or (get_at bits 0) False # path_sides (tl bits) n"
proof -
  have nth: "unwrap_or (get_at (tl bits) i) False = unwrap_or (get_at bits (Suc i)) False" for i
    by (cases bits) auto
  show ?thesis
    by (simp add: path_sides_def nth upt_conv_Cons map_Suc_upt [symmetric] del: upt_Suc)
qed

lemma verify_climb_Inr:
  "verify_climb env h strs bits = Inr r \<Longrightarrow>
   \<exists>ds. map (hex_decode env) strs = map Some ds
      \<and> r = climb (\<lambda>l r. sha256 env (l @ r)) h (zip (path_sides bits (length strs)) ds)"
proof (induction strs arbitrary: h bits)
  case (Cons s ss)
  from Cons.prems obtain d where d: "hex_decode env s = Some d"
    by (auto split: option.splits)
  let ?b = "unwrap_or (get_at bits 0) False"
  have "verify_climb env (sha256 env (if ?b then d @ h else h @ d)) ss (tl bits) = Inr r"
    using Cons.prems d by (simp add: Let_def)
  from Cons.IH [OF this] obtain ds where ds: "map (hex_decode env) ss = map Some ds"
    "r = climb (\<lambda>l r. sha256 env (l @ r)) (sha256 env (if ?b then d @ h else h @ d))
       (zip (path_sides (tl bits) (length ss)) ds)" by blast
  have "path_sides bits (length (s # ss)) = ?b # path_sides (tl bits) (length ss)"
    by (simp add: path_sides_Suc)
  with ds d show ?case by (intro exI [of _ "d # ds"]) (simp split: if_splits)
qed (simp add: path_sides_def)

text \<open>Every hash of a proof is a 32-byte string.\<close>

definition proof_hashes_32 :: "crypto_env \<Rightarrow> MerkleProof \<Rightarrow> bool" where
  "proof_hashes_32 env p \<longleftrightarrow>
     (\<forall>h \<in> set (mp_leaf_hash p # mp_siblings p). \<forall>b. hex_decode env h = Some b \<longrightarrow> length b = 32)"

text \<open>The messages \<open>verify_climb\<close> hashes.\<close>

fun climb_messages :: "crypto_env \<Rightarrow> bytes \<Rightarrow> string list \<Rightarrow> bool list \<Rightarrow> bytes list" where
  "climb_messages env current_hash [] path_bits = []"
| "climb_messages env current_hash (sibling_hex # siblings) path_bits =
     (case hex_decode env sibling_hex of
        None \<Rightarrow> []
      | Some sibling \<Rightarrow>
          let is_right = unwrap_or (get_at path_bits 0) False;
              combined = (if is_right then sibling @ current_hash else current_hash @ sibling)
          in combined # climb_messages env (sha256 env combined) siblings (tl path_bits))"

definition proof_messages :: "crypto_env \<Rightarrow> MerkleProof \<Rightarrow> bytes set" where
  "proof_messages env p = (case hex_decode env (mp_leaf_hash p) of
     None \<Rightarrow> {} | Some leaf \<Rightarrow> set (climb_messages env leaf (mp_siblings p) (mp_path_bits p)))"

lemma climb_messages_pairs:
  "map (hex_decode env) strs = map Some ds \<Longrightarrow>
   climb_messages env h strs bits =
     map (\<lambda>(l, r). l @ r) (climb_pairs (\<lambda>l r. sha256 env (l @ r)) h (zip (path_sides bits (length strs)) ds))"
proof (induction strs arbitrary: h bits ds)
  case (Cons s ss)
  then obtain d es where ds: "ds = d # es" "hex_decode env s = Some d" "map (hex_decode env) ss = map Some es"
    by (cases ds) auto
  with Cons.IH [OF ds(3)] show ?case by (simp add: path_sides_Suc Let_def)
qed simp

text \<open>
  C27: proofs of 32-byte hashes bind. Two proofs that \<open>verify_proof\<close> accepts for one root, with
  the same path bits and equally many siblings, and whose leaf hash and siblings all decode to
  32 bytes, prove the same leaf, or else two different messages with one SHA-256 digest are among
  those hashed to verify them. \<open>verify_proof\<close> does not check the lengths itself: without that
  condition bytes can be shifted between a leaf and its sibling (\<open>verify_proof_shifted_leaf\<close>).
\<close>
theorem verify_proof_binding:
  assumes "hex_roundtrip env" and "digest_32 env"
    and "verify_proof env p = Inr True" and "verify_proof env q = Inr True"
    and "mp_root p = mp_root q" and "mp_path_bits p = mp_path_bits q"
    and "length (mp_siblings p) = length (mp_siblings q)"
    and "proof_hashes_32 env p" and "proof_hashes_32 env q"
  shows "hex_decode env (mp_leaf_hash p) = hex_decode env (mp_leaf_hash q)
    \<or> sha256_collision_in env (proof_messages env p \<union> proof_messages env q)"
proof (rule disjCI)
  assume nc: "\<not> sha256_collision_in env (proof_messages env p \<union> proof_messages env q)"
  let ?node = "\<lambda>l r. sha256 env (l @ r)"
  let ?sides = "path_sides (mp_path_bits q) (length (mp_siblings q))"
  obtain h ds where h: "hex_decode env (mp_leaf_hash p) = Some h"
    "map (hex_decode env) (mp_siblings p) = map Some ds"
    "hex_encode env (climb ?node h (zip ?sides ds)) = mp_root p"
    using assms(3,6,7) by (fastforce simp: verify_proof_def split: option.splits sum.splits
        dest!: verify_climb_Inr)
  obtain h' ds' where h': "hex_decode env (mp_leaf_hash q) = Some h'"
    "map (hex_decode env) (mp_siblings q) = map Some ds'"
    "hex_encode env (climb ?node h' (zip ?sides ds')) = mp_root q"
    using assms(4) by (fastforce simp: verify_proof_def split: option.splits sum.splits
        dest!: verify_climb_Inr)
  have len: "length ds = length ?sides" "length ds' = length ?sides"
    using h(2) h'(2) assms(7) by (auto simp: path_sides_def dest: map_eq_imp_length_eq)
  have 32: "length h = 32" "length h' = 32" "\<forall>d \<in> set ds. length d = 32" "\<forall>d \<in> set ds'. length d = 32"
    using assms(8,9) h(1,2) h'(1,2) unfolding proof_hashes_32_def
    by (auto dest!: map_Some_setD)
  have zip: "\<forall>s \<in> set (zip ?sides ds). length (snd s) = 32" "\<forall>s \<in> set (zip ?sides ds'). length (snd s) = 32"
    using 32(3,4) by (auto dest: set_zip_rightD)
  have eq: "climb ?node h (zip ?sides ds) = climb ?node h' (zip ?sides ds')"
    using h(3) h'(3) assms(1,5) by (metis hex_encode_inj)
  have "h = h'"
  proof (rule ccontr)
    assume "h \<noteq> h'"
    from climb_collision [OF eq _ this, where P = "\<lambda>b. length b = 32"] 32(1,2) zip len assms(2)
    obtain a b c d where abcd: "(a, b) \<in> set (climb_pairs ?node h (zip ?sides ds))"
      "(c, d) \<in> set (climb_pairs ?node h' (zip ?sides ds'))" "length a = 32" "length c = 32" "(a, b) \<noteq> (c, d)"
      "sha256 env (a @ b) = sha256 env (c @ d)"
      by auto
    have "a @ b \<in> proof_messages env p" "c @ d \<in> proof_messages env q"
      using abcd(1,2) h(1) h'(1) assms(6,7) climb_messages_pairs [OF h(2), of h "mp_path_bits p"]
        climb_messages_pairs [OF h'(2), of h' "mp_path_bits q"]
      by (force simp: proof_messages_def)+
    moreover have "a @ b \<noteq> c @ d" using abcd(3-5) by simp
    ultimately show False using nc abcd(6) by (blast intro: sha256_collisionI)
  qed
  with h(1) h'(1) show "hex_decode env (mp_leaf_hash p) = hex_decode env (mp_leaf_hash q)" by simp
qed

text \<open>
  A concrete pair: with the sample digest, which does not look at the first byte, two
  leaves that differ there are both accepted, so the theorem yields a collision.
\<close>

definition sample_proof :: "byte \<Rightarrow> MerkleProof" where
  "sample_proof b =
     \<lparr>mp_leaf_hash = sample_hex_encode (b # replicate 31 0),
      mp_siblings = [sample_hex_encode (replicate 32 7)], mp_path_bits = [False],
      mp_root = sample_hex_encode (replicate 31 0 @ [7])\<rparr>"

lemma sample_proof_accepted: "verify_proof sample_env (sample_proof b) = Inr True"
proof -
  have "replicate 32 (7::byte) = 7 # replicate 31 7"
    using replicate_Suc [of 31 "7::byte"] by simp
  then have "sample_digest ((b # replicate 31 0) @ replicate 32 7) = replicate 31 0 @ [7]"
    by (simp add: sample_digest_def)
  then show ?thesis
    by (simp add: verify_proof_def sample_proof_def sample_env_def sample_hex_roundtrip sha256_def)
qed

lemma sample_proof_32: "proof_hashes_32 sample_env (sample_proof b)"
  by (simp add: proof_hashes_32_def sample_proof_def sample_env_def sample_hex_roundtrip)

theorem verify_proof_binding_witness:
  "verify_proof sample_env (sample_proof 1) = Inr True
   \<and> verify_proof sample_env (sample_proof 2) = Inr True \<and> sha256_collision_in sample_env (proof_messages sample_env (sample_proof 1) \<union> proof_messages sample_env (sample_proof 2))"
proof -
  have "hex_decode sample_env (mp_leaf_hash (sample_proof 1))
      \<noteq> hex_decode sample_env (mp_leaf_hash (sample_proof 2))"
    by (simp add: sample_proof_def sample_env_def sample_hex_roundtrip)
  with verify_proof_binding [OF sample_env_hex sample_env_digest sample_proof_accepted
      sample_proof_accepted _ _ _ sample_proof_32 sample_proof_32, of 1 2]
  show ?thesis by (simp add: sample_proof_accepted) (simp add: sample_proof_def)
qed

section \<open>Where the tree does not bind\<close>

text \<open>
  The root does not determine the number of leaves. A tree with an odd number of
  leaves has the root of the tree in which the last leaf is repeated.
\<close>
theorem merkle_root_duplicate_last:
  assumes "odd (length xs)" and "1 < length xs"
  shows "map_sum id mt_root (merkle_new env (xs @ [last xs])) = map_sum id mt_root (merkle_new env xs)"
  using assms merkle_level.level_duplicate_last [OF assms(1), of env]
  by (auto simp: merkle_new_def Let_def merkle_layers_step)

theorem merkle_root_duplicate_last_witness:
  "map_sum id mt_root (merkle_new sample_env [[1], [2], [3], [3]])
   = map_sum id mt_root (merkle_new sample_env [[1], [2], [3]])"
  using merkle_root_duplicate_last [of "[[1], [2], [3]]" sample_env] by simp

text \<open>
  \<open>verify_proof\<close> does not check the length of the decoded hashes, as
  \<open>verify_multiproof\<close> does. Whatever SHA-256 is, a proof that a left leaf is in the
  tree can be turned into a proof of another, longer leaf string for the same root by
  moving bytes of the sibling into it.
\<close>
theorem verify_proof_shifted_leaf:
  assumes "hex_roundtrip env"
    and "verify_proof env \<lparr>mp_leaf_hash = hex_encode env leaf, mp_siblings = hex_encode env (s1 @ s2) # ss,
           mp_path_bits = False # bits, mp_root = root\<rparr> = Inr True"
  shows "verify_proof env \<lparr>mp_leaf_hash = hex_encode env (leaf @ s1), mp_siblings = hex_encode env s2 # ss,
           mp_path_bits = False # bits, mp_root = root\<rparr> = Inr True"
  using assms by (simp add: verify_proof_def split: sum.splits)

theorem verify_proof_shifted_leaf_witness:
  "verify_proof sample_env \<lparr>mp_leaf_hash = sample_hex_encode ((1 # replicate 31 0) @ [7]),
     mp_siblings = [sample_hex_encode (replicate 31 7)], mp_path_bits = [False],
     mp_root = sample_hex_encode (replicate 31 0 @ [7])\<rparr> = Inr True"
proof -
  have "replicate 32 (7::byte) = [7] @ replicate 31 7"
    using replicate_Suc [of 31 "7::byte"] by simp
  then have "sample_proof 1 = \<lparr>mp_leaf_hash = hex_encode sample_env (1 # replicate 31 0),
      mp_siblings = [hex_encode sample_env ([7] @ replicate 31 7)], mp_path_bits = [False],
      mp_root = sample_hex_encode (replicate 31 0 @ [7])\<rparr>"
    by (simp only: sample_proof_def) (simp add: sample_env_def)
  with verify_proof_shifted_leaf [OF sample_env_hex, of "1 # replicate 31 0" "[7]" "replicate 31 7"
      "[]" "[]" "sample_hex_encode (replicate 31 0 @ [7])"] sample_proof_accepted [of 1]
  show ?thesis by (simp add: sample_env_def)
qed

section \<open>Errors\<close>

lemma merkle_new_error: "merkle_new env xs = Inl e \<longleftrightarrow> xs = [] \<and> e = EmptyLeaves"
  by (auto simp: merkle_new_def Let_def)

lemma get_proof_error: "get_proof env t i = Inl e \<longleftrightarrow> length (mt_leaves t) \<le> i \<and> e = LeafNotFound"
  by (auto simp: get_proof_def Let_def)

lemma find_leaf_Some: "find_leaf xs b k = Some i \<Longrightarrow> k \<le> i \<and> i < k + length xs \<and> xs ! (i - k) = b"
  by (induction xs b k rule: find_leaf.induct) (fastforce simp: nth_Cons' split: if_splits)+

lemma find_leaf_None: "find_leaf xs b k = None \<longleftrightarrow> b \<notin> set xs"
  by (induction xs b k rule: find_leaf.induct) auto

lemma merkle_new_leaves: "merkle_new env xs = Inr t \<Longrightarrow> mt_leaves t = xs"
  by (auto simp: merkle_new_def Let_def split: if_splits)

text \<open>
  What \<open>get_proof_by_hash\<close> does with a leaf of the tree: the first occurrence is proved.
\<close>

lemma get_proof_by_hash_found:
  assumes "merkle_new env xs = Inr t" and "hex_decode env s = Some b"
    and "32 \<le> length b" and "take 32 b \<in> set xs"
  obtains i where "i < length xs" "xs ! i = take 32 b" "get_proof_by_hash env t s = Some (get_proof env t i)"
proof -
  from assms(4) obtain i where i: "find_leaf xs (take 32 b) 0 = Some i"
    using find_leaf_None [of xs "take 32 b" 0] by fastforce
  show thesis
    by (rule that [of i]) (use find_leaf_Some [OF i] i assms(2,3) merkle_new_leaves [OF assms(1)]
        in \<open>auto simp: get_proof_by_hash_def\<close>)
qed

text \<open>
  Looking a proof up by leaf hash. For a hash string of at least 32 bytes that names
  a leaf of the tree, \<open>get_proof_by_hash\<close> returns a proof of that leaf; for one that
  names no leaf it returns \<open>LeafNotFound\<close>; and for a valid hex string of fewer than 32
  bytes it panics instead of returning \<open>InvalidProof\<close>.
\<close>
theorem get_proof_by_hash_cases:
  assumes "merkle_new env xs = Inr t" and "hex_decode env s = Some b"
  shows "(length b < 32 \<longrightarrow> get_proof_by_hash env t s = None)
    \<and> (32 \<le> length b \<longrightarrow> take 32 b \<notin> set xs \<longrightarrow> get_proof_by_hash env t s = Some (Inl LeafNotFound))
    \<and> (32 \<le> length b \<longrightarrow> take 32 b \<in> set xs \<longrightarrow>
        (\<exists>p. get_proof_by_hash env t s = Some (Inr p) \<and> mp_leaf_hash p = hex_encode env (take 32 b)))"
proof -
  have "\<exists>p. get_proof_by_hash env t s = Some (Inr p) \<and> mp_leaf_hash p = hex_encode env (take 32 b)"
    if len: "32 \<le> length b" and mem: "take 32 b \<in> set xs"
  proof -
    from get_proof_by_hash_found [OF assms len mem] obtain i where
      i: "i < length xs" "xs ! i = take 32 b" "get_proof_by_hash env t s = Some (get_proof env t i)" .
    with get_proof_Inr [OF assms(1) i(1)] show ?thesis by (metis MerkleProof.select_convs(1))
  qed
  then show ?thesis
    using assms(2) merkle_new_leaves [OF assms(1)] find_leaf_None [of xs "take 32 b" 0]
    by (auto simp: get_proof_by_hash_def)
qed

theorem get_proof_by_hash_cases_witness:
  "\<exists>t. merkle_new sample_env [[1]] = Inr t \<and> get_proof_by_hash sample_env t ''01'' = None"
proof -
  obtain t where t: "merkle_new sample_env [[1]] = Inr t" by (simp add: merkle_new_def Let_def)
  have "hex_decode sample_env ''01'' = Some [1]" by code_simp
  with get_proof_by_hash_cases [OF t, of "''01''" "[1]"] t show ?thesis by auto
qed

end
