(* ===== verification/Rinku_Multiproof.thy ===== *)
theory Rinku_Multiproof
  imports Rinku_Merkle "HOL-Library.AList"
begin

text \<open>
  The multiproofs of \<open>rinku-core/src/merkle.rs\<close>: one proof for several leaves, in which
  a helper hash is sent only for a sibling the verifier cannot compute itself.

  Hash sets and maps are distinct lists and association lists; their iteration order,
  which Rust leaves unspecified, is an argument (\<open>iter\<close>) that may be any permutation, so
  that what is proved holds for every order, and for different orders at the prover and
  the verifier.
\<close>

record MerkleMultiProof =
  mm_leaf_hashes :: "string list"
  mm_leaf_indices :: "nat list"
  mm_helper_hashes :: "string list"
  mm_helper_indices :: "(nat \<times> nat) list"
  mm_num_leaves :: nat
  mm_root :: string

section \<open>Multiproofs\<close>

definition multiproof_sibling :: "nat \<Rightarrow> nat \<Rightarrow> nat" where
  "multiproof_sibling layer_len pos =
     (if pos mod 2 = 0 then (if pos + 1 < layer_len then pos + 1 else pos) else pos - 1)"

text \<open>One layer of \<open>get_multiproof\<close>: the helpers pushed, and the positions known above.\<close>

definition multiproof_layer_helpers ::
  "crypto_env \<Rightarrow> nat \<Rightarrow> bytes list \<Rightarrow> nat list \<Rightarrow> nat list \<Rightarrow> (string \<times> (nat \<times> nat)) list" where
  "multiproof_layer_helpers env layer_idx layer known_positions positions =
     map (\<lambda>pos. let s = multiproof_sibling (length layer) pos
                in (hex_encode env (layer ! s), (layer_idx, s)))
       (filter (\<lambda>pos. let s = multiproof_sibling (length layer) pos
                      in s \<noteq> pos \<and> s \<notin> set known_positions) positions)"

fun multiproof_helpers ::
  "crypto_env \<Rightarrow> (nat list \<Rightarrow> nat list) \<Rightarrow> nat \<Rightarrow> bytes list list \<Rightarrow> nat list \<Rightarrow>
   (string \<times> (nat \<times> nat)) list" where
  "multiproof_helpers env iter layer_idx [] known_positions = []"
| "multiproof_helpers env iter layer_idx (layer # layers) known_positions =
     (let positions = iter known_positions
      in multiproof_layer_helpers env layer_idx layer known_positions positions
         @ multiproof_helpers env iter (layer_idx + 1) layers
             (remdups (map (\<lambda>pos. pos div 2) positions)))"

definition get_multiproof ::
  "crypto_env \<Rightarrow> (nat list \<Rightarrow> nat list) \<Rightarrow> MerkleTree \<Rightarrow> nat list \<Rightarrow> MerkleError + MerkleMultiProof"
where
  "get_multiproof env iter t leaf_indices =
     (if leaf_indices = [] then Inl EmptyLeaves
      else if \<exists>idx \<in> set leaf_indices. idx \<ge> length (mt_leaves t) then Inl LeafNotFound
      else let sorted_indices = remdups_adj (sort leaf_indices);
               helpers = multiproof_helpers env iter 0 (butlast (mt_layers t)) sorted_indices
           in Inr \<lparr>mm_leaf_hashes = map (\<lambda>i. hex_encode env (mt_leaves t ! i)) sorted_indices,
                   mm_leaf_indices = sorted_indices,
                   mm_helper_hashes = map fst helpers,
                   mm_helper_indices = map snd helpers,
                   mm_num_leaves = length (mt_leaves t),
                   mm_root = root_hex env t\<rparr>)"

type_synonym known_map = "((nat \<times> nat) \<times> bytes) list"

text \<open>The two loops that fill \<open>known\<close> from the hex strings of leaves and helpers.\<close>

fun insert_known ::
  "crypto_env \<Rightarrow> ((nat \<times> nat) \<times> string) list \<Rightarrow> known_map \<Rightarrow> MerkleError + known_map" where
  "insert_known env [] known = Inr known"
| "insert_known env ((position, hex_str) # rest) known =
     (case hex_decode env hex_str of
        None \<Rightarrow> Inl InvalidProof
      | Some b \<Rightarrow>
          if length b \<noteq> 32 then Inl InvalidProof
          else insert_known env rest (AList.update position b known))"

function layer_sizes :: "nat \<Rightarrow> nat list" where
  "layer_sizes n = (if n > 1 then n # layer_sizes ((n + 1) div 2) else [1])"
  by pat_completeness auto
termination
  by (relation "measure (\<lambda>n. n)") auto

declare layer_sizes.simps [simp del]

text \<open>
  One iteration of the loop over the positions known in a layer: \<open>processed\<close> holds the
  left positions of the pairs already hashed.
\<close>

definition hash_position ::
  "crypto_env \<Rightarrow> nat \<Rightarrow> nat \<Rightarrow> nat \<Rightarrow> nat list \<times> known_map \<Rightarrow> nat list \<times> known_map" where
  "hash_position env layer_idx layer_size pos st =
     (let (processed, known) = st;
          left_pos = (if pos mod 2 = 0 then pos else pos - 1)
      in if left_pos \<in> set processed then (processed, known)
         else
           let right_pos = (if left_pos + 1 < layer_size then left_pos + 1 else left_pos)
           in (left_pos # processed,
               case (map_of known (layer_idx, left_pos), map_of known (layer_idx, right_pos)) of
                 (Some left, Some right) \<Rightarrow>
                   AList.update (layer_idx + 1, left_pos div 2) (sha256 env (left @ right)) known
               | _ \<Rightarrow> known))"

definition hash_layer ::
  "crypto_env \<Rightarrow> nat \<Rightarrow> nat \<Rightarrow> nat list \<Rightarrow> known_map \<Rightarrow> known_map" where
  "hash_layer env layer_idx layer_size positions known =
     snd (fold (hash_position env layer_idx layer_size) positions ([], known))"

definition layer_positions :: "nat \<Rightarrow> known_map \<Rightarrow> nat list" where
  "layer_positions layer_idx known = map (snd \<circ> fst) (filter (\<lambda>((l, _), _). l = layer_idx) known)"

fun hash_layers ::
  "crypto_env \<Rightarrow> (nat list \<Rightarrow> nat list) \<Rightarrow> nat \<Rightarrow> nat list \<Rightarrow> known_map \<Rightarrow> known_map" where
  "hash_layers env iter layer_idx [] known = known"
| "hash_layers env iter layer_idx (layer_size # sizes) known =
     hash_layers env iter (layer_idx + 1) sizes
       (hash_layer env layer_idx layer_size (iter (layer_positions layer_idx known)) known)"

definition verify_multiproof ::
  "crypto_env \<Rightarrow> (nat list \<Rightarrow> nat list) \<Rightarrow> MerkleMultiProof \<Rightarrow> MerkleError + bool" where
  "verify_multiproof env iter proof =
     (if length (mm_leaf_hashes proof) \<noteq> length (mm_leaf_indices proof) then Inl InvalidProof
      else if length (mm_helper_hashes proof) \<noteq> length (mm_helper_indices proof)
      then Inl InvalidProof
      else if mm_num_leaves proof = 0 then Inl InvalidProof
      else case insert_known env
                  (zip (map (Pair 0) (mm_leaf_indices proof)) (mm_leaf_hashes proof)) [] of
             Inl e \<Rightarrow> Inl e
           | Inr known \<Rightarrow>
         (case insert_known env (zip (mm_helper_indices proof) (mm_helper_hashes proof)) known of
             Inl e \<Rightarrow> Inl e
           | Inr known \<Rightarrow>
               let sizes = layer_sizes (mm_num_leaves proof);
                   num_layers = length sizes;
                   known = hash_layers env iter 0 (take (num_layers - 1) sizes) known
               in (case map_of known (num_layers - 1, 0) of
                     Some computed_root \<Rightarrow> Inr (hex_encode env computed_root = mm_root proof)
                   | None \<Rightarrow> Inr False)))"


section \<open>The layers of the tree\<close>

lemma merkle_layers_nth_Suc:
  "Suc k < length (merkle_layers env xs) \<Longrightarrow>
   1 < length (merkle_layers env xs ! k)
   \<and> merkle_layers env xs ! Suc k = compute_next_layer env (merkle_layers env xs ! k)"
proof (induction env xs arbitrary: k rule: merkle_layers.induct)
  case (1 env xs)
  show ?case
  proof (cases "1 < length xs")
    case True
    with 1 show ?thesis by (cases k) (auto simp: merkle_layers_step)
  qed (use 1 in simp)
qed

lemma layer_sizes_layers: "xs \<noteq> [] \<Longrightarrow> layer_sizes (length xs) = map length (merkle_layers env xs)"
proof (induction env xs rule: merkle_layers.induct)
  case (1 env xs)
  show ?case
  proof (cases "1 < length xs")
    case True
    then have "compute_next_layer env xs \<noteq> []" by (intro merkle_level.level_nonempty) auto
    with 1(1) [OF True] True show ?thesis
      by (simp add: merkle_layers_step layer_sizes.simps [of "length xs"] merkle_level.length_level)
  next
    case False
    with 1 show ?thesis by (cases xs) (auto simp: layer_sizes.simps)
  qed
qed

lemma merkle_layers_last:
  "xs \<noteq> [] \<Longrightarrow> length (last (merkle_layers env xs)) = 1"
proof (induction env xs rule: merkle_layers.induct)
  case (1 env xs)
  show ?case
  proof (cases "1 < length xs")
    case True
    then have "compute_next_layer env xs \<noteq> []" by (intro merkle_level.level_nonempty) auto
    with 1(1) [OF True] True show ?thesis by (simp add: merkle_layers_step)
  next
    case False
    with 1 show ?thesis by (cases xs) auto
  qed
qed

lemma compute_next_layer_32: "digest_32 env \<Longrightarrow> h \<in> set (compute_next_layer env xs) \<Longrightarrow> length h = 32"
  by (induction env xs rule: compute_next_layer.induct) auto

lemma merkle_layers_32:
  "digest_32 env \<Longrightarrow> \<forall>h \<in> set xs. length h = 32 \<Longrightarrow> layer \<in> set (merkle_layers env xs) \<Longrightarrow>
   h \<in> set layer \<Longrightarrow> length h = 32"
proof (induction env xs rule: merkle_layers.induct)
  case (1 env xs)
  then show ?case
    by (cases "1 < length xs") (auto simp: merkle_layers_step compute_next_layer_32)
qed

section \<open>The map of known nodes\<close>

definition known_ok :: "bytes list list \<Rightarrow> known_map \<Rightarrow> bool" where
  "known_ok L known \<longleftrightarrow>
     (\<forall>l p v. map_of known (l, p) = Some v \<longrightarrow> l < length L \<and> p < length (L ! l) \<and> v = L ! l ! p)"

lemma known_okD:
  "known_ok L known \<Longrightarrow> map_of known (l, p) = Some v \<Longrightarrow>
   l < length L \<and> p < length (L ! l) \<and> v = L ! l ! p"
  by (auto simp: known_ok_def)

lemma known_ok_update:
  "known_ok L known \<Longrightarrow> l < length L \<Longrightarrow> p < length (L ! l) \<Longrightarrow>
   known_ok L (AList.update (l, p) (L ! l ! p) known)"
  by (auto simp: known_ok_def update_conv')

lemma known_ok_fold:
  "known_ok L known \<Longrightarrow> \<forall>(l, p) \<in> set ps. l < length L \<and> p < length (L ! l) \<Longrightarrow>
   known_ok L (fold (\<lambda>(l, p). AList.update (l, p) (L ! l ! p)) ps known)"
  by (induction ps arbitrary: known) (auto simp: known_ok_update)

lemma dom_fold_update:
  "dom (map_of (fold (\<lambda>(l, p). AList.update (l, p) (f l p)) ps known)) = dom (map_of known) \<union> set ps"
  by (induction ps arbitrary: known) (auto simp: update_conv')

lemma insert_known_encoded:
  assumes "hex_roundtrip env" and "\<forall>(l, p) \<in> set ps. length (f l p) = 32"
  shows "insert_known env (map (\<lambda>(l, p). ((l, p), hex_encode env (f l p))) ps) known
    = Inr (fold (\<lambda>(l, p). AList.update (l, p) (f l p)) ps known)"
  using assms by (induction ps arbitrary: known) auto

section \<open>One layer of the verifier\<close>

definition left_of :: "nat \<Rightarrow> nat" where
  "left_of pos = (if pos mod 2 = 0 then pos else pos - 1)"

definition right_of :: "nat \<Rightarrow> nat \<Rightarrow> nat" where
  "right_of n left = (if left + 1 < n then left + 1 else left)"

text \<open>
  The invariant of the loop over one layer \<open>l\<close> started with \<open>known0\<close>: every entry is
  the tree's own node, only layer \<open>l + 1\<close> has grown, and each processed pair whose two
  nodes are known has its parent known.
\<close>

definition layer_inv ::
  "bytes list list \<Rightarrow> nat \<Rightarrow> known_map \<Rightarrow> nat list \<times> known_map \<Rightarrow> bool" where
  "layer_inv L l known0 st \<longleftrightarrow>
     known_ok L (snd st)
     \<and> (\<forall>p. map_of (snd st) (l, p) = map_of known0 (l, p))
     \<and> dom (map_of known0) \<subseteq> dom (map_of (snd st))
     \<and> (\<forall>q \<in> set (fst st). (l, q) \<in> dom (map_of known0) \<and> (l, right_of (length (L ! l)) q) \<in> dom (map_of known0)
          \<longrightarrow> (l + 1, q div 2) \<in> dom (map_of (snd st)))"

lemma left_of_div: "left_of pos div 2 = pos div 2" "even (left_of pos)"
  by (auto simp: left_of_def) presburger+

lemma hash_position_alt:
  "hash_position env l n pos (processed, known) =
     (if left_of pos \<in> set processed then (processed, known)
      else (left_of pos # processed,
            case (map_of known (l, left_of pos), map_of known (l, right_of n (left_of pos))) of
              (Some left, Some right) \<Rightarrow>
                AList.update (l + 1, left_of pos div 2) (sha256 env (left @ right)) known
            | _ \<Rightarrow> known))"
  unfolding hash_position_def Let_def prod.case left_of_def [symmetric] right_of_def [symmetric]
  by (rule refl)

lemma layer_inv_step:
  assumes inv: "layer_inv L l known0 st"
    and L: "l + 1 < length L" "L ! (l + 1) = compute_next_layer env (L ! l)"
  shows "layer_inv L l known0 (hash_position env l (length (L ! l)) pos st)
    \<and> insert (left_of pos) (set (fst st)) = set (fst (hash_position env l (length (L ! l)) pos st))"
proof -
  obtain processed known where st: "st = (processed, known)" by (cases st)
  let ?q = "left_of pos" and ?n = "length (L ! l)"
  show ?thesis
  proof (cases "?q \<in> set processed \<or> map_of known (l, ?q) = None \<or> map_of known (l, right_of ?n ?q) = None")
    case True
    then show ?thesis
      using inv unfolding st layer_inv_def hash_position_alt by (auto split: option.splits)
  next
    case False
    then obtain a b where ab: "map_of known (l, ?q) = Some a" "map_of known (l, right_of ?n ?q) = Some b"
      by auto
    have ok: "known_ok L known" using inv by (simp add: st layer_inv_def)
    have a: "?q < ?n" "a = L ! l ! ?q" and b: "b = L ! l ! right_of ?n ?q"
      using known_okD [OF ok ab(1)] known_okD [OF ok ab(2)] by auto
    have parent: "?q div 2 < length (L ! (l + 1))" using a(1) L(2) by (simp add: merkle_level.length_level)
    have two: "2 * (?q div 2) = ?q" using left_of_div(2) [of pos] by auto
    have "sha256 env (a @ b) = L ! (l + 1) ! (?q div 2)"
      using merkle_level.level_nth [of "?q div 2" env "L ! l"] parent L(2) a b two
      by (auto simp: right_of_def)
    moreover have "known_ok L (AList.update (l + 1, ?q div 2) (L ! (l + 1) ! (?q div 2)) known)"
      using ok L(1) parent by (rule known_ok_update)
    ultimately show ?thesis
      using inv False ab unfolding st layer_inv_def hash_position_alt
      by (auto simp: update_conv')
  qed
qed

lemma layer_inv_fold:
  assumes "layer_inv L l known0 st"
    and L: "l + 1 < length L" "L ! (l + 1) = compute_next_layer env (L ! l)"
  shows "layer_inv L l known0 (fold (hash_position env l (length (L ! l))) ps st)
    \<and> left_of ` set ps \<union> set (fst st) \<subseteq> set (fst (fold (hash_position env l (length (L ! l))) ps st))"
  using assms(1)
proof (induction ps arbitrary: st)
  case (Cons p ps)
  let ?st = "hash_position env l (length (L ! l)) p st"
  from layer_inv_step [OF Cons.prems L, of p]
  have "layer_inv L l known0 ?st" and "insert (left_of p) (set (fst st)) = set (fst ?st)" by auto
  with Cons.IH [of ?st] show ?case by auto
qed simp


lemma hash_layer_known:
  assumes "known_ok L known" and L: "l + 1 < length L" "L ! (l + 1) = compute_next_layer env (L ! l)"
    and known': "known' = hash_layer env l (length (L ! l)) ps known"
  shows "known_ok L known'" and "dom (map_of known) \<subseteq> dom (map_of known')"
    and "\<And>p. p \<in> set ps \<Longrightarrow> (l, left_of p) \<in> dom (map_of known) \<Longrightarrow>
      (l, right_of (length (L ! l)) (left_of p)) \<in> dom (map_of known) \<Longrightarrow>
      (l + 1, p div 2) \<in> dom (map_of known')"
proof -
  have "layer_inv L l known ([], known)" using assms(1) by (simp add: layer_inv_def)
  from layer_inv_fold [OF this L, of ps]
  have inv: "layer_inv L l known (fold (hash_position env l (length (L ! l))) ps ([], known))"
    and sub: "left_of ` set ps \<subseteq> set (fst (fold (hash_position env l (length (L ! l))) ps ([], known)))"
    by auto
  show "known_ok L known'" "dom (map_of known) \<subseteq> dom (map_of known')"
    using inv unfolding known' hash_layer_def layer_inv_def by auto
  fix p
  assume "p \<in> set ps" "(l, left_of p) \<in> dom (map_of known)"
    "(l, right_of (length (L ! l)) (left_of p)) \<in> dom (map_of known)"
  with sub have "(l + 1, left_of p div 2) \<in> dom (map_of known')"
    using inv unfolding known' hash_layer_def layer_inv_def by blast
  then show "(l + 1, p div 2) \<in> dom (map_of known')" by (simp add: left_of_div)
qed

text \<open>
  \<open>covers layers l K known\<close>: from layer \<open>l\<close> upwards, every position reached from
  \<open>K\<close> finds its sibling among the reached positions or in \<open>known\<close>.
\<close>

fun covers :: "bytes list list \<Rightarrow> nat \<Rightarrow> nat set \<Rightarrow> known_map \<Rightarrow> bool" where
  "covers [] l K known = True"
| "covers (layer # layers) l K known =
     ((\<forall>p \<in> K. multiproof_sibling (length layer) p \<in> K
         \<or> (l, multiproof_sibling (length layer) p) \<in> dom (map_of known))
      \<and> covers layers (l + 1) ((\<lambda>p. p div 2) ` K) known)"

lemma covers_mono:
  "covers layers l K known \<Longrightarrow> dom (map_of known) \<subseteq> dom (map_of known') \<Longrightarrow> covers layers l K known'"
  by (induction layers arbitrary: l K) (simp; blast)+

lemma multiproof_helpers_covers:
  assumes "\<And>xs. set (iter xs) = set xs"
    and "snd ` set (multiproof_helpers env iter l layers ks) \<subseteq> dom (map_of known)"
  shows "covers layers l (set ks) known"
  using assms(2)
proof (induction layers arbitrary: l ks)
  case (Cons layer layers)
  have "covers layers (l + 1) (set (remdups (map (\<lambda>pos. pos div 2) (iter ks)))) known"
    by (rule Cons.IH) (use Cons.prems in \<open>auto simp: Let_def\<close>)
  then have "covers layers (l + 1) ((\<lambda>p. p div 2) ` set ks) known"
    using assms(1) by simp
  moreover have "multiproof_sibling (length layer) p \<in> set ks
      \<or> (l, multiproof_sibling (length layer) p) \<in> dom (map_of known)" if "p \<in> set ks" for p
  proof (cases "multiproof_sibling (length layer) p = p \<or> multiproof_sibling (length layer) p \<in> set ks")
    case False
    with that assms(1) have "(l, multiproof_sibling (length layer) p)
        \<in> snd ` set (multiproof_layer_helpers env l layer ks (iter ks))"
      by (force simp: multiproof_layer_helpers_def Let_def)
    with Cons.prems show ?thesis by (auto simp: Let_def)
  qed (use that in auto)
  ultimately show ?case by simp
qed simp

lemma layer_positions_set: "p \<in> set (layer_positions l known) \<longleftrightarrow> (l, p) \<in> dom (map_of known)"
  by (force simp: layer_positions_def dom_map_of_conv_image_fst)

lemma sibling_pair:
  assumes "p < n"
  shows "{left_of p, right_of n (left_of p)} = {p, multiproof_sibling n p}"
  using assms unfolding left_of_def right_of_def multiproof_sibling_def
  by (cases "even p") (auto elim!: oddE)

text \<open>The verifier's sweep over the layers keeps every node right and reaches the top.\<close>

lemma hash_layers_reach:
  assumes iter: "\<And>xs. set (iter xs) = set xs"
    and L: "\<And>k. Suc k < length L \<Longrightarrow> L ! Suc k = compute_next_layer env (L ! k)"
  shows "known_ok L known \<Longrightarrow> covers layers l K known \<Longrightarrow> l + length layers < length L \<Longrightarrow>
    (\<And>j. j < length layers \<Longrightarrow> layers ! j = L ! (l + j)) \<Longrightarrow>
    (\<And>p. p \<in> K \<Longrightarrow> (l, p) \<in> dom (map_of known)) \<Longrightarrow>
    known_ok L (hash_layers env iter l (map length layers) known)
    \<and> (\<forall>p \<in> K. \<exists>q. (l + length layers, q) \<in> dom (map_of (hash_layers env iter l (map length layers) known)))"
proof (induction layers arbitrary: l K known)
  case (Cons layer layers)
  let ?ps = "iter (layer_positions l known)"
  let ?known = "hash_layer env l (length layer) ?ps known"
  have layer: "layer = L ! l" using Cons.prems(4) [of 0] by simp
  have up: "l + 1 < length L" "L ! (l + 1) = compute_next_layer env (L ! l)"
    using Cons.prems(3) L [of l] by auto
  note hl = hash_layer_known [OF Cons.prems(1) up refl, where ps = ?ps, folded layer]
  have above: "(l + 1, p div 2) \<in> dom (map_of ?known)" if "p \<in> K" for p
  proof (rule hl(3))
    have dom: "(l, p) \<in> dom (map_of known)" using Cons.prems(5) that .
    then show "p \<in> set ?ps" by (simp add: iter layer_positions_set)
    have "p < length layer" using dom Cons.prems(1) layer by (auto dest: known_okD)
    moreover have "(l, multiproof_sibling (length layer) p) \<in> dom (map_of known)"
      using Cons.prems(2,5) that by auto
    ultimately show "(l, left_of p) \<in> dom (map_of known)"
      "(l, right_of (length layer) (left_of p)) \<in> dom (map_of known)"
      using dom sibling_pair [of p "length layer"] by (auto simp: doubleton_eq_iff)
  qed
  have "known_ok L (hash_layers env iter (l + 1) (map length layers) ?known)
    \<and> (\<forall>p \<in> (\<lambda>p. p div 2) ` K. \<exists>q. (l + 1 + length layers, q)
          \<in> dom (map_of (hash_layers env iter (l + 1) (map length layers) ?known)))"
  proof (rule Cons.IH)
    show "covers layers (l + 1) ((\<lambda>p. p div 2) ` K) ?known"
      using Cons.prems(2) hl(2) by (auto intro: covers_mono)
    show "layers ! j = L ! (l + 1 + j)" if "j < length layers" for j
      using Cons.prems(4) [of "Suc j"] that by simp
    show "(l + 1, p) \<in> dom (map_of ?known)" if "p \<in> (\<lambda>p. p div 2) ` K" for p
      using above that by auto
  qed (use hl(1) Cons.prems(3) in simp_all)
  then show ?case by auto
qed (simp; blast)

lemma multiproof_helpers_in_tree:
  assumes "\<And>xs. set (iter xs) = set xs"
  shows "(\<And>j. j < length layers \<Longrightarrow> layers ! j = L ! (l + j)) \<Longrightarrow> l + length layers < length L \<Longrightarrow>
    (\<And>k. Suc k < length L \<Longrightarrow> L ! Suc k = compute_next_layer env (L ! k)) \<Longrightarrow>
    \<forall>p \<in> set ks. p < length (L ! l) \<Longrightarrow>
    \<exists>ps. multiproof_helpers env iter l layers ks = map (\<lambda>(l, p). (hex_encode env (L ! l ! p), (l, p))) ps
       \<and> (\<forall>(l, p) \<in> set ps. l < length L \<and> p < length (L ! l))"
proof (induction layers arbitrary: l ks)
  case (Cons layer layers)
  have layer: "layer = L ! l" using Cons.prems(1) [of 0] by simp
  have up: "L ! (l + 1) = compute_next_layer env (L ! l)" using Cons.prems(2) Cons.prems(3) [of l] by simp
  have "\<exists>ps. multiproof_helpers env iter (l + 1) layers (remdups (map (\<lambda>pos. pos div 2) (iter ks)))
      = map (\<lambda>(l, p). (hex_encode env (L ! l ! p), (l, p))) ps
       \<and> (\<forall>(l, p) \<in> set ps. l < length L \<and> p < length (L ! l))"
  proof (rule Cons.IH)
    show "layers ! j = L ! (l + 1 + j)" if "j < length layers" for j
      using Cons.prems(1) [of "Suc j"] that by simp
    show "\<forall>p \<in> set (remdups (map (\<lambda>pos. pos div 2) (iter ks))). p < length (L ! (l + 1))"
      using Cons.prems(4) assms up by (auto simp: merkle_level.length_level)
  qed (use Cons.prems in auto)
  then obtain ps where ps: "multiproof_helpers env iter (l + 1) layers
        (remdups (map (\<lambda>pos. pos div 2) (iter ks)))
      = map (\<lambda>(l, p). (hex_encode env (L ! l ! p), (l, p))) ps"
    "\<forall>(l, p) \<in> set ps. l < length L \<and> p < length (L ! l)" by blast
  let ?f = "\<lambda>pos. multiproof_sibling (length layer) pos"
  let ?qs = "map (\<lambda>pos. (l, ?f pos)) (filter (\<lambda>pos. ?f pos \<noteq> pos \<and> ?f pos \<notin> set ks) (iter ks))"
  have "?f p < length (L ! l)" if "p \<in> set ks" for p
    using Cons.prems(4) that layer by (auto simp: multiproof_sibling_def)
  then have "\<forall>(l, p) \<in> set ?qs. l < length L \<and> p < length (L ! l)"
    using Cons.prems(2) assms by auto
  with ps show ?case
    by (intro exI [of _ "?qs @ ps"])
      (auto simp: multiproof_layer_helpers_def Let_def layer)
qed simp

text \<open>
  C25: multiproofs are complete. For every non-empty choice of leaves of a tree, and
  whatever the iteration orders of the prover's and the verifier's hash tables,
  \<open>get_multiproof\<close> succeeds and \<open>verify_multiproof\<close> accepts what it returns.
\<close>
theorem get_multiproof_verifies:
  assumes "hex_roundtrip env" and "digest_32 env"
    and new: "merkle_new env xs = Inr t" and leaves: "\<forall>h \<in> set xs. length h = 32"
    and idxs: "idxs \<noteq> []" "\<forall>i \<in> set idxs. i < length xs"
    and iters: "iteration_order iter" "iteration_order iter'"
  shows "\<exists>p. get_multiproof env iter t idxs = Inr p \<and> verify_multiproof env iter' p = Inr True"
proof -
  let ?L = "merkle_layers env xs" and ?ks = "remdups_adj (sort idxs)"
  let ?hs = "multiproof_helpers env iter 0 (butlast ?L) ?ks"
  have xs: "xs \<noteq> []" and t: "mt_leaves t = xs" "mt_layers t = ?L" "mt_root t = last ?L ! 0"
    using new by (auto simp: merkle_new_def Let_def split: if_splits)
  have nth: "?L ! Suc k = compute_next_layer env (?L ! k)" if "Suc k < length ?L" for k
    using merkle_layers_nth_Suc [OF that] by simp
  have bl: "butlast ?L ! j = ?L ! (0 + j)" if "j < length (butlast ?L)" for j
    using that by (simp add: nth_butlast)
  have len: "0 + length (butlast ?L) < length ?L" by simp
  have ks: "set ?ks = set idxs" "\<forall>p \<in> set ?ks. p < length (?L ! 0)" using idxs by auto
  obtain ps where ps: "?hs = map (\<lambda>(l, p). (hex_encode env (?L ! l ! p), (l, p))) ps"
    "\<forall>(l, p) \<in> set ps. l < length ?L \<and> p < length (?L ! l)"
    using multiproof_helpers_in_tree [OF iteration_order_set [OF iters(1)] bl len nth ks(2)] by blast
  have 32: "length (?L ! l ! p) = 32" if "l < length ?L" "p < length (?L ! l)" for l p
    using merkle_layers_32 [OF assms(2) leaves, of "?L ! l"] that by auto
  let ?k0 = "fold (\<lambda>(l, p). AList.update (l, p) (?L ! l ! p)) (map (Pair 0) ?ks) []"
  let ?k1 = "fold (\<lambda>(l, p). AList.update (l, p) (?L ! l ! p)) ps ?k0"
  have zip0: "zip (map (Pair 0) ?ks) (map (\<lambda>i. hex_encode env (xs ! i)) ?ks)
      = map (\<lambda>(l, p). ((l, p), hex_encode env (?L ! l ! p))) (map (Pair 0) ?ks)"
    by (simp add: zip_map_map zip_same_conv_map o_def)
  have zip1: "zip (map snd ?hs) (map fst ?hs) = map (\<lambda>(l, p). ((l, p), hex_encode env (?L ! l ! p))) ps"
    unfolding ps(1) by (induction ps) auto
  have ins0: "insert_known env (zip (map (Pair 0) ?ks) (map (\<lambda>i. hex_encode env (xs ! i)) ?ks)) [] = Inr ?k0"
    unfolding zip0 by (rule insert_known_encoded [OF assms(1)]) (use ks(2) 32 [of 0] in auto)
  have ins1: "insert_known env (zip (map snd ?hs) (map fst ?hs)) ?k0 = Inr ?k1"
    unfolding zip1 by (rule insert_known_encoded [OF assms(1)]) (use ps(2) 32 in auto)
  have "known_ok ?L ?k0"
    by (rule known_ok_fold) (use ks(2) in \<open>auto simp: known_ok_def\<close>)
  then have ok: "known_ok ?L ?k1" by (rule known_ok_fold [OF _ ps(2)])
  have dom: "dom (map_of ?k1) = Pair 0 ` set idxs \<union> set ps"
    using ks(1) by (simp add: dom_fold_update)
  have "covers (butlast ?L) 0 (set ?ks) ?k1"
    by (rule multiproof_helpers_covers [OF iteration_order_set [OF iters(1)], where env = env])
      (use dom in \<open>auto simp: ps(1)\<close>)
  note reach = hash_layers_reach [OF iteration_order_set [OF iters(2)] nth ok this len bl]
  let ?kn = "hash_layers env iter' 0 (map length (butlast ?L)) ?k1"
  have "known_ok ?L ?kn \<and> (\<forall>p \<in> set ?ks. \<exists>q. (0 + length (butlast ?L), q) \<in> dom (map_of ?kn))"
    by (rule reach) (use dom ks(1) in auto)
  with idxs ks(1) obtain q v where kn: "known_ok ?L ?kn" "map_of ?kn (length ?L - 1, q) = Some v"
    by (cases idxs) fastforce+
  from known_okD [OF kn] merkle_layers_last [OF xs, of env]
  have "q = 0" "v = mt_root t" using t(3) by (auto simp: last_conv_nth)
  moreover have "take (length ?L - 1) (map length ?L) = map length (butlast ?L)"
    by (simp add: butlast_conv_take take_map)
  ultimately show ?thesis
    using idxs t kn(2) ins0 ins1 xs
    by (auto simp: get_multiproof_def verify_multiproof_def Let_def not_le layer_sizes_layers [OF xs, of env]
        root_hex_def)
qed

theorem get_multiproof_verifies_witness:
  "\<exists>t p. merkle_new sample_env (map (replicate 32) [1, 2, 3, 4, 5]) = Inr t
     \<and> get_multiproof sample_env rev t [4, 1, 1] = Inr p
     \<and> verify_multiproof sample_env (\<lambda>xs. xs) p = Inr True"
proof -
  obtain t where t: "merkle_new sample_env (map (replicate 32) [1, 2, 3, 4, 5]) = Inr t"
    by (simp add: merkle_new_def Let_def)
  with get_multiproof_verifies [OF sample_env_hex sample_env_digest t _ _ _ iteration_order_rev
      iteration_order_id, of "[4, 1, 1]"]
  show ?thesis by fastforce
qed

text \<open>The verifier rejects a malformed multiproof with an error, never with a verdict.\<close>

lemma verify_multiproof_malformed:
  "length (mm_leaf_hashes p) \<noteq> length (mm_leaf_indices p)
   \<or> length (mm_helper_hashes p) \<noteq> length (mm_helper_indices p) \<or> mm_num_leaves p = 0 \<Longrightarrow>
   verify_multiproof env iter p = Inl InvalidProof"
  by (auto simp: verify_multiproof_def)

end
