(* ===== verification/Rinku_F64.thy ===== *)
theory Rinku_F64
  imports Rinku_Prelude Complex_Main "HOL-Library.Log_Nat"
begin

text \<open>
  Rust's \<open>f64\<close>, for the parts of the node that compute shares, percentages and weights
  in floating point. A finite value is the rational it denotes; every arithmetic
  operation is the exact rational operation followed by \<open>rnd\<close>, the IEEE 754 rounding
  to 53 significant bits, nearest with ties to even, gradual underflow at \<open>2 ^ (-1074)\<close>
  and overflow to infinity at \<open>2 ^ 1024\<close>. A decimal literal \<open>0.15\<close> of the source is
  \<open>rnd (15 / 100)\<close>. The sign of zero is not represented: no code modelled here divides
  by a zero or prints one. Transcendental functions (\<open>powf\<close>, \<open>ln_1p\<close>) have no
  specified rounding and are arguments where the code uses them.
\<close>

section \<open>Rounding\<close>

abbreviation pow2 :: "int \<Rightarrow> rat" where
  "pow2 e \<equiv> 2 powi e"

definition ilog2 :: "rat \<Rightarrow> int" where
  "ilog2 x =
     (let (n, d) = quotient_of x; k = bitlen n - bitlen d
      in if pow2 k \<le> x then k else k - 1)"

definition round_even :: "rat \<Rightarrow> int" where
  "round_even q =
     (let f = \<lfloor>q\<rfloor>; r = q - of_int f
      in if r < 1 / 2 then f else if 1 / 2 < r then f + 1 else if even f then f else f + 1)"

definition fexp :: "rat \<Rightarrow> int" where
  "fexp x = max (ilog2 x - 52) (- 1074)"

definition rnd_pos :: "rat \<Rightarrow> rat" where
  "rnd_pos x = of_int (round_even (x / pow2 (fexp x))) * pow2 (fexp x)"

datatype f64 = Fin rat | PInf | NInf | NaN

definition rnd :: "rat \<Rightarrow> f64" where
  "rnd x =
     (if x = 0 then Fin 0
      else let r = rnd_pos \<bar>x\<bar>
           in if 2 ^ 1024 \<le> r then (if 0 < x then PInf else NInf)
              else Fin (if 0 < x then r else - r))"

text \<open>Non-negative rationals with at most 53 significant bits above \<open>2 ^ (-1074)\<close>.\<close>

definition representable :: "rat \<Rightarrow> bool" where
  "representable r \<longleftrightarrow> (\<exists>m e. - 1074 \<le> e \<and> 0 \<le> m \<and> m \<le> 2 ^ 53 \<and> r = of_int m * pow2 e)"

subsection \<open>The exponent\<close>

lemma pow2_pos [simp]: "0 < pow2 e" "pow2 e \<noteq> 0"
  by simp_all

lemma pow2_add: "pow2 (a + b) = pow2 a * pow2 b"
  by (simp add: power_int_add)

lemma pow2_mono: "a \<le> b \<Longrightarrow> pow2 a \<le> pow2 b"
  by (simp add: power_int_increasing)

lemma of_int_pow2: "0 \<le> k \<Longrightarrow> of_int (2 ^ nat k) = pow2 k"
  by (simp add: power_int_def)

lemma bitlen_pow2:
  assumes "0 < n"
  shows "pow2 (bitlen n - 1) \<le> of_int n" and "of_int n < pow2 (bitlen n)"
proof -
  have b: "0 < bitlen n"
    using assms bitlen_nonneg [of n] bitlen_eq_zero_iff [of n] by linarith
  have "2 ^ nat (bitlen n - 1) \<le> n \<and> n < 2 ^ nat (bitlen n)" using assms by (rule bitlen_bounds)
  then have "(of_int (2 ^ nat (bitlen n - 1)) :: rat) \<le> of_int n"
    and "(of_int n :: rat) < of_int (2 ^ nat (bitlen n))"
    by (simp_all only: of_int_le_iff of_int_less_iff)
  then show "pow2 (bitlen n - 1) \<le> of_int n" "of_int n < pow2 (bitlen n)"
    using b by (simp_all only: of_int_pow2)
qed

lemma ilog2_bounds:
  assumes "0 < x"
  shows "pow2 (ilog2 x) \<le> x" and "x < pow2 (ilog2 x + 1)"
proof -
  obtain n d where q: "quotient_of x = (n, d)" by (cases "quotient_of x")
  have d: "0 < d" using q by (rule quotient_of_denom_pos)
  have x: "x = of_int n / of_int d" using q by (rule quotient_of_div)
  have n: "0 < n" using assms d x by (simp add: zero_less_divide_iff)
  let ?k = "bitlen n - bitlen d"
  have "x < pow2 (bitlen n) / pow2 (bitlen d - 1)"
    unfolding x using bitlen_pow2 [OF n] bitlen_pow2 [OF d] d n by (intro frac_less) auto
  also have "\<dots> = pow2 (?k + 1)" by (simp add: power_int_diff [symmetric] algebra_simps)
  finally have up: "x < pow2 (?k + 1)" .
  have "pow2 (bitlen n - 1) / pow2 (bitlen d) \<le> x"
    unfolding x using bitlen_pow2 [OF n] bitlen_pow2 [OF d] d n by (intro frac_le) auto
  moreover have "pow2 (bitlen n - 1) / pow2 (bitlen d) = pow2 (?k - 1)"
    by (simp add: power_int_diff [symmetric] algebra_simps)
  ultimately have lo: "pow2 (?k - 1) \<le> x" by simp
  show "pow2 (ilog2 x) \<le> x" "x < pow2 (ilog2 x + 1)"
    using up lo by (auto simp: ilog2_def q Let_def)
qed

subsection \<open>Rounding to an integer\<close>

lemma round_even_near: "\<bar>q - of_int (round_even q)\<bar> \<le> 1 / 2"
  and round_even_cases: "round_even q = \<lfloor>q\<rfloor> \<or> round_even q = \<lfloor>q\<rfloor> + 1"
proof -
  have "of_int \<lfloor>q\<rfloor> \<le> q" "q < of_int \<lfloor>q\<rfloor> + 1" by linarith+
  then show "\<bar>q - of_int (round_even q)\<bar> \<le> 1 / 2"
    unfolding round_even_def Let_def by (simp; linarith)
  show "round_even q = \<lfloor>q\<rfloor> \<or> round_even q = \<lfloor>q\<rfloor> + 1" by (simp add: round_even_def Let_def)
qed

lemma round_even_nearest: "\<bar>q - of_int (round_even q)\<bar> \<le> \<bar>q - of_int k\<bar>"
proof (cases "k = round_even q")
  case False
  then have "1 \<le> \<bar>round_even q - k\<bar>" by linarith
  then have "(1::rat) \<le> \<bar>of_int (round_even q) - of_int k\<bar>"
    by (metis of_int_1 of_int_abs of_int_diff of_int_le_iff)
  with round_even_near [of q] show ?thesis by linarith
qed simp

lemma round_even_bounds: "0 \<le> q \<Longrightarrow> 0 \<le> round_even q" "q \<le> of_int k \<Longrightarrow> round_even q \<le> k"
proof -
  show "0 \<le> q \<Longrightarrow> 0 \<le> round_even q" by (auto simp: round_even_def Let_def)
  assume k: "q \<le> of_int k"
  show "round_even q \<le> k"
  proof (cases "\<lfloor>q\<rfloor> + 1 \<le> k")
    case True
    then show ?thesis by (auto simp: round_even_def Let_def)
  next
    case False
    with k have "q = of_int k" by linarith
    then show ?thesis by (auto simp: round_even_def Let_def)
  qed
qed

subsection \<open>Rounding to 53 bits\<close>

lemma fexp_bounds:
  assumes "0 < x"
  shows "- 1074 \<le> fexp x" and "x < pow2 (fexp x + 53)"
    and "- 1074 < fexp x \<Longrightarrow> pow2 (fexp x + 52) \<le> x"
proof -
  show "- 1074 \<le> fexp x" by (simp add: fexp_def)
  have "pow2 (ilog2 x + 1) \<le> pow2 (fexp x + 53)" by (rule pow2_mono) (simp add: fexp_def)
  with ilog2_bounds(2) [OF assms] show "x < pow2 (fexp x + 53)" by linarith
  show "- 1074 < fexp x \<Longrightarrow> pow2 (fexp x + 52) \<le> x"
    using ilog2_bounds(1) [OF assms] by (auto simp: fexp_def max_def split: if_splits)
qed

lemma rnd_pos_representable:
  assumes "0 < x"
  shows "representable (rnd_pos x)"
proof -
  let ?e = "fexp x"
  have "x / pow2 ?e < pow2 53"
    using fexp_bounds(2) [OF assms] by (simp add: pow2_add divide_less_eq mult.commute)
  then have "x / pow2 ?e \<le> of_int (2 ^ 53)" by simp
  then have "round_even (x / pow2 ?e) \<le> 2 ^ 53" by (rule round_even_bounds(2))
  moreover have "0 \<le> round_even (x / pow2 ?e)" using assms by (intro round_even_bounds(1)) simp
  ultimately show ?thesis
    using fexp_bounds(1) [OF assms] unfolding representable_def rnd_pos_def by blast
qed

lemma rnd_pos_nearest_multiple:
  "\<bar>x - rnd_pos x\<bar> \<le> \<bar>x - of_int k * pow2 (fexp x)\<bar>"
proof -
  let ?u = "pow2 (fexp x)"
  have "\<bar>x / ?u - of_int (round_even (x / ?u))\<bar> * ?u \<le> \<bar>x / ?u - of_int k\<bar> * ?u"
    by (intro mult_right_mono round_even_nearest) simp
  moreover have "\<bar>x / ?u - of_int j\<bar> * ?u = \<bar>x - of_int j * ?u\<bar>" for j
  proof -
    have "\<bar>x / ?u - of_int j\<bar> * ?u = \<bar>(x / ?u - of_int j) * ?u\<bar>" by (simp add: abs_mult)
    also have "(x / ?u - of_int j) * ?u = x - of_int j * ?u" by (simp add: left_diff_distrib)
    finally show ?thesis .
  qed
  ultimately show ?thesis by (simp add: rnd_pos_def)
qed

lemma rnd_pos_nearest:
  assumes "0 < x" and "representable f"
  shows "\<bar>x - rnd_pos x\<bar> \<le> \<bar>x - f\<bar>"
proof -
  obtain m e where f: "- 1074 \<le> e" "0 \<le> m" "m \<le> 2 ^ 53" "f = of_int m * pow2 e"
    using assms(2) by (auto simp: representable_def)
  let ?e = "fexp x"
  show ?thesis
  proof (cases "?e \<le> e")
    case True
    then have "of_int (2 ^ nat (e - ?e)) * pow2 ?e = pow2 e"
      by (simp only: of_int_pow2 diff_ge_0_iff_ge pow2_add [symmetric]) simp
    then have "f = of_int (m * 2 ^ nat (e - ?e)) * pow2 ?e" using f(4) by simp
    then show ?thesis using rnd_pos_nearest_multiple [of x "m * 2 ^ nat (e - ?e)"] by simp
  next
    case False
    have "f \<le> of_int (2 ^ 53) * pow2 e"
      unfolding f(4) using f(3) by (intro mult_right_mono) (auto simp only: of_int_le_iff pow2_pos less_imp_le)
    also have "\<dots> = pow2 (e + 53)" by (simp add: pow2_add)
    also have "\<dots> \<le> pow2 (?e + 52)" using False by (intro pow2_mono) simp
    finally have "f \<le> pow2 (?e + 52)" .
    moreover have "pow2 (?e + 52) \<le> x" using fexp_bounds(3) [OF assms(1)] False f(1) by simp
    moreover have "\<bar>x - rnd_pos x\<bar> \<le> \<bar>x - pow2 (?e + 52)\<bar>"
      using rnd_pos_nearest_multiple [of x "2 ^ 52"] by (simp add: pow2_add mult.commute)
    ultimately show ?thesis by linarith
  qed
qed

lemma rnd_pos_exact: "0 < x \<Longrightarrow> representable x \<Longrightarrow> rnd_pos x = x"
  using rnd_pos_nearest [of x x] by simp

lemma rnd_pos_mono: "0 < x \<Longrightarrow> x \<le> y \<Longrightarrow> rnd_pos x \<le> rnd_pos y"
proof (cases "x = y")
  case False
  assume "0 < x" "x \<le> y"
  with False rnd_pos_nearest [of x "rnd_pos y"] rnd_pos_nearest [of y "rnd_pos x"]
    rnd_pos_representable [of x] rnd_pos_representable [of y]
  show ?thesis by linarith
qed simp

lemma rnd_pos_nonneg: "0 < x \<Longrightarrow> 0 \<le> rnd_pos x"
  using rnd_pos_representable [of x] by (auto simp: representable_def)

lemma rnd_pos_le: "0 < x \<Longrightarrow> x \<le> f \<Longrightarrow> representable f \<Longrightarrow> rnd_pos x \<le> f"
  by (metis order_less_le_trans rnd_pos_exact rnd_pos_mono)

lemma rnd_pos_ge: "0 < f \<Longrightarrow> f \<le> x \<Longrightarrow> representable f \<Longrightarrow> f \<le> rnd_pos x"
  by (metis rnd_pos_exact rnd_pos_mono)

lemma representable_pow2: "- 1074 \<le> e \<Longrightarrow> representable (pow2 e)"
  unfolding representable_def by (intro exI [of _ 1] exI [of _ e]) simp

lemma representable_of_nat: "n \<le> 2 ^ 53 \<Longrightarrow> representable (of_nat n)"
proof -
  assume "n \<le> 2 ^ 53"
  then have "int n \<le> 2 ^ 53" by (metis of_nat_le_iff of_nat_numeral of_nat_power)
  then show ?thesis
    unfolding representable_def by (intro exI [of _ "int n"] exI [of _ 0]) simp
qed

lemma representable_0 [simp]: "representable 0"
  using representable_of_nat [of 0] by simp

section \<open>Operations\<close>

text \<open>\<open>n as f64\<close> and the saturating, truncating \<open>x as u64\<close>.\<close>

definition urat :: "u64 \<Rightarrow> rat" where
  "urat n = of_int (uint n)"

definition f64_of_u64 :: "u64 \<Rightarrow> f64" where
  "f64_of_u64 n = rnd (urat n)"

fun to_u64 :: "f64 \<Rightarrow> u64" where
  "to_u64 (Fin a) = (if a < 0 then 0 else if 2 ^ 64 \<le> a then - 1 else word_of_int \<lfloor>a\<rfloor>)"
| "to_u64 PInf = - 1"
| "to_u64 NInf = 0"
| "to_u64 NaN = 0"

text \<open>\<open>f64::round\<close>: to the nearest integer, half away from zero.\<close>

fun f64_round :: "f64 \<Rightarrow> f64" where
  "f64_round (Fin a) = Fin (if a < 0 then - of_int \<lfloor>- a + 1 / 2\<rfloor> else of_int \<lfloor>a + 1 / 2\<rfloor>)"
| "f64_round x = x"

fun f64_sgn :: "f64 \<Rightarrow> int" where
  "f64_sgn (Fin a) = (if 0 < a then 1 else if a < 0 then - 1 else 0)"
| "f64_sgn PInf = 1"
| "f64_sgn NInf = - 1"
| "f64_sgn NaN = 0"

definition f64_inf :: "int \<Rightarrow> f64" where
  "f64_inf s = (if 0 < s then PInf else if s < 0 then NInf else NaN)"

fun f64_mul :: "f64 \<Rightarrow> f64 \<Rightarrow> f64" where
  "f64_mul (Fin a) (Fin b) = rnd (a * b)"
| "f64_mul x y = f64_inf (f64_sgn x * f64_sgn y)"

fun f64_add :: "f64 \<Rightarrow> f64 \<Rightarrow> f64" where
  "f64_add (Fin a) (Fin b) = rnd (a + b)"
| "f64_add NaN y = NaN"
| "f64_add x NaN = NaN"
| "f64_add PInf NInf = NaN"
| "f64_add NInf PInf = NaN"
| "f64_add (Fin a) y = y"
| "f64_add x y = x"

fun f64_neg :: "f64 \<Rightarrow> f64" where
  "f64_neg (Fin a) = Fin (- a)"
| "f64_neg PInf = NInf"
| "f64_neg NInf = PInf"
| "f64_neg NaN = NaN"

definition f64_sub :: "f64 \<Rightarrow> f64 \<Rightarrow> f64" where
  "f64_sub x y = f64_add x (f64_neg y)"

fun f64_div :: "f64 \<Rightarrow> f64 \<Rightarrow> f64" where
  "f64_div (Fin a) (Fin b) = (if b = 0 then f64_inf (f64_sgn (Fin a)) else rnd (a / b))"
| "f64_div NaN y = NaN"
| "f64_div x NaN = NaN"
| "f64_div (Fin a) y = Fin 0"
| "f64_div x (Fin b) = f64_inf (f64_sgn x * (if b < 0 then - 1 else 1))"
| "f64_div x y = NaN"

fun f64_lt :: "f64 \<Rightarrow> f64 \<Rightarrow> bool" where
  "f64_lt (Fin a) (Fin b) = (a < b)"
| "f64_lt NaN y = False"
| "f64_lt x NaN = False"
| "f64_lt NInf y = (y \<noteq> NInf)"
| "f64_lt x PInf = (x \<noteq> PInf)"
| "f64_lt x y = False"

definition f64_le :: "f64 \<Rightarrow> f64 \<Rightarrow> bool" where
  "f64_le x y \<longleftrightarrow> x \<noteq> NaN \<and> y \<noteq> NaN \<and> (f64_lt x y \<or> x = y)"

definition f64_abs :: "f64 \<Rightarrow> f64" where
  "f64_abs x = (if f64_lt x (Fin 0) then f64_neg x else x)"

text \<open>\<open>f64::min\<close> and \<open>f64::max\<close> return the other operand when one is not a number.\<close>

definition f64_min :: "f64 \<Rightarrow> f64 \<Rightarrow> f64" where
  "f64_min x y = (if x = NaN then y else if y = NaN then x else if f64_lt y x then y else x)"

definition f64_max :: "f64 \<Rightarrow> f64 \<Rightarrow> f64" where
  "f64_max x y = (if x = NaN then y else if y = NaN then x else if f64_lt x y then y else x)"

text \<open>\<open>iter().sum::<f64>()\<close>: a left fold (Rust starts it from \<open>-0.0\<close>, which is zero here).\<close>

definition f64_sum :: "f64 list \<Rightarrow> f64" where
  "f64_sum xs = foldl f64_add (Fin 0) xs"

subsection \<open>Bounds\<close>

definition rndq :: "rat \<Rightarrow> rat" where
  "rndq x = (if x = 0 then 0 else rnd_pos x)"

lemma rndq_nonneg: "0 \<le> x \<Longrightarrow> 0 \<le> rndq x"
  by (auto simp: rndq_def rnd_pos_nonneg)

lemma rndq_le: "0 \<le> x \<Longrightarrow> x \<le> f \<Longrightarrow> representable f \<Longrightarrow> rndq x \<le> f"
  by (auto simp: rndq_def rnd_pos_le)

lemma rndq_mono: "0 \<le> x \<Longrightarrow> x \<le> y \<Longrightarrow> rndq x \<le> rndq y"
  by (auto simp: rndq_def rnd_pos_mono rnd_pos_nonneg)

lemma rndq_exact: "0 \<le> x \<Longrightarrow> representable x \<Longrightarrow> rndq x = x"
  by (auto simp: rndq_def rnd_pos_exact)

lemma rnd_nonneg: "0 \<le> x \<Longrightarrow> x \<le> 2 ^ 1000 \<Longrightarrow> rnd x = Fin (rndq x)"
proof -
  assume x: "0 \<le> x" "x \<le> 2 ^ 1000"
  have "rndq x \<le> pow2 1000"
    by (rule rndq_le [OF x(1) _ representable_pow2]) (use x(2) in \<open>simp_all add: power_int_def\<close>)
  also have "pow2 1000 < pow2 1024" by (rule power_int_strict_increasing) simp_all
  finally have "rndq x < 2 ^ 1024" by (simp only: power_int_def) simp
  then have "\<not> 2 ^ 1024 \<le> rndq x" by (simp only: not_le)
  then show ?thesis using x unfolding rnd_def rndq_def Let_def by (cases "x = 0") auto
qed

lemma urat_unat: "urat n = of_nat (unat n)"
  unfolding urat_def by (metis of_int_of_nat_eq uint_nat)

lemma urat_nonneg [simp]: "0 \<le> urat n"
  unfolding urat_unat by (rule of_nat_0_le_iff)

lemma urat_le_iff: "urat n \<le> of_nat k \<longleftrightarrow> unat n \<le> k"
  unfolding urat_unat by (rule of_nat_le_iff)

lemma urat_le_pow2: "urat n \<le> pow2 64"
proof -
  have "urat n \<le> of_nat (2 ^ 64)" unfolding urat_le_iff using unat_u64_bound [of n] by simp
  then show ?thesis by (simp add: power_int_def)
qed

lemma representable_urat: "unat n \<le> 2 ^ 53 \<Longrightarrow> representable (urat n)"
  unfolding urat_unat by (rule representable_of_nat)

lemma pow2_64_small: "pow2 64 \<le> 2 ^ 1000"
proof -
  have "pow2 64 \<le> pow2 1000" by (rule pow2_mono) simp
  then show ?thesis by (simp add: power_int_def)
qed

lemma f64_of_u64_Fin: "f64_of_u64 n = Fin (rndq (urat n))"
  unfolding f64_of_u64_def by (rule rnd_nonneg [OF urat_nonneg order_trans [OF urat_le_pow2 pow2_64_small]])

lemma f64_of_u64_exact: "unat n \<le> 2 ^ 53 \<Longrightarrow> f64_of_u64 n = Fin (urat n)"
  by (simp add: f64_of_u64_Fin rndq_exact representable_urat)

lemma unat_to_u64:
  assumes "0 \<le> a" and "a \<le> of_nat k"
  shows "unat (to_u64 (Fin a)) \<le> k"
proof (cases "2 ^ 64 \<le> a")
  case True
  with assms(2) have "(of_nat (2 ^ 64) :: rat) \<le> of_nat k" by simp
  then have "2 ^ 64 \<le> k" by (simp only: of_nat_le_iff)
  with unat_u64_bound [of "to_u64 (Fin a)"] show ?thesis by linarith
next
  case False
  have nn: "0 \<le> \<lfloor>a\<rfloor>" and k: "nat \<lfloor>a\<rfloor> \<le> k" using assms by linarith+
  have "(word_of_int \<lfloor>a\<rfloor> :: u64) = word_of_nat (nat \<lfloor>a\<rfloor>)"
    using nn by (metis int_nat_eq of_int_of_nat_eq)
  moreover have "unat (word_of_nat (nat \<lfloor>a\<rfloor>) :: u64) \<le> nat \<lfloor>a\<rfloor>" by (simp add: unat_of_nat)
  ultimately show ?thesis using False assms(1) k by simp
qed

lemma floor_half_le: "(a :: rat) \<le> of_nat k \<Longrightarrow> of_int \<lfloor>a + 1 / 2\<rfloor> \<le> (of_nat k :: rat)"
proof -
  assume "a \<le> of_nat k"
  then have "\<lfloor>a + 1 / 2\<rfloor> \<le> int k" by linarith
  then show ?thesis by (metis of_int_le_iff of_int_of_nat_eq)
qed

text \<open>
  The two ways the code takes a share of an amount: \<open>f64_share\<close> is
  \<open>(x as f64 * c).round() as u64\<close>, to the nearest, and \<open>f64_trunc_share\<close> is
  \<open>(x as f64 * c) as u64\<close>, which truncates. A share of at most one half never exceeds the amount,
  whatever the amount; a share of at most one does not while amounts are exact in \<open>f64\<close>.
\<close>

definition f64_share :: "u64 \<Rightarrow> f64 \<Rightarrow> u64" where
  "f64_share x c = to_u64 (f64_round (f64_mul (f64_of_u64 x) c))"

definition f64_trunc_share :: "u64 \<Rightarrow> f64 \<Rightarrow> u64" where
  "f64_trunc_share x c = to_u64 (f64_mul (f64_of_u64 x) c)"

lemma f64_mul_nonneg:
  assumes "0 \<le> c" and "c \<le> 1"
  shows "f64_mul (f64_of_u64 x) (Fin c) = Fin (rndq (rndq (urat x) * c))"
proof -
  let ?x = "urat x"
  have "rndq ?x \<le> pow2 64" using urat_le_pow2 by (intro rndq_le representable_pow2) auto
  moreover have "0 \<le> rndq ?x" by (simp add: rndq_nonneg)
  ultimately have "rndq ?x * c \<le> pow2 64 * 1" using assms by (intro mult_mono) auto
  also have "\<dots> \<le> 2 ^ 1000" using pow2_64_small by (simp only: mult_1_right)
  finally show ?thesis
    using assms \<open>0 \<le> rndq ?x\<close> by (simp add: f64_of_u64_Fin rnd_nonneg)
qed

lemma f64_share_le_bound:
  assumes "0 \<le> c" "c \<le> 1" and "rndq (rndq (urat x) * c) \<le> of_nat k"
  shows "unat (f64_share x (Fin c)) \<le> k" and "unat (f64_trunc_share x (Fin c)) \<le> k"
proof -
  have nn: "0 \<le> rndq (rndq (urat x) * c)" using assms by (simp add: rndq_nonneg)
  with assms show "unat (f64_trunc_share x (Fin c)) \<le> k"
    by (simp only: f64_trunc_share_def f64_mul_nonneg unat_to_u64)
  have "(0 :: rat) \<le> of_int \<lfloor>rndq (rndq (urat x) * c) + 1 / 2\<rfloor>" using nn by simp
  from unat_to_u64 [OF this floor_half_le [OF assms(3)]] nn
  show "unat (f64_share x (Fin c)) \<le> k"
    by (simp add: f64_share_def f64_mul_nonneg [OF assms(1,2)] del: to_u64.simps)
qed

lemma f64_share_exact_le:
  assumes "0 \<le> c" "c \<le> 1" and "unat x \<le> 2 ^ 53"
  shows "unat (f64_share x (Fin c)) \<le> unat x" and "unat (f64_trunc_share x (Fin c)) \<le> unat x"
proof -
  let ?x = "urat x"
  have "rndq ?x = ?x" using assms(3) by (simp add: rndq_exact representable_urat)
  moreover have "rndq (?x * c) \<le> ?x"
    using assms by (intro rndq_le representable_urat) (auto intro: mult_left_le)
  ultimately have "rndq (rndq ?x * c) \<le> of_nat (unat x)" by (simp only: urat_unat)
  from f64_share_le_bound [OF assms(1,2) this]
  show "unat (f64_share x (Fin c)) \<le> unat x" "unat (f64_trunc_share x (Fin c)) \<le> unat x"
    by auto
qed

lemma f64_share_half_le:
  assumes "0 \<le> c" "c \<le> 1 / 2"
  shows "unat (f64_share x (Fin c)) \<le> unat x"
proof (cases "unat x = 0")
  case True
  then show ?thesis using f64_share_exact_le(1) [of c x] assms by simp
next
  case False
  let ?x = "urat x"
  have x1: "1 \<le> ?x"
    using False unfolding urat_unat by (metis One_nat_def Suc_leI of_nat_1 of_nat_le_iff not_gr_zero)
  then have x: "0 < ?x" by simp
  let ?k = "ilog2 ?x"
  have k0: "0 \<le> ?k"
  proof (rule ccontr)
    assume "\<not> 0 \<le> ?k"
    then have "pow2 (?k + 1) \<le> pow2 0" by (intro pow2_mono) simp
    with ilog2_bounds(2) [OF x] x1 show False by simp
  qed
  have "rndq ?x \<le> pow2 (?k + 1)"
    using ilog2_bounds(2) [OF x] k0 by (intro rndq_le representable_pow2) auto
  moreover have "0 \<le> rndq ?x" by (simp add: rndq_nonneg)
  ultimately have "rndq ?x * c \<le> pow2 (?k + 1) * (1 / 2)" using assms by (intro mult_mono) auto
  also have "\<dots> = pow2 ?k" by (simp add: pow2_add)
  finally have "rndq (rndq ?x * c) \<le> pow2 ?k"
    using assms k0 \<open>0 \<le> rndq ?x\<close> by (intro rndq_le representable_pow2) auto
  also have "\<dots> \<le> ?x" by (rule ilog2_bounds(1) [OF x])
  finally show ?thesis using assms by (intro f64_share_le_bound(1)) (auto simp: urat_unat)
qed

lemma rnd_literal_bounds:
  assumes "0 \<le> x" "x \<le> f" "representable f" "f \<le> 1"
  shows "rnd x = Fin (rndq x)" "0 \<le> rndq x" "rndq x \<le> f"
  using assms rnd_nonneg [of x] by (auto simp: rndq_nonneg rndq_le)

end
