(* ===== verification/Rinku_Types.thy ===== *)
theory Rinku_Types
  imports Rinku_F64
begin

text \<open>
  The data model of \<open>rinku-core/src/types.rs\<close>: transactions and their kinds, accounts,
  checkpoints, validators, DAG nodes, fast-path acknowledgements and weight votes, each
  struct a record and each enum a datatype with the source's constructors, and the pure
  methods the structs carry. Amounts are \<open>u64\<close> micro-units. Field names carry a prefix
  of the struct they belong to, since record fields share one name space.
\<close>

section \<open>Transactions\<close>

datatype TransactionKind =
  Transfer | Stake | Unstake | ClaimRewards | Contract | Consolidation | Reward | DataOnly

datatype PartitionSafety = Safe | BoundedSpend | CpOnly

fun partition_safety :: "TransactionKind \<Rightarrow> PartitionSafety" where
  "partition_safety DataOnly = Safe"
| "partition_safety Consolidation = Safe"
| "partition_safety Reward = Safe"
| "partition_safety Transfer = BoundedSpend"
| "partition_safety Contract = BoundedSpend"
| "partition_safety Stake = CpOnly"
| "partition_safety Unstake = CpOnly"
| "partition_safety ClaimRewards = CpOnly"

definition is_partition_safe :: "TransactionKind \<Rightarrow> bool" where
  "is_partition_safe k \<longleftrightarrow> partition_safety k = Safe"

definition allowed_during_partition :: "TransactionKind \<Rightarrow> u64 option \<Rightarrow> u64 \<Rightarrow> bool" where
  "allowed_during_partition k partition_budget_remaining tx_cost =
     (case partition_safety k of
        Safe \<Rightarrow> True
      | BoundedSpend \<Rightarrow>
          (case partition_budget_remaining of
             Some budget \<Rightarrow> tx_cost \<le> budget
           | None \<Rightarrow> True)
      | CpOnly \<Rightarrow> False)"

fun PartitionSafety_fmt :: "PartitionSafety \<Rightarrow> string" where
  "PartitionSafety_fmt Safe = ''safe''"
| "PartitionSafety_fmt BoundedSpend = ''bounded_spend''"
| "PartitionSafety_fmt CpOnly = ''cp_only''"

datatype TransactionLane = FastPath | CheckpointLane

datatype FastPathStatus = Pending | Confirmed | Finalized

record Transaction =
  tx_from :: string
  tx_to :: string
  tx_amount :: u64
  tx_nonce :: u64
  tx_timestamp :: u64
  tx_parents :: "string list"
  tx_kind :: "TransactionKind option"
  tx_gas_limit :: "u64 option"
  tx_gas_price :: "u64 option"
  tx_data :: "string option"
  tx_signature :: "string option"
  tx_memo :: "string option"
  tx_references :: "string list option"

record SignedTransaction =
  st_tx :: Transaction
  st_hash :: string
  st_signature :: string

definition classify_lane :: "Transaction \<Rightarrow> TransactionLane" where
  "classify_lane tx = (case tx_kind tx of Some Contract \<Rightarrow> CheckpointLane | _ \<Rightarrow> FastPath)"

definition tx_is_fast_path_eligible :: "Transaction \<Rightarrow> bool" where
  "tx_is_fast_path_eligible tx \<longleftrightarrow> classify_lane tx = FastPath"

definition tx_is_data_only :: "Transaction \<Rightarrow> bool" where
  "tx_is_data_only tx \<longleftrightarrow>
     tx_amount tx = 0 \<and> (tx_memo tx \<noteq> None \<or> tx_references tx \<noteq> None)
     \<and> tx_kind tx \<notin> {Some Stake, Some Unstake, Some ClaimRewards, Some Contract}"

definition is_fast_path_eligible :: "SignedTransaction \<Rightarrow> bool" where
  "is_fast_path_eligible tx \<longleftrightarrow> tx_is_fast_path_eligible (st_tx tx)"

definition is_data_only :: "SignedTransaction \<Rightarrow> bool" where
  "is_data_only tx \<longleftrightarrow> tx_is_data_only (st_tx tx)"

section \<open>Micro-units\<close>

definition MICRO_UNITS :: u64 where
  "MICRO_UNITS = 100000000"

definition to_micro_units :: "f64 \<Rightarrow> u64" where
  "to_micro_units value = to_u64 (f64_round (f64_mul value (f64_of_u64 MICRO_UNITS)))"

definition from_micro_units :: "u64 \<Rightarrow> f64" where
  "from_micro_units micro = f64_div (f64_of_u64 micro) (f64_of_u64 MICRO_UNITS)"

section \<open>Fast path\<close>

record FastPathAck =
  ack_tx_hash :: string
  ack_validator_address :: string
  ack_validator_stake :: u64
  ack_bls_signature :: "string option"
  ack_timestamp_ms :: u64

record FastPathFinality =
  fin_tx_hash :: string
  fin_status :: FastPathStatus
  fin_acks :: "FastPathAck list"
  fin_total_stake_acked :: u64
  fin_quorum_stake_required :: u64
  fin_registered_at_ms :: u64
  fin_confirmed_at_ms :: "u64 option"
  fin_checkpoint_height :: "u64 option"
  fin_tx_created_at_ms :: "u64 option"

definition finality_time_ms :: "FastPathFinality \<Rightarrow> u64 option" where
  "finality_time_ms f =
     (let start = unwrap_or (fin_tx_created_at_ms f) (fin_registered_at_ms f)
      in map_option (\<lambda>confirmed. saturating_sub confirmed start) (fin_confirmed_at_ms f))"

record FastPathFinalizationCert =
  fpc_total_stake :: u64
  fpc_quorum_required :: u64
  fpc_confirmed_at_ms :: u64
  fpc_acks :: "FastPathAck list"

section \<open>Accounts, checkpoints, validators\<close>

text \<open>
  \<open>latest_balance_proof\<close> (a cached \<open>AccountStateProof\<close> for clients) is left out of
  the account: no modelled operation reads or writes it.
\<close>

record Account =
  acc_address :: string
  acc_balance :: u64
  acc_nonce :: u64
  acc_first_seen :: u64
  acc_staked :: u64
  acc_unbonding :: u64
  acc_unbonding_release :: "u64 option"
  acc_partition_violations :: u32
  acc_reputation_penalty :: f64
  acc_penalty_decay_checkpoint :: "u64 option"
  acc_partition_budget :: "u64 option"
  acc_partition_budget_spent :: u64
  acc_ecdsa_public_key :: "string option"

definition Account_new :: "string \<Rightarrow> u64 \<Rightarrow> Account" where
  "Account_new address timestamp =
     \<lparr>acc_address = address, acc_balance = 0, acc_nonce = 0, acc_first_seen = timestamp,
      acc_staked = 0, acc_unbonding = 0, acc_unbonding_release = None,
      acc_partition_violations = 0, acc_reputation_penalty = Fin 0,
      acc_penalty_decay_checkpoint = None, acc_partition_budget = None,
      acc_partition_budget_spent = 0, acc_ecdsa_public_key = None\<rparr>"

record ValidatorSignature =
  vs_validator :: string
  vs_signature :: string
  vs_weight :: u64
  vs_bls_public_key :: "string option"

record ViewChangeVote =
  vcv_validator_address :: string
  vcv_validator_stake :: u64
  vcv_bls_signature :: "string option"

record ViewChangeCertificate =
  vcc_height :: u64
  vcc_view :: u32
  vcc_votes :: "ViewChangeVote list"
  vcc_total_stake :: u64
  vcc_quorum_stake :: u64

record Checkpoint =
  cp_height :: u64
  cp_hash :: string
  cp_previous_hash :: "string option"
  cp_tx_merkle_root :: string
  cp_state_root :: string
  cp_receipt_root :: string
  cp_tip_count :: u32
  cp_timestamp :: u64
  cp_validator_signatures :: "ValidatorSignature list"
  cp_aggregated_signature :: "string option"
  cp_signer_bitmap :: "byte list option"
  cp_finalized_tx_hashes :: "string list"
  cp_weight_trie_root :: string
  cp_provisional :: bool
  cp_partition_epoch :: "u64 option"
  cp_visible_stake_pct :: "f64 option"
  cp_merge_report_hash :: "string option"
  cp_view_change_certificate :: "ViewChangeCertificate option"
  cp_view :: u32

record Validator =
  val_address :: string
  val_stake :: u64
  val_first_stake_time :: u64
  val_bls_public_key :: "string option"
  val_missed_checkpoints :: u32

section \<open>DAG nodes\<close>

record DagNode =
  dn_hash :: string
  dn_tx :: SignedTransaction
  dn_parents :: "string list"
  dn_children :: "string list"
  dn_weight :: f64
  dn_finalized :: bool
  dn_checkpoint_height :: "u64 option"
  dn_received_at_ms :: "u64 option"
  dn_partition_epoch :: "u64 option"
  dn_rolled_back :: bool
  dn_fast_path_cert :: "FastPathFinalizationCert option"

section \<open>Configuration\<close>

record GasConfig =
  gc_min_gas_price :: u64
  gc_max_gas_price :: u64
  gc_target_txs_per_period :: u32
  gc_adjustment_factor :: f64
  gc_period_duration_ms :: u64

definition GasConfig_default :: GasConfig where
  "GasConfig_default =
     \<lparr>gc_min_gas_price = 100000, gc_max_gas_price = 1000000000, gc_target_txs_per_period = 600,
      gc_adjustment_factor = rnd (125 / 1000), gc_period_duration_ms = 15000\<rparr>"

section \<open>Weight votes\<close>

datatype WeightVote = Boost | Suppress | Neutral

fun WeightVote_value :: "WeightVote \<Rightarrow> int" where
  "WeightVote_value Boost = 1"
| "WeightVote_value Suppress = - 1"
| "WeightVote_value Neutral = 0"

text \<open>\<open>net_weight\<close> is an \<open>i64\<close>: the word read as signed.\<close>

record AggregatedWeight =
  aw_boost_stake_micro :: u64
  aw_suppress_stake_micro :: u64
  aw_neutral_stake_micro :: u64
  aw_net_weight :: "64 word"
  aw_attestation_count :: u32
  aw_total_network_stake_micro :: u64

definition AggregatedWeight_default :: AggregatedWeight where
  "AggregatedWeight_default =
     \<lparr>aw_boost_stake_micro = 0, aw_suppress_stake_micro = 0, aw_neutral_stake_micro = 0,
      aw_net_weight = 0, aw_attestation_count = 0, aw_total_network_stake_micro = 0\<rparr>"

record PendingWeightVote =
  pv_tx_hash :: string
  pv_validator_pubkey :: string
  pv_vote :: WeightVote
  pv_timestamp_ms :: u64
  pv_bls_signature :: "string option"

record WeightTrieLeaf =
  wl_tx_hash :: string
  wl_boost_stake_micro :: u64
  wl_suppress_stake_micro :: u64
  wl_neutral_stake_micro :: u64
  wl_total_network_stake_micro :: u64
  wl_attestation_count :: u32

section \<open>Facts\<close>

lemma allowed_during_partition_iff:
  "allowed_during_partition k b c \<longleftrightarrow>
     partition_safety k = Safe
     \<or> partition_safety k = BoundedSpend \<and> (\<forall>budget. b = Some budget \<longrightarrow> c \<le> budget)"
  by (auto simp: allowed_during_partition_def split: PartitionSafety.splits option.splits)

lemma data_only_fast_path: "tx_is_data_only tx \<Longrightarrow> tx_is_fast_path_eligible tx"
  by (auto simp: tx_is_data_only_def tx_is_fast_path_eligible_def classify_lane_def
      split: option.splits TransactionKind.splits)

end
