(* ===== verification/Rinku_Collections.thy ===== *)
theory Rinku_Collections
  imports Rinku_Prelude "HOL-Library.AList"
begin

text \<open>
  The standard library's hash maps, hash sets and decimal formatting, as the sources use
  them. A \<open>HashMap\<close> that the code iterates over is the list of its entries, with
  distinct keys (\<open>hm_wf\<close>); the order of the list carries no meaning, and wherever the
  code iterates the model permutes it with an \<open>iter\<close> argument about which only
  \<open>iteration_order\<close> is known. A \<open>HashSet\<close> is a distinct list in the same way.
\<close>

section \<open>Hash maps\<close>

type_synonym ('k, 'v) hash_map = "('k \<times> 'v) list"

abbreviation hm_get :: "('k, 'v) hash_map \<Rightarrow> 'k \<Rightarrow> 'v option" where
  "hm_get m k \<equiv> map_of m k"

abbreviation hm_keys :: "('k, 'v) hash_map \<Rightarrow> 'k list" where
  "hm_keys m \<equiv> map fst m"

abbreviation hm_values :: "('k, 'v) hash_map \<Rightarrow> 'v list" where
  "hm_values m \<equiv> map snd m"

definition hm_wf :: "('k, 'v) hash_map \<Rightarrow> bool" where
  "hm_wf m \<longleftrightarrow> distinct (hm_keys m)"

definition hm_contains :: "('k, 'v) hash_map \<Rightarrow> 'k \<Rightarrow> bool" where
  "hm_contains m k \<longleftrightarrow> hm_get m k \<noteq> None"

definition hm_insert :: "'k \<Rightarrow> 'v \<Rightarrow> ('k, 'v) hash_map \<Rightarrow> ('k, 'v) hash_map" where
  "hm_insert k v m = AList.update k v m"

definition hm_remove :: "'k \<Rightarrow> ('k, 'v) hash_map \<Rightarrow> ('k, 'v) hash_map" where
  "hm_remove k m = AList.delete k m"

text \<open>\<open>retain\<close>: keep the entries a predicate accepts.\<close>

definition hm_retain :: "('k \<Rightarrow> 'v \<Rightarrow> bool) \<Rightarrow> ('k, 'v) hash_map \<Rightarrow> ('k, 'v) hash_map" where
  "hm_retain P m = filter (\<lambda>(k, v). P k v) m"

text \<open>\<open>entry(k).or_insert(d)\<close> followed by an update in place.\<close>

definition hm_entry :: "'k \<Rightarrow> 'v \<Rightarrow> ('v \<Rightarrow> 'v) \<Rightarrow> ('k, 'v) hash_map \<Rightarrow> ('k, 'v) hash_map" where
  "hm_entry k d f m = hm_insert k (f (unwrap_or (hm_get m k) d)) m"

text \<open>\<open>get_mut(k)\<close> followed by an update in place when the key is there.\<close>

definition hm_modify :: "'k \<Rightarrow> ('v \<Rightarrow> 'v) \<Rightarrow> ('k, 'v) hash_map \<Rightarrow> ('k, 'v) hash_map" where
  "hm_modify k f m = (case hm_get m k of None \<Rightarrow> m | Some v \<Rightarrow> hm_insert k (f v) m)"

text \<open>\<open>values_mut\<close>.\<close>

definition hm_map_values :: "('v \<Rightarrow> 'w) \<Rightarrow> ('k, 'v) hash_map \<Rightarrow> ('k, 'w) hash_map" where
  "hm_map_values f m = map (\<lambda>(k, v). (k, f v)) m"

lemma hm_wf_Nil [simp]: "hm_wf []"
  by (simp add: hm_wf_def)

lemma hm_get_insert [simp]: "hm_get (hm_insert k v m) k' = (if k' = k then Some v else hm_get m k')"
  by (simp add: hm_insert_def update_conv)

lemma hm_get_remove [simp]: "hm_get (hm_remove k m) k' = (if k' = k then None else hm_get m k')"
  by (simp add: hm_remove_def delete_conv)

lemma hm_wf_insert [simp]: "hm_wf m \<Longrightarrow> hm_wf (hm_insert k v m)"
  by (simp add: hm_wf_def hm_insert_def distinct_update)

lemma hm_wf_remove [simp]: "hm_wf m \<Longrightarrow> hm_wf (hm_remove k m)"
  by (simp add: hm_wf_def hm_remove_def distinct_delete)

lemma set_keys_insert [simp]: "fst ` set (hm_insert k v m) = insert k (fst ` set m)"
  by (metis dom_map_of_conv_image_fst dom_fun_upd hm_insert_def option.distinct(1) update_conv')

lemma set_keys_remove [simp]: "fst ` set (hm_remove k m) = fst ` set m - {k}"
  by (simp add: hm_remove_def AList.delete_eq, force)

lemma hm_insert_Nil [simp]: "hm_insert k v [] = [(k, v)]"
  by (simp add: hm_insert_def)

lemma hm_insert_Cons: "hm_insert k v (e # m) = (if fst e = k then (k, v) # m else e # hm_insert k v m)"
  by (cases e) (simp add: hm_insert_def)

lemma hm_get_retain:
  "hm_wf m \<Longrightarrow> hm_get (hm_retain P m) k =
     (case hm_get m k of Some v \<Rightarrow> if P k v then Some v else None | None \<Rightarrow> None)"
proof (induction m)
  case (Cons e m)
  obtain a b where e: "e = (a, b)" by (cases e)
  from Cons e have IH: "hm_get (hm_retain P m) k =
     (case hm_get m k of Some v \<Rightarrow> if P k v then Some v else None | None \<Rightarrow> None)"
    and "a \<notin> fst ` set m" by (auto simp: hm_wf_def)
  then have "hm_get m a = None" by (simp add: map_of_eq_None_iff)
  then show ?case using IH e by (auto simp: hm_retain_def split: option.splits)
qed (simp add: hm_retain_def)

lemma hm_wf_retain [simp]: "hm_wf m \<Longrightarrow> hm_wf (hm_retain P m)"
  unfolding hm_retain_def hm_wf_def by (induction m) auto

lemma set_retain: "set (hm_retain P m) = {(k, v). (k, v) \<in> set m \<and> P k v}"
  by (auto simp: hm_retain_def)

lemma hm_wf_entry [simp]: "hm_wf m \<Longrightarrow> hm_wf (hm_entry k d f m)"
  by (simp add: hm_entry_def)

lemma hm_get_entry:
  "hm_get (hm_entry k d f m) k' =
     (if k' = k then Some (f (unwrap_or (hm_get m k) d)) else hm_get m k')"
  by (simp add: hm_entry_def)

lemma hm_wf_modify [simp]: "hm_wf m \<Longrightarrow> hm_wf (hm_modify k f m)"
  by (simp add: hm_modify_def split: option.splits)

lemma hm_get_modify:
  "hm_get (hm_modify k f m) k' = (if k' = k then map_option f (hm_get m k) else hm_get m k')"
  by (simp add: hm_modify_def split: option.splits)

lemma set_keys_modify [simp]: "fst ` set (hm_modify k f m) = fst ` set m"
  by (auto simp: hm_modify_def dest: map_of_SomeD split: option.splits) (metis fst_conv image_eqI map_of_SomeD)

lemma hm_get_map_values: "hm_get (hm_map_values f m) k = map_option f (hm_get m k)"
  by (simp add: hm_map_values_def map_of_map)

lemma hm_keys_map_values [simp]: "hm_keys (hm_map_values f m) = hm_keys m"
  by (simp add: hm_map_values_def case_prod_beta)

lemma hm_wf_map_values [simp]: "hm_wf (hm_map_values f m) = hm_wf m"
  by (simp add: hm_wf_def del: map_map)

lemma hm_wf_filter [simp]: "hm_wf m \<Longrightarrow> hm_wf (filter P m)"
  unfolding hm_wf_def by (induction m) auto

lemma hm_get_iff_mem: "hm_wf m \<Longrightarrow> hm_get m k = Some v \<longleftrightarrow> (k, v) \<in> set m"
  by (simp add: hm_wf_def map_of_eq_Some_iff)

lemma hm_get_None_iff: "hm_get m k = None \<longleftrightarrow> k \<notin> fst ` set m"
  by (rule map_of_eq_None_iff)

lemma hm_contains_iff: "hm_contains m k \<longleftrightarrow> k \<in> fst ` set m"
  by (simp add: hm_contains_def map_of_eq_None_iff)

text \<open>Iterating over a hash map in another order lists the same entries.\<close>

lemma hm_wf_iter:
  assumes "iteration_order iter" and "hm_wf m"
  shows "hm_wf (iter m)"
proof -
  have "mset (hm_keys (iter m)) = mset (hm_keys m)" using assms(1) by (simp add: iteration_order_def)
  with assms(2) show ?thesis unfolding hm_wf_def by (metis mset_eq_imp_distinct_iff)
qed

lemma hm_get_iter: "iteration_order iter \<Longrightarrow> hm_wf m \<Longrightarrow> hm_get (iter m) = hm_get m"
  by (metis (no_types, lifting) hm_wf_def hm_wf_iter iteration_order_set map_of_inject_set)

text \<open>Two entry lists of one map are permutations of each other.\<close>

lemma hm_eq_mset:
  assumes "hm_wf m" "hm_wf m'" and "hm_get m = hm_get m'"
  shows "mset m = mset m'"
proof -
  have "distinct m" "distinct m'" using assms(1,2) by (auto simp: hm_wf_def distinct_map)
  moreover have "set m = set m'"
    using assms by (metis hm_wf_def map_of_inject_set)
  ultimately show ?thesis by (simp add: set_eq_iff_mset_eq_distinct)
qed

lemma sort_mset_eq: "mset xs = mset ys \<Longrightarrow> sort xs = sort ys"
  by (rule properties_for_sort) simp_all

lemma hm_sorted_keys_eq:
  "hm_wf m \<Longrightarrow> hm_wf m' \<Longrightarrow> hm_get m = hm_get m' \<Longrightarrow> sort (hm_keys m) = sort (hm_keys m')"
  by (rule sort_mset_eq) (simp only: mset_map hm_eq_mset [of m m'])

lemma sort_iter: "iteration_order iter \<Longrightarrow> sort (iter xs) = sort xs"
  by (rule sort_mset_eq) (simp add: iteration_order_def)

lemma wsum_mset_eq: "mset xs = mset ys \<Longrightarrow> wsum xs = wsum ys"
proof -
  have "wsum zs = sum_mset (mset zs)" for zs :: "'a word list" by (induction zs) auto
  then show "mset xs = mset ys \<Longrightarrow> wsum xs = wsum ys" by simp
qed

section \<open>Decimal formatting\<close>

text \<open>\<open>Display\<close> of an unsigned integer.\<close>

definition digit :: "nat \<Rightarrow> char" where
  "digit d = char_of (48 + d)"

fun dec :: "nat \<Rightarrow> string" where
  "dec n = (if n < 10 then [digit n] else dec (n div 10) @ [digit (n mod 10)])"

declare dec.simps [simp del]

definition show_u :: "'a::len word \<Rightarrow> string" where
  "show_u w = dec (unat w)"

lemma digit_inj: "a < 10 \<Longrightarrow> b < 10 \<Longrightarrow> digit a = digit b \<longleftrightarrow> a = b"
  by (auto simp: digit_def char_of_eq_iff take_bit_eq_mod)

lemma dec_nonempty [simp]: "dec n \<noteq> []"
  by (subst dec.simps) simp

lemma dec_inj [simp]: "dec a = dec b \<longleftrightarrow> a = b"
proof
  show "dec a = dec b \<Longrightarrow> a = b"
  proof (induction a arbitrary: b rule: dec.induct)
    case (1 a)
    from "1.prems" have last: "digit (a mod 10) = digit (b mod 10)"
      by (auto simp: dec.simps [of a] dec.simps [of b] split: if_splits)
    then have "a mod 10 = b mod 10" by (simp add: digit_inj)
    moreover have "a div 10 = b div 10"
      using "1.prems" "1.IH"
      by (auto simp: dec.simps [of a] dec.simps [of b] append_eq_Cons_conv Cons_eq_append_conv
          split: if_splits)
    ultimately show ?case by (metis div_mod_decomp)
  qed
qed simp

lemma digit_not_colon: "d < 10 \<Longrightarrow> digit d \<noteq> CHR '':''"
proof
  assume "d < 10" "digit d = CHR '':''"
  then have "(of_char (digit d) :: nat) = of_char (CHR '':'')" by simp
  with \<open>d < 10\<close> show False by (simp add: digit_def)
qed

lemma dec_no_colon: "CHR '':'' \<notin> set (dec n)"
proof (induction n rule: dec.induct)
  case (1 n)
  have "digit (n mod 10) \<noteq> CHR '':''" "n < 10 \<Longrightarrow> digit n \<noteq> CHR '':''"
    by (simp_all add: digit_not_colon)
  with 1 show ?case by (subst dec.simps) auto
qed

lemma show_u_inj [simp]: "show_u a = show_u b \<longleftrightarrow> a = b"
  by (simp add: show_u_def unsigned_word_eqI word_unat_eq_iff)

lemma show_u_no_colon [simp]: "CHR '':'' \<notin> set (show_u w)"
  by (simp add: show_u_def dec_no_colon)

text \<open>The last field of a colon-separated record can be read off unambiguously.\<close>

lemma colon_field_inj:
  assumes "s @ '':'' @ t = s' @ '':'' @ t'" and "CHR '':'' \<notin> set t" "CHR '':'' \<notin> set t'"
  shows "s = s' \<and> t = t'"
proof -
  have "rev t @ CHR '':'' # rev s = rev t' @ CHR '':'' # rev s'"
    using arg_cong [OF assms(1), of rev] by simp
  moreover have "CHR '':'' \<notin> set (rev t)" "CHR '':'' \<notin> set (rev t')" using assms by auto
  moreover have "takeWhile (\<lambda>c. c \<noteq> CHR '':'') (u @ CHR '':'' # v) = u
      \<and> dropWhile (\<lambda>c. c \<noteq> CHR '':'') (u @ CHR '':'' # v) = CHR '':'' # v"
    if "CHR '':'' \<notin> set u" for u v :: string
    using that by (induction u) auto
  ultimately have "rev t = rev t' \<and> CHR '':'' # rev s = CHR '':'' # rev s'" by metis
  then show ?thesis by simp
qed

text \<open>A prefix followed by colon-separated fields.\<close>

definition colon_fields :: "string \<Rightarrow> string list \<Rightarrow> string" where
  "colon_fields s fs = fold (\<lambda>f acc. acc @ '':'' @ f) fs s"

lemma colon_fields_inj:
  assumes "length fs = length fs'" and "colon_fields s fs = colon_fields s' fs'"
    and "\<forall>f \<in> set fs \<union> set fs'. CHR '':'' \<notin> set f"
  shows "s = s' \<and> fs = fs'"
  using assms
proof (induction fs arbitrary: fs' rule: rev_induct)
  case (snoc f fs)
  then obtain g gs where fs': "fs' = gs @ [g]" by (cases fs' rule: rev_cases) auto
  then have "colon_fields s fs @ '':'' @ f = colon_fields s' gs @ '':'' @ g"
    using snoc.prems(2) by (simp add: colon_fields_def)
  from colon_field_inj [OF this] have "colon_fields s fs = colon_fields s' gs" "f = g"
    using snoc.prems(3) fs' by simp_all
  with snoc.IH [of gs] snoc.prems fs' show ?case by auto
qed (simp add: colon_fields_def)

end
