(* ===== verification/Rinku_Weight.thy ===== *)
theory Rinku_Weight
  imports Rinku_Types Rinku_Collections Rinku_Crypto Rinku_Hash_Tree "HOL-Library.Sublist"
begin

text \<open>
  \<open>rinku-core/src/weight.rs\<close>: account and validator weights, and the weight trie that
  aggregates the validators' votes on a transaction at a checkpoint and commits to the
  result with a Merkle root.

  The transcendental functions \<open>ln_1p\<close>, \<open>powf\<close> and \<open>powi\<close>, whose precision Rust leaves
  to the platform, are the fields of \<open>float_env\<close>. The iteration orders of the hash maps
  are arguments: \<open>it_tx\<close> over the grouped votes, \<open>it_val\<close> over one transaction's
  deduplicated votes, \<open>it_stake\<close> over the stake table.
\<close>

section \<open>Account and validator weights\<close>

record float_env =
  fe_ln_1p :: "f64 \<Rightarrow> f64"
  fe_powf :: "f64 \<Rightarrow> f64 \<Rightarrow> f64"
  fe_powi :: "f64 \<Rightarrow> int \<Rightarrow> f64"

definition MIN_BOND_FOR_AGE_WEIGHT :: f64 where "MIN_BOND_FOR_AGE_WEIGHT = Fin 100"
definition AGE_WEIGHT_DECAY_PER_MISSED :: f64 where "AGE_WEIGHT_DECAY_PER_MISSED = rnd (1 / 10)"
definition MAX_AGE_WEIGHT :: f64 where "MAX_AGE_WEIGHT = Fin 10"
definition BALANCE_WEIGHT_EXPONENT :: f64 where "BALANCE_WEIGHT_EXPONENT = Fin (1 / 2)"

definition calculate_age_weight :: "float_env \<Rightarrow> Account \<Rightarrow> u64 \<Rightarrow> f64" where
  "calculate_age_weight fe account current_time =
     (let staked_rku = from_micro_units (acc_staked account)
      in if f64_lt staked_rku MIN_BOND_FOR_AGE_WEIGHT then Fin 1
         else let age_seconds = saturating_sub current_time (acc_first_seen account);
                  age_days = f64_div (f64_of_u64 age_seconds) (Fin 86400)
              in f64_min (f64_add (Fin 1) (fe_ln_1p fe age_days)) MAX_AGE_WEIGHT)"

definition calculate_balance_weight :: "float_env \<Rightarrow> f64 \<Rightarrow> f64" where
  "calculate_balance_weight fe balance =
     (if f64_le balance (Fin 0) then Fin 0 else fe_powf fe balance BALANCE_WEIGHT_EXPONENT)"

definition calculate_stake_weight :: "float_env \<Rightarrow> f64 \<Rightarrow> f64" where
  "calculate_stake_weight fe stake =
     (if f64_le stake (Fin 0) then Fin 0
      else f64_mul (fe_powf fe stake BALANCE_WEIGHT_EXPONENT) (Fin 2))"

text \<open>\<open>f64::clamp\<close> keeps a value that is not a number.\<close>

definition f64_clamp :: "f64 \<Rightarrow> f64 \<Rightarrow> f64 \<Rightarrow> f64" where
  "f64_clamp x lo hi = (let x = if f64_lt x lo then lo else x in if f64_lt hi x then hi else x)"

definition calculate_account_weight :: "float_env \<Rightarrow> Account \<Rightarrow> u64 \<Rightarrow> f64" where
  "calculate_account_weight fe account current_time =
     (let age_weight = calculate_age_weight fe account current_time;
          balance_rku = from_micro_units (acc_balance account);
          staked_rku = from_micro_units (acc_staked account);
          balance_weight = calculate_balance_weight fe balance_rku;
          stake_weight = calculate_stake_weight fe staked_rku;
          base_weight = f64_add (f64_mul age_weight balance_weight) stake_weight
      in f64_mul base_weight
           (f64_sub (Fin 1) (f64_clamp (acc_reputation_penalty account) (Fin 0) (Fin 1))))"

text \<open>\<open>missed_checkpoints as i32\<close> reads the 32-bit word as signed.\<close>

definition calculate_validator_weight :: "float_env \<Rightarrow> u64 \<Rightarrow> u64 \<Rightarrow> u64 \<Rightarrow> u32 \<Rightarrow> f64" where
  "calculate_validator_weight fe stake first_stake_time current_time missed_checkpoints =
     (let stake_rku = from_micro_units stake
      in if f64_lt stake_rku MIN_BOND_FOR_AGE_WEIGHT
         then fe_powf fe stake_rku BALANCE_WEIGHT_EXPONENT
         else let age_seconds = saturating_sub current_time first_stake_time;
                  age_days = f64_div (f64_of_u64 age_seconds) (Fin 86400);
                  age_factor = f64_min (f64_add (Fin 1) (fe_ln_1p fe age_days)) MAX_AGE_WEIGHT;
                  decay = fe_powi fe (f64_sub (Fin 1) AGE_WEIGHT_DECAY_PER_MISSED)
                            (sint missed_checkpoints);
                  decayed_age_factor = f64_mul age_factor decay
              in f64_mul (fe_powf fe stake_rku BALANCE_WEIGHT_EXPONENT) decayed_age_factor)"

definition calculate_transaction_weight :: "f64 \<Rightarrow> u64 \<Rightarrow> bool \<Rightarrow> f64" where
  "calculate_transaction_weight sender_weight gas_paid is_consolidation =
     (if is_consolidation then f64_mul sender_weight (rnd (1 / 10))
      else let gas_rku = from_micro_units gas_paid
           in f64_add sender_weight (f64_mul gas_rku (Fin 10)))"

definition total_validator_weight :: "float_env \<Rightarrow> (u64 \<times> u64 \<times> u32) list \<Rightarrow> u64 \<Rightarrow> f64" where
  "total_validator_weight fe validators current_time =
     f64_sum (map (\<lambda>(stake, first_stake, missed).
       calculate_validator_weight fe stake first_stake current_time missed) validators)"

definition required_weight_for_finality :: "f64 \<Rightarrow> f64" where
  "required_weight_for_finality total_weight = f64_div (f64_mul total_weight (Fin 2)) (Fin 3)"

section \<open>The weight trie\<close>

definition pubkey_to_address :: "crypto_env \<Rightarrow> string \<Rightarrow> string" where
  "pubkey_to_address env pubkey_hex =
     (case hex_decode env pubkey_hex of
        Some pubkey_bytes \<Rightarrow> hex_encode env (take 20 (sha256 env pubkey_bytes))
      | None \<Rightarrow> [])"

definition hash_weight_leaf :: "crypto_env \<Rightarrow> WeightTrieLeaf \<Rightarrow> string" where
  "hash_weight_leaf env leaf =
     sha256_hex env (''weight:'' @ wl_tx_hash leaf
       @ '':'' @ show_u (wl_boost_stake_micro leaf)
       @ '':'' @ show_u (wl_suppress_stake_micro leaf)
       @ '':'' @ show_u (wl_neutral_stake_micro leaf)
       @ '':'' @ show_u (wl_total_network_stake_micro leaf)
       @ '':'' @ show_u (wl_attestation_count leaf))"

text \<open>The difference of two \<open>u64\<close> read as \<open>i64\<close> is the wrapping difference of the words.\<close>

definition leaf_to_aggregated_weight :: "WeightTrieLeaf \<Rightarrow> AggregatedWeight" where
  "leaf_to_aggregated_weight leaf =
     \<lparr>aw_boost_stake_micro = wl_boost_stake_micro leaf,
      aw_suppress_stake_micro = wl_suppress_stake_micro leaf,
      aw_neutral_stake_micro = wl_neutral_stake_micro leaf,
      aw_net_weight = wl_boost_stake_micro leaf - wl_suppress_stake_micro leaf,
      aw_attestation_count = wl_attestation_count leaf,
      aw_total_network_stake_micro = wl_total_network_stake_micro leaf\<rparr>"

record WeightTrie =
  wt_weights :: "(string, AggregatedWeight) hash_map"
  wt_pending_votes :: "PendingWeightVote list"
  wt_cached_root :: "string option"

definition WeightTrie_new :: WeightTrie where
  "WeightTrie_new = \<lparr>wt_weights = [], wt_pending_votes = [], wt_cached_root = None\<rparr>"

definition get_weight :: "WeightTrie \<Rightarrow> string \<Rightarrow> AggregatedWeight option" where
  "get_weight t tx_hash = hm_get (wt_weights t) tx_hash"

definition add_vote :: "WeightTrie \<Rightarrow> PendingWeightVote \<Rightarrow> WeightTrie" where
  "add_vote t vote =
     t\<lparr>wt_pending_votes := wt_pending_votes t @ [vote], wt_cached_root := None\<rparr>"

definition load_weights :: "WeightTrie \<Rightarrow> (string, AggregatedWeight) hash_map \<Rightarrow> WeightTrie" where
  "load_weights t weights = t\<lparr>wt_weights := weights, wt_cached_root := None\<rparr>"

definition prune_before_checkpoint :: "WeightTrie \<Rightarrow> u64 \<Rightarrow> (string \<rightharpoonup> u64) \<Rightarrow> WeightTrie" where
  "prune_before_checkpoint t min_checkpoint tx_checkpoints =
     t\<lparr>wt_weights := hm_retain (\<lambda>tx_hash _.
          unwrap_or (map_option (\<lambda>cp. cp \<ge> min_checkpoint) (tx_checkpoints tx_hash)) False)
          (wt_weights t),
       wt_cached_root := None\<rparr>"

definition pending_vote_count :: "WeightTrie \<Rightarrow> nat" where
  "pending_vote_count t = length (wt_pending_votes t)"

subsection \<open>Aggregating the pending votes\<close>

type_synonym stake_table = "(string, u64) hash_map"

definition vote_stake ::
  "crypto_env \<Rightarrow> (stake_table \<Rightarrow> stake_table) \<Rightarrow> stake_table \<Rightarrow> string \<Rightarrow> u64" where
  "vote_stake env it_stake validator_stakes validator =
     (case hm_get validator_stakes validator of
        Some s \<Rightarrow> s
      | None \<Rightarrow>
          if length validator \<ge> 128 then
            (let derived_addr = pubkey_to_address env validator
             in case hm_get validator_stakes derived_addr of
                  Some s \<Rightarrow> s
                | None \<Rightarrow>
                    (case find (\<lambda>(k, _). prefix k derived_addr \<or> prefix derived_addr k)
                            (it_stake validator_stakes) of
                       Some (_, v) \<Rightarrow> v
                     | None \<Rightarrow> 0))
          else 0)"

definition group_votes :: "PendingWeightVote list \<Rightarrow> (string, PendingWeightVote list) hash_map" where
  "group_votes votes =
     fold (\<lambda>vote m. hm_entry (pv_tx_hash vote) [] (\<lambda>vs. vs @ [vote]) m) votes []"

definition dedup_votes :: "PendingWeightVote list \<Rightarrow> (string, PendingWeightVote) hash_map" where
  "dedup_votes votes = fold (\<lambda>vote m. hm_insert (pv_validator_pubkey vote) vote m) votes []"

record vote_totals =
  boost_stake :: u64
  suppress_stake :: u64
  neutral_stake :: u64
  attestation_count :: u32

definition vote_totals_zero :: vote_totals where
  "vote_totals_zero =
     \<lparr>boost_stake = 0, suppress_stake = 0, neutral_stake = 0, attestation_count = 0\<rparr>"

definition count_vote ::
  "(string \<Rightarrow> u64) \<Rightarrow> string \<times> PendingWeightVote \<Rightarrow> vote_totals \<Rightarrow> vote_totals" where
  "count_vote stake_of e tot =
     (let stake = stake_of (fst e);
          tot = tot\<lparr>attestation_count := attestation_count tot + 1\<rparr>
      in case pv_vote (snd e) of
           Boost \<Rightarrow> tot\<lparr>boost_stake := boost_stake tot + stake\<rparr>
         | Suppress \<Rightarrow> tot\<lparr>suppress_stake := suppress_stake tot + stake\<rparr>
         | Neutral \<Rightarrow> tot\<lparr>neutral_stake := neutral_stake tot + stake\<rparr>)"

definition merge_weight :: "u64 \<Rightarrow> vote_totals \<Rightarrow> AggregatedWeight \<Rightarrow> AggregatedWeight" where
  "merge_weight total_network_stake tot existing =
     (let boost = saturating_add (aw_boost_stake_micro existing) (boost_stake tot);
          suppress = saturating_add (aw_suppress_stake_micro existing) (suppress_stake tot)
      in \<lparr>aw_boost_stake_micro = boost, aw_suppress_stake_micro = suppress,
          aw_neutral_stake_micro = saturating_add (aw_neutral_stake_micro existing) (neutral_stake tot),
          aw_net_weight = boost - suppress,
          aw_attestation_count = saturating_add (aw_attestation_count existing) (attestation_count tot),
          aw_total_network_stake_micro = total_network_stake\<rparr>)"

type_synonym votes_order = "(string \<times> PendingWeightVote) list \<Rightarrow> (string \<times> PendingWeightVote) list"
type_synonym groups_order = "(string \<times> PendingWeightVote list) list \<Rightarrow> (string \<times> PendingWeightVote list) list"

definition finalize_tx ::
  "(string \<Rightarrow> u64) \<Rightarrow> votes_order \<Rightarrow> u64 \<Rightarrow> string \<times> PendingWeightVote list \<Rightarrow>
   (string, AggregatedWeight) hash_map \<times> (string \<times> AggregatedWeight) list \<Rightarrow>
   (string, AggregatedWeight) hash_map \<times> (string \<times> AggregatedWeight) list" where
  "finalize_tx stake_of it_val total_network_stake g s =
     (let tot = fold (count_vote stake_of) (it_val (dedup_votes (snd g))) vote_totals_zero;
          existing = merge_weight total_network_stake tot
                       (unwrap_or (hm_get (fst s) (fst g)) AggregatedWeight_default)
      in (hm_insert (fst g) existing (fst s), snd s @ [(fst g, existing)]))"

definition finalize_votes ::
  "crypto_env \<Rightarrow> groups_order \<Rightarrow> votes_order \<Rightarrow> (stake_table \<Rightarrow> stake_table) \<Rightarrow>
   WeightTrie \<Rightarrow> stake_table \<Rightarrow> u64 \<Rightarrow> WeightTrie \<times> (string \<times> AggregatedWeight) list" where
  "finalize_votes env it_tx it_val it_stake t validator_stakes total_network_stake =
     (let tx_votes = group_votes (wt_pending_votes t);
          s = fold (finalize_tx (vote_stake env it_stake validator_stakes) it_val total_network_stake)
                (it_tx tx_votes) (wt_weights t, [])
      in (t\<lparr>wt_weights := fst s, wt_pending_votes := [], wt_cached_root := None\<rparr>, snd s))"

subsection \<open>Root and proofs\<close>

fun weight_next_level :: "crypto_env \<Rightarrow> string list \<Rightarrow> string list" where
  "weight_next_level env [] = []"
| "weight_next_level env [c] = [sha256_hex env (c @ c)]"
| "weight_next_level env (c # d # rest) = sha256_hex env (c @ d) # weight_next_level env rest"

interpretation weight_level: hash_level "\<lambda>l r. sha256_hex env (l @ r)" "weight_next_level env"
  for env
  by unfold_locales auto

function weight_root_loop :: "crypto_env \<Rightarrow> string list \<Rightarrow> string" where
  "weight_root_loop env current_level =
     (if length current_level > 1 then weight_root_loop env (weight_next_level env current_level)
      else current_level ! 0)"
  by pat_completeness auto
termination
  by (relation "measure (\<lambda>(env, l). length l)") (auto simp: weight_level.length_level)

definition build_merkle_root :: "crypto_env \<Rightarrow> string list \<Rightarrow> string" where
  "build_merkle_root env leaves =
     (if leaves = [] then sha256_hex env ''merkle:empty''
      else if length leaves = 1 then leaves ! 0
      else weight_root_loop env leaves)"

function weight_proof_loop :: "crypto_env \<Rightarrow> string list \<Rightarrow> nat \<Rightarrow> string list" where
  "weight_proof_loop env current_level current_index =
     (if length current_level > 1
      then (let sibling_index = (if current_index mod 2 = 0 then current_index + 1
                                 else current_index - 1);
                sibling = (if sibling_index < length current_level then current_level ! sibling_index
                           else current_level ! current_index)
            in sibling # weight_proof_loop env (weight_next_level env current_level)
                           (current_index div 2))
      else [])"
  by pat_completeness auto
termination
  by (relation "measure (\<lambda>(env, l, i). length l)") (auto simp: weight_level.length_level)

declare weight_root_loop.simps [simp del] weight_proof_loop.simps [simp del]

definition build_merkle_proof :: "crypto_env \<Rightarrow> string list \<Rightarrow> nat \<Rightarrow> string list" where
  "build_merkle_proof env leaves index =
     (if length leaves \<le> 1 then [] else weight_proof_loop env leaves index)"

definition weight_leaf :: "string \<Rightarrow> AggregatedWeight \<Rightarrow> WeightTrieLeaf" where
  "weight_leaf tx_hash w =
     \<lparr>wl_tx_hash = tx_hash, wl_boost_stake_micro = aw_boost_stake_micro w,
      wl_suppress_stake_micro = aw_suppress_stake_micro w,
      wl_neutral_stake_micro = aw_neutral_stake_micro w,
      wl_total_network_stake_micro = aw_total_network_stake_micro w,
      wl_attestation_count = aw_attestation_count w\<rparr>"

definition weight_leaves :: "crypto_env \<Rightarrow> (string, AggregatedWeight) hash_map \<Rightarrow> string list" where
  "weight_leaves env weights =
     map (\<lambda>tx_hash. hash_weight_leaf env
            (weight_leaf tx_hash (unwrap_or (hm_get weights tx_hash) AggregatedWeight_default)))
         (sort (hm_keys weights))"

definition compute_root :: "crypto_env \<Rightarrow> WeightTrie \<Rightarrow> string \<times> WeightTrie" where
  "compute_root env t =
     (case wt_cached_root t of
        Some root_hash \<Rightarrow> (root_hash, t)
      | None \<Rightarrow>
          let root_hash = (if wt_weights t = [] then sha256_hex env ''weight_trie:empty''
                      else build_merkle_root env (weight_leaves env (wt_weights t)))
          in (root_hash, t\<lparr>wt_cached_root := Some root_hash\<rparr>))"

text \<open>\<open>iter().position\<close>.\<close>

fun position :: "('a \<Rightarrow> bool) \<Rightarrow> 'a list \<Rightarrow> nat option" where
  "position P [] = None"
| "position P (x # xs) = (if P x then Some 0 else map_option Suc (position P xs))"

definition generate_proof ::
  "crypto_env \<Rightarrow> WeightTrie \<Rightarrow> string \<Rightarrow> (string list \<times> nat \<times> WeightTrieLeaf) option" where
  "generate_proof env t tx_hash =
     (case hm_get (wt_weights t) tx_hash of
        None \<Rightarrow> None
      | Some weight \<Rightarrow>
          (case position (\<lambda>k. k = tx_hash) (sort (hm_keys (wt_weights t))) of
             None \<Rightarrow> None
           | Some index \<Rightarrow>
               Some (build_merkle_proof env (weight_leaves env (wt_weights t)) index,
                     index, weight_leaf tx_hash weight)))"

fun weight_climb :: "crypto_env \<Rightarrow> string \<Rightarrow> nat \<Rightarrow> string list \<Rightarrow> string" where
  "weight_climb env current_hash current_index [] = current_hash"
| "weight_climb env current_hash current_index (sibling # proof) =
     weight_climb env
       (if current_index mod 2 = 0 then sha256_hex env (current_hash @ sibling)
        else sha256_hex env (sibling @ current_hash))
       (current_index div 2) proof"

definition verify_weight_proof ::
  "crypto_env \<Rightarrow> WeightTrieLeaf \<Rightarrow> string list \<Rightarrow> nat \<Rightarrow> string \<Rightarrow> bool" where
  "verify_weight_proof env leaf proof index expected_root \<longleftrightarrow>
     weight_climb env (hash_weight_leaf env leaf) index proof = expected_root"

section \<open>The cached root\<close>

definition trie_root :: "crypto_env \<Rightarrow> (string, AggregatedWeight) hash_map \<Rightarrow> string" where
  "trie_root env weights =
     (if weights = [] then sha256_hex env ''weight_trie:empty''
      else build_merkle_root env (weight_leaves env weights))"

definition weight_trie_inv :: "crypto_env \<Rightarrow> WeightTrie \<Rightarrow> bool" where
  "weight_trie_inv env t \<longleftrightarrow>
     hm_wf (wt_weights t) \<and> wt_cached_root t \<in> {None, Some (trie_root env (wt_weights t))}"

lemma weight_trie_inv_new: "weight_trie_inv env WeightTrie_new"
  by (simp add: weight_trie_inv_def WeightTrie_new_def)

lemma weight_trie_inv_add_vote: "weight_trie_inv env t \<Longrightarrow> weight_trie_inv env (add_vote t v)"
  by (simp add: weight_trie_inv_def add_vote_def)

lemma weight_trie_inv_load: "hm_wf ws \<Longrightarrow> weight_trie_inv env (load_weights t ws)"
  by (simp add: weight_trie_inv_def load_weights_def)

lemma weight_trie_inv_prune:
  "weight_trie_inv env t \<Longrightarrow> weight_trie_inv env (prune_before_checkpoint t h cps)"
  by (simp add: weight_trie_inv_def prune_before_checkpoint_def)

lemma compute_root_inv:
  assumes "weight_trie_inv env t"
  shows "fst (compute_root env t) = trie_root env (wt_weights t)"
    and "weight_trie_inv env (snd (compute_root env t))"
    and "wt_weights (snd (compute_root env t)) = wt_weights t"
  using assms by (auto simp: compute_root_def weight_trie_inv_def trie_root_def Let_def
      split: option.splits)

lemma hm_wf_finalize_fold:
  "hm_wf (fst s) \<Longrightarrow> hm_wf (fst (fold (finalize_tx stake_of it_val net_stake) gs s))"
proof (induction gs arbitrary: s)
  case (Cons g gs)
  have "hm_wf (fst (finalize_tx stake_of it_val net_stake g s))"
    using Cons.prems by (simp add: finalize_tx_def Let_def)
  from Cons.IH [OF this] show ?case by simp
qed simp

lemma weight_trie_inv_finalize:
  "weight_trie_inv env t \<Longrightarrow>
   weight_trie_inv env (fst (finalize_votes env it_tx it_val it_stake t stakes net_stake))"
  by (simp add: weight_trie_inv_def finalize_votes_def Let_def hm_wf_finalize_fold)

lemmas weight_trie_inv_ops =
  weight_trie_inv_new weight_trie_inv_add_vote weight_trie_inv_load weight_trie_inv_prune
  weight_trie_inv_finalize compute_root_inv(2)

text \<open>The root depends on the weights stored, not on the layout of the hash map.\<close>

lemma trie_root_cong:
  assumes "hm_wf m" "hm_wf m'" "hm_get m = hm_get m'"
  shows "trie_root env m = trie_root env m'"
proof -
  have "m = [] \<longleftrightarrow> m' = []" using hm_eq_mset [OF assms] by auto
  moreover have "weight_leaves env m = weight_leaves env m'"
    using hm_sorted_keys_eq [OF assms] assms(3) by (simp add: weight_leaves_def)
  ultimately show ?thesis by (simp add: trie_root_def)
qed

section \<open>Weight proofs\<close>

lemma weight_root_loop_root:
  "xs \<noteq> [] \<Longrightarrow> weight_level.tree_root env xs (weight_root_loop env xs)"
proof (induction env xs rule: weight_root_loop.induct)
  case (1 env xs)
  show ?case
  proof (cases "1 < length xs")
    case True
    then have "weight_next_level env xs \<noteq> []" by (intro weight_level.level_nonempty) auto
    with 1 True show ?thesis
      by (subst weight_root_loop.simps) (auto intro: weight_level.root_up)
  next
    case False
    with 1 obtain x where "xs = [x]" by (cases xs) auto
    then show ?thesis by (auto simp: weight_root_loop.simps intro: weight_level.root_one)
  qed
qed

lemma build_merkle_root_root:
  "xs \<noteq> [] \<Longrightarrow> weight_level.tree_root env xs (build_merkle_root env xs)"
proof (cases "length xs = 1")
  case True
  then show ?thesis by (auto simp: build_merkle_root_def length_Suc_conv intro: weight_level.root_one)
qed (simp add: build_merkle_root_def weight_root_loop_root)

lemma weight_proof_loop_path:
  "i < length xs \<Longrightarrow> weight_level.tree_path env xs i (weight_proof_loop env xs i)"
proof (induction env xs i rule: weight_proof_loop.induct)
  case (1 env xs i)
  show ?case
  proof (cases "1 < length xs")
    case True
    have "i div 2 < length (weight_next_level env xs)"
      using 1(2) by (simp add: weight_level.length_level)
    then have IH: "weight_level.tree_path env (weight_next_level env xs) (i div 2)
        (weight_proof_loop env (weight_next_level env xs) (i div 2))"
      using 1(1) True by simp
    have "(if (if i mod 2 = 0 then i + 1 else i - 1) < length xs
           then xs ! (if i mod 2 = 0 then i + 1 else i - 1) else xs ! i)
        = xs ! weight_level.sibling (length xs) i"
      using 1(2) by (auto simp: weight_level.sibling_def even_iff_mod_2_eq_zero)
    then show ?thesis
      using weight_level.path_up [OF True 1(2) IH] True
      by (subst weight_proof_loop.simps) (simp only: Let_def if_True)
  next
    case False
    with 1 obtain x where "xs = [x]" "i = 0" by (cases xs) auto
    then show ?thesis
      by (auto simp: weight_proof_loop.simps intro: weight_level.path_one)
  qed
qed

lemma build_merkle_proof_path:
  "i < length xs \<Longrightarrow> weight_level.tree_path env xs i (build_merkle_proof env xs i)"
proof (cases "length xs \<le> 1")
  case True
  then have "weight_proof_loop env xs i = []" by (subst weight_proof_loop.simps) simp
  moreover assume "i < length xs"
  ultimately show ?thesis
    using weight_proof_loop_path [of i xs env] True by (simp add: build_merkle_proof_def)
qed (simp add: build_merkle_proof_def weight_proof_loop_path)

lemma weight_climb_climb:
  "weight_climb env h i p = climb (\<lambda>l r. sha256_hex env (l @ r)) h (sided i p)"
  by (induction env h i p rule: weight_climb.induct) (auto simp: even_iff_mod_2_eq_zero)

lemma position_Some:
  "x \<in> set xs \<Longrightarrow> \<exists>i < length xs. position (\<lambda>k. k = x) xs = Some i \<and> xs ! i = x"
  by (induction xs) auto

lemma position_None: "position P xs = None \<longleftrightarrow> (\<forall>x \<in> set xs. \<not> P x)"
  by (induction xs) auto

text \<open>
  For every transaction the trie holds a weight for, \<open>generate_proof\<close> returns a
  proof, its leaf carries exactly the stored weight, and \<open>verify_weight_proof\<close> accepts it
  against the root that \<open>compute_root\<close> commits to; for any other transaction there is none.
\<close>
theorem generate_proof_verifies:
  assumes "weight_trie_inv env t"
  shows "case get_weight t tx of
      None \<Rightarrow> generate_proof env t tx = None
    | Some w \<Rightarrow> \<exists>p i. generate_proof env t tx = Some (p, i, weight_leaf tx w)
        \<and> verify_weight_proof env (weight_leaf tx w) p i (fst (compute_root env t))"
proof (cases "get_weight t tx")
  case None
  then show ?thesis by (simp add: get_weight_def generate_proof_def)
next
  case (Some w)
  let ?keys = "sort (hm_keys (wt_weights t))"
  let ?leaves = "weight_leaves env (wt_weights t)"
  have get: "hm_get (wt_weights t) tx = Some w" using Some by (simp add: get_weight_def)
  then have "tx \<in> set ?keys" using hm_get_None_iff [of "wt_weights t" tx] by auto
  from position_Some [OF this] obtain i where
    i: "i < length ?keys" "position (\<lambda>k. k = tx) ?keys = Some i" "?keys ! i = tx" by metis
  have len: "i < length ?leaves" using i(1) by (simp add: weight_leaves_def)
  have leaf: "?leaves ! i = hash_weight_leaf env (weight_leaf tx w)"
    using i get by (simp add: weight_leaves_def)
  have ne: "?leaves \<noteq> []" "wt_weights t \<noteq> []" using len get by auto
  note climb = weight_level.climb_root [OF build_merkle_proof_path [OF len]
      build_merkle_root_root [OF ne(1)]]
  from climb ne have "verify_weight_proof env (weight_leaf tx w) (build_merkle_proof env ?leaves i) i
      (fst (compute_root env t))"
    by (simp add: verify_weight_proof_def weight_climb_climb compute_root_inv(1) [OF assms]
        trie_root_def leaf)
  then show ?thesis using i get Some by (simp add: generate_proof_def)
qed

definition sample_weights :: "(string, AggregatedWeight) hash_map" where
  "sample_weights =
     [(''b'', AggregatedWeight_default\<lparr>aw_boost_stake_micro := 7\<rparr>),
      (''a'', AggregatedWeight_default), (''c'', AggregatedWeight_default)]"

theorem generate_proof_verifies_witness:
  "\<exists>p i. generate_proof sample_env (load_weights WeightTrie_new sample_weights) ''b'' =
       Some (p, i, weight_leaf ''b'' (AggregatedWeight_default\<lparr>aw_boost_stake_micro := 7\<rparr>))
     \<and> verify_weight_proof sample_env
         (weight_leaf ''b'' (AggregatedWeight_default\<lparr>aw_boost_stake_micro := 7\<rparr>)) p i
         (fst (compute_root sample_env (load_weights WeightTrie_new sample_weights)))"
proof -
  have "hm_wf sample_weights" by (simp add: sample_weights_def hm_wf_def)
  from generate_proof_verifies [OF weight_trie_inv_load [OF this], of sample_env WeightTrie_new "''b''"]
  show ?thesis by (simp add: get_weight_def load_weights_def sample_weights_def)
qed

text \<open>The text that is hashed for a leaf determines the leaf.\<close>

definition weight_leaf_text :: "WeightTrieLeaf \<Rightarrow> string" where
  "weight_leaf_text l = ''weight:'' @ wl_tx_hash l @ '':'' @ show_u (wl_boost_stake_micro l)
     @ '':'' @ show_u (wl_suppress_stake_micro l) @ '':'' @ show_u (wl_neutral_stake_micro l)
     @ '':'' @ show_u (wl_total_network_stake_micro l) @ '':'' @ show_u (wl_attestation_count l)"

lemma hash_weight_leaf_text: "hash_weight_leaf env l = sha256_hex env (weight_leaf_text l)"
  by (simp add: hash_weight_leaf_def weight_leaf_text_def)

lemma weight_leaf_text_inj: "weight_leaf_text l = weight_leaf_text l' \<longleftrightarrow> l = l'"
proof
  assume eq: "weight_leaf_text l = weight_leaf_text l'"
  let ?fs = "\<lambda>l. [show_u (wl_boost_stake_micro l), show_u (wl_suppress_stake_micro l),
    show_u (wl_neutral_stake_micro l), show_u (wl_total_network_stake_micro l),
    show_u (wl_attestation_count l)]"
  have "colon_fields (''weight:'' @ wl_tx_hash l) (?fs l) = colon_fields (''weight:'' @ wl_tx_hash l') (?fs l')"
    using eq by (simp add: colon_fields_def weight_leaf_text_def)
  from colon_fields_inj [OF _ this]
  have "''weight:'' @ wl_tx_hash l = ''weight:'' @ wl_tx_hash l'" "?fs l = ?fs l'" by simp_all
  then show "l = l'" by simp
qed simp

text \<open>The messages hashed to verify a weight proof.\<close>

definition weight_proof_messages :: "crypto_env \<Rightarrow> WeightTrieLeaf \<Rightarrow> nat \<Rightarrow> string list \<Rightarrow> bytes set" where
  "weight_proof_messages env l i p = insert (as_bytes (weight_leaf_text l))
     ((\<lambda>(a, b). as_bytes (a @ b)) ` set (climb_pairs (\<lambda>l r. sha256_hex env (l @ r)) (hash_weight_leaf env l) (sided i p)))"

text \<open>
  Weight proofs bind: two leaves that \<open>verify_weight_proof\<close> accepts for one root at
  one index with proofs of the same length, made of 64-character hashes, are the same
  leaf, or two different messages with one SHA-256 digest are among those hashed to verify
  the proofs.
\<close>
theorem weight_proof_binding:
  assumes "digest_32 env" "hex_roundtrip env" "hex_length env"
    and "verify_weight_proof env l p i r" "verify_weight_proof env l' p' i r"
    and "length p = length p'" and "\<forall>s \<in> set (p @ p'). length s = 64"
  shows "l = l' \<or> sha256_collision_in env (weight_proof_messages env l i p \<union> weight_proof_messages env l' i p')"
proof (cases "hash_weight_leaf env l = hash_weight_leaf env l'")
  case True
  let ?M = "weight_proof_messages env l i p \<union> weight_proof_messages env l' i p'"
  have "as_bytes (weight_leaf_text l) \<in> ?M" "as_bytes (weight_leaf_text l') \<in> ?M"
    by (simp_all add: weight_proof_messages_def)
  with True show ?thesis
    using sha256_hex_collisionI [OF assms(2), of "weight_leaf_text l" "weight_leaf_text l'" ?M]
    unfolding hash_weight_leaf_text weight_leaf_text_inj by blast
next
  case False
  let ?n = "\<lambda>l r. sha256_hex env (l @ r)"
  have sides: "map fst (sided i p) = map fst (sided i p')" by (rule map_fst_sided_eq [OF assms(6)])
  have len: "length (hash_weight_leaf env k) = 64" for k
    using assms(1,3) by (simp add: hash_weight_leaf_def)
  have mem: "\<forall>s \<in> set (sided i q). length (snd s) = 64" if "set q \<subseteq> set (p @ p')" for q
    using that assms(7) map_snd_sided [of i q] by (metis imageI list.set_map subset_eq)
  have "\<exists>a b c d. (a, b) \<in> set (climb_pairs ?n (hash_weight_leaf env l) (sided i p))
      \<and> (c, d) \<in> set (climb_pairs ?n (hash_weight_leaf env l') (sided i p'))
      \<and> length a = 64 \<and> length c = 64 \<and> (a, b) \<noteq> (c, d) \<and> ?n a b = ?n c d"
    by (rule climb_collision [OF _ sides False, of ?n "\<lambda>s. length s = 64"])
       (use assms len mem [of p] mem [of p'] in
         \<open>simp_all add: verify_weight_proof_def weight_climb_climb\<close>)
  then obtain a b c d where abcd: "(a, b) \<in> set (climb_pairs ?n (hash_weight_leaf env l) (sided i p))"
    "(c, d) \<in> set (climb_pairs ?n (hash_weight_leaf env l') (sided i p'))"
    "length a = 64" "length c = 64" "(a, b) \<noteq> (c, d)" "?n a b = ?n c d" by blast
  let ?M = "weight_proof_messages env l i p \<union> weight_proof_messages env l' i p'"
  have "as_bytes (a @ b) \<in> ?M"
    unfolding weight_proof_messages_def by (rule UnI1, rule insertI2, rule image_eqI [OF _ abcd(1)]) (simp only: prod.case)
  moreover have "as_bytes (c @ d) \<in> ?M"
    unfolding weight_proof_messages_def by (rule UnI2, rule insertI2, rule image_eqI [OF _ abcd(2)]) (simp only: prod.case)
  moreover have "a @ b \<noteq> c @ d" using abcd(3-5) by simp
  ultimately have "sha256_collision_in env ?M" by (intro sha256_hex_collisionI [OF assms(2) abcd(6)])
  then show ?thesis ..
qed

definition sample_leaf :: "u32 \<Rightarrow> WeightTrieLeaf" where
  "sample_leaf n = weight_leaf (replicate 40 CHR ''x'') (AggregatedWeight_default\<lparr>aw_attestation_count := n\<rparr>)"

theorem weight_proof_binding_witness:
  "sample_leaf 0 \<noteq> sample_leaf 1
   \<and> verify_weight_proof sample_env (sample_leaf 0) [] 0 (hash_weight_leaf sample_env (sample_leaf 0))
   \<and> verify_weight_proof sample_env (sample_leaf 1) [] 0 (hash_weight_leaf sample_env (sample_leaf 0))
   \<and> sha256_collision_in sample_env (weight_proof_messages sample_env (sample_leaf 0) 0 []
       \<union> weight_proof_messages sample_env (sample_leaf 1) 0 [])"
proof -
  have ne: "sample_leaf 0 \<noteq> sample_leaf 1" by (simp add: sample_leaf_def weight_leaf_def)
  have "hash_weight_leaf sample_env (sample_leaf 1) = hash_weight_leaf sample_env (sample_leaf 0)"
    by code_simp
  then have v: "verify_weight_proof sample_env (sample_leaf n) [] 0 (hash_weight_leaf sample_env (sample_leaf 0))"
    if "n \<in> {0, 1}" for n
    using that by (auto simp: verify_weight_proof_def)
  from weight_proof_binding [OF sample_env_digest sample_env_hex sample_env_hex_length v [of 0] v [of 1]]
  show ?thesis using ne v by simp
qed

section \<open>What finalization adds up\<close>

text \<open>
  The specification: on every transaction each validator counts once, with its last
  pending vote, and its stake is added to the side it voted for. The sums are over sets
  of validators, so no iteration order occurs in them.
\<close>

definition voted_tx :: "PendingWeightVote list \<Rightarrow> string set" where
  "voted_tx votes = pv_tx_hash ` set votes"

definition last_vote :: "PendingWeightVote list \<Rightarrow> string \<Rightarrow> string \<Rightarrow> WeightVote option" where
  "last_vote votes tx validator =
     map_option pv_vote (find (\<lambda>v. pv_tx_hash v = tx \<and> pv_validator_pubkey v = validator) (rev votes))"

definition vote_totals_spec :: "(string \<Rightarrow> u64) \<Rightarrow> PendingWeightVote list \<Rightarrow> string \<Rightarrow> vote_totals" where
  "vote_totals_spec stake_of votes tx =
     \<lparr>boost_stake = (\<Sum>v | last_vote votes tx v = Some Boost. stake_of v),
      suppress_stake = (\<Sum>v | last_vote votes tx v = Some Suppress. stake_of v),
      neutral_stake = (\<Sum>v | last_vote votes tx v = Some Neutral. stake_of v),
      attestation_count = of_nat (card {v. last_vote votes tx v \<noteq> None})\<rparr>"

lemma group_votes_snoc [simp]:
  "group_votes [] = []"
  "group_votes (vs @ [v]) = hm_entry (pv_tx_hash v) [] (\<lambda>ws. ws @ [v]) (group_votes vs)"
  by (simp_all add: group_votes_def)

lemma dedup_votes_snoc [simp]:
  "dedup_votes [] = []"
  "dedup_votes (vs @ [v]) = hm_insert (pv_validator_pubkey v) v (dedup_votes vs)"
  by (simp_all add: dedup_votes_def)

lemma hm_wf_group_votes [simp]: "hm_wf (group_votes vs)"
  by (induction vs rule: rev_induct) auto

lemma hm_wf_dedup_votes [simp]: "hm_wf (dedup_votes vs)"
  by (induction vs rule: rev_induct) auto

lemma hm_get_group_votes:
  "hm_get (group_votes vs) tx =
     (if tx \<in> voted_tx vs then Some (filter (\<lambda>v. pv_tx_hash v = tx) vs) else None)"
  unfolding voted_tx_def
proof (induction vs rule: rev_induct)
  case (snoc v vs)
  have "filter (\<lambda>v. pv_tx_hash v = tx) vs = []" if "tx \<notin> pv_tx_hash ` set vs"
    using that by (auto simp: filter_empty_conv)
  with snoc show ?case by (auto simp: hm_get_entry)
qed simp

lemma hm_get_dedup_votes:
  "hm_get (dedup_votes vs) k = find (\<lambda>v. pv_validator_pubkey v = k) (rev vs)"
  by (induction vs rule: rev_induct) auto

lemma find_filter: "find P (filter Q xs) = find (\<lambda>x. Q x \<and> P x) xs"
  by (induction xs) auto

lemma dedup_last_vote:
  "map_option pv_vote (hm_get (dedup_votes (filter (\<lambda>v. pv_tx_hash v = tx) vs)) k) = last_vote vs tx k"
  by (simp add: hm_get_dedup_votes last_vote_def rev_filter find_filter)

lemma wsum_distinct: "distinct ks \<Longrightarrow> wsum (map f ks) = sum f (set ks)"
  by (induction ks) auto

lemma count_votes_fold:
  "fold (count_vote st) es tot =
     \<lparr>boost_stake = boost_stake tot + wsum (map st (map fst (filter (\<lambda>e. pv_vote (snd e) = Boost) es))),
      suppress_stake = suppress_stake tot + wsum (map st (map fst (filter (\<lambda>e. pv_vote (snd e) = Suppress) es))),
      neutral_stake = neutral_stake tot + wsum (map st (map fst (filter (\<lambda>e. pv_vote (snd e) = Neutral) es))),
      attestation_count = attestation_count tot + of_nat (length es)\<rparr>"
proof (induction es arbitrary: tot)
  case (Cons e es)
  show ?case
    by (cases "pv_vote (snd e)")
       (simp_all only: fold_Cons_rev fold_simps o_apply Cons, simp_all add: count_vote_def Let_def ac_simps)
qed simp

lemma count_votes_spec:
  assumes "iteration_order it_val"
  shows "fold (count_vote st) (it_val (dedup_votes (filter (\<lambda>v. pv_tx_hash v = tx) vs))) vote_totals_zero
    = vote_totals_spec st vs tx"
proof -
  let ?m = "dedup_votes (filter (\<lambda>v. pv_tx_hash v = tx) vs)"
  have wf: "hm_wf (it_val ?m)" and get: "hm_get (it_val ?m) = hm_get ?m"
    using assms by (simp_all add: hm_wf_iter hm_get_iter)
  have vote: "last_vote vs tx k = Some q \<longleftrightarrow> (\<exists>v. (k, v) \<in> set (it_val ?m) \<and> pv_vote v = q)" for k q
    unfolding dedup_last_vote [symmetric] get [symmetric] using wf
    by (auto simp: hm_get_iff_mem)
  have keys: "set (map fst (filter (\<lambda>e. pv_vote (snd e) = q) (it_val ?m))) = {k. last_vote vs tx k = Some q}"
    for q by (force simp: vote)
  have "distinct (map fst (filter P (it_val ?m)))" for P
    using hm_wf_filter [OF wf] by (simp add: hm_wf_def)
  then have sums: "wsum (map st (map fst (filter (\<lambda>e. pv_vote (snd e) = q) (it_val ?m))))
      = (\<Sum>k | last_vote vs tx k = Some q. st k)" for q
    by (simp only: wsum_distinct keys)
  have "{k. last_vote vs tx k \<noteq> None} = fst ` set (it_val ?m)" by (force simp: vote)
  moreover have "card (fst ` set (it_val ?m)) = length (it_val ?m)"
    using wf distinct_card [of "hm_keys (it_val ?m)"] by (simp add: hm_wf_def)
  ultimately show ?thesis
    unfolding count_votes_fold sums by (simp add: vote_totals_zero_def vote_totals_spec_def)
qed

lemma finalize_fold_get:
  "hm_wf gs \<Longrightarrow> hm_get (fst (fold (finalize_tx st it_val net_stake) gs s)) tx =
     (case hm_get gs tx of
        None \<Rightarrow> hm_get (fst s) tx
      | Some vs \<Rightarrow> Some (merge_weight net_stake (fold (count_vote st) (it_val (dedup_votes vs)) vote_totals_zero)
          (unwrap_or (hm_get (fst s) tx) AggregatedWeight_default)))"
proof (induction gs arbitrary: s)
  case (Cons g gs)
  have "hm_wf gs" "hm_get gs (fst g) = None"
    using Cons.prems by (auto simp: hm_wf_def hm_get_None_iff)
  then show ?case
    using Cons.IH [of "finalize_tx st it_val net_stake g s"]
    by (cases g) (auto simp: finalize_tx_def Let_def split: option.splits)
qed simp

lemma finalize_fold_updated:
  "hm_wf gs \<Longrightarrow> set (snd (fold (finalize_tx st it_val net_stake) gs s)) =
     set (snd s) \<union> {(tx, w). hm_get gs tx \<noteq> None
       \<and> hm_get (fst (fold (finalize_tx st it_val net_stake) gs s)) tx = Some w}"
proof (induction gs arbitrary: s)
  case (Cons g gs)
  let ?s = "finalize_tx st it_val net_stake g s"
  have wf: "hm_wf gs" and new: "hm_get gs (fst g) = None"
    using Cons.prems by (auto simp: hm_wf_def hm_get_None_iff)
  have "set (snd ?s) = set (snd s) \<union> {(tx, w). tx = fst g \<and> hm_get (fst ?s) tx = Some w}"
    by (auto simp: finalize_tx_def Let_def)
  moreover have "hm_get (fst (fold (finalize_tx st it_val net_stake) gs ?s)) (fst g) = hm_get (fst ?s) (fst g)"
    using finalize_fold_get [OF wf, of st it_val net_stake ?s "fst g"] new by simp
  ultimately show ?case
    using Cons.IH [OF wf, of ?s] by (cases g) (auto split: if_splits)
qed simp

text \<open>
  C26: at a checkpoint every transaction with pending votes gets, on top of the weight it
  had, the stake of each validator once, on the side of that validator's last vote; the
  other weights stay, the pending votes are consumed, and exactly the changed entries are
  reported. Nothing depends on the order in which the hash maps are traversed.
\<close>
theorem finalize_votes_tally:
  assumes "iteration_order it_tx" "iteration_order it_val"
    and "finalize_votes env it_tx it_val it_stake t stakes net_stake = (t', updated)"
  shows "get_weight t' tx =
      (if tx \<in> voted_tx (wt_pending_votes t)
       then Some (merge_weight net_stake
              (vote_totals_spec (vote_stake env it_stake stakes) (wt_pending_votes t) tx)
              (unwrap_or (get_weight t tx) AggregatedWeight_default))
       else get_weight t tx)
    \<and> ((tx, w) \<in> set updated \<longleftrightarrow> tx \<in> voted_tx (wt_pending_votes t) \<and> get_weight t' tx = Some w)
    \<and> pending_vote_count t' = 0"
proof -
  let ?gs = "it_tx (group_votes (wt_pending_votes t))"
  let ?st = "vote_stake env it_stake stakes"
  let ?r = "fold (finalize_tx ?st it_val net_stake) ?gs (wt_weights t, [])"
  have t': "wt_weights t' = fst ?r" "updated = snd ?r" "wt_pending_votes t' = []"
    using assms(3) by (auto simp: finalize_votes_def Let_def)
  have wf: "hm_wf ?gs" and get: "hm_get ?gs = hm_get (group_votes (wt_pending_votes t))"
    using assms(1) by (simp_all add: hm_wf_iter hm_get_iter)
  show ?thesis
    unfolding get_weight_def pending_vote_count_def t' finalize_fold_get [OF wf]
      finalize_fold_updated [OF wf] get hm_get_group_votes
    by (simp add: count_votes_spec [OF assms(2)])
qed

definition sample_vote :: "string \<Rightarrow> string \<Rightarrow> WeightVote \<Rightarrow> PendingWeightVote" where
  "sample_vote tx v q = \<lparr>pv_tx_hash = tx, pv_validator_pubkey = v, pv_vote = q, pv_timestamp_ms = 0,
     pv_bls_signature = None\<rparr>"

definition sample_votes :: "PendingWeightVote list" where
  "sample_votes = [sample_vote ''t'' ''v'' Boost, sample_vote ''t'' ''w'' Boost,
     sample_vote ''t'' ''v'' Suppress]"

theorem finalize_votes_tally_witness:
  "\<exists>t'. fst (finalize_votes sample_env rev rev rev (WeightTrie_new\<lparr>wt_pending_votes := sample_votes\<rparr>)
        [(''v'', 3), (''w'', 4)] 7) = t'
     \<and> get_weight t' ''t'' = Some (merge_weight 7
         (vote_totals_spec (vote_stake sample_env rev [(''v'', 3), (''w'', 4)]) sample_votes ''t'')
         AggregatedWeight_default)"
proof -
  let ?t = "WeightTrie_new\<lparr>wt_pending_votes := sample_votes\<rparr>"
  obtain t' u where r: "finalize_votes sample_env rev rev rev ?t [(''v'', 3), (''w'', 4)] 7 = (t', u)"
    by (cases "finalize_votes sample_env rev rev rev ?t [(''v'', 3), (''w'', 4)] 7")
  have "''t'' \<in> voted_tx (wt_pending_votes ?t)"
    by (simp add: voted_tx_def sample_votes_def sample_vote_def)
  moreover have "get_weight ?t ''t'' = None" by (simp add: get_weight_def WeightTrie_new_def)
  ultimately show ?thesis
    using finalize_votes_tally [OF iteration_order_rev iteration_order_rev r, of "''t''"] r by simp
qed

text \<open>A validator whose stake is found without the prefix search.\<close>

definition direct_lookup :: "crypto_env \<Rightarrow> stake_table \<Rightarrow> string \<Rightarrow> bool" where
  "direct_lookup env stakes v \<longleftrightarrow>
     hm_contains stakes v \<or> length v < 128 \<or> hm_contains stakes (pubkey_to_address env v)"

lemma vote_stake_direct:
  "direct_lookup env stakes v \<Longrightarrow> vote_stake env it stakes v = vote_stake env it' stakes v"
  by (auto simp: direct_lookup_def vote_stake_def hm_contains_def Let_def split: option.splits)

lemma last_vote_SomeD: "last_vote votes tx v = Some q \<Longrightarrow> v \<in> pv_validator_pubkey ` set votes"
  by (auto simp: last_vote_def find_Some_iff intro: nth_mem) (metis imageI length_rev nth_mem set_rev)

lemma vote_totals_spec_cong:
  "(\<And>v. v \<in> pv_validator_pubkey ` set votes \<Longrightarrow> f v = g v) \<Longrightarrow>
   vote_totals_spec f votes tx = vote_totals_spec g votes tx"
  by (auto simp: vote_totals_spec_def dest: last_vote_SomeD intro!: sum.cong)

text \<open>
  Two nodes with the same weights and the same pending votes finalize to the same
  root, whatever the iteration orders of their hash maps, provided every voter is found in
  the stake table by its key or by the address derived from it (the prefix search, which
  takes the first match of a hash map, is the exception).
\<close>
theorem finalize_root_deterministic:
  assumes "iteration_order it_tx" "iteration_order it_val" "iteration_order it_tx'" "iteration_order it_val'"
    and "weight_trie_inv env t" "weight_trie_inv env t'"
    and "get_weight t = get_weight t'" "wt_pending_votes t = wt_pending_votes t'"
    and "\<forall>v \<in> set (wt_pending_votes t). direct_lookup env stakes (pv_validator_pubkey v)"
  shows "fst (compute_root env (fst (finalize_votes env it_tx it_val it_stake t stakes net_stake)))
    = fst (compute_root env (fst (finalize_votes env it_tx' it_val' it_stake' t' stakes net_stake)))"
proof -
  let ?f = "finalize_votes env it_tx it_val it_stake t stakes net_stake"
  let ?f' = "finalize_votes env it_tx' it_val' it_stake' t' stakes net_stake"
  have tot: "vote_totals_spec (vote_stake env it_stake stakes) (wt_pending_votes t) tx
      = vote_totals_spec (vote_stake env it_stake' stakes) (wt_pending_votes t') tx" for tx
    using assms(8,9) vote_stake_direct by (auto intro!: vote_totals_spec_cong)
  have get: "get_weight (fst (finalize_votes env jt jv js u stakes net_stake)) tx =
      (if tx \<in> voted_tx (wt_pending_votes u)
       then Some (merge_weight net_stake
              (vote_totals_spec (vote_stake env js stakes) (wt_pending_votes u) tx)
              (unwrap_or (get_weight u tx) AggregatedWeight_default))
       else get_weight u tx)" if "iteration_order jt" "iteration_order jv" for jt jv js u tx
    using finalize_fold_get hm_get_iter [OF that(1)] hm_wf_iter [OF that(1)] hm_wf_group_votes
    by (simp add: get_weight_def finalize_votes_def Let_def hm_get_group_votes count_votes_spec [OF that(2)])
  have "hm_get (wt_weights (fst ?f)) = hm_get (wt_weights (fst ?f'))"
    using get assms(1-4,7,8) tot by (fastforce simp: get_weight_def [symmetric])
  moreover have "weight_trie_inv env (fst ?f)" "weight_trie_inv env (fst ?f')"
    using assms(5,6) by (simp_all add: weight_trie_inv_finalize)
  ultimately show ?thesis
    using trie_root_cong by (simp add: compute_root_inv weight_trie_inv_def)
qed

theorem finalize_root_deterministic_witness:
  "fst (compute_root sample_env (fst (finalize_votes sample_env rev rev rev
        (WeightTrie_new\<lparr>wt_pending_votes := sample_votes\<rparr>) [(''v'', 3), (''w'', 4)] 7)))
   = fst (compute_root sample_env (fst (finalize_votes sample_env (\<lambda>x. x) (\<lambda>x. x) (\<lambda>x. x)
        (WeightTrie_new\<lparr>wt_pending_votes := sample_votes\<rparr>) [(''v'', 3), (''w'', 4)] 7)))"
  by (rule finalize_root_deterministic)
     (simp_all add: weight_trie_inv_def WeightTrie_new_def sample_votes_def sample_vote_def direct_lookup_def)

text \<open>
  A vote whose key has at least 128 characters and is not hexadecimal carries the
  stake of whichever validator the stake table lists first: the address derived from it
  is the empty string, a prefix of every address.
\<close>
theorem malformed_pubkey_votes_with_stake:
  assumes "iteration_order it_stake" and "hex_decode env v = None" and "128 \<le> length v"
    and "hm_get stakes v = None" "hm_get stakes [] = None" and "stakes \<noteq> []"
  shows "\<exists>a s. (a, s) \<in> set stakes \<and> vote_stake env it_stake stakes v = s"
proof -
  have "mset (it_stake stakes) = mset stakes" using assms(1) by (simp add: iteration_order_def)
  with assms(6) obtain a s rest where it: "it_stake stakes = (a, s) # rest"
    by (cases "it_stake stakes") auto
  then have "(a, s) \<in> set stakes" using iteration_order_set [OF assms(1), of stakes] by auto
  moreover have "vote_stake env it_stake stakes v = s"
    using assms it by (simp add: vote_stake_def pubkey_to_address_def)
  ultimately show ?thesis by blast
qed

theorem malformed_pubkey_votes_with_stake_witness:
  "\<exists>a s. (a, s) \<in> set [(''v'', 3), (''w'', 4)]
     \<and> vote_stake sample_env rev [(''v'', 3), (''w'', 4)] (replicate 128 CHR ''x'') = s"
proof (rule malformed_pubkey_votes_with_stake)
  show "hex_decode sample_env (replicate 128 CHR ''x'') = None" by code_simp
  show "hm_get [(''v'', 3 :: u64), (''w'', 4)] (replicate 128 CHR ''x'') = None" by code_simp
qed simp_all

end
