(* ===== verification/Rinku_Machine.thy ===== *)
theory Rinku_Machine
  imports Main
begin

text \<open>
  The contract every stateful component of the development meets: initial states satisfy
  an invariant and every operation keeps it, so it holds after any sequence of operations.
  Each component interprets the locale on its own operations.
\<close>

locale invariant_system =
  fixes init :: "'s \<Rightarrow> bool"
    and step :: "'s \<Rightarrow> 's \<Rightarrow> bool"
    and inv :: "'s \<Rightarrow> bool"
  assumes init_inv: "init s \<Longrightarrow> inv s"
    and step_inv: "inv s \<Longrightarrow> step s t \<Longrightarrow> inv t"
begin

lemma steps_inv: "inv s \<Longrightarrow> step\<^sup>*\<^sup>* s t \<Longrightarrow> inv t"
  by (rotate_tac 1, induction rule: rtranclp_induct) (auto intro: step_inv)

lemma run_inv: "init s \<Longrightarrow> step\<^sup>*\<^sup>* s t \<Longrightarrow> inv t"
  using init_inv steps_inv by blast

text \<open>A run given as the list of its states.\<close>

fun run :: "'s \<Rightarrow> 's list \<Rightarrow> bool" where
  "run s [] = True"
| "run s (t # ts) = (step s t \<and> run t ts)"

lemma run_all_inv: "init s \<Longrightarrow> run s ts \<Longrightarrow> \<forall>t \<in> set ts. inv t"
proof -
  assume "init s"
  then have "inv s" by (rule init_inv)
  then show "run s ts \<Longrightarrow> \<forall>t \<in> set ts. inv t"
    by (induction ts arbitrary: s) (auto intro: step_inv)
qed

end

text \<open>
  The contract of a state that replicas exchange as snapshots and merge: the merge is a
  join, so the result of a series of merges depends only on which snapshots were seen,
  not on their order or on how often each arrived.
\<close>

locale replica_merge =
  fixes join :: "'a \<Rightarrow> 'a \<Rightarrow> 'a"
  assumes join_commute: "join a b = join b a"
    and join_assoc: "join (join a b) c = join a (join b c)"
    and join_idem: "join a a = a"
begin

lemma join_left_commute: "join a (join b c) = join b (join a c)"
  by (metis join_assoc join_commute)

lemma comp_fun_idem_join: "comp_fun_idem join"
proof -
  have "join x \<circ> join x = join x" for x by (rule ext) (simp add: join_assoc [symmetric] join_idem)
  moreover have "join y \<circ> join x = join x \<circ> join y" for x y by (rule ext) (simp add: join_left_commute)
  ultimately show ?thesis by unfold_locales auto
qed

lemma merges_converge: "set xs = set ys \<Longrightarrow> fold join xs s = fold join ys s"
  using comp_fun_idem_on.fold_set_fold [OF comp_fun_idem_join [unfolded comp_fun_idem_def'] subset_UNIV]
  by metis

lemma merge_absorbs: "x \<in> set xs \<Longrightarrow> join x (fold join xs s) = fold join xs s"
  using merges_converge [of "xs @ [x]" xs s] by auto

end

text \<open>
  The contract of a component that implements an abstract data type: every operation of the
  component is simulated by the abstract one as long as its guard holds, so a whole
  sequence of operations is.
\<close>

locale simulation =
  fixes rep :: "'c \<Rightarrow> 'a \<Rightarrow> bool"
    and cstep :: "'op \<Rightarrow> 'c \<Rightarrow> 'c"
    and astep :: "'op \<Rightarrow> 'a \<Rightarrow> 'a"
    and guard :: "'op \<Rightarrow> 'a \<Rightarrow> bool"
  assumes sim_step: "rep c a \<Longrightarrow> guard op a \<Longrightarrow> rep (cstep op c) (astep op a)"
begin

fun guarded :: "'op list \<Rightarrow> 'a \<Rightarrow> bool" where
  "guarded [] a = True"
| "guarded (op # ops) a = (guard op a \<and> guarded ops (astep op a))"

lemma sim_run: "rep c a \<Longrightarrow> guarded ops a \<Longrightarrow> rep (fold cstep ops c) (fold astep ops a)"
  by (induction ops arbitrary: c a) (auto intro: sim_step)

end

end
