(* ===== verification/Rinku_Emission.thy ===== *)
theory Rinku_Emission
  imports Rinku_Weight Rinku_Machine
begin

text \<open>
  \<open>rinku-node/src/emission.rs\<close> and \<open>gas.rs\<close>: the reward schedule and the emission
  counters, the split of fees between validators and burn, the distribution of a
  checkpoint's reward, and the gas price.
\<close>

section \<open>Constants\<close>

definition MAX_SUPPLY :: u64 where "MAX_SUPPLY = 3000000000000000"
definition GENESIS_ALLOCATION :: u64 where "GENESIS_ALLOCATION = 600000000000000"
definition INITIAL_CHECKPOINT_REWARD :: u64 where "INITIAL_CHECKPOINT_REWARD = 393241100"
definition HALVING_INTERVAL :: u64 where "HALVING_INTERVAL = 3150000"
definition MIN_CHECKPOINT_REWARD :: u64 where "MIN_CHECKPOINT_REWARD = 12288700"
definition HALVINGS_COUNT :: u32 where "HALVINGS_COUNT = 5"
definition VALIDATOR_FEE_FLOOR_PERCENT :: f64 where "VALIDATOR_FEE_FLOOR_PERCENT = rnd (70 / 100)"
definition BURN_CEILING_PERCENT :: f64 where "BURN_CEILING_PERCENT = rnd (30 / 100)"
definition SUPPLY_TARGET_FOR_FULL_BURN :: f64 where "SUPPLY_TARGET_FOR_FULL_BURN = rnd (50 / 100)"
definition STAKE_WEIGHT_PERCENT :: f64 where "STAKE_WEIGHT_PERCENT = rnd (70 / 100)"
definition MIN_BOND_MICRO :: u64 where "MIN_BOND_MICRO = 10000000000"
definition AGE_DECAY_PER_MISS :: f64 where "AGE_DECAY_PER_MISS = rnd (10 / 100)"

lemmas emission_consts = MAX_SUPPLY_def GENESIS_ALLOCATION_def INITIAL_CHECKPOINT_REWARD_def
  HALVING_INTERVAL_def MIN_CHECKPOINT_REWARD_def HALVINGS_COUNT_def

section \<open>The emission service\<close>

record EmissionStats =
  em_current_reward :: u64
  em_halving_epoch :: u32
  em_next_halving_at :: u64
  em_total_emitted :: u64
  em_remaining_to_emit :: u64
  em_circulating_supply :: u64
  em_total_burned :: u64
  em_validator_fee_percent :: f64
  em_burn_percent :: f64

record FeeSplit =
  fs_validator_share :: f64
  fs_burn_share :: f64

record EmissionSnapshot =
  sn_total_emitted :: u64
  sn_total_burned :: u64
  sn_last_reward_height :: u64

record EmissionService =
  es_total_emitted :: u64
  es_total_burned :: u64
  es_last_reward_height :: u64

definition EmissionService_new :: EmissionService where
  "EmissionService_new = \<lparr>es_total_emitted = 0, es_total_burned = 0, es_last_reward_height = 0\<rparr>"

definition with_initial :: "u64 \<Rightarrow> u64 \<Rightarrow> EmissionService" where
  "with_initial total_emitted total_burned =
     \<lparr>es_total_emitted = total_emitted, es_total_burned = total_burned, es_last_reward_height = 0\<rparr>"

definition get_halving_epoch :: "u64 \<Rightarrow> u32" where
  "get_halving_epoch checkpoint_height = ucast (checkpoint_height div HALVING_INTERVAL)"

definition get_checkpoint_reward :: "u64 \<Rightarrow> u64" where
  "get_checkpoint_reward checkpoint_height =
     (let halvings = (ucast (checkpoint_height div HALVING_INTERVAL) :: u32);
          effective_halvings = min halvings HALVINGS_COUNT;
          reward = drop_bit (unat effective_halvings) INITIAL_CHECKPOINT_REWARD
      in max reward MIN_CHECKPOINT_REWARD)"

definition get_next_halving_height :: "u64 \<Rightarrow> u64" where
  "get_next_halving_height checkpoint_height =
     (let current_epoch = get_halving_epoch checkpoint_height
      in (ucast current_epoch + 1) * HALVING_INTERVAL)"

definition record_emission :: "u64 \<Rightarrow> EmissionService \<Rightarrow> EmissionService" where
  "record_emission amount s = s\<lparr>es_total_emitted := es_total_emitted s + amount\<rparr>"

definition record_emission_for_height :: "u64 \<Rightarrow> u64 \<Rightarrow> EmissionService \<Rightarrow> EmissionService \<times> bool" where
  "record_emission_for_height height amount s =
     (if height \<le> es_last_reward_height s then (s, False)
      else (s\<lparr>es_total_emitted := es_total_emitted s + amount, es_last_reward_height := height\<rparr>, True))"

definition set_last_reward_height :: "u64 \<Rightarrow> EmissionService \<Rightarrow> EmissionService" where
  "set_last_reward_height height s =
     s\<lparr>es_last_reward_height := max (es_last_reward_height s) height\<rparr>"

text \<open>The loop over the heights \<open>from + 1 ..= to\<close>.\<close>

definition rewards_between :: "u64 \<Rightarrow> u64 \<Rightarrow> u64 list" where
  "rewards_between from to =
     map (\<lambda>h. get_checkpoint_reward (of_nat h)) [Suc (unat from) ..< Suc (unat to)]"

definition rollback_to_height :: "u64 \<Rightarrow> EmissionService \<Rightarrow> EmissionService" where
  "rollback_to_height target_height s =
     (if target_height \<ge> es_last_reward_height s then s
      else let reverted_emission = wsum (rewards_between target_height (es_last_reward_height s))
           in s\<lparr>es_total_emitted := saturating_sub (es_total_emitted s) reverted_emission,
                es_last_reward_height := target_height\<rparr>)"

definition record_burn :: "u64 \<Rightarrow> EmissionService \<Rightarrow> EmissionService" where
  "record_burn amount s = s\<lparr>es_total_burned := es_total_burned s + amount\<rparr>"

definition get_circulating_supply :: "EmissionService \<Rightarrow> u64" where
  "get_circulating_supply s = GENESIS_ALLOCATION + es_total_emitted s - es_total_burned s"

definition get_remaining_to_emit :: "EmissionService \<Rightarrow> u64" where
  "get_remaining_to_emit s =
     (let max_emittable = MAX_SUPPLY - GENESIS_ALLOCATION
      in saturating_sub max_emittable (es_total_emitted s))"

definition progressive_burn :: "EmissionService \<Rightarrow> f64" where
  "progressive_burn s =
     (let circulating_supply = get_circulating_supply s;
          supply_ratio = f64_div (f64_of_u64 circulating_supply) (f64_of_u64 MAX_SUPPLY)
      in if f64_le SUPPLY_TARGET_FOR_FULL_BURN supply_ratio then BURN_CEILING_PERCENT
         else let burn_progress = f64_div supply_ratio SUPPLY_TARGET_FOR_FULL_BURN
              in f64_mul burn_progress BURN_CEILING_PERCENT)"

definition get_adaptive_fee_split :: "EmissionService \<Rightarrow> FeeSplit" where
  "get_adaptive_fee_split s =
     (let burn_percent = progressive_burn s;
          validator_percent = f64_max (f64_sub (Fin 1) burn_percent) VALIDATOR_FEE_FLOOR_PERCENT
      in \<lparr>fs_validator_share = validator_percent, fs_burn_share = f64_sub (Fin 1) validator_percent\<rparr>)"

definition calculate_fee_split :: "EmissionService \<Rightarrow> u64 \<Rightarrow> u64 \<times> u64" where
  "calculate_fee_split s fee_amount =
     (let split = get_adaptive_fee_split s;
          validator_share = f64_share fee_amount (fs_validator_share split);
          burn_share = saturating_sub fee_amount validator_share
      in (validator_share, burn_share))"

definition emission_get_stats :: "EmissionService \<Rightarrow> u64 \<Rightarrow> EmissionStats" where
  "emission_get_stats s checkpoint_height =
     (let fee_split = get_adaptive_fee_split s
      in \<lparr>em_current_reward = get_checkpoint_reward checkpoint_height,
          em_halving_epoch = get_halving_epoch checkpoint_height,
          em_next_halving_at = get_next_halving_height checkpoint_height,
          em_total_emitted = es_total_emitted s,
          em_remaining_to_emit = get_remaining_to_emit s,
          em_circulating_supply = get_circulating_supply s,
          em_total_burned = es_total_burned s,
          em_validator_fee_percent = f64_mul (fs_validator_share fee_split) (Fin 100),
          em_burn_percent = f64_mul (fs_burn_share fee_split) (Fin 100)\<rparr>)"

definition emission_to_json :: "EmissionService \<Rightarrow> EmissionSnapshot" where
  "emission_to_json s =
     \<lparr>sn_total_emitted = es_total_emitted s, sn_total_burned = es_total_burned s,
      sn_last_reward_height = es_last_reward_height s\<rparr>"

definition emission_from_json :: "EmissionSnapshot \<Rightarrow> EmissionService" where
  "emission_from_json snapshot =
     \<lparr>es_total_emitted = sn_total_emitted snapshot, es_total_burned = sn_total_burned snapshot,
      es_last_reward_height = sn_last_reward_height snapshot\<rparr>"

definition emission_merge_from :: "EmissionSnapshot \<Rightarrow> EmissionService \<Rightarrow> EmissionService \<times> u64 \<times> u64" where
  "emission_merge_from snapshot s =
     (let old_emitted = es_total_emitted s; old_burned = es_total_burned s;
          s = s\<lparr>es_total_emitted := max (es_total_emitted s) (sn_total_emitted snapshot),
                es_total_burned := max (es_total_burned s) (sn_total_burned snapshot),
                es_last_reward_height := max (es_last_reward_height s) (sn_last_reward_height snapshot)\<rparr>
      in (s, es_total_emitted s - old_emitted, es_total_burned s - old_burned))"

section \<open>Distributing a reward\<close>

record ValidatorWeightInfo =
  vw_address :: string
  vw_stake_amount :: u64
  vw_age_weight :: f64
  vw_missed_checkpoints :: u32

definition calculate_effective_age_weight :: "float_env \<Rightarrow> f64 \<Rightarrow> u64 \<Rightarrow> u32 \<Rightarrow> f64" where
  "calculate_effective_age_weight fe age_weight stake_amount missed_checkpoints =
     (if stake_amount < MIN_BOND_MICRO then Fin 0
      else let decay_factor = fe_powi fe (f64_sub (Fin 1) AGE_DECAY_PER_MISS) (sint missed_checkpoints)
           in f64_mul age_weight decay_factor)"

text \<open>The stake part is computed in \<open>u128\<close>, where the product of two \<open>u64\<close> is exact.\<close>

definition stake_part :: "u64 \<Rightarrow> u64 \<Rightarrow> u64 \<Rightarrow> u64" where
  "stake_part stake_pool total_stake stake =
     (if total_stake > 0 then of_nat (unat stake_pool * unat stake div unat total_stake) else 0)"

definition age_part :: "u64 \<Rightarrow> f64 \<Rightarrow> f64 \<Rightarrow> u64" where
  "age_part age_pool total_effective_age w =
     (if f64_lt (Fin 0) total_effective_age
      then to_u64 (f64_round (f64_div (f64_mul (f64_of_u64 age_pool) w) total_effective_age)) else 0)"

definition distribute_checkpoint_reward ::
  "float_env \<Rightarrow> u64 \<Rightarrow> ValidatorWeightInfo list \<Rightarrow> (string \<times> u64) list" where
  "distribute_checkpoint_reward fe reward validators =
     (if validators = [] \<or> reward = 0 then []
      else let total_stake = wsum (map vw_stake_amount validators);
               effective_age_weights = map (\<lambda>v. calculate_effective_age_weight fe (vw_age_weight v)
                 (vw_stake_amount v) (vw_missed_checkpoints v)) validators;
               total_effective_age = f64_sum effective_age_weights;
               stake_pool = f64_share reward STAKE_WEIGHT_PERCENT;
               age_pool = saturating_sub reward stake_pool
           in filter (\<lambda>(_, share). share > 0)
                (map (\<lambda>(v, w). (vw_address v,
                    stake_part stake_pool total_stake (vw_stake_amount v)
                    + age_part age_pool total_effective_age w))
                  (zip validators effective_age_weights)))"

section \<open>Gas\<close>

record GasService =
  gs_config :: GasConfig
  gs_current_price :: u64
  gs_tx_counts :: "(u64 \<times> u32) list"

definition GasService_new :: "GasConfig \<Rightarrow> GasService" where
  "GasService_new config =
     \<lparr>gs_config = config, gs_current_price = gc_min_gas_price config, gs_tx_counts = []\<rparr>"

text \<open>
  \<open>record_transaction\<close>: a period shorter than a second divides by zero, which panics
  (\<open>None\<close>).
\<close>

definition record_transaction :: "u64 \<Rightarrow> GasService \<Rightarrow> GasService option" where
  "record_transaction timestamp g =
     (let d = gc_period_duration_ms (gs_config g) div 1000
      in if d = 0 then None
         else let period = timestamp div d
              in case rev (gs_tx_counts g) of
                   (last_period, n) # older \<Rightarrow>
                     if last_period = period
                     then Some (g\<lparr>gs_tx_counts := rev ((last_period, n + 1) # older)\<rparr>)
                     else Some (g\<lparr>gs_tx_counts :=
                       (let q = gs_tx_counts g @ [(period, 1)] in drop (length q - 10) q)\<rparr>)
                 | [] \<Rightarrow> Some (g\<lparr>gs_tx_counts := [(period, 1)]\<rparr>))"

definition update_price :: "GasService \<Rightarrow> GasService" where
  "update_price g =
     (let recent_tx_count = wsum (map snd (take 1 (rev (gs_tx_counts g))));
          target = gc_target_txs_per_period (gs_config g);
          adjustment = gc_adjustment_factor (gs_config g);
          price_f64 = from_micro_units (gs_current_price g);
          new_price_f64 =
            (if recent_tx_count > target then f64_mul price_f64 (f64_add (Fin 1) adjustment)
             else if recent_tx_count < target then f64_mul price_f64 (f64_sub (Fin 1) adjustment)
             else price_f64);
          new_price = to_micro_units new_price_f64
      in g\<lparr>gs_current_price :=
            min (max new_price (gc_min_gas_price (gs_config g))) (gc_max_gas_price (gs_config g))\<rparr>)"

definition calculate_fee :: "GasService \<Rightarrow> u64 \<Rightarrow> u64" where
  "calculate_fee g gas_limit = of_nat (unat (gs_current_price g) * unat gas_limit div unat MICRO_UNITS)"

definition calculate_burn_amount :: "GasService \<Rightarrow> u64 \<Rightarrow> f64 \<Rightarrow> u64" where
  "calculate_burn_amount g fee supply_ratio =
     (let min_price_ratio = from_micro_units (gc_min_gas_price (gs_config g));
          burn_ratio = f64_mul (f64_sub (Fin 1) min_price_ratio) supply_ratio;
          capped_burn = f64_min burn_ratio (rnd (3 / 10))
      in f64_share fee capped_burn)"

section \<open>The reward schedule\<close>

lemma u64_consts [simp]:
  "unat HALVING_INTERVAL = 3150000" "unat INITIAL_CHECKPOINT_REWARD = 393241100"
  "unat MIN_CHECKPOINT_REWARD = 12288700" "unat HALVINGS_COUNT = 5"
  "unat MAX_SUPPLY = 3000000000000000" "unat GENESIS_ALLOCATION = 600000000000000"
  by (simp_all add: emission_consts)

definition scheduled_reward :: "nat \<Rightarrow> nat" where
  "scheduled_reward h = 393241100 div 2 ^ min (h div 3150000) 5"

lemma scheduled_reward_cases:
  "scheduled_reward h = (if h < 3150000 then 393241100 else if h < 6300000 then 196620550
     else if h < 9450000 then 98310275 else if h < 12600000 then 49155137
     else if h < 15750000 then 24577568 else 12288784)"
proof -
  have e: "scheduled_reward h = 393241100 div 2 ^ min k 5" if "k * 3150000 \<le> h" "h < Suc k * 3150000" for k
    using that div_nat_eqI [of 3150000 k h] by (simp add: scheduled_reward_def mult.commute)
  have "scheduled_reward h = 12288784" if "15750000 \<le> h"
  proof -
    have "5 \<le> h div 3150000" using that div_le_mono [OF that, of 3150000] by simp
    then show ?thesis by (simp add: scheduled_reward_def min_absorb2)
  qed
  then show ?thesis
    using e [of 0] e [of 1] e [of 2] e [of 3] e [of 4] by (simp add: not_less)
qed

lemma unat_checkpoint_reward:
  assumes "unat h < 2 ^ 32 * 3150000"
  shows "unat (get_checkpoint_reward h) = scheduled_reward (unat h)"
proof -
  have epoch: "unat (ucast (h div HALVING_INTERVAL) :: u32) = unat h div 3150000"
    using assms by (simp add: unsigned_ucast_eq take_bit_eq_mod unat_div less_mult_imp_div_less)
  have "unat (min (ucast (h div HALVING_INTERVAL)) HALVINGS_COUNT) = min (unat h div 3150000) 5"
    by (simp add: unat_min epoch)
  then have "unat (get_checkpoint_reward h) = max (scheduled_reward (unat h)) 12288700"
    by (simp add: get_checkpoint_reward_def Let_def unat_max scheduled_reward_def unat_drop_bit_eq
        drop_bit_eq_div [where 'a = nat] del: drop_bit_eq_div)
  then show ?thesis by (simp add: scheduled_reward_cases)
qed

text \<open>
  The checkpoint reward is the initial reward halved every 3,150,000 checkpoints, five
  times at most: it never rises with the height, and stays between the floor and the initial
  reward (the cast of the epoch to 32 bits bounds the heights this holds for).
\<close>
theorem reward_schedule:
  assumes "h \<le> h'" "unat h' < 2 ^ 32 * 3150000"
  shows "unat (get_checkpoint_reward h) = 393241100 div 2 ^ min (unat h div 3150000) 5
    \<and> get_checkpoint_reward h' \<le> get_checkpoint_reward h
    \<and> MIN_CHECKPOINT_REWARD \<le> get_checkpoint_reward h' \<and> get_checkpoint_reward h \<le> INITIAL_CHECKPOINT_REWARD"
proof -
  have h: "unat h \<le> unat h'" using assms(1) by (simp add: word_le_nat_alt)
  then have "unat h < 2 ^ 32 * 3150000" using assms(2) by linarith
  note r = unat_checkpoint_reward [OF this] unat_checkpoint_reward [OF assms(2)]
  show ?thesis
    unfolding word_le_nat_alt u64_consts r
    using h by (simp add: scheduled_reward_def [symmetric]) (simp add: scheduled_reward_cases)
qed

theorem reward_schedule_witness:
  "unat (get_checkpoint_reward 3150000) = 196620550 \<and> get_checkpoint_reward 6300000 \<le> get_checkpoint_reward 3150000"
proof -
  have "(3150000 :: u64) \<le> 6300000" by (simp add: word_le_nat_alt)
  from reward_schedule [OF this] show ?thesis by simp
qed

section \<open>Counting emissions\<close>

text \<open>
  What the checkpoint handlers do for every finalized checkpoint they see
  (\<open>checkpoint.rs\<close>, \<open>gossip.rs\<close>): look the reward up and record it for the height.
\<close>

definition emit_checkpoint :: "u64 \<Rightarrow> EmissionService \<Rightarrow> EmissionService" where
  "emit_checkpoint h s = fst (record_emission_for_height h (get_checkpoint_reward h) s)"

text \<open>
  C30: a height is rewarded at most once, in whatever order and however often checkpoints
  are processed: the emitted total grows by the rewards of a strictly increasing subsequence
  of the heights seen, all above the last rewarded height.
\<close>
theorem emission_once_per_height:
  "\<exists>acc. set acc \<subseteq> set hs \<and> sorted_wrt (<) (es_last_reward_height s # acc)
     \<and> es_total_emitted (fold emit_checkpoint hs s)
         = es_total_emitted s + wsum (map get_checkpoint_reward acc)
     \<and> es_last_reward_height (fold emit_checkpoint hs s) = last (es_last_reward_height s # acc)
     \<and> es_total_burned (fold emit_checkpoint hs s) = es_total_burned s"
proof (induction hs arbitrary: s)
  case Nil
  show ?case by (intro exI [of _ "[]"]) simp
next
  case (Cons h hs)
  let ?s = "emit_checkpoint h s"
  from Cons [of ?s] obtain acc where acc: "set acc \<subseteq> set hs" "sorted_wrt (<) (es_last_reward_height ?s # acc)"
    "es_total_emitted (fold emit_checkpoint hs ?s) = es_total_emitted ?s + wsum (map get_checkpoint_reward acc)"
    "es_last_reward_height (fold emit_checkpoint hs ?s) = last (es_last_reward_height ?s # acc)"
    "es_total_burned (fold emit_checkpoint hs ?s) = es_total_burned ?s" by blast
  show ?case
  proof (cases "h \<le> es_last_reward_height s")
    case True
    then have "?s = s" by (simp add: emit_checkpoint_def record_emission_for_height_def)
    with acc show ?thesis by (intro exI [of _ acc]) auto
  next
    case False
    then have "?s = s\<lparr>es_total_emitted := es_total_emitted s + get_checkpoint_reward h, es_last_reward_height := h\<rparr>"
      by (simp add: emit_checkpoint_def record_emission_for_height_def)
    with acc False show ?thesis by (intro exI [of _ "h # acc"]) (auto simp: not_le ac_simps)
  qed
qed

lemma emit_range:
  assumes "es_last_reward_height s = of_nat a" "b < 2 ^ 64" "a \<le> b"
  shows "fold emit_checkpoint (map of_nat [Suc a ..< Suc b]) s =
    s\<lparr>es_total_emitted := es_total_emitted s + wsum (map (\<lambda>h. get_checkpoint_reward (of_nat h)) [Suc a ..< Suc b]),
      es_last_reward_height := of_nat b\<rparr>"
  using assms(2,3)
proof (induction b)
  case 0
  then show ?case using assms(1) by simp
next
  case (Suc b)
  show ?case
  proof (cases "a = Suc b")
    case True
    then show ?thesis using assms(1) by simp
  next
    case False
    with Suc have ab: "a \<le> b" "b < 2 ^ 64" by auto
    have less: "\<not> (of_nat (Suc b) :: u64) \<le> of_nat b"
      using Suc.prems(1) by (simp add: word_le_nat_alt unat_of_nat del: of_nat_Suc)
    have up: "[Suc a ..< Suc (Suc b)] = [Suc a ..< Suc b] @ [Suc b]" using ab by simp
    show ?thesis
      unfolding up using less Suc.IH [OF ab(2,1)]
      by (simp add: emit_checkpoint_def record_emission_for_height_def ac_simps del: of_nat_Suc upt_Suc)
  qed
qed

text \<open>
  Rolling back undoes emission: processing the checkpoints after a height one by one
  and then rolling back to it restores the service exactly (as long as the counter does
  not overflow).
\<close>
theorem emission_rollback_roundtrip:
  assumes "es_last_reward_height s < h"
    and "unat (es_total_emitted s) + sum_list (map unat (rewards_between (es_last_reward_height s) h)) < 2 ^ 64"
  shows "rollback_to_height (es_last_reward_height s)
    (fold emit_checkpoint (map of_nat [Suc (unat (es_last_reward_height s)) ..< Suc (unat h)]) s) = s"
proof -
  let ?a = "unat (es_last_reward_height s)"
  let ?r = "rewards_between (es_last_reward_height s) h"
  have ab: "?a < unat h" "unat h < 2 ^ 64" using assms(1) unat_u64_bound [of h] by (simp_all add: word_less_nat_alt)
  have r: "map (\<lambda>h. get_checkpoint_reward (of_nat h)) [Suc ?a ..< Suc (unat h)] = ?r"
    by (simp add: rewards_between_def)
  have s': "fold emit_checkpoint (map of_nat [Suc ?a ..< Suc (unat h)]) s =
      s\<lparr>es_total_emitted := es_total_emitted s + wsum ?r, es_last_reward_height := h\<rparr>"
    using emit_range [of s ?a "unat h"] ab unfolding r by simp
  have "unat (wsum ?r) = sum_list (map unat ?r)" using assms(2) by (intro unat_wsum) simp
  then have "unat (es_total_emitted s + wsum ?r) = unat (es_total_emitted s) + unat (wsum ?r)"
    using assms(2) by (intro unat_add_no_overflow) simp
  then have "saturating_sub (es_total_emitted s + wsum ?r) (wsum ?r) = es_total_emitted s"
    by (simp add: word_unat_eq_iff unat_saturating_sub)
  then show ?thesis unfolding s' using assms(1) by (simp add: rollback_to_height_def not_le)
qed

theorem emission_rollback_roundtrip_witness:
  "rollback_to_height 0 (fold emit_checkpoint (map of_nat [1 ..< 4]) EmissionService_new) = EmissionService_new"
proof -
  have r: "rewards_between 0 3 = [393241100, 393241100, 393241100]" by code_simp
  have "unat (3 :: u64) = 3" by simp
  then have "[Suc (unat (es_last_reward_height EmissionService_new)) ..< Suc (unat (3 :: u64))] = [1 ..< 4]"
    by (simp add: EmissionService_new_def)
  with emission_rollback_roundtrip [of EmissionService_new 3] show ?thesis
    by (simp add: EmissionService_new_def r)
qed

text \<open>
  When a height was skipped, the rollback takes back rewards that were never
  emitted: heights 1 to 5 and then 10 are rewarded, and rolling back to 5 leaves one
  reward on the counter, not five.
\<close>
theorem rollback_after_gap:
  "es_total_emitted (rollback_to_height 5 (fold emit_checkpoint [1, 2, 3, 4, 5, 10] EmissionService_new))
     = get_checkpoint_reward 1
   \<and> es_total_emitted (fold emit_checkpoint [1, 2, 3, 4, 5] EmissionService_new) = 5 * get_checkpoint_reward 1"
  by code_simp

section \<open>The supply cap\<close>

lemma sum_list_const_upt:
  assumes "\<And>h. a \<le> h \<Longrightarrow> h < b \<Longrightarrow> f h = (c :: nat)" and "(b - a) * c = n"
  shows "sum_list (map f [a ..< b]) = n"
proof -
  have "map f [a ..< b] = map (\<lambda>_. c) [a ..< b]" using assms by (intro map_cong) auto
  then show ?thesis using assms(2) by (simp add: sum_list_triv del: map_eq_conv)
qed

lemma sum_list_upt_split:
  assumes "sum_list (map f [a ..< b]) = (m :: nat)" "sum_list (map f [b ..< d]) = n" "a \<le> b" "b \<le> d"
  shows "sum_list (map f [a ..< d]) = m + n"
proof -
  have "[a ..< d] = [a ..< b] @ [b ..< d]" using assms(3,4) by (metis le_add_diff_inverse upt_add_eq_append)
  then show ?thesis using assms(1,2) by simp
qed

lemma sum_rewards_cap: "sum_list (map scheduled_reward [1 ..< 15750101]) = 2400000432426084"
proof -
  have "sum_list (map scheduled_reward [1 ..< 3150000]) = 1238709071758900"
    "sum_list (map scheduled_reward [3150000 ..< 6300000]) = 619354732500000"
    "sum_list (map scheduled_reward [6300000 ..< 9450000]) = 309677366250000"
    "sum_list (map scheduled_reward [9450000 ..< 12600000]) = 154838681550000"
    "sum_list (map scheduled_reward [12600000 ..< 15750000]) = 77419339200000"
    "sum_list (map scheduled_reward [15750000 ..< 15750101]) = 1241167184"
    by (rule sum_list_const_upt; simp add: scheduled_reward_cases)+
  note parts = this
  note s1 = sum_list_upt_split [OF parts(1,2)]
  note s2 = sum_list_upt_split [OF s1 parts(3)]
  note s3 = sum_list_upt_split [OF s2 parts(4)]
  note s4 = sum_list_upt_split [OF s3 parts(5)]
  note s5 = sum_list_upt_split [OF s4 parts(6)]
  show ?thesis by (rule trans [OF s5]) simp_all
qed

lemma unat_rewards_between:
  assumes "unat b < 2 ^ 32 * 3150000"
  shows "map unat (rewards_between a b) = map scheduled_reward [Suc (unat a) ..< Suc (unat b)]"
proof -
  have "unat (get_checkpoint_reward (of_nat h)) = scheduled_reward h" if "h \<le> unat b" for h
  proof -
    have "unat (of_nat h :: u64) = h" using that unat_u64_bound [of b] by (simp add: unat_of_nat)
    then show ?thesis using unat_checkpoint_reward [of "of_nat h"] that assms by simp
  qed
  then show ?thesis by (simp add: rewards_between_def del: upt_Suc)
qed

text \<open>
  Nothing holds the emission to the maximum supply: once the checkpoints 1 to
  15,750,100 are rewarded, the genesis allocation and the emission together exceed
  \<open>MAX_SUPPLY\<close>, although \<open>get_remaining_to_emit\<close> is then 0.
\<close>
theorem emission_exceeds_max_supply:
  "MAX_SUPPLY < GENESIS_ALLOCATION
     + es_total_emitted (fold emit_checkpoint (map of_nat [1 ..< 15750101]) EmissionService_new)
   \<and> get_remaining_to_emit (fold emit_checkpoint (map of_nat [1 ..< 15750101]) EmissionService_new) = 0"
proof -
  let ?h = "15750100 :: u64"
  let ?s = "fold emit_checkpoint (map of_nat [1 ..< 15750101]) EmissionService_new"
  have h: "Suc (unat (0 :: u64)) = 1" "Suc (unat ?h) = 15750101" by simp_all
  have "map unat (rewards_between 0 ?h) = map scheduled_reward [1 ..< 15750101]"
    using unat_rewards_between [of ?h 0] unfolding h by simp
  then have sum: "sum_list (map unat (rewards_between 0 ?h)) = 2400000432426084"
    using sum_rewards_cap by simp
  have "es_total_emitted ?s = wsum (rewards_between 0 ?h)"
    using emit_range [of EmissionService_new 0 15750100] unfolding rewards_between_def h
    by (simp add: EmissionService_new_def del: upt_Suc)
  then have e: "unat (es_total_emitted ?s) = 2400000432426084"
    using sum by (simp add: unat_wsum)
  then have "unat (GENESIS_ALLOCATION + es_total_emitted ?s) = 3000000432426084"
    by (subst unat_add_no_overflow) simp_all
  moreover have "unat (MAX_SUPPLY - GENESIS_ALLOCATION) = 2400000000000000" by (simp add: emission_consts)
  then have "unat (get_remaining_to_emit ?s) = 0"
    using e by (simp add: get_remaining_to_emit_def Let_def unat_saturating_sub)
  ultimately show ?thesis by (simp add: word_less_nat_alt unat_eq_0)
qed

section \<open>Merging the counters of replicas\<close>

definition emission_join :: "EmissionService \<Rightarrow> EmissionService \<Rightarrow> EmissionService" where
  "emission_join a b = fst (emission_merge_from (emission_to_json a) b)"

lemma emission_join_eq:
  "emission_join a b =
     \<lparr>es_total_emitted = max (es_total_emitted a) (es_total_emitted b),
      es_total_burned = max (es_total_burned a) (es_total_burned b),
      es_last_reward_height = max (es_last_reward_height a) (es_last_reward_height b)\<rparr>"
  by (simp add: emission_join_def emission_merge_from_def emission_to_json_def Let_def max.commute)

interpretation emission: replica_merge emission_join
  by unfold_locales (simp_all add: emission_join_eq ac_simps)

text \<open>
  Replicas that merge the same set of emission snapshots end with the same counters,
  in whatever order the snapshots arrive and however often, and a snapshot already merged
  changes nothing.
\<close>
theorem emission_merges_converge:
  assumes "set snaps = set snaps'"
  shows "fold (\<lambda>p s. fst (emission_merge_from (emission_to_json p) s)) snaps s
       = fold (\<lambda>p s. fst (emission_merge_from (emission_to_json p) s)) snaps' s
    \<and> (\<forall>p \<in> set snaps. let t = fold (\<lambda>p s. fst (emission_merge_from (emission_to_json p) s)) snaps s
         in emission_merge_from (emission_to_json p) t = (t, 0, 0))"
proof -
  have f: "(\<lambda>p s. fst (emission_merge_from (emission_to_json p) s)) = emission_join"
    by (intro ext) (simp add: emission_join_def)
  have "emission_merge_from (emission_to_json p) t = (t, 0, 0)" if "emission_join p t = t" for p t
  proof -
    have "emission_merge_from (emission_to_json p) t = (emission_join p t,
        es_total_emitted (emission_join p t) - es_total_emitted t,
        es_total_burned (emission_join p t) - es_total_burned t)"
      by (simp add: emission_merge_from_def emission_join_def Let_def)
    then show ?thesis by (simp add: that)
  qed
  then show ?thesis
    unfolding f Let_def using emission.merges_converge [OF assms] emission.merge_absorbs by blast
qed

theorem emission_merges_converge_witness:
  "fold (\<lambda>p s. fst (emission_merge_from (emission_to_json p) s))
      [with_initial 5 1, with_initial 3 2] EmissionService_new
    = fold (\<lambda>p s. fst (emission_merge_from (emission_to_json p) s))
      [with_initial 3 2, with_initial 5 1, with_initial 3 2] EmissionService_new"
  using emission_merges_converge [of "[with_initial 5 1, with_initial 3 2]"
    "[with_initial 3 2, with_initial 5 1, with_initial 3 2]" EmissionService_new] by auto

section \<open>The fee split\<close>

lemma representable_1 [simp]: "representable 1"
  using representable_of_nat [of 1] by simp

lemma unit_rnd: "0 \<le> x \<Longrightarrow> x \<le> 1 \<Longrightarrow> \<exists>r. rnd x = Fin r \<and> 0 \<le> r \<and> r \<le> 1"
  using rnd_literal_bounds [of x 1] by auto

lemma f64_le_Fin [simp]: "f64_le (Fin a) (Fin b) = (a \<le> b)"
  by (auto simp: f64_le_def)

lemma rndq_half: "rndq (1 / 2) = 1 / 2"
  using representable_pow2 [of "- 1"] by (intro rndq_exact) (simp_all add: power_int_def)

lemma progressive_burn_unit: "\<exists>b. progressive_burn s = Fin b \<and> 0 \<le> b \<and> b \<le> 1"
proof -
  let ?c = "urat (get_circulating_supply s)"
  have half: "SUPPLY_TARGET_FOR_FULL_BURN = Fin (1 / 2)"
    using rnd_nonneg [of "1 / 2"] by (simp add: SUPPLY_TARGET_FOR_FULL_BURN_def rndq_half)
  obtain q where q: "BURN_CEILING_PERCENT = Fin q" "0 \<le> q" "q \<le> 1"
    unfolding BURN_CEILING_PERCENT_def using unit_rnd [of "30 / 100"] by auto
  have m: "f64_of_u64 MAX_SUPPLY = Fin (urat MAX_SUPPLY)" "1 \<le> urat MAX_SUPPLY"
    by (simp_all add: f64_of_u64_exact urat_unat)
  let ?r = "rndq ?c / urat MAX_SUPPLY"
  have "rndq ?c \<le> pow2 64" using urat_le_pow2 by (intro rndq_le representable_pow2) auto
  then have "?r \<le> pow2 64 / 1" using m(2) by (intro frac_le) auto
  then have r: "0 \<le> ?r" "?r \<le> 2 ^ 1000"
    using pow2_64_small m(2) by (simp_all only: div_by_1 order_trans) (simp_all add: rndq_nonneg)
  then have ratio: "f64_div (f64_of_u64 (get_circulating_supply s)) (f64_of_u64 MAX_SUPPLY) = Fin (rndq ?r)"
    using m by (simp add: f64_of_u64_Fin [of "get_circulating_supply s"] rnd_nonneg)
  show ?thesis
  proof (cases "1 / 2 \<le> rndq ?r")
    case True
    then have "progressive_burn s = Fin q" by (simp add: progressive_burn_def ratio half q(1) Let_def)
    then show ?thesis using q by blast
  next
    case False
    obtain p where p: "rnd (rndq ?r / (1 / 2)) = Fin p" "0 \<le> p" "p \<le> 1"
      using unit_rnd [of "rndq ?r / (1 / 2)"] False rndq_nonneg [OF r(1)] by auto
    have "0 \<le> p * q" "p * q \<le> 1" using p q by (auto intro: mult_le_one)
    with p unit_rnd [of "p * q"] show ?thesis
      using False by (simp add: progressive_burn_def ratio half q(1) Let_def)
  qed
qed

lemma fee_split_unit:
  "\<exists>c f. fs_validator_share (get_adaptive_fee_split s) = Fin c \<and> VALIDATOR_FEE_FLOOR_PERCENT = Fin f
     \<and> 0 \<le> f \<and> f \<le> c \<and> c \<le> 1"
proof -
  obtain b where b: "progressive_burn s = Fin b" "0 \<le> b" "b \<le> 1" using progressive_burn_unit by blast
  obtain d where d: "rnd (1 - b) = Fin d" "0 \<le> d" "d \<le> 1" using unit_rnd [of "1 - b"] b by auto
  obtain f where f: "VALIDATOR_FEE_FLOOR_PERCENT = Fin f" "0 \<le> f" "f \<le> 1"
    unfolding VALIDATOR_FEE_FLOOR_PERCENT_def using unit_rnd [of "70 / 100"] by auto
  have "fs_validator_share (get_adaptive_fee_split s) = Fin (max d f)"
    using b d unfolding get_adaptive_fee_split_def Let_def f64_sub_def f64_max_def max_def f(1) by simp
  then show ?thesis using d f by auto
qed

lemma f64_share_mono:
  assumes "0 \<le> c" "c \<le> d" "d \<le> 1" and "unat x \<le> 2 ^ 53"
  shows "unat (f64_share x (Fin c)) \<le> unat (f64_share x (Fin d))"
proof -
  let ?a = "\<lambda>c. rndq (rndq (urat x) * c)"
  have nn: "0 \<le> ?a c" "?a c \<le> ?a d"
    using assms by (auto intro!: rndq_nonneg rndq_mono mult_left_mono mult_nonneg_nonneg)
  have "rndq (urat x) = urat x" using assms(4) by (simp add: rndq_exact representable_urat)
  then have "?a d \<le> of_nat (2 ^ 53)"
    using assms urat_le_iff [of x "2 ^ 53"]
    by (intro rndq_le representable_of_nat) (auto intro: mult_le_one order_trans [OF mult_left_le])
  then have d: "of_int \<lfloor>?a d + 1 / 2\<rfloor> \<le> (of_nat (2 ^ 53) :: rat)" by (rule floor_half_le)
  have u: "unat (to_u64 (Fin (of_int k))) = nat k" if "0 \<le> k" "k \<le> 2 ^ 53" for k
  proof -
    have "(of_int k :: rat) \<le> of_int (2 ^ 53)" using that by (simp only: of_int_le_iff)
    also have "\<dots> < 2 ^ 64" by simp
    finally show ?thesis using that by (simp add: unsigned_of_int take_bit_int_eq_self)
  qed
  have k: "0 \<le> \<lfloor>?a c + 1 / 2\<rfloor>" "\<lfloor>?a c + 1 / 2\<rfloor> \<le> \<lfloor>?a d + 1 / 2\<rfloor>" "\<lfloor>?a d + 1 / 2\<rfloor> \<le> 2 ^ 53"
    using nn d by (auto intro!: floor_mono)
  have s: "f64_share x (Fin e) = to_u64 (Fin (of_int \<lfloor>?a e + 1 / 2\<rfloor>))" if "0 \<le> e" "e \<le> 1" for e
  proof -
    have "0 \<le> ?a e" using that by (intro rndq_nonneg mult_nonneg_nonneg) simp_all
    then show ?thesis using that by (simp add: f64_share_def f64_mul_nonneg del: to_u64.simps)
  qed
  have "0 \<le> \<lfloor>?a d + 1 / 2\<rfloor>" "\<lfloor>?a c + 1 / 2\<rfloor> \<le> 2 ^ 53" using k by linarith+
  then have "unat (f64_share x (Fin d)) = nat \<lfloor>?a d + 1 / 2\<rfloor>" "unat (f64_share x (Fin c)) = nat \<lfloor>?a c + 1 / 2\<rfloor>"
    using assms k by (simp_all only: s u)
  then show ?thesis using k(2) by (simp only: nat_mono)
qed

text \<open>
  A fee is split without loss: the part of the validators and the burned part add up to
  the fee, and the validators never get less than their floor share of it (for fees that a
  double represents exactly, up to \<open>2 ^ 53\<close> micro-units).
\<close>
theorem fee_split_conserves:
  assumes "unat fee \<le> 2 ^ 53"
  shows "unat (fst (calculate_fee_split s fee)) + unat (snd (calculate_fee_split s fee)) = unat fee
    \<and> f64_share fee VALIDATOR_FEE_FLOOR_PERCENT \<le> fst (calculate_fee_split s fee)"
proof -
  obtain c f where c: "fs_validator_share (get_adaptive_fee_split s) = Fin c"
    "VALIDATOR_FEE_FLOOR_PERCENT = Fin f" "0 \<le> f" "f \<le> c" "c \<le> 1" using fee_split_unit by blast
  then show ?thesis
    using f64_share_exact_le(1) [OF _ c(5) assms] f64_share_mono [OF c(3,4,5) assms]
    by (simp add: calculate_fee_split_def Let_def unat_saturating_sub word_le_nat_alt)
qed

theorem fee_split_conserves_witness:
  "unat (fst (calculate_fee_split EmissionService_new 1000000))
     + unat (snd (calculate_fee_split EmissionService_new 1000000)) = 1000000"
  using fee_split_conserves [of 1000000 EmissionService_new] by simp

section \<open>The stake part of a reward\<close>

lemma stake_part_le:
  assumes "unat stake \<le> unat total_stake"
  shows "unat (stake_part pool total_stake stake) = unat pool * unat stake div unat total_stake"
proof (cases "total_stake = 0")
  case False
  then have pos: "0 < unat total_stake" by (simp add: unat_gt_0)
  have "unat pool * unat stake div unat total_stake \<le> unat pool * unat total_stake div unat total_stake"
    using assms by (intro div_le_mono mult_le_mono2)
  then have "unat pool * unat stake div unat total_stake < 2 ^ 64"
    using pos unat_u64_bound [of pool] by simp
  then show ?thesis using False by (simp add: stake_part_def unat_of_nat word_neq_0_conv)
qed (use assms in \<open>simp add: stake_part_def\<close>)

lemma sum_div_le: "sum_list (map (\<lambda>x. p * x div d) xs) \<le> p * sum_list xs div (d :: nat)"
proof (induction xs)
  case (Cons x xs)
  have "p * x div d + p * sum_list xs div d \<le> (p * x + p * sum_list xs) div d"
    unfolding div_add1_eq [of "p * x"] by simp
  with Cons show ?case by (simp add: distrib_left)
qed simp

text \<open>
  The stake parts of a reward never exceed the pool they are taken from, whatever
  the stakes, provided the sum of the stakes fits its counter.
\<close>
theorem stake_parts_within_pool:
  assumes "sum_list (map unat stakes) < 2 ^ 64"
  shows "sum_list (map (unat \<circ> stake_part pool (wsum stakes)) stakes) \<le> unat pool"
proof -
  let ?t = "sum_list (map unat stakes)"
  have t: "unat (wsum stakes) = ?t" using assms by (simp add: unat_wsum)
  have "unat (stake_part pool (wsum stakes) x) = unat pool * unat x div ?t" if "x \<in> set stakes" for x
    using stake_part_le [of x "wsum stakes" pool] member_le_sum_list [of "unat x" "map unat stakes"] that
    by (simp add: t)
  then have "map (unat \<circ> stake_part pool (wsum stakes)) stakes = map (\<lambda>y. unat pool * y div ?t) (map unat stakes)"
    by simp
  then have "sum_list (map (unat \<circ> stake_part pool (wsum stakes)) stakes) \<le> unat pool * ?t div ?t"
    by (simp only: sum_div_le)
  also have "\<dots> \<le> unat pool" by (cases "?t = 0") simp_all
  finally show ?thesis .
qed

theorem stake_parts_within_pool_witness:
  "sum_list (map (unat \<circ> stake_part 100 (wsum [3, 3, 3])) [3, 3, 3]) \<le> 100"
  using stake_parts_within_pool [of "[3, 3, 3]" 100] by simp

lemma representable_fraction: "m \<le> 2 ^ 53 \<Longrightarrow> k \<le> 1074 \<Longrightarrow> representable (of_nat m / 2 ^ k)"
  unfolding representable_def
  by (intro exI [of _ "int m"] exI [of _ "- int k"])
    (auto simp: power_int_minus divide_inverse intro: of_nat_mono [of m "2 ^ 53", where 'a = int, simplified])

lemma rnd_exact: "0 \<le> x \<Longrightarrow> x \<le> 2 ^ 1000 \<Longrightarrow> representable x \<Longrightarrow> rnd x = Fin x"
  by (simp add: rnd_nonneg rndq_exact)

lemma representable_small:
  "representable 2" "representable 3" "representable (1 / 2)" "representable (5 / 8)" "representable (3 / 4)"
  "representable (15 / 8)" "representable (9 / 4)"
  using representable_fraction [of 2 0] representable_fraction [of 3 0] representable_fraction [of 1 1]
    representable_fraction [of 5 3] representable_fraction [of 3 2] representable_fraction [of 15 3]
    representable_fraction [of 9 2] by simp_all

lemma rnd_small: "rnd 1 = Fin 1" "rnd 2 = Fin 2" "rnd 3 = Fin 3" "rnd (1 / 2) = Fin (1 / 2)"
  by (rule rnd_exact; simp add: representable_small)+

lemma rndq_ge: "0 < f \<Longrightarrow> f \<le> x \<Longrightarrow> representable f \<Longrightarrow> f \<le> rndq x"
  by (auto simp: rndq_def rnd_pos_ge)

lemma stake_pool_of_3: "f64_share 3 STAKE_WEIGHT_PERCENT = 2"
proof -
  let ?c = "rndq (7 / 10)"
  have c: "5 / 8 \<le> ?c" "?c \<le> 3 / 4"
    by (rule rndq_ge rndq_le; simp add: representable_small)+
  let ?y = "rndq (3 * ?c)"
  have y: "15 / 8 \<le> ?y" "?y \<le> 9 / 4"
    using c by (intro rndq_ge rndq_le; simp add: representable_small)+
  have "STAKE_WEIGHT_PERCENT = Fin ?c" by (simp add: STAKE_WEIGHT_PERCENT_def rnd_nonneg)
  moreover have "f64_of_u64 3 = Fin 3" by (simp add: f64_of_u64_def urat_def rnd_small)
  moreover have "rnd (3 * ?c) = Fin ?y" using c by (intro rnd_nonneg) simp_all
  ultimately have "f64_mul (f64_of_u64 3) STAKE_WEIGHT_PERCENT = Fin ?y" by (metis f64_mul.simps(1))
  moreover have "\<lfloor>?y + 1 / 2\<rfloor> = 2" using y by (intro floor_unique) simp_all
  ultimately show ?thesis using y by (simp add: f64_share_def)
qed

text \<open>
  The age parts have no such bound, because each is rounded to nearest on its own: a
  reward of 3 micro-units shared by two equal validators pays out 4. (\<open>powi\<close> is
  only used here at exponent 0, where it is 1.)
\<close>
theorem distribute_overpays:
  assumes "\<And>x. fe_powi fe x 0 = Fin 1"
  shows "distribute_checkpoint_reward fe 3
      [\<lparr>vw_address = ''a'', vw_stake_amount = MIN_BOND_MICRO, vw_age_weight = Fin 1, vw_missed_checkpoints = 0\<rparr>,
       \<lparr>vw_address = ''b'', vw_stake_amount = MIN_BOND_MICRO, vw_age_weight = Fin 1, vw_missed_checkpoints = 0\<rparr>]
    = [(''a'', 2), (''b'', 2)]"
proof -
  have "calculate_effective_age_weight fe (Fin 1) MIN_BOND_MICRO 0 = Fin 1"
    using assms by (simp add: calculate_effective_age_weight_def rnd_small)
  moreover have "f64_sum [Fin 1, Fin 1] = Fin 2" by (simp add: f64_sum_def rnd_small)
  moreover have "age_part 1 (Fin 2) (Fin 1) = 1"
    by (simp add: age_part_def f64_of_u64_def urat_def rnd_small)
  moreover have "wsum [MIN_BOND_MICRO, MIN_BOND_MICRO] = 20000000000" "saturating_sub (3 :: u64) 2 = 1"
    "stake_part 2 20000000000 MIN_BOND_MICRO = 1"
    by (simp_all add: MIN_BOND_MICRO_def saturating_sub_def stake_part_def)
  ultimately show ?thesis by (simp add: distribute_checkpoint_reward_def Let_def stake_pool_of_3)
qed

theorem distribute_overpays_witness:
  "map snd (distribute_checkpoint_reward \<lparr>fe_ln_1p = \<lambda>x. x, fe_powf = \<lambda>x y. x, fe_powi = \<lambda>x n. if n = 0 then Fin 1 else x\<rparr> 3
      [\<lparr>vw_address = ''a'', vw_stake_amount = MIN_BOND_MICRO, vw_age_weight = Fin 1, vw_missed_checkpoints = 0\<rparr>,
       \<lparr>vw_address = ''b'', vw_stake_amount = MIN_BOND_MICRO, vw_age_weight = Fin 1, vw_missed_checkpoints = 0\<rparr>])
    = [2, 2]"
  by (simp add: distribute_overpays)

section \<open>The gas price\<close>

inductive gas_step :: "GasService \<Rightarrow> GasService \<Rightarrow> bool" where
  tx: "record_transaction timestamp g = Some g' \<Longrightarrow> gas_step g g'"
| price: "gas_step g (update_price g)"

definition gas_init :: "GasService \<Rightarrow> bool" where
  "gas_init g \<longleftrightarrow> (\<exists>config. gc_min_gas_price config \<le> gc_max_gas_price config \<and> g = GasService_new config)"

definition gas_inv :: "GasService \<Rightarrow> bool" where
  "gas_inv g \<longleftrightarrow> gc_min_gas_price (gs_config g) \<le> gc_max_gas_price (gs_config g)
     \<and> gc_min_gas_price (gs_config g) \<le> gs_current_price g \<and> gs_current_price g \<le> gc_max_gas_price (gs_config g)
     \<and> length (gs_tx_counts g) \<le> 10
     \<and> (\<forall>i. Suc i < length (gs_tx_counts g) \<longrightarrow> fst (gs_tx_counts g ! i) \<noteq> fst (gs_tx_counts g ! Suc i))"

lemma record_transaction_cases:
  assumes "record_transaction timestamp g = Some g'"
  obtains (bump) last_period n older where "gs_tx_counts g = older @ [(last_period, n)]"
      "g' = g\<lparr>gs_tx_counts := older @ [(last_period, n + 1)]\<rparr>"
    | (push) period q where "q = gs_tx_counts g @ [(period, 1)]" "g' = g\<lparr>gs_tx_counts := drop (length q - 10) q\<rparr>"
      "gs_tx_counts g \<noteq> [] \<Longrightarrow> fst (last (gs_tx_counts g)) \<noteq> period"
proof (cases "rev (gs_tx_counts g)")
  case Nil
  then show ?thesis using assms by (intro push) (auto simp: record_transaction_def Let_def split: if_splits)
next
  case (Cons e older)
  then have q: "gs_tx_counts g = rev older @ [e]" by (metis rev_rev_ident rev.simps(2))
  show ?thesis
  proof (cases "fst e = timestamp div (gc_period_duration_ms (gs_config g) div 1000)")
    case True
    then show ?thesis using assms Cons q
      by (intro bump [of "rev older" "fst e" "snd e"]) (cases e, auto simp: record_transaction_def Let_def split: if_splits)+
  next
    case False
    then show ?thesis using assms Cons q
      by (intro push [OF refl]) (cases e, auto simp: record_transaction_def Let_def split: if_splits)+
  qed
qed

lemma gas_inv_record:
  assumes "gas_inv g" "record_transaction timestamp g = Some g'"
  shows "gas_inv g'"
  using assms(2)
proof (cases rule: record_transaction_cases)
  case (bump last_period n older)
  have "fst ((older @ [(last_period, n + 1)]) ! i) = fst ((older @ [(last_period, n)]) ! i)" for i
    by (cases "i - length older") (auto simp: nth_append)
  with bump assms(1) show ?thesis by (simp add: gas_inv_def)
next
  case (push period q)
  let ?d = "length q - 10"
  have "fst (q ! i) \<noteq> fst (q ! Suc i)" if "Suc i < length q" for i
  proof (cases "Suc i < length (gs_tx_counts g)")
    case True
    then show ?thesis using assms(1) push(1) by (simp add: gas_inv_def nth_append)
  next
    case False
    with that push(1) have i: "Suc i = length (gs_tx_counts g)" by simp
    then have "gs_tx_counts g \<noteq> []" by auto
    moreover have "i = length (gs_tx_counts g) - 1" using i by simp
    ultimately have "q ! Suc i = (period, 1)" "q ! i = last (gs_tx_counts g)" "gs_tx_counts g \<noteq> []"
      using push(1) i by (simp_all add: nth_append last_conv_nth)
    then show ?thesis using push(3) by simp
  qed
  then have "fst (drop ?d q ! i) \<noteq> fst (drop ?d q ! Suc i)" if "Suc i < length (drop ?d q)" for i
    using that by simp
  then show ?thesis using assms(1) push(2) by (auto simp: gas_inv_def)
qed

lemma gas_inv_update: "gas_inv g \<Longrightarrow> gas_inv (update_price g)"
  by (simp add: gas_inv_def update_price_def Let_def)

interpretation gas: invariant_system gas_init gas_step gas_inv
proof unfold_locales
  show "gas_init s \<Longrightarrow> gas_inv s" for s by (auto simp: gas_init_def gas_inv_def GasService_new_def)
  show "gas_inv s \<Longrightarrow> gas_step s t \<Longrightarrow> gas_inv t" for s t
    by (auto elim!: gas_step.cases intro: gas_inv_record gas_inv_update)
qed

text \<open>
  In every run of the gas service (transactions recorded and prices updated in any
  order) the price stays between the configured minimum and maximum, and the window
  keeps at most ten periods, no two neighbours for the same period.
\<close>
theorem gas_price_bounded:
  assumes "gc_min_gas_price config \<le> gc_max_gas_price config" "gas_step\<^sup>*\<^sup>* (GasService_new config) g"
  shows "gc_min_gas_price (gs_config g) \<le> gs_current_price g \<and> gs_current_price g \<le> gc_max_gas_price (gs_config g)
    \<and> length (gs_tx_counts g) \<le> 10 \<and> successively (\<lambda>a b. fst a \<noteq> fst b) (gs_tx_counts g)"
proof -
  have "gas_inv g" using gas.run_inv [OF _ assms(2)] assms(1) by (auto simp: gas_init_def)
  then show ?thesis by (simp add: gas_inv_def successively_conv_nth)
qed

theorem gas_price_bounded_witness:
  "\<exists>g. record_transaction 1000 (GasService_new GasConfig_default) = Some g
     \<and> gs_current_price g \<le> gc_max_gas_price (gs_config g)"
proof -
  have c: "gc_min_gas_price GasConfig_default \<le> gc_max_gas_price GasConfig_default" by code_simp
  have "record_transaction 1000 (GasService_new GasConfig_default) \<noteq> None"
    by (simp add: record_transaction_def GasService_new_def GasConfig_default_def Let_def)
  then obtain g where g: "record_transaction 1000 (GasService_new GasConfig_default) = Some g" by blast
  then have "gas_step\<^sup>*\<^sup>* (GasService_new GasConfig_default) g" by (intro r_into_rtranclp gas_step.tx)
  with gas_price_bounded [OF c] g show ?thesis by blast
qed

end
