(* ===== verification/Rinku_Text.thy ===== *)
theory Rinku_Text
  imports Rinku_Collections
begin

text \<open>
  Parsing and slicing of strings as the standard library does it: \<open>str::parse::<u64>\<close>,
  \<open>str::strip_prefix\<close> and the slice \<open>&s[..n]\<close>, which panics when \<open>n\<close> is
  inside a multi-byte character. Strings are their UTF-8 bytes.
\<close>

definition strip_prefix :: "string \<Rightarrow> string \<Rightarrow> string option" where
  "strip_prefix p s = (if take (length p) s = p then Some (drop (length p) s) else None)"

definition digit_value :: "char \<Rightarrow> nat option" where
  "digit_value c = (let n = of_char c in if 48 \<le> n \<and> n \<le> 57 then Some (n - 48) else None)"

fun parse_digits :: "nat \<Rightarrow> string \<Rightarrow> nat option" where
  "parse_digits acc [] = Some acc"
| "parse_digits acc (c # s) =
     (case digit_value c of None \<Rightarrow> None | Some d \<Rightarrow> parse_digits (10 * acc + d) s)"

definition parse_u64 :: "string \<Rightarrow> u64 option" where
  "parse_u64 s =
     (let t = (case s of c # r \<Rightarrow> if c = CHR ''+'' then r else s | [] \<Rightarrow> [])
      in if t = [] then None
         else case parse_digits 0 t of
                Some n \<Rightarrow> if n < 2 ^ 64 then Some (of_nat n) else None
              | None \<Rightarrow> None)"

text \<open>A byte \<open>0x80 .. 0xBF\<close> continues a character.\<close>

definition is_char_boundary :: "string \<Rightarrow> nat \<Rightarrow> bool" where
  "is_char_boundary s n \<longleftrightarrow>
     n = 0 \<or> n = length s \<or> n < length s \<and> \<not> (128 \<le> (of_char (s ! n) :: nat) \<and> (of_char (s ! n) :: nat) < 192)"

definition str_take :: "nat \<Rightarrow> string \<Rightarrow> string option" where
  "str_take n s = (if is_char_boundary s n then Some (take n s) else None)"

text \<open>\<open>[String]::join\<close>.\<close>

fun join_with :: "string \<Rightarrow> string list \<Rightarrow> string" where
  "join_with sep [] = []"
| "join_with sep [x] = x"
| "join_with sep (x # xs) = x @ sep @ join_with sep xs"

lemma strip_prefix_append [simp]: "strip_prefix p (p @ s) = Some s"
  by (simp add: strip_prefix_def)

lemma strip_prefix_SomeD: "strip_prefix p s = Some t \<Longrightarrow> s = p @ t"
  by (auto simp: strip_prefix_def split: if_splits) (metis append_take_drop_id)

lemma digit_value_digit [simp]: "d < 10 \<Longrightarrow> digit_value (digit d) = Some d"
  by (simp add: digit_value_def digit_def Let_def)

lemma parse_digits_append:
  "parse_digits a (s @ t) = Option.bind (parse_digits a s) (\<lambda>n. parse_digits n t)"
  by (induction a s rule: parse_digits.induct) (auto split: option.splits)

lemma parse_digits_dec: "parse_digits 0 (dec n) = Some n"
proof (induction n rule: dec.induct)
  case (1 n)
  show ?case
  proof (cases "n < 10")
    case True
    then show ?thesis by (simp add: dec.simps [of n])
  next
    case False
    with 1 have "parse_digits 0 (dec (n div 10)) = Some (n div 10)" by blast
    then show ?thesis using False by (simp add: dec.simps [of n] parse_digits_append)
  qed
qed

lemma dec_head: "\<exists>d r. d < 10 \<and> dec n = digit d # r"
proof (induction n rule: dec.induct)
  case (1 n)
  then show ?case by (cases "n < 10") (auto simp: dec.simps [of n])
qed

text \<open>Parsing the decimal rendering of a number gives the number back.\<close>

lemma parse_u64_show [simp]: "parse_u64 (show_u (w :: u64)) = Some w"
proof -
  obtain d r where d: "d < 10" "dec (unat w) = digit d # r" using dec_head by blast
  have "digit d \<noteq> CHR ''+''"
  proof
    assume "digit d = CHR ''+''"
    then have "(of_char (digit d) :: nat) = of_char (CHR ''+'')" by simp
    with d(1) show False by (simp add: digit_def)
  qed
  moreover have "parse_digits 0 (digit d # r) = Some (unat w)" using parse_digits_dec [of "unat w"] d(2) by simp
  ultimately show ?thesis
    unfolding parse_u64_def show_u_def d(2) Let_def using unat_u64_bound [of w]
    by (simp del: parse_digits.simps)
qed

end
