(* ===== verification/Rinku_Slashing.thy ===== *)
theory Rinku_Slashing
  imports Rinku_Types Rinku_Text Rinku_Machine
begin

text \<open>
  \<open>rinku-node/src/slashing.rs\<close> and the signer bitmaps of \<open>bls.rs\<close>: slashing for
  double signing, invalid checkpoints and missed checkpoints, the unbonding queue, and the
  snapshots nodes exchange. The wall clock is an argument: \<open>now\<close> is the value
  \<open>current_time_ms\<close> returns at the point of the code where it is read, one argument
  per reading.
\<close>

unbundle bit_operations_syntax

section \<open>Signer bitmaps\<close>

text \<open>\<open>i / 8\<close> is the byte and \<open>i % 8\<close> the bit of validator \<open>i\<close>.\<close>

definition create_signer_bitmap :: "nat list \<Rightarrow> nat \<Rightarrow> byte list" where
  "create_signer_bitmap signer_indices total_validators =
     fold (\<lambda>index bitmap.
         if index < total_validators
         then bitmap[index div 8 := (bitmap ! (index div 8)) OR push_bit (index mod 8) 1]
         else bitmap)
       signer_indices (replicate ((total_validators + 7) div 8) 0)"

definition bitmap_bit :: "byte list \<Rightarrow> nat \<Rightarrow> bool" where
  "bitmap_bit bitmap i \<longleftrightarrow>
     i div 8 < length bitmap \<and> (bitmap ! (i div 8)) AND push_bit (i mod 8) 1 \<noteq> 0"

definition parse_signer_bitmap :: "byte list \<Rightarrow> nat \<Rightarrow> nat list" where
  "parse_signer_bitmap bitmap total_validators = filter (bitmap_bit bitmap) [0 ..< total_validators]"

section \<open>Data\<close>

definition UNBONDING_PERIOD_MS :: u64 where "UNBONDING_PERIOD_MS = 14 * 24 * 60 * 60 * 1000"
definition DOUBLE_SIGN_EVIDENCE_EXPIRY_MS :: u64 where "DOUBLE_SIGN_EVIDENCE_EXPIRY_MS = 24 * 60 * 60 * 1000"
definition LIVENESS_MISS_THRESHOLD :: u32 where "LIVENESS_MISS_THRESHOLD = 3"
definition LIVENESS_REPEAT_WINDOW_MS :: u64 where "LIVENESS_REPEAT_WINDOW_MS = 30 * 24 * 60 * 60 * 1000"

datatype SlashReason =
  DoubleSign | InvalidCheckpoint | InvalidProof | InvalidWitness | ReceiptTampering
| LivenessFailure | LivenessRepeat

fun SlashReason_percent :: "SlashReason \<Rightarrow> f64" where
  "SlashReason_percent DoubleSign = rnd (15 / 100)"
| "SlashReason_percent InvalidCheckpoint = rnd (25 / 100)"
| "SlashReason_percent InvalidProof = rnd (20 / 100)"
| "SlashReason_percent InvalidWitness = rnd (15 / 100)"
| "SlashReason_percent ReceiptTampering = rnd (25 / 100)"
| "SlashReason_percent LivenessFailure = rnd (5 / 100)"
| "SlashReason_percent LivenessRepeat = rnd (10 / 100)"

record SlashEvent =
  se_id :: string
  se_validator :: string
  se_reason :: SlashReason
  se_amount :: u64
  se_percent_slashed :: f64
  se_checkpoint_height :: u64
  se_timestamp :: u64
  se_details :: "string option"

record UnbondingEntry =
  ub_validator :: string
  ub_amount :: u64
  ub_started_at :: u64
  ub_available_at :: u64
  ub_slashable :: bool

record LivenessRecord =
  lr_count :: u32
  lr_last_failure :: u64

record DoubleSignEvidence =
  ds_validator :: string
  ds_checkpoint_height :: u64
  ds_hash1 :: string
  ds_hash2 :: string
  ds_signature1 :: string
  ds_signature2 :: "string option"
  ds_timestamp :: u64
  ds_processed :: bool

record SlashingService =
  sl_slash_events :: "SlashEvent list"
  sl_unbonding_queue :: "UnbondingEntry list"
  sl_liveness_failures :: "(string, LivenessRecord) hash_map"
  sl_double_sign_evidence :: "DoubleSignEvidence list"
  sl_total_slashed :: u64
  sl_next_slash_id :: u64

record LivenessInfo =
  li_count :: u32
  li_last_failure :: u64

record SlashingSnapshot =
  ss_slash_events :: "SlashEvent list"
  ss_unbonding_queue :: "UnbondingEntry list"
  ss_total_slashed :: u64
  ss_liveness_failures :: "(string \<times> LivenessInfo) list"

record SlashingMergeResult =
  sm_events_added :: nat
  sm_unbonding_added :: nat
  sm_liveness_updated :: nat
  sm_total_slashed_delta :: u64

definition SlashingService_new :: SlashingService where
  "SlashingService_new =
     \<lparr>sl_slash_events = [], sl_unbonding_queue = [], sl_liveness_failures = [],
      sl_double_sign_evidence = [], sl_total_slashed = 0, sl_next_slash_id = 1\<rparr>"

section \<open>Slashing\<close>

definition slash_id :: "u64 \<Rightarrow> string" where
  "slash_id n = ''slash_'' @ show_u n"

definition slash ::
  "u64 \<Rightarrow> string \<Rightarrow> u64 \<Rightarrow> SlashReason \<Rightarrow> u64 \<Rightarrow> string option \<Rightarrow> SlashingService
   \<Rightarrow> SlashingService \<times> SlashEvent option" where
  "slash now validator stake_amount reason checkpoint_height details s =
     (if stake_amount = 0 then (s, None)
      else let percent = SlashReason_percent reason;
               amount = f64_share stake_amount percent;
               event = \<lparr>se_id = slash_id (sl_next_slash_id s), se_validator = validator,
                 se_reason = reason, se_amount = amount, se_percent_slashed = f64_mul percent (Fin 100),
                 se_checkpoint_height = checkpoint_height, se_timestamp = now, se_details = details\<rparr>;
               events = sl_slash_events s @ [event];
               events = (if length events > 1000 then drop (length events - 500) events else events)
           in (s\<lparr>sl_next_slash_id := sl_next_slash_id s + 1,
                 sl_total_slashed := sl_total_slashed s + amount, sl_slash_events := events\<rparr>,
               Some event))"

definition slash_invalid_checkpoint ::
  "u64 \<Rightarrow> string \<Rightarrow> u64 \<Rightarrow> u64 \<Rightarrow> string option \<Rightarrow> SlashingService \<Rightarrow> SlashingService \<times> SlashEvent option" where
  "slash_invalid_checkpoint now validator stake_amount checkpoint_height details s =
     slash now validator stake_amount InvalidCheckpoint checkpoint_height details s"

definition attribute_invalid_checkpoint_offender :: "Checkpoint \<Rightarrow> string list \<Rightarrow> string option" where
  "attribute_invalid_checkpoint_offender checkpoint sorted_validator_addresses =
     (let by_bitmap =
        (case cp_signer_bitmap checkpoint of
           Some bm \<Rightarrow>
             if bm \<noteq> [] \<and> sorted_validator_addresses \<noteq> []
             then (case parse_signer_bitmap bm (length sorted_validator_addresses) of
                     idx # _ \<Rightarrow> get_at sorted_validator_addresses idx
                   | [] \<Rightarrow> None)
             else None
         | None \<Rightarrow> None)
      in case cp_validator_signatures checkpoint of
           first # _ \<Rightarrow> if vs_validator first \<noteq> [] then Some (vs_validator first) else by_bitmap
         | [] \<Rightarrow> by_bitmap)"

text \<open>\<open>now'\<close> is the second reading of the clock, made by \<open>slash\<close>.\<close>

definition record_liveness_failure ::
  "u64 \<Rightarrow> u64 \<Rightarrow> string \<Rightarrow> u64 \<Rightarrow> u64 \<Rightarrow> SlashingService \<Rightarrow> SlashingService \<times> SlashEvent option" where
  "record_liveness_failure now now' validator checkpoint_height stake_amount s =
     (let r0 = unwrap_or (hm_get (sl_liveness_failures s) validator) \<lparr>lr_count = 0, lr_last_failure = now\<rparr>;
          within_repeat_window = now - lr_last_failure r0 < LIVENESS_REPEAT_WINDOW_MS;
          r = \<lparr>lr_count = lr_count r0 + 1, lr_last_failure = now\<rparr>;
          s = s\<lparr>sl_liveness_failures := hm_insert validator r (sl_liveness_failures s)\<rparr>
      in if lr_count r \<ge> LIVENESS_MISS_THRESHOLD
         then let is_repeat = within_repeat_window \<and> lr_count r > LIVENESS_MISS_THRESHOLD;
                  reason = (if is_repeat then LivenessRepeat else LivenessFailure)
              in slash now' validator stake_amount reason checkpoint_height
                   (Some (''Missed '' @ show_u LIVENESS_MISS_THRESHOLD @ '' consecutive checkpoints'')) s
         else (s, None))"

definition reset_liveness_counter :: "string \<Rightarrow> SlashingService \<Rightarrow> SlashingService" where
  "reset_liveness_counter validator s =
     s\<lparr>sl_liveness_failures := hm_remove validator (sl_liveness_failures s)\<rparr>"

section \<open>Double signing\<close>

definition same_evidence :: "string \<Rightarrow> u64 \<Rightarrow> string \<Rightarrow> string \<Rightarrow> DoubleSignEvidence \<Rightarrow> bool" where
  "same_evidence validator checkpoint_height hash1 hash2 e \<longleftrightarrow>
     ds_validator e = validator \<and> ds_checkpoint_height e = checkpoint_height
     \<and> (ds_hash1 e = hash1 \<and> ds_hash2 e = hash2 \<or> ds_hash1 e = hash2 \<and> ds_hash2 e = hash1)"

definition submit_double_sign_evidence ::
  "u64 \<Rightarrow> string \<Rightarrow> u64 \<Rightarrow> string \<Rightarrow> string \<Rightarrow> string \<Rightarrow> string option \<Rightarrow> SlashingService
   \<Rightarrow> SlashingService \<times> DoubleSignEvidence option" where
  "submit_double_sign_evidence now validator checkpoint_height hash1 hash2 signature1 signature2 s =
     (if hash1 = hash2 then (s, None)
      else if list_ex (same_evidence validator checkpoint_height hash1 hash2) (sl_double_sign_evidence s)
      then (s, None)
      else let evidence = \<lparr>ds_validator = validator, ds_checkpoint_height = checkpoint_height,
                 ds_hash1 = hash1, ds_hash2 = hash2, ds_signature1 = signature1,
                 ds_signature2 = signature2, ds_timestamp = now, ds_processed = False\<rparr>
           in (s\<lparr>sl_double_sign_evidence := sl_double_sign_evidence s @ [evidence]\<rparr>, Some evidence))"

text \<open>The evidence the first loop collects for slashing.\<close>

definition to_slash :: "u64 \<Rightarrow> DoubleSignEvidence list \<Rightarrow> DoubleSignEvidence list" where
  "to_slash now evidence =
     filter (\<lambda>e. \<not> ds_processed e \<and> \<not> now - ds_timestamp e > DOUBLE_SIGN_EVIDENCE_EXPIRY_MS) evidence"

text \<open>
  The second loop: \<open>nows\<close> are the clock readings of the calls to \<open>slash\<close>. Cutting
  a hash at 16 bytes inside a character panics (\<open>None\<close>).
\<close>

fun slash_double_signers ::
  "u64 list \<Rightarrow> u64 \<Rightarrow> DoubleSignEvidence list \<Rightarrow> SlashingService \<Rightarrow> (SlashingService \<times> SlashEvent list) option" where
  "slash_double_signers (now # nows) stake_amount (e # es) s =
     (case (str_take (min 16 (length (ds_hash1 e))) (ds_hash1 e), str_take (min 16 (length (ds_hash2 e))) (ds_hash2 e)) of
        (Some h1, Some h2) \<Rightarrow>
          (let (s, ev) = slash now (ds_validator e) stake_amount DoubleSign (ds_checkpoint_height e)
                 (Some (''Double-signed checkpoint: '' @ h1 @ '' vs '' @ h2)) s
           in map_option (\<lambda>(s, evs). (s, (case ev of Some x \<Rightarrow> x # evs | None \<Rightarrow> evs)))
                (slash_double_signers nows stake_amount es s))
      | _ \<Rightarrow> None)"
| "slash_double_signers nows stake_amount es s = Some (s, [])"

definition process_double_sign_evidence ::
  "u64 \<Rightarrow> (nat \<Rightarrow> u64) \<Rightarrow> u64 \<Rightarrow> SlashingService \<Rightarrow> (SlashingService \<times> SlashEvent list) option" where
  "process_double_sign_evidence now clock stake_amount s =
     (let es = to_slash now (sl_double_sign_evidence s);
          s = s\<lparr>sl_double_sign_evidence := map (\<lambda>e. e\<lparr>ds_processed := True\<rparr>) (sl_double_sign_evidence s)\<rparr>
      in map_option (\<lambda>(s, events).
           (s\<lparr>sl_double_sign_evidence := filter (\<lambda>e. \<not> ds_processed e
                \<or> now - ds_timestamp e < DOUBLE_SIGN_EVIDENCE_EXPIRY_MS) (sl_double_sign_evidence s)\<rparr>, events))
           (slash_double_signers (map clock [0 ..< length es]) stake_amount es s))"

definition get_pending_evidence :: "SlashingService \<Rightarrow> DoubleSignEvidence list" where
  "get_pending_evidence s = filter (\<lambda>e. \<not> ds_processed e) (sl_double_sign_evidence s)"

section \<open>Unbonding\<close>

definition start_unbonding :: "u64 \<Rightarrow> string \<Rightarrow> u64 \<Rightarrow> SlashingService \<Rightarrow> SlashingService \<times> UnbondingEntry" where
  "start_unbonding now validator amount s =
     (let entry = \<lparr>ub_validator = validator, ub_amount = amount, ub_started_at = now,
            ub_available_at = now + UNBONDING_PERIOD_MS, ub_slashable = True\<rparr>
      in (s\<lparr>sl_unbonding_queue := sl_unbonding_queue s @ [entry]\<rparr>, entry))"

definition unbonding_ready :: "u64 \<Rightarrow> UnbondingEntry \<Rightarrow> bool" where
  "unbonding_ready now e \<longleftrightarrow> ub_available_at e \<le> now \<and> ub_slashable e"

definition process_unbonding_queue :: "u64 \<Rightarrow> SlashingService \<Rightarrow> SlashingService \<times> UnbondingEntry list" where
  "process_unbonding_queue now s =
     (let (ready, pending) = partition (unbonding_ready now) (sl_unbonding_queue s)
      in (s\<lparr>sl_unbonding_queue := pending\<rparr>, ready))"

definition slash_entry :: "string \<Rightarrow> f64 \<Rightarrow> UnbondingEntry \<Rightarrow> UnbondingEntry \<times> u64" where
  "slash_entry validator percent e =
     (if ub_validator e = validator \<and> ub_slashable e
      then let slash_amount = f64_share (ub_amount e) percent
           in (e\<lparr>ub_amount := saturating_sub (ub_amount e) slash_amount\<rparr>, slash_amount)
      else (e, 0))"

definition slash_unbonding_stake :: "string \<Rightarrow> f64 \<Rightarrow> SlashingService \<Rightarrow> SlashingService \<times> u64" where
  "slash_unbonding_stake validator percent s =
     (let results = map (slash_entry validator percent) (sl_unbonding_queue s);
          slashed = wsum (map snd results)
      in (s\<lparr>sl_unbonding_queue := filter (\<lambda>e. ub_amount e > 0) (map fst results),
            sl_total_slashed := sl_total_slashed s + slashed\<rparr>, slashed))"

definition get_unbonding_for_validator :: "string \<Rightarrow> SlashingService \<Rightarrow> UnbondingEntry list" where
  "get_unbonding_for_validator validator s = filter (\<lambda>e. ub_validator e = validator) (sl_unbonding_queue s)"

definition get_slash_events :: "nat \<Rightarrow> SlashingService \<Rightarrow> SlashEvent list" where
  "get_slash_events limit s = take limit (rev (sl_slash_events s))"

definition get_validator_slash_history :: "string \<Rightarrow> SlashingService \<Rightarrow> SlashEvent list" where
  "get_validator_slash_history validator s = filter (\<lambda>e. se_validator e = validator) (sl_slash_events s)"

section \<open>Snapshots\<close>

definition slashing_to_json :: "((string \<times> LivenessRecord) list \<Rightarrow> (string \<times> LivenessRecord) list) \<Rightarrow> SlashingService \<Rightarrow> SlashingSnapshot" where
  "slashing_to_json iter s =
     \<lparr>ss_slash_events = sl_slash_events s, ss_unbonding_queue = sl_unbonding_queue s,
      ss_total_slashed = sl_total_slashed s,
      ss_liveness_failures = map (\<lambda>(k, v). (k, \<lparr>li_count = lr_count v, li_last_failure = lr_last_failure v\<rparr>))
        (iter (sl_liveness_failures s))\<rparr>"

definition parse_slash_id :: "SlashEvent \<Rightarrow> u64 option" where
  "parse_slash_id e = Option.bind (strip_prefix ''slash_'' (se_id e)) parse_u64"

definition next_id_after :: "SlashEvent list \<Rightarrow> u64" where
  "next_id_after events = fold max (List.map_filter parse_slash_id events) 0 + 1"

definition slashing_from_json :: "SlashingSnapshot \<Rightarrow> SlashingService" where
  "slashing_from_json snapshot =
     \<lparr>sl_slash_events = ss_slash_events snapshot, sl_unbonding_queue = ss_unbonding_queue snapshot,
      sl_liveness_failures = fold (\<lambda>(k, v). hm_insert k \<lparr>lr_count = li_count v, lr_last_failure = li_last_failure v\<rparr>)
        (ss_liveness_failures snapshot) [],
      sl_double_sign_evidence = [], sl_total_slashed = ss_total_slashed snapshot,
      sl_next_slash_id = next_id_after (ss_slash_events snapshot)\<rparr>"

definition merge_events :: "SlashEvent list \<Rightarrow> SlashingService \<Rightarrow> SlashingService \<times> nat" where
  "merge_events events s =
     (let existing_ids = map se_id (sl_slash_events s)
      in fold (\<lambda>event (s, events_added).
           if se_id event \<in> set existing_ids then (s, events_added)
           else (s\<lparr>sl_next_slash_id := (case parse_slash_id event of
                     Some id_num \<Rightarrow> max (sl_next_slash_id s) (id_num + 1) | None \<Rightarrow> sl_next_slash_id s),
                   sl_slash_events := sl_slash_events s @ [event]\<rparr>, events_added + 1))
         events (s, 0))"

definition merge_unbonding :: "UnbondingEntry list \<Rightarrow> SlashingService \<Rightarrow> SlashingService \<times> nat" where
  "merge_unbonding entries s =
     (let existing = map (\<lambda>e. (ub_validator e, ub_started_at e)) (sl_unbonding_queue s);
          new = filter (\<lambda>e. (ub_validator e, ub_started_at e) \<notin> set existing) entries
      in (s\<lparr>sl_unbonding_queue := sl_unbonding_queue s @ new\<rparr>, length new))"

definition merge_liveness_entry ::
  "string \<times> LivenessInfo \<Rightarrow> (string, LivenessRecord) hash_map \<times> nat \<Rightarrow> (string, LivenessRecord) hash_map \<times> nat" where
  "merge_liveness_entry = (\<lambda>(validator, peer_info) (m, updated).
     (let r = \<lparr>lr_count = li_count peer_info, lr_last_failure = li_last_failure peer_info\<rparr>
      in case hm_get m validator of
           Some local \<Rightarrow>
             if li_count peer_info > lr_count local then (hm_insert validator r m, updated + 1)
             else (m, updated)
         | None \<Rightarrow> (hm_insert validator r m, updated + 1)))"

text \<open>The peer's list is collected into a hash map first, so the last of two entries wins.\<close>

definition merge_liveness ::
  "((string \<times> LivenessInfo) list \<Rightarrow> (string \<times> LivenessInfo) list) \<Rightarrow> (string \<times> LivenessInfo) list
   \<Rightarrow> SlashingService \<Rightarrow> SlashingService \<times> nat" where
  "merge_liveness iter infos s =
     (let peer_failures = fold (\<lambda>(k, v). hm_insert k v) infos [];
          (m, updated) = fold merge_liveness_entry (iter peer_failures) (sl_liveness_failures s, 0)
      in (s\<lparr>sl_liveness_failures := m\<rparr>, updated))"

definition slashing_merge_from ::
  "((string \<times> LivenessInfo) list \<Rightarrow> (string \<times> LivenessInfo) list) \<Rightarrow> SlashingSnapshot
   \<Rightarrow> SlashingService \<Rightarrow> SlashingService \<times> SlashingMergeResult" where
  "slashing_merge_from iter snapshot s =
     (let (s, events_added) = merge_events (ss_slash_events snapshot) s;
          (s, unbonding_added) = merge_unbonding (ss_unbonding_queue snapshot) s;
          (s, liveness_updated) = merge_liveness iter (ss_liveness_failures snapshot) s;
          old_total = sl_total_slashed s;
          s = s\<lparr>sl_total_slashed := max (sl_total_slashed s) (ss_total_slashed snapshot)\<rparr>
      in (s, \<lparr>sm_events_added = events_added, sm_unbonding_added = unbonding_added,
              sm_liveness_updated = liveness_updated, sm_total_slashed_delta = sl_total_slashed s - old_total\<rparr>))"

section \<open>Bitmap round trip\<close>

lemma bit_byte_and: "(w :: byte) AND push_bit k 1 \<noteq> 0 \<longleftrightarrow> bit w k \<and> k < 8"
proof
  assume "w AND push_bit k 1 \<noteq> 0"
  then obtain n where "bit (w AND push_bit k 1) n" by (auto simp: bit_eq_iff)
  then show "bit w k \<and> k < 8" using bit_imp_le_length [of w k] by (auto simp: bit_simps)
next
  assume "bit w k \<and> k < 8"
  then have "bit (w AND push_bit k 1) k" by (auto simp: bit_simps)
  then show "w AND push_bit k 1 \<noteq> 0" by auto
qed

lemma bitmap_bit_iff: "bitmap_bit bm i \<longleftrightarrow> i div 8 < length bm \<and> bit (bm ! (i div 8)) (i mod 8)"
  unfolding bitmap_bit_def bit_byte_and by simp

lemma bitmap_bit_set:
  assumes "j div 8 < length bm"
  shows "bitmap_bit (bm[j div 8 := (bm ! (j div 8)) OR push_bit (j mod 8) 1]) i \<longleftrightarrow> bitmap_bit bm i \<or> i = j"
proof -
  have "i = j \<longleftrightarrow> i div 8 = j div 8 \<and> i mod 8 = j mod 8" by (metis div_mod_decomp)
  moreover have "j mod 8 < 8" "i mod 8 < 8" by simp_all
  ultimately show ?thesis
    using assms by (cases "i div 8 = j div 8") (auto simp: bitmap_bit_iff bit_simps)
qed

lemma create_signer_bitmap_bit: "bitmap_bit (create_signer_bitmap idxs n) i \<longleftrightarrow> i \<in> set idxs \<and> i < n"
proof -
  let ?f = "\<lambda>index bitmap. if index < n
    then bitmap[index div 8 := (bitmap ! (index div 8)) OR push_bit (index mod 8) (1 :: byte)] else bitmap"
  have "length (fold ?f idxs bm) = length bm
      \<and> (bitmap_bit (fold ?f idxs bm) i \<longleftrightarrow> bitmap_bit bm i \<or> i \<in> set idxs \<and> i < n)"
    if "length bm = (n + 7) div 8" for bm
    using that
  proof (induction idxs arbitrary: bm)
    case (Cons j idxs)
    have "j div 8 < length bm" if "j < n" using that Cons.prems by linarith
    with Cons bitmap_bit_set [of j bm i] show ?case by (cases "j < n") auto
  qed simp
  from this [of "replicate ((n + 7) div 8) 0"] show ?thesis
    by (auto simp: create_signer_bitmap_def bitmap_bit_iff)
qed

text \<open>
  Reading a signer bitmap gives back exactly the signers it was made from, in
  increasing order, without the indices out of range.
\<close>
theorem signer_bitmap_roundtrip:
  "parse_signer_bitmap (create_signer_bitmap idxs n) n = sorted_list_of_set {i \<in> set idxs. i < n}"
proof -
  have "parse_signer_bitmap (create_signer_bitmap idxs n) n = filter (\<lambda>i. i \<in> set idxs \<and> i < n) [0 ..< n]"
    unfolding parse_signer_bitmap_def by (intro filter_cong) (simp_all add: create_signer_bitmap_bit)
  also have "\<dots> = sorted_list_of_set (set (filter (\<lambda>i. i \<in> set idxs \<and> i < n) [0 ..< n]))"
    by (rule sorted_distinct_set_unique) (simp_all add: sorted_wrt_filter)
  also have "set (filter (\<lambda>i. i \<in> set idxs \<and> i < n) [0 ..< n]) = {i \<in> set idxs. i < n}" by auto
  finally show ?thesis .
qed

section \<open>Bounds of a slash\<close>

lemma SlashReason_percent_half: "\<exists>c. SlashReason_percent r = Fin c \<and> 0 \<le> c \<and> c \<le> 1 / 2"
proof -
  have "representable (1 / 2)" using representable_pow2 [of "- 1"] by (simp add: power_int_def)
  then have "\<exists>c. rnd x = Fin c \<and> 0 \<le> c \<and> c \<le> 1 / 2" if "0 \<le> x" "x \<le> 1 / 2" for x
    using rnd_literal_bounds [of x "1 / 2"] that by auto
  then show ?thesis by (cases r) simp_all
qed

lemma slash_share_le: "unat (f64_share stake (SlashReason_percent r)) \<le> unat stake"
  using SlashReason_percent_half [of r] f64_share_half_le by metis

lemma slash_zero [simp]: "slash now v 0 r h d s = (s, None)"
  by (simp add: slash_def)

lemma slash_SomeD:
  assumes "slash now v stake r h d s = (t, Some e)"
  shows "se_validator e = v" "se_reason e = r" "se_checkpoint_height e = h" "se_id e = slash_id (sl_next_slash_id s)"
    "se_amount e = f64_share stake (SlashReason_percent r)" "stake \<noteq> 0"
    "sl_total_slashed t = sl_total_slashed s + se_amount e" "sl_next_slash_id t = sl_next_slash_id s + 1"
    "sl_slash_events t = (let evs = sl_slash_events s @ [e] in if length evs > 1000 then drop (length evs - 500) evs else evs)"
    "sl_unbonding_queue t = sl_unbonding_queue s" "sl_liveness_failures t = sl_liveness_failures s"
    "sl_double_sign_evidence t = sl_double_sign_evidence s"
  using assms by (auto simp: slash_def Let_def split: if_splits)

lemma slash_NoneD: "slash now v stake r h d s = (t, None) \<Longrightarrow> t = s"
  by (auto simp: slash_def Let_def split: if_splits)

text \<open>
  A slash takes at most the stake, for every reason and every stake; it names the
  validator, the reason and the height, adds its amount to the total and is the newest of
  at most 1000 kept events. Only a stake of zero is not slashed.
\<close>
theorem slash_bounded:
  assumes "stake \<noteq> 0"
  shows "\<exists>e. snd (slash now v stake r h d s) = Some e
    \<and> se_amount e \<le> stake \<and> se_validator e = v \<and> se_reason e = r \<and> se_checkpoint_height e = h
    \<and> sl_total_slashed (fst (slash now v stake r h d s)) = sl_total_slashed s + se_amount e
    \<and> get_slash_events 1 (fst (slash now v stake r h d s)) = [e]
    \<and> (length (sl_slash_events s) \<le> 1000 \<longrightarrow> length (sl_slash_events (fst (slash now v stake r h d s))) \<le> 1000)"
proof -
  obtain t e where t: "slash now v stake r h d s = (t, Some e)"
    using assms by (simp add: slash_def Let_def)
  note f = slash_SomeD [OF t]
  have "take 1 (rev (drop k (xs @ [e]))) = [e]" if "k \<le> length xs" for k and xs :: "SlashEvent list"
    using that by simp
  then have "get_slash_events 1 t = [e]" by (simp add: get_slash_events_def f(9) Let_def)
  moreover have "se_amount e \<le> stake" using slash_share_le [of stake r] by (simp add: f(5) word_le_nat_alt)
  ultimately show ?thesis using f by (simp add: t Let_def)
qed

theorem slash_bounded_witness:
  "\<exists>e. snd (slash 1000 ''v'' 500 DoubleSign 7 None SlashingService_new) = Some e \<and> se_amount e \<le> 500"
  using slash_bounded [of 500 1000 "''v''" DoubleSign 7 None SlashingService_new] by auto

section \<open>Slash identifiers\<close>

text \<open>
  The identifiers of the kept events are pairwise different, and the next identifier is
  the one \<open>from_json\<close> would compute from the kept events.
\<close>

definition ids_fit :: "SlashEvent list \<Rightarrow> bool" where
  "ids_fit events \<longleftrightarrow> (\<forall>e \<in> set events. \<forall>n. parse_slash_id e = Some n \<longrightarrow> unat n + 1 < 2 ^ 64)"

definition slash_ids_inv :: "SlashingService \<Rightarrow> bool" where
  "slash_ids_inv s \<longleftrightarrow> distinct (map se_id (sl_slash_events s)) \<and> ids_fit (sl_slash_events s)
     \<and> sl_next_slash_id s = next_id_after (sl_slash_events s)
     \<and> hm_wf (sl_liveness_failures s)"

lemma parse_slash_id_slash_id: "se_id e = slash_id n \<Longrightarrow> parse_slash_id e = Some n"
  by (simp only: parse_slash_id_def slash_id_def strip_prefix_append bind.bind_lunit parse_u64_show)

lemma fold_max_ge: "fold max xs (a :: u64) = (if xs = [] then a else max a (fold max xs 0))"
proof (induction xs arbitrary: a)
  case (Cons x xs)
  show ?case using Cons [of "max x a"] Cons [of "max x 0"] by (auto simp: max.assoc max.commute max.left_commute)
qed simp

lemma fold_max_append: "fold max (xs @ ys) (0 :: u64) = max (fold max xs 0) (fold max ys 0)"
  by (subst fold_append, simp, subst fold_max_ge) auto

lemma map_filter_append: "List.map_filter f (xs @ ys) = List.map_filter f xs @ List.map_filter f ys"
  by (simp add: List.map_filter_def)

definition max_slash_id :: "SlashEvent list \<Rightarrow> u64" where
  "max_slash_id events = fold max (List.map_filter parse_slash_id events) 0"

lemma max_slash_id_append: "max_slash_id (xs @ ys) = max (max_slash_id xs) (max_slash_id ys)"
  unfolding max_slash_id_def map_filter_append by (rule fold_max_append)

lemma max_slash_id_Nil [simp]: "max_slash_id [] = 0"
  by (simp add: max_slash_id_def)

lemma max_slash_id_single: "max_slash_id [e] = (case parse_slash_id e of Some n \<Rightarrow> n | None \<Rightarrow> 0)"
  by (simp add: max_slash_id_def List.map_filter_def split: option.splits)

lemma max_slash_id_ge: "e \<in> set events \<Longrightarrow> parse_slash_id e = Some n \<Longrightarrow> n \<le> max_slash_id events"
proof (induction events)
  case (Cons a events)
  have "max_slash_id (a # events) = max (max_slash_id [a]) (max_slash_id events)"
    using max_slash_id_append [of "[a]" events] by simp
  with Cons show ?case by (auto simp: max_slash_id_single le_max_iff_disj)
qed simp

lemma ids_fit_max: "ids_fit events \<Longrightarrow> unat (max_slash_id events) + 1 < 2 ^ 64"
proof (induction events)
  case (Cons e events)
  then have "unat (max_slash_id events) + 1 < 2 ^ 64" "unat (max_slash_id [e]) + 1 < 2 ^ 64"
    by (auto simp: ids_fit_def max_slash_id_single split: option.splits)
  moreover have "max_slash_id (e # events) = max (max_slash_id [e]) (max_slash_id events)"
    using max_slash_id_append [of "[e]" events] by simp
  ultimately show ?case by (simp add: unat_max)
qed simp

lemma next_id_after_eq: "next_id_after events = max_slash_id events + 1"
  by (simp add: next_id_after_def max_slash_id_def)

lemma unat_next_id: "ids_fit events \<Longrightarrow> unat (next_id_after events) = unat (max_slash_id events) + 1"
  using ids_fit_max [of events] by (simp add: next_id_after_eq unat_add_no_overflow)

lemma slash_id_fresh: "ids_fit events \<Longrightarrow> slash_id (next_id_after events) \<notin> se_id ` set events"
proof
  assume f: "ids_fit events" and "slash_id (next_id_after events) \<in> se_id ` set events"
  then obtain e where "e \<in> set events" "parse_slash_id e = Some (next_id_after events)"
    by (metis imageE parse_slash_id_slash_id)
  with max_slash_id_ge unat_next_id [OF f] show False by (fastforce simp: word_le_nat_alt)
qed

lemma max_slash_id_drop_last:
  "parse_slash_id e = Some n \<Longrightarrow> max_slash_id events \<le> n \<Longrightarrow> k \<le> length events
   \<Longrightarrow> max_slash_id (drop k (events @ [e])) = n"
proof -
  assume e: "parse_slash_id e = Some n" "max_slash_id events \<le> n" "k \<le> length events"
  have "max_slash_id events = max (max_slash_id (take k events)) (max_slash_id (drop k events))"
    by (simp flip: max_slash_id_append)
  with e have "max_slash_id (drop k events) \<le> n" by simp
  with e show ?thesis by (simp add: max_slash_id_append max_slash_id_single)
qed

lemma slash_keeps_ids:
  assumes "slash_ids_inv s" and "unat (sl_next_slash_id s) + 1 < 2 ^ 64"
  shows "slash_ids_inv (fst (slash now v stake r h d s))"
proof (cases "slash now v stake r h d s")
  case (Pair t oe)
  show ?thesis
  proof (cases oe)
    case None
    then show ?thesis using Pair assms(1) slash_NoneD [of now v stake r h d s t] by simp
  next
    case (Some e)
    note f = slash_SomeD [OF Pair [unfolded Some]]
    let ?evs = "sl_slash_events s" and ?n = "sl_next_slash_id s"
    have i: "distinct (map se_id ?evs)" "ids_fit ?evs" "?n = next_id_after ?evs" "hm_wf (sl_liveness_failures s)"
      using assms(1) by (auto simp: slash_ids_inv_def)
    have e: "parse_slash_id e = Some ?n" using f(4) by (rule parse_slash_id_slash_id)
    have fresh: "se_id e \<notin> se_id ` set ?evs" using slash_id_fresh [OF i(2)] f(4) i(3) by simp
    define k where "k = (if length ?evs + 1 > 1000 then length ?evs + 1 - 500 else 0)"
    have k: "sl_slash_events t = drop k (?evs @ [e])" "k \<le> length ?evs"
      by (auto simp: f(9) k_def Let_def)
    have "max_slash_id ?evs \<le> ?n" using unat_next_id [OF i(2)] i(3) by (simp add: word_le_nat_alt)
    then have "next_id_after (sl_slash_events t) = ?n + 1"
      using max_slash_id_drop_last [OF e _ k(2)] by (simp add: k(1) next_id_after_eq)
    moreover have "distinct (map se_id (?evs @ [e]))" using i(1) fresh by auto
    then have "distinct (map se_id (sl_slash_events t))" unfolding k(1) drop_map [symmetric] by (rule distinct_drop)
    moreover have "ids_fit (?evs @ [e])" using i(2) e assms(2) by (auto simp: ids_fit_def)
    then have "ids_fit (sl_slash_events t)"
      unfolding k(1) ids_fit_def by (meson in_set_dropD)
    ultimately show ?thesis using f i(4) Pair by (simp add: slash_ids_inv_def)
  qed
qed

lemma slash_next_id: "unat (sl_next_slash_id s) + 1 < 2 ^ 64
    \<Longrightarrow> unat (sl_next_slash_id (fst (slash now v stake r h d s))) \<le> unat (sl_next_slash_id s) + 1"
  by (simp add: slash_def Let_def unat_add_no_overflow)

lemma slash_evidence [simp]: "sl_double_sign_evidence (fst (slash now v stake r h d s)) = sl_double_sign_evidence s"
  by (simp add: slash_def Let_def)

lemma slash_queue [simp]: "sl_unbonding_queue (fst (slash now v stake r h d s)) = sl_unbonding_queue s"
  by (simp add: slash_def Let_def)

lemma slash_double_signers_frame:
  assumes "slash_double_signers nows stake es s = Some (t, evs)"
  shows "sl_double_sign_evidence t = sl_double_sign_evidence s" "sl_unbonding_queue t = sl_unbonding_queue s"
    "length nows = length es \<Longrightarrow> length evs = (if stake = 0 then 0 else length es)"
    "length nows = length es \<Longrightarrow> slash_ids_inv s \<Longrightarrow> unat (sl_next_slash_id s) + length es < 2 ^ 64 \<Longrightarrow> slash_ids_inv t"
proof -
  have "sl_double_sign_evidence t = sl_double_sign_evidence s \<and> sl_unbonding_queue t = sl_unbonding_queue s
    \<and> (length nows = length es \<longrightarrow> length evs = (if stake = 0 then 0 else length es)
       \<and> (slash_ids_inv s \<longrightarrow> unat (sl_next_slash_id s) + length es < 2 ^ 64 \<longrightarrow> slash_ids_inv t))"
    using assms
  proof (induction nows stake es s arbitrary: t evs rule: slash_double_signers.induct)
    case (1 now nows stake e es s)
    from "1.prems" obtain h1 h2 where h: "str_take (min 16 (length (ds_hash1 e))) (ds_hash1 e) = Some h1"
      "str_take (min 16 (length (ds_hash2 e))) (ds_hash2 e) = Some h2"
      by (auto split: option.splits)
    obtain u ev where u: "slash now (ds_validator e) stake DoubleSign (ds_checkpoint_height e)
        (Some (''Double-signed checkpoint: '' @ h1 @ '' vs '' @ h2)) s = (u, ev)" by fastforce
    from "1.prems" h u obtain evs' where r: "slash_double_signers nows stake es u = Some (t, evs')"
      "evs = (case ev of Some x \<Rightarrow> x # evs' | None \<Rightarrow> evs')"
      by (auto split: option.splits)
    have IH: "sl_double_sign_evidence t = sl_double_sign_evidence u" "sl_unbonding_queue t = sl_unbonding_queue u"
      "length nows = length es \<Longrightarrow> length evs' = (if stake = 0 then 0 else length es)"
      "length nows = length es \<Longrightarrow> slash_ids_inv u \<Longrightarrow> unat (sl_next_slash_id u) + length es < 2 ^ 64 \<Longrightarrow> slash_ids_inv t"
      using "1.IH" [OF refl h u [symmetric] refl r(1)] by blast+
    have ev: "ev = None \<longleftrightarrow> stake = 0" using u by (auto simp: slash_def Let_def split: if_splits)
    have frame: "sl_double_sign_evidence u = sl_double_sign_evidence s" "sl_unbonding_queue u = sl_unbonding_queue s"
      using slash_evidence slash_queue u by (metis fst_conv)+
    have "slash_ids_inv u \<and> unat (sl_next_slash_id u) + length es < 2 ^ 64"
      if "slash_ids_inv s" "unat (sl_next_slash_id s) + length (e # es) < 2 ^ 64"
    proof -
      have n: "unat (sl_next_slash_id s) + 1 < 2 ^ 64" using that(2) by simp
      have "unat (sl_next_slash_id u) \<le> unat (sl_next_slash_id s) + 1" "slash_ids_inv u"
        using slash_keeps_ids [OF that(1) n] slash_next_id [OF n] u by (metis fst_conv)+
      then show ?thesis using that(2) by simp
    qed
    with IH ev frame r(2) show ?case by (auto split: option.splits)
  qed auto
  then show "sl_double_sign_evidence t = sl_double_sign_evidence s" "sl_unbonding_queue t = sl_unbonding_queue s"
    "length nows = length es \<Longrightarrow> length evs = (if stake = 0 then 0 else length es)"
    "length nows = length es \<Longrightarrow> slash_ids_inv s \<Longrightarrow> unat (sl_next_slash_id s) + length es < 2 ^ 64 \<Longrightarrow> slash_ids_inv t"
    by blast+
qed

lemma process_double_signD:
  assumes "process_double_sign_evidence now clock stake s = Some (t, evs)"
  shows "length evs = (if stake = 0 then 0 else length (to_slash now (sl_double_sign_evidence s)))"
    and "sl_double_sign_evidence t = filter (\<lambda>e. now - ds_timestamp e < DOUBLE_SIGN_EVIDENCE_EXPIRY_MS)
      (map (\<lambda>e. e\<lparr>ds_processed := True\<rparr>) (sl_double_sign_evidence s))"
    and "sl_unbonding_queue t = sl_unbonding_queue s"
    and "slash_ids_inv s \<Longrightarrow> unat (sl_next_slash_id s) + length (sl_double_sign_evidence s) < 2 ^ 64 \<Longrightarrow> slash_ids_inv t"
proof -
  let ?es = "to_slash now (sl_double_sign_evidence s)"
  let ?s = "s\<lparr>sl_double_sign_evidence := map (\<lambda>e. e\<lparr>ds_processed := True\<rparr>) (sl_double_sign_evidence s)\<rparr>"
  from assms obtain u where u: "slash_double_signers (map clock [0 ..< length ?es]) stake ?es ?s = Some (u, evs)"
    "t = u\<lparr>sl_double_sign_evidence := filter (\<lambda>e. \<not> ds_processed e
        \<or> now - ds_timestamp e < DOUBLE_SIGN_EVIDENCE_EXPIRY_MS) (sl_double_sign_evidence u)\<rparr>"
    by (auto simp: process_double_sign_evidence_def Let_def)
  note f = slash_double_signers_frame [OF u(1)]
  show "length evs = (if stake = 0 then 0 else length ?es)" using f(3) by simp
  show "sl_double_sign_evidence t = filter (\<lambda>e. now - ds_timestamp e < DOUBLE_SIGN_EVIDENCE_EXPIRY_MS)
      (map (\<lambda>e. e\<lparr>ds_processed := True\<rparr>) (sl_double_sign_evidence s))"
    unfolding u(2) using f(1) by (simp add: filter_map o_def)
  show "sl_unbonding_queue t = sl_unbonding_queue s" unfolding u(2) using f(2) by simp
  assume i: "slash_ids_inv s" and n: "unat (sl_next_slash_id s) + length (sl_double_sign_evidence s) < 2 ^ 64"
  have "length ?es \<le> length (sl_double_sign_evidence s)" by (simp add: to_slash_def)
  with n i f(4) have "slash_ids_inv u" by (simp add: slash_ids_inv_def)
  then show "slash_ids_inv t" unfolding u(2) by (simp add: slash_ids_inv_def)
qed

text \<open>
  C29: a piece of evidence is slashed at most once while it is known: processing leaves
  nothing pending, yields one event per live piece, a second round yields none, and within
  the expiry time the same two hashes are refused in either order.
\<close>
theorem double_sign_slashed_once:
  assumes "process_double_sign_evidence now clock stake s = Some (t, evs)" "stake \<noteq> 0"
  shows "length evs = length (to_slash now (sl_double_sign_evidence s)) \<and> get_pending_evidence t = []
    \<and> (\<forall>now' clock' stake' t' evs'. process_double_sign_evidence now' clock' stake' t = Some (t', evs') \<longrightarrow> evs' = [])
    \<and> (\<forall>e \<in> set (sl_double_sign_evidence s). now - ds_timestamp e < DOUBLE_SIGN_EVIDENCE_EXPIRY_MS \<longrightarrow>
         submit_double_sign_evidence now'' (ds_validator e) (ds_checkpoint_height e) (ds_hash1 e) (ds_hash2 e) g1 g2 t = (t, None)
         \<and> submit_double_sign_evidence now'' (ds_validator e) (ds_checkpoint_height e) (ds_hash2 e) (ds_hash1 e) g1 g2 t = (t, None))"
proof -
  note p = process_double_signD [OF assms(1)]
  have processed: "ds_processed e" if "e \<in> set (sl_double_sign_evidence t)" for e using that p(2) by auto
  then have none: "to_slash now' (sl_double_sign_evidence t) = []" for now' by (auto simp: to_slash_def filter_empty_conv)
  have "evs' = []" if "process_double_sign_evidence now' clock' stake' t = Some (t', evs')" for now' clock' stake' t' evs'
    using process_double_signD(1) [OF that] none by (auto split: if_splits)
  moreover have "list_ex (same_evidence (ds_validator e) (ds_checkpoint_height e) (ds_hash1 e) (ds_hash2 e)) (sl_double_sign_evidence t)
      \<and> list_ex (same_evidence (ds_validator e) (ds_checkpoint_height e) (ds_hash2 e) (ds_hash1 e)) (sl_double_sign_evidence t)"
    if "e \<in> set (sl_double_sign_evidence s)" "now - ds_timestamp e < DOUBLE_SIGN_EVIDENCE_EXPIRY_MS" for e
  proof -
    have "e\<lparr>ds_processed := True\<rparr> \<in> set (sl_double_sign_evidence t)" using that by (simp add: p(2))
    moreover have "same_evidence (ds_validator e) (ds_checkpoint_height e) (ds_hash1 e) (ds_hash2 e) (e\<lparr>ds_processed := True\<rparr>)"
      "same_evidence (ds_validator e) (ds_checkpoint_height e) (ds_hash2 e) (ds_hash1 e) (e\<lparr>ds_processed := True\<rparr>)"
      by (simp_all add: same_evidence_def)
    ultimately show ?thesis by (metis list_ex_iff)
  qed
  ultimately show ?thesis
    using p(1) assms(2) processed by (auto simp: get_pending_evidence_def submit_double_sign_evidence_def filter_empty_conv)
qed

definition sample_evidence :: SlashingService where
  "sample_evidence = fst (submit_double_sign_evidence 0 ''v'' 7 ''aa'' ''bb'' ''s'' None SlashingService_new)"

lemma sample_to_slash:
  "to_slash 0 (sl_double_sign_evidence sample_evidence) =
     [\<lparr>ds_validator = ''v'', ds_checkpoint_height = 7, ds_hash1 = ''aa'', ds_hash2 = ''bb'',
       ds_signature1 = ''s'', ds_signature2 = None, ds_timestamp = 0, ds_processed = False\<rparr>]"
  by (simp add: sample_evidence_def submit_double_sign_evidence_def SlashingService_new_def Let_def to_slash_def)

lemma sample_process:
  "\<exists>t evs. process_double_sign_evidence 0 (\<lambda>i. 0) 500 sample_evidence = Some (t, evs)"
  by (simp add: process_double_sign_evidence_def sample_to_slash str_take_def is_char_boundary_def
      case_prod_beta Let_def)

theorem double_sign_slashed_once_witness:
  "\<exists>t evs. process_double_sign_evidence 0 (\<lambda>i. 0) 500 sample_evidence = Some (t, evs)
     \<and> length evs = 1 \<and> get_pending_evidence t = []"
proof -
  obtain t evs where p: "process_double_sign_evidence 0 (\<lambda>i. 0) 500 sample_evidence = Some (t, evs)"
    using sample_process by blast
  from p double_sign_slashed_once [OF p] show ?thesis by (simp add: sample_to_slash)
qed

section \<open>Merging and restoring\<close>

definition new_events :: "SlashEvent list \<Rightarrow> SlashingService \<Rightarrow> SlashEvent list" where
  "new_events events s = filter (\<lambda>e. se_id e \<notin> se_id ` set (sl_slash_events s)) events"

definition bump_id :: "SlashEvent \<Rightarrow> u64 \<Rightarrow> u64" where
  "bump_id e n = (case parse_slash_id e of Some i \<Rightarrow> max n (i + 1) | None \<Rightarrow> n)"

lemma merge_events_eq:
  "merge_events events s =
     (s\<lparr>sl_next_slash_id := fold bump_id (new_events events s) (sl_next_slash_id s),
        sl_slash_events := sl_slash_events s @ new_events events s\<rparr>, length (new_events events s))"
proof -
  let ?ids = "set (map se_id (sl_slash_events s))"
  let ?f = "\<lambda>event (s, events_added). if se_id event \<in> ?ids then (s, events_added)
     else (s\<lparr>sl_next_slash_id := (case parse_slash_id event of
               Some id_num \<Rightarrow> max (sl_next_slash_id s) (id_num + 1) | None \<Rightarrow> sl_next_slash_id s),
             sl_slash_events := sl_slash_events s @ [event]\<rparr>, events_added + 1)"
  have "fold ?f events (u, k) =
      (u\<lparr>sl_next_slash_id := fold bump_id (filter (\<lambda>e. se_id e \<notin> ?ids) events) (sl_next_slash_id u),
         sl_slash_events := sl_slash_events u @ filter (\<lambda>e. se_id e \<notin> ?ids) events\<rparr>,
       k + length (filter (\<lambda>e. se_id e \<notin> ?ids) events))" for u k
    by (induction events arbitrary: u k) (simp_all add: bump_id_def)
  from this [of s 0] show ?thesis by (simp add: merge_events_def new_events_def Let_def)
qed

lemma fold_bump_id:
  "ids_fit events \<Longrightarrow> ids_fit evs \<Longrightarrow> fold bump_id events (next_id_after evs) = next_id_after (evs @ events)"
proof (induction events arbitrary: evs)
  case (Cons e events)
  have "bump_id e (next_id_after evs) = next_id_after (evs @ [e])"
  proof (cases "parse_slash_id e")
    case (Some i)
    with Cons.prems have i: "unat i + 1 < 2 ^ 64" "unat (max_slash_id evs) + 1 < 2 ^ 64"
      using ids_fit_max [of evs] by (simp_all add: ids_fit_def)
    have "max (max_slash_id evs + 1) (i + 1) = max (max_slash_id evs) i + 1"
      using i by (simp add: word_unat_eq_iff unat_max unat_add_no_overflow)
    then show ?thesis using Some by (simp add: bump_id_def next_id_after_eq max_slash_id_append max_slash_id_single)
  qed (simp add: bump_id_def next_id_after_eq max_slash_id_append max_slash_id_single max_def)
  moreover have "ids_fit (evs @ [e])" "ids_fit events" using Cons.prems by (auto simp: ids_fit_def)
  ultimately show ?case using Cons.IH [of "evs @ [e]"] by simp
qed simp

definition snapshot_ok :: "SlashingSnapshot \<Rightarrow> bool" where
  "snapshot_ok snapshot \<longleftrightarrow> distinct (map se_id (ss_slash_events snapshot)) \<and> ids_fit (ss_slash_events snapshot)"

lemma merge_events_keeps_ids:
  assumes "slash_ids_inv s" "distinct (map se_id events)" "ids_fit events"
  shows "slash_ids_inv (fst (merge_events events s))"
proof -
  let ?new = "new_events events s"
  have new: "ids_fit ?new" "distinct (map se_id ?new)" "se_id ` set ?new \<inter> se_id ` set (sl_slash_events s) = {}"
    using assms(2,3) by (auto simp: new_events_def ids_fit_def distinct_map_filter)
  have "fold bump_id ?new (sl_next_slash_id s) = next_id_after (sl_slash_events s @ ?new)"
    using assms(1) new(1) by (simp add: slash_ids_inv_def fold_bump_id)
  moreover have "distinct (map se_id (sl_slash_events s @ ?new))" "ids_fit (sl_slash_events s @ ?new)"
    using assms(1) new by (auto simp: slash_ids_inv_def ids_fit_def)
  ultimately show ?thesis using assms(1) by (simp add: merge_events_eq slash_ids_inv_def)
qed

lemma merge_liveness_wf: "hm_wf m \<Longrightarrow> hm_wf (fst (fold merge_liveness_entry xs (m, k)))"
proof (induction xs arbitrary: m k)
  case (Cons x xs)
  obtain m' k' where x: "merge_liveness_entry x (m, k) = (m', k')" by fastforce
  then have "hm_wf m'" using Cons.prems
    by (cases x) (auto simp: merge_liveness_entry_def Let_def split: option.splits if_splits)
  with Cons.IH x show ?case by simp
qed simp

lemma merge_keeps_ids:
  assumes "slash_ids_inv s" "snapshot_ok snapshot"
  shows "slash_ids_inv (fst (slashing_merge_from iter snapshot s))"
proof -
  obtain s1 k1 where s1: "merge_events (ss_slash_events snapshot) s = (s1, k1)" by fastforce
  have i1: "slash_ids_inv s1"
    using merge_events_keeps_ids [OF assms(1)] assms(2) s1 by (metis fst_conv snapshot_ok_def)
  obtain s2 k2 where s2: "merge_unbonding (ss_unbonding_queue snapshot) s1 = (s2, k2)" by fastforce
  have i2: "slash_ids_inv s2" using i1 s2 by (auto simp: merge_unbonding_def Let_def slash_ids_inv_def)
  obtain s3 k3 where s3: "merge_liveness iter (ss_liveness_failures snapshot) s2 = (s3, k3)" by fastforce
  have i3: "slash_ids_inv s3"
    using i2 s3 merge_liveness_wf [of "sl_liveness_failures s2"]
    by (auto simp: merge_liveness_def Let_def slash_ids_inv_def split: prod.splits) (metis fst_conv)
  show ?thesis using i3 by (simp add: slashing_merge_from_def s1 s2 s3 Let_def slash_ids_inv_def)
qed

section \<open>Runs\<close>

text \<open>
  The operations in any order. The guards only say that the 64-bit identifier counter is
  not exhausted and that merged snapshots come from nodes that keep the same invariant.
\<close>

definition id_room :: "SlashingService \<Rightarrow> bool" where
  "id_room s \<longleftrightarrow> unat (sl_next_slash_id s) + length (sl_double_sign_evidence s) + 1 < 2 ^ 64"

inductive slashing_step :: "SlashingService \<Rightarrow> SlashingService \<Rightarrow> bool" where
  do_slash: "id_room s \<Longrightarrow> slashing_step s (fst (slash now v stake r h d s))"
| do_liveness: "id_room s \<Longrightarrow> slashing_step s (fst (record_liveness_failure now now' v h stake s))"
| do_reset: "slashing_step s (reset_liveness_counter v s)"
| do_submit: "slashing_step s (fst (submit_double_sign_evidence now v h h1 h2 g1 g2 s))"
| do_process: "id_room s \<Longrightarrow> process_double_sign_evidence now clock stake s = Some (t, evs) \<Longrightarrow> slashing_step s t"
| do_unbond: "slashing_step s (fst (start_unbonding now v amount s))"
| do_release: "slashing_step s (fst (process_unbonding_queue now s))"
| do_slash_unbonding: "slashing_step s (fst (slash_unbonding_stake v percent s))"
| do_merge: "snapshot_ok snapshot \<Longrightarrow> slashing_step s (fst (slashing_merge_from iter snapshot s))"
| do_restart: "slashing_step s (slashing_from_json (slashing_to_json (\<lambda>xs. xs) s))"

lemma hm_insert_new: "k \<notin> fst ` set m \<Longrightarrow> hm_insert k w m = m @ [(k, w)]"
  by (induction m) (auto simp: hm_insert_Cons)

lemma fold_insert_distinct:
  "distinct (map fst m @ map fst xs) \<Longrightarrow> fold (\<lambda>(k, v). hm_insert k (g v)) xs m = m @ map (\<lambda>(k, v). (k, g v)) xs"
proof (induction xs arbitrary: m)
  case (Cons x xs)
  obtain k v where x: "x = (k, v)" by fastforce
  with Cons.prems have "hm_insert k (g v) m = m @ [(k, g v)]" by (simp add: hm_insert_new)
  with Cons x show ?case by simp
qed simp

lemma LivenessRecord_eta: "(fst x, \<lparr>lr_count = lr_count (snd x), lr_last_failure = lr_last_failure (snd x)\<rparr>) = x"
  by (cases x) simp

lemma restart_eq:
  assumes "slash_ids_inv s" "iteration_order iter"
  shows "slashing_from_json (slashing_to_json iter s) =
    s\<lparr>sl_double_sign_evidence := [], sl_liveness_failures := iter (sl_liveness_failures s)\<rparr>"
proof -
  let ?xs = "map (\<lambda>(k, v). (k, \<lparr>li_count = lr_count v, li_last_failure = lr_last_failure v\<rparr>)) (iter (sl_liveness_failures s))"
  have "hm_wf (iter (sl_liveness_failures s))" using assms by (simp add: slash_ids_inv_def hm_wf_iter)
  then have d: "distinct (map fst ([] :: (string \<times> LivenessRecord) list) @ map fst ?xs)" by (simp add: hm_wf_def comp_def case_prod_beta)
  have "fold (\<lambda>(k, v). hm_insert k \<lparr>lr_count = li_count v, lr_last_failure = li_last_failure v\<rparr>) ?xs [] = iter (sl_liveness_failures s)"
    using fold_insert_distinct [of "[]" ?xs "\<lambda>v. \<lparr>lr_count = li_count v, lr_last_failure = li_last_failure v\<rparr>", OF d]
    by (simp add: comp_def case_prod_beta LivenessRecord_eta)
  then show ?thesis
    using assms(1) by (simp add: slashing_from_json_def slashing_to_json_def slash_ids_inv_def)
qed

lemma slashing_step_inv: "slash_ids_inv s \<Longrightarrow> slashing_step s t \<Longrightarrow> slash_ids_inv t"
proof (rotate_tac 1, induction rule: slashing_step.induct)
  case (do_liveness s now now' v h stake)
  let ?r = "unwrap_or (hm_get (sl_liveness_failures s) v) \<lparr>lr_count = 0, lr_last_failure = now\<rparr>"
  let ?s = "s\<lparr>sl_liveness_failures := hm_insert v \<lparr>lr_count = lr_count ?r + 1, lr_last_failure = now\<rparr> (sl_liveness_failures s)\<rparr>"
  have "slash_ids_inv ?s" using do_liveness by (simp add: slash_ids_inv_def)
  then show ?case
    using do_liveness slash_keeps_ids [of ?s] by (simp add: record_liveness_failure_def Let_def id_room_def)
next
  case (do_process s now clock stake t evs)
  then show ?case using process_double_signD(4) by (simp add: id_room_def)
next
  case (do_restart s)
  then show ?case by (simp add: restart_eq) (simp add: slash_ids_inv_def)
next
  case (do_slash s now v stake r h d)
  then show ?case by (simp add: id_room_def slash_keeps_ids)
next
  case (do_merge snapshot s iter)
  then show ?case by (simp add: merge_keeps_ids)
qed (auto simp: slash_ids_inv_def reset_liveness_counter_def submit_double_sign_evidence_def start_unbonding_def
  process_unbonding_queue_def slash_unbonding_stake_def Let_def)

interpretation slashing: invariant_system "\<lambda>s. s = SlashingService_new" slashing_step slash_ids_inv
proof unfold_locales
  show "s = SlashingService_new \<Longrightarrow> slash_ids_inv s" for s
    by (simp add: slash_ids_inv_def SlashingService_new_def ids_fit_def next_id_after_def List.map_filter_def)
qed (rule slashing_step_inv)

text \<open>
  C32: a node that restarts from its snapshot continues with the same events, unbonding
  entries, counters and next slash identifier, whatever operations and merges came before,
  and its next identifier is none of those in use. All double-sign evidence is gone, what was
  processed as well as what was pending: the snapshot does not hold it. (So evidence a validator
  was slashed for can be submitted again after a restart. The counter has room, and the events
  of a snapshot merged in have distinct identifiers below the largest number.)
\<close>
theorem slashing_restart_roundtrip:
  assumes "slashing_step\<^sup>*\<^sup>* SlashingService_new s" "iteration_order iter"
  shows "slashing_from_json (slashing_to_json iter s) =
      s\<lparr>sl_double_sign_evidence := [], sl_liveness_failures := iter (sl_liveness_failures s)\<rparr>
    \<and> hm_get (iter (sl_liveness_failures s)) = hm_get (sl_liveness_failures s)
    \<and> distinct (map se_id (sl_slash_events s))
    \<and> slash_id (sl_next_slash_id s) \<notin> se_id ` set (sl_slash_events s)"
proof -
  have i: "slash_ids_inv s" using slashing.run_inv [OF refl assms(1)] .
  then show ?thesis
    using restart_eq [OF i assms(2)] hm_get_iter [OF assms(2)] slash_id_fresh
    by (auto simp: slash_ids_inv_def)
qed

theorem slashing_restart_roundtrip_witness:
  "let s = fst (slash 10 ''alice'' 500 DoubleSign 7 None sample_evidence); t = slashing_from_json (slashing_to_json rev s)
   in sl_double_sign_evidence s \<noteq> [] \<and> sl_double_sign_evidence t = [] \<and> map se_validator (sl_slash_events t) = [''alice'']
     \<and> sl_next_slash_id t = sl_next_slash_id SlashingService_new + 1 \<and> slash_id (sl_next_slash_id t) \<notin> se_id ` set (sl_slash_events t)"
proof -
  let ?s = "fst (slash 10 ''alice'' 500 DoubleSign 7 None sample_evidence)"
  have "slashing_step\<^sup>*\<^sup>* SlashingService_new sample_evidence"
    unfolding sample_evidence_def by (intro r_into_rtranclp do_submit)
  moreover have "slashing_step sample_evidence ?s"
    by (rule do_slash) (simp add: id_room_def sample_evidence_def submit_double_sign_evidence_def SlashingService_new_def Let_def)
  ultimately have "slashing_step\<^sup>*\<^sup>* SlashingService_new ?s" by (rule rtranclp.rtrancl_into_rtrancl)
  note restart = slashing_restart_roundtrip [OF this iteration_order_rev]
  have "sl_double_sign_evidence ?s \<noteq> []" "map se_validator (sl_slash_events ?s) = [''alice'']" "sl_next_slash_id ?s = sl_next_slash_id SlashingService_new + 1"
    by (simp_all add: sample_evidence_def submit_double_sign_evidence_def slash_def SlashingService_new_def Let_def)
  with restart show ?thesis unfolding Let_def by simp
qed

text \<open>
  Identifiers are counters of each node, so two nodes that slash different validators
  give their events the same identifier, and merging the snapshot of one into the other drops
  the peer's event.
\<close>
theorem merge_drops_event:
  "let a = fst (slash 10 ''alice'' 500 DoubleSign 7 None SlashingService_new);
       b = fst (slash 10 ''bob'' 900 DoubleSign 7 None SlashingService_new)
   in get_validator_slash_history ''bob'' b \<noteq> []
     \<and> get_validator_slash_history ''bob'' (fst (slashing_merge_from (\<lambda>xs. xs) (slashing_to_json (\<lambda>xs. xs) b) a)) = []"
  by (simp add: Let_def slash_def SlashingService_new_def get_validator_slash_history_def slashing_merge_from_def
      merge_events_eq new_events_def slashing_to_json_def merge_unbonding_def merge_liveness_def case_prod_beta)

section \<open>Unbonding\<close>

definition entry_timed :: "UnbondingEntry \<Rightarrow> bool" where
  "entry_timed e \<longleftrightarrow> ub_slashable e \<and> unat (ub_started_at e) + unat UNBONDING_PERIOD_MS < 2 ^ 64
     \<and> ub_available_at e = ub_started_at e + UNBONDING_PERIOD_MS"

text \<open>The operations that touch the unbonding queue, at clock values that do not overflow.\<close>

inductive unbonding_step :: "SlashingService \<Rightarrow> SlashingService \<Rightarrow> bool" where
  unbond: "unat now + unat UNBONDING_PERIOD_MS < 2 ^ 64 \<Longrightarrow> unbonding_step s (fst (start_unbonding now v amount s))"
| release: "unbonding_step s (fst (process_unbonding_queue now s))"
| slash_queue: "unbonding_step s (fst (slash_unbonding_stake v percent s))"
| merge_queue: "list_all entry_timed (ss_unbonding_queue snapshot) \<Longrightarrow>
    unbonding_step s (fst (slashing_merge_from iter snapshot s))"
| other: "sl_unbonding_queue t = sl_unbonding_queue s \<Longrightarrow> unbonding_step s t"

lemma merge_queue:
  "sl_unbonding_queue (fst (slashing_merge_from iter snapshot s)) =
     sl_unbonding_queue (fst (merge_unbonding (ss_unbonding_queue snapshot) s))"
  by (simp add: slashing_merge_from_def merge_events_eq merge_unbonding_def merge_liveness_def Let_def case_prod_beta)

lemma slash_entry_timed: "entry_timed e \<Longrightarrow> entry_timed (fst (slash_entry v percent e))"
  by (auto simp: slash_entry_def entry_timed_def Let_def)

lemma unbonding_step_timed:
  "list_all entry_timed (sl_unbonding_queue s) \<Longrightarrow> unbonding_step s t \<Longrightarrow> list_all entry_timed (sl_unbonding_queue t)"
  by (erule unbonding_step.cases)
    (auto simp: list_all_iff start_unbonding_def process_unbonding_queue_def slash_unbonding_stake_def Let_def
      merge_queue merge_unbonding_def slash_entry_timed, auto simp: entry_timed_def)

interpretation unbonding: invariant_system "\<lambda>s. sl_unbonding_queue s = []" unbonding_step
  "\<lambda>s. list_all entry_timed (sl_unbonding_queue s)"
  by unfold_locales (simp_all add: unbonding_step_timed)

text \<open>
  Unbonding respects its period: in every run, what
  \<open>process_unbonding_queue\<close> releases started at least \<open>UNBONDING_PERIOD_MS\<close> ago, nothing due stays behind, and
  no entry is lost or duplicated between the released and the kept ones.
\<close>
theorem unbonding_period_served:
  assumes "sl_unbonding_queue s0 = []" "unbonding_step\<^sup>*\<^sup>* s0 s" "process_unbonding_queue now s = (t, ready)"
  shows "(\<forall>e \<in> set ready. unat (ub_started_at e) + 14 * 24 * 60 * 60 * 1000 \<le> unat now)
    \<and> (\<forall>e \<in> set (sl_unbonding_queue t). unat now < unat (ub_started_at e) + 14 * 24 * 60 * 60 * 1000)
    \<and> mset ready + mset (sl_unbonding_queue t) = mset (sl_unbonding_queue s)"
proof -
  have i: "\<forall>e \<in> set (sl_unbonding_queue s). entry_timed e"
    using unbonding.run_inv [OF assms(1,2)] by (simp add: list_all_iff)
  have p: "unat UNBONDING_PERIOD_MS = 14 * 24 * 60 * 60 * 1000" by (simp add: UNBONDING_PERIOD_MS_def)
  have e: "unbonding_ready now e \<longleftrightarrow> unat (ub_started_at e) + 14 * 24 * 60 * 60 * 1000 \<le> unat now"
    if "entry_timed e" for e
    using that p by (auto simp: unbonding_ready_def entry_timed_def word_le_nat_alt unat_add_no_overflow)
  have t: "ready = filter (unbonding_ready now) (sl_unbonding_queue s)"
    "sl_unbonding_queue t = filter (Not \<circ> unbonding_ready now) (sl_unbonding_queue s)"
    using assms(3) by (auto simp: process_unbonding_queue_def Let_def)
  then have "\<forall>e \<in> set ready. unbonding_ready now e" "\<forall>e \<in> set (sl_unbonding_queue t). \<not> unbonding_ready now e"
    "set ready \<subseteq> set (sl_unbonding_queue s)" "set (sl_unbonding_queue t) \<subseteq> set (sl_unbonding_queue s)" by auto
  with e i have "(\<forall>e \<in> set ready. unat (ub_started_at e) + 14 * 24 * 60 * 60 * 1000 \<le> unat now)"
    "\<forall>e \<in> set (sl_unbonding_queue t). \<not> unat (ub_started_at e) + 14 * 24 * 60 * 60 * 1000 \<le> unat now" by blast+
  moreover have "mset ready + mset (sl_unbonding_queue t) = mset (sl_unbonding_queue s)"
    unfolding t by (simp add: comp_def flip: multiset_partition)
  ultimately show ?thesis by (simp add: not_le)
qed

theorem unbonding_period_served_witness:
  "fst (process_unbonding_queue 5 (fst (start_unbonding 5 ''v'' 100 SlashingService_new))) \<noteq> SlashingService_new
   \<and> snd (process_unbonding_queue 5 (fst (start_unbonding 5 ''v'' 100 SlashingService_new))) = []"
proof -
  let ?s = "fst (start_unbonding 5 ''v'' 100 SlashingService_new)"
  have "unbonding_step\<^sup>*\<^sup>* SlashingService_new ?s"
    by (intro r_into_rtranclp unbond) (simp add: UNBONDING_PERIOD_MS_def)
  moreover have q: "sl_unbonding_queue SlashingService_new = []" by (simp add: SlashingService_new_def)
  moreover obtain t ready where p: "process_unbonding_queue 5 ?s = (t, ready)" by fastforce
  ultimately have r: "\<forall>e \<in> set ready. unat (ub_started_at e) + 14 * 24 * 60 * 60 * 1000 \<le> unat (5 :: u64)"
    "mset ready + mset (sl_unbonding_queue t) = mset (sl_unbonding_queue ?s)"
    using unbonding_period_served by blast+
  then have "ready = []" by (cases ready) auto
  moreover from this r(2) have "sl_unbonding_queue t \<noteq> []"
    by (auto simp: start_unbonding_def SlashingService_new_def Let_def)
  ultimately show ?thesis using p q by auto
qed

lemma slash_entry_conserves:
  "unat (ub_amount (fst (slash_entry v (SlashReason_percent r) e))) + unat (snd (slash_entry v (SlashReason_percent r) e))
     = unat (ub_amount e)"
  using slash_share_le [of "ub_amount e" r] by (simp add: slash_entry_def Let_def unat_saturating_sub)

text \<open>
  Slashing stake that is unbonding moves it, entry by entry, from the queue to the
  slashed total: what is left in the queue and what was slashed add up to what was there,
  and the entries of other validators are untouched.
\<close>
theorem unbonding_slash_conserves:
  assumes "sum_list (map (unat \<circ> ub_amount) (sl_unbonding_queue s)) < 2 ^ 64"
    and "slash_unbonding_stake v (SlashReason_percent r) s = (t, slashed)"
  shows "sum_list (map (unat \<circ> ub_amount) (sl_unbonding_queue t)) + unat slashed
      = sum_list (map (unat \<circ> ub_amount) (sl_unbonding_queue s))
    \<and> sl_total_slashed t = sl_total_slashed s + slashed
    \<and> (v' \<noteq> v \<longrightarrow> get_unbonding_for_validator v' t =
         filter (\<lambda>e. ub_amount e > 0) (get_unbonding_for_validator v' s))"
proof -
  let ?f = "slash_entry v (SlashReason_percent r)" and ?q = "sl_unbonding_queue s"
  have drop_zero: "sum_list (map (unat \<circ> ub_amount) (filter (\<lambda>e. ub_amount e > 0) es)) = sum_list (map (unat \<circ> ub_amount) es)"
    for es by (induction es) (auto simp: word_less_nat_alt)
  have sums: "sum_list (map (unat \<circ> ub_amount) (map (fst \<circ> ?f) es)) + sum_list (map unat (map (snd \<circ> ?f) es))
      = sum_list (map (unat \<circ> ub_amount) es)" for es
  proof (induction es)
    case (Cons e es)
    then show ?case using slash_entry_conserves [of v r e] by simp
  qed simp
  have t: "sl_unbonding_queue t = filter (\<lambda>e. ub_amount e > 0) (map (fst \<circ> ?f) ?q)" "slashed = wsum (map (snd \<circ> ?f) ?q)"
    "sl_total_slashed t = sl_total_slashed s + slashed"
    using assms(2) by (auto simp: slash_unbonding_stake_def Let_def)
  have "sum_list (map unat (map (snd \<circ> ?f) ?q)) < 2 ^ 64" using sums [of ?q] assms(1) by linarith
  then have "unat slashed = sum_list (map unat (map (snd \<circ> ?f) ?q))" unfolding t(2) by (intro unat_wsum) simp
  then have total: "sum_list (map (unat \<circ> ub_amount) (sl_unbonding_queue t)) + unat slashed
      = sum_list (map (unat \<circ> ub_amount) ?q)"
    unfolding t(1) drop_zero using sums [of ?q] by simp
  have "get_unbonding_for_validator v' t = filter (\<lambda>e. ub_amount e > 0) (get_unbonding_for_validator v' s)" if "v' \<noteq> v"
  proof -
    have "filter (\<lambda>e. ub_validator e = v') (filter (\<lambda>e. ub_amount e > 0) (map (fst \<circ> ?f) es)) =
        filter (\<lambda>e. ub_amount e > 0) (filter (\<lambda>e. ub_validator e = v') es)" for es
      using that by (induction es) (auto simp: slash_entry_def Let_def)
    then show ?thesis by (simp add: get_unbonding_for_validator_def t(1))
  qed
  with total t(3) show ?thesis by blast
qed

theorem unbonding_slash_conserves_witness:
  "let (t, slashed) = slash_unbonding_stake ''v'' (SlashReason_percent DoubleSign) (fst (start_unbonding 5 ''v'' 100 SlashingService_new))
   in sum_list (map (unat \<circ> ub_amount) (sl_unbonding_queue t)) + unat slashed = 100"
  using unbonding_slash_conserves [of "fst (start_unbonding 5 ''v'' 100 SlashingService_new)" "''v''" DoubleSign]
  by (simp add: start_unbonding_def SlashingService_new_def Let_def split: prod.split)

end
