(* ===== verification/Rinku_Fast_Path.thy ===== *)
theory Rinku_Fast_Path
  imports Rinku_Types Rinku_Crypto Rinku_Text Rinku_Machine
begin

text \<open>
  \<open>rinku-node/src/fast_path.rs\<close>: confirmation of transactions by acknowledgements of
  validators holding a quorum of the stake. BLS signatures (\<open>blst\<close>, through
  \<open>bls.rs\<close>) and base64 (crate \<open>base64\<close>) are the fields of \<open>ack_env\<close>. The
  service state sits behind one lock; each definition below is one critical section, and
  \<open>add_ack_checked\<close>, which releases the lock between confirming a transaction and
  moving it to the confirmed ones, is two. The clock is the argument \<open>now_ms\<close>; log
  messages are left out.
\<close>

section \<open>Acknowledgement signatures\<close>

record ack_env =
  ae_crypto :: crypto_env
  ae_bls_sign :: "bytes \<Rightarrow> bytes \<Rightarrow> string + bytes"
  ae_bls_verify :: "bytes \<Rightarrow> bytes \<Rightarrow> bytes \<Rightarrow> bool"
  ae_url_encode :: "bytes \<Rightarrow> string"
  ae_url_decode :: "string \<Rightarrow> bytes option"
  ae_std_decode :: "string \<Rightarrow> bytes option"

definition ack_message_bytes :: "ack_env \<Rightarrow> string \<Rightarrow> bytes option" where
  "ack_message_bytes env tx_hash =
     (case hex_decode (ae_crypto env) tx_hash of
        None \<Rightarrow> None
      | Some bytes \<Rightarrow> if bytes = [] then None else Some bytes)"

definition sign_fast_path_ack :: "ack_env \<Rightarrow> string \<Rightarrow> bytes \<Rightarrow> string option" where
  "sign_fast_path_ack env tx_hash bls_private_key =
     (case ack_message_bytes env tx_hash of
        None \<Rightarrow> None
      | Some msg \<Rightarrow>
          (case ae_bls_sign env msg bls_private_key of
             Inl _ \<Rightarrow> None
           | Inr sig \<Rightarrow> Some (ae_url_encode env sig)))"

definition decode_base64 :: "ack_env \<Rightarrow> string \<Rightarrow> bytes option" where
  "decode_base64 env s = (case ae_url_decode env s of Some b \<Rightarrow> Some b | None \<Rightarrow> ae_std_decode env s)"

definition verify_fast_path_ack :: "ack_env \<Rightarrow> string \<Rightarrow> string \<Rightarrow> bytes \<Rightarrow> bool" where
  "verify_fast_path_ack env tx_hash bls_signature_b64 bls_public_key =
     (case ack_message_bytes env tx_hash of
        None \<Rightarrow> False
      | Some msg \<Rightarrow>
          (case decode_base64 env bls_signature_b64 of
             None \<Rightarrow> False
           | Some sig \<Rightarrow>
               if bls_public_key = [] \<or> sig = [] then False
               else ae_bls_verify env msg sig bls_public_key))"

text \<open>\<open>str::trim\<close>: the UTF-8 encodings of the characters with the Unicode property \<open>White_Space\<close>.\<close>

definition white_space :: "string list" where
  "white_space = map (map char_of)
     ([[9], [10], [11], [12], [13], [32], [194, 133], [194, 160], [225, 154, 128]]
      @ map (\<lambda>k. [226, 128, 128 + k]) [0 ..< 11]
      @ [[226, 128, 168], [226, 128, 169], [226, 128, 175], [226, 129, 159], [227, 128, 128 :: nat]])"

function trim_start :: "string \<Rightarrow> string" where
  "trim_start s =
     (case find (\<lambda>w. take (length w) s = w) white_space of
        Some w \<Rightarrow> if w = [] then s else trim_start (drop (length w) s)
      | None \<Rightarrow> s)"
  by pat_completeness auto
termination
proof (relation "measure length", simp)
  fix s w assume f: "find (\<lambda>w. take (length w) s = w) white_space = Some w" and w: "w \<noteq> []"
  from f have "take (length w) s = w" by (auto simp: find_Some_iff)
  with w show "(drop (length w) s, s) \<in> measure length" by (cases s) auto
qed

definition trim_end :: "string \<Rightarrow> string" where
  "trim_end s = (let ws = map rev white_space in
     rev (fold (\<lambda>_ t. case find (\<lambda>w. take (length w) t = w) ws of
       Some w \<Rightarrow> drop (length w) t | None \<Rightarrow> t) s (rev s)))"

definition trim :: "string \<Rightarrow> string" where
  "trim s = trim_end (trim_start s)"

definition is_ascii_hexdigit :: "char \<Rightarrow> bool" where
  "is_ascii_hexdigit c \<longleftrightarrow> c \<in> set ''0123456789abcdefABCDEF''"

definition decode_bls_public_key :: "ack_env \<Rightarrow> string \<Rightarrow> bytes option" where
  "decode_bls_public_key env pk_encoded =
     (let trimmed = trim pk_encoded
      in if trimmed = [] then None
         else let looks_like_hex = length trimmed \<ge> 2 \<and> length trimmed mod 2 = 0 \<and> list_all is_ascii_hexdigit trimmed;
                  by_base64 = (case decode_base64 env trimmed of
                    Some b \<Rightarrow> if b = [] then None else Some b | None \<Rightarrow> None)
              in if looks_like_hex
                 then (case hex_decode (ae_crypto env) trimmed of
                         Some bytes \<Rightarrow> if bytes \<noteq> [] then Some bytes else by_base64
                       | None \<Rightarrow> by_base64)
                 else by_base64)"

text \<open>\<open>filter(|s| !s.is_empty())\<close> on an optional string.\<close>

definition non_empty :: "string option \<Rightarrow> string option" where
  "non_empty x = (case x of Some s \<Rightarrow> if s = [] then None else Some s | None \<Rightarrow> None)"

definition require_valid_ack_bls :: "ack_env \<Rightarrow> string \<Rightarrow> string option \<Rightarrow> string option \<Rightarrow> string + unit" where
  "require_valid_ack_bls env tx_hash bls_signature bls_public_key_encoded =
     (case non_empty bls_signature of
        None \<Rightarrow> Inl ''missing BLS signature''
      | Some sig \<Rightarrow>
          (case non_empty bls_public_key_encoded of
             None \<Rightarrow> Inl ''validator has no BLS public key''
           | Some pk_enc \<Rightarrow>
               (case decode_bls_public_key env pk_enc of
                  None \<Rightarrow> Inl ''invalid BLS public key encoding''
                | Some pk \<Rightarrow>
                    if verify_fast_path_ack env tx_hash sig pk then Inr ()
                    else Inl ''invalid BLS signature'')))"

section \<open>The service\<close>

record FastPathConfig =
  fc_enabled :: bool
  fc_quorum_threshold :: f64
  fc_timeout_ms :: u64

definition FastPathConfig_default :: FastPathConfig where
  "FastPathConfig_default = \<lparr>fc_enabled = True, fc_quorum_threshold = rnd (667 / 1000), fc_timeout_ms = 5000\<rparr>"

record FastPathService =
  fp_pending_txs :: "(string, FastPathFinality) hash_map"
  fp_confirmed_txs :: "(string, FastPathFinality) hash_map"
  fp_total_validator_stake :: u64
  fp_config :: FastPathConfig

record FastPathStats =
  fst_enabled :: bool
  fst_pending_count :: nat
  fst_confirmed_count :: nat
  fst_total_validator_stake :: u64
  fst_quorum_threshold :: f64
  fst_avg_confirmation_ms :: "u64 option"

record FastPathBroadcast =
  fb_tx :: SignedTransaction
  fb_sender_validator :: string
  fb_sender_stake :: u64
  fb_timestamp_ms :: u64

record FastPathAckMessage =
  fam_tx_hash :: string
  fam_validator_address :: string
  fam_validator_stake :: u64
  fam_bls_signature :: "string option"
  fam_timestamp_ms :: u64

definition FastPathAck_from :: "FastPathAckMessage \<Rightarrow> FastPathAck" where
  "FastPathAck_from msg =
     \<lparr>ack_tx_hash = fam_tx_hash msg, ack_validator_address = fam_validator_address msg,
      ack_validator_stake = fam_validator_stake msg, ack_bls_signature = fam_bls_signature msg,
      ack_timestamp_ms = fam_timestamp_ms msg\<rparr>"

definition FastPathService_new :: "FastPathConfig \<Rightarrow> FastPathService" where
  "FastPathService_new config =
     \<lparr>fp_pending_txs = [], fp_confirmed_txs = [], fp_total_validator_stake = 0, fp_config = config\<rparr>"

definition update_total_stake :: "u64 \<Rightarrow> FastPathService \<Rightarrow> FastPathService" where
  "update_total_stake total_stake s = s\<lparr>fp_total_validator_stake := total_stake\<rparr>"

definition fp_get_status :: "FastPathService \<Rightarrow> string \<Rightarrow> FastPathFinality option" where
  "fp_get_status s tx_hash =
     (case hm_get (fp_pending_txs s) tx_hash of
        Some f \<Rightarrow> Some f
      | None \<Rightarrow> hm_get (fp_confirmed_txs s) tx_hash)"

definition register_fast_path_tx ::
  "u64 \<Rightarrow> SignedTransaction \<Rightarrow> FastPathService \<Rightarrow> FastPathService \<times> FastPathFinality option" where
  "register_fast_path_tx now_ms tx s =
     (if \<not> is_fast_path_eligible tx then (s, None)
      else if hm_contains (fp_pending_txs s) (st_hash tx) \<or> hm_contains (fp_confirmed_txs s) (st_hash tx)
      then (s, fp_get_status s (st_hash tx))
      else let quorum_required = to_u64 (f64_mul (f64_of_u64 (fp_total_validator_stake s))
                 (fc_quorum_threshold (fp_config s)));
               finality = \<lparr>fin_tx_hash = st_hash tx, fin_status = Pending, fin_acks = [],
                 fin_total_stake_acked = 0, fin_quorum_stake_required = quorum_required,
                 fin_registered_at_ms = now_ms, fin_confirmed_at_ms = None,
                 fin_checkpoint_height = None, fin_tx_created_at_ms = Some (tx_timestamp (st_tx tx))\<rparr>
           in (s\<lparr>fp_pending_txs := hm_insert (st_hash tx) finality (fp_pending_txs s)\<rparr>, Some finality))"

text \<open>
  The first critical section of \<open>add_ack_checked\<close>. The third component is the hash to
  move when the transaction was confirmed, the work of the second section.
\<close>

definition record_ack ::
  "u64 \<Rightarrow> FastPathAck \<Rightarrow> FastPathService \<Rightarrow> FastPathService \<times> FastPathFinality option \<times> string option" where
  "record_ack now_ms ack s =
     (case hm_get (fp_pending_txs s) (ack_tx_hash ack) of
        Some finality \<Rightarrow>
          if list_ex (\<lambda>a. ack_validator_address a = ack_validator_address ack) (fin_acks finality)
          then (s, Some finality, None)
          else let finality = finality\<lparr>fin_total_stake_acked := fin_total_stake_acked finality + ack_validator_stake ack,
                     fin_acks := fin_acks finality @ [ack]\<rparr>;
                   confirm = fin_total_stake_acked finality \<ge> fin_quorum_stake_required finality
                     \<and> fin_status finality = Pending;
                   finality = (if confirm
                     then finality\<lparr>fin_status := Confirmed, fin_confirmed_at_ms := Some now_ms\<rparr>
                     else finality)
               in (s\<lparr>fp_pending_txs := hm_insert (ack_tx_hash ack) finality (fp_pending_txs s)\<rparr>,
                   Some finality, if confirm then Some (ack_tx_hash ack) else None)
      | None \<Rightarrow> (s, hm_get (fp_confirmed_txs s) (ack_tx_hash ack), None))"

text \<open>The second critical section: move the entry if it is still there.\<close>

definition move_confirmed :: "string \<Rightarrow> FastPathService \<Rightarrow> FastPathService" where
  "move_confirmed tx_hash s =
     (case hm_get (fp_pending_txs s) tx_hash of
        Some f \<Rightarrow> s\<lparr>fp_pending_txs := hm_remove tx_hash (fp_pending_txs s),
                     fp_confirmed_txs := hm_insert tx_hash f (fp_confirmed_txs s)\<rparr>
      | None \<Rightarrow> s)"

text \<open>\<open>add_ack_checked\<close> when no other task runs between its two sections.\<close>

definition ack_accepted :: "ack_env \<Rightarrow> FastPathAck \<Rightarrow> string option \<Rightarrow> bool" where
  "ack_accepted env ack bls_public_key_b64 \<longleftrightarrow>
     (case bls_public_key_b64 of
        Some pk \<Rightarrow> require_valid_ack_bls env (ack_tx_hash ack) (ack_bls_signature ack) (Some pk) = Inr ()
      | None \<Rightarrow> True)"

definition add_ack_checked ::
  "ack_env \<Rightarrow> u64 \<Rightarrow> FastPathAck \<Rightarrow> string option \<Rightarrow> FastPathService \<Rightarrow> FastPathService \<times> FastPathFinality option" where
  "add_ack_checked env now_ms ack bls_public_key_b64 s =
     (if \<not> ack_accepted env ack bls_public_key_b64 then (s, None)
      else let (s, r, mv) = record_ack now_ms ack s
           in (case mv of Some tx_hash \<Rightarrow> move_confirmed tx_hash s | None \<Rightarrow> s, r))"

definition add_ack :: "ack_env \<Rightarrow> u64 \<Rightarrow> FastPathAck \<Rightarrow> FastPathService \<Rightarrow> FastPathService \<times> FastPathFinality option" where
  "add_ack env now_ms ack s = add_ack_checked env now_ms ack None s"

definition fp_mark_finalized :: "string \<Rightarrow> u64 \<Rightarrow> FastPathService \<Rightarrow> FastPathService" where
  "fp_mark_finalized tx_hash checkpoint_height s =
     s\<lparr>fp_confirmed_txs := hm_modify tx_hash
          (\<lambda>f. f\<lparr>fin_status := Finalized, fin_checkpoint_height := Some checkpoint_height\<rparr>) (fp_confirmed_txs s),
       fp_pending_txs := hm_remove tx_hash (fp_pending_txs s)\<rparr>"

definition is_confirmed :: "FastPathService \<Rightarrow> string \<Rightarrow> bool" where
  "is_confirmed s tx_hash \<longleftrightarrow> hm_contains (fp_confirmed_txs s) tx_hash"

definition confirmed_expired :: "u64 \<Rightarrow> u64 \<Rightarrow> FastPathFinality \<Rightarrow> bool" where
  "confirmed_expired now_ms max_age_ms f =
     (case fin_confirmed_at_ms f of
        Some confirmed_at \<Rightarrow> saturating_sub now_ms confirmed_at > max_age_ms
      | None \<Rightarrow> False)"

definition cleanup_old_confirmed :: "u64 \<Rightarrow> u64 \<Rightarrow> FastPathService \<Rightarrow> FastPathService" where
  "cleanup_old_confirmed now_ms max_age_ms s =
     s\<lparr>fp_confirmed_txs := hm_retain (\<lambda>_ f. \<not> confirmed_expired now_ms max_age_ms f) (fp_confirmed_txs s)\<rparr>"

definition pending_timed_out :: "u64 \<Rightarrow> u64 \<Rightarrow> FastPathFinality \<Rightarrow> bool" where
  "pending_timed_out now_ms timeout_ms f =
     (case fin_acks f of
        first_ack # _ \<Rightarrow> saturating_sub now_ms (ack_timestamp_ms first_ack) > timeout_ms
      | [] \<Rightarrow> False)"

definition cleanup_timed_out_pending :: "u64 \<Rightarrow> FastPathService \<Rightarrow> FastPathService" where
  "cleanup_timed_out_pending now_ms s =
     s\<lparr>fp_pending_txs := hm_retain (\<lambda>_ f. \<not> pending_timed_out now_ms (fc_timeout_ms (fp_config s)) f) (fp_pending_txs s)\<rparr>"

definition fast_path_get_stats :: "FastPathService \<Rightarrow> FastPathStats" where
  "fast_path_get_stats s =
     (let times = List.map_filter finality_time_ms (hm_values (fp_confirmed_txs s));
          avg_confirmation_ms = (if length times > 0 then Some (wsum times div of_nat (length times)) else None)
      in \<lparr>fst_enabled = fc_enabled (fp_config s), fst_pending_count = length (fp_pending_txs s),
          fst_confirmed_count = length (fp_confirmed_txs s),
          fst_total_validator_stake = fp_total_validator_stake s,
          fst_quorum_threshold = fc_quorum_threshold (fp_config s),
          fst_avg_confirmation_ms = avg_confirmation_ms\<rparr>)"

section \<open>Interleavings\<close>

text \<open>
  A configuration is the state with the hashes whose move is outstanding: tasks between
  the two sections of \<open>add_ack_checked\<close>. \<open>fp_step\<close> interleaves all critical
  sections freely; the last flag says whether the step drops a pending entry whose move
  is outstanding.
\<close>

type_synonym fp_cfg = "FastPathService \<times> string list"

inductive fp_step :: "bool \<Rightarrow> fp_cfg \<Rightarrow> fp_cfg \<Rightarrow> bool" for race where
  fp_stake: "fp_step race (s, mv) (update_total_stake n s, mv)"
| fp_register: "fp_step race (s, mv) (fst (register_fast_path_tx now tx s), mv)"
| fp_ack: "ack_accepted env ack pk \<Longrightarrow> record_ack now ack s = (t, r, m) \<Longrightarrow>
    fp_step race (s, mv) (t, (case m of Some h \<Rightarrow> h # mv | None \<Rightarrow> mv))"
| fp_move: "h \<in> set mv \<Longrightarrow> fp_step race (s, mv) (move_confirmed h s, remove1 h mv)"
| fp_finalize: "race \<or> h \<notin> set mv \<Longrightarrow> fp_step race (s, mv) (fp_mark_finalized h height s, mv)"
| fp_clean_confirmed: "fp_step race (s, mv) (cleanup_old_confirmed now age s, mv)"
| fp_clean_pending:
    "race \<or> (\<forall>h \<in> set mv. hm_get (fp_pending_txs (cleanup_timed_out_pending now s)) h = hm_get (fp_pending_txs s) h) \<Longrightarrow>
     fp_step race (s, mv) (cleanup_timed_out_pending now s, mv)"

text \<open>What an entry records: acknowledgements of different validators, their stake summed up.\<close>

definition acks_ok :: "string \<Rightarrow> FastPathFinality \<Rightarrow> bool" where
  "acks_ok h f \<longleftrightarrow> fin_tx_hash f = h \<and> distinct (map ack_validator_address (fin_acks f))
     \<and> (\<forall>a \<in> set (fin_acks f). ack_tx_hash a = h)
     \<and> fin_total_stake_acked f = wsum (map ack_validator_stake (fin_acks f))"

text \<open>
  The stake can only fall below the quorum again by wrapping: a confirmed entry keeps the
  acknowledgements that reached the quorum as a prefix.
\<close>

definition has_quorum :: "FastPathFinality \<Rightarrow> bool" where
  "has_quorum f \<longleftrightarrow> (\<exists>k \<le> length (fin_acks f).
     fin_quorum_stake_required f \<le> wsum (map ack_validator_stake (take k (fin_acks f))))"

definition fp_inv :: "fp_cfg \<Rightarrow> bool" where
  "fp_inv = (\<lambda>(s, mv). hm_wf (fp_pending_txs s) \<and> hm_wf (fp_confirmed_txs s) \<and> distinct mv
     \<and> (\<forall>h f. hm_get (fp_pending_txs s) h = Some f \<longrightarrow> acks_ok h f
          \<and> (fin_status f = Pending \<and> h \<notin> set mv \<or> fin_status f = Confirmed \<and> has_quorum f \<and> h \<in> set mv)
          \<and> hm_get (fp_confirmed_txs s) h = None)
     \<and> (\<forall>h \<in> set mv. \<exists>f. hm_get (fp_pending_txs s) h = Some f)
     \<and> (\<forall>h f. hm_get (fp_confirmed_txs s) h = Some f \<longrightarrow>
          acks_ok h f \<and> fin_status f \<in> {Confirmed, Finalized} \<and> has_quorum f))"

lemma has_quorum_push:
  assumes "has_quorum f"
  shows "has_quorum (f\<lparr>fin_total_stake_acked := n, fin_acks := fin_acks f @ [a]\<rparr>)"
proof -
  let ?g = "f\<lparr>fin_total_stake_acked := n, fin_acks := fin_acks f @ [a]\<rparr>"
  have g: "fin_acks ?g = fin_acks f @ [a]" "fin_quorum_stake_required ?g = fin_quorum_stake_required f" by simp_all
  from assms obtain k where k: "k \<le> length (fin_acks f)"
    "fin_quorum_stake_required f \<le> wsum (map ack_validator_stake (take k (fin_acks f)))"
    unfolding has_quorum_def by blast
  then have "take k (fin_acks f @ [a]) = take k (fin_acks f)" "k \<le> length (fin_acks f @ [a])" by simp_all
  with k(2) show ?thesis unfolding has_quorum_def g by metis
qed

lemma acks_ok_push:
  assumes "acks_ok h f" "ack_tx_hash a = h"
    "\<not> list_ex (\<lambda>b. ack_validator_address b = ack_validator_address a) (fin_acks f)"
  shows "acks_ok h (f\<lparr>fin_total_stake_acked := fin_total_stake_acked f + ack_validator_stake a, fin_acks := fin_acks f @ [a]\<rparr>)"
proof -
  let ?g = "f\<lparr>fin_total_stake_acked := fin_total_stake_acked f + ack_validator_stake a, fin_acks := fin_acks f @ [a]\<rparr>"
  have g: "fin_acks ?g = fin_acks f @ [a]" "fin_tx_hash ?g = fin_tx_hash f"
    "fin_total_stake_acked ?g = fin_total_stake_acked f + ack_validator_stake a" by simp_all
  have "distinct (map ack_validator_address (fin_acks f @ [a]))"
    using assms(1,3) unfolding acks_ok_def list_ex_iff by force
  with assms(1,2) show ?thesis unfolding acks_ok_def g by (simp add: add.commute)
qed

lemma fp_inv_insert:
  assumes "fp_inv (s, mv)" "acks_ok h g" "hm_get (fp_confirmed_txs s) h = None" "distinct mv'"
    "set mv' - {h} = set mv - {h}"
    "fin_status g = Pending \<and> h \<notin> set mv' \<or> fin_status g = Confirmed \<and> has_quorum g \<and> h \<in> set mv'"
  shows "fp_inv (s\<lparr>fp_pending_txs := hm_insert h g (fp_pending_txs s)\<rparr>, mv')"
proof -
  have "k \<in> set mv' \<longleftrightarrow> k \<in> set mv" if "k \<noteq> h" for k using assms(5) that by blast
  with assms show ?thesis by (simp add: fp_inv_def) metis
qed

lemma fp_inv_register:
  assumes "fp_inv (s, mv)"
  shows "fp_inv (fst (register_fast_path_tx now tx s), mv)"
proof (cases "is_fast_path_eligible tx \<and> \<not> hm_contains (fp_pending_txs s) (st_hash tx) \<and> \<not> hm_contains (fp_confirmed_txs s) (st_hash tx)")
  case True
  then obtain f where f: "fst (register_fast_path_tx now tx s) = s\<lparr>fp_pending_txs := hm_insert (st_hash tx) f (fp_pending_txs s)\<rparr>"
    "fin_tx_hash f = st_hash tx" "fin_status f = Pending" "fin_acks f = []" "fin_total_stake_acked f = 0"
    by (simp add: register_fast_path_tx_def Let_def)
  have "hm_get (fp_pending_txs s) (st_hash tx) = None" "hm_get (fp_confirmed_txs s) (st_hash tx) = None"
    using True by (auto simp: hm_contains_def)
  moreover have "acks_ok (st_hash tx) f" using f by (simp add: acks_ok_def)
  moreover have "st_hash tx \<notin> set mv" "distinct mv" using assms calculation(1) by (fastforce simp: fp_inv_def)+
  ultimately show ?thesis unfolding f(1) using f(3) by (intro fp_inv_insert [OF assms]) auto
next
  case False
  then have "fst (register_fast_path_tx now tx s) = s" by (auto simp: register_fast_path_tx_def)
  then show ?thesis using assms by simp
qed

lemma fp_inv_ack:
  assumes "fp_inv (s, mv)" "record_ack now ack s = (t, r, m)"
  shows "fp_inv (t, (case m of Some h \<Rightarrow> h # mv | None \<Rightarrow> mv))"
proof (cases "hm_get (fp_pending_txs s) (ack_tx_hash ack)")
  case None
  then show ?thesis using assms by (auto simp: record_ack_def)
next
  case (Some f)
  let ?h = "ack_tx_hash ack"
  show ?thesis
  proof (cases "list_ex (\<lambda>a. ack_validator_address a = ack_validator_address ack) (fin_acks f)")
    case True
    then show ?thesis using assms Some by (auto simp: record_ack_def)
  next
    case False
    define g where "g = f\<lparr>fin_total_stake_acked := fin_total_stake_acked f + ack_validator_stake ack, fin_acks := fin_acks f @ [ack]\<rparr>"
    have i: "acks_ok ?h f" "fin_status f = Pending \<and> ?h \<notin> set mv \<or> fin_status f = Confirmed \<and> has_quorum f \<and> ?h \<in> set mv"
      "hm_get (fp_confirmed_txs s) ?h = None" using assms(1) Some by (auto simp: fp_inv_def)
    have g: "acks_ok ?h g" "fin_status g = fin_status f" "has_quorum f \<Longrightarrow> has_quorum g"
      unfolding g_def by (simp_all add: acks_ok_push [OF i(1) refl False] has_quorum_push)
    let ?c = "fin_quorum_stake_required g \<le> fin_total_stake_acked g \<and> fin_status g = Pending"
    let ?g = "if ?c then g\<lparr>fin_status := Confirmed, fin_confirmed_at_ms := Some now\<rparr> else g"
    have t: "t = s\<lparr>fp_pending_txs := hm_insert ?h ?g (fp_pending_txs s)\<rparr>" "m = (if ?c then Some ?h else None)"
      using assms(2) Some False unfolding record_ack_def g_def by (auto simp: Let_def)
    have ok: "acks_ok ?h ?g" using g(1) by (auto simp: acks_ok_def)
    have q: "has_quorum ?g" if ?c
    proof -
      have "fin_quorum_stake_required ?g \<le> wsum (map ack_validator_stake (take (length (fin_acks ?g)) (fin_acks ?g)))"
        using that g(1) by (simp add: acks_ok_def)
      then show ?thesis unfolding has_quorum_def by blast
    qed
    have d: "distinct mv" using assms(1) by (simp add: fp_inv_def)
    show ?thesis
      unfolding t(1)
    proof (rule fp_inv_insert [OF assms(1) ok i(3)])
      show "fin_status ?g = Pending \<and> ?h \<notin> set (case m of Some h \<Rightarrow> h # mv | None \<Rightarrow> mv)
          \<or> fin_status ?g = Confirmed \<and> has_quorum ?g \<and> ?h \<in> set (case m of Some h \<Rightarrow> h # mv | None \<Rightarrow> mv)"
        using q i(2) g(2,3) t(2) by (cases ?c) auto
    qed (use d i(2) g(2) t(2) in \<open>auto split: if_splits\<close>)
  qed
qed

lemma fp_inv_move:
  assumes "fp_inv (s, mv)" "h \<in> set mv"
  shows "fp_inv (move_confirmed h s, remove1 h mv)"
proof -
  from assms obtain f where f: "hm_get (fp_pending_txs s) h = Some f" by (auto simp: fp_inv_def)
  with assms have i: "acks_ok h f" "fin_status f = Confirmed" "has_quorum f" by (auto simp: fp_inv_def)
  have "set (remove1 h mv) = set mv - {h}" "distinct (remove1 h mv)" using assms(1) by (auto simp: fp_inv_def)
  then show ?thesis using assms f i by (simp add: fp_inv_def move_confirmed_def)
qed

lemma has_quorum_status: "has_quorum (f\<lparr>fin_status := x, fin_checkpoint_height := y\<rparr>) = has_quorum f"
  by (simp add: has_quorum_def)

lemma acks_ok_status: "acks_ok h (f\<lparr>fin_status := x, fin_checkpoint_height := y\<rparr>) = acks_ok h f"
  by (simp add: acks_ok_def)

lemma fp_inv_finalize:
  assumes "fp_inv (s, mv)" "h \<notin> set mv"
  shows "fp_inv (fp_mark_finalized h height s, mv)"
proof -
  have "acks_ok k g \<and> fin_status g \<in> {Confirmed, Finalized} \<and> has_quorum g"
    if "hm_get (hm_modify h (\<lambda>f. f\<lparr>fin_status := Finalized, fin_checkpoint_height := Some height\<rparr>) (fp_confirmed_txs s)) k = Some g"
    for k g
    using that assms(1)
    by (auto simp: hm_get_modify fp_inv_def has_quorum_status acks_ok_status split: if_splits)
  moreover have "hm_get (hm_modify h (\<lambda>f. f\<lparr>fin_status := Finalized, fin_checkpoint_height := Some height\<rparr>) (fp_confirmed_txs s)) k = None"
    if "hm_get (fp_confirmed_txs s) k = None" for k using that by (auto simp: hm_get_modify)
  ultimately show ?thesis using assms by (auto simp: fp_inv_def fp_mark_finalized_def)
qed

lemma hm_get_retain_Some: "hm_wf m \<Longrightarrow> hm_get (hm_retain P m) k = Some v \<longleftrightarrow> hm_get m k = Some v \<and> P k v"
  by (auto simp: hm_get_retain split: option.splits)

text \<open>Dropping entries keeps the invariant, as long as no outstanding move loses its entry.\<close>

lemma fp_inv_drop:
  assumes "fp_inv (s, mv)" "hm_wf p" "hm_wf c"
    "\<And>h f. hm_get p h = Some f \<Longrightarrow> hm_get (fp_pending_txs s) h = Some f"
    "\<And>h f. hm_get c h = Some f \<Longrightarrow> hm_get (fp_confirmed_txs s) h = Some f"
    "\<And>h. h \<in> set mv \<Longrightarrow> hm_get p h = hm_get (fp_pending_txs s) h"
  shows "fp_inv (s\<lparr>fp_pending_txs := p, fp_confirmed_txs := c\<rparr>, mv)"
proof -
  have n: "hm_get c h = None" if "hm_get (fp_confirmed_txs s) h = None" for h
    using assms(5) that by (cases "hm_get c h") auto
  have "\<forall>h f. hm_get p h = Some f \<longrightarrow> acks_ok h f
      \<and> (fin_status f = Pending \<and> h \<notin> set mv \<or> fin_status f = Confirmed \<and> has_quorum f \<and> h \<in> set mv)
      \<and> hm_get c h = None"
    "\<forall>h \<in> set mv. \<exists>f. hm_get p h = Some f"
    "\<forall>h f. hm_get c h = Some f \<longrightarrow> acks_ok h f \<and> fin_status f \<in> {Confirmed, Finalized} \<and> has_quorum f" "distinct mv"
    using assms(1,4,5,6) n unfolding fp_inv_def prod.case by metis+
  with assms(2,3) show ?thesis by (simp add: fp_inv_def)
qed

lemma fp_inv_wf: "fp_inv (s, mv) \<Longrightarrow> hm_wf (fp_pending_txs s)" "fp_inv (s, mv) \<Longrightarrow> hm_wf (fp_confirmed_txs s)"
  by (auto simp: fp_inv_def)

lemma fp_inv_clean_confirmed: "fp_inv (s, mv) \<Longrightarrow> fp_inv (cleanup_old_confirmed now age s, mv)"
  using fp_inv_drop [of s mv "fp_pending_txs s" "hm_retain (\<lambda>_ f. \<not> confirmed_expired now age f) (fp_confirmed_txs s)"]
  by (simp add: cleanup_old_confirmed_def fp_inv_wf hm_get_retain_Some)

lemma fp_inv_clean_pending:
  assumes "fp_inv (s, mv)" "\<forall>h \<in> set mv. hm_get (fp_pending_txs (cleanup_timed_out_pending now s)) h = hm_get (fp_pending_txs s) h"
  shows "fp_inv (cleanup_timed_out_pending now s, mv)"
  using fp_inv_drop [of s mv "fp_pending_txs (cleanup_timed_out_pending now s)" "fp_confirmed_txs s"] assms
  by (simp add: cleanup_timed_out_pending_def fp_inv_wf hm_get_retain_Some)

lemma fp_step_inv:
  assumes "fp_inv c" "fp_step False c c'"
  shows "fp_inv c'"
  using assms(2,1)
proof cases
  case (fp_stake s mv n)
  then show ?thesis using assms(1) by (simp add: fp_inv_def update_total_stake_def)
qed (auto simp: fp_inv_register fp_inv_ack fp_inv_move fp_inv_finalize fp_inv_clean_confirmed fp_inv_clean_pending)

interpretation fast_path: invariant_system "\<lambda>c. \<exists>config. c = (FastPathService_new config, [])" "fp_step False" fp_inv
proof unfold_locales
  show "\<exists>config. c = (FastPathService_new config, []) \<Longrightarrow> fp_inv c" for c
    by (auto simp: fp_inv_def FastPathService_new_def)
qed (rule fp_step_inv)

lemma confirmed_entry:
  assumes "(fp_step False)\<^sup>*\<^sup>* (FastPathService_new config, []) (s, mv)" "hm_get (fp_confirmed_txs s) h = Some f"
  shows "fp_inv (s, mv)" "acks_ok h f" "has_quorum f"
proof -
  show "fp_inv (s, mv)" using fast_path.run_inv [OF _ assms(1)] by blast
  then show "acks_ok h f" "has_quorum f" using assms(2) by (auto simp: fp_inv_def)
qed

text \<open>
  C24: a transaction counts as confirmed only on a quorum: in every interleaving of the
  service's critical sections in which no entry is expired or finalized while its move is
  outstanding, each confirmed transaction carries acknowledgements for it from different
  validators, some first ones of which hold at least the required stake, and no transaction
  is pending and confirmed at once.
\<close>
theorem confirmed_has_quorum:
  assumes "(fp_step False)\<^sup>*\<^sup>* (FastPathService_new config, []) (s, mv)" "hm_get (fp_confirmed_txs s) h = Some f"
  shows "distinct (map ack_validator_address (fin_acks f)) \<and> (\<forall>a \<in> set (fin_acks f). ack_tx_hash a = h)
    \<and> (\<exists>k \<le> length (fin_acks f). fin_quorum_stake_required f \<le> wsum (map ack_validator_stake (take k (fin_acks f))))
    \<and> hm_get (fp_pending_txs s) h = None"
proof -
  note i = confirmed_entry [OF assms]
  have "hm_get (fp_pending_txs s) h = None"
  proof (rule ccontr)
    assume "hm_get (fp_pending_txs s) h \<noteq> None"
    then obtain g where "hm_get (fp_pending_txs s) h = Some g" by blast
    with i(1) have "hm_get (fp_confirmed_txs s) h = None" unfolding fp_inv_def by blast
    with assms(2) show False by simp
  qed
  with i(2,3) show ?thesis unfolding acks_ok_def has_quorum_def by blast
qed

definition sample_tx :: "string \<Rightarrow> SignedTransaction" where
  "sample_tx h = \<lparr>st_tx = \<lparr>tx_from = ''a'', tx_to = ''b'', tx_amount = 1, tx_nonce = 0, tx_timestamp = 0,
     tx_parents = [], tx_kind = None, tx_gas_limit = None, tx_gas_price = None, tx_data = None,
     tx_signature = None, tx_memo = None, tx_references = None\<rparr>, st_hash = h, st_signature = []\<rparr>"

definition sample_ack :: "string \<Rightarrow> string \<Rightarrow> u64 \<Rightarrow> FastPathAck" where
  "sample_ack h v n = \<lparr>ack_tx_hash = h, ack_validator_address = v, ack_validator_stake = n,
     ack_bls_signature = None, ack_timestamp_ms = 0\<rparr>"

text \<open>Half of a stake of 8 as the quorum, which is exact in floating point.\<close>

definition sample_fp :: FastPathService where
  "sample_fp = fst (register_fast_path_tx 0 (sample_tx ''t'')
     (update_total_stake 8 (FastPathService_new \<lparr>fc_enabled = True, fc_quorum_threshold = Fin (1 / 2), fc_timeout_ms = 5000\<rparr>)))"

definition sample_finality :: FastPathFinality where
  "sample_finality = \<lparr>fin_tx_hash = ''t'', fin_status = Pending, fin_acks = [], fin_total_stake_acked = 0,
     fin_quorum_stake_required = 4, fin_registered_at_ms = 0, fin_confirmed_at_ms = None,
     fin_checkpoint_height = None, fin_tx_created_at_ms = Some 0\<rparr>"

lemma sample_quorum: "to_u64 (f64_mul (f64_of_u64 8) (Fin (1 / 2))) = 4"
proof -
  have "rndq 8 = 8" "rndq 4 = 4"
    using representable_of_nat [of 8] representable_of_nat [of 4] by (auto intro!: rndq_exact)
  then have "f64_mul (f64_of_u64 8) (Fin (1 / 2)) = Fin 4" by (simp add: f64_mul_nonneg urat_def)
  then show ?thesis by simp
qed

lemma eligible_sample: "is_fast_path_eligible (sample_tx h)"
  by (simp add: is_fast_path_eligible_def tx_is_fast_path_eligible_def classify_lane_def sample_tx_def)

lemma register_sample:
  assumes "hm_get (fp_pending_txs s) ''t'' = None" "hm_get (fp_confirmed_txs s) ''t'' = None"
    "fp_total_validator_stake s = 8" "fc_quorum_threshold (fp_config s) = Fin (1 / 2)"
  shows "fst (register_fast_path_tx 0 (sample_tx ''t'') s) = s\<lparr>fp_pending_txs := hm_insert ''t'' sample_finality (fp_pending_txs s)\<rparr>"
proof -
  have "st_hash (sample_tx ''t'') = ''t''" "tx_timestamp (st_tx (sample_tx ''t'')) = 0" by (simp_all add: sample_tx_def)
  then show ?thesis using assms
    by (simp add: register_fast_path_tx_def eligible_sample hm_contains_def sample_quorum Let_def sample_finality_def)
qed

lemma sample_fp_eq:
  "sample_fp = \<lparr>fp_pending_txs = [(''t'', sample_finality)], fp_confirmed_txs = [], fp_total_validator_stake = 8,
     fp_config = \<lparr>fc_enabled = True, fc_quorum_threshold = Fin (1 / 2), fc_timeout_ms = 5000\<rparr>\<rparr>"
  unfolding sample_fp_def by (subst register_sample) (simp_all add: update_total_stake_def FastPathService_new_def)

lemma sample_fp_steps:
  "(fp_step race)\<^sup>*\<^sup>* (FastPathService_new \<lparr>fc_enabled = True, fc_quorum_threshold = Fin (1 / 2), fc_timeout_ms = 5000\<rparr>, [])
     (sample_fp, [])"
  unfolding sample_fp_def
  by (rule converse_rtranclp_into_rtranclp, rule fp_stake, rule r_into_rtranclp, rule fp_register)

definition acked_finality :: FastPathFinality where
  "acked_finality = sample_finality\<lparr>fin_acks := [sample_ack ''t'' ''v'' 5], fin_total_stake_acked := 5,
     fin_status := Confirmed, fin_confirmed_at_ms := Some 10\<rparr>"

lemma record_ack_sample:
  "record_ack 10 (sample_ack ''t'' ''v'' 5) sample_fp =
     (sample_fp\<lparr>fp_pending_txs := [(''t'', acked_finality)]\<rparr>, Some acked_finality, Some ''t'')"
proof -
  have "(4 :: u64) \<le> 5" by (simp add: word_le_nat_alt)
  then show ?thesis
    by (simp add: record_ack_def sample_fp_eq sample_ack_def acked_finality_def Let_def sample_finality_def hm_insert_Cons)
qed

lemma ack_accepted_None [simp]: "ack_accepted env ack None"
  by (simp add: ack_accepted_def)

lemma sample_acked_step:
  "fp_step race (sample_fp, []) (sample_fp\<lparr>fp_pending_txs := [(''t'', acked_finality)]\<rparr>, [''t''])"
  using fp_ack [OF ack_accepted_None record_ack_sample, of race "[]"] by simp

lemma sample_confirmed:
  fixes race
  defines "s \<equiv> move_confirmed ''t'' (sample_fp\<lparr>fp_pending_txs := [(''t'', acked_finality)]\<rparr>)"
  shows "(fp_step race)\<^sup>*\<^sup>* (sample_fp, []) (s, [])" "hm_get (fp_confirmed_txs s) ''t'' = Some acked_finality"
proof -
  let ?s = "sample_fp\<lparr>fp_pending_txs := [(''t'', acked_finality)]\<rparr>"
  have m: "fp_step race (?s, [''t'']) (s, [])"
    unfolding s_def using fp_move [of "''t''" "[''t'']" race ?s] by simp
  show "(fp_step race)\<^sup>*\<^sup>* (sample_fp, []) (s, [])"
    by (rule converse_rtranclp_into_rtranclp, rule sample_acked_step, rule r_into_rtranclp, rule m)
  show "hm_get (fp_confirmed_txs s) ''t'' = Some acked_finality"
    by (simp add: s_def move_confirmed_def)
qed

theorem confirmed_has_quorum_witness:
  "\<exists>s f. (fp_step False)\<^sup>*\<^sup>* (sample_fp, []) (s, []) \<and> hm_get (fp_confirmed_txs s) ''t'' = Some f
     \<and> hm_get (fp_pending_txs s) ''t'' = None"
  using confirmed_has_quorum [OF rtranclp_trans [OF sample_fp_steps sample_confirmed(1)] sample_confirmed(2)]
    sample_confirmed(1) [of False] sample_confirmed(2) by blast

text \<open>
  The window between the two critical sections of \<open>add_ack_checked\<close> matters: if the
  entry times out and the transaction is registered again in between, the move takes the
  fresh entry, and a transaction without a single acknowledgement is reported as confirmed.
\<close>
theorem confirmed_without_acks:
  "\<exists>config s. (fp_step True)\<^sup>*\<^sup>* (FastPathService_new config, []) (s, []) \<and> is_confirmed s ''t''
     \<and> (\<exists>f. fp_get_status s ''t'' = Some f \<and> fin_acks f = [] \<and> fin_status f = Pending \<and> 0 < fin_quorum_stake_required f)"
proof -
  let ?s1 = "sample_fp\<lparr>fp_pending_txs := [(''t'', acked_finality)]\<rparr>"
  let ?s2 = "cleanup_timed_out_pending 6000 ?s1"
  let ?s3 = "fst (register_fast_path_tx 0 (sample_tx ''t'') ?s2)"
  let ?s4 = "move_confirmed ''t'' ?s3"
  have "(fp_step True)\<^sup>*\<^sup>* (sample_fp, []) (?s1, [''t''])" using sample_acked_step by blast
  moreover have "fp_step True (?s1, [''t'']) (?s2, [''t''])" by (rule fp_clean_pending) simp
  moreover have "fp_step True (?s2, [''t'']) (?s3, [''t''])" by (rule fp_register)
  moreover have "fp_step True (?s3, [''t'']) (?s4, [])" using fp_move [of "''t''" "[''t'']" True ?s3] by simp
  ultimately have steps: "(fp_step True)\<^sup>*\<^sup>* (sample_fp, []) (?s4, [])"
    by (meson rtranclp.rtrancl_into_rtrancl)
  have "saturating_sub (6000 :: u64) 0 > 5000" by (simp add: saturating_sub_def word_less_nat_alt)
  then have s2: "?s2 = sample_fp\<lparr>fp_pending_txs := []\<rparr>"
    by (simp add: cleanup_timed_out_pending_def sample_fp_eq hm_retain_def pending_timed_out_def acked_finality_def sample_ack_def)
  have s3: "?s3 = sample_fp" unfolding s2 by (subst register_sample) (simp_all add: sample_fp_eq)
  have "fp_confirmed_txs ?s4 = [(''t'', sample_finality)]" "fp_pending_txs ?s4 = []"
    unfolding s3 by (simp_all add: move_confirmed_def sample_fp_eq hm_remove_def)
  then have "is_confirmed ?s4 ''t'' \<and> fp_get_status ?s4 ''t'' = Some sample_finality"
    by (simp add: is_confirmed_def hm_contains_def fp_get_status_def)
  moreover have "fin_acks sample_finality = [] \<and> fin_status sample_finality = Pending \<and> 0 < fin_quorum_stake_required sample_finality"
    by (simp add: sample_finality_def)
  ultimately show ?thesis using rtranclp_trans [OF sample_fp_steps steps] by blast
qed

section \<open>Quorums overlap\<close>

text \<open>
  Two quorums of one stake table share validators: if the acknowledgements of two
  confirmed transactions carry the stakes of the table, the validators that acknowledged both
  hold at least the two required stakes minus the total.
\<close>
theorem quorums_overlap:
  assumes "(fp_step False)\<^sup>*\<^sup>* (FastPathService_new config, []) (s, mv)"
    and "hm_get (fp_confirmed_txs s) h = Some f" "hm_get (fp_confirmed_txs s) h' = Some f'"
    and "finite V" "\<forall>a \<in> set (fin_acks f) \<union> set (fin_acks f'). ack_validator_address a \<in> V
      \<and> unat (ack_validator_stake a) = stake (ack_validator_address a)"
  shows "unat (fin_quorum_stake_required f) + unat (fin_quorum_stake_required f')
    \<le> sum stake V + sum stake (ack_validator_address ` set (fin_acks f) \<inter> ack_validator_address ` set (fin_acks f'))"
proof -
  let ?A = "\<lambda>f. ack_validator_address ` set (fin_acks f)"
  have q: "unat (fin_quorum_stake_required g) \<le> sum stake (?A g)" if g: "g \<in> {f, f'}" for g
  proof -
    have c: "\<exists>h. hm_get (fp_confirmed_txs s) h = Some g" using g assms(2,3) by auto
    then obtain k where d: "distinct (map ack_validator_address (fin_acks g))"
      and k: "fin_quorum_stake_required g \<le> wsum (map ack_validator_stake (take k (fin_acks g)))"
      using confirmed_entry(2,3) [OF assms(1)] unfolding acks_ok_def has_quorum_def by blast
    have "unat (fin_quorum_stake_required g) \<le> sum_list (map unat (map ack_validator_stake (take k (fin_acks g))))"
      using k unat_wsum_le [of "map ack_validator_stake (take k (fin_acks g))"] by (simp add: word_le_nat_alt)
    also have "\<dots> \<le> sum_list (map unat (map ack_validator_stake (fin_acks g)))"
      by (subst (2) append_take_drop_id [of k, symmetric]) (simp only: map_append sum_list_append le_add1)
    also have "\<dots> = sum_list (map stake (map ack_validator_address (fin_acks g)))"
      using assms(5) g by (intro arg_cong [of _ _ sum_list]) auto
    also have "\<dots> = sum stake (?A g)"
      using sum.distinct_set_conv_list [OF d, of stake] by simp
    finally show ?thesis .
  qed
  have "?A f \<union> ?A f' \<subseteq> V" using assms(5) by auto
  then have "sum stake (?A f \<union> ?A f') \<le> sum stake V" using assms(4) by (intro sum_mono2) auto
  moreover have "sum stake (?A f) + sum stake (?A f') = sum stake (?A f \<union> ?A f') + sum stake (?A f \<inter> ?A f')"
    by (intro sum.union_inter [symmetric]) auto
  ultimately show ?thesis using q [of f] q [of f'] by simp
qed

theorem quorums_overlap_witness:
  "4 + 4 \<le> (8 :: nat) + sum (\<lambda>v. if v = ''v'' then 5 else 3) {''v''}"
proof -
  have "fin_acks acked_finality = [sample_ack ''t'' ''v'' 5]" "fin_quorum_stake_required acked_finality = 4"
    "ack_validator_address (sample_ack ''t'' ''v'' 5) = ''v''" "ack_validator_stake (sample_ack ''t'' ''v'' 5) = 5"
    by (simp_all add: acked_finality_def sample_finality_def sample_ack_def)
  then show ?thesis
    using quorums_overlap [OF rtranclp_trans [OF sample_fp_steps sample_confirmed(1)] sample_confirmed(2) sample_confirmed(2),
      of "{''v'', ''w''}" "\<lambda>v. if v = ''v'' then 5 else 3"] by simp
qed

section \<open>Signatures\<close>

text \<open>
  What the code relies on: URL-safe base64 round-trips and does not yield an empty text or
  byte string from a non-empty one, a signature made with a private key verifies
  against its public key, and neither a signature nor the hexadecimal public key is empty.
\<close>

definition base64_ok :: "ack_env \<Rightarrow> bool" where
  "base64_ok env \<longleftrightarrow> (\<forall>b. ae_url_decode env (ae_url_encode env b) = Some b) \<and> (\<forall>b. b \<noteq> [] \<longrightarrow> ae_url_encode env b \<noteq> [])"

definition bls_ok :: "ack_env \<Rightarrow> bytes \<Rightarrow> bytes \<Rightarrow> bool" where
  "bls_ok env sk pk \<longleftrightarrow> pk \<noteq> [] \<and>
     (\<forall>msg. \<exists>sig. ae_bls_sign env msg sk = Inr sig \<and> sig \<noteq> [] \<and> ae_bls_verify env msg sig pk)"

text \<open>
  An acknowledgement that a validator signs for a well-formed transaction hash is
  accepted against the public key it published, whichever of the key encodings was used; and
  without a signature or with an empty one it is refused.
\<close>
theorem signed_ack_accepted:
  assumes "base64_ok env" "bls_ok env sk pk" "hex_decode (ae_crypto env) tx_hash = Some msg" "msg \<noteq> []"
    and "decode_bls_public_key env pk_enc = Some pk" "pk_enc \<noteq> []"
  shows "(\<exists>sig. sign_fast_path_ack env tx_hash sk = Some sig
      \<and> require_valid_ack_bls env tx_hash (Some sig) (Some pk_enc) = Inr ())
    \<and> require_valid_ack_bls env tx_hash None (Some pk_enc) = Inl ''missing BLS signature''
    \<and> require_valid_ack_bls env tx_hash (Some []) (Some pk_enc) = Inl ''missing BLS signature''"
proof -
  have m: "ack_message_bytes env tx_hash = Some msg" using assms(3,4) by (simp add: ack_message_bytes_def)
  from assms(2) obtain sig where sig: "ae_bls_sign env msg sk = Inr sig" "sig \<noteq> []" "ae_bls_verify env msg sig pk" "pk \<noteq> []"
    unfolding bls_ok_def by blast
  let ?b = "ae_url_encode env sig"
  have b: "decode_base64 env ?b = Some sig" "?b \<noteq> []"
    using assms(1) sig(2) by (simp_all add: base64_ok_def decode_base64_def)
  have "sign_fast_path_ack env tx_hash sk = Some ?b" by (simp add: sign_fast_path_ack_def m sig(1))
  moreover have "verify_fast_path_ack env tx_hash ?b pk" by (simp add: verify_fast_path_ack_def m b(1) sig)
  ultimately show ?thesis
    using b(2) assms(5,6) by (simp add: require_valid_ack_bls_def non_empty_def)
qed

definition sample_ack_env :: ack_env where
  "sample_ack_env = \<lparr>ae_crypto = sample_env, ae_bls_sign = \<lambda>msg sk. Inr (0 # msg @ sk),
     ae_bls_verify = \<lambda>msg sig pk. sig = 0 # msg @ pk, ae_url_encode = sample_hex_encode,
     ae_url_decode = sample_hex_decode, ae_std_decode = sample_hex_decode\<rparr>"

theorem signed_ack_accepted_witness:
  "\<exists>sig. sign_fast_path_ack sample_ack_env ''00ff'' [171] = Some sig
     \<and> require_valid_ack_bls sample_ack_env ''00ff'' (Some sig) (Some '' ab '') = Inr ()"
proof -
  have "base64_ok sample_ack_env"
    by (auto simp: base64_ok_def sample_ack_env_def neq_Nil_conv sample_hex_roundtrip sample_hex_encode.simps)
  moreover have "bls_ok sample_ack_env [171] [171]" by (simp add: bls_ok_def sample_ack_env_def)
  moreover have "hex_decode (ae_crypto sample_ack_env) ''00ff'' = Some [0, 255]" by code_simp
  moreover have "decode_bls_public_key sample_ack_env '' ab '' = Some [171]" by code_simp
  ultimately show ?thesis using signed_ack_accepted by blast
qed

end
