(* ===== verification/Rinku_Merge.thy ===== *)
theory Rinku_Merge
  imports Rinku_Weight
begin

text \<open>
  \<open>rinku-node/src/merge\<close>: healing a network partition. This theory holds the data of a
  merge (\<open>mod.rs\<close>) and its three computations: which transactions of the two partitions
  conflict (\<open>conflict_detection.rs\<close>), which of them win (\<open>resolution.rs\<close>), and
  which others fall with the losers (\<open>cascade.rs\<close>). Hash sets and maps are lists as in
  \<open>Rinku_Collections\<close>; \<open>iter\<close> arguments are their iteration orders.
\<close>

section \<open>Data\<close>

record MergeRequest =
  mr_partition_epoch :: u64
  mr_fork_point_checkpoint_height :: u64
  mr_transactions :: "SignedTransaction list"
  mr_tx_weights :: "(string, f64) hash_map"
  mr_accounts :: "(string, Account) hash_map"
  mr_checkpoints :: "Checkpoint list"
  mr_visible_stake_pct :: f64

datatype ConflictType = DirectDoubleSpend | EconomicOverdraft

record DirectConflict =
  dc_account :: string
  dc_nonce :: u64
  dc_local_tx_hash :: string
  dc_remote_tx_hash :: string
  dc_local_partition_epoch :: "u64 option"
  dc_remote_partition_epoch :: "u64 option"

record EconomicConflict =
  ec_account :: string
  ec_pre_partition_balance_micro :: u64
  ec_total_sent_local_micro :: u64
  ec_total_sent_remote_micro :: u64
  ec_total_received_local_micro :: u64
  ec_total_received_remote_micro :: u64
  ec_deficit_micro :: u64
  ec_local_tx_hashes :: "string list"
  ec_remote_tx_hashes :: "string list"

datatype ResolutionReason = HigherWeight | HigherStake | LowerHashTiebreak

record ConflictResolution =
  cr_conflict_type :: ConflictType
  cr_account :: string
  cr_winner_tx_hashes :: "string list"
  cr_loser_tx_hashes :: "string list"
  cr_reason :: ResolutionReason
  cr_winner_weight :: f64
  cr_loser_weight :: f64

datatype MergePhase =
  DagExchange | ConflictDetection | WeightResolution | CascadePhase | StateReconciliation | MergeComplete

datatype ViolationType = NonceReuse | CrossPartitionOverdraft

record PenaltyAssessment =
  pa_account :: string
  pa_violation_type :: ViolationType
  pa_balance_penalty_micro :: u64
  pa_stake_slash_pct :: f64
  pa_reputation_penalty :: f64
  pa_decay_checkpoints :: "u64 option"
  pa_conflicting_tx_hashes :: "string list"

datatype RollbackReason =
  DirectConflictLoser | InsufficientBalanceAfterConflictResolution | NonceContinuityGap
  | DependsOnRolledBackTransaction string

record CascadeRollback =
  cb_tx_hash :: string
  cb_reason :: RollbackReason
  cb_affected_account :: string
  cb_amount_reverted_micro :: u64

record MergeReport =
  rep_merge_epoch :: u64
  rep_fork_point_checkpoint_height :: u64
  rep_phase :: MergePhase
  rep_direct_conflicts :: "DirectConflict list"
  rep_economic_conflicts :: "EconomicConflict list"
  rep_resolutions :: "ConflictResolution list"
  rep_transactions_kept :: "string list"
  rep_transactions_rejected :: "string list"
  rep_cascade_rollbacks :: "CascadeRollback list"
  rep_cascade_rejected_count :: nat
  rep_final_balances_micro :: "(string, u64) hash_map option"
  rep_penalties :: "PenaltyAssessment list"
  rep_local_tx_count :: nat
  rep_remote_tx_count :: nat
  rep_started_at_ms :: u64
  rep_completed_at_ms :: "u64 option"
  rep_error :: "string option"

text \<open>\<open>now\<close> is the wall clock in milliseconds.\<close>

definition MergeReport_new :: "u64 \<Rightarrow> u64 \<Rightarrow> u64 \<Rightarrow> MergeReport" where
  "MergeReport_new now merge_epoch fork_point_checkpoint_height =
     \<lparr>rep_merge_epoch = merge_epoch, rep_fork_point_checkpoint_height = fork_point_checkpoint_height,
      rep_phase = DagExchange, rep_direct_conflicts = [], rep_economic_conflicts = [],
      rep_resolutions = [], rep_transactions_kept = [], rep_transactions_rejected = [],
      rep_cascade_rollbacks = [], rep_cascade_rejected_count = 0, rep_final_balances_micro = None,
      rep_penalties = [], rep_local_tx_count = 0, rep_remote_tx_count = 0, rep_started_at_ms = now,
      rep_completed_at_ms = None, rep_error = None\<rparr>"

definition report_complete :: "u64 \<Rightarrow> MergeReport \<Rightarrow> MergeReport" where
  "report_complete now r = r\<lparr>rep_phase := MergeComplete, rep_completed_at_ms := Some now\<rparr>"

definition report_fail :: "u64 \<Rightarrow> string \<Rightarrow> MergeReport \<Rightarrow> MergeReport" where
  "report_fail now error r = r\<lparr>rep_error := Some error, rep_completed_at_ms := Some now\<rparr>"

record RollbackReport =
  rb_direct_conflict_losers :: "string list"
  rb_cascade_rollbacks :: "CascadeRollback list"
  rb_final_balances_micro :: "(string, u64) hash_map"
  rb_surviving_tx_hashes :: "string list"
  rb_iterations :: u32

record PartitionTxSummary =
  ps_tx_hash :: string
  ps_from :: string
  ps_to :: string
  ps_amount_micro :: u64
  ps_gas_micro :: u64
  ps_nonce :: u64
  ps_weight :: f64
  ps_dag_depth :: u32
  ps_parents :: "string list"
  ps_partition_epoch :: "u64 option"
  ps_visible_stake_pct :: f64

definition from_signed_tx :: "SignedTransaction \<Rightarrow> f64 \<Rightarrow> PartitionTxSummary" where
  "from_signed_tx tx weight =
     \<lparr>ps_tx_hash = st_hash tx, ps_from = tx_from (st_tx tx), ps_to = tx_to (st_tx tx),
      ps_amount_micro = tx_amount (st_tx tx),
      ps_gas_micro = unwrap_or (tx_gas_price (st_tx tx)) 0 * unwrap_or (tx_gas_limit (st_tx tx)) 0,
      ps_nonce = tx_nonce (st_tx tx), ps_weight = weight, ps_dag_depth = 0,
      ps_parents = tx_parents (st_tx tx), ps_partition_epoch = None, ps_visible_stake_pct = Fin 0\<rparr>"

section \<open>Conflict detection\<close>

definition local_nonce_index :: "PartitionTxSummary list \<Rightarrow> (string \<times> u64, string) hash_map" where
  "local_nonce_index local_txs =
     fold (\<lambda>tx m. if ps_from tx = ''genesis'' then m else hm_insert (ps_from tx, ps_nonce tx) (ps_tx_hash tx) m)
       local_txs []"

definition direct_conflict ::
  "PartitionTxSummary list \<Rightarrow> PartitionTxSummary \<Rightarrow> DirectConflict option" where
  "direct_conflict local_txs tx =
     (if ps_from tx = ''genesis'' then None
      else case hm_get (local_nonce_index local_txs) (ps_from tx, ps_nonce tx) of
             None \<Rightarrow> None
           | Some local_hash \<Rightarrow>
               if local_hash \<noteq> ps_tx_hash tx
               then Some \<lparr>dc_account = ps_from tx, dc_nonce = ps_nonce tx, dc_local_tx_hash = local_hash,
                          dc_remote_tx_hash = ps_tx_hash tx,
                          dc_local_partition_epoch =
                            Option.bind (find (\<lambda>lt. ps_tx_hash lt = local_hash) local_txs) ps_partition_epoch,
                          dc_remote_partition_epoch = ps_partition_epoch tx\<rparr>
               else None)"

definition detect_direct_conflicts ::
  "PartitionTxSummary list \<Rightarrow> PartitionTxSummary list \<Rightarrow> DirectConflict list" where
  "detect_direct_conflicts local_txs remote_txs =
     sort_key (\<lambda>c. (dc_account c, dc_nonce c)) (List.map_filter (direct_conflict local_txs) remote_txs)"

definition flow_step :: "string \<Rightarrow> PartitionTxSummary \<Rightarrow> u64 \<times> u64 \<times> string list \<Rightarrow> u64 \<times> u64 \<times> string list" where
  "flow_step account tx = (\<lambda>(total_sent, total_received, hashes).
     let (total_sent, hashes) =
           (if ps_from tx = account
            then (saturating_add (saturating_add total_sent (ps_amount_micro tx)) (ps_gas_micro tx), hashes @ [ps_tx_hash tx])
            else (total_sent, hashes));
         total_received =
           (if ps_to tx = account \<and> ps_from tx \<noteq> account
            then saturating_add total_received (ps_amount_micro tx) else total_received)
     in (total_sent, total_received, hashes))"

definition compute_account_flows :: "PartitionTxSummary list \<Rightarrow> string \<Rightarrow> u64 \<times> u64 \<times> string list" where
  "compute_account_flows txs account = fold (flow_step account) txs (0, 0, [])"

definition senders :: "PartitionTxSummary list \<Rightarrow> string list" where
  "senders txs = fold (\<lambda>tx acc. if ps_from tx \<noteq> ''genesis'' then List.insert (ps_from tx) acc else acc) txs []"

definition economic_conflict ::
  "PartitionTxSummary list \<Rightarrow> PartitionTxSummary list \<Rightarrow> (string, Account) hash_map \<Rightarrow> string \<Rightarrow> EconomicConflict option" where
  "economic_conflict local_txs remote_txs fork_point_accounts account =
     (let pre_balance_micro = unwrap_or (map_option acc_balance (hm_get fork_point_accounts account)) 0;
          (total_sent_local, total_received_local, local_hashes) = compute_account_flows local_txs account;
          (total_sent_remote, total_received_remote, remote_hashes) = compute_account_flows remote_txs account;
          total_inflow = saturating_add (saturating_add pre_balance_micro total_received_local) total_received_remote;
          total_outflow = saturating_add total_sent_local total_sent_remote
      in if total_outflow > total_inflow
         then Some \<lparr>ec_account = account, ec_pre_partition_balance_micro = pre_balance_micro,
                    ec_total_sent_local_micro = total_sent_local, ec_total_sent_remote_micro = total_sent_remote,
                    ec_total_received_local_micro = total_received_local,
                    ec_total_received_remote_micro = total_received_remote,
                    ec_deficit_micro = total_outflow - total_inflow,
                    ec_local_tx_hashes = local_hashes, ec_remote_tx_hashes = remote_hashes\<rparr>
         else None)"

definition detect_economic_conflicts ::
  "(string list \<Rightarrow> string list) \<Rightarrow> PartitionTxSummary list \<Rightarrow> PartitionTxSummary list
   \<Rightarrow> (string, Account) hash_map \<Rightarrow> EconomicConflict list" where
  "detect_economic_conflicts iter local_txs remote_txs fork_point_accounts =
     (let cross_partition_accounts = filter (\<lambda>a. a \<in> set (senders remote_txs)) (senders local_txs)
      in if cross_partition_accounts = [] then []
         else sort_key ec_account
                (List.map_filter (economic_conflict local_txs remote_txs fork_point_accounts)
                  (iter cross_partition_accounts)))"

definition detect_all_conflicts ::
  "(string list \<Rightarrow> string list) \<Rightarrow> PartitionTxSummary list \<Rightarrow> PartitionTxSummary list
   \<Rightarrow> (string, Account) hash_map \<Rightarrow> DirectConflict list \<times> EconomicConflict list" where
  "detect_all_conflicts iter local_txs remote_txs fork_point_accounts =
     (detect_direct_conflicts local_txs remote_txs,
      detect_economic_conflicts iter local_txs remote_txs fork_point_accounts)"

section \<open>Resolution\<close>

definition WEIGHT_PROXIMITY_THRESHOLD :: f64 where "WEIGHT_PROXIMITY_THRESHOLD = Fin (3 / 2)"
definition F64_EPSILON :: f64 where "F64_EPSILON = Fin (1 / 2 ^ 52)"

definition summary_map :: "PartitionTxSummary list \<Rightarrow> (string, PartitionTxSummary) hash_map" where
  "summary_map txs = fold (\<lambda>tx. hm_insert (ps_tx_hash tx) tx) txs []"

text \<open>The winner and loser of a pair with the given weights and stakes; \<open>True\<close> when the local one wins.\<close>

definition direct_winner ::
  "f64 \<Rightarrow> f64 \<Rightarrow> f64 \<Rightarrow> f64 \<Rightarrow> string \<Rightarrow> string \<Rightarrow> bool \<times> ResolutionReason" where
  "direct_winner local_weight remote_weight local_stake remote_stake local_tx_hash remote_tx_hash =
     (let weights_differ = f64_lt F64_EPSILON (f64_abs (f64_sub local_weight remote_weight))
      in if weights_differ then
           (let (higher_w, lower_w) =
                  (if f64_lt remote_weight local_weight then (local_weight, remote_weight) else (remote_weight, local_weight));
                within_threshold =
                  f64_lt (Fin 0) lower_w \<and> f64_le (f64_div higher_w lower_w) WEIGHT_PROXIMITY_THRESHOLD
            in if within_threshold then
                 (if f64_lt F64_EPSILON (f64_abs (f64_sub local_stake remote_stake))
                  then (f64_lt remote_stake local_stake, HigherStake)
                  else (local_tx_hash < remote_tx_hash, LowerHashTiebreak))
               else (f64_lt remote_weight local_weight, HigherWeight))
         else (local_tx_hash < remote_tx_hash, LowerHashTiebreak))"

definition resolve_direct ::
  "PartitionTxSummary list \<Rightarrow> PartitionTxSummary list \<Rightarrow> DirectConflict \<Rightarrow> ConflictResolution" where
  "resolve_direct local_txs remote_txs conflict =
     (let local_tx = hm_get (summary_map local_txs) (dc_local_tx_hash conflict);
          remote_tx = hm_get (summary_map remote_txs) (dc_remote_tx_hash conflict);
          local_weight = unwrap_or (map_option ps_weight local_tx) (Fin 0);
          remote_weight = unwrap_or (map_option ps_weight remote_tx) (Fin 0);
          local_stake = unwrap_or (map_option ps_visible_stake_pct local_tx) (Fin 0);
          remote_stake = unwrap_or (map_option ps_visible_stake_pct remote_tx) (Fin 0);
          (local_wins, reason) = direct_winner local_weight remote_weight local_stake remote_stake
            (dc_local_tx_hash conflict) (dc_remote_tx_hash conflict)
      in if local_wins
         then \<lparr>cr_conflict_type = DirectDoubleSpend, cr_account = dc_account conflict,
               cr_winner_tx_hashes = [dc_local_tx_hash conflict], cr_loser_tx_hashes = [dc_remote_tx_hash conflict],
               cr_reason = reason, cr_winner_weight = local_weight, cr_loser_weight = remote_weight\<rparr>
         else \<lparr>cr_conflict_type = DirectDoubleSpend, cr_account = dc_account conflict,
               cr_winner_tx_hashes = [dc_remote_tx_hash conflict], cr_loser_tx_hashes = [dc_local_tx_hash conflict],
               cr_reason = reason, cr_winner_weight = remote_weight, cr_loser_weight = local_weight\<rparr>)"

definition resolve_direct_conflicts ::
  "DirectConflict list \<Rightarrow> PartitionTxSummary list \<Rightarrow> PartitionTxSummary list \<Rightarrow> ConflictResolution list" where
  "resolve_direct_conflicts conflicts local_txs remote_txs = map (resolve_direct local_txs remote_txs) conflicts"

text \<open>
  \<open>sort_by\<close> with the comparison by nonce, falling weight and hash, where weights that are
  not comparable count as equal: a stable insertion.
\<close>

definition spend_less :: "PartitionTxSummary \<Rightarrow> PartitionTxSummary \<Rightarrow> bool" where
  "spend_less a b \<longleftrightarrow> ps_nonce a < ps_nonce b \<or> ps_nonce a = ps_nonce b \<and>
     (f64_lt (ps_weight b) (ps_weight a) \<or> \<not> f64_lt (ps_weight a) (ps_weight b) \<and> ps_tx_hash a < ps_tx_hash b)"

fun insert_by :: "('a \<Rightarrow> 'a \<Rightarrow> bool) \<Rightarrow> 'a \<Rightarrow> 'a list \<Rightarrow> 'a list" where
  "insert_by lt a [] = [a]"
| "insert_by lt a (b # bs) = (if lt b a then b # insert_by lt a bs else a # b # bs)"

definition sort_by :: "('a \<Rightarrow> 'a \<Rightarrow> bool) \<Rightarrow> 'a list \<Rightarrow> 'a list" where
  "sort_by lt xs = foldr (insert_by lt) xs []"

text \<open>Spending in order until the balance does not suffice: winners and losers.\<close>

fun spend_in_order :: "u64 \<Rightarrow> PartitionTxSummary list \<Rightarrow> string list \<times> string list" where
  "spend_in_order balance [] = ([], [])"
| "spend_in_order balance (tx # txs) =
     (let total_cost = saturating_add (ps_amount_micro tx) (ps_gas_micro tx)
      in if balance < total_cost then ([], map ps_tx_hash (tx # txs))
         else let (winners, losers) = spend_in_order (saturating_sub balance total_cost) txs
              in (ps_tx_hash tx # winners, losers))"

definition resolve_economic ::
  "PartitionTxSummary list \<Rightarrow> PartitionTxSummary list \<Rightarrow> (string, Account) hash_map \<Rightarrow> EconomicConflict \<Rightarrow> ConflictResolution" where
  "resolve_economic local_txs remote_txs fork_point_accounts conflict =
     (let pre_balance_micro = unwrap_or (map_option acc_balance (hm_get fork_point_accounts (ec_account conflict)))
            (ec_pre_partition_balance_micro conflict);
          account_txs = sort_by spend_less (filter (\<lambda>tx. ps_from tx = ec_account conflict) (local_txs @ remote_txs));
          received = fold (\<lambda>tx r. if ps_to tx = ec_account conflict \<and> ps_from tx \<noteq> ec_account conflict
                                  then saturating_add r (ps_amount_micro tx) else r) (local_txs @ remote_txs) 0;
          (winners, losers) = spend_in_order (saturating_add pre_balance_micro received) account_txs
      in \<lparr>cr_conflict_type = EconomicOverdraft, cr_account = ec_account conflict,
          cr_winner_tx_hashes = winners, cr_loser_tx_hashes = losers, cr_reason = HigherWeight,
          cr_winner_weight = f64_sum (map ps_weight (filter (\<lambda>tx. ps_tx_hash tx \<in> set winners) account_txs)),
          cr_loser_weight = f64_sum (map ps_weight (filter (\<lambda>tx. ps_tx_hash tx \<in> set losers) account_txs))\<rparr>)"

definition resolve_economic_conflicts ::
  "EconomicConflict list \<Rightarrow> PartitionTxSummary list \<Rightarrow> PartitionTxSummary list \<Rightarrow> (string, Account) hash_map
   \<Rightarrow> ConflictResolution list" where
  "resolve_economic_conflicts conflicts local_txs remote_txs fork_point_accounts =
     map (resolve_economic local_txs remote_txs fork_point_accounts) conflicts"

definition resolve_all_conflicts ::
  "DirectConflict list \<Rightarrow> EconomicConflict list \<Rightarrow> PartitionTxSummary list \<Rightarrow> PartitionTxSummary list
   \<Rightarrow> (string, Account) hash_map \<Rightarrow> ConflictResolution list" where
  "resolve_all_conflicts direct_conflicts economic_conflicts local_txs remote_txs fork_point_accounts =
     resolve_direct_conflicts direct_conflicts local_txs remote_txs
     @ resolve_economic_conflicts economic_conflicts local_txs remote_txs fork_point_accounts"

end
