(* ===== verification/Rinku_Cascade.thy ===== *)
theory Rinku_Cascade
  imports Rinku_Merge
begin

text \<open>
  \<open>rinku-node/src/merge/cascade.rs\<close>: replaying the transactions that are left after
  conflict resolution from the fork point, and rolling back what no longer applies until
  nothing more falls.
\<close>

section \<open>Depths\<close>

abbreviation unvisited :: "string list \<Rightarrow> (string, string list) hash_map \<Rightarrow> (string, string list) hash_map" where
  "unvisited visiting \<equiv> filter (\<lambda>e. fst e \<notin> set visiting)"

lemma unvisited_less:
  assumes "hm_get parents_of k = Some ps" "k \<notin> set visiting"
  shows "length (unvisited (k # visiting) parents_of) < length (unvisited visiting parents_of)"
proof -
  have "unvisited (k # visiting) parents_of = filter (\<lambda>e. fst e \<noteq> k) (unvisited visiting parents_of)"
    by (simp add: conj_commute)
  moreover have "(k, ps) \<in> set (unvisited visiting parents_of)" using assms map_of_SomeD by fastforce
  ultimately show ?thesis by (metis (mono_tags, lifting) fst_conv length_filter_less)
qed

text \<open>
  \<open>resolve\<close> in \<open>assign_dag_depths\<close>: the memo table \<open>depths\<close> is threaded through
  the calls; \<open>visiting\<close> holds the hashes on the call stack (each call removes what it
  inserted, so it is passed downwards only). \<open>resolve_max\<close> is the maximum over the
  parents inside the partition.
\<close>

function (sequential)
  resolve_depth :: "string list \<Rightarrow> (string, string list) hash_map \<Rightarrow> string list \<Rightarrow> string
    \<Rightarrow> (string, u32) hash_map \<Rightarrow> u32 \<times> (string, u32) hash_map" and
  resolve_max :: "string list \<Rightarrow> (string, string list) hash_map \<Rightarrow> string list \<Rightarrow> string list
    \<Rightarrow> (string, u32) hash_map \<Rightarrow> u32 \<times> (string, u32) hash_map" where
  "resolve_depth in_set parents_of visiting hash depths =
     (case hm_get depths hash of
        Some d \<Rightarrow> (d, depths)
      | None \<Rightarrow>
          if hash \<in> set visiting then (0, depths)
          else case hm_get parents_of hash of
                 None \<Rightarrow> (0, hm_insert hash 0 depths)
               | Some parents \<Rightarrow>
                   let in_partition = filter (\<lambda>p. p \<in> set in_set) parents
                   in if in_partition = [] then (0, hm_insert hash 0 depths)
                      else let (m, depths) = resolve_max in_set parents_of (hash # visiting) in_partition depths
                           in (1 + m, hm_insert hash (1 + m) depths))"
| "resolve_max in_set parents_of visiting [] depths = (0, depths)"
| "resolve_max in_set parents_of visiting (p # ps) depths =
     (let (d, depths) = resolve_depth in_set parents_of visiting p depths;
          (m, depths) = resolve_max in_set parents_of visiting ps depths
      in (max d m, depths))"
  by pat_completeness auto

termination
proof (relation "measures [
      \<lambda>x. case x of Inl (_, ps, v, _, _) \<Rightarrow> length (unvisited v ps) | Inr (_, ps, v, _, _) \<Rightarrow> length (unvisited v ps),
      \<lambda>x. case x of Inl _ \<Rightarrow> 0 | Inr (_, _, _, xs, _) \<Rightarrow> Suc (length xs)]", goal_cases)
  case (2 in_set parents_of visiting hash depths parents)
  then show ?case using unvisited_less [of parents_of hash parents visiting] by simp
qed auto

declare resolve_depth.simps [simp del]

definition depths_of :: "PartitionTxSummary list \<Rightarrow> (string, u32) hash_map" where
  "depths_of txs =
     (let in_set = remdups (map ps_tx_hash txs);
          parents_of = fold (\<lambda>t. hm_insert (ps_tx_hash t) (ps_parents t)) txs []
      in fold (\<lambda>tx depths. snd (resolve_depth in_set parents_of [] (ps_tx_hash tx) depths)) txs [])"

definition assign_dag_depths :: "PartitionTxSummary list \<Rightarrow> PartitionTxSummary list" where
  "assign_dag_depths txs =
     (let depths = depths_of txs
      in map (\<lambda>tx. tx\<lparr>ps_dag_depth := unwrap_or (hm_get depths (ps_tx_hash tx)) 0\<rparr>) txs)"

section \<open>Replay\<close>

record replay_state =
  rs_newly_rolled_back :: "string list"
  rs_reasons :: "(string, RollbackReason) hash_map"
  rs_balances :: "(string, u64) hash_map"
  rs_nonces :: "(string, u64) hash_map"

definition replay_tx :: "string list \<Rightarrow> PartitionTxSummary \<Rightarrow> replay_state \<Rightarrow> replay_state" where
  "replay_tx rolled_back tx s =
     (if ps_tx_hash tx \<in> set rolled_back then s
      else
        let nonces = (if hm_contains (rs_nonces s) (ps_from tx) then rs_nonces s else hm_insert (ps_from tx) 0 (rs_nonces s));
            s = s\<lparr>rs_nonces := nonces\<rparr>;
            expected = unwrap_or (hm_get nonces (ps_from tx)) 0
        in if ps_nonce tx \<noteq> expected
           then s\<lparr>rs_newly_rolled_back := List.insert (ps_tx_hash tx) (rs_newly_rolled_back s),
                  rs_reasons := hm_insert (ps_tx_hash tx) NonceContinuityGap (rs_reasons s)\<rparr>
           else
             let sender_balance = unwrap_or (hm_get (rs_balances s) (ps_from tx)) 0;
                 total_cost = saturating_add (ps_amount_micro tx) (ps_gas_micro tx)
             in if sender_balance < total_cost
                then s\<lparr>rs_newly_rolled_back := List.insert (ps_tx_hash tx) (rs_newly_rolled_back s),
                       rs_reasons := hm_insert (ps_tx_hash tx) InsufficientBalanceAfterConflictResolution (rs_reasons s)\<rparr>
                else s\<lparr>rs_balances := hm_entry (ps_to tx) 0 (\<lambda>b. b + ps_amount_micro tx)
                                       (hm_entry (ps_from tx) 0 (\<lambda>b. b - total_cost) (rs_balances s)),
                       rs_nonces := hm_entry (ps_from tx) 0 (\<lambda>n. n + 1) nonces\<rparr>)"

definition replay_all ::
  "(string, u64) hash_map \<Rightarrow> (string, u64) hash_map \<Rightarrow> PartitionTxSummary list \<Rightarrow> string list
   \<Rightarrow> (string, RollbackReason) hash_map \<Rightarrow> replay_state" where
  "replay_all fork_balances fork_nonces ordered_txs rolled_back reasons =
     fold (replay_tx rolled_back) ordered_txs
       \<lparr>rs_newly_rolled_back = [], rs_reasons = reasons, rs_balances = fork_balances, rs_nonces = fork_nonces\<rparr>"

lemma replay_tx_newly:
  "set (rs_newly_rolled_back (replay_tx rolled_back tx s))
   \<subseteq> set (rs_newly_rolled_back s) \<union> ({ps_tx_hash tx} - set rolled_back)"
  by (auto simp: replay_tx_def Let_def)

lemma replay_fold_newly:
  "set (rs_newly_rolled_back (fold (replay_tx rolled_back) txs s))
   \<subseteq> set (rs_newly_rolled_back s) \<union> (ps_tx_hash ` set txs - set rolled_back)"
proof (induction txs arbitrary: s)
  case (Cons tx txs)
  show ?case using Cons [of "replay_tx rolled_back tx s"] replay_tx_newly [of rolled_back tx s] by auto
qed simp

lemma replay_all_newly:
  "set (rs_newly_rolled_back (replay_all fb fn txs rolled_back reasons)) \<subseteq> ps_tx_hash ` set txs - set rolled_back"
  using replay_fold_newly [of rolled_back txs "\<lparr>rs_newly_rolled_back = [], rs_reasons = reasons, rs_balances = fb, rs_nonces = fn\<rparr>"]
  by (simp add: replay_all_def)

text \<open>
  The loop of \<open>cascade_rollback\<close>: the rolled back hashes, the reasons, the balances of the
  last pass and the number of passes. Each further pass rolls back a transaction that was
  not rolled back before, so it ends.
\<close>

function cascade_loop ::
  "(string, u64) hash_map \<Rightarrow> (string, u64) hash_map \<Rightarrow> PartitionTxSummary list \<Rightarrow> string list
   \<Rightarrow> (string, RollbackReason) hash_map \<Rightarrow> u32
   \<Rightarrow> string list \<times> (string, RollbackReason) hash_map \<times> (string, u64) hash_map \<times> u32" where
  "cascade_loop fork_balances fork_nonces ordered_txs rolled_back reasons iteration_count =
     (let s = replay_all fork_balances fork_nonces ordered_txs rolled_back reasons
      in if rs_newly_rolled_back s = [] then (rolled_back, rs_reasons s, rs_balances s, iteration_count + 1)
         else cascade_loop fork_balances fork_nonces ordered_txs
                (rolled_back @ rs_newly_rolled_back s) (rs_reasons s) (iteration_count + 1))"
  by pat_completeness auto
termination
proof (relation "measure (\<lambda>(_, _, txs, rolled_back, _, _). card (ps_tx_hash ` set txs - set rolled_back))", goal_cases)
  case (2 fb fn txs rolled_back reasons i s)
  then have "set (rs_newly_rolled_back s) \<subseteq> ps_tx_hash ` set txs - set rolled_back" "rs_newly_rolled_back s \<noteq> []"
    using replay_all_newly by metis+
  then have "ps_tx_hash ` set txs - set (rolled_back @ rs_newly_rolled_back s) \<subset> ps_tx_hash ` set txs - set rolled_back"
    by (cases "rs_newly_rolled_back s") auto
  then show ?case by (auto intro: psubset_card_mono)
qed simp

declare cascade_loop.simps [simp del]

definition cascade_order :: "string list \<Rightarrow> PartitionTxSummary list \<Rightarrow> PartitionTxSummary list" where
  "cascade_order losing_tx_hashes all_txs =
     sort_key (\<lambda>tx. (ps_nonce tx, ps_dag_depth tx, ps_tx_hash tx))
       (filter (\<lambda>tx. ps_tx_hash tx \<notin> set losing_tx_hashes) (assign_dag_depths all_txs))"

definition cascade_detail ::
  "PartitionTxSummary list \<Rightarrow> (string, RollbackReason) hash_map \<Rightarrow> string \<Rightarrow> CascadeRollback option" where
  "cascade_detail all_txs reasons h =
     map_option (\<lambda>tx. \<lparr>cb_tx_hash = h,
         cb_reason = unwrap_or (hm_get reasons h) InsufficientBalanceAfterConflictResolution,
         cb_affected_account = ps_from tx,
         cb_amount_reverted_micro = saturating_add (ps_amount_micro tx) (ps_gas_micro tx)\<rparr>)
       (find (\<lambda>t. ps_tx_hash t = h) all_txs)"

definition cascade_rollback ::
  "(string list \<Rightarrow> string list) \<Rightarrow> string list \<Rightarrow> PartitionTxSummary list \<Rightarrow> (string, u64) hash_map
   \<Rightarrow> (string, u64) hash_map \<Rightarrow> RollbackReport" where
  "cascade_rollback iter losing_tx_hashes all_txs fork_point_balances_micro fork_point_nonces =
     (let ordered_txs = cascade_order losing_tx_hashes all_txs;
          (rolled_back, reasons, balances, iteration_count) =
            cascade_loop fork_point_balances_micro fork_point_nonces ordered_txs [] [] 0
      in \<lparr>rb_direct_conflict_losers = losing_tx_hashes,
          rb_cascade_rollbacks = List.map_filter (cascade_detail all_txs reasons)
            (filter (\<lambda>h. h \<notin> set losing_tx_hashes) (iter rolled_back)),
          rb_final_balances_micro = balances,
          rb_surviving_tx_hashes = map ps_tx_hash (filter (\<lambda>tx. ps_tx_hash tx \<notin> set rolled_back) ordered_txs),
          rb_iterations = iteration_count\<rparr>)"

definition build_fork_point_balances_micro :: "(string, Account) hash_map \<Rightarrow> (string, u64) hash_map" where
  "build_fork_point_balances_micro fork_point_accounts = hm_map_values acc_balance fork_point_accounts"

definition build_fork_point_nonces :: "(string, Account) hash_map \<Rightarrow> (string, u64) hash_map" where
  "build_fork_point_nonces fork_point_accounts = hm_map_values acc_nonce fork_point_accounts"

end
