(* ===== verification/Rinku_Cascade_Properties.thy ===== *)
theory Rinku_Cascade_Properties
  imports Rinku_Cascade
begin

text \<open>
  What the cascade leaves: the surviving transactions form a valid history of a simple
  ledger that starts at the fork point, with contiguous nonces and no overdraft.
\<close>

section \<open>The ledger\<close>

text \<open>
  The specification: a balance and a next nonce for every account, and a transaction that
  is refused unless its nonce is next and its sender can pay.
\<close>

type_synonym ledger = "(string \<Rightarrow> u64) \<times> (string \<Rightarrow> u64)"

definition tx_cost :: "PartitionTxSummary \<Rightarrow> u64" where
  "tx_cost tx = saturating_add (ps_amount_micro tx) (ps_gas_micro tx)"

definition ledger_apply :: "PartitionTxSummary \<Rightarrow> ledger \<Rightarrow> ledger option" where
  "ledger_apply tx = (\<lambda>(bal, nonce).
     if ps_nonce tx \<noteq> nonce (ps_from tx) \<or> bal (ps_from tx) < tx_cost tx then None
     else let bal = bal(ps_from tx := bal (ps_from tx) - tx_cost tx)
          in Some (bal(ps_to tx := bal (ps_to tx) + ps_amount_micro tx), nonce(ps_from tx := nonce (ps_from tx) + 1)))"

primrec ledger_run :: "PartitionTxSummary list \<Rightarrow> ledger \<Rightarrow> ledger option" where
  "ledger_run [] l = Some l"
| "ledger_run (tx # txs) l = Option.bind (ledger_apply tx l) (ledger_run txs)"

definition amount_at :: "(string, u64) hash_map \<Rightarrow> string \<Rightarrow> u64" where
  "amount_at m a = unwrap_or (hm_get m a) 0"

definition ledger_of :: "replay_state \<Rightarrow> ledger" where
  "ledger_of s = (amount_at (rs_balances s), amount_at (rs_nonces s))"

lemma amount_at_entry: "amount_at (hm_entry k 0 f m) = (amount_at m)(k := f (amount_at m k))"
  by (auto simp: amount_at_def hm_entry_def)

lemma amount_at_default: "amount_at (if hm_contains m k then m else hm_insert k 0 m) = amount_at m"
  by (auto simp: amount_at_def hm_contains_def)

section \<open>A pass that rolls nothing back\<close>

definition replayable :: "replay_state \<Rightarrow> PartitionTxSummary \<Rightarrow> bool" where
  "replayable s tx \<longleftrightarrow> ps_nonce tx = amount_at (rs_nonces s) (ps_from tx)
     \<and> \<not> amount_at (rs_balances s) (ps_from tx) < tx_cost tx"

lemma default_nonce:
  "unwrap_or (hm_get (if hm_contains m k then m else hm_insert k 0 m) k) 0 = amount_at m k"
  by (simp add: amount_at_def hm_contains_def)

lemma replay_tx_refuses:
  assumes "ps_tx_hash tx \<notin> set rolled_back" "\<not> replayable s tx"
  shows "rs_newly_rolled_back (replay_tx rolled_back tx s) = List.insert (ps_tx_hash tx) (rs_newly_rolled_back s)"
proof (cases "ps_nonce tx = amount_at (rs_nonces s) (ps_from tx)")
  case True
  with assms show ?thesis
    unfolding replay_tx_def Let_def by (simp only: if_False default_nonce) (simp add: replayable_def tx_cost_def amount_at_def)
next
  case False
  with assms show ?thesis unfolding replay_tx_def Let_def by (simp only: if_False default_nonce) simp
qed

lemma replay_tx_accepts:
  assumes "ps_tx_hash tx \<notin> set rolled_back" "replayable s tx"
  shows "replay_tx rolled_back tx s = s\<lparr>rs_balances := hm_entry (ps_to tx) 0 (\<lambda>b. b + ps_amount_micro tx)
      (hm_entry (ps_from tx) 0 (\<lambda>b. b - tx_cost tx) (rs_balances s)),
    rs_nonces := hm_entry (ps_from tx) 0 (\<lambda>n. n + 1)
      (if hm_contains (rs_nonces s) (ps_from tx) then rs_nonces s else hm_insert (ps_from tx) 0 (rs_nonces s))\<rparr>"
proof -
  from assms(2) have "ps_nonce tx = amount_at (rs_nonces s) (ps_from tx)"
    "\<not> unwrap_or (hm_get (rs_balances s) (ps_from tx)) 0 < saturating_add (ps_amount_micro tx) (ps_gas_micro tx)"
    by (simp_all add: replayable_def amount_at_def tx_cost_def)
  with assms(1) show ?thesis
    unfolding replay_tx_def Let_def by (simp only: if_False default_nonce) (simp add: tx_cost_def)
qed

lemma replay_tx_keeps:
  assumes "rs_newly_rolled_back (replay_tx rolled_back tx s) = []"
  shows "rs_newly_rolled_back s = [] \<and> (ps_tx_hash tx \<in> set rolled_back \<or> replayable s tx)"
proof (cases "ps_tx_hash tx \<in> set rolled_back")
  case True
  then show ?thesis using assms by (simp add: replay_tx_def)
next
  case False
  then have "replayable s tx" using assms replay_tx_refuses [OF False] by (metis insert_Nil not_Cons_self2 in_set_insert insert_iff list.set(2) set_insert empty_iff list.set(1))
  with False assms show ?thesis by (simp add: replay_tx_accepts)
qed

lemma replay_fold_keeps: "rs_newly_rolled_back (fold (replay_tx rolled_back) txs s) = [] \<Longrightarrow> rs_newly_rolled_back s = []"
proof (induction txs arbitrary: s)
  case (Cons tx txs)
  have "rs_newly_rolled_back (replay_tx rolled_back tx s) = []"
    by (rule Cons.IH) (use Cons.prems in \<open>simp only: fold_simps\<close>)
  from replay_tx_keeps [OF this] show ?case by (rule conjunct1)
qed simp

lemma replay_tx_ledger:
  assumes "rs_newly_rolled_back (replay_tx rolled_back tx s) = []" "ps_tx_hash tx \<notin> set rolled_back"
  shows "ledger_apply tx (ledger_of s) = Some (ledger_of (replay_tx rolled_back tx s))"
proof -
  have ok: "replayable s tx" using replay_tx_keeps [OF assms(1)] assms(2) by simp
  have eq: "ps_nonce tx = amount_at (rs_nonces s) (ps_from tx)" "\<not> amount_at (rs_balances s) (ps_from tx) < tx_cost tx"
    using ok by (simp_all add: replayable_def)
  have "ledger_of (replay_tx rolled_back tx s) =
      (let bal = (amount_at (rs_balances s))(ps_from tx := amount_at (rs_balances s) (ps_from tx) - tx_cost tx)
       in bal(ps_to tx := bal (ps_to tx) + ps_amount_micro tx),
       (amount_at (rs_nonces s))(ps_from tx := amount_at (rs_nonces s) (ps_from tx) + 1))"
    unfolding replay_tx_accepts [OF assms(2) ok] ledger_of_def Let_def
    by (simp add: amount_at_default amount_at_entry split del: if_split)
  then show ?thesis using eq by (simp add: ledger_apply_def ledger_of_def Let_def)
qed

lemma replay_fold_ledger:
  "rs_newly_rolled_back (fold (replay_tx rolled_back) txs s) = [] \<Longrightarrow>
   ledger_run (filter (\<lambda>tx. ps_tx_hash tx \<notin> set rolled_back) txs) (ledger_of s)
     = Some (ledger_of (fold (replay_tx rolled_back) txs s))"
proof (induction txs arbitrary: s)
  case (Cons tx txs)
  have k: "rs_newly_rolled_back (replay_tx rolled_back tx s) = []"
    by (rule replay_fold_keeps [of rolled_back txs]) (use Cons.prems in \<open>simp only: fold_simps\<close>)
  show ?case
  proof (cases "ps_tx_hash tx \<in> set rolled_back")
    case True
    then have "replay_tx rolled_back tx s = s" by (simp add: replay_tx_def)
    then show ?thesis using Cons True by simp
  next
    case False
    then show ?thesis using Cons replay_tx_ledger [OF k False] by simp
  qed
qed simp

text \<open>The state in which the loop stops.\<close>

lemma cascade_loop_stops:
  assumes "cascade_loop fb fn txs rolled_back reasons i = (rolled_back', reasons', balances, i')"
  shows "(\<exists>s r. s = replay_all fb fn txs rolled_back' r \<and> rs_newly_rolled_back s = [] \<and> rs_balances s = balances)
    \<and> set rolled_back \<subseteq> set rolled_back' \<and> set rolled_back' \<subseteq> set rolled_back \<union> ps_tx_hash ` set txs"
  using assms
proof (induction fb fn txs rolled_back reasons i rule: cascade_loop.induct)
  case (1 fb fn txs rolled_back reasons i)
  define s where "s = replay_all fb fn txs rolled_back reasons"
  show ?case
  proof (cases "rs_newly_rolled_back s = []")
    case True
    then show ?thesis using "1.prems" by (auto simp: cascade_loop.simps [of fb fn txs rolled_back] s_def Let_def)
  next
    case False
    then have "cascade_loop fb fn txs (rolled_back @ rs_newly_rolled_back s) (rs_reasons s) (i + 1) = (rolled_back', reasons', balances, i')"
      using "1.prems" by (simp add: cascade_loop.simps [of fb fn txs rolled_back] s_def Let_def)
    from "1.IH" [OF s_def False this] show ?thesis
      using replay_all_newly [of fb fn txs rolled_back reasons] by (auto simp: s_def)
  qed
qed

lemma cascade_rollback_cases:
  obtains rolled_back reasons where
    "rb_surviving_tx_hashes (cascade_rollback iter losers txs fb fn) =
       map ps_tx_hash (filter (\<lambda>tx. ps_tx_hash tx \<notin> set rolled_back) (cascade_order losers txs))"
    "rb_cascade_rollbacks (cascade_rollback iter losers txs fb fn) =
       List.map_filter (cascade_detail txs reasons) (filter (\<lambda>h. h \<notin> set losers) (iter rolled_back))"
    "set rolled_back \<subseteq> ps_tx_hash ` set (cascade_order losers txs)"
    "\<exists>n. ledger_run (filter (\<lambda>tx. ps_tx_hash tx \<notin> set rolled_back) (cascade_order losers txs)) (amount_at fb, amount_at fn)
       = Some (amount_at (rb_final_balances_micro (cascade_rollback iter losers txs fb fn)), n)"
proof -
  obtain rolled_back reasons balances i where
    l: "cascade_loop fb fn (cascade_order losers txs) [] [] 0 = (rolled_back, reasons, balances, i)"
    by (metis prod_cases4)
  from cascade_loop_stops [OF l] obtain r where
    s: "rs_newly_rolled_back (replay_all fb fn (cascade_order losers txs) rolled_back r) = []"
       "rs_balances (replay_all fb fn (cascade_order losers txs) rolled_back r) = balances"
       "set rolled_back \<subseteq> ps_tx_hash ` set (cascade_order losers txs)" by auto
  from replay_fold_ledger [OF s(1) [unfolded replay_all_def]]
  have "ledger_run (filter (\<lambda>tx. ps_tx_hash tx \<notin> set rolled_back) (cascade_order losers txs)) (amount_at fb, amount_at fn)
      = Some (ledger_of (replay_all fb fn (cascade_order losers txs) rolled_back r))"
    by (simp add: ledger_of_def replay_all_def)
  then show thesis using that [of rolled_back reasons] l s by (auto simp: cascade_rollback_def ledger_of_def)
qed

text \<open>The survivors, as transactions in canonical order.\<close>

definition survivors :: "RollbackReport \<Rightarrow> PartitionTxSummary list \<Rightarrow> PartitionTxSummary list" where
  "survivors r ordered = filter (\<lambda>tx. ps_tx_hash tx \<in> set (rb_surviving_tx_hashes r)) ordered"

lemma survivors_filter:
  assumes "rb_surviving_tx_hashes r = map ps_tx_hash (filter (\<lambda>tx. ps_tx_hash tx \<notin> set rolled_back) ordered)"
  shows "survivors r ordered = filter (\<lambda>tx. ps_tx_hash tx \<notin> set rolled_back) ordered"
  unfolding survivors_def assms by (rule filter_cong) auto

lemma survivors_run:
  "\<exists>n. ledger_run (survivors (cascade_rollback iter losers txs fb fn) (cascade_order losers txs)) (amount_at fb, amount_at fn)
     = Some (amount_at (rb_final_balances_micro (cascade_rollback iter losers txs fb fn)), n)"
  by (rule cascade_rollback_cases [of iter losers txs fb fn]) (simp add: survivors_filter)

text \<open>
  C10: what the cascade leaves is a valid history: the surviving transactions, in canonical
  order, are accepted one after the other by the ledger that starts at the fork point, and
  the reported balances are the ones they lead to.
\<close>
theorem cascade_survivors_replay:
  "\<exists>n. ledger_run (survivors (cascade_rollback iter losers txs fb fn) (cascade_order losers txs)) (amount_at fb, amount_at fn)
     = Some (amount_at (rb_final_balances_micro (cascade_rollback iter losers txs fb fn)), n)"
  by (rule survivors_run)

section \<open>Nonces\<close>

lemma ledger_run_nonces:
  "ledger_run txs (bal, nonce) = Some (bal', nonce') \<Longrightarrow>
   map ps_nonce (filter (\<lambda>tx. ps_from tx = a) txs) =
     map (\<lambda>i. nonce a + word_of_nat i) [0 ..< length (filter (\<lambda>tx. ps_from tx = a) txs)]"
proof (induction txs arbitrary: bal nonce)
  case (Cons tx txs)
  from Cons.prems obtain b n where
    ap: "ledger_apply tx (bal, nonce) = Some (b, n)" and run: "ledger_run txs (b, n) = Some (bal', nonce')"
    by (auto simp: bind_eq_Some_conv)
  from ap have n: "n = nonce(ps_from tx := nonce (ps_from tx) + 1)" "ps_nonce tx = nonce (ps_from tx)"
    by (auto simp: ledger_apply_def Let_def split: if_splits)
  show ?case
  proof (cases "ps_from tx = a")
    case True
    have "map (\<lambda>i. nonce a + word_of_nat i) [0 ..< Suc k] = nonce a # map (\<lambda>i. nonce a + 1 + word_of_nat i) [0 ..< k]" for k
      by (simp add: upt_conv_Cons map_Suc_upt [symmetric] comp_def ac_simps del: upt_Suc)
    then show ?thesis using Cons.IH [OF run] True n by simp
  next
    case False
    then show ?thesis using Cons.IH [OF run] n by simp
  qed
qed simp

definition account_survivors ::
  "string \<Rightarrow> (string list \<Rightarrow> string list) \<Rightarrow> string list \<Rightarrow> PartitionTxSummary list \<Rightarrow> (string, u64) hash_map
   \<Rightarrow> (string, u64) hash_map \<Rightarrow> PartitionTxSummary list" where
  "account_survivors a iter losers txs fb fn =
     filter (\<lambda>tx. ps_from tx = a) (survivors (cascade_rollback iter losers txs fb fn) (cascade_order losers txs))"

lemma length_cascade_order: "length (cascade_order losers txs) \<le> length txs"
  unfolding cascade_order_def length_sort by (rule order.trans [OF length_filter_le]) (simp add: assign_dag_depths_def Let_def)

lemma length_account_survivors: "length (account_survivors a iter losers txs fb fn) \<le> length txs"
  unfolding account_survivors_def survivors_def
  by (meson length_filter_le length_cascade_order order.trans)

lemma offsets_distinct: "k \<le> 2 ^ 64 \<Longrightarrow> distinct (map (\<lambda>i. n + word_of_nat i :: u64) [0 ..< k])"
proof -
  assume "k \<le> 2 ^ 64"
  moreover have "i = j" if "n + word_of_nat i = (n + word_of_nat j :: u64)" "i < 2 ^ 64" "j < 2 ^ 64" for i j
  proof -
    have "unat (word_of_nat i :: u64) = unat (word_of_nat j :: u64)" using that(1) by simp
    then show ?thesis using that(2,3) by (simp add: unat_of_nat)
  qed
  ultimately show ?thesis by (auto simp: distinct_map intro!: inj_onI)
qed

lemma account_survivor_nonces:
  "map ps_nonce (account_survivors a iter losers txs fb fn) =
      map (\<lambda>i. amount_at fn a + word_of_nat i) [0 ..< length (account_survivors a iter losers txs fb fn)]"
  using survivors_run [of iter losers txs fb fn] ledger_run_nonces unfolding account_survivors_def by blast

text \<open>
  C18: no double spend survives a merge, whatever the conflict detection found: the surviving
  transactions of an account carry the consecutive nonces that follow its nonce at the fork
  point, so (with fewer than \<open>2^64\<close> transactions) no nonce is used twice.
\<close>
theorem survivor_nonces_contiguous:
  assumes "length txs < 2 ^ 64"
  shows "map ps_nonce (account_survivors a iter losers txs fb fn) =
      map (\<lambda>i. amount_at fn a + word_of_nat i) [0 ..< length (account_survivors a iter losers txs fb fn)]
    \<and> distinct (map ps_nonce (account_survivors a iter losers txs fb fn))"
proof -
  note m = account_survivor_nonces [of a iter losers txs fb fn]
  have "length (account_survivors a iter losers txs fb fn) \<le> 2 ^ 64"
    using length_account_survivors [of a iter losers txs fb fn] assms by simp
  from offsets_distinct [OF this] show ?thesis unfolding m by simp
qed

text \<open>A payment of 10 with gas 1.\<close>

definition sample_payment :: "string \<Rightarrow> string \<Rightarrow> u64 \<Rightarrow> f64 \<Rightarrow> PartitionTxSummary" where
  "sample_payment hash from nonce weight =
     \<lparr>ps_tx_hash = hash, ps_from = from, ps_to = ''bob'', ps_amount_micro = 10, ps_gas_micro = 1, ps_nonce = nonce,
      ps_weight = weight, ps_dag_depth = 0, ps_parents = [], ps_partition_epoch = None, ps_visible_stake_pct = Fin 1\<rparr>"

definition sample_payments :: "PartitionTxSummary list" where
  "sample_payments = [sample_payment ''x'' ''alice'' 0 (Fin 1), sample_payment ''y'' ''alice'' 0 (Fin 2), sample_payment ''z'' ''alice'' 1 (Fin 1)]"

theorem survivor_nonces_contiguous_witness:
  "distinct (map ps_nonce (account_survivors ''alice'' (\<lambda>xs. xs) [''x''] sample_payments [(''alice'', 100)] []))"
proof -
  have "length sample_payments < 2 ^ 64" by (simp add: sample_payments_def)
  from survivor_nonces_contiguous [OF this] show ?thesis by blast
qed

section \<open>Conservation\<close>

definition held :: "string set \<Rightarrow> (string \<Rightarrow> u64) \<Rightarrow> nat" where
  "held A bal = (\<Sum>a \<in> A. unat (bal a))"

lemma held_update: "finite A \<Longrightarrow> a \<in> A \<Longrightarrow> held A (bal(a := v)) + unat (bal a) = held A bal + unat v"
  unfolding held_def by (simp add: sum.remove [of A a])

lemma held_ge: "finite A \<Longrightarrow> a \<in> A \<Longrightarrow> unat (bal a) \<le> held A bal"
  unfolding held_def by (rule member_le_sum) simp_all

lemma tx_cost_exact:
  "unat (tx_cost tx) < 2 ^ 64 - 1 \<Longrightarrow> unat (tx_cost tx) = unat (ps_amount_micro tx) + unat (ps_gas_micro tx)"
  by (simp add: tx_cost_def unat_saturating_add)

lemma ledger_apply_conserves:
  assumes A: "finite A" "ps_from tx \<in> A" "ps_to tx \<in> A" and bound: "held A bal < 2 ^ 64 - 1"
    and ap: "ledger_apply tx (bal, nonce) = Some (bal', nonce')"
  shows "held A bal' + unat (ps_gas_micro tx) = held A bal"
proof -
  let ?f = "ps_from tx" and ?t = "ps_to tx" and ?c = "tx_cost tx"
  define b where "b = bal(?f := bal ?f - ?c)"
  from ap have pay: "?c \<le> bal ?f" and b': "bal' = b(?t := b ?t + ps_amount_micro tx)"
    by (auto simp: ledger_apply_def Let_def b_def split: if_splits)
  have "unat (bal ?f) < 2 ^ 64 - 1" using held_ge [OF A(1,2), of bal] bound by linarith
  then have c: "unat ?c = unat (ps_amount_micro tx) + unat (ps_gas_micro tx)"
    using pay by (intro tx_cost_exact) (auto simp: word_le_nat_alt)
  have 1: "held A b + unat ?c = held A bal"
    using held_update [OF A(1,2), of bal "bal ?f - ?c"] pay held_ge [OF A(1,2), of bal]
    by (simp add: b_def unat_sub word_le_nat_alt)
  have "unat (b ?t) + unat (ps_amount_micro tx) < 2 ^ 64" using held_ge [OF A(1,3), of b] 1 c bound by linarith
  then have "unat (b ?t + ps_amount_micro tx) = unat (b ?t) + unat (ps_amount_micro tx)" by (simp add: unat_add_no_overflow)
  then show ?thesis using held_update [OF A(1,3), of b "b ?t + ps_amount_micro tx"] 1 c by (simp add: b')
qed

lemma ledger_run_conserves:
  "finite A \<Longrightarrow> ps_from ` set txs \<union> ps_to ` set txs \<subseteq> A \<Longrightarrow> held A bal < 2 ^ 64 - 1 \<Longrightarrow>
   ledger_run txs (bal, nonce) = Some (bal', nonce') \<Longrightarrow>
   held A bal' + sum_list (map (\<lambda>tx. unat (ps_gas_micro tx)) txs) = held A bal"
proof (induction txs arbitrary: bal nonce)
  case (Cons tx txs)
  from Cons.prems(4) obtain b n where
    ap: "ledger_apply tx (bal, nonce) = Some (b, n)" and run: "ledger_run txs (b, n) = Some (bal', nonce')"
    by (auto simp: bind_eq_Some_conv)
  have "held A b + unat (ps_gas_micro tx) = held A bal"
    using Cons.prems(2,3) by (intro ledger_apply_conserves [OF Cons.prems(1) _ _ _ ap]) auto
  with Cons.IH [OF Cons.prems(1) _ _ run] Cons.prems(2,3) show ?case by simp
qed simp

text \<open>
  C28: the cascade creates and destroys no money: over any set of accounts that contains the
  parties of the survivors, the final balances and the gas the survivors pay add up to the
  balances at the fork point.
\<close>
theorem cascade_conserves_value:
  assumes "finite A" "\<forall>tx \<in> set txs. ps_from tx \<in> A \<and> ps_to tx \<in> A" "held A (amount_at fb) < 2 ^ 64 - 1"
  shows "held A (amount_at (rb_final_balances_micro (cascade_rollback iter losers txs fb fn)))
    + sum_list (map (\<lambda>tx. unat (ps_gas_micro tx)) (survivors (cascade_rollback iter losers txs fb fn) (cascade_order losers txs)))
    = held A (amount_at fb)"
proof -
  have "ps_from tx \<in> A \<and> ps_to tx \<in> A" if "tx \<in> set (cascade_order losers txs)" for tx
    using that assms(2) by (auto simp: cascade_order_def assign_dag_depths_def Let_def)
  then have p: "ps_from ` set (survivors r (cascade_order losers txs)) \<union> ps_to ` set (survivors r (cascade_order losers txs)) \<subseteq> A" for r
    by (auto simp: survivors_def)
  from survivors_run [of iter losers txs fb fn] ledger_run_conserves [OF assms(1) p assms(3)] show ?thesis by blast
qed

theorem cascade_conserves_value_witness:
  "held {''alice'', ''bob''} (amount_at (rb_final_balances_micro (cascade_rollback (\<lambda>xs. xs) [''x''] sample_payments [(''alice'', 100)] [])))
    + sum_list (map (\<lambda>tx. unat (ps_gas_micro tx)) (survivors (cascade_rollback (\<lambda>xs. xs) [''x''] sample_payments [(''alice'', 100)] [])
        (cascade_order [''x''] sample_payments))) = 100"
proof -
  have "held {''alice'', ''bob''} (amount_at [(''alice'', 100)]) = 100" by (simp add: held_def amount_at_def)
  then show ?thesis
    using cascade_conserves_value [of "{''alice'', ''bob''}" sample_payments "[(''alice'', 100)]" "\<lambda>xs. xs" "[''x'']" "[]"]
    by (simp add: sample_payments_def sample_payment_def)
qed

section \<open>Every transaction is accounted for\<close>

lemma image_Collect_mem_diff: "f ` {x \<in> X. f x \<notin> Y} = f ` X - Y"
  by auto

lemma cascade_order_hashes: "ps_tx_hash ` set (cascade_order losers txs) = ps_tx_hash ` set txs - set losers"
proof -
  have "ps_tx_hash ` set (assign_dag_depths txs) = ps_tx_hash ` set txs"
    by (simp add: assign_dag_depths_def Let_def image_image)
  moreover have "set (cascade_order losers txs) = {tx \<in> set (assign_dag_depths txs). ps_tx_hash tx \<notin> set losers}"
    by (simp add: cascade_order_def)
  ultimately show ?thesis by (simp add: image_Collect_mem_diff)
qed

lemma cascade_detail_hash: "cascade_detail txs reasons h = Some c \<Longrightarrow> cb_tx_hash c = h"
  by (auto simp: cascade_detail_def)

lemma cascade_detail_found: "h \<in> ps_tx_hash ` set txs \<Longrightarrow> \<exists>c. cascade_detail txs reasons h = Some c"
  unfolding cascade_detail_def by (metis (mono_tags, lifting) find_None_iff image_iff not_None_eq option.simps(9))

lemma cascade_partitions_txs_helper:
  assumes "iteration_order iter"
  shows "let r = cascade_rollback iter losers txs fb fn; fallen = set (map cb_tx_hash (rb_cascade_rollbacks r));
      kept = set (rb_surviving_tx_hashes r)
    in ps_tx_hash ` set txs - set losers = fallen \<union> kept \<and> fallen \<inter> kept = {}
       \<and> set losers \<inter> (fallen \<union> kept) = {}"
proof -
  obtain rolled_back reasons where
    kept: "rb_surviving_tx_hashes (cascade_rollback iter losers txs fb fn) =
       map ps_tx_hash (filter (\<lambda>tx. ps_tx_hash tx \<notin> set rolled_back) (cascade_order losers txs))"
    and fallen: "rb_cascade_rollbacks (cascade_rollback iter losers txs fb fn) =
       List.map_filter (cascade_detail txs reasons) (filter (\<lambda>h. h \<notin> set losers) (iter rolled_back))"
    and sub: "set rolled_back \<subseteq> ps_tx_hash ` set txs - set losers"
    by (rule cascade_rollback_cases [of iter losers txs fb fn]) (simp add: cascade_order_hashes)
  have "set (map cb_tx_hash (rb_cascade_rollbacks (cascade_rollback iter losers txs fb fn))) = set rolled_back"
    unfolding fallen using sub cascade_detail_found cascade_detail_hash iteration_order_set [OF assms, of rolled_back]
    by (fastforce simp: map_filter_def image_iff)
  moreover have "set (rb_surviving_tx_hashes (cascade_rollback iter losers txs fb fn)) = ps_tx_hash ` set txs - set losers - set rolled_back"
    unfolding kept cascade_order_hashes [of losers txs, symmetric] by (simp add: image_Collect_mem_diff)
  ultimately show ?thesis using sub unfolding Let_def by auto
qed

text \<open>
  Every transaction of the two partitions is a conflict loser, a cascade rollback or a
  survivor, and no hash is two of these.
\<close>
theorem cascade_partitions_txs:
  assumes "iteration_order iter"
  shows "let r = cascade_rollback iter losers txs fb fn; fallen = set (map cb_tx_hash (rb_cascade_rollbacks r));
      kept = set (rb_surviving_tx_hashes r)
    in ps_tx_hash ` set txs - set losers = fallen \<union> kept \<and> fallen \<inter> kept = {}
       \<and> set losers \<inter> (fallen \<union> kept) = {}"
  using assms by (rule cascade_partitions_txs_helper)

theorem cascade_partitions_txs_witness:
  "let r = cascade_rollback (\<lambda>xs. xs) [''x''] sample_payments [(''alice'', 100)] [];
       fallen = set (map cb_tx_hash (rb_cascade_rollbacks r)); kept = set (rb_surviving_tx_hashes r)
   in {''y'', ''z''} = fallen \<union> kept"
proof -
  have "ps_tx_hash ` set sample_payments - set [''x''] = {''y'', ''z''}" by (auto simp: sample_payments_def sample_payment_def)
  then show ?thesis
    using cascade_partitions_txs [OF iteration_order_id, of "[''x'']" sample_payments "[(''alice'', 100)]" "[]"] unfolding Let_def by simp
qed

text \<open>
  A transaction that reached both sides is listed twice. Its second copy no longer has the
  next nonce, and since rollbacks are recorded by hash, the first copy falls with it.
\<close>

lemma count_map_filter: "P (f x) \<Longrightarrow> count (mset xs) x \<le> count (mset (filter P (map f xs))) (f x)"
  by (induction xs) auto

lemma shared_tx_rolled_back:
  assumes "t \<in> set l" "t \<in> set r" "length (l @ r) < 2 ^ 64"
  shows "ps_tx_hash t \<notin> set (rb_surviving_tx_hashes (cascade_rollback iter losers (l @ r) fb fn))"
proof
  let ?f = "\<lambda>tx. tx\<lparr>ps_dag_depth := unwrap_or (hm_get (depths_of (l @ r)) (ps_tx_hash tx)) 0\<rparr>"
  let ?mine = "account_survivors (ps_from t) iter losers (l @ r) fb fn" and ?R = "cascade_rollback iter losers (l @ r) fb fn"
  assume h: "ps_tx_hash t \<in> set (rb_surviving_tx_hashes ?R)"
  obtain rolled_back where "rb_surviving_tx_hashes ?R = map ps_tx_hash (filter (\<lambda>tx. ps_tx_hash tx \<notin> set rolled_back) (cascade_order losers (l @ r)))"
    by (rule cascade_rollback_cases [of iter losers "l @ r" fb fn]) blast
  with h have "ps_tx_hash t \<in> ps_tx_hash ` set (cascade_order losers (l @ r))" by auto
  then have L: "ps_tx_hash t \<notin> set losers" unfolding cascade_order_hashes by simp
  have "mset ?mine = mset (filter (\<lambda>tx. ps_from tx = ps_from t \<and> ps_tx_hash tx \<in> set (rb_surviving_tx_hashes ?R) \<and> ps_tx_hash tx \<notin> set losers)
      (map ?f (l @ r)))"
    by (simp add: account_survivors_def survivors_def cascade_order_def assign_dag_depths_def Let_def filter_sort [symmetric] filter_filter filter_filter_mset conj_ac)
  then have "count (mset (l @ r)) t \<le> count (mset ?mine) (?f t)"
    using count_map_filter [of "\<lambda>tx. ps_from tx = ps_from t \<and> ps_tx_hash tx \<in> set (rb_surviving_tx_hashes ?R) \<and> ps_tx_hash tx \<notin> set losers"
        ?f t "l @ r"] h L by simp
  moreover have "2 \<le> count (mset (l @ r)) t" using assms(1,2) by (metis add_mono count_greater_eq_one_iff count_union mset_append one_add_one set_mset_mset)
  moreover have "distinct (map ps_nonce ?mine)"
    unfolding account_survivor_nonces using length_account_survivors [of "ps_from t" iter losers "l @ r" fb fn] assms(3)
    by (intro offsets_distinct) simp
  then have "distinct ?mine" by (simp add: distinct_map)
  then have "count (mset ?mine) (?f t) \<le> 1" by (simp add: distinct_count_atmost_1)
  ultimately show False by linarith
qed

end
