(* ===== verification/Rinku_Merge_Converge.thy ===== *)
theory Rinku_Merge_Converge
  imports Rinku_Cascade_Properties
begin

text \<open>
  Both sides of a partition compute the same outcome. The side that calls a transaction
  local calls the other's remote, so the claim is that detection, resolution and cascade
  give the same result when the two lists change places.
\<close>

section \<open>Symmetry of the weight comparison\<close>

lemma rnd_minus: "rnd (- x) = f64_neg (rnd x)"
  by (auto simp: rnd_def Let_def)

lemma f64_sub_swap: "f64_sub y x = f64_neg (f64_sub x y)"
proof (cases "\<exists>a b. x = Fin a \<and> y = Fin b")
  case True
  then obtain a b where "x = Fin a" "y = Fin b" by blast
  then show ?thesis using rnd_minus [of "a - b"] by (simp add: f64_sub_def)
next
  case False
  then show ?thesis by (cases x; cases y) (simp_all add: f64_sub_def)
qed

lemma f64_abs_neg: "f64_abs (f64_neg x) = f64_abs x"
  by (cases x) (auto simp: f64_abs_def)

lemma f64_distance_commute: "f64_abs (f64_sub x y) = f64_abs (f64_sub y x)"
  by (simp add: f64_sub_swap [of y x] f64_abs_neg)

lemma f64_sub_self: "f64_sub x x \<in> {Fin 0, NaN}"
  by (cases x) (simp_all add: f64_sub_def rnd_def)

lemma f64_lt_total: "x \<noteq> NaN \<Longrightarrow> y \<noteq> NaN \<Longrightarrow> x \<noteq> y \<Longrightarrow> f64_lt x y \<longleftrightarrow> \<not> f64_lt y x"
  by (cases x; cases y) auto

lemma apart_lt:
  assumes "f64_lt F64_EPSILON (f64_abs (f64_sub x y))"
  shows "f64_lt x y \<longleftrightarrow> \<not> f64_lt y x"
proof (rule f64_lt_total)
  show "x \<noteq> NaN" using assms by (auto simp: f64_sub_def f64_abs_def F64_EPSILON_def)
  show "y \<noteq> NaN" using assms by (cases x) (auto simp: f64_sub_def f64_abs_def F64_EPSILON_def)
  show "x \<noteq> y" using assms f64_sub_self [of x] by (auto simp: f64_abs_def F64_EPSILON_def)
qed

lemma direct_winner_swap:
  assumes "h \<noteq> h'"
  shows "direct_winner w' w s' s h' h = map_prod Not id (direct_winner w w' s s' h h')"
proof -
  let ?far = "f64_lt F64_EPSILON (f64_abs (f64_sub w w'))" and ?sfar = "f64_lt F64_EPSILON (f64_abs (f64_sub s s'))"
  have d: "f64_abs (f64_sub w' w) = f64_abs (f64_sub w w')" "f64_abs (f64_sub s' s) = f64_abs (f64_sub s s')"
    by (simp_all add: f64_distance_commute)
  have h: "h' < h \<longleftrightarrow> \<not> h < h'" using assms by auto
  have w: "?far \<Longrightarrow> f64_lt w w' \<longleftrightarrow> \<not> f64_lt w' w" by (rule apart_lt)
  have s: "?sfar \<Longrightarrow> f64_lt s s' \<longleftrightarrow> \<not> f64_lt s' s" by (rule apart_lt)
  show ?thesis
  proof (cases ?far)
    case True
    with w have "f64_lt w w' \<longleftrightarrow> \<not> f64_lt w' w" by blast
    then show ?thesis using True s by (cases "f64_lt w' w"; cases ?sfar) (simp_all add: direct_winner_def d h Let_def)
  next
    case False
    then show ?thesis by (simp add: direct_winner_def d h Let_def)
  qed
qed

section \<open>The two partitions\<close>

definition partitions_ok :: "PartitionTxSummary list \<Rightarrow> PartitionTxSummary list \<Rightarrow> bool" where
  "partitions_ok l r \<longleftrightarrow>
     distinct (map ps_tx_hash (l @ r))
     \<and> (\<forall>xs \<in> {l, r}. \<forall>x \<in> set xs. \<forall>y \<in> set xs. ps_from x = ps_from y \<longrightarrow> ps_nonce x = ps_nonce y
          \<longrightarrow> ps_from x \<noteq> ''genesis'' \<longrightarrow> x = y)
     \<and> (\<forall>x \<in> set (l @ r). ps_weight x \<noteq> NaN)
     \<and> (\<exists>rank :: string \<Rightarrow> nat. \<forall>x \<in> set (l @ r). \<forall>p \<in> set (ps_parents x).
          p \<in> ps_tx_hash ` set (l @ r) \<longrightarrow> rank p < rank (ps_tx_hash x))"

lemma partitions_ok_swap: "partitions_ok l r \<Longrightarrow> partitions_ok r l"
  unfolding partitions_ok_def by (auto simp: Un_commute insert_commute)

lemma partitions_nonce_inj:
  assumes "partitions_ok l r" "x \<in> set l" "y \<in> set l" "ps_from x = ps_from y" "ps_nonce x = ps_nonce y" "ps_from x \<noteq> ''genesis''"
  shows "x = y"
proof -
  from assms(1) have "\<forall>x \<in> set l. \<forall>y \<in> set l. ps_from x = ps_from y \<longrightarrow> ps_nonce x = ps_nonce y \<longrightarrow> ps_from x \<noteq> ''genesis'' \<longrightarrow> x = y"
    unfolding partitions_ok_def by (simp only: ball_simps) blast
  then show ?thesis using assms(2-) by blast
qed

lemma partitions_hash_inj:
  "partitions_ok l r \<Longrightarrow> x \<in> set (l @ r) \<Longrightarrow> y \<in> set (l @ r) \<Longrightarrow> ps_tx_hash x = ps_tx_hash y \<Longrightarrow> x = y"
  unfolding partitions_ok_def distinct_map by (meson inj_onD)

lemma partitions_disjoint:
  "partitions_ok l r \<Longrightarrow> x \<in> set l \<Longrightarrow> y \<in> set r \<Longrightarrow> ps_tx_hash x \<noteq> ps_tx_hash y"
  unfolding partitions_ok_def by auto

lemma set_map_filter_Some: "set (List.map_filter f xs) = {y. \<exists>x \<in> set xs. f x = Some y}"
  by (induction xs) (auto simp: map_filter_simps split: option.splits)

subsection \<open>Direct conflicts\<close>

lemma nonce_index_fold:
  "hm_get (fold (\<lambda>tx m. if ps_from tx = ''genesis'' then m else hm_insert (ps_from tx, ps_nonce tx) (ps_tx_hash tx) m) txs m0) k = Some h
   \<Longrightarrow> hm_get m0 k = Some h \<or> (\<exists>tx \<in> set txs. ps_from tx \<noteq> ''genesis'' \<and> k = (ps_from tx, ps_nonce tx) \<and> h = ps_tx_hash tx)"
proof (induction txs arbitrary: m0)
  case (Cons tx txs)
  from Cons.IH [OF Cons.prems [unfolded fold_simps]] show ?case by (auto split: if_splits)
qed simp

lemma nonce_index_keeps:
  "hm_get m0 k \<noteq> None \<or> (\<exists>tx \<in> set txs. ps_from tx \<noteq> ''genesis'' \<and> k = (ps_from tx, ps_nonce tx)) \<Longrightarrow>
   hm_get (fold (\<lambda>tx m. if ps_from tx = ''genesis'' then m else hm_insert (ps_from tx, ps_nonce tx) (ps_tx_hash tx) m) txs m0) k \<noteq> None"
proof (induction txs arbitrary: m0)
  case (Cons tx txs)
  show ?case unfolding fold_simps by (rule Cons.IH) (use Cons.prems in auto)
qed simp

lemma nonce_index_get:
  assumes "partitions_ok l r" "tx \<in> set l" "ps_from tx \<noteq> ''genesis''"
  shows "hm_get (local_nonce_index l) (ps_from tx, ps_nonce tx) = Some (ps_tx_hash tx)"
proof -
  have "hm_get (local_nonce_index l) (ps_from tx, ps_nonce tx) \<noteq> None"
    unfolding local_nonce_index_def by (rule nonce_index_keeps) (use assms(2,3) in blast)
  then obtain h where h: "hm_get (local_nonce_index l) (ps_from tx, ps_nonce tx) = Some h" by blast
  from nonce_index_fold [OF this [unfolded local_nonce_index_def]] obtain y where
    "y \<in> set l" "ps_from y = ps_from tx" "ps_nonce y = ps_nonce tx" "h = ps_tx_hash y" by auto
  then have "y = tx" using partitions_nonce_inj [OF assms(1), of y tx] assms(2,3) by simp
  then show ?thesis using h \<open>h = ps_tx_hash y\<close> by simp
qed

lemma nonce_index_Some:
  "hm_get (local_nonce_index l) (a, n) = Some h \<Longrightarrow>
   \<exists>tx \<in> set l. ps_from tx = a \<and> ps_nonce tx = n \<and> ps_tx_hash tx = h \<and> a \<noteq> ''genesis''"
  using nonce_index_fold [of l "[]" "(a, n)" h] unfolding local_nonce_index_def by auto

text \<open>Collecting a list into a map keyed by the transaction hash.\<close>

lemma collect_get:
  assumes "inj_on ps_tx_hash (set xs)" "tx \<in> set xs"
  shows "hm_get (fold (\<lambda>t. hm_insert (ps_tx_hash t) (v t)) xs []) (ps_tx_hash tx) = Some (v tx)"
proof -
  have "hm_get (fold (\<lambda>t. hm_insert (ps_tx_hash t) (v t)) ys m0) (ps_tx_hash tx) = Some (v tx)"
    if "set ys \<subseteq> set xs" "tx \<in> set ys \<or> hm_get m0 (ps_tx_hash tx) = Some (v tx)" for ys m0
    using that
  proof (induction ys arbitrary: m0)
    case (Cons y ys)
    show ?case unfolding fold_simps
    proof (rule Cons.IH)
      show "set ys \<subseteq> set xs" using Cons.prems by simp
      show "tx \<in> set ys \<or> hm_get (hm_insert (ps_tx_hash y) (v y) m0) (ps_tx_hash tx) = Some (v tx)"
      proof (cases "y = tx")
        case False
        then have "ps_tx_hash tx \<noteq> ps_tx_hash y" using assms Cons.prems(1) by (metis inj_onD insert_subset list.simps(15))
        then show ?thesis using Cons.prems(2) False by simp
      qed simp
    qed
  qed simp
  then show ?thesis using assms(2) by simp
qed

lemma collect_None:
  "h \<notin> ps_tx_hash ` set xs \<Longrightarrow> hm_get (fold (\<lambda>t. hm_insert (ps_tx_hash t) (v t)) xs m) h = hm_get m h"
  by (induction xs arbitrary: m) auto

lemma partitions_inj_on: "partitions_ok l r \<Longrightarrow> inj_on ps_tx_hash (set (l @ r))"
  unfolding partitions_ok_def distinct_map by blast

text \<open>The loser of two transactions that carry the same nonce.\<close>

definition pair_loser :: "PartitionTxSummary \<Rightarrow> PartitionTxSummary \<Rightarrow> string" where
  "pair_loser a b =
     (if fst (direct_winner (ps_weight a) (ps_weight b) (ps_visible_stake_pct a) (ps_visible_stake_pct b) (ps_tx_hash a) (ps_tx_hash b))
      then ps_tx_hash b else ps_tx_hash a)"

lemma pair_loser_swap: "ps_tx_hash a \<noteq> ps_tx_hash b \<Longrightarrow> pair_loser a b = pair_loser b a"
  unfolding pair_loser_def by (simp add: direct_winner_swap [of "ps_tx_hash a" "ps_tx_hash b"])

lemma direct_losers:
  assumes ok: "partitions_ok l r"
  shows "(\<Union>res \<in> set (resolve_direct_conflicts (detect_direct_conflicts l r) l r). set (cr_loser_tx_hashes res))
    = {pair_loser a b | a b. a \<in> set l \<and> b \<in> set r \<and> ps_from a = ps_from b \<and> ps_nonce a = ps_nonce b \<and> ps_from a \<noteq> ''genesis''}"
    (is "?L = ?R")
proof -
  have sm: "hm_get (summary_map xs) (ps_tx_hash tx) = Some tx" if "xs = l \<or> xs = r" "tx \<in> set xs" for xs tx
    unfolding summary_map_def using that inj_on_subset [OF partitions_inj_on [OF ok]] by (intro collect_get) auto
  have losers: "set (cr_loser_tx_hashes (resolve_direct l r c)) = {pair_loser a b}"
    if "a \<in> set l" "b \<in> set r" "dc_local_tx_hash c = ps_tx_hash a" "dc_remote_tx_hash c = ps_tx_hash b" for a b c
    using that sm [of l a] sm [of r b] by (simp add: resolve_direct_def pair_loser_def Let_def split: prod.split)
  have conflict: "\<exists>c. direct_conflict l b = Some c \<and> dc_local_tx_hash c = ps_tx_hash a \<and> dc_remote_tx_hash c = ps_tx_hash b"
    if "a \<in> set l" "b \<in> set r" "ps_from a = ps_from b" "ps_nonce a = ps_nonce b" "ps_from a \<noteq> ''genesis''" for a b
    using that nonce_index_get [OF ok that(1,5)] partitions_disjoint [OF ok that(1,2)] by (simp add: direct_conflict_def)
  have source: "\<exists>a \<in> set l. ps_from a = ps_from b \<and> ps_nonce a = ps_nonce b \<and> ps_from a \<noteq> ''genesis''
      \<and> dc_local_tx_hash c = ps_tx_hash a \<and> dc_remote_tx_hash c = ps_tx_hash b" if "direct_conflict l b = Some c" for b c
    using that nonce_index_Some [of l "ps_from b" "ps_nonce b"]
    by (auto simp: direct_conflict_def split: if_splits option.splits)
  have set: "set (detect_direct_conflicts l r) = {c. \<exists>b \<in> set r. direct_conflict l b = Some c}"
    by (simp add: detect_direct_conflicts_def set_map_filter_Some)
  show ?thesis
  proof (intro equalityI subsetI)
    fix h assume "h \<in> ?L"
    then obtain b c where "b \<in> set r" "direct_conflict l b = Some c" "h \<in> set (cr_loser_tx_hashes (resolve_direct l r c))"
      unfolding resolve_direct_conflicts_def by (auto simp: set)
    with source [of b c] losers show "h \<in> ?R" by blast
  next
    fix h assume "h \<in> ?R"
    then obtain a b where ab: "h = pair_loser a b" "a \<in> set l" "b \<in> set r" "ps_from a = ps_from b" "ps_nonce a = ps_nonce b"
      "ps_from a \<noteq> ''genesis''" by auto
    from conflict [OF ab(2-6)] obtain c where c: "direct_conflict l b = Some c" "dc_local_tx_hash c = ps_tx_hash a"
      "dc_remote_tx_hash c = ps_tx_hash b" by blast
    with losers [OF ab(2,3) c(2,3)] ab show "h \<in> ?L"
      unfolding resolve_direct_conflicts_def by (auto simp: set)
  qed
qed

lemma direct_losers_swap:
  assumes ok: "partitions_ok l r"
  shows "(\<Union>res \<in> set (resolve_direct_conflicts (detect_direct_conflicts l r) l r). set (cr_loser_tx_hashes res))
    = (\<Union>res \<in> set (resolve_direct_conflicts (detect_direct_conflicts r l) r l). set (cr_loser_tx_hashes res))"
proof -
  have sub: "{pair_loser a b | a b. a \<in> set l \<and> b \<in> set r \<and> ps_from a = ps_from b \<and> ps_nonce a = ps_nonce b \<and> ps_from a \<noteq> ''genesis''}
      \<subseteq> {pair_loser a b | a b. a \<in> set r \<and> b \<in> set l \<and> ps_from a = ps_from b \<and> ps_nonce a = ps_nonce b \<and> ps_from a \<noteq> ''genesis''}"
    if "partitions_ok l r" for l r
  proof clarify
    fix a b assume ab: "a \<in> set l" "b \<in> set r" "ps_from a = ps_from b" "ps_nonce a = ps_nonce b" "ps_from a \<noteq> ''genesis''"
    then have "pair_loser a b = pair_loser b a" by (intro pair_loser_swap partitions_disjoint [OF that])
    with ab show "\<exists>a' b'. pair_loser a b = pair_loser a' b' \<and> a' \<in> set r \<and> b' \<in> set l \<and> ps_from a' = ps_from b'
        \<and> ps_nonce a' = ps_nonce b' \<and> ps_from a' \<noteq> ''genesis''" by (intro exI [of _ b] exI [of _ a]) simp
  qed
  show ?thesis unfolding direct_losers [OF ok] direct_losers [OF partitions_ok_swap [OF ok]]
    by (intro equalityI sub ok partitions_ok_swap [OF ok])
qed

subsection \<open>Economic conflicts\<close>

lemma saturating_add_commute: "saturating_add a b = saturating_add b a"
  by (simp add: saturating_add_def ac_simps)

lemma saturating_add_left_commute: "saturating_add a (saturating_add b c) = saturating_add b (saturating_add a c)"
  for a b c :: "'a::len word"
proof -
  have "unat (saturating_add a (saturating_add b c)) = unat (saturating_add b (saturating_add a c))"
    using unat_bound [of a] unat_bound [of b] by (simp add: unat_saturating_add)
  then show ?thesis by (simp add: word_unat_eq_iff)
qed

lemmas saturating_ac = saturating_add_commute saturating_add_left_commute

lemma sum_sent_swap: "saturating_add (saturating_add p x) y = saturating_add (saturating_add p y) x"
  by (metis saturating_add_commute saturating_add_left_commute)

lemma fold_saturating_mset:
  assumes "mset xs = mset ys"
  shows "fold (\<lambda>tx r. if P tx then saturating_add r (f tx) else r) xs a = fold (\<lambda>tx r. if P tx then saturating_add r (f tx) else r) ys a"
  using assms by (rule fold_permuted_eq [where P = "\<lambda>_. True"]) (auto simp: sum_sent_swap)

lemma sorted_wrt_unique:
  assumes "\<And>x y. x \<in> set xs \<Longrightarrow> y \<in> set xs \<Longrightarrow> Q x y \<Longrightarrow> Q y x \<Longrightarrow> x = y"
  shows "sorted_wrt Q xs \<Longrightarrow> sorted_wrt Q ys \<Longrightarrow> mset xs = mset ys \<Longrightarrow> xs = ys"
  using assms
proof (induction xs arbitrary: ys)
  case (Cons x xs)
  then obtain y ys' where ys: "ys = y # ys'" by (cases ys) auto
  have m: "set (x # xs) = set (y # ys')" using Cons.prems(3) ys by (metis mset_eq_setD)
  have "x = y"
  proof (rule ccontr)
    assume "x \<noteq> y"
    then have "y \<in> set xs" "x \<in> set ys'" using m by auto
    then have "Q x y" "Q y x" using Cons.prems(1,2) ys by auto
    with Cons.prems(4) [of x y] \<open>y \<in> set xs\<close> \<open>x \<noteq> y\<close> show False by simp
  qed
  moreover have "xs = ys'" using Cons.prems ys \<open>x = y\<close> by (intro Cons.IH) auto
  ultimately show ?case using ys by simp
qed simp

lemma insert_by_mset [simp]: "mset (insert_by lt a xs) = add_mset a (mset xs)"
  by (induction xs) auto

lemma sort_by_mset [simp]: "mset (sort_by lt xs) = mset xs"
  by (induction xs) (auto simp: sort_by_def)

lemma sort_by_set [simp]: "set (sort_by lt xs) = set xs"
  by (metis sort_by_mset set_mset_mset)

lemma insert_by_set [simp]: "set (insert_by lt a xs) = insert a (set xs)"
  by (induction xs) auto

lemma insert_by_sorted:
  assumes "\<And>x y z. \<lbrakk>x \<in> X; y \<in> X; z \<in> X; \<not> lt y x; \<not> lt z y\<rbrakk> \<Longrightarrow> \<not> lt z x"
    and "\<And>x y. \<lbrakk>x \<in> X; y \<in> X; lt x y\<rbrakk> \<Longrightarrow> \<not> lt y x"
    and "a \<in> X" "set xs \<subseteq> X" "sorted_wrt (\<lambda>x y. \<not> lt y x) xs"
  shows "sorted_wrt (\<lambda>x y. \<not> lt y x) (insert_by lt a xs)"
  using assms(4,5)
proof (induction xs)
  case (Cons b bs)
  have b: "b \<in> X" using Cons.prems by simp
  show ?case
  proof (cases "lt b a")
    case True
    then have "\<not> lt a b" using assms(2,3) b by blast
    then show ?thesis using Cons True by auto
  next
    case False
    have "\<not> lt c a" if "c \<in> set bs" for c
      using assms(1) [OF assms(3) b _ False, of c] Cons.prems that by auto
    then show ?thesis using Cons.prems False by auto
  qed
qed simp

lemma sort_by_sorted:
  assumes "\<And>x y z. \<lbrakk>x \<in> X; y \<in> X; z \<in> X; \<not> lt y x; \<not> lt z y\<rbrakk> \<Longrightarrow> \<not> lt z x"
    and "\<And>x y. \<lbrakk>x \<in> X; y \<in> X; lt x y\<rbrakk> \<Longrightarrow> \<not> lt y x" and "set xs \<subseteq> X"
  shows "sorted_wrt (\<lambda>x y. \<not> lt y x) (sort_by lt xs)"
  using assms(3)
proof (induction xs)
  case (Cons a xs)
  have eq: "sort_by lt (a # xs) = insert_by lt a (sort_by lt xs)" by (simp add: sort_by_def)
  show ?case unfolding eq
    by (rule insert_by_sorted [of X lt, OF assms(1,2)]) (use Cons in auto)
qed (simp add: sort_by_def)

lemma f64_lt_trans: "f64_lt x y \<Longrightarrow> f64_lt y z \<Longrightarrow> f64_lt x z"
  by (cases x; cases y; cases z) auto

lemma f64_lt_irrefl [simp]: "\<not> f64_lt x x"
  by (cases x) auto

lemma spend_less_asym: "spend_less x y \<Longrightarrow> \<not> spend_less y x"
  using f64_lt_trans [of "ps_weight x" "ps_weight y" "ps_weight x"] by (auto simp: spend_less_def)

lemma not_spend_less:
  assumes "ps_weight x \<noteq> NaN" "ps_weight y \<noteq> NaN"
  shows "\<not> spend_less y x \<longleftrightarrow> ps_nonce x < ps_nonce y \<or> ps_nonce x = ps_nonce y \<and>
    (f64_lt (ps_weight y) (ps_weight x) \<or> ps_weight x = ps_weight y \<and> ps_tx_hash x \<le> ps_tx_hash y)"
proof -
  consider "ps_weight x = ps_weight y" | "f64_lt (ps_weight x) (ps_weight y)" "\<not> f64_lt (ps_weight y) (ps_weight x)"
      "ps_weight x \<noteq> ps_weight y"
    | "f64_lt (ps_weight y) (ps_weight x)" "\<not> f64_lt (ps_weight x) (ps_weight y)" "ps_weight x \<noteq> ps_weight y"
    using f64_lt_total [OF assms] by blast
  then show ?thesis by cases (auto simp: spend_less_def)
qed

lemma spend_less_trans:
  assumes "ps_weight x \<noteq> NaN" "ps_weight y \<noteq> NaN" "ps_weight z \<noteq> NaN" "\<not> spend_less y x" "\<not> spend_less z y"
  shows "\<not> spend_less z x"
  using assms(4,5) unfolding not_spend_less [OF assms(1,2)] not_spend_less [OF assms(2,3)] not_spend_less [OF assms(1,3)]
  by (auto intro: f64_lt_trans)

lemma spend_order_swap:
  assumes ok: "partitions_ok l r"
  shows "sort_by spend_less (filter P (l @ r)) = sort_by spend_less (filter P (r @ l))"
proof (rule sorted_wrt_unique [where Q = "\<lambda>x y. \<not> spend_less y x"])
  let ?X = "set (l @ r)"
  have tr: "\<And>x y z. \<lbrakk>x \<in> ?X; y \<in> ?X; z \<in> ?X; \<not> spend_less y x; \<not> spend_less z y\<rbrakk> \<Longrightarrow> \<not> spend_less z x"
    using ok unfolding partitions_ok_def by (meson spend_less_trans)
  show "sorted_wrt (\<lambda>x y. \<not> spend_less y x) (sort_by spend_less (filter P (l @ r)))"
    "sorted_wrt (\<lambda>x y. \<not> spend_less y x) (sort_by spend_less (filter P (r @ l)))"
    by (rule sort_by_sorted [of ?X, OF tr spend_less_asym]; auto)+
  show "mset (sort_by spend_less (filter P (l @ r))) = mset (sort_by spend_less (filter P (r @ l)))" by simp
  fix x y assume "x \<in> set (sort_by spend_less (filter P (l @ r)))" "y \<in> set (sort_by spend_less (filter P (l @ r)))"
    and le: "\<not> spend_less y x" "\<not> spend_less x y"
  then have xy: "x \<in> ?X" "y \<in> ?X" by auto
  with ok have "ps_weight x \<noteq> NaN" "ps_weight y \<noteq> NaN" by (auto simp: partitions_ok_def)
  with le have "ps_tx_hash x = ps_tx_hash y"
    using f64_lt_total [of "ps_weight x" "ps_weight y"] unfolding spend_less_def by (metis linorder_less_linear)
  then show "x = y" using partitions_hash_inj [OF ok xy] by simp
qed

lemma resolve_economic_swap:
  assumes ok: "partitions_ok l r"
    and "ec_account c = ec_account c'" "ec_pre_partition_balance_micro c = ec_pre_partition_balance_micro c'"
  shows "resolve_economic l r A c = resolve_economic r l A c'"
proof -
  have "mset (l @ r) = mset (r @ l)" by simp
  note f = fold_saturating_mset [OF this]
  show ?thesis unfolding resolve_economic_def assms(2,3) spend_order_swap [OF ok] f ..
qed

lemma economic_conflict_swap:
  assumes "economic_conflict l r A a = Some c"
  shows "\<exists>c'. economic_conflict r l A a = Some c' \<and> ec_account c' = ec_account c
    \<and> ec_pre_partition_balance_micro c' = ec_pre_partition_balance_micro c \<and> ec_account c = a"
proof -
  obtain sl rl hl sr rr hr where f: "compute_account_flows l a = (sl, rl, hl)" "compute_account_flows r a = (sr, rr, hr)"
    by (metis prod_cases3)
  have "saturating_add sr sl = saturating_add sl sr" by (rule saturating_add_commute)
  with assms f show ?thesis
    using sum_sent_swap [of "unwrap_or (map_option acc_balance (hm_get A a)) 0" rl rr]
    by (simp add: economic_conflict_def Let_def split: if_splits) (auto simp: economic_conflict_def)
qed

lemma senders_set: "set (senders txs) = ps_from ` {tx \<in> set txs. ps_from tx \<noteq> ''genesis''}"
proof -
  have "set (fold (\<lambda>tx acc. if ps_from tx \<noteq> ''genesis'' then List.insert (ps_from tx) acc else acc) txs acc)
      = set acc \<union> ps_from ` {tx \<in> set txs. ps_from tx \<noteq> ''genesis''}" for acc
    by (induction txs arbitrary: acc) (auto split: if_splits)
  then show ?thesis by (simp add: senders_def)
qed

lemma economic_set:
  assumes "iteration_order iter"
  shows "set (detect_economic_conflicts iter l r A) =
    {c. \<exists>a \<in> set (senders l) \<inter> set (senders r). economic_conflict l r A a = Some c}"
proof -
  have "set (iter (filter (\<lambda>a. a \<in> set (senders r)) (senders l))) = set (senders l) \<inter> set (senders r)"
    using iteration_order_set [OF assms] by auto
  moreover have "filter (\<lambda>a. a \<in> set (senders r)) (senders l) = [] \<longleftrightarrow> set (senders l) \<inter> set (senders r) = {}"
    by (auto simp: filter_empty_conv)
  ultimately show ?thesis
    by (cases "set (senders l) \<inter> set (senders r) = {}") (simp_all add: detect_economic_conflicts_def set_map_filter_Some)
qed

lemma economic_losers_subset:
  assumes ok: "partitions_ok l r" and iter: "iteration_order iter" "iteration_order iter'"
  shows "set (resolve_economic_conflicts (detect_economic_conflicts iter l r A) l r A)
    \<subseteq> set (resolve_economic_conflicts (detect_economic_conflicts iter' r l A) r l A)"
proof
  fix res assume "res \<in> set (resolve_economic_conflicts (detect_economic_conflicts iter l r A) l r A)"
  then obtain a c where ac: "a \<in> set (senders l) \<inter> set (senders r)" "economic_conflict l r A a = Some c"
    and res: "res = resolve_economic l r A c"
    unfolding resolve_economic_conflicts_def by (auto simp: economic_set [OF iter(1)])
  from economic_conflict_swap [OF ac(2)] obtain c' where c': "economic_conflict r l A a = Some c'"
    "ec_account c' = ec_account c" "ec_pre_partition_balance_micro c' = ec_pre_partition_balance_micro c" by blast
  then have "c' \<in> set (detect_economic_conflicts iter' r l A)"
    using ac(1) economic_set [OF iter(2), of r l A] by auto
  moreover have "res = resolve_economic r l A c'" unfolding res by (rule resolve_economic_swap [OF ok]) (simp_all add: c')
  ultimately show "res \<in> set (resolve_economic_conflicts (detect_economic_conflicts iter' r l A) r l A)"
    unfolding resolve_economic_conflicts_def by simp
qed

subsection \<open>Losers\<close>

definition conflict_losers :: "ConflictResolution list \<Rightarrow> string list" where
  "conflict_losers resolutions = fold (\<lambda>res acc. fold List.insert (cr_loser_tx_hashes res) acc) resolutions []"

lemma set_conflict_losers: "set (conflict_losers resolutions) = (\<Union>res \<in> set resolutions. set (cr_loser_tx_hashes res))"
proof -
  have 1: "set (fold List.insert xs acc) = set xs \<union> set acc" for xs acc :: "string list"
    by (induction xs arbitrary: acc) auto
  have "set (fold (\<lambda>res acc. fold List.insert (cr_loser_tx_hashes res) acc) resolutions acc)
      = set acc \<union> (\<Union>res \<in> set resolutions. set (cr_loser_tx_hashes res))" for acc
    by (induction resolutions arbitrary: acc) (auto simp: 1)
  then show ?thesis by (simp add: conflict_losers_def)
qed

definition merge_losers ::
  "(string list \<Rightarrow> string list) \<Rightarrow> PartitionTxSummary list \<Rightarrow> PartitionTxSummary list \<Rightarrow> (string, Account) hash_map \<Rightarrow> string list" where
  "merge_losers iter l r A =
     (let (d, e) = detect_all_conflicts iter l r A in conflict_losers (resolve_all_conflicts d e l r A))"

lemma merge_losers_swap:
  assumes "partitions_ok l r" "iteration_order iter" "iteration_order iter'"
  shows "set (merge_losers iter l r A) = set (merge_losers iter' r l A)"
proof -
  have "set (resolve_economic_conflicts (detect_economic_conflicts iter l r A) l r A)
      = set (resolve_economic_conflicts (detect_economic_conflicts iter' r l A) r l A)"
    by (rule equalityI [OF economic_losers_subset [OF assms] economic_losers_subset [OF partitions_ok_swap [OF assms(1)] assms(3,2)]])
  then show ?thesis using direct_losers_swap [OF assms(1)]
    by (simp add: merge_losers_def detect_all_conflicts_def resolve_all_conflicts_def set_conflict_losers UN_Un)
qed

subsection \<open>Depths\<close>

definition depth_step :: "string set \<Rightarrow> (string \<rightharpoonup> string list) \<Rightarrow> (string \<Rightarrow> u32) \<Rightarrow> string \<Rightarrow> u32" where
  "depth_step S P \<delta> h =
     (case P h of
        None \<Rightarrow> 0
      | Some ps \<Rightarrow> let qs = filter (\<lambda>p. p \<in> S) ps in if qs = [] then 0 else 1 + foldr max (map \<delta> qs) 0)"

definition parent_rank :: "string set \<Rightarrow> (string \<rightharpoonup> string list) \<Rightarrow> (string \<Rightarrow> nat) \<Rightarrow> bool" where
  "parent_rank S P rank \<longleftrightarrow> (\<forall>h ps. P h = Some ps \<longrightarrow> (\<forall>p \<in> set ps. p \<in> S \<longrightarrow> rank p < rank h))"

lemma depth_step_cong:
  assumes "parent_rank S P rank" "\<And>p. rank p < rank h \<Longrightarrow> \<delta> p = \<delta>' p"
  shows "depth_step S P \<delta> h = depth_step S P \<delta>' h"
proof -
  have "map \<delta> (filter (\<lambda>p. p \<in> S) ps) = map \<delta>' (filter (\<lambda>p. p \<in> S) ps)" if "P h = Some ps" for ps
    using assms that by (auto simp: parent_rank_def)
  then show ?thesis unfolding depth_step_def Let_def by (cases "P h") (simp_all only: option.case)
qed

text \<open>The depths exist: iterate the equation once more than the rank.\<close>

lemma depths_exist:
  assumes rank: "parent_rank S P rank"
  shows "\<exists>\<delta>. \<forall>h. \<delta> h = depth_step S P \<delta> h"
proof -
  define D where "D n = (depth_step S P ^^ n) (\<lambda>_. 0)" for n
  have Suc: "D (Suc n) h = depth_step S P (D n) h" for n h by (simp add: D_def)
  have stable: "rank h < n \<Longrightarrow> rank h < m \<Longrightarrow> D n h = D m h" for n m h
  proof (induction "rank h" arbitrary: n m h rule: less_induct)
    case less
    then obtain n' m' where nm: "n = Suc n'" "m = Suc m'" by (metis less_nat_zero_code not0_implies_Suc)
    have "D n' p = D m' p" if "rank p < rank h" for p using less that nm by (intro less.hyps) auto
    then show ?case unfolding nm Suc by (rule depth_step_cong [OF rank])
  qed
  let ?\<delta> = "\<lambda>h. D (Suc (rank h)) h"
  have "?\<delta> h = depth_step S P ?\<delta> h" for h
  proof -
    have "depth_step S P (D (rank h)) h = depth_step S P ?\<delta> h"
      by (rule depth_step_cong [OF rank]) (rule stable, assumption, simp)
    then show ?thesis by (simp only: Suc)
  qed
  then show ?thesis by (intro exI [of _ ?\<delta>] allI)
qed

definition memo_ok :: "(string \<Rightarrow> u32) \<Rightarrow> (string, u32) hash_map \<Rightarrow> bool" where
  "memo_ok \<delta> depths \<longleftrightarrow> (\<forall>h d. hm_get depths h = Some d \<longrightarrow> d = \<delta> h)"

lemma memo_ok_insert: "memo_ok \<delta> depths \<Longrightarrow> memo_ok \<delta> (hm_insert h (\<delta> h) depths)"
  by (simp add: memo_ok_def)

lemma resolve_correct:
  assumes rank: "parent_rank (set S) (hm_get P) rank" and \<delta>: "\<And>h. \<delta> h = depth_step (set S) (hm_get P) \<delta> h"
  shows "memo_ok \<delta> D \<Longrightarrow> (\<forall>v \<in> set V. rank h < rank v) \<Longrightarrow>
      fst (resolve_depth S P V h D) = \<delta> h \<and> memo_ok \<delta> (snd (resolve_depth S P V h D))
      \<and> dom (hm_get D) \<union> {h} \<subseteq> dom (hm_get (snd (resolve_depth S P V h D)))"
    and "memo_ok \<delta> D \<Longrightarrow> (\<forall>v \<in> set V. \<forall>h \<in> set hs. rank h < rank v) \<Longrightarrow>
      fst (resolve_max S P V hs D) = foldr max (map \<delta> hs) 0 \<and> memo_ok \<delta> (snd (resolve_max S P V hs D))
      \<and> dom (hm_get D) \<subseteq> dom (hm_get (snd (resolve_max S P V hs D)))"
  using rank \<delta>
proof (induction S P V h D and S P V hs D rule: resolve_depth_resolve_max.induct)
  case (1 S P V h D)
  show ?case
  proof (cases "hm_get D h")
    case (Some d)
    then show ?thesis using "1.prems"(1) by (auto simp: resolve_depth.simps memo_ok_def)
  next
    case None
    have V: "h \<notin> set V" using "1.prems"(2) by blast
    show ?thesis
    proof (cases "hm_get P h = None \<or> (\<exists>ps. hm_get P h = Some ps \<and> filter (\<lambda>p. p \<in> set S) ps = [])")
      case True
      then have "\<delta> h = 0" using "1.prems"(4) [of h] by (auto simp: depth_step_def)
      moreover have "resolve_depth S P V h D = (0, hm_insert h 0 D)" using True None V by (auto simp: resolve_depth.simps)
      ultimately show ?thesis using memo_ok_insert [OF "1.prems"(1), of h] by auto
    next
      case False
      then obtain ps where ps: "hm_get P h = Some ps" "filter (\<lambda>p. p \<in> set S) ps \<noteq> []" by auto
      let ?q = "filter (\<lambda>p. p \<in> set S) ps"
      obtain m D' where md: "resolve_max S P (h # V) ?q D = (m, D')" by fastforce
      have "\<forall>v \<in> set (h # V). \<forall>p \<in> set ?q. rank p < rank v"
        using "1.prems"(2,3) ps(1) by (fastforce simp: parent_rank_def dest: less_trans)
      from "1.IH" [OF None V ps(1) refl ps(2) "1.prems"(1) this "1.prems"(3,4)] md
      have m: "m = foldr max (map \<delta> ?q) 0" "memo_ok \<delta> D'" "dom (hm_get D) \<subseteq> dom (hm_get D')" by auto
      moreover have "\<delta> h = 1 + m" using "1.prems"(4) [of h] ps m(1) by (simp add: depth_step_def)
      moreover have "resolve_depth S P V h D = (1 + m, hm_insert h (1 + m) D')"
        using None V ps md by (simp add: resolve_depth.simps)
      ultimately show ?thesis using memo_ok_insert [OF m(2), of h] by auto
    qed
  qed
next
  case (3 S P V p ps D)
  obtain d D' where d: "resolve_depth S P V p D = (d, D')" by fastforce
  obtain m D'' where m: "resolve_max S P V ps D' = (m, D'')" by fastforce
  have V: "\<forall>v \<in> set V. rank p < rank v" "\<forall>v \<in> set V. \<forall>h \<in> set ps. rank h < rank v" using "3.prems"(2) by auto
  from "3.IH"(1) [OF "3.prems"(1) V(1) "3.prems"(3,4)] d
  have 1: "d = \<delta> p" "memo_ok \<delta> D'" "dom (hm_get D) \<subseteq> dom (hm_get D')" by auto
  from "3.IH"(2) [OF d [symmetric] refl 1(2) V(2) "3.prems"(3,4)] m
  have "m = foldr max (map \<delta> ps) 0" "memo_ok \<delta> D''" "dom (hm_get D') \<subseteq> dom (hm_get D'')" by auto
  with 1 d m show ?case by (simp add: order.trans)
qed simp

lemma depths_fold:
  assumes "parent_rank (set S) (hm_get P) rank" "\<And>h. \<delta> h = depth_step (set S) (hm_get P) \<delta> h"
  shows "memo_ok \<delta> D \<Longrightarrow>
    memo_ok \<delta> (fold (\<lambda>tx D. snd (resolve_depth S P [] (ps_tx_hash tx) D)) txs D)
    \<and> dom (hm_get D) \<union> ps_tx_hash ` set txs \<subseteq> dom (hm_get (fold (\<lambda>tx D. snd (resolve_depth S P [] (ps_tx_hash tx) D)) txs D))"
proof (induction txs arbitrary: D)
  case (Cons tx txs)
  let ?D = "snd (resolve_depth S P [] (ps_tx_hash tx) D)"
  have 1: "memo_ok \<delta> ?D" "dom (hm_get D) \<union> {ps_tx_hash tx} \<subseteq> dom (hm_get ?D)"
    using resolve_correct(1) [OF assms(1,2) Cons.prems, of "[]" "ps_tx_hash tx"] by auto
  from Cons.IH [OF 1(1)] 1(2) show ?case by auto
qed simp

definition parents_map :: "PartitionTxSummary list \<Rightarrow> (string, string list) hash_map" where
  "parents_map txs = fold (\<lambda>t. hm_insert (ps_tx_hash t) (ps_parents t)) txs []"

lemma depths_of_spec:
  assumes "parent_rank (ps_tx_hash ` set txs) (hm_get (parents_map txs)) rank"
    and "\<And>h. \<delta> h = depth_step (ps_tx_hash ` set txs) (hm_get (parents_map txs)) \<delta> h" and "tx \<in> set txs"
  shows "hm_get (depths_of txs) (ps_tx_hash tx) = Some (\<delta> (ps_tx_hash tx))"
proof -
  let ?S = "remdups (map ps_tx_hash txs)" and ?P = "parents_map txs"
  have S: "set ?S = ps_tx_hash ` set txs" by simp
  have eq: "depths_of txs = fold (\<lambda>tx D. snd (resolve_depth ?S ?P [] (ps_tx_hash tx) D)) txs []"
    by (simp add: depths_of_def parents_map_def)
  from depths_fold [of ?S ?P rank \<delta> "[]" txs, unfolded S, OF assms(1,2)]
  have "memo_ok \<delta> (depths_of txs)" "ps_tx_hash ` set txs \<subseteq> dom (hm_get (depths_of txs))"
    unfolding eq by (simp_all add: memo_ok_def)
  then show ?thesis using assms(3) by (auto simp: memo_ok_def)
qed

lemma parents_map_swap:
  assumes "partitions_ok l r"
  shows "hm_get (parents_map (l @ r)) = hm_get (parents_map (r @ l))"
proof
  fix h
  show "hm_get (parents_map (l @ r)) h = hm_get (parents_map (r @ l)) h"
  proof (cases "h \<in> ps_tx_hash ` set (l @ r)")
    case True
    then obtain tx where tx: "tx \<in> set (l @ r)" "h = ps_tx_hash tx" by blast
    then have "tx \<in> set (r @ l)" by auto
    from collect_get [OF partitions_inj_on [OF assms] tx(1)] collect_get [OF partitions_inj_on [OF partitions_ok_swap [OF assms]] this]
    show ?thesis unfolding parents_map_def tx(2) by metis
  next
    case False
    then have "h \<notin> ps_tx_hash ` set (r @ l)" by auto
    from collect_None [OF False, of ps_parents "[]"] collect_None [OF this, of ps_parents "[]"]
    show ?thesis unfolding parents_map_def by simp
  qed
qed

lemma parents_map_rank:
  assumes "partitions_ok l r"
  shows "\<exists>rank. parent_rank (ps_tx_hash ` set (l @ r)) (hm_get (parents_map (l @ r))) rank"
proof -
  from assms obtain rank :: "string \<Rightarrow> nat" where rank:
    "\<forall>x \<in> set (l @ r). \<forall>p \<in> set (ps_parents x). p \<in> ps_tx_hash ` set (l @ r) \<longrightarrow> rank p < rank (ps_tx_hash x)"
    unfolding partitions_ok_def by blast
  have "rank p < rank h" if "hm_get (parents_map (l @ r)) h = Some ps" "p \<in> set ps" "p \<in> ps_tx_hash ` set (l @ r)" for h ps p
  proof -
    have "h \<in> ps_tx_hash ` set (l @ r)" using that(1) collect_None [of h "l @ r" ps_parents "[]"] by (auto simp: parents_map_def)
    then obtain tx where tx: "tx \<in> set (l @ r)" "h = ps_tx_hash tx" by blast
    then have "ps = ps_parents tx"
      using that(1) collect_get [OF partitions_inj_on [OF assms] tx(1), of ps_parents] by (simp add: parents_map_def)
    then show ?thesis using rank tx that(2,3) by blast
  qed
  then have "parent_rank (ps_tx_hash ` set (l @ r)) (hm_get (parents_map (l @ r))) rank" unfolding parent_rank_def by blast
  then show ?thesis by blast
qed

text \<open>The annotated transactions do not depend on which side is local.\<close>

lemma assign_dag_depths_swap:
  assumes ok: "partitions_ok l r"
  shows "\<exists>f. (\<forall>tx. ps_tx_hash (f tx) = ps_tx_hash tx) \<and> assign_dag_depths (l @ r) = map f (l @ r) \<and> assign_dag_depths (r @ l) = map f (r @ l)"
proof -
  let ?S = "ps_tx_hash ` set (l @ r)" and ?P = "hm_get (parents_map (l @ r))"
  from parents_map_rank [OF ok] obtain rank where rank: "parent_rank ?S ?P rank" by blast
  from depths_exist [OF rank] obtain \<delta> where \<delta>: "\<And>h. \<delta> h = depth_step ?S ?P \<delta> h" by blast
  have S: "ps_tx_hash ` set (r @ l) = ?S" by auto
  have 1: "hm_get (depths_of (l @ r)) (ps_tx_hash tx) = Some (\<delta> (ps_tx_hash tx))" if "tx \<in> set (l @ r)" for tx
    by (rule depths_of_spec [OF rank \<delta> that])
  have 2: "hm_get (depths_of (r @ l)) (ps_tx_hash tx) = Some (\<delta> (ps_tx_hash tx))" if "tx \<in> set (r @ l)" for tx
    by (rule depths_of_spec [of "r @ l", unfolded S parents_map_swap [OF ok, symmetric], OF rank \<delta> that])
  let ?f = "\<lambda>tx. tx\<lparr>ps_dag_depth := \<delta> (ps_tx_hash tx)\<rparr>"
  have "assign_dag_depths (l @ r) = map ?f (l @ r)" "assign_dag_depths (r @ l) = map ?f (r @ l)"
    unfolding assign_dag_depths_def Let_def using 1 2 by (auto intro!: map_cong)
  then show ?thesis by (intro exI [of _ ?f]) simp
qed

lemma cascade_order_swap:
  assumes ok: "partitions_ok l r" and losers: "set L = set L'"
  shows "cascade_order L (l @ r) = cascade_order L' (r @ l)"
proof -
  from assign_dag_depths_swap [OF ok] obtain f where f: "\<And>tx. ps_tx_hash (f tx) = ps_tx_hash tx"
    "assign_dag_depths (l @ r) = map f (l @ r)" "assign_dag_depths (r @ l) = map f (r @ l)" by blast
  let ?k = "\<lambda>tx. (ps_nonce tx, ps_dag_depth tx, ps_tx_hash tx)"
  let ?a = "filter (\<lambda>tx. ps_tx_hash tx \<notin> set L) (map f (l @ r))" and ?b = "filter (\<lambda>tx. ps_tx_hash tx \<notin> set L') (map f (r @ l))"
  have "inj_on ?k (set ?a)"
  proof (rule inj_onI)
    fix x y assume "x \<in> set ?a" "y \<in> set ?a" "?k x = ?k y"
    then obtain u v where "u \<in> set (l @ r)" "v \<in> set (l @ r)" "x = f u" "y = f v" "ps_tx_hash x = ps_tx_hash y"
      unfolding set_filter set_map by blast
    then show "x = y" using partitions_hash_inj [OF ok, of u v] f(1) by simp
  qed
  moreover have "mset ?a = mset (sort_key ?k ?b)" using losers by (simp add: ac_simps)
  ultimately show ?thesis unfolding cascade_order_def f(2,3) by (intro sort_key_inj_key_eq) auto
qed

section \<open>Convergence\<close>

definition merge_rollback ::
  "(string list \<Rightarrow> string list) \<Rightarrow> PartitionTxSummary list \<Rightarrow> PartitionTxSummary list \<Rightarrow> (string, Account) hash_map \<Rightarrow> RollbackReport" where
  "merge_rollback iter l r A =
     cascade_rollback iter (merge_losers iter l r A) (l @ r)
       (build_fork_point_balances_micro A) (build_fork_point_nonces A)"

lemma find_hash_swap:
  assumes "partitions_ok l r"
  shows "find (\<lambda>t. ps_tx_hash t = h) (l @ r) = find (\<lambda>t. ps_tx_hash t = h) (r @ l)"
proof -
  have some: "find (\<lambda>t. ps_tx_hash t = ps_tx_hash tx) xs = Some tx" if "set xs = set (l @ r)" "tx \<in> set (l @ r)" for xs tx
  proof -
    have "tx \<in> set xs" using that by simp
    then have "find (\<lambda>t. ps_tx_hash t = ps_tx_hash tx) xs \<noteq> None" unfolding find_None_iff by blast
    then obtain y where y: "find (\<lambda>t. ps_tx_hash t = ps_tx_hash tx) xs = Some y" by blast
    then have "y \<in> set (l @ r)" "ps_tx_hash y = ps_tx_hash tx" using that(1) by (auto simp: find_Some_iff)
    then show ?thesis using partitions_hash_inj [OF assms _ that(2)] y by simp
  qed
  show ?thesis
  proof (cases "\<exists>tx \<in> set (l @ r). ps_tx_hash tx = h")
    case True
    then obtain tx where "tx \<in> set (l @ r)" "h = ps_tx_hash tx" by blast
    then show ?thesis using some [of "l @ r" tx] some [of "r @ l" tx] by (simp add: Un_commute)
  next
    case False
    then have "find (\<lambda>t. ps_tx_hash t = h) (l @ r) = None" "find (\<lambda>t. ps_tx_hash t = h) (r @ l) = None"
      unfolding find_None_iff by auto
    then show ?thesis by simp
  qed
qed

text \<open>
  C2: the merge is symmetric. When both sides start from the same accounts \<open>A\<close> at the fork point,
  every transaction lies on one side, senders do not reuse nonces within a side, weights are
  numbers and parents are acyclic (\<open>partitions_ok\<close>), exchanging the roles of local and remote, and
  any iteration order of the hash sets, leaves the losers, the survivors and their order, the
  final balances, the number of passes and the set of cascade rollbacks unchanged. (The
  orchestrator passes each node's current accounts for \<open>A\<close>, so two nodes reach the same result
  only while these agree; \<open>get_fork_point_accounts\<close> in \<open>Rinku_Merge_Orchestrator\<close>.)
\<close>
theorem merge_converges:
  assumes ok: "partitions_ok l r" and iter: "iteration_order iter" "iteration_order iter'"
  shows "set (rb_direct_conflict_losers (merge_rollback iter l r A)) = set (rb_direct_conflict_losers (merge_rollback iter' r l A))
    \<and> rb_surviving_tx_hashes (merge_rollback iter l r A) = rb_surviving_tx_hashes (merge_rollback iter' r l A)
    \<and> rb_final_balances_micro (merge_rollback iter l r A) = rb_final_balances_micro (merge_rollback iter' r l A)
    \<and> rb_iterations (merge_rollback iter l r A) = rb_iterations (merge_rollback iter' r l A)
    \<and> set (rb_cascade_rollbacks (merge_rollback iter l r A)) = set (rb_cascade_rollbacks (merge_rollback iter' r l A))"
proof -
  note L = merge_losers_swap [OF ok iter, of A]
  note order = cascade_order_swap [OF ok L]
  have det: "cascade_detail (r @ l) = cascade_detail (l @ r)"
    by (intro ext) (simp only: cascade_detail_def find_hash_swap [OF ok])
  obtain rolled_back reasons balances i where
    "cascade_loop (build_fork_point_balances_micro A) (build_fork_point_nonces A)
      (cascade_order (merge_losers iter' r l A) (r @ l)) [] [] 0 = (rolled_back, reasons, balances, i)"
    by (metis prod_cases4)
  then show ?thesis using L iteration_order_set [OF iter(1), of rolled_back] iteration_order_set [OF iter(2), of rolled_back]
    unfolding merge_rollback_def cascade_rollback_def order det Let_def
    by (simp add: set_map_filter_Some)
qed

theorem merge_converges_witness:
  "rb_surviving_tx_hashes (merge_rollback (\<lambda>xs. xs) [sample_payment ''x'' ''alice'' 0 (Fin 1)] [sample_payment ''y'' ''alice'' 0 (Fin 2)] [])
   = rb_surviving_tx_hashes (merge_rollback rev [sample_payment ''y'' ''alice'' 0 (Fin 2)] [sample_payment ''x'' ''alice'' 0 (Fin 1)] [])"
proof -
  have "partitions_ok [sample_payment ''x'' ''alice'' 0 (Fin 1)] [sample_payment ''y'' ''alice'' 0 (Fin 2)]"
    by (simp add: partitions_ok_def sample_payment_def)
  from merge_converges [OF this iteration_order_id iteration_order_rev, of "[]"] show ?thesis by simp
qed

end
