(* ===== verification/Rinku_Dag.thy ===== *)
theory Rinku_Dag
  imports Rinku_Types Rinku_Collections
begin

text \<open>
  \<open>rinku-core/src/dag.rs\<close>: the transaction DAG and the indices kept beside it.

  The graph itself is \<open>petgraph::DiGraph\<close>, third-party code: it is the record
  \<open>petgraph\<close> of the operations the source calls, an argument of every definition, and
  \<open>petgraph_laws\<close> states their documented behaviour. Node indices are positions in the
  list of node weights, and \<open>remove_node\<close> moves the last node into the hole. The indices
  (\<open>hash_to_index\<close>, the tips, the unfinalized nodes by sender, the finalized nodes by
  height) are maintained by hand in the source; \<open>dag_inv\<close> says that they describe the
  graph, and every operation keeps it.
\<close>

section \<open>The graph library\<close>

record 'g petgraph =
  pg_new :: 'g
  pg_nodes :: "'g \<Rightarrow> DagNode list"
  pg_add_node :: "DagNode \<Rightarrow> 'g \<Rightarrow> 'g \<times> nat"
  pg_update_node :: "nat \<Rightarrow> (DagNode \<Rightarrow> DagNode) \<Rightarrow> 'g \<Rightarrow> 'g"
  pg_remove_node :: "nat \<Rightarrow> 'g \<Rightarrow> 'g"
  pg_add_edge :: "nat \<Rightarrow> nat \<Rightarrow> 'g \<Rightarrow> 'g"
  pg_clear_edges :: "'g \<Rightarrow> 'g"
  pg_incoming :: "'g \<Rightarrow> nat \<Rightarrow> nat list"
  pg_outgoing :: "'g \<Rightarrow> nat \<Rightarrow> nat list"

text \<open>\<open>remove_node\<close> of \<open>petgraph::Graph\<close>: the last index is shifted to the removed one.\<close>

definition swap_remove :: "nat \<Rightarrow> 'a list \<Rightarrow> 'a list" where
  "swap_remove i xs = (if i < length xs then butlast (xs[i := last xs]) else xs)"

definition petgraph_laws :: "'g petgraph \<Rightarrow> bool" where
  "petgraph_laws G \<longleftrightarrow>
     pg_nodes G (pg_new G) = []
     \<and> (\<forall>w g. pg_nodes G (fst (pg_add_node G w g)) = pg_nodes G g @ [w]
            \<and> snd (pg_add_node G w g) = length (pg_nodes G g))
     \<and> (\<forall>i f g. pg_nodes G (pg_update_node G i f g) =
            (if i < length (pg_nodes G g) then (pg_nodes G g)[i := f (pg_nodes G g ! i)] else pg_nodes G g))
     \<and> (\<forall>i g. pg_nodes G (pg_remove_node G i g) = swap_remove i (pg_nodes G g))
     \<and> (\<forall>i j g. pg_nodes G (pg_add_edge G i j g) = pg_nodes G g)
     \<and> (\<forall>g. pg_nodes G (pg_clear_edges G g) = pg_nodes G g)
     \<and> (\<forall>g i. set (pg_incoming G g i) \<subseteq> {..<length (pg_nodes G g)}
            \<and> set (pg_outgoing G g i) \<subseteq> {..<length (pg_nodes G g)})"

section \<open>State\<close>

definition MAX_SAMPLED_TIPS :: nat where
  "MAX_SAMPLED_TIPS = 16"

datatype DagError = NodeNotFound string | InvalidParent string | CycleDetected | CapacityExceeded

record 'g Dag =
  dag_graph :: 'g
  hash_to_index :: "(string, nat) hash_map"
  dag_tips :: "string list"
  dag_unfinalized :: "string list"
  sender_unfinalized :: "(string, string list) hash_map"
  finalized_by_height :: "(u64, string list) hash_map"
  dag_max_nodes :: nat

definition Dag_new :: "'g petgraph \<Rightarrow> nat \<Rightarrow> 'g Dag" where
  "Dag_new G max_nodes =
     \<lparr>dag_graph = pg_new G, hash_to_index = [], dag_tips = [], dag_unfinalized = [],
      sender_unfinalized = [], finalized_by_height = [], dag_max_nodes = max_nodes\<rparr>"

abbreviation dag_nodes :: "'g petgraph \<Rightarrow> 'g Dag \<Rightarrow> DagNode list" where
  "dag_nodes G d \<equiv> pg_nodes G (dag_graph d)"

abbreviation dn_sender :: "DagNode \<Rightarrow> string" where
  "dn_sender n \<equiv> tx_from (st_tx (dn_tx n))"

abbreviation dn_timestamp :: "DagNode \<Rightarrow> u64" where
  "dn_timestamp n \<equiv> tx_timestamp (st_tx (dn_tx n))"

text \<open>The indices map a key to a set; an emptied set is dropped from the map.\<close>

definition set_insert :: "'k \<Rightarrow> string \<Rightarrow> ('k, string list) hash_map \<Rightarrow> ('k, string list) hash_map" where
  "set_insert k x m = hm_entry k [] (List.insert x) m"

definition set_remove :: "'k \<Rightarrow> string \<Rightarrow> ('k, string list) hash_map \<Rightarrow> ('k, string list) hash_map" where
  "set_remove k x m =
     (case hm_get m k of
        None \<Rightarrow> m
      | Some s \<Rightarrow> if removeAll x s = [] then hm_remove k m else hm_insert k (removeAll x s) m)"

section \<open>Lookup\<close>

definition get_node :: "'g petgraph \<Rightarrow> 'g Dag \<Rightarrow> string \<Rightarrow> DagNode option" where
  "get_node G d hash =
     (case hm_get (hash_to_index d) hash of None \<Rightarrow> None | Some idx \<Rightarrow> get_at (dag_nodes G d) idx)"

text \<open>\<open>get_node_mut\<close> followed by an update of the node.\<close>

definition get_node_mut :: "'g petgraph \<Rightarrow> string \<Rightarrow> (DagNode \<Rightarrow> DagNode) \<Rightarrow> 'g Dag \<Rightarrow> 'g Dag" where
  "get_node_mut G hash f d =
     (case hm_get (hash_to_index d) hash of
        None \<Rightarrow> d
      | Some idx \<Rightarrow> d\<lparr>dag_graph := pg_update_node G idx f (dag_graph d)\<rparr>)"

definition dag_contains :: "'g Dag \<Rightarrow> string \<Rightarrow> bool" where
  "dag_contains d hash = hm_contains (hash_to_index d) hash"

definition tip_count :: "'g Dag \<Rightarrow> nat" where
  "tip_count d = length (dag_tips d)"

definition node_count :: "'g petgraph \<Rightarrow> 'g Dag \<Rightarrow> nat" where
  "node_count G d = length (dag_nodes G d)"

definition get_unfinalized_nodes :: "'g petgraph \<Rightarrow> (string list \<Rightarrow> string list) \<Rightarrow> 'g Dag \<Rightarrow> DagNode list" where
  "get_unfinalized_nodes G iter d = List.map_filter (get_node G d) (iter (dag_unfinalized d))"

definition get_unfinalized_for_sender ::
  "'g petgraph \<Rightarrow> (string list \<Rightarrow> string list) \<Rightarrow> 'g Dag \<Rightarrow> string \<Rightarrow> DagNode list" where
  "get_unfinalized_for_sender G iter d sender =
     (case hm_get (sender_unfinalized d) sender of
        Some hashes \<Rightarrow> List.map_filter (get_node G d) (iter hashes)
      | None \<Rightarrow> [])"

definition unfinalized_count :: "'g Dag \<Rightarrow> nat" where
  "unfinalized_count d = length (dag_unfinalized d)"

definition has_finalized_before :: "'g Dag \<Rightarrow> u64 \<Rightarrow> bool" where
  "has_finalized_before d min_checkpoint_height =
     (case sort (hm_keys (finalized_by_height d)) of
        [] \<Rightarrow> False
      | lowest_h # _ \<Rightarrow> lowest_h < min_checkpoint_height)"

text \<open>
  \<open>get_sampled_tips\<close>: \<open>iter\<close> is the iteration order of the tips, \<open>shuffle\<close> the random
  permutation. \<open>sort_by\<close> with a partial comparison that treats incomparable weights as
  equal is a stable insertion by \<open>f64_lt\<close>.
\<close>

fun insert_by_weight :: "string \<times> f64 \<Rightarrow> (string \<times> f64) list \<Rightarrow> (string \<times> f64) list" where
  "insert_by_weight a [] = [a]"
| "insert_by_weight a (b # bs) =
     (if f64_lt (snd a) (snd b) then b # insert_by_weight a bs else a # b # bs)"

definition sort_by_weight :: "(string \<times> f64) list \<Rightarrow> (string \<times> f64) list" where
  "sort_by_weight xs = foldr insert_by_weight xs []"

definition get_sampled_tips ::
  "'g petgraph \<Rightarrow> (string list \<Rightarrow> string list) \<Rightarrow> (string list \<Rightarrow> string list) \<Rightarrow> 'g Dag \<Rightarrow> string list" where
  "get_sampled_tips G iter shuffle d =
     (let all_tips = iter (dag_tips d)
      in if length all_tips \<le> MAX_SAMPLED_TIPS then all_tips
         else let weighted_tips = sort_by_weight
                    (List.map_filter (\<lambda>tip. map_option (\<lambda>n. (tip, dn_weight n)) (get_node G d tip)) all_tips);
                  guaranteed_count = MAX_SAMPLED_TIPS div 2;
                  random_count = MAX_SAMPLED_TIPS - guaranteed_count;
                  result = map fst (take guaranteed_count weighted_tips);
                  remaining = map fst (drop guaranteed_count weighted_tips)
              in if remaining \<noteq> []
                 then result @ take (min random_count (length remaining)) (shuffle remaining)
                 else result)"

section \<open>Traversal\<close>

text \<open>
  The breadth-first loops of \<open>get_ancestors\<close> and \<open>get_descendants\<close>. The state is the
  visited set, the queue of indices with their depths and the hashes found so far. Fuel
  bounds the number of queue pops; a node enters the queue at most once, so as much fuel
  as there are nodes is enough (\<open>bfs_loop_done\<close>).
\<close>

type_synonym bfs_state = "nat list \<times> (nat \<times> nat) list \<times> string list"

definition bfs_visit :: "DagNode list \<Rightarrow> nat \<Rightarrow> nat \<Rightarrow> bfs_state \<Rightarrow> bfs_state" where
  "bfs_visit nodes depth neighbor s =
     (case s of (visited, queue, found) \<Rightarrow>
        if neighbor \<in> set visited then s
        else (neighbor # visited, queue @ [(neighbor, depth + 1)],
              (case get_at nodes neighbor of
                 Some node \<Rightarrow> found @ [dn_hash node] | None \<Rightarrow> found)))"

fun bfs_loop :: "nat \<Rightarrow> DagNode list \<Rightarrow> (nat \<Rightarrow> nat list) \<Rightarrow> nat \<Rightarrow> bfs_state \<Rightarrow> bfs_state" where
  "bfs_loop 0 nodes nbrs max_depth s = s"
| "bfs_loop (Suc fuel) nodes nbrs max_depth (visited, [], found) = (visited, [], found)"
| "bfs_loop (Suc fuel) nodes nbrs max_depth (visited, (current_idx, depth) # queue, found) =
     bfs_loop fuel nodes nbrs max_depth
       (if depth \<ge> max_depth then (visited, queue, found)
        else fold (bfs_visit nodes depth) (nbrs current_idx) (visited, queue, found))"

definition bfs :: "DagNode list \<Rightarrow> (nat \<Rightarrow> nat list) \<Rightarrow> nat option \<Rightarrow> nat \<Rightarrow> string list" where
  "bfs nodes nbrs start max_depth =
     (case start of
        None \<Rightarrow> []
      | Some idx \<Rightarrow>
          snd (snd (bfs_loop (length nodes) nodes nbrs max_depth ([idx], [(idx, 0)], []))))"

definition get_ancestors :: "'g petgraph \<Rightarrow> 'g Dag \<Rightarrow> string \<Rightarrow> nat \<Rightarrow> string list" where
  "get_ancestors G d hash max_depth =
     bfs (dag_nodes G d) (pg_incoming G (dag_graph d)) (hm_get (hash_to_index d) hash) max_depth"

definition get_descendants :: "'g petgraph \<Rightarrow> 'g Dag \<Rightarrow> string \<Rightarrow> nat \<Rightarrow> string list" where
  "get_descendants G d hash max_depth =
     bfs (dag_nodes G d) (pg_outgoing G (dag_graph d)) (hm_get (hash_to_index d) hash) max_depth"

text \<open>\<open>usize::MAX\<close>.\<close>

definition USIZE_MAX :: nat where
  "USIZE_MAX = 2 ^ 64 - 1"

definition calculate_cumulative_weight :: "'g petgraph \<Rightarrow> 'g Dag \<Rightarrow> string \<Rightarrow> f64" where
  "calculate_cumulative_weight G d hash =
     (let descendants = get_descendants G d hash USIZE_MAX;
          add = (\<lambda>h total_weight. case get_node G d h of
                   Some node \<Rightarrow> f64_add total_weight (dn_weight node) | None \<Rightarrow> total_weight)
      in fold add descendants (add hash (Fin 0)))"

definition is_ancestor :: "'g petgraph \<Rightarrow> 'g Dag \<Rightarrow> string \<Rightarrow> string \<Rightarrow> bool" where
  "is_ancestor G d ancestor_hash descendant_hash \<longleftrightarrow>
     ancestor_hash \<in> set (get_ancestors G d descendant_hash USIZE_MAX)"

definition find_common_ancestor :: "'g petgraph \<Rightarrow> 'g Dag \<Rightarrow> string \<Rightarrow> string \<Rightarrow> string option" where
  "find_common_ancestor G d hash_a hash_b =
     (let ancestors_a = get_ancestors G d hash_a USIZE_MAX;
          ancestors_b = get_ancestors G d hash_b USIZE_MAX
      in find (\<lambda>ancestor. ancestor \<in> set ancestors_a) ancestors_b)"

section \<open>Pruning at capacity\<close>

text \<open>Entering a node at a position into the hash, sender and height indices.\<close>

definition index_node :: "DagNode \<Rightarrow> nat \<Rightarrow> 'g Dag \<Rightarrow> 'g Dag" where
  "index_node node idx d =
     (let d = d\<lparr>hash_to_index := hm_insert (dn_hash node) idx (hash_to_index d)\<rparr>
      in if \<not> dn_finalized node
         then d\<lparr>dag_unfinalized := List.insert (dn_hash node) (dag_unfinalized d),
                sender_unfinalized := set_insert (dn_sender node) (dn_hash node) (sender_unfinalized d)\<rparr>
         else case dn_checkpoint_height node of
                Some h \<Rightarrow> d\<lparr>finalized_by_height := set_insert h (dn_hash node) (finalized_by_height d)\<rparr>
              | None \<Rightarrow> d)"

definition index_all :: "DagNode list \<Rightarrow> 'g Dag \<Rightarrow> 'g Dag" where
  "index_all nodes d = fold (\<lambda>(idx, node). index_node node idx) (zip [0..<length nodes] nodes) d"

definition rebuild_index :: "'g petgraph \<Rightarrow> 'g Dag \<Rightarrow> 'g Dag" where
  "rebuild_index G d =
     index_all (dag_nodes G d)
       (d\<lparr>hash_to_index := [], dag_unfinalized := [], sender_unfinalized := [],
          finalized_by_height := []\<rparr>)"

definition UNFINALIZED_PRUNE_AGE_MS :: u64 where
  "UNFINALIZED_PRUNE_AGE_MS = 10 * 60 * 1000"

definition prune_candidates :: "DagNode list \<Rightarrow> (DagNode \<Rightarrow> bool) \<Rightarrow> nat \<Rightarrow> nat list" where
  "prune_candidates nodes P n =
     take n (map fst (sort_key snd
       (map (\<lambda>(idx, node). (idx, dn_timestamp node))
          (filter (\<lambda>(idx, node). P node) (zip [0..<length nodes] nodes)))))"

definition prune_selection :: "'g petgraph \<Rightarrow> u64 \<Rightarrow> 'g Dag \<Rightarrow> nat list" where
  "prune_selection G now_ms d =
     (let nodes = dag_nodes G d;
          target_size = dag_max_nodes d * 3 div 4;
          current_size = length nodes;
          severe_overload = (current_size > dag_max_nodes d * 2);
          to_remove_count = current_size - target_size;
          to_remove = prune_candidates nodes
            (\<lambda>node. dn_finalized node \<and> dn_hash node \<notin> set (dag_tips d)) to_remove_count
      in if severe_overload \<and> length to_remove < to_remove_count
         then to_remove @ prune_candidates nodes
            (\<lambda>node. \<not> dn_finalized node \<and> dn_hash node \<notin> set (dag_tips d)
               \<and> saturating_sub now_ms (dn_timestamp node) > UNFINALIZED_PRUNE_AGE_MS)
            (to_remove_count - length to_remove)
         else to_remove)"

definition prune_step :: "'g petgraph \<Rightarrow> nat \<Rightarrow> 'g Dag \<Rightarrow> 'g Dag" where
  "prune_step G idx d =
     (let d = (case get_at (dag_nodes G d) idx of
                 None \<Rightarrow> d
               | Some node \<Rightarrow>
                   d\<lparr>hash_to_index := hm_remove (dn_hash node) (hash_to_index d),
                     dag_tips := removeAll (dn_hash node) (dag_tips d),
                     dag_unfinalized := removeAll (dn_hash node) (dag_unfinalized d),
                     sender_unfinalized := set_remove (dn_sender node) (dn_hash node) (sender_unfinalized d)\<rparr>)
      in d\<lparr>dag_graph := pg_remove_node G idx (dag_graph d)\<rparr>)"

definition prune_oldest :: "'g petgraph \<Rightarrow> u64 \<Rightarrow> 'g Dag \<Rightarrow> 'g Dag" where
  "prune_oldest G now_ms d =
     rebuild_index G (fold (prune_step G) (rev (prune_selection G now_ms d)) d)"

section \<open>Adding nodes\<close>

definition add_child :: "string \<Rightarrow> DagNode \<Rightarrow> DagNode" where
  "add_child hash node =
     (if hash \<in> set (dn_children node) then node
      else node\<lparr>dn_children := dn_children node @ [hash]\<rparr>)"

definition link_parent :: "'g petgraph \<Rightarrow> string \<Rightarrow> nat \<Rightarrow> string \<Rightarrow> 'g Dag \<times> nat \<Rightarrow> 'g Dag \<times> nat" where
  "link_parent G hash node_idx parent_hash s =
     (if parent_hash \<noteq> [] \<and> parent_hash \<noteq> hash
      then case hm_get (hash_to_index (fst s)) parent_hash of
             Some parent_idx \<Rightarrow>
               ((fst s)\<lparr>dag_graph := pg_update_node G parent_idx (add_child hash)
                          (pg_add_edge G parent_idx node_idx (dag_graph (fst s))),
                        dag_tips := removeAll parent_hash (dag_tips (fst s))\<rparr>,
                snd s + 1)
           | None \<Rightarrow> s
      else s)"

definition add_node_with_stats ::
  "'g petgraph \<Rightarrow> u64 \<Rightarrow> DagNode \<Rightarrow> 'g Dag \<Rightarrow> DagError + 'g Dag \<times> nat \<times> nat" where
  "add_node_with_stats G now_ms node d =
     (let hash = dn_hash node; parents = dn_parents node
      in if hm_contains (hash_to_index d) hash then Inr (d, 0, 0)
         else if \<exists>p \<in> set parents. p \<noteq> [] \<and> p = hash then Inl CycleDetected
         else let total_parents = length (filter (\<lambda>p. p \<noteq> [] \<and> p \<noteq> hash) parents);
                  (graph, node_idx) = pg_add_node G node (dag_graph d);
                  d = index_node node node_idx (d\<lparr>dag_graph := graph\<rparr>);
                  (d, linked_parents) = fold (link_parent G hash node_idx) parents (d, 0);
                  d = d\<lparr>dag_tips := List.insert hash (dag_tips d)\<rparr>;
                  d = (if node_count G d > dag_max_nodes d then prune_oldest G now_ms d else d)
              in Inr (d, linked_parents, total_parents))"

text \<open>\<open>add_node\<close> is the same code without the two counters.\<close>

definition add_node :: "'g petgraph \<Rightarrow> u64 \<Rightarrow> DagNode \<Rightarrow> 'g Dag \<Rightarrow> DagError + 'g Dag" where
  "add_node G now_ms node d =
     (let hash = dn_hash node; parents = dn_parents node
      in if hm_contains (hash_to_index d) hash then Inr d
         else if \<exists>p \<in> set parents. p \<noteq> [] \<and> p = hash then Inl CycleDetected
         else let (graph, node_idx) = pg_add_node G node (dag_graph d);
                  d = index_node node node_idx (d\<lparr>dag_graph := graph\<rparr>);
                  d = fst (fold (link_parent G hash node_idx) parents (d, 0));
                  d = d\<lparr>dag_tips := List.insert hash (dag_tips d)\<rparr>
              in Inr (if node_count G d > dag_max_nodes d then prune_oldest G now_ms d else d))"

section \<open>Finalization\<close>

definition drop_height :: "u64 option \<Rightarrow> string \<Rightarrow> 'g Dag \<Rightarrow> 'g Dag" where
  "drop_height cp_h hash d =
     (case cp_h of
        Some h \<Rightarrow> d\<lparr>finalized_by_height := set_remove h hash (finalized_by_height d)\<rparr>
      | None \<Rightarrow> d)"

definition set_finalized :: "u64 \<Rightarrow> DagNode \<Rightarrow> DagNode" where
  "set_finalized checkpoint_height node =
     node\<lparr>dn_finalized := True, dn_checkpoint_height := Some checkpoint_height\<rparr>"

definition clear_finalized :: "DagNode \<Rightarrow> DagNode" where
  "clear_finalized node = node\<lparr>dn_finalized := False, dn_checkpoint_height := None\<rparr>"

text \<open>The height a finalized node is filed under, when it differs from the new one.\<close>

definition stale_height :: "DagNode \<Rightarrow> u64 \<Rightarrow> u64 option" where
  "stale_height node checkpoint_height =
     (if dn_finalized node \<and> dn_checkpoint_height node \<noteq> Some checkpoint_height
      then dn_checkpoint_height node else None)"

definition mark_finalized_deferred_cleanup ::
  "'g petgraph \<Rightarrow> string \<Rightarrow> u64 \<Rightarrow> 'g Dag \<Rightarrow> DagError + 'g Dag" where
  "mark_finalized_deferred_cleanup G hash checkpoint_height d =
     (case get_node G d hash of
        Some node \<Rightarrow>
          (let d = get_node_mut G hash (set_finalized checkpoint_height) d;
               d = drop_height (stale_height node checkpoint_height) hash d
           in Inr (d\<lparr>dag_unfinalized := removeAll hash (dag_unfinalized d),
                     finalized_by_height := set_insert checkpoint_height hash (finalized_by_height d)\<rparr>))
      | None \<Rightarrow> Inl (NodeNotFound hash))"

definition mark_finalized :: "'g petgraph \<Rightarrow> string \<Rightarrow> u64 \<Rightarrow> 'g Dag \<Rightarrow> DagError + 'g Dag" where
  "mark_finalized G hash checkpoint_height d =
     (case get_node G d hash of
        Some node \<Rightarrow>
          (let sender = dn_sender node;
               d = get_node_mut G hash (set_finalized checkpoint_height) d;
               d = drop_height (stale_height node checkpoint_height) hash d
           in Inr (d\<lparr>dag_unfinalized := removeAll hash (dag_unfinalized d),
                     finalized_by_height := set_insert checkpoint_height hash (finalized_by_height d),
                     sender_unfinalized := set_remove sender hash (sender_unfinalized d)\<rparr>))
      | None \<Rightarrow> Inl (NodeNotFound hash))"

definition cleanup_sender_unfinalized_batch :: "'g petgraph \<Rightarrow> string list \<Rightarrow> 'g Dag \<Rightarrow> 'g Dag" where
  "cleanup_sender_unfinalized_batch G hashes d =
     fold (\<lambda>hash d. case get_node G d hash of
             Some node \<Rightarrow>
               d\<lparr>sender_unfinalized := set_remove (dn_sender node) hash (sender_unfinalized d)\<rparr>
           | None \<Rightarrow> d) hashes d"

text \<open>
  \<open>mark_finalized_batch\<close> collects what to clean while it marks the nodes, then updates the
  indices in one pass each.
\<close>

record batch_plan =
  bp_count :: nat
  bp_senders :: "(string \<times> string) list"
  bp_finalized :: "string list"
  bp_old_heights :: "(u64 \<times> string) list"

definition mark_batch_step ::
  "'g petgraph \<Rightarrow> u64 \<Rightarrow> string \<Rightarrow> 'g Dag \<times> batch_plan \<Rightarrow> 'g Dag \<times> batch_plan" where
  "mark_batch_step G checkpoint_height hash s =
     (case get_node G (fst s) hash of
        Some node \<Rightarrow>
          (get_node_mut G hash (set_finalized checkpoint_height) (fst s),
           (snd s)\<lparr>bp_count := bp_count (snd s) + 1,
             bp_senders := bp_senders (snd s) @ [(dn_sender node, hash)],
             bp_finalized := bp_finalized (snd s) @ [hash],
             bp_old_heights := bp_old_heights (snd s) @
               (case stale_height node checkpoint_height of Some old_h \<Rightarrow> [(old_h, hash)] | None \<Rightarrow> [])\<rparr>)
      | None \<Rightarrow> s)"

definition mark_finalized_batch :: "'g petgraph \<Rightarrow> string list \<Rightarrow> u64 \<Rightarrow> 'g Dag \<Rightarrow> 'g Dag \<times> nat" where
  "mark_finalized_batch G hashes checkpoint_height d =
     (let (d, plan) = fold (mark_batch_step G checkpoint_height) hashes
            (d, \<lparr>bp_count = 0, bp_senders = [], bp_finalized = [], bp_old_heights = []\<rparr>);
          by_height = fold (\<lambda>(old_h, hash) m. set_remove old_h hash m) (bp_old_heights plan)
            (finalized_by_height d);
          by_height = hm_entry checkpoint_height [] (\<lambda>s. fold List.insert (bp_finalized plan) s) by_height
      in (d\<lparr>dag_unfinalized := fold removeAll hashes (dag_unfinalized d),
            finalized_by_height := by_height,
            sender_unfinalized := fold (\<lambda>(sender, hash) m. set_remove sender hash m) (bp_senders plan)
              (sender_unfinalized d)\<rparr>,
          bp_count plan))"

definition unmark_step ::
  "'g petgraph \<Rightarrow> string \<Rightarrow> 'g Dag \<times> (string \<times> string \<times> u64 option) list \<Rightarrow>
   'g Dag \<times> (string \<times> string \<times> u64 option) list" where
  "unmark_step G hash s =
     (case get_node G (fst s) hash of
        Some node \<Rightarrow>
          if dn_finalized node
          then (get_node_mut G hash clear_finalized (fst s),
                snd s @ [(hash, dn_sender node, dn_checkpoint_height node)])
          else s
      | None \<Rightarrow> s)"

definition restore_unfinalized :: "string \<times> string \<times> u64 option \<Rightarrow> 'g Dag \<Rightarrow> 'g Dag" where
  "restore_unfinalized e d =
     (case e of (hash, sender, cp_h) \<Rightarrow>
        let d = drop_height cp_h hash d
        in d\<lparr>dag_unfinalized := List.insert hash (dag_unfinalized d),
             sender_unfinalized := set_insert sender hash (sender_unfinalized d)\<rparr>)"

definition unmark_finalized_batch :: "'g petgraph \<Rightarrow> string list \<Rightarrow> 'g Dag \<Rightarrow> 'g Dag \<times> nat" where
  "unmark_finalized_batch G hashes d =
     (let (d, to_restore) = fold (unmark_step G) hashes (d, [])
      in (fold restore_unfinalized to_restore d, length to_restore))"

definition unfinalize :: "'g petgraph \<Rightarrow> string \<Rightarrow> 'g Dag \<Rightarrow> 'g Dag" where
  "unfinalize G hash d =
     (case get_node G d hash of
        Some node \<Rightarrow>
          restore_unfinalized (hash, dn_sender node, dn_checkpoint_height node)
            (get_node_mut G hash clear_finalized d)
      | None \<Rightarrow> d)"

section \<open>Removal\<close>

definition unlink_child ::
  "'g petgraph \<Rightarrow> string \<Rightarrow> string \<Rightarrow> 'g Dag \<Rightarrow> 'g Dag" where
  "unlink_child G hash parent_hash d =
     (case hm_get (hash_to_index d) parent_hash of
        None \<Rightarrow> d
      | Some pidx \<Rightarrow>
          (let d = d\<lparr>dag_graph := pg_update_node G pidx
                       (\<lambda>p. p\<lparr>dn_children := removeAll hash (dn_children p)\<rparr>) (dag_graph d)\<rparr>
           in case get_at (dag_nodes G d) pidx of
                Some parent_node \<Rightarrow>
                  if dn_children parent_node = []
                  then d\<lparr>dag_tips := List.insert parent_hash (dag_tips d)\<rparr> else d
              | None \<Rightarrow> d))"

definition prune_finalized_step :: "'g petgraph \<Rightarrow> string \<Rightarrow> 'g Dag \<Rightarrow> 'g Dag" where
  "prune_finalized_step G hash d =
     (case hm_get (hash_to_index d) hash of
        None \<Rightarrow> d
      | Some idx \<Rightarrow>
          (let d = d\<lparr>hash_to_index := hm_remove hash (hash_to_index d),
                     dag_tips := removeAll hash (dag_tips d)\<rparr>;
               node = get_at (dag_nodes G d) idx;
               d = (case node of
                      Some n \<Rightarrow> d\<lparr>sender_unfinalized := set_remove (dn_sender n) hash (sender_unfinalized d)\<rparr>
                    | None \<Rightarrow> d);
               d = fold (unlink_child G hash) (case node of Some n \<Rightarrow> dn_parents n | None \<Rightarrow> []) d;
               last_idx = length (dag_nodes G d) - 1;
               swapped_hash = (if idx \<noteq> last_idx then map_option dn_hash (get_at (dag_nodes G d) last_idx)
                               else None);
               d = d\<lparr>dag_graph := pg_remove_node G idx (dag_graph d)\<rparr>
           in case swapped_hash of
                Some sh \<Rightarrow> d\<lparr>hash_to_index := hm_insert sh idx (hash_to_index d)\<rparr>
              | None \<Rightarrow> d))"

definition unfinalized_ancestors :: "'g petgraph \<Rightarrow> 'g Dag \<Rightarrow> string list" where
  "unfinalized_ancestors G d =
     concat (map (\<lambda>node. tx_parents (st_tx (dn_tx node)))
       (List.map_filter (get_node G d) (dag_unfinalized d)))"

definition heights_to_prune :: "u64 \<Rightarrow> 'g Dag \<Rightarrow> u64 list" where
  "heights_to_prune min_checkpoint_height d =
     filter (\<lambda>h. h < min_checkpoint_height) (sort (hm_keys (finalized_by_height d)))"

definition hashes_to_prune ::
  "'g petgraph \<Rightarrow> (string list \<Rightarrow> string list) \<Rightarrow> u64 \<Rightarrow> 'g Dag \<Rightarrow> string list" where
  "hashes_to_prune G iter min_checkpoint_height d =
     concat (map (\<lambda>h. case hm_get (finalized_by_height d) h of
         Some s \<Rightarrow> filter (\<lambda>hash. hash \<notin> set (dag_tips d) \<and> hash \<notin> set (unfinalized_ancestors G d)) (iter s)
       | None \<Rightarrow> []) (heights_to_prune min_checkpoint_height d))"

definition drop_pruned :: "string list \<Rightarrow> u64 \<Rightarrow> (u64, string list) hash_map \<Rightarrow> (u64, string list) hash_map" where
  "drop_pruned hashes h m =
     (case hm_get m h of
        None \<Rightarrow> m
      | Some s \<Rightarrow>
          let s = fold removeAll hashes s
          in if s = [] then hm_remove h m else hm_insert h s m)"

definition prune_finalized_before ::
  "'g petgraph \<Rightarrow> (string list \<Rightarrow> string list) \<Rightarrow> u64 \<Rightarrow> 'g Dag \<Rightarrow> 'g Dag \<times> nat" where
  "prune_finalized_before G iter min_checkpoint_height d =
     (let heights = heights_to_prune min_checkpoint_height d;
          hashes = hashes_to_prune G iter min_checkpoint_height d;
          d = fold (prune_finalized_step G) hashes d
      in (d\<lparr>finalized_by_height := fold (drop_pruned hashes) heights (finalized_by_height d)\<rparr>,
          length hashes))"

definition dag_remove_node :: "'g petgraph \<Rightarrow> string \<Rightarrow> 'g Dag \<Rightarrow> 'g Dag \<times> DagNode option" where
  "dag_remove_node G hash d =
     (case hm_get (hash_to_index d) hash of
        None \<Rightarrow> (d, None)
      | Some idx \<Rightarrow>
          (let d = d\<lparr>hash_to_index := hm_remove hash (hash_to_index d),
                     dag_tips := removeAll hash (dag_tips d),
                     dag_unfinalized := removeAll hash (dag_unfinalized d)\<rparr>;
               node = get_at (dag_nodes G d) idx;
               d = (case node of
                      Some n \<Rightarrow> drop_height (dn_checkpoint_height n) hash
                        (d\<lparr>sender_unfinalized := set_remove (dn_sender n) hash (sender_unfinalized d)\<rparr>)
                    | None \<Rightarrow> d);
               d = fold (unlink_child G hash) (case node of Some n \<Rightarrow> dn_parents n | None \<Rightarrow> []) d;
               removed = get_at (dag_nodes G d) idx;
               d = d\<lparr>dag_graph := pg_remove_node G idx (dag_graph d)\<rparr>
           in (rebuild_index G d, removed)))"

definition prune_branch :: "'g petgraph \<Rightarrow> string \<Rightarrow> 'g Dag \<Rightarrow> 'g Dag \<times> DagNode list" where
  "prune_branch G root_hash d =
     (let to_remove = get_descendants G d root_hash USIZE_MAX @ [root_hash];
          by_depth = sort_key (\<lambda>h. - int (length (get_ancestors G d h USIZE_MAX))) to_remove;
          non_finalized = filter (\<lambda>h. case get_node G d h of
                            Some node \<Rightarrow> \<not> dn_finalized node | None \<Rightarrow> False) by_depth
      in fold (\<lambda>h (d, removed). case dag_remove_node G h d of
                 (d', Some node) \<Rightarrow> (d', removed @ [node]) | (d', None) \<Rightarrow> (d', removed))
           non_finalized (d, []))"

text \<open>
  \<open>remove_nodes_batch\<close> and \<open>evict_finalized_before\<close> remove a set of nodes from the graph,
  highest index first, drop the removed hashes from the remaining nodes with
  \<open>strip_node\<close> and then rebuild every index.
\<close>

definition index_tip :: "DagNode \<Rightarrow> nat \<Rightarrow> 'g Dag \<Rightarrow> 'g Dag" where
  "index_tip node idx d =
     (let d = index_node node idx d
      in if dn_children node = [] then d\<lparr>dag_tips := List.insert (dn_hash node) (dag_tips d)\<rparr> else d)"

definition remove_indices ::
  "'g petgraph \<Rightarrow> (DagNode \<Rightarrow> DagNode) \<Rightarrow> nat list \<Rightarrow> 'g Dag \<Rightarrow> 'g Dag" where
  "remove_indices G strip_node indices d =
     (let indices_to_remove = sort_key (\<lambda>i. - int i) indices;
          graph = fold (pg_remove_node G) indices_to_remove (dag_graph d);
          graph = fold (\<lambda>i. pg_update_node G i strip_node) [0..<length (pg_nodes G graph)] graph;
          nodes = pg_nodes G graph
      in fold (\<lambda>(idx, node). index_tip node idx) (zip [0..<length nodes] nodes)
           (d\<lparr>dag_graph := graph, hash_to_index := [], dag_unfinalized := [],
              sender_unfinalized := [], finalized_by_height := [], dag_tips := []\<rparr>))"

definition strip_hashes :: "string list \<Rightarrow> DagNode \<Rightarrow> DagNode" where
  "strip_hashes evict_set node =
     node\<lparr>dn_children := filter (\<lambda>c. c \<notin> set evict_set) (dn_children node),
          dn_parents := filter (\<lambda>p. p \<notin> set evict_set) (dn_parents node)\<rparr>"

definition strip_tx_parents :: "string list \<Rightarrow> DagNode \<Rightarrow> DagNode" where
  "strip_tx_parents evict_set node =
     node\<lparr>dn_tx := (dn_tx node)\<lparr>st_tx := (st_tx (dn_tx node))\<lparr>
       tx_parents := filter (\<lambda>p. p \<notin> set evict_set) (tx_parents (st_tx (dn_tx node)))\<rparr>\<rparr>\<rparr>"

definition remove_nodes_batch :: "'g petgraph \<Rightarrow> string list \<Rightarrow> 'g Dag \<Rightarrow> 'g Dag \<times> nat" where
  "remove_nodes_batch G hashes d =
     (let indices = rev (remdups (rev (List.map_filter (hm_get (hash_to_index d)) hashes)))
      in if indices = [] then (d, 0)
         else (remove_indices G (strip_tx_parents hashes \<circ> strip_hashes hashes) indices d,
               length indices))"

definition evictable :: "'g petgraph \<Rightarrow> u64 \<Rightarrow> 'g Dag \<Rightarrow> DagNode \<Rightarrow> bool" where
  "evictable G boundary_height d node \<longleftrightarrow>
     dn_finalized node
     \<and> (case dn_checkpoint_height node of Some h \<Rightarrow> h < boundary_height | None \<Rightarrow> False)
     \<and> (\<forall>c \<in> set (dn_children node). case get_node G d c of
          Some child \<Rightarrow> dn_finalized child | None \<Rightarrow> True)"

definition evict_finalized_before :: "'g petgraph \<Rightarrow> u64 \<Rightarrow> 'g Dag \<Rightarrow> 'g Dag \<times> nat" where
  "evict_finalized_before G boundary_height d =
     (let to_evict = map dn_hash (filter (evictable G boundary_height d) (dag_nodes G d))
      in if to_evict = [] then (d, 0)
         else (remove_indices G (strip_hashes to_evict)
                 (List.map_filter (hm_get (hash_to_index d)) to_evict) d,
               length to_evict))"

section \<open>Rebuilding after a snapshot\<close>

definition relink_parent ::
  "'g petgraph \<Rightarrow> string \<Rightarrow> nat \<Rightarrow> string \<Rightarrow> 'g Dag \<times> nat \<Rightarrow> 'g Dag \<times> nat" where
  "relink_parent G hash node_idx parent_hash s =
     (if parent_hash \<noteq> [] \<and> parent_hash \<noteq> hash
      then case hm_get (hash_to_index (fst s)) parent_hash of
             Some parent_idx \<Rightarrow>
               (get_node_mut G parent_hash (add_child hash)
                  ((fst s)\<lparr>dag_graph := pg_add_edge G parent_idx node_idx (dag_graph (fst s))\<rparr>),
                snd s)
           | None \<Rightarrow> (fst s, snd s + 1)
      else s)"

definition relink_node :: "'g petgraph \<Rightarrow> string \<Rightarrow> 'g Dag \<times> nat \<Rightarrow> 'g Dag \<times> nat" where
  "relink_node G hash s =
     (case (get_node G (fst s) hash, hm_get (hash_to_index (fst s)) hash) of
        (Some node, Some idx) \<Rightarrow> fold (relink_parent G hash idx) (dn_parents node) s
      | _ \<Rightarrow> s)"

definition rebuild_tips ::
  "'g petgraph \<Rightarrow> (string list \<Rightarrow> string list) \<Rightarrow> 'g Dag \<Rightarrow> 'g Dag \<times> nat \<times> nat \<times> nat" where
  "rebuild_tips G iter d =
     (let all_hashes = iter (hm_keys (hash_to_index d));
          d = d\<lparr>dag_graph := pg_clear_edges G (dag_graph d)\<rparr>;
          d = fold (\<lambda>h. get_node_mut G h (\<lambda>n. n\<lparr>dn_children := []\<rparr>)) all_hashes d;
          (d, dangling_parents) = fold (relink_node G) all_hashes (d, 0);
          d = d\<lparr>dag_tips := fold (\<lambda>h tips. case get_node G d h of
                 Some node \<Rightarrow> if dn_children node = [] then List.insert h tips else tips
               | None \<Rightarrow> tips) all_hashes []\<rparr>
      in (d, length all_hashes, length (dag_tips d), dangling_parents))"

end
