(* ===== verification/Rinku_Dag_Invariant.thy ===== *)
theory Rinku_Dag_Invariant
  imports Rinku_Dag
begin

text \<open>
  The DAG and its indices agree. The abstraction of a DAG is the map \<open>get_node\<close> from
  hashes to nodes: \<open>idx_ok\<close> says that the hash index and the graph's node list realise
  it, and \<open>dag_views\<close> says what the four derived indices hold in terms of it. Each
  operation is shown to act on the map the way it is meant to and to keep \<open>dag_inv\<close>;
  \<open>dag_step\<close> collects the operations, and the invariant holds in every DAG reachable
  from the empty one.
\<close>

section \<open>Sets in maps\<close>

definition hm_set :: "('k, string list) hash_map \<Rightarrow> 'k \<Rightarrow> string set" where
  "hm_set m k = set (unwrap_or (hm_get m k) [])"

lemma hm_set_Nil [simp]: "hm_set [] k = {}"
  by (simp add: hm_set_def)

lemma hm_set_insert [simp]:
  "hm_set (set_insert k x m) k' = (if k' = k then insert x (hm_set m k) else hm_set m k')"
  by (simp add: hm_set_def set_insert_def hm_get_entry)

lemma hm_set_remove [simp]:
  "hm_set (set_remove k x m) k' = (if k' = k then hm_set m k - {x} else hm_set m k')"
proof (cases "hm_get m k")
  case (Some s)
  have "set (removeAll x s) = set s - {x}" by simp
  then have "removeAll x s = [] \<longleftrightarrow> set s - {x} = {}" by (metis set_empty)
  with Some show ?thesis by (auto simp: hm_set_def set_remove_def)
qed (simp add: hm_set_def set_remove_def)

lemma hm_set_remove_fold:
  "hm_set (fold (\<lambda>(k, x) m. set_remove k x m) ps m) k = hm_set m k - {x. (k, x) \<in> set ps}"
proof (induction ps arbitrary: m)
  case (Cons p ps)
  then show ?case by (cases p) (auto simp: Cons)
qed simp

lemma set_fold_insert: "set (fold List.insert xs s) = set xs \<union> set s"
  by (induction xs arbitrary: s) auto

lemma set_fold_removeAll: "set (fold removeAll xs s) = set s - set xs"
  by (induction xs arbitrary: s) auto

section \<open>The hash index\<close>

definition idx_ok :: "DagNode list \<Rightarrow> (string, nat) hash_map \<Rightarrow> bool" where
  "idx_ok ns ix \<longleftrightarrow> (\<forall>h i. hm_get ix h = Some i \<longleftrightarrow> i < length ns \<and> dn_hash (ns ! i) = h)"

definition node_map :: "DagNode list \<Rightarrow> string \<rightharpoonup> DagNode" where
  "node_map ns h = find (\<lambda>n. dn_hash n = h) ns"

lemma idx_okD: "idx_ok ns ix \<Longrightarrow> hm_get ix h = Some i \<Longrightarrow> i < length ns \<and> dn_hash (ns ! i) = h"
  by (simp add: idx_ok_def)

lemma idx_ok_nth: "idx_ok ns ix \<Longrightarrow> i < length ns \<Longrightarrow> hm_get ix (dn_hash (ns ! i)) = Some i"
  by (simp add: idx_ok_def)

lemma idx_ok_distinct: "idx_ok ns ix \<Longrightarrow> distinct (map dn_hash ns)"
  by (auto simp: distinct_conv_nth) (metis idx_ok_nth option.inject)

lemma node_map_iff:
  "distinct (map dn_hash ns) \<Longrightarrow> node_map ns h = Some n \<longleftrightarrow> n \<in> set ns \<and> dn_hash n = h"
  unfolding node_map_def by (induction ns) auto

lemma node_map_None: "node_map ns h = None \<longleftrightarrow> h \<notin> dn_hash ` set ns"
  by (auto simp: node_map_def find_None_iff)

lemma get_node_map:
  assumes "idx_ok (dag_nodes G d) (hash_to_index d)"
  shows "get_node G d h = node_map (dag_nodes G d) h"
proof (cases "hm_get (hash_to_index d) h")
  case None
  then have "h \<notin> dn_hash ` set (dag_nodes G d)"
    using assms by (metis idx_ok_nth imageE in_set_conv_nth option.distinct(1))
  with None show ?thesis by (simp add: get_node_def node_map_None [THEN iffD2])
next
  case (Some i)
  note i = idx_okD [OF assms Some]
  then have "node_map (dag_nodes G d) h = Some (dag_nodes G d ! i)"
    using idx_ok_distinct [OF assms] by (simp add: node_map_iff)
  with Some i show ?thesis by (simp add: get_node_def get_at_def)
qed

lemma node_map_update:
  assumes "distinct (map dn_hash ns)" "i < length ns" "dn_hash (f (ns ! i)) = dn_hash (ns ! i)"
  shows "node_map (ns[i := f (ns ! i)]) =
    (node_map ns)(dn_hash (ns ! i) \<mapsto> f (ns ! i))"
proof
  fix h
  let ?ns = "ns[i := f (ns ! i)]"
  have same: "map dn_hash ?ns = map dn_hash ns" using assms by (simp add: map_update list_update_same_conv)
  then have d: "distinct (map dn_hash ?ns)" using assms by simp
  show "node_map ?ns h = ((node_map ns)(dn_hash (ns ! i) \<mapsto> f (ns ! i))) h"
  proof (cases "h = dn_hash (ns ! i)")
    case True
    then show ?thesis using assms by (simp add: node_map_iff [OF d] set_update_memI)
  next
    case False
    have "n \<in> set ?ns \<longleftrightarrow> n \<in> set ns" if "dn_hash n = h" for n
      using that False assms by (metis in_set_conv_nth length_list_update nth_list_update_eq nth_list_update_neq)
    then have "node_map ?ns h = Some n \<longleftrightarrow> node_map ns h = Some n" for n
      using node_map_iff [OF d] node_map_iff [OF assms(1)] by blast
    then have "node_map ?ns h = node_map ns h" by (metis not_None_eq)
    with False show ?thesis by simp
  qed
qed

lemma idx_ok_update:
  "idx_ok ns ix \<Longrightarrow> (i < length ns \<Longrightarrow> dn_hash (f (ns ! i)) = dn_hash (ns ! i)) \<Longrightarrow>
   idx_ok (ns[i := f (ns ! i)]) ix"
  unfolding idx_ok_def by (metis length_list_update nth_list_update_eq nth_list_update_neq)

lemma node_map_append:
  "h \<notin> dn_hash ` set ns \<Longrightarrow> dn_hash w = h \<Longrightarrow> node_map (ns @ [w]) = (node_map ns)(h \<mapsto> w)"
  by (induction ns) (auto simp: node_map_def fun_eq_iff)

lemma idx_ok_append:
  assumes "idx_ok ns ix" and "dn_hash w \<notin> dn_hash ` set ns"
  shows "idx_ok (ns @ [w]) (hm_insert (dn_hash w) (length ns) ix)"
  using assms by (auto simp: idx_ok_def nth_append less_Suc_eq) (metis image_eqI nth_mem)+

section \<open>Swap removal\<close>

lemma length_swap_remove [simp]: "i < length xs \<Longrightarrow> length (swap_remove i xs) = length xs - 1"
  by (simp add: swap_remove_def)

lemma nth_swap_remove:
  "i < length xs \<Longrightarrow> j < length xs - 1 \<Longrightarrow> swap_remove i xs ! j = (if j = i then last xs else xs ! j)"
  by (simp add: swap_remove_def nth_butlast)

lemma mset_swap_remove:
  "i < length xs \<Longrightarrow> mset xs = add_mset (xs ! i) (mset (swap_remove i xs))"
proof -
  assume i: "i < length xs"
  then obtain ys z where xs: "xs = ys @ [z]" by (cases xs rule: rev_cases) auto
  show ?thesis
  proof (cases "i < length ys")
    case True
    then have "mset ys = add_mset (ys ! i) (mset ys - {#ys ! i#})" by simp
    with True show ?thesis
      by (simp add: xs swap_remove_def nth_append list_update_append mset_update)
  next
    case False
    with i xs have "i = length ys" by simp
    then show ?thesis by (simp add: xs swap_remove_def list_update_append)
  qed
qed

lemma distinct_swap_remove:
  assumes "distinct (map f xs)"
  shows "distinct (map f (swap_remove i xs))"
proof (cases "i < length xs")
  case True
  have "mset (map f xs) = add_mset (f (xs ! i)) (mset (map f (swap_remove i xs)))"
    using mset_swap_remove [OF True] by simp
  with assms have "distinct (f (xs ! i) # map f (swap_remove i xs))"
    by (metis mset.simps(2) mset_eq_imp_distinct_iff)
  then show ?thesis by simp
qed (use assms in \<open>simp add: swap_remove_def\<close>)

lemma set_swap_remove:
  assumes "distinct (map f xs)" "i < length xs"
  shows "set (swap_remove i xs) = {x \<in> set xs. f x \<noteq> f (xs ! i)}"
proof -
  have m: "mset xs = add_mset (xs ! i) (mset (swap_remove i xs))" by (rule mset_swap_remove [OF assms(2)])
  then have "mset (map f xs) = mset (f (xs ! i) # map f (swap_remove i xs))" by simp
  with assms(1) have "f (xs ! i) \<notin> f ` set (swap_remove i xs)"
    by (metis distinct.simps(2) list.set_map mset_eq_imp_distinct_iff)
  moreover from m have "set xs = insert (xs ! i) (set (swap_remove i xs))"
    by (metis set_mset_add_mset_insert set_mset_mset)
  ultimately show ?thesis by (auto simp: image_iff)
qed

lemma node_map_swap_remove:
  assumes "distinct (map dn_hash ns)" "i < length ns"
  shows "node_map (swap_remove i ns) = (node_map ns)(dn_hash (ns ! i) := None)"
proof
  fix h
  note d = distinct_swap_remove [OF assms(1), of i]
  have "node_map (swap_remove i ns) h = Some n \<longleftrightarrow>
      ((node_map ns)(dn_hash (ns ! i) := None)) h = Some n" for n
    using node_map_iff [OF d] node_map_iff [OF assms(1)] set_swap_remove [OF assms] by auto
  then show "node_map (swap_remove i ns) h = ((node_map ns)(dn_hash (ns ! i) := None)) h"
    by (metis not_None_eq)
qed

text \<open>The index fix-up of the source: the moved node gets the freed position.\<close>

lemma idx_ok_swap_remove:
  assumes "idx_ok ns ix" "i < length ns"
  defines "ix' \<equiv> hm_remove (dn_hash (ns ! i)) ix"
  shows "idx_ok (swap_remove i ns)
    (if i \<noteq> length ns - 1 then hm_insert (dn_hash (ns ! (length ns - 1))) i ix' else ix')"
proof -
  have last: "last ns = ns ! (length ns - 1)" using assms(2) by (intro last_conv_nth) auto
  have inj: "dn_hash (ns ! a) = dn_hash (ns ! b) \<longleftrightarrow> a = b" if "a < length ns" "b < length ns" for a b
    using assms(1) that by (metis idx_ok_nth option.inject)
  have get: "hm_get ix h = Some j \<longleftrightarrow> j < length ns \<and> dn_hash (ns ! j) = h" for h j
    using assms(1) by (simp add: idx_ok_def)
  show ?thesis
    unfolding idx_ok_def
  proof (intro allI)
    fix h j
    show "hm_get (if i \<noteq> length ns - 1 then hm_insert (dn_hash (ns ! (length ns - 1))) i ix' else ix') h = Some j
      \<longleftrightarrow> j < length (swap_remove i ns) \<and> dn_hash (swap_remove i ns ! j) = h"
    proof (cases "j < length ns - 1")
      case True
      then show ?thesis
        using assms(2) inj [of j i] inj [of "length ns - 1" i] inj [of j "length ns - 1"]
        by (auto simp: ix'_def nth_swap_remove last get)
    next
      case False
      then show ?thesis
        using assms(2) inj [of j "length ns - 1"] by (auto simp: ix'_def get)
    qed
  qed
qed

section \<open>Rebuilding the index\<close>

lemma set_zip_upt: "(i, n) \<in> set (zip [0..<length ns] ns) \<longleftrightarrow> i < length ns \<and> ns ! i = n"
  by (force simp: set_zip)

lemma index_node_fields [simp]:
  "dag_graph (index_node n i d) = dag_graph d"
  "dag_tips (index_node n i d) = dag_tips d"
  "dag_max_nodes (index_node n i d) = dag_max_nodes d"
  "hash_to_index (index_node n i d) = hm_insert (dn_hash n) i (hash_to_index d)"
  "dag_unfinalized (index_node n i d) =
     (if dn_finalized n then dag_unfinalized d else List.insert (dn_hash n) (dag_unfinalized d))"
  "sender_unfinalized (index_node n i d) =
     (if dn_finalized n then sender_unfinalized d
      else set_insert (dn_sender n) (dn_hash n) (sender_unfinalized d))"
  "finalized_by_height (index_node n i d) =
     (case (dn_finalized n, dn_checkpoint_height n) of
        (True, Some h) \<Rightarrow> set_insert h (dn_hash n) (finalized_by_height d)
      | _ \<Rightarrow> finalized_by_height d)"
  by (auto simp: index_node_def Let_def split: option.splits bool.splits)

abbreviation index_pairs :: "(nat \<times> DagNode) list \<Rightarrow> 'g Dag \<Rightarrow> 'g Dag" where
  "index_pairs ps d \<equiv> fold (\<lambda>(idx, node). index_node node idx) ps d"

lemma index_pairs_kept [simp]:
  "dag_graph (index_pairs ps d) = dag_graph d" "dag_tips (index_pairs ps d) = dag_tips d"
  "dag_max_nodes (index_pairs ps d) = dag_max_nodes d"
  by (induction ps arbitrary: d) (auto simp: case_prod_beta)

lemma index_pairs_unfinalized:
  "set (dag_unfinalized (index_pairs ps d)) =
     set (dag_unfinalized d) \<union> {dn_hash n |n. n \<in> snd ` set ps \<and> \<not> dn_finalized n}"
  by (induction ps arbitrary: d) (auto simp: case_prod_beta)

lemma index_pairs_sender:
  "hm_set (sender_unfinalized (index_pairs ps d)) s =
     hm_set (sender_unfinalized d) s
     \<union> {dn_hash n |n. n \<in> snd ` set ps \<and> \<not> dn_finalized n \<and> dn_sender n = s}"
  by (induction ps arbitrary: d) (auto simp: case_prod_beta split: if_splits)

lemma index_pairs_height:
  "hm_set (finalized_by_height (index_pairs ps d)) k =
     hm_set (finalized_by_height d) k
     \<union> {dn_hash n |n. n \<in> snd ` set ps \<and> dn_finalized n \<and> dn_checkpoint_height n = Some k}"
proof (induction ps arbitrary: d)
  case (Cons p ps)
  obtain i n where p: "p = (i, n)" by (cases p)
  show ?case
    by (cases "dn_finalized n"; cases "dn_checkpoint_height n") (auto simp: p Cons)
qed simp

lemma index_pairs_index:
  "distinct (map (dn_hash \<circ> snd) ps) \<Longrightarrow>
   hm_get (hash_to_index (index_pairs ps d)) h = Some i \<longleftrightarrow>
     (\<exists>n. (i, n) \<in> set ps \<and> dn_hash n = h)
     \<or> (h \<notin> (dn_hash \<circ> snd) ` set ps \<and> hm_get (hash_to_index d) h = Some i)"
proof (induction ps arbitrary: d)
  case (Cons p ps)
  obtain j n where p: "p = (j, n)" by (cases p)
  have "hm_get (hash_to_index (index_pairs (p # ps) d)) h = Some i \<longleftrightarrow>
     (\<exists>n. (i, n) \<in> set ps \<and> dn_hash n = h)
     \<or> (h \<notin> (dn_hash \<circ> snd) ` set ps \<and> hm_get (hash_to_index (index_node n j d)) h = Some i)"
    using Cons p by simp
  with Cons.prems p show ?case by (auto simp: image_iff)
qed simp

definition unfin_view :: "'g Dag \<Rightarrow> (string \<rightharpoonup> DagNode) \<Rightarrow> bool" where
  "unfin_view d m \<longleftrightarrow> (\<forall>h. h \<in> set (dag_unfinalized d) \<longleftrightarrow> (\<exists>n. m h = Some n \<and> \<not> dn_finalized n))"

definition sender_view :: "'g Dag \<Rightarrow> (string \<rightharpoonup> DagNode) \<Rightarrow> bool" where
  "sender_view d m \<longleftrightarrow> (\<forall>s h. h \<in> hm_set (sender_unfinalized d) s \<longleftrightarrow>
     (\<exists>n. m h = Some n \<and> \<not> dn_finalized n \<and> dn_sender n = s))"

definition height_view :: "'g Dag \<Rightarrow> (string \<rightharpoonup> DagNode) \<Rightarrow> bool" where
  "height_view d m \<longleftrightarrow> (\<forall>k h. h \<in> hm_set (finalized_by_height d) k \<longleftrightarrow>
     (\<exists>n. m h = Some n \<and> dn_finalized n \<and> dn_checkpoint_height n = Some k))"

definition tips_view :: "'g Dag \<Rightarrow> (string \<rightharpoonup> DagNode) \<Rightarrow> bool" where
  "tips_view d m \<longleftrightarrow> (\<forall>h. h \<in> set (dag_tips d) \<longleftrightarrow> (\<exists>n. m h = Some n \<and> dn_children n = []))"

lemmas dag_view_defs = unfin_view_def sender_view_def height_view_def tips_view_def

definition dag_idx :: "'g petgraph \<Rightarrow> 'g Dag \<Rightarrow> bool" where
  "dag_idx G d \<longleftrightarrow> idx_ok (dag_nodes G d) (hash_to_index d)"

definition dag_inv :: "'g petgraph \<Rightarrow> 'g Dag \<Rightarrow> bool" where
  "dag_inv G d \<longleftrightarrow> dag_idx G d \<and> unfin_view d (get_node G d) \<and> sender_view d (get_node G d)
     \<and> height_view d (get_node G d) \<and> tips_view d (get_node G d)"

lemma dag_invI:
  "dag_idx G d \<Longrightarrow> get_node G d = m \<Longrightarrow> unfin_view d m \<Longrightarrow> sender_view d m \<Longrightarrow> height_view d m
   \<Longrightarrow> tips_view d m \<Longrightarrow> dag_inv G d"
  by (simp add: dag_inv_def)

lemma rebuild_index_fields [simp]:
  "dag_graph (rebuild_index G d) = dag_graph d" "dag_tips (rebuild_index G d) = dag_tips d"
  "dag_max_nodes (rebuild_index G d) = dag_max_nodes d"
  by (simp_all add: rebuild_index_def index_all_def)

lemma snd_zip_upt [simp]: "snd ` set (zip [0..<length ns] ns) = set ns"
  by (metis length_upt list.set_map map_snd_zip minus_nat.diff_0)

lemma map_snd_zip_upt [simp]: "map (f \<circ> snd) (zip [0..<length ns] ns) = map f ns"
  by (metis length_upt list.map_comp map_snd_zip minus_nat.diff_0)

lemma idx_ok_index_pairs:
  assumes "distinct (map dn_hash ns)" and "hash_to_index d = []"
  shows "idx_ok ns (hash_to_index (index_pairs (zip [0..<length ns] ns) d))"
  using assms index_pairs_index [of "zip [0..<length ns] ns" d]
  by (auto simp: idx_ok_def set_zip_upt)

lemma rebuild_index_idx: "distinct (map dn_hash (dag_nodes G d)) \<Longrightarrow> dag_idx G (rebuild_index G d)"
  by (simp add: dag_idx_def) (simp add: rebuild_index_def index_all_def idx_ok_index_pairs)

lemma rebuild_index_get:
  "distinct (map dn_hash (dag_nodes G d)) \<Longrightarrow> get_node G (rebuild_index G d) = node_map (dag_nodes G d)"
  using get_node_map [of G "rebuild_index G d"] rebuild_index_idx [of G d]
  by (auto simp: dag_idx_def)

lemma index_pairs_views:
  assumes "distinct (map dn_hash ns)" and "dag_unfinalized d = []" "sender_unfinalized d = []"
    "finalized_by_height d = []"
  defines "d' \<equiv> index_pairs (zip [0..<length ns] ns) d"
  shows "unfin_view d' (node_map ns)" "sender_view d' (node_map ns)" "height_view d' (node_map ns)"
  using assms by (auto simp: dag_view_defs node_map_iff d'_def index_pairs_unfinalized
      index_pairs_sender index_pairs_height)

text \<open>After \<open>rebuild_index\<close> only the tips remain to be checked.\<close>

lemma rebuild_index_inv:
  assumes "distinct (map dn_hash (dag_nodes G d))" and "tips_view d (node_map (dag_nodes G d))"
  shows "dag_inv G (rebuild_index G d)"
proof (rule dag_invI [OF rebuild_index_idx [OF assms(1)] rebuild_index_get [OF assms(1)]])
  show "tips_view (rebuild_index G d) (node_map (dag_nodes G d))"
    using assms(2) by (simp add: tips_view_def)
qed (simp_all add: rebuild_index_def index_all_def index_pairs_views [OF assms(1)])

section \<open>Updating a node\<close>

lemma petgraph_lawsD [simp]:
  assumes "petgraph_laws G"
  shows "pg_nodes G (pg_new G) = []"
    "pg_nodes G (fst (pg_add_node G w g)) = pg_nodes G g @ [w]"
    "snd (pg_add_node G w g) = length (pg_nodes G g)"
    "pg_nodes G (pg_update_node G i f g) =
       (if i < length (pg_nodes G g) then (pg_nodes G g)[i := f (pg_nodes G g ! i)] else pg_nodes G g)"
    "pg_nodes G (pg_remove_node G i g) = swap_remove i (pg_nodes G g)"
    "pg_nodes G (pg_add_edge G i j g) = pg_nodes G g"
    "pg_nodes G (pg_clear_edges G g) = pg_nodes G g"
  using assms by (simp_all add: petgraph_laws_def)

lemma dag_idx_distinct: "dag_idx G d \<Longrightarrow> distinct (map dn_hash (dag_nodes G d))"
  unfolding dag_idx_def by (rule idx_ok_distinct)

lemma get_node_Some_index:
  "dag_idx G d \<Longrightarrow> get_node G d h = Some n \<longleftrightarrow>
     (\<exists>i. hm_get (hash_to_index d) h = Some i \<and> i < length (dag_nodes G d) \<and> dag_nodes G d ! i = n \<and> dn_hash n = h)"
  by (auto simp: get_node_def get_at_def dag_idx_def dest: idx_okD split: option.splits)

lemma get_node_hash: "dag_idx G d \<Longrightarrow> get_node G d h = Some n \<Longrightarrow> dn_hash n = h"
  by (auto simp: get_node_Some_index)

lemma get_node_None_index: "dag_idx G d \<Longrightarrow> get_node G d h = None \<longleftrightarrow> hm_get (hash_to_index d) h = None"
  by (auto simp: get_node_def get_at_def dag_idx_def dest: idx_okD split: option.splits)

lemma get_node_cong:
  "dag_nodes G d = dag_nodes G d' \<Longrightarrow> hash_to_index d = hash_to_index d' \<Longrightarrow> get_node G d = get_node G d'"
  by (auto simp: get_node_def fun_eq_iff split: option.splits)

lemma update_index:
  assumes "petgraph_laws G" "dag_idx G d" "hm_get (hash_to_index d) h = Some i"
    and "\<And>n. dn_hash (f n) = dn_hash n"
    and "dag_nodes G d' = dag_nodes G (d\<lparr>dag_graph := pg_update_node G i f (dag_graph d)\<rparr>)"
    and "hash_to_index d' = hash_to_index d"
  shows "dag_idx G d'" and "get_node G d' = (get_node G d)(h := map_option f (get_node G d h))"
proof -
  have i: "i < length (dag_nodes G d)" "dn_hash (dag_nodes G d ! i) = h"
    using assms(2,3) by (auto simp: dag_idx_def dest: idx_okD)
  have ns: "dag_nodes G d' = (dag_nodes G d)[i := f (dag_nodes G d ! i)]"
    using assms(1,5) i by simp
  show idx: "dag_idx G d'"
    using assms(2,4,6) by (simp add: dag_idx_def ns idx_ok_update)
  have "get_node G d h = Some (dag_nodes G d ! i)"
    using assms(3) i by (simp add: get_node_def get_at_def)
  then show "get_node G d' = (get_node G d)(h := map_option f (get_node G d h))"
    using node_map_update [OF dag_idx_distinct [OF assms(2)] i(1), of f] assms(4)
      get_node_map [of G d] get_node_map [of G d'] idx assms(2) i
    by (auto simp: dag_idx_def ns)
qed

lemma get_node_mut_fields [simp]:
  "dag_tips (get_node_mut G h f d) = dag_tips d"
  "dag_unfinalized (get_node_mut G h f d) = dag_unfinalized d"
  "sender_unfinalized (get_node_mut G h f d) = sender_unfinalized d"
  "finalized_by_height (get_node_mut G h f d) = finalized_by_height d"
  "hash_to_index (get_node_mut G h f d) = hash_to_index d"
  "dag_max_nodes (get_node_mut G h f d) = dag_max_nodes d"
  by (simp_all add: get_node_mut_def split: option.splits)

lemma get_node_mut_get:
  assumes "petgraph_laws G" "dag_idx G d" "\<And>n. dn_hash (f n) = dn_hash n"
  shows "dag_idx G (get_node_mut G h f d)"
    and "get_node G (get_node_mut G h f d) = (get_node G d)(h := map_option f (get_node G d h))"
proof -
  have "dag_idx G (get_node_mut G h f d)
    \<and> get_node G (get_node_mut G h f d) = (get_node G d)(h := map_option f (get_node G d h))"
  proof (cases "hm_get (hash_to_index d) h")
    case None
    then have "get_node G d h = None" by (simp add: get_node_def)
    then show ?thesis using None assms(2) by (simp add: get_node_mut_def fun_upd_idem)
  next
    case (Some i)
    then show ?thesis
      using update_index [OF assms(1,2) Some assms(3), where d' = "get_node_mut G h f d"]
      by (simp add: get_node_mut_def)
  qed
  then show "dag_idx G (get_node_mut G h f d)"
    "get_node G (get_node_mut G h f d) = (get_node G d)(h := map_option f (get_node G d h))" by auto
qed

section \<open>Finalization keeps the invariant\<close>

lemma drop_height_fields [simp]:
  "dag_graph (drop_height k h d) = dag_graph d" "dag_tips (drop_height k h d) = dag_tips d"
  "dag_unfinalized (drop_height k h d) = dag_unfinalized d"
  "sender_unfinalized (drop_height k h d) = sender_unfinalized d"
  "hash_to_index (drop_height k h d) = hash_to_index d"
  "dag_max_nodes (drop_height k h d) = dag_max_nodes d"
  "hm_set (finalized_by_height (drop_height k h d)) j =
     hm_set (finalized_by_height d) j - (if k = Some j then {h} else {})"
  by (auto simp: drop_height_def split: option.splits)

lemma set_finalized_fields [simp]:
  "dn_hash (set_finalized c n) = dn_hash n" "dn_tx (set_finalized c n) = dn_tx n"
  "dn_parents (set_finalized c n) = dn_parents n" "dn_children (set_finalized c n) = dn_children n"
  "dn_finalized (set_finalized c n)" "dn_checkpoint_height (set_finalized c n) = Some c"
  "set_finalized c (set_finalized c' n) = set_finalized c n"
  by (simp_all add: set_finalized_def)

lemma clear_finalized_fields [simp]:
  "dn_hash (clear_finalized n) = dn_hash n" "dn_tx (clear_finalized n) = dn_tx n"
  "dn_parents (clear_finalized n) = dn_parents n" "dn_children (clear_finalized n) = dn_children n"
  "\<not> dn_finalized (clear_finalized n)" "dn_checkpoint_height (clear_finalized n) = None"
  by (simp_all add: clear_finalized_def)

lemma stale_height_Some:
  "stale_height n c = Some k \<longleftrightarrow> dn_finalized n \<and> dn_checkpoint_height n = Some k \<and> k \<noteq> c"
  by (auto simp: stale_height_def)

definition finalize_map :: "string set \<Rightarrow> u64 \<Rightarrow> (string \<rightharpoonup> DagNode) \<Rightarrow> (string \<rightharpoonup> DagNode)" where
  "finalize_map hs c m = (\<lambda>h. if h \<in> hs then map_option (set_finalized c) (m h) else m h)"

definition clear_map :: "string set \<Rightarrow> (string \<rightharpoonup> DagNode) \<Rightarrow> (string \<rightharpoonup> DagNode)" where
  "clear_map hs m = (\<lambda>h. if h \<in> hs then map_option clear_finalized (m h) else m h)"

lemma mark_finalized_inv:
  assumes "petgraph_laws G" "dag_inv G d" "mark_finalized G h c d = Inr d'"
  shows "dag_inv G d' \<and> get_node G d' = finalize_map {h} c (get_node G d)"
proof -
  obtain n where n: "get_node G d h = Some n"
    using assms(3) by (auto simp: mark_finalized_def split: option.splits)
  note mut = get_node_mut_get [OF assms(1), of d "set_finalized c" h]
  let ?m = "finalize_map {h} c (get_node G d)"
  have d': "d' = (let d1 = drop_height (stale_height n c) h (get_node_mut G h (set_finalized c) d)
      in d1\<lparr>dag_unfinalized := removeAll h (dag_unfinalized d1),
            finalized_by_height := set_insert c h (finalized_by_height d1),
            sender_unfinalized := set_remove (dn_sender n) h (sender_unfinalized d1)\<rparr>)"
    using assms(3) n by (simp add: mark_finalized_def Let_def)
  have idx: "dag_idx G d'" using mut assms(2) by (simp add: d' Let_def dag_inv_def dag_idx_def)
  have "get_node G d' = get_node G (get_node_mut G h (set_finalized c) d)"
    by (rule get_node_cong) (simp_all add: d' Let_def)
  then have get: "get_node G d' = ?m"
    using mut assms(2) by (simp add: dag_inv_def finalize_map_def fun_eq_iff)
  have views: "unfin_view d (get_node G d)" "sender_view d (get_node G d)"
    "height_view d (get_node G d)" "tips_view d (get_node G d)" using assms(2) by (auto simp: dag_inv_def)
  have "unfin_view d' ?m" using views(1) n by (auto simp: d' Let_def unfin_view_def finalize_map_def)
  moreover have "sender_view d' ?m"
    using views(2) n by (auto simp: d' Let_def sender_view_def finalize_map_def split: if_splits)
  moreover have "height_view d' ?m"
    using views(3) n
    by (auto simp: d' Let_def height_view_def finalize_map_def stale_height_Some split: if_splits)
  moreover have "tips_view d' ?m" using views(4) n by (auto simp: d' Let_def tips_view_def finalize_map_def)
  ultimately show ?thesis using dag_invI [OF idx get] get by blast
qed

lemma unfinalize_inv:
  assumes "petgraph_laws G" "dag_inv G d"
  shows "dag_inv G (unfinalize G h d) \<and> get_node G (unfinalize G h d) = clear_map {h} (get_node G d)"
proof (cases "get_node G d h")
  case None
  then show ?thesis using assms(2) by (auto simp: unfinalize_def clear_map_def fun_eq_iff)
next
  case (Some n)
  note mut = get_node_mut_get [OF assms(1), of d clear_finalized h]
  let ?m = "clear_map {h} (get_node G d)"
  let ?d = "unfinalize G h d"
  have d': "?d = restore_unfinalized (h, dn_sender n, dn_checkpoint_height n) (get_node_mut G h clear_finalized d)"
    using Some by (simp add: unfinalize_def)
  have idx: "dag_idx G ?d"
    using mut assms(2) by (simp add: d' restore_unfinalized_def Let_def dag_inv_def dag_idx_def)
  have "get_node G ?d = get_node G (get_node_mut G h clear_finalized d)"
    by (rule get_node_cong) (simp_all add: d' restore_unfinalized_def Let_def)
  then have get: "get_node G ?d = ?m"
    using mut assms(2) by (simp add: dag_inv_def clear_map_def fun_eq_iff)
  have views: "unfin_view d (get_node G d)" "sender_view d (get_node G d)"
    "height_view d (get_node G d)" "tips_view d (get_node G d)" using assms(2) by (auto simp: dag_inv_def)
  have "unfin_view ?d ?m"
    using views(1) Some by (auto simp: d' restore_unfinalized_def Let_def unfin_view_def clear_map_def)
  moreover have "sender_view ?d ?m"
    using views(2) Some
    by (auto simp: d' restore_unfinalized_def Let_def sender_view_def clear_map_def split: if_splits)
  moreover have "height_view ?d ?m"
    using views(3) Some
    by (auto simp: d' restore_unfinalized_def Let_def height_view_def clear_map_def split: if_splits)
  moreover have "tips_view ?d ?m"
    using views(4) Some by (auto simp: d' restore_unfinalized_def Let_def tips_view_def clear_map_def)
  ultimately show ?thesis using dag_invI [OF idx get] get by blast
qed

subsection \<open>Batches\<close>

lemma mark_batch_fold:
  assumes "petgraph_laws G" "dag_idx G d" "fold (mark_batch_step G c) hs (d, p) = (d', p')"
  shows "dag_idx G d' \<and> get_node G d' = finalize_map (set hs) c (get_node G d)
    \<and> dag_tips d' = dag_tips d \<and> dag_unfinalized d' = dag_unfinalized d
    \<and> sender_unfinalized d' = sender_unfinalized d
    \<and> finalized_by_height d' = finalized_by_height d
    \<and> set (bp_finalized p') = set (bp_finalized p) \<union> {h \<in> set hs. get_node G d h \<noteq> None}
    \<and> set (bp_senders p') = set (bp_senders p)
        \<union> {(s, h). h \<in> set hs \<and> (\<exists>n. get_node G d h = Some n \<and> dn_sender n = s)}
    \<and> set (bp_old_heights p') = set (bp_old_heights p)
        \<union> {(k, h). h \<in> set hs \<and> (\<exists>n. get_node G d h = Some n \<and> stale_height n c = Some k)}
    \<and> bp_count p' = bp_count p + length (filter (\<lambda>h. get_node G d h \<noteq> None) hs)"
  using assms(2,3)
proof (induction hs arbitrary: d p)
  case Nil
  then show ?case by (simp add: finalize_map_def)
next
  case (Cons h hs)
  show ?case
  proof (cases "get_node G d h")
    case None
    then have step: "mark_batch_step G c h (d, p) = (d, p)" by (simp add: mark_batch_step_def)
    have "finalize_map (set (h # hs)) c (get_node G d) = finalize_map (set hs) c (get_node G d)"
      using None by (auto simp: finalize_map_def)
    with Cons.IH [of d p] Cons.prems None show ?thesis by (auto simp: step)
  next
    case (Some n)
    let ?d = "get_node_mut G h (set_finalized c) d"
    obtain q where q: "mark_batch_step G c h (d, p) = (?d, q)"
      "bp_finalized q = bp_finalized p @ [h]" "bp_senders q = bp_senders p @ [(dn_sender n, h)]"
      "set (bp_old_heights q) = set (bp_old_heights p)
        \<union> (case stale_height n c of Some k \<Rightarrow> {(k, h)} | None \<Rightarrow> {})"
      "bp_count q = bp_count p + 1"
      using Some by (auto simp: mark_batch_step_def split: option.splits)
    have get: "get_node G ?d = (get_node G d)(h \<mapsto> set_finalized c n)" and idx: "dag_idx G ?d"
      using get_node_mut_get [OF assms(1) Cons.prems(1), of "set_finalized c" h] Some by simp_all
    have stale: "stale_height (set_finalized c n) c = None" by (simp add: stale_height_def)
    have fm: "finalize_map (set hs) c (get_node G ?d) = finalize_map (set (h # hs)) c (get_node G d)"
      using Some by (auto simp: finalize_map_def get fun_eq_iff)
    have none: "get_node G ?d x \<noteq> None \<longleftrightarrow> get_node G d x \<noteq> None" for x
      using Some by (simp add: get)
    have ss: "{(s, x). x \<in> set hs \<and> (\<exists>n. get_node G ?d x = Some n \<and> dn_sender n = s)} \<union> {(dn_sender n, h)}
        = {(s, x). x \<in> set (h # hs) \<and> (\<exists>n. get_node G d x = Some n \<and> dn_sender n = s)}"
      using Some by (auto simp: get split: if_splits)
    have oo: "{(k, x). x \<in> set hs \<and> (\<exists>n. get_node G ?d x = Some n \<and> stale_height n c = Some k)}
        \<union> (case stale_height n c of Some k \<Rightarrow> {(k, h)} | None \<Rightarrow> {})
        = {(k, x). x \<in> set (h # hs) \<and> (\<exists>n. get_node G d x = Some n \<and> stale_height n c = Some k)}"
      using Some by (auto simp: get stale split: if_splits option.splits)
    show ?thesis
      using Cons.IH [OF idx, of q] Cons.prems(2) Some
      unfolding fm none ss [symmetric] oo [symmetric]
      by (auto simp: q)
  qed
qed

end
