(* ===== verification/Rinku_Dag_Finalize.thy ===== *)
theory Rinku_Dag_Finalize
  imports Rinku_Dag_Invariant
begin

text \<open>
  Batch finalization of \<open>rinku-core/src/dag.rs\<close>: \<open>mark_finalized_batch\<close>, its two-phase
  variant (deferred cleanup followed by one pass over the sender index) and the rollback
  \<open>unmark_finalized_batch\<close>, each described by its effect on the map of nodes.
\<close>

lemma hm_set_height_entry:
  "hm_set (hm_entry c [] (\<lambda>s. fold List.insert hs s) m) k =
     (if k = c then set hs \<union> hm_set m c else hm_set m k)"
  by (simp add: hm_set_def hm_get_entry set_fold_insert)

lemma dag_inv_views:
  assumes "dag_inv G d"
  shows "dag_idx G d" "unfin_view d (get_node G d)" "sender_view d (get_node G d)"
    "height_view d (get_node G d)" "tips_view d (get_node G d)"
  using assms by (auto simp: dag_inv_def)

lemma mark_finalized_batch_inv:
  assumes "petgraph_laws G" "dag_inv G d"
    and r_def: "r = mark_finalized_batch G hs c d"
  shows "dag_inv G (fst r)" "get_node G (fst r) = finalize_map (set hs) c (get_node G d)"
    "snd r = length (filter (\<lambda>h. get_node G d h \<noteq> None) hs)"
proof -
  define p0 where "p0 = \<lparr>bp_count = 0, bp_senders = [], bp_finalized = [], bp_old_heights = []\<rparr>"
  obtain d1 p where fold: "fold (mark_batch_step G c) hs (d, p0) = (d1, p)" by fastforce
  note inv = dag_inv_views [OF assms(2)]
  note plan = mark_batch_fold [OF assms(1) inv(1) fold]
  let ?m = "finalize_map (set hs) c (get_node G d)"
  have r: "fst r = d1\<lparr>dag_unfinalized := fold removeAll hs (dag_unfinalized d1),
      finalized_by_height := hm_entry c [] (\<lambda>s. fold List.insert (bp_finalized p) s)
        (fold (\<lambda>(old_h, hash) m. set_remove old_h hash m) (bp_old_heights p) (finalized_by_height d1)),
      sender_unfinalized := fold (\<lambda>(sender, hash) m. set_remove sender hash m) (bp_senders p)
        (sender_unfinalized d1)\<rparr>" "snd r = bp_count p"
    using fold by (simp_all add: r_def mark_finalized_batch_def Let_def p0_def)
  have idx: "dag_idx G (fst r)" using plan by (simp add: r dag_idx_def)
  have "get_node G (fst r) = get_node G d1" by (rule get_node_cong) (simp_all add: r)
  then show get: "get_node G (fst r) = ?m" using plan by simp
  have "unfin_view (fst r) ?m"
    using inv(2) plan by (auto simp: r unfin_view_def finalize_map_def set_fold_removeAll split: if_splits)
  moreover have "sender_view (fst r) ?m"
    using inv(3) plan
    by (auto simp: r sender_view_def finalize_map_def hm_set_remove_fold p0_def split: if_splits)
  moreover have "height_view (fst r) ?m"
    using inv(4) plan
    by (auto simp: r height_view_def finalize_map_def hm_set_height_entry hm_set_remove_fold p0_def
        stale_height_Some split: if_splits)
  moreover have "tips_view (fst r) ?m"
    using inv(5) plan by (auto simp: r tips_view_def finalize_map_def split: if_splits)
  ultimately show "dag_inv G (fst r)" using dag_invI [OF idx get] by blast
  show "snd r = length (filter (\<lambda>h. get_node G d h \<noteq> None) hs)" using plan by (simp add: r p0_def)
qed

subsection \<open>Deferred cleanup\<close>

lemma mark_deferred:
  assumes "petgraph_laws G" "dag_idx G d" "unfin_view d (get_node G d)" "height_view d (get_node G d)"
    "tips_view d (get_node G d)" "mark_finalized_deferred_cleanup G h c d = Inr d'"
  shows "dag_idx G d' \<and> get_node G d' = finalize_map {h} c (get_node G d)
    \<and> unfin_view d' (get_node G d') \<and> height_view d' (get_node G d') \<and> tips_view d' (get_node G d')
    \<and> sender_unfinalized d' = sender_unfinalized d \<and> get_node G d h \<noteq> None"
proof -
  obtain n where n: "get_node G d h = Some n"
    using assms(6) by (auto simp: mark_finalized_deferred_cleanup_def split: option.splits)
  note mut = get_node_mut_get [OF assms(1,2), of "set_finalized c" h]
  let ?m = "finalize_map {h} c (get_node G d)"
  have d': "d' = (let d1 = drop_height (stale_height n c) h (get_node_mut G h (set_finalized c) d)
      in d1\<lparr>dag_unfinalized := removeAll h (dag_unfinalized d1),
            finalized_by_height := set_insert c h (finalized_by_height d1)\<rparr>)"
    using assms(6) n by (simp add: mark_finalized_deferred_cleanup_def Let_def)
  have idx: "dag_idx G d'" using mut by (simp add: d' Let_def dag_idx_def)
  have "get_node G d' = get_node G (get_node_mut G h (set_finalized c) d)"
    by (rule get_node_cong) (simp_all add: d' Let_def)
  then have get: "get_node G d' = ?m" using mut by (simp add: finalize_map_def fun_eq_iff)
  have "unfin_view d' ?m" using assms(3) n by (auto simp: d' Let_def unfin_view_def finalize_map_def)
  moreover have "height_view d' ?m"
    using assms(4) n
    by (auto simp: d' Let_def height_view_def finalize_map_def stale_height_Some split: if_splits)
  moreover have "tips_view d' ?m" using assms(5) n by (auto simp: d' Let_def tips_view_def finalize_map_def)
  ultimately show ?thesis using idx get n by (simp add: d' Let_def)
qed

text \<open>Marking a list of hashes one by one, stopping at the first unknown one.\<close>

fun mark_deferred_all :: "'g petgraph \<Rightarrow> string list \<Rightarrow> u64 \<Rightarrow> 'g Dag \<Rightarrow> DagError + 'g Dag" where
  "mark_deferred_all G [] c d = Inr d"
| "mark_deferred_all G (h # hs) c d =
     (case mark_finalized_deferred_cleanup G h c d of
        Inl e \<Rightarrow> Inl e
      | Inr d' \<Rightarrow> mark_deferred_all G hs c d')"

lemma finalize_map_insert: "finalize_map hs c (finalize_map {h} c m) = finalize_map (insert h hs) c m"
  by (auto simp: finalize_map_def option.map_comp fun_eq_iff comp_def)

lemma mark_deferred_all_views:
  assumes "petgraph_laws G" "mark_deferred_all G hs c d = Inr d'"
    and "dag_idx G d" "unfin_view d (get_node G d)" "height_view d (get_node G d)"
    "tips_view d (get_node G d)"
  shows "dag_idx G d' \<and> get_node G d' = finalize_map (set hs) c (get_node G d)
    \<and> unfin_view d' (get_node G d') \<and> height_view d' (get_node G d') \<and> tips_view d' (get_node G d')
    \<and> sender_unfinalized d' = sender_unfinalized d"
  using assms(2-)
proof (induction hs arbitrary: d)
  case Nil
  then show ?case by (simp add: finalize_map_def)
next
  case (Cons h hs)
  then obtain d1 where d1: "mark_finalized_deferred_cleanup G h c d = Inr d1"
    "mark_deferred_all G hs c d1 = Inr d'" by (auto split: sum.splits)
  note step = mark_deferred [OF assms(1) Cons.prems(2-5) d1(1)]
  have fm: "finalize_map (set (h # hs)) c (get_node G d) = finalize_map (set hs) c (get_node G d1)"
    using step by (simp add: finalize_map_insert)
  show ?case unfolding fm using Cons.IH [OF d1(2)] step by metis
qed

lemma cleanup_fields:
  "dag_graph (cleanup_sender_unfinalized_batch G hs d) = dag_graph d
   \<and> hash_to_index (cleanup_sender_unfinalized_batch G hs d) = hash_to_index d
   \<and> dag_tips (cleanup_sender_unfinalized_batch G hs d) = dag_tips d
   \<and> dag_unfinalized (cleanup_sender_unfinalized_batch G hs d) = dag_unfinalized d
   \<and> finalized_by_height (cleanup_sender_unfinalized_batch G hs d) = finalized_by_height d
   \<and> hm_set (sender_unfinalized (cleanup_sender_unfinalized_batch G hs d)) s =
       hm_set (sender_unfinalized d) s
       - {h \<in> set hs. \<exists>n. get_node G d h = Some n \<and> dn_sender n = s}"
  unfolding cleanup_sender_unfinalized_batch_def
proof (induction hs arbitrary: d)
  case (Cons h hs)
  show ?case
  proof (cases "get_node G d h")
    case (Some n)
    let ?d = "d\<lparr>sender_unfinalized := set_remove (dn_sender n) h (sender_unfinalized d)\<rparr>"
    have "get_node G ?d = get_node G d" by (rule get_node_cong) simp_all
    with Cons [of ?d] Some show ?thesis by auto
  qed (use Cons [of d] in auto)
qed simp

lemma deferred_cleanup_inv:
  assumes "petgraph_laws G" "dag_inv G d" "mark_deferred_all G hs c d = Inr d1"
  defines "d' \<equiv> cleanup_sender_unfinalized_batch G hs d1"
  shows "dag_inv G d'" "get_node G d' = finalize_map (set hs) c (get_node G d)"
proof -
  note inv = dag_inv_views [OF assms(2)]
  note marked = mark_deferred_all_views [OF assms(1,3) inv(1,2,4,5)]
  note clean = cleanup_fields [of G hs d1]
  have get: "get_node G d' = get_node G d1"
    by (rule get_node_cong) (use clean in \<open>simp_all add: d'_def\<close>)
  then show "get_node G d' = finalize_map (set hs) c (get_node G d)" using marked by simp
  have "dag_idx G d'" using marked clean by (simp add: dag_idx_def d'_def)
  moreover have "unfin_view d' (get_node G d1)" "height_view d' (get_node G d1)" "tips_view d' (get_node G d1)"
    using marked clean by (simp_all add: unfin_view_def height_view_def tips_view_def d'_def)
  moreover have "sender_view d' (get_node G d1)"
    unfolding sender_view_def
  proof (intro allI)
    fix s h
    have "h \<in> hm_set (sender_unfinalized d') s \<longleftrightarrow>
        (\<exists>n. get_node G d h = Some n \<and> \<not> dn_finalized n \<and> dn_sender n = s)
        \<and> \<not> (h \<in> set hs \<and> (\<exists>n. get_node G d1 h = Some n \<and> dn_sender n = s))"
      using clean inv(3) marked by (simp add: d'_def sender_view_def)
    also have "\<dots> \<longleftrightarrow> (\<exists>n. get_node G d1 h = Some n \<and> \<not> dn_finalized n \<and> dn_sender n = s)"
      using marked by (auto simp: finalize_map_def)
    finally show "h \<in> hm_set (sender_unfinalized d') s \<longleftrightarrow>
        (\<exists>n. get_node G d1 h = Some n \<and> \<not> dn_finalized n \<and> dn_sender n = s)" .
  qed
  ultimately show "dag_inv G d'" using dag_invI [OF _ get] by blast
qed

subsection \<open>Rolling back\<close>

definition finalized_at :: "(string \<rightharpoonup> DagNode) \<Rightarrow> string \<Rightarrow> bool" where
  "finalized_at m h \<longleftrightarrow> (\<exists>n. m h = Some n \<and> dn_finalized n)"

definition clear_if_finalized :: "string set \<Rightarrow> (string \<rightharpoonup> DagNode) \<Rightarrow> (string \<rightharpoonup> DagNode)" where
  "clear_if_finalized hs m = clear_map {h \<in> hs. finalized_at m h} m"

lemma unmark_fold:
  assumes "petgraph_laws G" "dag_idx G d" "fold (unmark_step G) hs (d, rs) = (d', rs')"
  shows "dag_idx G d' \<and> get_node G d' = clear_if_finalized (set hs) (get_node G d)
    \<and> dag_tips d' = dag_tips d \<and> dag_unfinalized d' = dag_unfinalized d
    \<and> sender_unfinalized d' = sender_unfinalized d \<and> finalized_by_height d' = finalized_by_height d
    \<and> set rs' = set rs \<union> {(h, s, k). h \<in> set hs \<and> (\<exists>n. get_node G d h = Some n \<and> dn_finalized n
         \<and> dn_sender n = s \<and> dn_checkpoint_height n = k)}"
  using assms(2,3)
proof (induction hs arbitrary: d rs)
  case Nil
  then show ?case by (simp add: clear_if_finalized_def clear_map_def)
next
  case (Cons h hs)
  show ?case
  proof (cases "finalized_at (get_node G d) h")
    case False
    then have step: "unmark_step G h (d, rs) = (d, rs)"
      by (auto simp: unmark_step_def finalized_at_def split: option.splits)
    have "clear_if_finalized (set (h # hs)) (get_node G d) = clear_if_finalized (set hs) (get_node G d)"
      using False by (auto simp: clear_if_finalized_def clear_map_def)
    with Cons.IH [of d rs] Cons.prems False show ?thesis by (auto simp: step finalized_at_def)
  next
    case True
    then obtain n where n: "get_node G d h = Some n" "dn_finalized n" by (auto simp: finalized_at_def)
    let ?d = "get_node_mut G h clear_finalized d"
    have step: "unmark_step G h (d, rs) = (?d, rs @ [(h, dn_sender n, dn_checkpoint_height n)])"
      using n by (simp add: unmark_step_def)
    have get: "get_node G ?d = (get_node G d)(h \<mapsto> clear_finalized n)" and idx: "dag_idx G ?d"
      using get_node_mut_get [OF assms(1) Cons.prems(1), of clear_finalized h] n by simp_all
    have cm: "clear_if_finalized (set hs) (get_node G ?d) = clear_if_finalized (set (h # hs)) (get_node G d)"
      using n by (auto simp: clear_if_finalized_def clear_map_def finalized_at_def get fun_eq_iff)
    have rs: "{(x, s, k). x \<in> set hs \<and> (\<exists>n. get_node G ?d x = Some n \<and> dn_finalized n
         \<and> dn_sender n = s \<and> dn_checkpoint_height n = k)} \<union> {(h, dn_sender n, dn_checkpoint_height n)}
       = {(x, s, k). x \<in> set (h # hs) \<and> (\<exists>n. get_node G d x = Some n \<and> dn_finalized n
         \<and> dn_sender n = s \<and> dn_checkpoint_height n = k)}"
      using n by (auto simp: get split: if_splits)
    show ?thesis
      using Cons.IH [OF idx] Cons.prems(2) unfolding cm rs [symmetric] by (auto simp: step)
  qed
qed

lemma restore_fold:
  assumes r_def: "r = (\<lambda>rs d. fold restore_unfinalized rs d)"
  shows "dag_graph (r rs d) = dag_graph d \<and> hash_to_index (r rs d) = hash_to_index d
    \<and> dag_tips (r rs d) = dag_tips d
    \<and> set (dag_unfinalized (r rs d)) = set (dag_unfinalized d) \<union> fst ` set rs
    \<and> hm_set (sender_unfinalized (r rs d)) s = hm_set (sender_unfinalized d) s \<union> {h. \<exists>k. (h, s, k) \<in> set rs}
    \<and> hm_set (finalized_by_height (r rs d)) j
        = hm_set (finalized_by_height d) j - {h. \<exists>s. (h, s, Some j) \<in> set rs}"
  unfolding r_def
proof (induction rs arbitrary: d)
  case (Cons e rs)
  obtain h s k where "e = (h, s, k)" by (cases e)
  with Cons show ?case by (auto simp: restore_unfinalized_def Let_def)
qed simp

lemma unmark_finalized_batch_inv:
  assumes "petgraph_laws G" "dag_inv G d"
    and d'_def: "d' = fst (unmark_finalized_batch G hs d)"
  shows "dag_inv G d'" "get_node G d' = clear_if_finalized (set hs) (get_node G d)"
proof -
  obtain d1 rs where fold: "fold (unmark_step G) hs (d, []) = (d1, rs)" by fastforce
  note inv = dag_inv_views [OF assms(2)]
  note um = unmark_fold [OF assms(1) inv(1) fold]
  note rf = restore_fold [OF refl, of rs d1]
  have d': "d' = fold restore_unfinalized rs d1"
    using fold by (simp add: d'_def unmark_finalized_batch_def)
  let ?m = "clear_if_finalized (set hs) (get_node G d)"
  have "get_node G d' = get_node G d1" by (rule get_node_cong) (use rf in \<open>simp_all add: d'\<close>)
  then show get: "get_node G d' = ?m" using um by simp
  have idx: "dag_idx G d'" using um rf by (simp add: d' dag_idx_def)
  note map_defs = clear_if_finalized_def clear_map_def finalized_at_def
  have "unfin_view d' ?m"
    using inv(2) um rf by (auto simp: unfin_view_def d' map_defs image_iff split: if_splits)
  moreover have "sender_view d' ?m"
    using inv(3) um rf by (auto simp: sender_view_def d' map_defs split: if_splits)
  moreover have "height_view d' ?m"
    using inv(4) um rf by (auto simp: height_view_def d' map_defs split: if_splits)
  moreover have "tips_view d' ?m"
    using inv(5) um rf by (auto simp: tips_view_def d' map_defs split: if_splits)
  ultimately show "dag_inv G d'" using dag_invI [OF idx get] by blast
qed

end
