(* ===== verification/Rinku_Dag_Remove.thy ===== *)
theory Rinku_Dag_Remove
  imports Rinku_Dag_Grow
begin

text \<open>
  Removal from the DAG: one node (\<open>remove_node\<close>, \<open>prune_branch\<close>), the finalized nodes
  below a height (\<open>prune_finalized_before\<close>), a batch (\<open>remove_nodes_batch\<close>,
  \<open>evict_finalized_before\<close>), and \<open>rebuild_tips\<close>, which recomputes the links after a
  snapshot. Each keeps \<open>dag_inv\<close>; what each does to the map of nodes is stated with it.
\<close>

section \<open>Unlinking a removed child\<close>

definition del_child :: "string \<Rightarrow> DagNode \<Rightarrow> DagNode" where
  "del_child h p = p\<lparr>dn_children := removeAll h (dn_children p)\<rparr>"

lemma del_child_fields [simp]:
  "dn_hash (del_child h n) = dn_hash n" "dn_tx (del_child h n) = dn_tx n"
  "dn_parents (del_child h n) = dn_parents n" "dn_finalized (del_child h n) = dn_finalized n"
  "dn_checkpoint_height (del_child h n) = dn_checkpoint_height n"
  "dn_children (del_child h n) = removeAll h (dn_children n)"
  "del_child h (del_child h n) = del_child h n"
  by (simp_all add: del_child_def removeAll_filter_not_eq)

definition unlink_map :: "string \<Rightarrow> string set \<Rightarrow> (string \<rightharpoonup> DagNode) \<Rightarrow> (string \<rightharpoonup> DagNode)" where
  "unlink_map h ps m = (\<lambda>x. if x \<in> ps - {h} then map_option (del_child h) (m x) else m x)"

lemma idx_ok_None:
  assumes "idx_ok ns ix" "hm_get ix h = None"
  shows "node_map ns h = None"
proof -
  have "h \<noteq> dn_hash (ns ! i)" if "i < length ns" for i
    using idx_ok_nth [OF assms(1) that] assms(2) by auto
  then show ?thesis unfolding node_map_None by (metis imageE in_set_conv_nth)
qed

lemma unlink_child_found:
  assumes "petgraph_laws G" "hm_get (hash_to_index d) p = Some j" "j < length (dag_nodes G d)"
  shows "unlink_child G h p d =
    (let d1 = d\<lparr>dag_graph := pg_update_node G j (del_child h) (dag_graph d)\<rparr>
     in if removeAll h (dn_children (dag_nodes G d ! j)) = []
        then d1\<lparr>dag_tips := List.insert p (dag_tips d1)\<rparr> else d1)"
proof -
  have "get_at (dag_nodes G (d\<lparr>dag_graph := pg_update_node G j (del_child h) (dag_graph d)\<rparr>)) j
      = Some (del_child h (dag_nodes G d ! j))"
    using assms by (simp add: get_at_def)
  moreover have "(\<lambda>p. p\<lparr>dn_children := removeAll h (dn_children p)\<rparr>) = del_child h"
    by (simp add: del_child_def fun_eq_iff)
  ultimately show ?thesis
    by (simp only: unlink_child_def assms(2) option.case Let_def del_child_fields)
qed

text \<open>
  The loop runs after the removed hash has left the hash index: \<open>ix\<close> is the index with
  it, which still describes the graph.
\<close>

lemma unlink_fold:
  assumes "petgraph_laws G" "idx_ok (dag_nodes G d) ix"
    and "hash_to_index d = hm_remove h ix" and "fold (unlink_child G h) ps d = d'"
  shows "idx_ok (dag_nodes G d') ix \<and> hash_to_index d' = hash_to_index d
    \<and> length (dag_nodes G d') = length (dag_nodes G d)
    \<and> node_map (dag_nodes G d') = unlink_map h (set ps) (node_map (dag_nodes G d))
    \<and> dag_unfinalized d' = dag_unfinalized d \<and> sender_unfinalized d' = sender_unfinalized d
    \<and> finalized_by_height d' = finalized_by_height d \<and> dag_max_nodes d' = dag_max_nodes d
    \<and> set (dag_tips d') = set (dag_tips d) \<union>
        {p \<in> set ps - {h}. \<exists>n. node_map (dag_nodes G d') p = Some n \<and> dn_children n = []}"
  using assms(2-)
proof (induction ps arbitrary: d)
  case Nil
  then show ?case by (auto simp: unlink_map_def)
next
  case (Cons p ps)
  show ?case
  proof (cases "hm_get (hash_to_index d) p")
    case None
    then have step: "unlink_child G h p d = d" by (simp add: unlink_child_def)
    have none: "p \<noteq> h \<Longrightarrow> node_map (dag_nodes G d) p = None"
      using None Cons.prems(1,2) by (simp add: idx_ok_None)
    have um: "unlink_map h (set (p # ps)) (node_map (dag_nodes G d)) =
        unlink_map h (set ps) (node_map (dag_nodes G d))"
      using none by (auto simp: unlink_map_def fun_eq_iff)
    have "fold (unlink_child G h) ps d = d'" using Cons.prems(3) step by simp
    note IH = Cons.IH [OF Cons.prems(1,2) this]
    then have "p \<noteq> h \<Longrightarrow> node_map (dag_nodes G d') p = None"
      using none by (simp add: unlink_map_def)
    then have "{q \<in> set (p # ps) - {h}. \<exists>n. node_map (dag_nodes G d') q = Some n \<and> dn_children n = []}
        = {q \<in> set ps - {h}. \<exists>n. node_map (dag_nodes G d') q = Some n \<and> dn_children n = []}" by auto
    with IH show ?thesis by (simp only: um)
  next
    case (Some j)
    then have ph: "p \<noteq> h" and j: "hm_get ix p = Some j"
      using Cons.prems(2) by (auto split: if_splits)
    note jp = idx_okD [OF Cons.prems(1) j]
    let ?ns = "(dag_nodes G d)[j := del_child h (dag_nodes G d ! j)]"
    define d1 where "d1 = unlink_child G h p d"
    have nodes1: "dag_nodes G d1 = ?ns" and fields1: "hash_to_index d1 = hash_to_index d"
      "dag_unfinalized d1 = dag_unfinalized d" "sender_unfinalized d1 = sender_unfinalized d"
      "finalized_by_height d1 = finalized_by_height d" "dag_max_nodes d1 = dag_max_nodes d"
      and tips1: "set (dag_tips d1) = set (dag_tips d) \<union>
        (if removeAll h (dn_children (dag_nodes G d ! j)) = [] then {p} else {})"
      using jp assms(1) by (simp_all add: d1_def unlink_child_found [OF assms(1) Some] Let_def)
    have map1: "node_map ?ns = (node_map (dag_nodes G d))(p \<mapsto> del_child h (dag_nodes G d ! j))"
      using node_map_update [OF idx_ok_distinct [OF Cons.prems(1)], of j "del_child h"] jp by simp
    have np: "node_map (dag_nodes G d) p = Some (dag_nodes G d ! j)"
      using node_map_iff [OF idx_ok_distinct [OF Cons.prems(1)]] jp by simp
    have "idx_ok (dag_nodes G d1) ix"
      using Cons.prems(1) by (simp add: nodes1 idx_ok_update)
    moreover have "hash_to_index d1 = hm_remove h ix" using fields1 Cons.prems(2) by simp
    moreover have "fold (unlink_child G h) ps d1 = d'" using Cons.prems(3) by (simp add: d1_def)
    ultimately have IH: "idx_ok (dag_nodes G d') ix \<and> hash_to_index d' = hash_to_index d1
      \<and> length (dag_nodes G d') = length (dag_nodes G d1)
      \<and> node_map (dag_nodes G d') = unlink_map h (set ps) (node_map (dag_nodes G d1))
      \<and> dag_unfinalized d' = dag_unfinalized d1 \<and> sender_unfinalized d' = sender_unfinalized d1
      \<and> finalized_by_height d' = finalized_by_height d1 \<and> dag_max_nodes d' = dag_max_nodes d1
      \<and> set (dag_tips d') = set (dag_tips d1) \<union>
        {p \<in> set ps - {h}. \<exists>n. node_map (dag_nodes G d') p = Some n \<and> dn_children n = []}"
      by (rule Cons.IH)
    have um: "unlink_map h (set ps) (node_map (dag_nodes G d1)) =
        unlink_map h (set (p # ps)) (node_map (dag_nodes G d))"
      using np ph by (auto simp: unlink_map_def nodes1 map1 fun_eq_iff)
    have "node_map (dag_nodes G d') p = Some (del_child h (dag_nodes G d ! j))"
      using IH np ph unfolding um by (simp add: unlink_map_def)
    then have "{q \<in> set (p # ps) - {h}. \<exists>n. node_map (dag_nodes G d') q = Some n \<and> dn_children n = []}
        = (if removeAll h (dn_children (dag_nodes G d ! j)) = [] then {p} else {})
          \<union> {q \<in> set ps - {h}. \<exists>n. node_map (dag_nodes G d') q = Some n \<and> dn_children n = []}"
      using ph by auto
    with IH show ?thesis
      unfolding fields1 tips1 nodes1 length_list_update Un_assoc
      by (elim conjE) (intro conjI; assumption?; simp only: um [unfolded nodes1])
  qed
qed

text \<open>What is left of the map once a node is taken out and unlinked from its parents.\<close>

definition remove_map :: "string \<Rightarrow> (string \<rightharpoonup> DagNode) \<Rightarrow> (string \<rightharpoonup> DagNode)" where
  "remove_map h m =
     (unlink_map h (case m h of Some n \<Rightarrow> set (dn_parents n) | None \<Rightarrow> {}) m)(h := None)"

lemma tips_view_remove:
  assumes "tips_view d m" "m h = Some n"
    and "set (dag_tips d') = (set (dag_tips d) - {h}) \<union>
      {p \<in> set (dn_parents n) - {h}. \<exists>k. unlink_map h (set (dn_parents n)) m p = Some k \<and> dn_children k = []}"
  shows "tips_view d' (remove_map h m)"
  using assms by (auto simp: tips_view_def remove_map_def unlink_map_def split: if_splits)

lemma prune_finalized_step_get:
  assumes "petgraph_laws G" "dag_idx G d" "tips_view d (get_node G d)"
    and "get_node G d h = Some n" and "d' = prune_finalized_step G h d"
  shows "dag_idx G d' \<and> get_node G d' = remove_map h (get_node G d) \<and> tips_view d' (get_node G d')
    \<and> dag_unfinalized d' = dag_unfinalized d \<and> finalized_by_height d' = finalized_by_height d
    \<and> sender_unfinalized d' = set_remove (dn_sender n) h (sender_unfinalized d)
    \<and> dag_max_nodes d' = dag_max_nodes d"
proof -
  obtain i where i: "hm_get (hash_to_index d) h = Some i" "i < length (dag_nodes G d)"
    "dag_nodes G d ! i = n" "dn_hash n = h"
    using assms(2,4) by (auto simp: get_node_Some_index)
  have idx: "idx_ok (dag_nodes G d) (hash_to_index d)" using assms(2) by (simp add: dag_idx_def)
  have nm: "node_map (dag_nodes G d) = get_node G d" using get_node_map [OF idx] by (simp add: fun_eq_iff)
  let ?d1 = "d\<lparr>hash_to_index := hm_remove h (hash_to_index d), dag_tips := removeAll h (dag_tips d),
      sender_unfinalized := set_remove (dn_sender n) h (sender_unfinalized d)\<rparr>"
  define d2 where "d2 = fold (unlink_child G h) (dn_parents n) ?d1"
  have "idx_ok (dag_nodes G d2) (hash_to_index d) \<and> hash_to_index d2 = hash_to_index ?d1
    \<and> length (dag_nodes G d2) = length (dag_nodes G ?d1)
    \<and> node_map (dag_nodes G d2) = unlink_map h (set (dn_parents n)) (node_map (dag_nodes G ?d1))
    \<and> dag_unfinalized d2 = dag_unfinalized ?d1 \<and> sender_unfinalized d2 = sender_unfinalized ?d1
    \<and> finalized_by_height d2 = finalized_by_height ?d1 \<and> dag_max_nodes d2 = dag_max_nodes ?d1
    \<and> set (dag_tips d2) = set (dag_tips ?d1) \<union>
      {p \<in> set (dn_parents n) - {h}. \<exists>n. node_map (dag_nodes G d2) p = Some n \<and> dn_children n = []}"
    by (rule unlink_fold [OF assms(1)]) (simp_all add: idx d2_def)
  then have d2: "idx_ok (dag_nodes G d2) (hash_to_index d)" "length (dag_nodes G d2) = length (dag_nodes G d)"
    "hash_to_index d2 = hm_remove h (hash_to_index d)"
    "node_map (dag_nodes G d2) = unlink_map h (set (dn_parents n)) (get_node G d)"
    "dag_unfinalized d2 = dag_unfinalized d" "finalized_by_height d2 = finalized_by_height d"
    "sender_unfinalized d2 = set_remove (dn_sender n) h (sender_unfinalized d)"
    "dag_max_nodes d2 = dag_max_nodes d"
    and tips2: "set (dag_tips d2) = (set (dag_tips d) - {h}) \<union> {p \<in> set (dn_parents n) - {h}.
        \<exists>k. unlink_map h (set (dn_parents n)) (get_node G d) p = Some k \<and> dn_children k = []}"
    using nm by simp_all
  have hi: "dn_hash (dag_nodes G d2 ! i) = h" using idx_okD [OF d2(1) i(1)] by simp
  have li: "i < length (dag_nodes G d2)" using i(2) d2(2) by simp
  let ?last = "length (dag_nodes G d2) - 1"
  have lastlt: "?last < length (dag_nodes G d2)" using i(2) d2(2) by simp
  let ?d3 = "d2\<lparr>dag_graph := pg_remove_node G i (dag_graph d2)\<rparr>"
  have at: "get_at (dag_nodes G (d\<lparr>hash_to_index := hm_remove h (hash_to_index d),
      dag_tips := removeAll h (dag_tips d)\<rparr>)) i = Some n" using i by (simp add: get_at_def)
  have su: "sender_unfinalized (d\<lparr>hash_to_index := hm_remove h (hash_to_index d),
      dag_tips := removeAll h (dag_tips d)\<rparr>) = sender_unfinalized d" by simp
  have eq: "d' = (case (if i \<noteq> ?last then map_option dn_hash (get_at (dag_nodes G d2) ?last) else None) of
      Some sh \<Rightarrow> ?d3\<lparr>hash_to_index := hm_insert sh i (hash_to_index ?d3)\<rparr> | None \<Rightarrow> ?d3)"
    unfolding assms(5) prune_finalized_step_def i(1) Let_def option.case at su d2_def by (rule refl)
  have d': "dag_nodes G d' = swap_remove i (dag_nodes G d2)"
    "hash_to_index d' = (if i \<noteq> ?last then hm_insert (dn_hash (dag_nodes G d2 ! ?last)) i (hash_to_index d2)
       else hash_to_index d2)"
    "dag_tips d' = dag_tips d2" "dag_unfinalized d' = dag_unfinalized d2"
    "sender_unfinalized d' = sender_unfinalized d2" "finalized_by_height d' = finalized_by_height d2"
    "dag_max_nodes d' = dag_max_nodes d2"
    using lastlt assms(1) by (simp_all add: eq get_at_def)
  have "idx_ok (swap_remove i (dag_nodes G d2))
      (if i \<noteq> ?last then hm_insert (dn_hash (dag_nodes G d2 ! ?last)) i (hm_remove h (hash_to_index d))
       else hm_remove h (hash_to_index d))"
    using idx_ok_swap_remove [OF d2(1) li] unfolding hi .
  then have idx': "dag_idx G d'" unfolding dag_idx_def d'(1,2) d2(3) .
  have "get_node G d' = node_map (dag_nodes G d')"
    using get_node_map [of G d'] idx' by (simp add: dag_idx_def fun_eq_iff)
  also have "\<dots> = (node_map (dag_nodes G d2))(h := None)"
    using node_map_swap_remove [OF idx_ok_distinct [OF d2(1)], of i] i(2) d2(2) hi by (simp add: d'(1))
  also have "\<dots> = remove_map h (get_node G d)" using assms(4) by (simp add: remove_map_def d2(4))
  finally have get': "get_node G d' = remove_map h (get_node G d)" .
  have "tips_view d' (remove_map h (get_node G d))"
    by (rule tips_view_remove [OF assms(3,4)]) (simp add: d'(3) tips2)
  then show ?thesis using idx' get' d' d2 by simp
qed

section \<open>Pruning finalized nodes\<close>

text \<open>What unlinking never changes about a node.\<close>

definition status :: "DagNode \<Rightarrow> string \<times> SignedTransaction \<times> string list \<times> bool \<times> u64 option" where
  "status n = (dn_hash n, dn_tx n, dn_parents n, dn_finalized n, dn_checkpoint_height n)"

definition status_map :: "(string \<rightharpoonup> DagNode) \<Rightarrow> string \<rightharpoonup> (string \<times> SignedTransaction \<times> string list \<times> bool \<times> u64 option)" where
  "status_map m x = map_option status (m x)"

lemma status_del_child: "status (del_child h n) = status n"
  by (simp add: status_def)

lemma status_remove_map: "status_map (remove_map h m) = (status_map m)(h := None)"
  by (auto simp: status_map_def remove_map_def unlink_map_def status_del_child fun_eq_iff option.map_comp comp_def)

lemma status_map_Some:
  "status_map m x = Some (status n) \<longleftrightarrow> (\<exists>k. m x = Some k \<and> status k = status n)"
  by (auto simp: status_map_def)

lemma view_status:
  assumes "status_map m = status_map m'"
  shows "unfin_view d m = unfin_view d m'" "sender_view d m = sender_view d m'"
    "height_view d m = height_view d m'"
proof -
  have P: "(\<exists>n. m x = Some n \<and> P (status n)) \<longleftrightarrow> (\<exists>n. m' x = Some n \<and> P (status n))" for P x
  proof -
    have "map_option status (m x) = map_option status (m' x)"
      using fun_cong [OF assms, of x] by (simp add: status_map_def)
    then show ?thesis by (cases "m x"; cases "m' x") auto
  qed
  show "unfin_view d m = unfin_view d m'"
    using P [of _ "\<lambda>(_, _, _, f, _). \<not> f"] by (simp add: unfin_view_def status_def)
  show "sender_view d m = sender_view d m'"
    using P [of _ "\<lambda>(_, t, _, f, _). \<not> f \<and> tx_from (st_tx t) = s" for s]
    by (simp add: sender_view_def status_def)
  show "height_view d m = height_view d m'"
    using P [of _ "\<lambda>(_, _, _, f, c). f \<and> c = Some k" for k] by (simp add: height_view_def status_def)
qed

lemma prune_finalized_fold:
  assumes "petgraph_laws G" "dag_idx G d" "tips_view d (get_node G d)" "unfin_view d (get_node G d)"
    "sender_view d (get_node G d)"
    and "\<forall>h \<in> set hs. \<forall>n. get_node G d h = Some n \<longrightarrow> dn_finalized n"
    and "d' = fold (prune_finalized_step G) hs d"
  shows "dag_idx G d' \<and> tips_view d' (get_node G d') \<and> unfin_view d' (get_node G d')
    \<and> sender_view d' (get_node G d') \<and> finalized_by_height d' = finalized_by_height d
    \<and> dag_max_nodes d' = dag_max_nodes d
    \<and> status_map (get_node G d') = status_map (get_node G d) |` (- set hs)"
  using assms(2-)
proof (induction hs arbitrary: d)
  case (Cons h hs)
  show ?case
  proof (cases "get_node G d h")
    case None
    then have "hm_get (hash_to_index d) h = None" using Cons.prems(1) by (simp add: get_node_None_index)
    then have step: "prune_finalized_step G h d = d" by (simp add: prune_finalized_step_def)
    have "status_map (get_node G d) |` (- set (h # hs)) = status_map (get_node G d) |` (- set hs)"
      using None by (auto simp: restrict_map_def status_map_def)
    with Cons.IH [of d] Cons.prems step show ?thesis by simp
  next
    case (Some n)
    define d1 where "d1 = prune_finalized_step G h d"
    note st = prune_finalized_step_get [OF assms(1) Cons.prems(1,2) Some d1_def]
    have fin: "dn_finalized n" using Cons.prems(5) Some by simp
    have "unfin_view d1 (remove_map h (get_node G d))"
      using st Cons.prems(3) Some fin
      by (auto simp: unfin_view_def remove_map_def unlink_map_def split: if_splits)
    moreover have "sender_view d1 (remove_map h (get_node G d))"
      using st Cons.prems(4) Some fin
      by (auto simp: sender_view_def remove_map_def unlink_map_def split: if_splits)
    moreover have "\<forall>x \<in> set hs. \<forall>k. remove_map h (get_node G d) x = Some k \<longrightarrow> dn_finalized k"
      using Cons.prems(5) by (auto simp: remove_map_def unlink_map_def split: if_splits)
    moreover have "d' = fold (prune_finalized_step G) hs d1" using Cons.prems(6) by (simp add: d1_def)
    moreover have "dag_idx G d1" "tips_view d1 (get_node G d1)" "get_node G d1 = remove_map h (get_node G d)"
      using st by auto
    ultimately have IH: "dag_idx G d' \<and> tips_view d' (get_node G d') \<and> unfin_view d' (get_node G d')
      \<and> sender_view d' (get_node G d') \<and> finalized_by_height d' = finalized_by_height d1
      \<and> dag_max_nodes d' = dag_max_nodes d1
      \<and> status_map (get_node G d') = status_map (get_node G d1) |` (- set hs)"
      by (intro Cons.IH) simp_all
    have "status_map (get_node G d1) |` (- set hs) = status_map (get_node G d) |` (- set (h # hs))"
      using st by (auto simp: status_remove_map restrict_map_def)
    with IH st show ?thesis by simp
  qed
qed (simp add: restrict_map_def)

lemma hm_set_drop_pruned:
  "hm_set (drop_pruned hs h m) k = hm_set m k - (if k = h then set hs else {})"
proof (cases "hm_get m h")
  case (Some s)
  have "fold removeAll hs s = [] \<longleftrightarrow> set s - set hs = {}"
    using set_fold_removeAll [of hs s] by (metis set_empty)
  with Some show ?thesis by (auto simp: drop_pruned_def hm_set_def Let_def set_fold_removeAll)
qed (simp add: drop_pruned_def hm_set_def)

lemma hm_set_drop_pruned_fold:
  "hm_set (fold (drop_pruned hs) ks m) k = hm_set m k - (if k \<in> set ks then set hs else {})"
  by (induction ks arbitrary: m) (auto simp: hm_set_drop_pruned)

definition prunable :: "u64 \<Rightarrow> 'g petgraph \<Rightarrow> 'g Dag \<Rightarrow> string \<Rightarrow> bool" where
  "prunable min_height G d h \<longleftrightarrow>
     (\<exists>n k. get_node G d h = Some n \<and> dn_finalized n \<and> dn_checkpoint_height n = Some k \<and> k < min_height)
     \<and> h \<notin> set (dag_tips d)
     \<and> (\<forall>u n. get_node G d u = Some n \<and> \<not> dn_finalized n \<longrightarrow> h \<notin> set (tx_parents (st_tx (dn_tx n))))"

lemma set_unfinalized_ancestors:
  assumes "unfin_view d (get_node G d)"
  shows "set (unfinalized_ancestors G d) =
    {p. \<exists>u n. get_node G d u = Some n \<and> \<not> dn_finalized n \<and> p \<in> set (tx_parents (st_tx (dn_tx n)))}"
  using assms by (force simp: unfinalized_ancestors_def unfin_view_def map_filter_def)

lemma hashes_to_prune_iff:
  assumes "iteration_order iter" "dag_inv G d"
  shows "h \<in> set (hashes_to_prune G iter min_height d) \<longleftrightarrow> prunable min_height G d h"
proof -
  note inv = dag_inv_views [OF assms(2)]
  have keys: "k \<in> set (hm_keys (finalized_by_height d)) \<longleftrightarrow> hm_get (finalized_by_height d) k \<noteq> None" for k
    by (simp add: map_of_eq_None_iff image_iff)
  have "(\<exists>k. k < min_height \<and> h \<in> hm_set (finalized_by_height d) k) \<longleftrightarrow>
      (\<exists>n k. get_node G d h = Some n \<and> dn_finalized n \<and> dn_checkpoint_height n = Some k \<and> k < min_height)"
    using inv(4) by (auto simp: height_view_def)
  moreover have "h \<in> set (hashes_to_prune G iter min_height d) \<longleftrightarrow>
      (\<exists>k. k < min_height \<and> h \<in> hm_set (finalized_by_height d) k)
      \<and> h \<notin> set (dag_tips d) \<and> h \<notin> set (unfinalized_ancestors G d)"
    using keys by (fastforce simp: hashes_to_prune_def heights_to_prune_def hm_set_def
        iteration_order_set [OF assms(1)] split: option.splits)
  ultimately show ?thesis
    using set_unfinalized_ancestors [OF inv(2)] by (auto simp: prunable_def)
qed

lemma prune_finalized_before_inv:
  assumes "petgraph_laws G" "iteration_order iter" "dag_inv G d"
    and "d' = fst (prune_finalized_before G iter min_height d)"
  shows "dag_inv G d'"
    and "status_map (get_node G d') = status_map (get_node G d) |` {h. \<not> prunable min_height G d h}"
    and "dag_max_nodes d' = dag_max_nodes d"
proof -
  let ?hs = "hashes_to_prune G iter min_height d"
  note inv = dag_inv_views [OF assms(3)]
  note hs = hashes_to_prune_iff [OF assms(2,3)]
  define d1 where "d1 = fold (prune_finalized_step G) ?hs d"
  have "\<forall>h \<in> set ?hs. \<forall>n. get_node G d h = Some n \<longrightarrow> dn_finalized n"
    by (auto simp: hs prunable_def)
  note pf = prune_finalized_fold [OF assms(1) inv(1,5,2,3) this d1_def]
  have d': "d' = d1\<lparr>finalized_by_height := fold (drop_pruned ?hs) (heights_to_prune min_height d) (finalized_by_height d1)\<rparr>"
    using assms(4) by (simp add: prune_finalized_before_def Let_def d1_def)
  have get: "get_node G d' = get_node G d1" by (rule get_node_cong) (simp_all add: d')
  have compl: "- set ?hs = {h. \<not> prunable min_height G d h}" using hs by auto
  show st: "status_map (get_node G d') = status_map (get_node G d) |` {h. \<not> prunable min_height G d h}"
    using pf by (simp add: get compl)
  show "dag_max_nodes d' = dag_max_nodes d" using pf by (simp add: d')
  have "h \<in> hm_set (finalized_by_height d') k \<longleftrightarrow>
      (\<exists>n. get_node G d1 h = Some n \<and> dn_finalized n \<and> dn_checkpoint_height n = Some k)" for h k
  proof -
    have keys: "k \<in> set (heights_to_prune min_height d)"
      if "h \<in> hm_set (finalized_by_height d) k" "prunable min_height G d h"
    proof -
      have "k < min_height" using that inv(4) by (auto simp: prunable_def height_view_def)
      moreover have "k \<in> fst ` set (finalized_by_height d)"
        using that(1) hm_get_None_iff [of "finalized_by_height d" k] by (force simp: hm_set_def)
      ultimately show ?thesis by (auto simp: heights_to_prune_def)
    qed
    have "h \<in> hm_set (finalized_by_height d') k \<longleftrightarrow>
        h \<in> hm_set (finalized_by_height d) k \<and> \<not> prunable min_height G d h"
      using pf keys by (auto simp: d' hm_set_drop_pruned_fold hs)
    also have "\<dots> \<longleftrightarrow> (\<exists>n. get_node G d h = Some n \<and> dn_finalized n \<and> dn_checkpoint_height n = Some k)
        \<and> \<not> prunable min_height G d h"
      using inv(4) by (simp add: height_view_def)
    also have "\<dots> \<longleftrightarrow> (\<exists>n. get_node G d1 h = Some n \<and> dn_finalized n \<and> dn_checkpoint_height n = Some k)"
    proof -
      have "map_option status (get_node G d1 h) =
          (if prunable min_height G d h then None else map_option status (get_node G d h))"
        using fun_cong [OF st, of h] by (auto simp: status_map_def restrict_map_def get)
      then show ?thesis
        by (cases "get_node G d1 h"; cases "get_node G d h") (auto simp: status_def split: if_splits)
    qed
    finally show ?thesis .
  qed
  then have hv: "height_view d' (get_node G d1)" by (simp add: height_view_def)
  have idx: "dag_idx G d'" using pf by (simp add: d' dag_idx_def)
  show "dag_inv G d'"
    by (rule dag_invI [OF idx get]) (use pf hv in \<open>simp_all add: d' unfin_view_def sender_view_def tips_view_def\<close>)
qed

end
