(* ===== verification/Rinku_Dag_Rebuild.thy ===== *)
theory Rinku_Dag_Rebuild
  imports Rinku_Dag_Remove
begin

text \<open>
  The operations that end in a full rebuild of the indices: \<open>remove_node\<close> and
  \<open>prune_branch\<close>, the batch removals, and \<open>rebuild_tips\<close>.
\<close>

section \<open>Removing one node\<close>

lemma dag_remove_node_inv:
  assumes "petgraph_laws G" "dag_idx G d" "tips_view d (get_node G d)"
    and "get_node G d h = Some n" and "d' = fst (dag_remove_node G h d)"
  shows "dag_inv G d' \<and> get_node G d' = remove_map h (get_node G d) \<and> dag_max_nodes d' = dag_max_nodes d
    \<and> map_option status (snd (dag_remove_node G h d)) = Some (status n)"
proof -
  obtain i where i: "hm_get (hash_to_index d) h = Some i" "i < length (dag_nodes G d)"
    "dag_nodes G d ! i = n" "dn_hash n = h"
    using assms(2,4) by (auto simp: get_node_Some_index)
  have idx: "idx_ok (dag_nodes G d) (hash_to_index d)" using assms(2) by (simp add: dag_idx_def)
  have nm: "node_map (dag_nodes G d) = get_node G d" using get_node_map [OF idx] by (simp add: fun_eq_iff)
  let ?d0 = "d\<lparr>hash_to_index := hm_remove h (hash_to_index d), dag_tips := removeAll h (dag_tips d),
      dag_unfinalized := removeAll h (dag_unfinalized d)\<rparr>"
  let ?d1 = "drop_height (dn_checkpoint_height n) h
      (?d0\<lparr>sender_unfinalized := set_remove (dn_sender n) h (sender_unfinalized ?d0)\<rparr>)"
  define d2 where "d2 = fold (unlink_child G h) (dn_parents n) ?d1"
  have "idx_ok (dag_nodes G d2) (hash_to_index d) \<and> hash_to_index d2 = hash_to_index ?d1
    \<and> length (dag_nodes G d2) = length (dag_nodes G ?d1)
    \<and> node_map (dag_nodes G d2) = unlink_map h (set (dn_parents n)) (node_map (dag_nodes G ?d1))
    \<and> dag_unfinalized d2 = dag_unfinalized ?d1 \<and> sender_unfinalized d2 = sender_unfinalized ?d1
    \<and> finalized_by_height d2 = finalized_by_height ?d1 \<and> dag_max_nodes d2 = dag_max_nodes ?d1
    \<and> set (dag_tips d2) = set (dag_tips ?d1) \<union>
      {p \<in> set (dn_parents n) - {h}. \<exists>n. node_map (dag_nodes G d2) p = Some n \<and> dn_children n = []}"
    by (rule unlink_fold [OF assms(1)]) (simp_all add: idx d2_def)
  then have d2: "idx_ok (dag_nodes G d2) (hash_to_index d)" "length (dag_nodes G d2) = length (dag_nodes G d)"
    "node_map (dag_nodes G d2) = unlink_map h (set (dn_parents n)) (get_node G d)"
    "dag_max_nodes d2 = dag_max_nodes d"
    and tips2: "set (dag_tips d2) = (set (dag_tips d) - {h}) \<union> {p \<in> set (dn_parents n) - {h}.
        \<exists>k. unlink_map h (set (dn_parents n)) (get_node G d) p = Some k \<and> dn_children k = []}"
    using nm by simp_all
  have li: "i < length (dag_nodes G d2)" using i(2) d2(2) by simp
  have hi: "dn_hash (dag_nodes G d2 ! i) = h" using idx_okD [OF d2(1) i(1)] by simp
  have at: "get_at (dag_nodes G ?d0) i = Some n" using i by (simp add: get_at_def)
  let ?d3 = "d2\<lparr>dag_graph := pg_remove_node G i (dag_graph d2)\<rparr>"
  have eq: "dag_remove_node G h d = (rebuild_index G ?d3, get_at (dag_nodes G d2) i)"
    unfolding dag_remove_node_def i(1) Let_def option.case at d2_def by (rule refl)
  have dist: "distinct (map dn_hash (dag_nodes G d2))" by (rule idx_ok_distinct [OF d2(1)])
  have nodes3: "dag_nodes G ?d3 = swap_remove i (dag_nodes G d2)" using assms(1) by simp
  have dist3: "distinct (map dn_hash (dag_nodes G ?d3))"
    unfolding nodes3 by (rule distinct_swap_remove [OF dist])
  have map3: "node_map (dag_nodes G ?d3) = remove_map h (get_node G d)"
    unfolding nodes3 node_map_swap_remove [OF dist li] hi d2(3) using assms(4) by (simp add: remove_map_def)
  have "tips_view ?d3 (remove_map h (get_node G d))"
    by (rule tips_view_remove [OF assms(3,4)]) (simp add: tips2)
  then have "dag_inv G (rebuild_index G ?d3)" by (intro rebuild_index_inv dist3) (simp only: map3)
  moreover have "get_node G (rebuild_index G ?d3) = remove_map h (get_node G d)"
    using rebuild_index_get [OF dist3] map3 by simp
  moreover have "map_option status (get_at (dag_nodes G d2) i) = Some (status n)"
  proof -
    have "node_map (dag_nodes G d2) h = Some (dag_nodes G d2 ! i)"
      using node_map_iff [OF dist] li hi by simp
    then have "dag_nodes G d2 ! i = n" using d2(3) assms(4) by (simp add: unlink_map_def)
    then show ?thesis using li by (simp add: get_at_def)
  qed
  ultimately show ?thesis using assms(5) d2(4) by (simp add: eq)
qed

lemma dag_remove_node_absent:
  "dag_idx G d \<Longrightarrow> get_node G d h = None \<Longrightarrow> dag_remove_node G h d = (d, None)"
  by (simp add: dag_remove_node_def get_node_None_index)

lemma dag_remove_node_keeps:
  assumes "petgraph_laws G" "dag_inv G d"
  shows "dag_inv G (fst (dag_remove_node G h d))"
    and "dag_max_nodes (fst (dag_remove_node G h d)) = dag_max_nodes d"
    and "status_map (get_node G (fst (dag_remove_node G h d))) = (status_map (get_node G d))(h := None)"
proof -
  note inv = dag_inv_views [OF assms(2)]
  have "dag_inv G (fst (dag_remove_node G h d)) \<and> dag_max_nodes (fst (dag_remove_node G h d)) = dag_max_nodes d
    \<and> status_map (get_node G (fst (dag_remove_node G h d))) = (status_map (get_node G d))(h := None)"
  proof (cases "get_node G d h")
    case None
    then show ?thesis
      using assms(2) by (auto simp: dag_remove_node_absent [OF inv(1)] status_map_def fun_eq_iff)
  next
    case (Some n)
    then show ?thesis using dag_remove_node_inv [OF assms(1) inv(1,5) Some refl]
      by (auto simp: status_remove_map)
  qed
  then show "dag_inv G (fst (dag_remove_node G h d))"
    "dag_max_nodes (fst (dag_remove_node G h d)) = dag_max_nodes d"
    "status_map (get_node G (fst (dag_remove_node G h d))) = (status_map (get_node G d))(h := None)" by auto
qed

definition remove_collect :: "'g petgraph \<Rightarrow> string \<Rightarrow> 'g Dag \<times> DagNode list \<Rightarrow> 'g Dag \<times> DagNode list" where
  "remove_collect G = (\<lambda>h (d, removed). case dag_remove_node G h d of
     (d', Some node) \<Rightarrow> (d', removed @ [node]) | (d', None) \<Rightarrow> (d', removed))"

lemma fst_remove_collect: "fst (remove_collect G h s) = fst (dag_remove_node G h (fst s))"
  by (auto simp: remove_collect_def split: prod.splits option.splits)

lemma remove_collect_fold:
  assumes "petgraph_laws G"
  shows "dag_inv G (fst s) \<Longrightarrow> dag_inv G (fst (fold (remove_collect G) hs s))
    \<and> dag_max_nodes (fst (fold (remove_collect G) hs s)) = dag_max_nodes (fst s)
    \<and> status_map (get_node G (fst (fold (remove_collect G) hs s)))
        = status_map (get_node G (fst s)) |` (- set hs)"
proof (induction hs arbitrary: s)
  case (Cons h hs)
  note keeps = dag_remove_node_keeps [OF assms Cons.prems, of h]
  have "dag_inv G (fst (remove_collect G h s))" using keeps by (simp add: fst_remove_collect)
  from Cons.IH [OF this] keeps show ?case
    by (auto simp: fst_remove_collect restrict_map_def)
qed (simp add: restrict_map_def)

lemma prune_branch_inv:
  assumes "petgraph_laws G" "dag_inv G d"
  shows "dag_inv G (fst (prune_branch G h d))" "dag_max_nodes (fst (prune_branch G h d)) = dag_max_nodes d"
  using remove_collect_fold [OF assms(1), of "(d, [])"] assms(2)
  by (simp_all add: prune_branch_def Let_def remove_collect_def)

section \<open>Removing a batch\<close>

lemma distinct_fold_remove:
  assumes "petgraph_laws G"
  shows "distinct (map dn_hash (pg_nodes G g)) \<Longrightarrow>
    distinct (map dn_hash (pg_nodes G (fold (pg_remove_node G) is g)))"
proof (induction "is" arbitrary: g)
  case (Cons i "is")
  have "distinct (map dn_hash (pg_nodes G (pg_remove_node G i g)))"
    using Cons.prems assms by (simp add: distinct_swap_remove)
  from Cons.IH [OF this] show ?case by simp
qed simp

text \<open>Indices taken in descending order name the nodes they named at the start.\<close>

lemma set_fold_remove:
  assumes "petgraph_laws G" "sorted (rev is)" "distinct is" "set is \<subseteq> {..<length (pg_nodes G g)}"
    "distinct (map dn_hash (pg_nodes G g))"
  shows "set (pg_nodes G (fold (pg_remove_node G) is g)) =
    {n \<in> set (pg_nodes G g). dn_hash n \<notin> (\<lambda>i. dn_hash (pg_nodes G g ! i)) ` set is}"
  using assms(2-)
proof (induction "is" arbitrary: g)
  case (Cons i "is")
  let ?ns = "pg_nodes G g"
  let ?g = "pg_remove_node G i g"
  have i: "i < length ?ns" and lower: "\<forall>j \<in> set is. j < i"
    using Cons.prems by (auto simp: sorted_append) (metis le_neq_implies_less)
  have nodes: "pg_nodes G ?g = swap_remove i ?ns" using assms(1) by simp
  have same: "pg_nodes G ?g ! j = ?ns ! j" if "j \<in> set is" for j
    using that lower i by (auto simp: nodes nth_swap_remove)
  have "set is \<subseteq> {..<length (pg_nodes G ?g)}" using lower i by (auto simp: nodes)
  moreover have "distinct (map dn_hash (pg_nodes G ?g))"
    using Cons.prems(4) by (simp add: nodes distinct_swap_remove)
  ultimately have "set (pg_nodes G (fold (pg_remove_node G) is ?g)) =
      {n \<in> set (pg_nodes G ?g). dn_hash n \<notin> (\<lambda>i. dn_hash (pg_nodes G ?g ! i)) ` set is}"
    using Cons.prems by (intro Cons.IH) (auto simp: sorted_append)
  also have "(\<lambda>i. dn_hash (pg_nodes G ?g ! i)) ` set is = (\<lambda>i. dn_hash (?ns ! i)) ` set is"
    using same by (intro image_cong) auto
  also have "set (pg_nodes G ?g) = {n \<in> set ?ns. dn_hash n \<noteq> dn_hash (?ns ! i)}"
    unfolding nodes by (rule set_swap_remove [OF Cons.prems(4) i])
  finally show ?case by auto
qed simp

lemma update_all:
  assumes "petgraph_laws G"
  shows "pg_nodes G (fold (\<lambda>i. pg_update_node G i f) [0..<length (pg_nodes G g)] g) = map f (pg_nodes G g)"
proof -
  have "k \<le> length (pg_nodes G g) \<Longrightarrow>
      pg_nodes G (fold (\<lambda>i. pg_update_node G i f) [0..<k] g) = map f (take k (pg_nodes G g)) @ drop k (pg_nodes G g)" for k
  proof (induction k)
    case (Suc k)
    then show ?case
      using assms by (simp add: take_Suc_conv_app_nth nth_append list_update_append Cons_nth_drop_Suc [symmetric])
  qed simp
  from this [of "length (pg_nodes G g)"] show ?thesis by simp
qed

lemma index_tip_fields [simp]:
  "dag_graph (index_tip n i d) = dag_graph d"
  "hash_to_index (index_tip n i d) = hash_to_index (index_node n i d)"
  "dag_unfinalized (index_tip n i d) = dag_unfinalized (index_node n i d)"
  "sender_unfinalized (index_tip n i d) = sender_unfinalized (index_node n i d)"
  "finalized_by_height (index_tip n i d) = finalized_by_height (index_node n i d)"
  "dag_max_nodes (index_tip n i d) = dag_max_nodes d"
  by (simp_all add: index_tip_def Let_def)

lemma index_node_cong:
  assumes "hash_to_index d = hash_to_index e" "dag_unfinalized d = dag_unfinalized e"
    "sender_unfinalized d = sender_unfinalized e" "finalized_by_height d = finalized_by_height e"
  shows "hash_to_index (index_node n i d) = hash_to_index (index_node n i e)"
    "dag_unfinalized (index_node n i d) = dag_unfinalized (index_node n i e)"
    "sender_unfinalized (index_node n i d) = sender_unfinalized (index_node n i e)"
    "finalized_by_height (index_node n i d) = finalized_by_height (index_node n i e)"
  using assms by (simp_all split: bool.splits option.splits)

lemma index_tip_fold:
  defines "r \<equiv> \<lambda>ps d. fold (\<lambda>(idx, node). index_tip node idx) ps d"
  assumes "hash_to_index d = hash_to_index e" "dag_unfinalized d = dag_unfinalized e"
    "sender_unfinalized d = sender_unfinalized e" "finalized_by_height d = finalized_by_height e"
  shows "hash_to_index (r ps d) = hash_to_index (index_pairs ps e)
    \<and> dag_unfinalized (r ps d) = dag_unfinalized (index_pairs ps e)
    \<and> sender_unfinalized (r ps d) = sender_unfinalized (index_pairs ps e)
    \<and> finalized_by_height (r ps d) = finalized_by_height (index_pairs ps e)
    \<and> dag_graph (r ps d) = dag_graph d \<and> dag_max_nodes (r ps d) = dag_max_nodes d
    \<and> set (dag_tips (r ps d)) = set (dag_tips d) \<union> {dn_hash n |n. n \<in> snd ` set ps \<and> dn_children n = []}"
  using assms(2-) unfolding r_def
proof (induction ps arbitrary: d e)
  case (Cons p ps)
  obtain i n where p: "p = (i, n)" by (cases p)
  have eqs: "hash_to_index (index_tip n i d) = hash_to_index (index_node n i e)"
    "dag_unfinalized (index_tip n i d) = dag_unfinalized (index_node n i e)"
    "sender_unfinalized (index_tip n i d) = sender_unfinalized (index_node n i e)"
    "finalized_by_height (index_tip n i d) = finalized_by_height (index_node n i e)"
    using index_node_cong [OF Cons.prems] by simp_all
  have tips: "set (dag_tips (index_tip n i d)) = set (dag_tips d) \<union> (if dn_children n = [] then {dn_hash n} else {})"
    by (simp add: index_tip_def Let_def)
  from Cons.IH [OF eqs] show ?case by (auto simp: p tips)
qed simp

lemma remove_indices_inv:
  assumes "petgraph_laws G" "dag_idx G d" "\<And>n. dn_hash (strip n) = dn_hash n"
    and "d' = remove_indices G strip is d"
  shows "dag_inv G d' \<and> dag_max_nodes d' = dag_max_nodes d
    \<and> dag_nodes G d' = map strip (pg_nodes G (fold (pg_remove_node G) (sort_key (\<lambda>i. - int i) is) (dag_graph d)))"
proof -
  let ?g1 = "fold (pg_remove_node G) (sort_key (\<lambda>i. - int i) is) (dag_graph d)"
  let ?g = "fold (\<lambda>i. pg_update_node G i strip) [0..<length (pg_nodes G ?g1)] ?g1"
  let ?ns = "pg_nodes G ?g"
  let ?d0 = "d\<lparr>dag_graph := ?g, hash_to_index := [], dag_unfinalized := [],
      sender_unfinalized := [], finalized_by_height := [], dag_tips := []\<rparr>"
  have d': "d' = fold (\<lambda>(idx, node). index_tip node idx) (zip [0..<length ?ns] ?ns) ?d0"
    using assms(4) by (simp add: remove_indices_def Let_def)
  have ns: "?ns = map strip (pg_nodes G ?g1)" by (rule update_all [OF assms(1)])
  have "distinct (map dn_hash (pg_nodes G ?g1))"
    by (rule distinct_fold_remove [OF assms(1) dag_idx_distinct [OF assms(2)]])
  then have dist: "distinct (map dn_hash ?ns)" by (simp add: ns comp_def assms(3))
  let ?p = "index_pairs (zip [0..<length ?ns] ?ns) ?d0"
  have fields: "hash_to_index d' = hash_to_index ?p" "dag_unfinalized d' = dag_unfinalized ?p"
    "sender_unfinalized d' = sender_unfinalized ?p" "finalized_by_height d' = finalized_by_height ?p"
    "dag_graph d' = ?g" "dag_max_nodes d' = dag_max_nodes d"
    "set (dag_tips d') = {dn_hash n |n. n \<in> set ?ns \<and> dn_children n = []}"
    using index_tip_fold [OF refl refl refl refl, of "zip [0..<length ?ns] ?ns" ?d0] by (simp_all add: d')
  have idx: "dag_idx G d'" unfolding dag_idx_def fields(1,5) by (rule idx_ok_index_pairs [OF dist]) simp
  have get: "get_node G d' = node_map ?ns"
    using get_node_map [of G d'] idx by (simp add: dag_idx_def fields(5) fun_eq_iff)
  note views = index_pairs_views [OF dist, of ?d0]
  have "dag_inv G d'"
  proof (rule dag_invI [OF idx get])
    show "unfin_view d' (node_map ?ns)" using views(1) by (simp add: unfin_view_def fields(2))
    show "sender_view d' (node_map ?ns)" using views(2) by (simp add: sender_view_def fields(3))
    show "height_view d' (node_map ?ns)" using views(3) by (simp add: height_view_def fields(4))
    show "tips_view d' (node_map ?ns)" by (auto simp: tips_view_def fields(7) node_map_iff [OF dist])
  qed
  then show ?thesis using fields ns by simp
qed

lemma strip_hash [simp]:
  "dn_hash (strip_hashes e n) = dn_hash n" "dn_hash (strip_tx_parents e n) = dn_hash n"
  by (simp_all add: strip_hashes_def strip_tx_parents_def)

lemma remove_nodes_batch_inv:
  assumes "petgraph_laws G" "dag_inv G d"
  shows "dag_inv G (fst (remove_nodes_batch G hs d))
    \<and> dag_max_nodes (fst (remove_nodes_batch G hs d)) = dag_max_nodes d"
proof -
  let ?is = "rev (remdups (rev (List.map_filter (hm_get (hash_to_index d)) hs)))"
  let ?r = "remove_indices G (strip_tx_parents hs \<circ> strip_hashes hs) ?is d"
  have "dag_inv G ?r \<and> dag_max_nodes ?r = dag_max_nodes d"
    using remove_indices_inv [OF assms(1) dag_inv_views(1) [OF assms(2)] _ refl] by simp
  then show ?thesis
    using assms(2) unfolding remove_nodes_batch_def Let_def by (cases "?is = []") simp_all
qed

lemma evict_finalized_before_inv:
  assumes "petgraph_laws G" "dag_inv G d"
  shows "dag_inv G (fst (evict_finalized_before G k d))
    \<and> dag_max_nodes (fst (evict_finalized_before G k d)) = dag_max_nodes d"
proof -
  let ?e = "map dn_hash (filter (evictable G k d) (dag_nodes G d))"
  let ?r = "remove_indices G (strip_hashes ?e) (List.map_filter (hm_get (hash_to_index d)) ?e) d"
  have "dag_inv G ?r \<and> dag_max_nodes ?r = dag_max_nodes d"
    using remove_indices_inv [OF assms(1) dag_inv_views(1) [OF assms(2)] _ refl] by simp
  then show ?thesis
    using assms(2) unfolding evict_finalized_before_def Let_def by (cases "?e = []") simp_all
qed

section \<open>Rebuilding links and tips\<close>

definition same_indices :: "'g Dag \<Rightarrow> 'g Dag \<Rightarrow> bool" where
  "same_indices d d' \<longleftrightarrow> hash_to_index d' = hash_to_index d \<and> dag_tips d' = dag_tips d
     \<and> dag_unfinalized d' = dag_unfinalized d \<and> sender_unfinalized d' = sender_unfinalized d
     \<and> finalized_by_height d' = finalized_by_height d \<and> dag_max_nodes d' = dag_max_nodes d"

lemma same_indices_trans: "same_indices d e \<Longrightarrow> same_indices e f \<Longrightarrow> same_indices d f"
  by (simp add: same_indices_def)

lemma relink_parents:
  assumes "petgraph_laws G" "dag_idx G d" "fold (relink_parent G h i) ps (d, k) = (d', k')"
  shows "dag_idx G d' \<and> same_indices d d'
    \<and> get_node G d' = (\<lambda>x. if x \<in> real_parents h ps then map_option (add_child h) (get_node G d x)
         else get_node G d x)"
  using assms(2,3)
proof (induction ps arbitrary: d k)
  case Nil
  then show ?case by (simp add: real_parents_def same_indices_def)
next
  case (Cons p ps)
  show ?case
  proof (cases "p \<noteq> [] \<and> p \<noteq> h \<and> hm_get (hash_to_index d) p \<noteq> None")
    case False
    then have "fst (relink_parent G h i p (d, k)) = d"
      by (auto simp: relink_parent_def split: option.splits)
    then obtain k1 where step: "relink_parent G h i p (d, k) = (d, k1)" by (metis prod.collapse)
    have none: "p \<in> real_parents h (p # ps) \<Longrightarrow> get_node G d p = None"
      using False Cons.prems(1) by (auto simp: real_parents_def get_node_None_index)
    have rp: "real_parents h (p # ps) = real_parents h ps \<union> (if p \<noteq> [] \<and> p \<noteq> h then {p} else {})"
      by (auto simp: real_parents_def)
    show ?thesis
      using Cons.IH [OF Cons.prems(1), of k1] Cons.prems(2) none by (auto simp: step rp fun_eq_iff)
  next
    case True
    then obtain j where j: "hm_get (hash_to_index d) p = Some j" by auto
    let ?e = "d\<lparr>dag_graph := pg_add_edge G j i (dag_graph d)\<rparr>"
    let ?d = "get_node_mut G p (add_child h) ?e"
    have step: "relink_parent G h i p (d, k) = (?d, k)" using True j by (simp add: relink_parent_def)
    have idx0: "dag_idx G ?e" using Cons.prems(1) assms(1) by (simp add: dag_idx_def)
    have get0: "get_node G ?e = get_node G d" by (rule get_node_cong) (simp_all add: assms(1))
    have idx: "dag_idx G ?d" and get: "get_node G ?d = (get_node G d)(p := map_option (add_child h) (get_node G d p))"
      using get_node_mut_get [OF assms(1) idx0, of "add_child h" p] by (simp_all add: get0)
    have si: "same_indices d ?d" by (simp add: same_indices_def)
    obtain n where n: "get_node G d p = Some n"
      using j Cons.prems(1) get_node_None_index [of G d p] by auto
    have rp: "real_parents h (p # ps) = insert p (real_parents h ps)"
      using True by (auto simp: real_parents_def)
    have map: "(\<lambda>x. if x \<in> real_parents h ps then map_option (add_child h) (get_node G ?d x) else get_node G ?d x)
        = (\<lambda>x. if x \<in> real_parents h (p # ps) then map_option (add_child h) (get_node G d x) else get_node G d x)"
      using n by (auto simp: get rp fun_eq_iff)
    have "fold (relink_parent G h i) ps (?d, k) = (d', k')" using Cons.prems(2) by (simp add: step)
    note IH = Cons.IH [OF idx this]
    then show ?thesis unfolding map using same_indices_trans [OF si] by blast
  qed
qed

lemma status_add_child: "status (add_child h n) = status n"
  by (simp add: status_def)

lemma status_no_children: "status (n\<lparr>dn_children := []\<rparr>) = status n"
  by (simp add: status_def)

definition child_of :: "(string \<rightharpoonup> DagNode) \<Rightarrow> string \<Rightarrow> string \<Rightarrow> bool" where
  "child_of m p c \<longleftrightarrow> (\<exists>n. m c = Some n \<and> p \<in> real_parents c (dn_parents n))"

lemma child_of_status: "status_map m = status_map m' \<Longrightarrow> child_of m p c = child_of m' p c"
proof -
  assume "status_map m = status_map m'"
  then have "map_option status (m c) = map_option status (m' c)" by (metis status_map_def)
  then show ?thesis by (cases "m c"; cases "m' c") (auto simp: child_of_def status_def)
qed

lemma relink_fold:
  assumes "petgraph_laws G" "dag_idx G d" "fold (relink_node G) hs (d, k) = (d', k')"
  shows "dag_idx G d' \<and> same_indices d d' \<and> status_map (get_node G d') = status_map (get_node G d)
    \<and> (\<forall>p n n'. get_node G d p = Some n \<longrightarrow> get_node G d' p = Some n' \<longrightarrow>
        set (dn_children n') = set (dn_children n) \<union> {c \<in> set hs. child_of (get_node G d) p c})"
  using assms(2,3)
proof (induction hs arbitrary: d k)
  case Nil
  then show ?case by (auto simp: same_indices_def)
next
  case (Cons h hs)
  obtain d1 k1 where step: "relink_node G h (d, k) = (d1, k1)" by fastforce
  have d1: "dag_idx G d1 \<and> same_indices d d1
    \<and> get_node G d1 = (\<lambda>x. if child_of (get_node G d) x h then map_option (add_child h) (get_node G d x)
         else get_node G d x)"
  proof (cases "get_node G d h")
    case None
    then show ?thesis
      using step Cons.prems(1) by (auto simp: relink_node_def child_of_def same_indices_def)
  next
    case (Some n)
    then obtain i where "hm_get (hash_to_index d) h = Some i"
      using Cons.prems(1) by (auto simp: get_node_Some_index)
    then have "fold (relink_parent G h i) (dn_parents n) (d, k) = (d1, k1)"
      using step Some by (simp add: relink_node_def)
    from relink_parents [OF assms(1) Cons.prems(1) this] show ?thesis
      using Some by (simp add: child_of_def)
  qed
  have st: "status_map (get_node G d1) = status_map (get_node G d)"
    using d1 by (auto simp: status_map_def fun_eq_iff option.map_comp comp_def status_add_child)
  have idx: "dag_idx G d1" and rest: "fold (relink_node G) hs (d1, k1) = (d', k')"
    using d1 Cons.prems(2) step by simp_all
  note IH = Cons.IH [OF idx rest]
  have "set (dn_children n') = set (dn_children n) \<union> {c \<in> set (h # hs). child_of (get_node G d) p c}"
    if pn: "get_node G d p = Some n" "get_node G d' p = Some n'" for p n n'
  proof -
    obtain n1 where n1: "get_node G d1 p = Some n1" "set (dn_children n1) =
        set (dn_children n) \<union> (if child_of (get_node G d) p h then {h} else {})"
    proof (rule that)
      let ?n1 = "if child_of (get_node G d) p h then add_child h n else n"
      show "get_node G d1 p = Some ?n1" using d1 pn(1) by simp
      show "set (dn_children ?n1) = set (dn_children n) \<union> (if child_of (get_node G d) p h then {h} else {})"
        by simp
    qed
    then have "set (dn_children n') = set (dn_children n1) \<union> {c \<in> set hs. child_of (get_node G d1) p c}"
      using IH pn(2) by blast
    then show ?thesis using n1 child_of_status [OF st] by auto
  qed
  moreover have "same_indices d d'" using IH d1 same_indices_trans by blast
  ultimately show ?case using IH st by simp
qed

lemma clear_children_fold:
  assumes "petgraph_laws G" "dag_idx G d" "d' = fold (\<lambda>h. get_node_mut G h (\<lambda>n. n\<lparr>dn_children := []\<rparr>)) hs d"
  shows "dag_idx G d' \<and> same_indices d d'
    \<and> get_node G d' = (\<lambda>x. if x \<in> set hs then map_option (\<lambda>n. n\<lparr>dn_children := []\<rparr>) (get_node G d x)
         else get_node G d x)"
  using assms(2,3)
proof (induction hs arbitrary: d)
  case (Cons h hs)
  let ?f = "\<lambda>n :: DagNode. n\<lparr>dn_children := []\<rparr>"
  let ?d = "get_node_mut G h ?f d"
  have idx: "dag_idx G ?d" and get: "get_node G ?d = (get_node G d)(h := map_option ?f (get_node G d h))"
    using get_node_mut_get [OF assms(1) Cons.prems(1), of ?f h] by simp_all
  have "same_indices d ?d" by (simp add: same_indices_def)
  with Cons.IH [OF idx] Cons.prems(2) show ?case
    by (auto simp: get fun_eq_iff option.map_comp comp_def dest: same_indices_trans)
qed (simp add: same_indices_def)

lemma set_fold_tips:
  "set (fold (\<lambda>h tips. case m h of Some node \<Rightarrow> if dn_children node = [] then List.insert h tips else tips
       | None \<Rightarrow> tips) hs t) = set t \<union> {h \<in> set hs. \<exists>n. m h = Some n \<and> dn_children n = []}"
  by (induction hs arbitrary: t) (auto split: option.splits)

lemma rebuild_tips_inv:
  assumes "petgraph_laws G" "iteration_order iter" "dag_idx G d" "unfin_view d (get_node G d)"
    "sender_view d (get_node G d)" "height_view d (get_node G d)" and "d' = fst (rebuild_tips G iter d)"
  shows "dag_inv G d' \<and> status_map (get_node G d') = status_map (get_node G d)
    \<and> dag_max_nodes d' = dag_max_nodes d
    \<and> (\<forall>p n. get_node G d' p = Some n \<longrightarrow> set (dn_children n) = {c. child_of (get_node G d') p c})"
proof -
  define hs where "hs = iter (hm_keys (hash_to_index d))"
  have hs: "set hs = {h. get_node G d h \<noteq> None}"
    unfolding hs_def iteration_order_set [OF assms(2)]
    using get_node_None_index [OF assms(3)] by (auto simp: map_of_eq_None_iff)
  let ?d0 = "d\<lparr>dag_graph := pg_clear_edges G (dag_graph d)\<rparr>"
  have idx0: "dag_idx G ?d0" using assms(1,3) by (simp add: dag_idx_def)
  have get0: "get_node G ?d0 = get_node G d" by (rule get_node_cong) (simp_all add: assms(1))
  define d1 where "d1 = fold (\<lambda>h. get_node_mut G h (\<lambda>n. n\<lparr>dn_children := []\<rparr>)) hs ?d0"
  note c1 = clear_children_fold [OF assms(1) idx0 d1_def]
  obtain d2 k where fold: "fold (relink_node G) hs (d1, 0) = (d2, k)" by fastforce
  have idx1: "dag_idx G d1" using c1 by simp
  note c2 = relink_fold [OF assms(1) idx1 fold]
  let ?tips = "fold (\<lambda>h tips. case get_node G d2 h of
       Some node \<Rightarrow> if dn_children node = [] then List.insert h tips else tips | None \<Rightarrow> tips) hs []"
  have d': "d' = d2\<lparr>dag_tips := ?tips\<rparr>"
    using assms(7) fold by (simp add: rebuild_tips_def Let_def hs_def d1_def)
  have get': "get_node G d' = get_node G d2" by (rule get_node_cong) (simp_all add: d')
  have si: "same_indices d d2"
    using c1 c2 by (auto simp: same_indices_def)
  have st1: "status_map (get_node G d1) = status_map (get_node G d)"
    using c1 by (auto simp: status_map_def get0 status_no_children fun_eq_iff option.map_comp comp_def)
  then have st: "status_map (get_node G d2) = status_map (get_node G d)" using c2 by simp
  have dom: "get_node G d2 h \<noteq> None \<longleftrightarrow> h \<in> set hs" for h
    using fun_cong [OF st, of h] hs by (auto simp: status_map_def)
  have kids: "set (dn_children n) = {c. child_of (get_node G d2) p c}" if pn: "get_node G d2 p = Some n" for p n
  proof -
    obtain n0 where "get_node G d p = Some n0" using dom [of p] hs pn by auto
    moreover have "p \<in> set hs" using dom pn by auto
    ultimately have "get_node G d1 p = Some (n0\<lparr>dn_children := []\<rparr>)" using c1 by (simp add: get0)
    then have "set (dn_children n) = {c \<in> set hs. child_of (get_node G d1) p c}" using c2 pn by fastforce
    moreover have "child_of (get_node G d1) p c \<longleftrightarrow> child_of (get_node G d2) p c" for c
      using child_of_status st st1 by metis
    moreover have "child_of (get_node G d2) p c \<Longrightarrow> c \<in> set hs" for c
      using dom [of c] by (auto simp: child_of_def)
    ultimately show ?thesis by auto
  qed
  have idx: "dag_idx G d'" using c2 by (simp add: d' dag_idx_def)
  have "dag_inv G d'"
  proof (rule dag_invI [OF idx get'])
    show "tips_view d' (get_node G d2)"
      using dom by (auto simp: tips_view_def d' set_fold_tips)
    show "unfin_view d' (get_node G d2)" "sender_view d' (get_node G d2)" "height_view d' (get_node G d2)"
      using view_status [OF st, of d] assms(4-6) si
      by (simp_all add: d' unfin_view_def sender_view_def height_view_def same_indices_def)
  qed
  then show ?thesis using kids st si by (simp add: get' same_indices_def) (simp add: d')
qed

end
