(* ===== verification/Rinku_Dag_Search.thy ===== *)
theory Rinku_Dag_Search
  imports Rinku_Dag
begin

text \<open>
  Breadth-first search in the DAG: with the fuel the model gives it the loop of
  \<open>get_ancestors\<close> and \<open>get_descendants\<close> always empties its queue, and when the depth bound
  does not cut it off it finds exactly the nodes reachable along the edges.
\<close>

definition bfs_edges :: "(nat \<Rightarrow> nat list) \<Rightarrow> (nat \<times> nat) set" where
  "bfs_edges nbrs = {(v, w). w \<in> set (nbrs v)}"

definition bfs_ok :: "DagNode list \<Rightarrow> (nat \<Rightarrow> nat list) \<Rightarrow> nat \<Rightarrow> bfs_state \<Rightarrow> bool" where
  "bfs_ok nodes nbrs start s \<longleftrightarrow>
     (case s of (vis, q, found) \<Rightarrow>
        distinct vis \<and> start \<in> set vis \<and> set vis \<subseteq> {..<length nodes}
        \<and> fst ` set q \<subseteq> set vis \<and> (\<forall>e \<in> set q. snd e < length vis)
        \<and> set found = (\<lambda>j. dn_hash (nodes ! j)) ` (set vis - {start})
        \<and> (\<forall>v \<in> set vis. (start, v) \<in> (bfs_edges nbrs)\<^sup>*))"

definition bfs_closed :: "(nat \<Rightarrow> nat list) \<Rightarrow> bfs_state \<Rightarrow> bool" where
  "bfs_closed nbrs s \<longleftrightarrow>
     (case s of (vis, q, found) \<Rightarrow> \<forall>v \<in> set vis. v \<in> fst ` set q \<or> set (nbrs v) \<subseteq> set vis)"

text \<open>Queue entries still to pop plus nodes not yet seen.\<close>

definition bfs_work :: "DagNode list \<Rightarrow> bfs_state \<Rightarrow> nat" where
  "bfs_work nodes s = (case s of (vis, q, found) \<Rightarrow> length q + (length nodes - length vis))"

lemma bfs_visit_ok:
  assumes "bfs_ok nodes nbrs start (vis, q, found)" "w < length nodes"
    "(start, w) \<in> (bfs_edges nbrs)\<^sup>*" "depth < length vis"
    and "bfs_visit nodes depth w (vis, q, found) = (vis', q', found')"
  shows "bfs_ok nodes nbrs start (vis', q', found') \<and> set vis' = insert w (set vis)
    \<and> fst ` set q' = fst ` set q \<union> ({w} - set vis) \<and> length vis \<le> length vis'
    \<and> length q' + length vis = length q + length vis'"
proof (cases "w \<in> set vis")
  case True
  then show ?thesis using assms by (auto simp: bfs_visit_def)
next
  case False
  then have eqs: "vis' = w # vis" "q' = q @ [(w, depth + 1)]" "found' = found @ [dn_hash (nodes ! w)]"
    using assms(2,5) by (auto simp: bfs_visit_def get_at_def)
  have "start \<noteq> w" using assms(1) False by (auto simp: bfs_ok_def)
  then have "set found' = (\<lambda>j. dn_hash (nodes ! j)) ` (set vis' - {start})"
    using assms(1) by (auto simp: eqs bfs_ok_def)
  moreover have "\<forall>e \<in> set q'. snd e < length vis'"
    using assms(1,4) by (auto simp: eqs bfs_ok_def less_Suc_eq)
  ultimately show ?thesis
    using assms False by (auto simp: bfs_ok_def eqs)
qed

lemma bfs_visits_ok:
  assumes "bfs_ok nodes nbrs start (vis, q, found)" "set ws \<subseteq> {..<length nodes}"
    "\<forall>w \<in> set ws. (start, w) \<in> (bfs_edges nbrs)\<^sup>*" "depth < length vis"
    and "fold (bfs_visit nodes depth) ws (vis, q, found) = (vis', q', found')"
  shows "bfs_ok nodes nbrs start (vis', q', found') \<and> set vis' = set ws \<union> set vis
    \<and> fst ` set q' = fst ` set q \<union> (set ws - set vis) \<and> length vis \<le> length vis'
    \<and> length q' + length vis = length q + length vis'"
  using assms
proof (induction ws arbitrary: vis q found)
  case (Cons w ws)
  obtain vis1 q1 found1 where v: "bfs_visit nodes depth w (vis, q, found) = (vis1, q1, found1)"
    by (cases "bfs_visit nodes depth w (vis, q, found)")
  have one: "bfs_ok nodes nbrs start (vis1, q1, found1) \<and> set vis1 = insert w (set vis)
    \<and> fst ` set q1 = fst ` set q \<union> ({w} - set vis) \<and> length vis \<le> length vis1
    \<and> length q1 + length vis = length q + length vis1"
    by (rule bfs_visit_ok [OF Cons.prems(1) _ _ Cons.prems(4) v]) (use Cons.prems in auto)
  have "bfs_ok nodes nbrs start (vis', q', found') \<and> set vis' = set ws \<union> set vis1
    \<and> fst ` set q' = fst ` set q1 \<union> (set ws - set vis1) \<and> length vis1 \<le> length vis'
    \<and> length q' + length vis1 = length q1 + length vis'"
    by (rule Cons.IH) (use one Cons.prems v in auto)
  with one show ?case by auto
qed auto

text \<open>One round of the loop that is not cut off: the invariants stay and the work shrinks.\<close>

lemma bfs_round:
  assumes "\<forall>v. set (nbrs v) \<subseteq> {..<length nodes}" "bfs_ok nodes nbrs start (vis, (i, k) # q0, found)"
    and "s' = fold (bfs_visit nodes k) (nbrs i) (vis, q0, found)"
  shows "bfs_ok nodes nbrs start s'" and "bfs_work nodes s' < bfs_work nodes (vis, (i, k) # q0, found)"
    and "k < length nodes" and "bfs_closed nbrs (vis, (i, k) # q0, found) \<Longrightarrow> bfs_closed nbrs s'"
proof -
  have ok: "distinct vis" "i \<in> set vis" "k < length vis" "set vis \<subseteq> {..<length nodes}"
    using assms(2) by (auto simp: bfs_ok_def)
  have len: "length vis \<le> length nodes"
    using ok by (metis card_lessThan card_mono distinct_card finite_lessThan)
  then show "k < length nodes" using ok(3) by linarith
  have ok0: "bfs_ok nodes nbrs start (vis, q0, found)" using assms(2) by (auto simp: bfs_ok_def)
  have "(start, w) \<in> (bfs_edges nbrs)\<^sup>*" if "w \<in> set (nbrs i)" for w
  proof -
    have "(start, i) \<in> (bfs_edges nbrs)\<^sup>*" using assms(2) ok(2) by (auto simp: bfs_ok_def)
    moreover have "(i, w) \<in> bfs_edges nbrs" using that by (simp add: bfs_edges_def)
    ultimately show ?thesis by (rule rtrancl.rtrancl_into_rtrancl)
  qed
  moreover obtain vis' q' found' where s': "s' = (vis', q', found')" by (cases s')
  ultimately have v: "bfs_ok nodes nbrs start (vis', q', found') \<and> set vis' = set (nbrs i) \<union> set vis
    \<and> fst ` set q' = fst ` set q0 \<union> (set (nbrs i) - set vis) \<and> length vis \<le> length vis'
    \<and> length q' + length vis = length q0 + length vis'"
    using bfs_visits_ok [OF ok0, of "nbrs i" k vis' q' found'] assms(1,3) ok(3) by simp
  then show "bfs_ok nodes nbrs start s'" by (simp add: s')
  show "bfs_closed nbrs s'" if "bfs_closed nbrs (vis, (i, k) # q0, found)"
    using that v by (auto simp: bfs_closed_def s')
  have "length vis' \<le> length nodes"
    using v by (metis (no_types, lifting) bfs_ok_def card_lessThan card_mono case_prod_conv distinct_card finite_lessThan)
  then show "bfs_work nodes s' < bfs_work nodes (vis, (i, k) # q0, found)"
    using conjunct2 [OF conjunct2 [OF conjunct2 [OF conjunct2 [OF v]]]] len by (simp add: bfs_work_def s')
qed

text \<open>The loop empties its queue for every depth bound, and closes the visited set when the bound does not cut it off.\<close>

lemma bfs_loop_done:
  assumes "\<forall>v. set (nbrs v) \<subseteq> {..<length nodes}"
  shows "bfs_ok nodes nbrs start s \<Longrightarrow> bfs_work nodes s \<le> fuel \<Longrightarrow>
    \<exists>vis found. bfs_loop fuel nodes nbrs max_depth s = (vis, [], found) \<and> bfs_ok nodes nbrs start (vis, [], found)
      \<and> (length nodes \<le> max_depth \<longrightarrow> bfs_closed nbrs s \<longrightarrow> bfs_closed nbrs (vis, [], found))"
proof (induction fuel arbitrary: s)
  case 0
  then show ?case by (cases s) (auto simp: bfs_work_def)
next
  case (Suc fuel)
  obtain vis q found where s: "s = (vis, q, found)" by (cases s)
  show ?case
  proof (cases q)
    case Nil
    then show ?thesis using Suc.prems s by simp
  next
    case (Cons e q0)
    obtain i k where e: "e = (i, k)" by (cases e)
    let ?s = "if k \<ge> max_depth then (vis, q0, found) else fold (bfs_visit nodes k) (nbrs i) (vis, q0, found)"
    note round = bfs_round [OF assms Suc.prems(1) [unfolded s Cons e] refl]
    have "bfs_ok nodes nbrs start ?s" using round(1) Suc.prems(1) by (auto simp: s Cons e bfs_ok_def)
    moreover have "bfs_work nodes ?s \<le> fuel" using round(2) Suc.prems(2) by (auto simp: s Cons e bfs_work_def)
    ultimately obtain vis' found' where r: "bfs_loop fuel nodes nbrs max_depth ?s = (vis', [], found')" "bfs_ok nodes nbrs start (vis', [], found')"
      "length nodes \<le> max_depth \<longrightarrow> bfs_closed nbrs ?s \<longrightarrow> bfs_closed nbrs (vis', [], found')" using Suc.IH by blast
    moreover have "bfs_closed nbrs ?s" if "length nodes \<le> max_depth" "bfs_closed nbrs s"
      using round(3,4) that by (simp add: s Cons e)
    ultimately show ?thesis by (simp add: s Cons e)
  qed
qed

lemma bfs_reachable:
  assumes "\<forall>v. set (nbrs v) \<subseteq> {..<length nodes}" "i < length nodes"
  shows "\<exists>vis. bfs_loop (length nodes) nodes nbrs max_depth ([i], [(i, 0)], []) = (vis, [], bfs nodes nbrs (Some i) max_depth)"
    and "length nodes \<le> max_depth \<Longrightarrow> set (bfs nodes nbrs (Some i) max_depth) =
      (\<lambda>j. dn_hash (nodes ! j)) ` ((bfs_edges nbrs)\<^sup>* `` {i} - {i})"
proof -
  let ?s = "([i], [(i, 0)], []) :: bfs_state"
  have init: "bfs_ok nodes nbrs i ?s" "bfs_work nodes ?s \<le> length nodes" "bfs_closed nbrs ?s"
    using assms(2) by (auto simp: bfs_ok_def bfs_closed_def bfs_work_def)
  from bfs_loop_done [OF assms(1) init(1,2)] init(3) obtain vis found where
    loop: "bfs_loop (length nodes) nodes nbrs max_depth ?s = (vis, [], found)"
    and ok: "bfs_ok nodes nbrs i (vis, [], found)" and closed: "length nodes \<le> max_depth \<Longrightarrow> bfs_closed nbrs (vis, [], found)"
    by blast
  show "\<exists>vis. bfs_loop (length nodes) nodes nbrs max_depth ?s = (vis, [], bfs nodes nbrs (Some i) max_depth)"
    using loop by (simp add: bfs_def)
  assume "length nodes \<le> max_depth"
  note closed = closed [OF this]
  have "set vis = (bfs_edges nbrs)\<^sup>* `` {i}"
  proof
    show "set vis \<subseteq> (bfs_edges nbrs)\<^sup>* `` {i}" using ok by (auto simp: bfs_ok_def)
    have "j \<in> set vis" if "(i, j) \<in> (bfs_edges nbrs)\<^sup>*" for j
      using that
    proof (induction rule: rtrancl_induct)
      case base
      then show ?case using ok by (simp add: bfs_ok_def)
    next
      case (step j k)
      then show ?case using closed by (auto simp: bfs_closed_def bfs_edges_def)
    qed
    then show "(bfs_edges nbrs)\<^sup>* `` {i} \<subseteq> set vis" by auto
  qed
  with ok loop show "set (bfs nodes nbrs (Some i) max_depth) = (\<lambda>j. dn_hash (nodes ! j)) ` ((bfs_edges nbrs)\<^sup>* `` {i} - {i})"
    by (simp add: bfs_def bfs_ok_def)
qed

end
