(* ===== verification/Rinku_Dag_Properties.thy ===== *)
theory Rinku_Dag_Properties
  imports Rinku_Dag_Rebuild Rinku_Dag_Search Rinku_Machine
begin

text \<open>
  What the transaction DAG promises to its callers: its indices never go stale, capacity
  pruning never drops a tip, checkpoint pruning removes exactly the settled nodes,
  finalization and its rollback, and the ancestor search.
\<close>

section \<open>A concrete graph\<close>

text \<open>Node weights in a list and an edge list, for evaluating the model.\<close>

definition moved :: "nat \<Rightarrow> nat \<Rightarrow> nat \<Rightarrow> nat" where
  "moved l i x = (if x = l then i else x)"

definition list_graph :: "(DagNode list \<times> (nat \<times> nat) list) petgraph" where
  "list_graph =
     \<lparr>pg_new = ([], []),
      pg_nodes = fst,
      pg_add_node = (\<lambda>w g. ((fst g @ [w], snd g), length (fst g))),
      pg_update_node = (\<lambda>i f g. (if i < length (fst g) then (fst g)[i := f (fst g ! i)] else fst g, snd g)),
      pg_remove_node = (\<lambda>i g. (swap_remove i (fst g),
        map (\<lambda>e. (moved (length (fst g) - 1) i (fst e), moved (length (fst g) - 1) i (snd e)))
          (filter (\<lambda>e. fst e \<noteq> i \<and> snd e \<noteq> i) (snd g)))),
      pg_add_edge = (\<lambda>i j g. (fst g, snd g @ [(i, j)])),
      pg_clear_edges = (\<lambda>g. (fst g, [])),
      pg_incoming = (\<lambda>g j. map fst (filter (\<lambda>e. snd e = j \<and> fst e < length (fst g)) (snd g))),
      pg_outgoing = (\<lambda>g i. map snd (filter (\<lambda>e. fst e = i \<and> snd e < length (fst g)) (snd g)))\<rparr>"

lemma list_graph_laws [simp]: "petgraph_laws list_graph"
  by (auto simp: petgraph_laws_def list_graph_def)

definition sample_tx :: "string \<Rightarrow> u64 \<Rightarrow> string list \<Rightarrow> Transaction" where
  "sample_tx sender ts parents =
     \<lparr>tx_from = sender, tx_to = ''bob'', tx_amount = 1, tx_nonce = 0, tx_timestamp = ts, tx_parents = parents,
      tx_kind = None, tx_gas_limit = None, tx_gas_price = None, tx_data = None, tx_signature = None,
      tx_memo = None, tx_references = None\<rparr>"

definition sample_node :: "string \<Rightarrow> u64 \<Rightarrow> string list \<Rightarrow> bool \<Rightarrow> u64 option \<Rightarrow> DagNode" where
  "sample_node h ts parents fin cp =
     \<lparr>dn_hash = h, dn_tx = \<lparr>st_tx = sample_tx ''alice'' ts parents, st_hash = h, st_signature = []\<rparr>,
      dn_parents = parents, dn_children = [], dn_weight = Fin 1, dn_finalized = fin,
      dn_checkpoint_height = cp, dn_received_at_ms = None, dn_partition_epoch = None,
      dn_rolled_back = False, dn_fast_path_cert = None\<rparr>"

section \<open>The indices never go stale\<close>

inductive dag_step :: "'g petgraph \<Rightarrow> 'g Dag \<Rightarrow> 'g Dag \<Rightarrow> bool" for G where
  add: "dn_children node = [] \<Longrightarrow> add_node G now node d = Inr d' \<Longrightarrow> dag_step G d d'"
| add_stats: "dn_children node = [] \<Longrightarrow> add_node_with_stats G now node d = Inr (d', stats) \<Longrightarrow> dag_step G d d'"
| finalize: "mark_finalized G h c d = Inr d' \<Longrightarrow> dag_step G d d'"
| finalize_batch: "dag_step G d (fst (mark_finalized_batch G hs c d))"
| finalize_deferred: "mark_deferred_all G hs c d = Inr d1 \<Longrightarrow>
    dag_step G d (cleanup_sender_unfinalized_batch G hs d1)"
| rollback: "dag_step G d (fst (unmark_finalized_batch G hs d))"
| unfinal: "dag_step G d (unfinalize G h d)"
| prune: "iteration_order iter \<Longrightarrow> dag_step G d (fst (prune_finalized_before G iter k d))"
| remove: "dag_step G d (fst (dag_remove_node G h d))"
| branch: "dag_step G d (fst (prune_branch G h d))"
| remove_batch: "dag_step G d (fst (remove_nodes_batch G hs d))"
| evict: "dag_step G d (fst (evict_finalized_before G k d))"
| rebuild: "iteration_order iter \<Longrightarrow> dag_step G d (fst (rebuild_tips G iter d))"

lemma dag_new_inv: "petgraph_laws G \<Longrightarrow> dag_inv G (Dag_new G n)"
  by (auto simp: dag_inv_def dag_idx_def idx_ok_def dag_view_defs Dag_new_def get_node_def)

lemma dag_step_inv:
  assumes "petgraph_laws G" "dag_inv G d" "dag_step G d d'"
  shows "dag_inv G d'"
  using assms(3)
proof cases
  case (add node now)
  then show ?thesis using add_node_inv [OF assms(1,2)] by blast
next
  case (add_stats node now stats)
  then have "add_node G now node d = Inr d'" by (auto simp: add_node_with_stats_eq split: sum.splits)
  then show ?thesis using add_node_inv [OF assms(1,2)] add_stats by blast
next
  case (finalize h c)
  then show ?thesis using mark_finalized_inv [OF assms(1,2)] by blast
next
  case (finalize_deferred hs c d1)
  then show ?thesis using deferred_cleanup_inv(1) [OF assms(1,2)] by blast
next
  case (rebuild iter)
  then show ?thesis
    using rebuild_tips_inv [OF assms(1) _ dag_inv_views(1-4) [OF assms(2)] refl] by blast
next
  case (prune iter k)
  then show ?thesis using prune_finalized_before_inv(1) [OF assms(1) _ assms(2) refl] by blast
qed (use assms(1,2) in \<open>simp_all add: mark_finalized_batch_inv(1) unmark_finalized_batch_inv(1)
  unfinalize_inv dag_remove_node_keeps prune_branch_inv remove_nodes_batch_inv evict_finalized_before_inv\<close>)

interpretation dag: invariant_system
  "\<lambda>d. petgraph_laws G \<and> (\<exists>n. d = Dag_new G n)" "dag_step G" "\<lambda>d. petgraph_laws G \<and> dag_inv G d"
  for G
  by unfold_locales (auto simp: dag_new_inv intro: dag_step_inv)



section \<open>Queries\<close>

lemma petgraph_bounds:
  assumes "petgraph_laws G"
  shows "set (pg_incoming G g i) \<subseteq> {..<length (pg_nodes G g)}"
    "set (pg_outgoing G g i) \<subseteq> {..<length (pg_nodes G g)}"
  using assms unfolding petgraph_laws_def by (elim conjE, blast)+

lemma dag_nodes_card:
  assumes "dag_inv G d"
  shows "length (dag_nodes G d) = card {h. get_node G d h \<noteq> None}"
proof -
  note idx = dag_inv_views(1) [OF assms]
  have "{h. get_node G d h \<noteq> None} = dn_hash ` set (dag_nodes G d)"
    using get_node_map [of G d] idx by (auto simp: dag_idx_def node_map_None)
  then show ?thesis
    using distinct_card [OF dag_idx_distinct [OF idx]] by simp
qed

text \<open>
  The per-sender index answers exactly: whatever the iteration order of its hash
  set, \<open>get_unfinalized_for_sender\<close> lists the unfinalized nodes of that sender that are
  in the DAG and nothing else.
\<close>
theorem unfinalized_for_sender_exact:
  assumes "dag_inv G d" "iteration_order iter"
  shows "set (get_unfinalized_for_sender G iter d s) =
    {n. \<exists>h. get_node G d h = Some n \<and> \<not> dn_finalized n \<and> dn_sender n = s}"
proof (cases "hm_get (sender_unfinalized d) s")
  case None
  then have "hm_set (sender_unfinalized d) s = {}" by (simp add: hm_set_def)
  with None dag_inv_views(3) [OF assms(1)] show ?thesis
    by (auto simp: get_unfinalized_for_sender_def sender_view_def)
next
  case (Some hs)
  then have "h \<in> set hs \<longleftrightarrow> (\<exists>n. get_node G d h = Some n \<and> \<not> dn_finalized n \<and> dn_sender n = s)" for h
    using dag_inv_views(3) [OF assms(1)] unfolding sender_view_def hm_set_def
    by (metis unwrap_or.simps(2))
  with Some show ?thesis
    by (force simp: get_unfinalized_for_sender_def map_filter_def iteration_order_set [OF assms(2)])
qed

definition sample_dag :: "(DagNode list \<times> (nat \<times> nat) list) Dag" where
  "sample_dag = add_linked list_graph (sample_node ''b'' 2 [''a''] False None)
     (add_linked list_graph (sample_node ''a'' 1 [] False None) (Dag_new list_graph 8))"

lemma sample_dag_inv:
  "dag_inv list_graph sample_dag"
  "get_node list_graph sample_dag =
     add_map (sample_node ''b'' 2 [''a''] False None)
       (add_map (sample_node ''a'' 1 [] False None) (\<lambda>_. None))"
proof -
  let ?a = "sample_node ''a'' 1 [] False None"
  let ?b = "sample_node ''b'' 2 [''a''] False None"
  let ?d = "add_linked list_graph ?a (Dag_new list_graph 8)"
  have empty: "get_node list_graph (Dag_new list_graph 8) = (\<lambda>_. None)"
    by (simp add: get_node_def Dag_new_def fun_eq_iff)
  have kids: "dn_children ?a = []" "dn_children ?b = []" and hash: "dn_hash ?a = ''a''" "dn_hash ?b = ''b''"
    by (simp_all add: sample_node_def)
  note one = add_linked_inv [OF list_graph_laws dag_new_inv [OF list_graph_laws, of 8], of ?a]
  have inv1: "dag_inv list_graph ?d" and get1: "get_node list_graph ?d = add_map ?a (\<lambda>_. None)"
    using one empty kids by simp_all
  then have "get_node list_graph ?d ''b'' = None" by (simp add: add_map_def hash)
  note two = add_linked_inv [OF list_graph_laws inv1, of ?b]
  show "dag_inv list_graph sample_dag"
    "get_node list_graph sample_dag = add_map ?b (add_map ?a (\<lambda>_. None))"
    using two kids get1 by (simp_all add: sample_dag_def hash add_map_def)
qed

theorem unfinalized_for_sender_exact_witness:
  "sample_node ''b'' 2 [''a''] False None \<in> set (get_unfinalized_for_sender list_graph rev sample_dag ''alice'')"
proof -
  have "get_node list_graph sample_dag ''b'' = Some (sample_node ''b'' 2 [''a''] False None)"
    unfolding sample_dag_inv by (simp add: add_map_def sample_node_def)
  then show ?thesis
    unfolding unfinalized_for_sender_exact [OF sample_dag_inv(1) iteration_order_rev]
    by (auto simp: sample_node_def sample_tx_def)
qed

text \<open>
  C33: \<open>get_ancestors\<close> terminates for every depth bound: with the number of nodes as fuel its
  loop ends with an empty queue, and what it has collected then is the result. When the depth
  bound is at least the number of nodes, as \<open>usize::MAX\<close> is, the result consists of exactly the
  hashes of the nodes other than the start from which the start can be reached along the edges;
  for an unknown hash it is empty.
\<close>
theorem get_ancestors_reachable:
  assumes "petgraph_laws G" "dag_inv G d"
  shows "case hm_get (hash_to_index d) h of
      None \<Rightarrow> get_ancestors G d h max_depth = []
    | Some i \<Rightarrow>
        (\<exists>vis. bfs_loop (length (dag_nodes G d)) (dag_nodes G d) (pg_incoming G (dag_graph d)) max_depth ([i], [(i, 0)], [])
           = (vis, [], get_ancestors G d h max_depth))
        \<and> (length (dag_nodes G d) \<le> max_depth \<longrightarrow> set (get_ancestors G d h max_depth) =
             (\<lambda>j. dn_hash (dag_nodes G d ! j)) ` ((bfs_edges (pg_incoming G (dag_graph d)))\<^sup>* `` {i} - {i}))"
proof (cases "hm_get (hash_to_index d) h")
  case None
  then show ?thesis by (simp add: get_ancestors_def bfs_def)
next
  case (Some i)
  have i: "i < length (dag_nodes G d)"
    using dag_inv_views(1) [OF assms(2)] Some by (auto simp: dag_idx_def dest: idx_okD)
  have nbrs: "\<forall>v. set (pg_incoming G (dag_graph d) v) \<subseteq> {..<length (dag_nodes G d)}"
    using petgraph_bounds(1) [OF assms(1)] by blast
  show ?thesis using bfs_reachable [OF nbrs i, of max_depth] Some by (simp add: get_ancestors_def)
qed

theorem get_ancestors_reachable_witness:
  "\<exists>i. hm_get (hash_to_index sample_dag) ''b'' = Some i
     \<and> set (get_ancestors list_graph sample_dag ''b'' USIZE_MAX) =
         (\<lambda>j. dn_hash (dag_nodes list_graph sample_dag ! j)) `
           ((bfs_edges (pg_incoming list_graph (dag_graph sample_dag)))\<^sup>* `` {i} - {i})"
proof -
  have "{h. get_node list_graph sample_dag h \<noteq> None} = {''a'', ''b''}"
    unfolding sample_dag_inv by (auto simp: add_map_def real_parents_def sample_node_def)
  then have len: "length (dag_nodes list_graph sample_dag) = 2"
    using dag_nodes_card [OF sample_dag_inv(1)] by simp
  have "get_node list_graph sample_dag ''b'' \<noteq> None"
    unfolding sample_dag_inv by (simp add: add_map_def sample_node_def)
  then obtain i where i: "hm_get (hash_to_index sample_dag) ''b'' = Some i"
    by (auto simp: get_node_def split: option.splits)
  with get_ancestors_reachable [OF list_graph_laws sample_dag_inv(1), of "''b''" USIZE_MAX] len
  show ?thesis by (simp add: USIZE_MAX_def)
qed

section \<open>Finalization and rollback\<close>

text \<open>
  Finalizing a batch in two phases (mark each node with the sender index left stale,
  then clean the sender index in one pass) ends in the same nodes as
  \<open>mark_finalized_batch\<close>, with all indices consistent again.
\<close>
theorem deferred_finalization_equiv:
  assumes "petgraph_laws G" "dag_inv G d" "mark_deferred_all G hs c d = Inr d1"
  shows "dag_inv G (cleanup_sender_unfinalized_batch G hs d1)
    \<and> get_node G (cleanup_sender_unfinalized_batch G hs d1) = get_node G (fst (mark_finalized_batch G hs c d))"
  using deferred_cleanup_inv [OF assms] mark_finalized_batch_inv(2) [OF assms(1,2) refl] by simp

theorem deferred_finalization_equiv_witness:
  "\<exists>d1. mark_deferred_all list_graph [''a''] 5 sample_dag = Inr d1
     \<and> get_node list_graph (cleanup_sender_unfinalized_batch list_graph [''a''] d1)
       = get_node list_graph (fst (mark_finalized_batch list_graph [''a''] 5 sample_dag))"
proof -
  have "get_node list_graph sample_dag ''a'' \<noteq> None"
    unfolding sample_dag_inv by (simp add: add_map_def sample_node_def)
  then obtain d1 where "mark_deferred_all list_graph [''a''] 5 sample_dag = Inr d1"
    by (auto simp: mark_finalized_deferred_cleanup_def Let_def)
  with deferred_finalization_equiv [OF list_graph_laws sample_dag_inv(1)] show ?thesis by blast
qed

lemma clear_set_finalized:
  "\<not> dn_finalized n \<Longrightarrow> dn_checkpoint_height n = None \<Longrightarrow> clear_finalized (set_finalized c n) = n"
  by (simp add: clear_finalized_def set_finalized_def)

text \<open>
  Rolling a checkpoint back undoes it: finalizing nodes that were not final and then
  calling \<open>unmark_finalized_batch\<close> on the same hashes restores every node, and the
  indices are consistent in between and at the end.
\<close>
theorem finalize_rollback_roundtrip:
  assumes "petgraph_laws G" "dag_inv G d"
    and "\<forall>h \<in> set hs. \<forall>n. get_node G d h = Some n \<longrightarrow> \<not> dn_finalized n \<and> dn_checkpoint_height n = None"
  shows "get_node G (fst (unmark_finalized_batch G hs (fst (mark_finalized_batch G hs c d)))) = get_node G d
    \<and> dag_inv G (fst (unmark_finalized_batch G hs (fst (mark_finalized_batch G hs c d))))"
proof -
  let ?d = "fst (mark_finalized_batch G hs c d)"
  note mark = mark_finalized_batch_inv [OF assms(1,2) refl, of hs c]
  note unmark = unmark_finalized_batch_inv [OF assms(1) mark(1) refl, of hs]
  have "clear_if_finalized (set hs) (finalize_map (set hs) c (get_node G d)) h = get_node G d h" for h
  proof (cases "get_node G d h")
    case None
    then show ?thesis by (simp add: clear_if_finalized_def clear_map_def finalize_map_def)
  next
    case (Some n)
    then show ?thesis
      using assms(3) by (auto simp: clear_if_finalized_def clear_map_def finalize_map_def finalized_at_def
          clear_set_finalized)
  qed
  then show ?thesis using unmark mark(2) by (simp add: fun_eq_iff)
qed

theorem finalize_rollback_roundtrip_witness:
  "get_node list_graph (fst (unmark_finalized_batch list_graph [''b'']
      (fst (mark_finalized_batch list_graph [''b''] 3 sample_dag)))) = get_node list_graph sample_dag"
proof -
  have "\<forall>h \<in> set [''b'']. \<forall>n. get_node list_graph sample_dag h = Some n \<longrightarrow>
      \<not> dn_finalized n \<and> dn_checkpoint_height n = None"
    unfolding sample_dag_inv by (simp add: add_map_def sample_node_def)
  from finalize_rollback_roundtrip [OF list_graph_laws sample_dag_inv(1) this, of 3] show ?thesis by blast
qed

section \<open>Pruning\<close>

text \<open>
  C31: \<open>prune_finalized_before\<close> removes exactly the settled nodes: those finalized below
  the given height that are neither tips nor parents of an unfinalized transaction. Every
  other node keeps its transaction, parents and finalization, and the indices stay
  consistent.
\<close>
theorem prune_finalized_exact:
  assumes "petgraph_laws G" "iteration_order iter" "dag_inv G d"
    and "fst (prune_finalized_before G iter min_height d) = d'"
  shows "dag_inv G d' \<and> (get_node G d' h \<noteq> None \<longleftrightarrow> get_node G d h \<noteq> None \<and> \<not> prunable min_height G d h)
    \<and> (\<forall>n'. get_node G d' h = Some n' \<longrightarrow> (\<exists>n. get_node G d h = Some n \<and> status n = status n'))"
proof -
  note pr = prune_finalized_before_inv [OF assms(1-3) assms(4) [symmetric]]
  have "map_option status (get_node G d' h) =
      (if prunable min_height G d h then None else map_option status (get_node G d h))"
    using fun_cong [OF pr(2), of h] by (simp add: status_map_def restrict_map_def)
  then show ?thesis using pr(1) by (cases "get_node G d' h"; cases "get_node G d h") (auto split: if_splits)
qed

theorem prune_finalized_exact_witness:
  "get_node list_graph (fst (prune_finalized_before list_graph rev 9
      (fst (mark_finalized_batch list_graph [''a'', ''b''] 3 sample_dag)))) ''b'' \<noteq> None"
proof -
  let ?d = "fst (mark_finalized_batch list_graph [''a'', ''b''] 3 sample_dag)"
  note m = mark_finalized_batch_inv [OF list_graph_laws sample_dag_inv(1) refl, of "[''a'', ''b'']" 3]
  have b: "get_node list_graph ?d ''b'' = Some (set_finalized 3 (sample_node ''b'' 2 [''a''] False None))"
    unfolding m(2) finalize_map_def sample_dag_inv(2) by (simp add: add_map_def sample_node_def)
  then have "''b'' \<in> set (dag_tips ?d)"
    using dag_inv_views(5) [OF m(1)] by (simp add: tips_view_def sample_node_def)
  then have "\<not> prunable 9 list_graph ?d ''b''" by (simp add: prunable_def)
  with prune_finalized_exact [OF list_graph_laws iteration_order_rev m(1) refl, of 9 "''b''"] b
  show ?thesis by simp
qed

subsection \<open>Capacity\<close>

lemma prune_candidates_mem:
  "i \<in> set (prune_candidates ns P k) \<Longrightarrow> i < length ns \<and> P (ns ! i)"
  by (auto simp: prune_candidates_def dest!: in_set_takeD simp: set_zip_upt)

lemma distinct_prune_candidates: "distinct (prune_candidates ns P k)"
proof -
  let ?zs = "filter (\<lambda>(idx, node). P node) (zip [0..<length ns] ns)"
  let ?xs = "map (\<lambda>(idx, node). (idx, dn_timestamp node)) ?zs"
  have "map fst ?xs = map fst ?zs" by (auto simp: case_prod_beta)
  moreover have "distinct (map fst ?zs)" by (rule distinct_map_filter) simp
  ultimately have "distinct (map fst ?xs)" by metis
  moreover have "mset (map fst (sort_key snd ?xs)) = mset (map fst ?xs)" unfolding mset_map mset_sort ..
  ultimately have "distinct (map fst (sort_key snd ?xs))" by (metis mset_eq_imp_distinct_iff)
  then show ?thesis by (simp add: prune_candidates_def)
qed

definition severe_overload :: "'g petgraph \<Rightarrow> 'g Dag \<Rightarrow> bool" where
  "severe_overload G d \<longleftrightarrow> node_count G d > dag_max_nodes d * 2"

definition prune_victim :: "'g petgraph \<Rightarrow> u64 \<Rightarrow> 'g Dag \<Rightarrow> DagNode \<Rightarrow> bool" where
  "prune_victim G now_ms d n \<longleftrightarrow>
     dn_hash n \<notin> set (dag_tips d)
     \<and> (dn_finalized n \<or> severe_overload G d
          \<and> saturating_sub now_ms (dn_timestamp n) > UNFINALIZED_PRUNE_AGE_MS)"

lemma prune_selection_mem:
  "i \<in> set (prune_selection G now d) \<Longrightarrow>
     i < length (dag_nodes G d) \<and> prune_victim G now d (dag_nodes G d ! i)"
  by (auto simp: prune_selection_def Let_def prune_victim_def severe_overload_def node_count_def
      dest!: prune_candidates_mem split: if_splits)

lemma distinct_prune_selection: "distinct (prune_selection G now d)"
  by (auto simp: prune_selection_def Let_def distinct_prune_candidates dest!: prune_candidates_mem)

text \<open>
  A node the removal loop takes out is one of those selected: an index whose node was
  moved by an earlier removal points past the end and removes nothing.
\<close>

lemma prune_fold_keeps:
  assumes "petgraph_laws G"
  shows "distinct is \<Longrightarrow> x \<in> set (dag_nodes G d) \<Longrightarrow>
    (\<forall>i \<in> set is. i < length (dag_nodes G d) \<longrightarrow> dag_nodes G d ! i \<noteq> x) \<Longrightarrow>
    x \<in> set (dag_nodes G (fold (prune_step G) is d))"
proof (induction "is" arbitrary: d)
  case (Cons i "is")
  let ?ns = "dag_nodes G d"
  have nodes: "dag_nodes G (prune_step G i d) = swap_remove i ?ns" by (rule prune_step_nodes [OF assms])
  have "x \<in> set (swap_remove i ?ns)"
  proof (cases "i < length ?ns")
    case True
    from mset_swap_remove [OF True] have "set ?ns = insert (?ns ! i) (set (swap_remove i ?ns))"
      by (metis set_mset_add_mset_insert set_mset_mset)
    with True Cons.prems show ?thesis by auto
  qed (use Cons.prems in \<open>simp add: swap_remove_def\<close>)
  moreover have "\<forall>j \<in> set is. j < length (swap_remove i ?ns) \<longrightarrow> swap_remove i ?ns ! j \<noteq> x"
  proof (intro ballI impI)
    fix j assume j: "j \<in> set is" "j < length (swap_remove i ?ns)"
    then have "j \<noteq> i" using Cons.prems(1) by auto
    then show "swap_remove i ?ns ! j \<noteq> x"
      using j Cons.prems(3) by (cases "i < length ?ns") (auto simp: nth_swap_remove, auto simp: swap_remove_def)
  qed
  ultimately show ?case using Cons.IH [of "prune_step G i d"] Cons.prems(1) by (simp add: nodes)
qed simp

lemma prune_oldest_keeps_node:
  assumes "petgraph_laws G" "dag_inv G d" "get_node G d h = Some n" "\<not> prune_victim G now d n"
  shows "get_node G (prune_oldest G now d) h = Some n"
proof -
  note inv = dag_inv_views [OF assms(2)]
  let ?is = "rev (prune_selection G now d)"
  let ?d = "fold (prune_step G) ?is d"
  have n: "n \<in> set (dag_nodes G d)" "dn_hash n = h"
    using assms(3) inv(1) by (auto simp: get_node_Some_index)
  have "\<forall>i \<in> set ?is. i < length (dag_nodes G d) \<longrightarrow> dag_nodes G d ! i \<noteq> n"
    using assms(4) by (auto dest: prune_selection_mem)
  then have "n \<in> set (dag_nodes G ?d)"
    by (intro prune_fold_keeps [OF assms(1)]) (simp_all add: distinct_prune_selection n)
  moreover have "tips_view d (node_map (dag_nodes G d))"
    using inv(1,5) get_node_map [of G d] by (simp add: tips_view_def dag_idx_def)
  note prune_fold [OF assms(1) dag_idx_distinct [OF inv(1)] this, of ?is]
  ultimately show ?thesis
    using rebuild_index_get [of G ?d] n(2) by (simp add: prune_oldest_def node_map_iff)
qed

text \<open>
  An accepted node is the linked one, up to a pruning that keeps everything but its victims,
  and the new node, a tip, is none.
\<close>

lemma add_node_kept:
  assumes "petgraph_laws G" "dag_inv G d" "dn_children node = []" "get_node G d (dn_hash node) = None"
    and "add_node G now node d = Inr d'"
  shows "get_node G (add_linked G node d) h = Some n \<Longrightarrow> \<not> prune_victim G now (add_linked G node d) n \<Longrightarrow> get_node G d' h = Some n"
    and "get_node G d' (dn_hash node) = Some node"
proof -
  let ?l = "add_linked G node d"
  note l = add_linked_inv [OF assms(1,2,4,3)]
  have "\<not> hm_contains (hash_to_index d) (dn_hash node)"
    using assms(4) get_node_None_index [OF dag_inv_views(1) [OF assms(2)]] by (simp add: hm_contains_def)
  then have d': "d' = ?l \<or> d' = prune_oldest G now ?l"
    using assms(5) by (auto simp: add_node_eq Let_def split: if_splits)
  show keep: "get_node G d' h = Some n" if "get_node G ?l h = Some n" "\<not> prune_victim G now ?l n" for h n
    using d' prune_oldest_keeps_node [OF assms(1) l(1) that] that(1) by auto
  have new: "get_node G ?l (dn_hash node) = Some node" by (simp add: l(2) add_map_def)
  then have "dn_hash node \<in> set (dag_tips ?l)"
    using dag_inv_views(5) [OF l(1)] assms(3) by (auto simp: tips_view_def)
  then show "get_node G d' (dn_hash node) = Some node"
    using new by (intro keep) (simp_all add: prune_victim_def)
qed

text \<open>
  A transaction that \<open>add_node\<close> accepts is in the DAG when it returns, with its
  parents linked to it, even when adding it triggered capacity pruning; every tip and, unless
  the DAG is over twice its capacity, every unfinalized transaction is still there too.
\<close>
theorem add_node_accepted:
  assumes "petgraph_laws G" "dag_inv G d" "dn_children node = []" "get_node G d (dn_hash node) = None"
    and "add_node G now node d = Inr d'"
  shows "get_node G d' (dn_hash node) = Some node
    \<and> (\<forall>h n. get_node G d h = Some n \<longrightarrow> \<not> dn_finalized n \<longrightarrow> node_count G (add_linked G node d) \<le> dag_max_nodes d * 2
         \<longrightarrow> get_node G d' h = Some (if h \<in> real_parents (dn_hash node) (dn_parents node)
                                      then add_child (dn_hash node) n else n))
    \<and> dag_inv G d'"
proof -
  let ?l = "add_linked G node d"
  note l = add_linked_inv [OF assms(1,2,4,3)]
  have "get_node G d' (dn_hash node) = Some node" by (rule add_node_kept(2) [OF assms])
  moreover have "get_node G d' h = Some (if h \<in> real_parents (dn_hash node) (dn_parents node)
      then add_child (dn_hash node) n else n)"
    if "get_node G d h = Some n" "\<not> dn_finalized n" "node_count G ?l \<le> dag_max_nodes d * 2" for h n
    by (rule add_node_kept(1) [OF assms]) (use that assms(4) l in \<open>auto simp: add_map_def prune_victim_def severe_overload_def\<close>)
  moreover have "dag_inv G d'" using add_node_inv [OF assms(1-3,5)] by blast
  ultimately show ?thesis by blast
qed

theorem add_node_accepted_witness:
  "\<exists>d'. add_node list_graph 0 (sample_node ''c'' 3 [''b''] False None) sample_dag = Inr d'
     \<and> get_node list_graph d' ''c'' = Some (sample_node ''c'' 3 [''b''] False None)"
proof -
  let ?c = "sample_node ''c'' 3 [''b''] False None"
  have absent: "get_node list_graph sample_dag (dn_hash ?c) = None"
    unfolding sample_dag_inv by (simp add: add_map_def real_parents_def sample_node_def)
  have "\<not> (\<exists>p \<in> set (dn_parents ?c). p \<noteq> [] \<and> p = dn_hash ?c)" by (simp add: sample_node_def)
  then obtain d' where d': "add_node list_graph 0 ?c sample_dag = Inr d'"
    unfolding add_node_eq by (cases "hm_contains (hash_to_index sample_dag) (dn_hash ?c)") auto
  have "dn_children ?c = []" "dn_hash ?c = ''c''" by (simp_all add: sample_node_def)
  with add_node_accepted [OF list_graph_laws sample_dag_inv(1) _ absent d'] d' show ?thesis by simp
qed

text \<open>
  After \<open>rebuild_tips\<close> the links are those the transactions declare, whatever order
  a snapshot loaded them in: a node's children are exactly the nodes that name it as a parent,
  and the tips are exactly the nodes nobody names.
\<close>
theorem rebuild_tips_links:
  assumes "petgraph_laws G" "iteration_order iter" "dag_inv G d" "fst (rebuild_tips G iter d) = d'"
  shows "(\<forall>p n. get_node G d' p = Some n \<longrightarrow>
        set (dn_children n) = {c. child_of (get_node G d') p c})
    \<and> set (dag_tips d') = {p. get_node G d' p \<noteq> None \<and> (\<forall>c. \<not> child_of (get_node G d') p c)}
    \<and> status_map (get_node G d') = status_map (get_node G d)"
proof -
  have d': "d' = fst (rebuild_tips G iter d)" using assms(4) by simp
  note rb = rebuild_tips_inv [OF assms(1,2) dag_inv_views(1-4) [OF assms(3)] d']
  then have kids: "set (dn_children n) = {c. child_of (get_node G d') p c}"
    if "get_node G d' p = Some n" for p n using that by blast
  have "p \<in> set (dag_tips d') \<longleftrightarrow> get_node G d' p \<noteq> None \<and> (\<forall>c. \<not> child_of (get_node G d') p c)" for p
  proof -
    have "p \<in> set (dag_tips d') \<longleftrightarrow> (\<exists>n. get_node G d' p = Some n \<and> dn_children n = [])"
      using rb dag_inv_views(5) by (auto simp: tips_view_def)
    also have "\<dots> \<longleftrightarrow> get_node G d' p \<noteq> None \<and> (\<forall>c. \<not> child_of (get_node G d') p c)"
      using kids [of p] by (cases "get_node G d' p") (auto simp: set_empty [symmetric] simp del: set_empty)
    finally show ?thesis .
  qed
  then show ?thesis using rb by blast
qed

theorem rebuild_tips_links_witness:
  "set (dag_tips (fst (rebuild_tips list_graph rev sample_dag))) =
     {p. get_node list_graph (fst (rebuild_tips list_graph rev sample_dag)) p \<noteq> None
         \<and> (\<forall>c. \<not> child_of (get_node list_graph (fst (rebuild_tips list_graph rev sample_dag))) p c)}"
  using rebuild_tips_links [OF list_graph_laws iteration_order_rev sample_dag_inv(1) refl] by blast

lemma prune_candidates_three:
  assumes "P x" "\<not> P t" "P z" "dn_timestamp z < dn_timestamp x"
  shows "prune_candidates [x, t, z] P 2 = [2, 0]"
proof -
  have "zip [0..<length [x, t, z]] [x, t, z] = [(0, x), (1, t), (2, z)]"
    by (simp add: upt_conv_Cons)
  then show ?thesis using assms by (simp add: prune_candidates_def)
qed

definition overfull_dag :: "(DagNode list \<times> (nat \<times> nat) list) Dag" where
  "overfull_dag = rebuild_index list_graph
     ((Dag_new list_graph 2)\<lparr>dag_graph :=
        ([(sample_node ''x'' 5 [] True (Some 1))\<lparr>dn_children := [''t'']\<rparr>,
          sample_node ''t'' 9 [''x'', ''o''] False None,
          (sample_node ''o'' 1 [] True (Some 1))\<lparr>dn_children := [''t'']\<rparr>], [(0, 1), (2, 1)]),
        dag_tips := [''t'']\<rparr>)"

text \<open>
  \<open>prune_oldest\<close> selects the nodes to drop by index, oldest first, but removes them
  one by one with \<open>remove_node\<close>, which moves the last node into the hole. Here the
  oldest node is the last: removing the other one moves it, its index no longer exists,
  and it survives while the newer node is gone.
\<close>
theorem prune_oldest_misses_moved_node:
  "dag_inv list_graph overfull_dag \<and> prune_selection list_graph 0 overfull_dag = [2, 0]
   \<and> map dn_hash (dag_nodes list_graph (prune_oldest list_graph 0 overfull_dag)) = [''o'', ''t'']"
proof -
  let ?x = "(sample_node ''x'' 5 [] True (Some 1))\<lparr>dn_children := [''t'']\<rparr>"
  let ?t = "sample_node ''t'' 9 [''x'', ''o''] False None"
  let ?o = "(sample_node ''o'' 1 [] True (Some 1))\<lparr>dn_children := [''t'']\<rparr>"
  have nodes: "dag_nodes list_graph overfull_dag = [?x, ?t, ?o]"
    and tips: "dag_tips overfull_dag = [''t'']" and cap: "dag_max_nodes overfull_dag = 2"
    by (simp_all add: overfull_dag_def list_graph_def Dag_new_def)
  have "dag_inv list_graph overfull_dag"
    unfolding overfull_dag_def
    by (rule rebuild_index_inv)
       (auto simp: list_graph_def tips_view_def node_map_def sample_node_def)
  moreover have sel: "prune_selection list_graph 0 overfull_dag = [2, 0]"
  proof -
    let ?P = "\<lambda>node. dn_finalized node \<and> dn_hash node \<notin> set [''t'']"
    have "?P ?x" "\<not> ?P ?t" "?P ?o" "dn_timestamp ?o < dn_timestamp ?x"
      by (simp_all add: sample_node_def sample_tx_def)
    then have cand: "prune_candidates [?x, ?t, ?o] ?P 2 = [2, 0]" by (rule prune_candidates_three)
    have count: "length [?x, ?t, ?o] - 2 * 3 div 4 = 2" by simp
    show ?thesis
      unfolding prune_selection_def nodes tips cap Let_def count cand by simp
  qed
  moreover have "map dn_hash (dag_nodes list_graph (prune_oldest list_graph 0 overfull_dag)) = [''o'', ''t'']"
    unfolding prune_oldest_def sel rebuild_index_fields
    by (simp add: prune_step_nodes nodes swap_remove_def) (simp add: sample_node_def)
  ultimately show ?thesis by blast
qed

end
