(* ===== verification/Rinku_Sparse_Trie.thy ===== *)
theory Rinku_Sparse_Trie
  imports Rinku_Crypto Rinku_Collections
begin

text \<open>
  \<open>rinku-node/src/sparse_merkle_trie.rs\<close>: the sparse Merkle trie that commits to the
  account state. Nodes live in hash maps under their hash (those not yet written, those
  cached) and behind them in the database, which is an argument: a function from hashes to
  a read error or an optional node. A recursion of the code over the depth is a recursion
  over the remaining height \<open>k\<close>, where the depth is \<open>TREE_DEPTH - k\<close>.
\<close>

unbundle bit_operations_syntax

section \<open>Hashes and paths\<close>

definition TREE_DEPTH :: nat where "TREE_DEPTH = 256"
definition EMPTY_HASH :: bytes where "EMPTY_HASH = replicate 32 0"

definition hash_bytes :: "crypto_env \<Rightarrow> bytes \<Rightarrow> bytes" where
  "hash_bytes env data = sha256 env data"

definition hash_pair :: "crypto_env \<Rightarrow> bytes \<Rightarrow> bytes \<Rightarrow> bytes" where
  "hash_pair env left right = sha256 env (left @ right)"

definition key_to_path :: "bytes \<Rightarrow> bool list" where
  "key_to_path key = concat (map (\<lambda>b. map (\<lambda>i. drop_bit i b AND 1 = 1) (rev [0 ..< 8])) key)"

text \<open>Filled from the last entry backwards.\<close>

definition compute_default_hashes :: "crypto_env \<Rightarrow> bytes list" where
  "compute_default_hashes env =
     ((\<lambda>ds. hash_pair env (hd ds) (hd ds) # ds) ^^ TREE_DEPTH) [EMPTY_HASH]"

section \<open>Nodes and proofs\<close>

record TrieNode =
  tn_left :: "bytes option"
  tn_right :: "bytes option"
  tn_value :: "bytes option"

definition TrieNode_empty :: TrieNode where
  "TrieNode_empty = \<lparr>tn_left = None, tn_right = None, tn_value = None\<rparr>"

definition TrieNode_leaf :: "bytes \<Rightarrow> TrieNode" where
  "TrieNode_leaf value = \<lparr>tn_left = None, tn_right = None, tn_value = Some value\<rparr>"

record SparseProof =
  sp_key :: bytes
  sp_value :: "bytes option"
  sp_siblings :: "bytes list"
  sp_root :: bytes

definition leaf_hash_of :: "crypto_env \<Rightarrow> bytes option \<Rightarrow> bytes" where
  "leaf_hash_of env v = (case v of Some d \<Rightarrow> hash_bytes env d | None \<Rightarrow> EMPTY_HASH)"

definition sparse_verify :: "crypto_env \<Rightarrow> SparseProof \<Rightarrow> bool" where
  "sparse_verify env p =
     (let default_hashes = compute_default_hashes env;
          path = key_to_path (sp_key p);
          computed = foldr (\<lambda>(i, go_right) current_hash.
            let sibling = (if i < length (sp_siblings p) then sp_siblings p ! i else default_hashes ! (i + 1))
            in if go_right then hash_pair env sibling current_hash else hash_pair env current_hash sibling)
            (enumerate 0 path) (leaf_hash_of env (sp_value p))
      in computed = sp_root p)"

definition encoded_size :: "SparseProof \<Rightarrow> nat" where
  "encoded_size p =
     32 + (case sp_value p of Some v \<Rightarrow> length v | None \<Rightarrow> 0) + length (sp_siblings p) * 32 + 32"

record SparseMultiProof =
  smp_keys :: "bytes list"
  smp_values :: "bytes option list"
  smp_helper_nodes :: "(bytes \<times> nat) list"
  smp_root :: bytes

text \<open>
  The result is the hash and the number of helper nodes used so far; \<open>None\<close> is a panic
  of an index out of bounds (fewer values than keys).
\<close>

primrec verify_recursive ::
  "crypto_env \<Rightarrow> (bytes \<times> nat) list \<Rightarrow> bool list list \<Rightarrow> bytes list \<Rightarrow> nat \<Rightarrow> nat list \<Rightarrow> nat \<Rightarrow> (bytes \<times> nat) option" where
  "verify_recursive env helper_nodes paths leaf_hashes 0 key_indices helper_idx =
     (case key_indices of
        [] \<Rightarrow> None
      | idx # _ \<Rightarrow> if idx < length leaf_hashes then Some (leaf_hashes ! idx, helper_idx) else None)"
| "verify_recursive env helper_nodes paths leaf_hashes (Suc k) key_indices helper_idx =
     (let depth = TREE_DEPTH - Suc k;
          right_keys = filter (\<lambda>idx. paths ! idx ! depth) key_indices;
          left_keys = filter (\<lambda>idx. \<not> paths ! idx ! depth) key_indices
      in if left_keys = [] then
           (if helper_idx < length helper_nodes \<and> snd (helper_nodes ! helper_idx) = depth
            then map_option (\<lambda>(right_hash, i). (hash_pair env (fst (helper_nodes ! helper_idx)) right_hash, i))
                   (verify_recursive env helper_nodes paths leaf_hashes k right_keys (helper_idx + 1))
            else Some (EMPTY_HASH, helper_idx))
         else if right_keys = [] then
           (if helper_idx < length helper_nodes \<and> snd (helper_nodes ! helper_idx) = depth
            then map_option (\<lambda>(left_hash, i). (hash_pair env left_hash (fst (helper_nodes ! helper_idx)), i))
                   (verify_recursive env helper_nodes paths leaf_hashes k left_keys (helper_idx + 1))
            else Some (EMPTY_HASH, helper_idx))
         else
           (case verify_recursive env helper_nodes paths leaf_hashes k left_keys helper_idx of
              None \<Rightarrow> None
            | Some (left_hash, i) \<Rightarrow>
                map_option (\<lambda>(right_hash, j). (hash_pair env left_hash right_hash, j))
                  (verify_recursive env helper_nodes paths leaf_hashes k right_keys i)))"

definition multi_verify :: "crypto_env \<Rightarrow> SparseMultiProof \<Rightarrow> bool option" where
  "multi_verify env p =
     (if smp_keys p = [] then Some False
      else map_option (\<lambda>(computed_root, helper_idx).
             helper_idx = length (smp_helper_nodes p) \<and> computed_root = smp_root p)
           (verify_recursive env (smp_helper_nodes p) (map key_to_path (smp_keys p))
              (map (leaf_hash_of env) (smp_values p)) TREE_DEPTH [0 ..< length (smp_keys p)] 0))"

section \<open>The trie\<close>

type_synonym trie_storage = "(bytes \<Rightarrow> string + TrieNode option) option"

record SparseMerkleTrie =
  smt_root_hash :: bytes
  smt_cache :: "(bytes, TrieNode) hash_map"
  smt_dirty_nodes :: "(bytes, TrieNode) hash_map"
  smt_default_hashes :: "bytes list"

definition SparseMerkleTrie_new :: "crypto_env \<Rightarrow> SparseMerkleTrie" where
  "SparseMerkleTrie_new env =
     (let default_hashes = compute_default_hashes env
      in \<lparr>smt_root_hash = default_hashes ! 0, smt_cache = [], smt_dirty_nodes = [],
          smt_default_hashes = default_hashes\<rparr>)"

definition with_root :: "crypto_env \<Rightarrow> bytes \<Rightarrow> SparseMerkleTrie" where
  "with_root env root_hash =
     \<lparr>smt_root_hash = root_hash, smt_cache = [], smt_dirty_nodes = [],
      smt_default_hashes = compute_default_hashes env\<rparr>"

definition smt_get_node :: "SparseMerkleTrie \<Rightarrow> trie_storage \<Rightarrow> bytes \<Rightarrow> string + TrieNode option" where
  "smt_get_node t storage hash =
     (case hm_get (smt_dirty_nodes t) hash of
        Some node \<Rightarrow> Inr (Some node)
      | None \<Rightarrow>
          (case hm_get (smt_cache t) hash of
             Some node \<Rightarrow> Inr (Some node)
           | None \<Rightarrow>
               (case storage of
                  Some store \<Rightarrow> store hash
                | None \<Rightarrow> Inr None)))"

text \<open>\<open>node.left.unwrap_or(default)\<close> and the same on the right.\<close>

definition children :: "bytes list \<Rightarrow> nat \<Rightarrow> TrieNode \<Rightarrow> bytes \<times> bytes" where
  "children defaults depth n =
     (unwrap_or (tn_left n) (defaults ! (depth + 1)), unwrap_or (tn_right n) (defaults ! (depth + 1)))"

definition inner_node :: "bytes \<Rightarrow> bytes \<Rightarrow> TrieNode" where
  "inner_node left right = \<lparr>tn_left = Some left, tn_right = Some right, tn_value = None\<rparr>"

fun get_walk :: "SparseMerkleTrie \<Rightarrow> trie_storage \<Rightarrow> nat \<Rightarrow> bool list \<Rightarrow> bytes \<Rightarrow> string + bytes option" where
  "get_walk t storage depth [] current_hash =
     (if current_hash = smt_default_hashes t ! TREE_DEPTH then Inr None
      else case smt_get_node t storage current_hash of
             Inl e \<Rightarrow> Inl e
           | Inr node \<Rightarrow> Inr (Option.bind node tn_value))"
| "get_walk t storage depth (go_right # path) current_hash =
     (if current_hash = smt_default_hashes t ! depth then Inr None
      else case smt_get_node t storage current_hash of
             Inl e \<Rightarrow> Inl e
           | Inr None \<Rightarrow> Inr None
           | Inr (Some n) \<Rightarrow>
               let (left, right) = children (smt_default_hashes t) depth n
               in get_walk t storage (depth + 1) path (if go_right then right else left))"

definition smt_get :: "SparseMerkleTrie \<Rightarrow> trie_storage \<Rightarrow> bytes \<Rightarrow> string + bytes option" where
  "smt_get t storage key = get_walk t storage 0 (key_to_path key) (smt_root_hash t)"

text \<open>
  \<open>set_recursive\<close> and \<open>delete_recursive\<close> insert into \<open>dirty_nodes\<close> on the way
  back up: an error on the way down leaves the trie as it was.
\<close>

fun set_recursive ::
  "crypto_env \<Rightarrow> trie_storage \<Rightarrow> nat \<Rightarrow> bool list \<Rightarrow> bytes \<Rightarrow> bytes \<Rightarrow> bytes option \<Rightarrow> SparseMerkleTrie
   \<Rightarrow> string + SparseMerkleTrie \<times> bytes" where
  "set_recursive env storage depth [] current_hash leaf_hash value t =
     Inr (t\<lparr>smt_dirty_nodes := hm_insert leaf_hash (TrieNode_leaf (unwrap_or value [])) (smt_dirty_nodes t)\<rparr>, leaf_hash)"
| "set_recursive env storage depth (go_right # path) current_hash leaf_hash value t =
     (case (if current_hash = smt_default_hashes t ! depth
            then Inr (smt_default_hashes t ! (depth + 1), smt_default_hashes t ! (depth + 1))
            else case smt_get_node t storage current_hash of
                   Inl e \<Rightarrow> Inl e
                 | Inr node \<Rightarrow> Inr (children (smt_default_hashes t) depth (unwrap_or node TrieNode_empty))) of
        Inl e \<Rightarrow> Inl e
      | Inr (left, right) \<Rightarrow>
          (case set_recursive env storage (depth + 1) path (if go_right then right else left) leaf_hash value t of
             Inl e \<Rightarrow> Inl e
           | Inr (t, new_child) \<Rightarrow>
               let (new_left, new_right) = (if go_right then (left, new_child) else (new_child, right));
                   new_hash = hash_pair env new_left new_right
               in Inr (t\<lparr>smt_dirty_nodes := hm_insert new_hash (inner_node new_left new_right) (smt_dirty_nodes t)\<rparr>, new_hash)))"

definition smt_set ::
  "crypto_env \<Rightarrow> trie_storage \<Rightarrow> bytes \<Rightarrow> bytes \<Rightarrow> SparseMerkleTrie \<Rightarrow> SparseMerkleTrie \<times> (string + bytes)" where
  "smt_set env storage key value t =
     (case set_recursive env storage 0 (key_to_path key) (smt_root_hash t) (hash_bytes env value) (Some value) t of
        Inl e \<Rightarrow> (t, Inl e)
      | Inr (t, new_root) \<Rightarrow> (t\<lparr>smt_root_hash := new_root\<rparr>, Inr new_root))"

fun batch_set ::
  "crypto_env \<Rightarrow> trie_storage \<Rightarrow> (bytes \<times> bytes) list \<Rightarrow> SparseMerkleTrie \<Rightarrow> SparseMerkleTrie \<times> (string + bytes)" where
  "batch_set env storage [] t = (t, Inr (smt_root_hash t))"
| "batch_set env storage ((key, value) # entries) t =
     (case smt_set env storage key value t of
        (t, Inl e) \<Rightarrow> (t, Inl e)
      | (t, Inr _) \<Rightarrow> batch_set env storage entries t)"

definition fork :: "SparseMerkleTrie \<Rightarrow> SparseMerkleTrie" where
  "fork t = t\<lparr>smt_cache := fold (\<lambda>(hash, node). hm_insert hash node) (smt_dirty_nodes t) (smt_cache t),
              smt_dirty_nodes := []\<rparr>"

fun delete_recursive ::
  "crypto_env \<Rightarrow> trie_storage \<Rightarrow> nat \<Rightarrow> bool list \<Rightarrow> bytes \<Rightarrow> SparseMerkleTrie
   \<Rightarrow> string + SparseMerkleTrie \<times> bytes" where
  "delete_recursive env storage depth [] current_hash t = Inr (t, smt_default_hashes t ! depth)"
| "delete_recursive env storage depth (go_right # path) current_hash t =
     (if current_hash = smt_default_hashes t ! depth then Inr (t, smt_default_hashes t ! depth)
      else case smt_get_node t storage current_hash of
             Inl e \<Rightarrow> Inl e
           | Inr node \<Rightarrow>
               (let (left, right) = children (smt_default_hashes t) depth (unwrap_or node TrieNode_empty)
                in case delete_recursive env storage (depth + 1) path (if go_right then right else left) t of
                     Inl e \<Rightarrow> Inl e
                   | Inr (t, new_child) \<Rightarrow>
                       (let (new_left, new_right) = (if go_right then (left, new_child) else (new_child, right))
                        in if new_left = smt_default_hashes t ! (depth + 1) \<and> new_right = smt_default_hashes t ! (depth + 1)
                           then Inr (t, smt_default_hashes t ! depth)
                           else let new_hash = hash_pair env new_left new_right
                                in Inr (t\<lparr>smt_dirty_nodes := hm_insert new_hash (inner_node new_left new_right)
                                          (smt_dirty_nodes t)\<rparr>, new_hash))))"

definition smt_delete ::
  "crypto_env \<Rightarrow> trie_storage \<Rightarrow> bytes \<Rightarrow> SparseMerkleTrie \<Rightarrow> SparseMerkleTrie \<times> (string + bytes)" where
  "smt_delete env storage key t =
     (case delete_recursive env storage 0 (key_to_path key) (smt_root_hash t) t of
        Inl e \<Rightarrow> (t, Inl e)
      | Inr (t, new_root) \<Rightarrow> (t\<lparr>smt_root_hash := new_root\<rparr>, Inr new_root))"

section \<open>Proving\<close>

text \<open>The loop of \<open>prove\<close>: the siblings from here down and the hash the walk ends at.\<close>

fun prove_walk :: "SparseMerkleTrie \<Rightarrow> trie_storage \<Rightarrow> nat \<Rightarrow> bool list \<Rightarrow> bytes \<Rightarrow> string + bytes list \<times> bytes" where
  "prove_walk t storage depth [] current_hash = Inr ([], current_hash)"
| "prove_walk t storage depth (go_right # path) current_hash =
     (let rest = map (\<lambda>remaining. smt_default_hashes t ! (remaining + 1)) [depth ..< TREE_DEPTH]
      in if current_hash = smt_default_hashes t ! depth then Inr (rest, current_hash)
         else case smt_get_node t storage current_hash of
                Inl e \<Rightarrow> Inl e
              | Inr None \<Rightarrow> Inr (rest, current_hash)
              | Inr (Some n) \<Rightarrow>
                  (let (left, right) = children (smt_default_hashes t) depth n
                   in case prove_walk t storage (depth + 1) path (if go_right then right else left) of
                        Inl e \<Rightarrow> Inl e
                      | Inr (siblings, h) \<Rightarrow> Inr ((if go_right then left else right) # siblings, h)))"

definition smt_prove :: "SparseMerkleTrie \<Rightarrow> trie_storage \<Rightarrow> bytes \<Rightarrow> string + SparseProof" where
  "smt_prove t storage key =
     (case prove_walk t storage 0 (key_to_path key) (smt_root_hash t) of
        Inl e \<Rightarrow> Inl e
      | Inr (siblings, current_hash) \<Rightarrow>
          (case (if current_hash \<noteq> smt_default_hashes t ! TREE_DEPTH
                 then map_sum id (\<lambda>node. Option.bind node tn_value) (smt_get_node t storage current_hash)
                 else Inr None) of
             Inl e \<Rightarrow> Inl e
           | Inr value \<Rightarrow>
               Inr \<lparr>sp_key = key, sp_value = value,
                    sp_siblings = siblings @ map (\<lambda>i. smt_default_hashes t ! (i + 1)) [length siblings ..< TREE_DEPTH],
                    sp_root = smt_root_hash t\<rparr>))"

primrec prove_multi_recursive ::
  "SparseMerkleTrie \<Rightarrow> trie_storage \<Rightarrow> bool list list \<Rightarrow> nat \<Rightarrow> bytes \<Rightarrow> nat list
   \<Rightarrow> bytes option list \<times> (bytes \<times> nat) list \<Rightarrow> string + bytes option list \<times> (bytes \<times> nat) list" where
  "prove_multi_recursive t storage paths 0 current_hash key_indices acc =
     (let (values, helper_nodes) = acc in
      if current_hash \<noteq> EMPTY_HASH
      then case smt_get_node t storage current_hash of
             Inl e \<Rightarrow> Inl e
           | Inr (Some node) \<Rightarrow> Inr (fold (\<lambda>idx vs. vs[idx := tn_value node]) key_indices values, helper_nodes)
           | Inr None \<Rightarrow> Inr (values, helper_nodes)
      else Inr (values, helper_nodes))"
| "prove_multi_recursive t storage paths (Suc k) current_hash key_indices acc =
     (let (values, helper_nodes) = acc; depth = TREE_DEPTH - Suc k; defaults = smt_default_hashes t
      in case (if current_hash = defaults ! depth then Inr (defaults ! (depth + 1), defaults ! (depth + 1))
               else map_sum id (\<lambda>node. children defaults depth (unwrap_or node TrieNode_empty))
                      (smt_get_node t storage current_hash)) of
           Inl e \<Rightarrow> Inl e
         | Inr (left_hash, right_hash) \<Rightarrow>
             (let right_keys = filter (\<lambda>idx. paths ! idx ! depth) key_indices;
                  left_keys = filter (\<lambda>idx. \<not> paths ! idx ! depth) key_indices
              in if left_keys = []
                 then prove_multi_recursive t storage paths k right_hash right_keys (values, helper_nodes @ [(left_hash, depth)])
                 else if right_keys = []
                 then prove_multi_recursive t storage paths k left_hash left_keys (values, helper_nodes @ [(right_hash, depth)])
                 else (case prove_multi_recursive t storage paths k left_hash left_keys (values, helper_nodes) of
                         Inl e \<Rightarrow> Inl e
                       | Inr acc \<Rightarrow> prove_multi_recursive t storage paths k right_hash right_keys acc)))"

definition smt_prove_multi :: "SparseMerkleTrie \<Rightarrow> trie_storage \<Rightarrow> bytes list \<Rightarrow> string + SparseMultiProof" where
  "smt_prove_multi t storage keys =
     map_sum id (\<lambda>(values, helper_nodes). \<lparr>smp_keys = keys, smp_values = values,
         smp_helper_nodes = helper_nodes, smp_root = smt_root_hash t\<rparr>)
       (prove_multi_recursive t storage (map key_to_path keys) TREE_DEPTH (smt_root_hash t) [0 ..< length keys]
          (replicate (length keys) None, []))"

section \<open>Writing back\<close>

text \<open>
  \<open>put\<close> writes one node to the database. The drain empties \<open>dirty_nodes\<close> even
  when a write fails; the nodes not yet reached are then in neither map.
\<close>

fun flush_nodes ::
  "(bytes \<Rightarrow> TrieNode \<Rightarrow> 'st \<Rightarrow> string + 'st) \<Rightarrow> (bytes \<times> TrieNode) list \<Rightarrow> (bytes, TrieNode) hash_map \<Rightarrow> 'st
   \<Rightarrow> (bytes, TrieNode) hash_map \<times> 'st \<times> string option" where
  "flush_nodes put [] cache st = (cache, st, None)"
| "flush_nodes put ((hash, node) # nodes) cache st =
     (case put hash node st of
        Inl e \<Rightarrow> (cache, st, Some e)
      | Inr st \<Rightarrow> flush_nodes put nodes (hm_insert hash node cache) st)"

definition flush_to_storage ::
  "((bytes \<times> TrieNode) list \<Rightarrow> (bytes \<times> TrieNode) list) \<Rightarrow> (bytes \<Rightarrow> TrieNode \<Rightarrow> 'st \<Rightarrow> string + 'st)
   \<Rightarrow> SparseMerkleTrie \<Rightarrow> 'st \<Rightarrow> SparseMerkleTrie \<times> 'st \<times> (string + nat)" where
  "flush_to_storage iter put t st =
     (let n = length (smt_dirty_nodes t);
          (cache, st, err) = flush_nodes put (iter (smt_dirty_nodes t)) (smt_cache t) st
      in (t\<lparr>smt_cache := cache, smt_dirty_nodes := []\<rparr>, st, (case err of Some e \<Rightarrow> Inl e | None \<Rightarrow> Inr n)))"

definition take_dirty_nodes :: "SparseMerkleTrie \<Rightarrow> SparseMerkleTrie \<times> (bytes, TrieNode) hash_map" where
  "take_dirty_nodes t = (t\<lparr>smt_dirty_nodes := []\<rparr>, smt_dirty_nodes t)"

definition insert_cache :: "bytes \<Rightarrow> TrieNode \<Rightarrow> SparseMerkleTrie \<Rightarrow> SparseMerkleTrie" where
  "insert_cache hash node t = t\<lparr>smt_cache := hm_insert hash node (smt_cache t)\<rparr>"

definition hash_account_key :: "crypto_env \<Rightarrow> string \<Rightarrow> bytes" where
  "hash_account_key env address = hash_bytes env (as_bytes address)"

definition hash_contract_key :: "crypto_env \<Rightarrow> string \<Rightarrow> string \<Rightarrow> bytes" where
  "hash_contract_key env contract_id key = hash_bytes env (as_bytes contract_id @ [58] @ as_bytes key)"

end
