(* ===== verification/Rinku_Sparse_Map.thy ===== *)
theory Rinku_Sparse_Map
  imports Rinku_Sparse_Trie
begin

text \<open>
  The sparse Merkle trie implements a finite map. The map is a function from paths (256
  bits) to values; \<open>spec_hash\<close> is the root of the full binary tree over it, and the trie
  represents the map when its root is that hash and the nodes of every non-empty subtree
  can be looked up. All statements are relative to a set \<open>M\<close> of messages, those that
  were hashed, on which SHA-256 has no collision and no preimage of the all-zero hash.
\<close>

section \<open>The tree of a map\<close>

type_synonym tmap = "bool list \<Rightarrow> bytes option"

definition sub :: "tmap \<Rightarrow> bool \<Rightarrow> tmap" where
  "sub m b = (\<lambda>p. m (b # p))"

lemma sub_apply: "sub m b p = m (b # p)"
  by (simp add: sub_def)

lemma sub_empty [simp]: "sub (\<lambda>_. None) b = (\<lambda>_. None)"
  by (simp add: sub_def)

lemma sub_update [simp]: "sub (m(b # q := x)) b' = (if b' = b then (sub m b)(q := x) else sub m b')"
  by (auto simp: fun_eq_iff sub_apply)

primrec spec_hash :: "crypto_env \<Rightarrow> nat \<Rightarrow> tmap \<Rightarrow> bytes" where
  "spec_hash env 0 m = leaf_hash_of env (m [])"
| "spec_hash env (Suc k) m = hash_pair env (spec_hash env k (sub m False)) (spec_hash env k (sub m True))"

primrec msgs :: "crypto_env \<Rightarrow> nat \<Rightarrow> tmap \<Rightarrow> bytes set" where
  "msgs env 0 m = set_option (m [])"
| "msgs env (Suc k) m = insert (spec_hash env k (sub m False) @ spec_hash env k (sub m True))
     (msgs env k (sub m False) \<union> msgs env k (sub m True))"

lemma msgs_sub: "msgs env (Suc k) m \<subseteq> M \<Longrightarrow> msgs env k (sub m b) \<subseteq> M"
  by (cases b) simp_all

lemma msgs_sub_update: "msgs env (Suc k) (m(b # q := x)) \<subseteq> M \<Longrightarrow> msgs env k ((sub m b)(q := x)) \<subseteq> M"
  using msgs_sub [of env k "m(b # q := x)" M b] by (simp only: sub_update if_True simp_thms)

abbreviation dflt :: "crypto_env \<Rightarrow> nat \<Rightarrow> bytes" where
  "dflt env k \<equiv> spec_hash env k (\<lambda>_. None)"

definition empty_at :: "nat \<Rightarrow> tmap \<Rightarrow> bool" where
  "empty_at k m \<longleftrightarrow> (\<forall>p. length p = k \<longrightarrow> m p = None)"

lemma length_hash [simp]: "digest_32 env \<Longrightarrow> length (spec_hash env k m) = 32"
  by (cases k) (simp_all add: leaf_hash_of_def hash_bytes_def hash_pair_def EMPTY_HASH_def split: option.split)

lemma spec_hash_cong: "(\<And>p. length p = k \<Longrightarrow> m p = m' p) \<Longrightarrow> spec_hash env k m = spec_hash env k m'"
proof (induction k arbitrary: m m')
  case (Suc k)
  have "spec_hash env k (sub m b) = spec_hash env k (sub m' b)" for b using Suc.prems by (intro Suc.IH) (simp add: sub_apply)
  then show ?case by simp
qed simp

lemma msgs_cong: "(\<And>p. length p = k \<Longrightarrow> m p = m' p) \<Longrightarrow> msgs env k m = msgs env k m'"
proof (induction k arbitrary: m m')
  case (Suc k)
  have "msgs env k (sub m b) = msgs env k (sub m' b)" "spec_hash env k (sub m b) = spec_hash env k (sub m' b)" for b
    using Suc.prems by (auto intro!: Suc.IH spec_hash_cong simp: sub_apply)
  then show ?case by simp
qed simp

lemma spec_hash_empty: "empty_at k m \<Longrightarrow> spec_hash env k m = dflt env k"
  by (rule spec_hash_cong) (simp add: empty_at_def)

text \<open>The messages of the run are safe: no collision, no preimage of the empty hash.\<close>

definition hash_safe :: "crypto_env \<Rightarrow> bytes set \<Rightarrow> bool" where
  "hash_safe env M \<longleftrightarrow> digest_32 env \<and> inj_on (sha256 env) M \<and> (\<forall>d \<in> M. sha256 env d \<noteq> EMPTY_HASH)
     \<and> msgs env TREE_DEPTH (\<lambda>_. None) \<subseteq> M"

lemma hash_safe_digest [simp]: "hash_safe env M \<Longrightarrow> digest_32 env"
  by (simp add: hash_safe_def)

lemma msgs_empty_mono: "k \<le> n \<Longrightarrow> msgs env k (\<lambda>_. None) \<subseteq> msgs env n (\<lambda>_. None)"
  by (induction n) (auto simp: le_Suc_eq)

lemma hash_safe_empty: "hash_safe env M \<Longrightarrow> k \<le> TREE_DEPTH \<Longrightarrow> msgs env k (\<lambda>_. None) \<subseteq> M"
  using msgs_empty_mono [of k TREE_DEPTH env] by (auto simp: hash_safe_def)

lemma hash_pair_inj:
  "hash_safe env M \<Longrightarrow> a @ b \<in> M \<Longrightarrow> c @ d \<in> M \<Longrightarrow> length a = 32 \<Longrightarrow> length c = 32
   \<Longrightarrow> hash_pair env a b = hash_pair env c d \<longleftrightarrow> a = c \<and> b = d"
  unfolding hash_safe_def hash_pair_def by (metis append_eq_append_conv inj_onD)

lemma leaf_hash_inj:
  "hash_safe env M \<Longrightarrow> set_option x \<subseteq> M \<Longrightarrow> set_option y \<subseteq> M \<Longrightarrow> leaf_hash_of env x = leaf_hash_of env y \<longleftrightarrow> x = y"
  unfolding hash_safe_def leaf_hash_of_def hash_bytes_def
  by (auto split: option.splits dest: inj_onD) (metis inj_onD)+

lemma spec_hash_inj:
  assumes "hash_safe env M"
  shows "msgs env k m \<subseteq> M \<Longrightarrow> msgs env k m' \<subseteq> M \<Longrightarrow> spec_hash env k m = spec_hash env k m' \<Longrightarrow> length p = k \<Longrightarrow> m p = m' p"
proof (induction k arbitrary: m m' p)
  case 0
  then show ?case using leaf_hash_inj [OF assms, of "m []" "m' []"] by simp
next
  case (Suc k)
  from Suc.prems(4) obtain b q where p: "p = b # q" "length q = k" by (cases p) auto
  have "spec_hash env k (sub m b) = spec_hash env k (sub m' b)" for b
    using Suc.prems(1-3) assms by (cases b) (simp_all add: hash_pair_inj [OF assms])
  then have "sub m b q = sub m' b q" using Suc.prems(1,2) p by (intro Suc.IH) (cases b; simp)+
  then show ?case using p by (simp add: sub_apply)
qed

lemma spec_hash_default_iff:
  assumes "hash_safe env M" "msgs env k m \<subseteq> M" "k \<le> TREE_DEPTH"
  shows "spec_hash env k m = dflt env k \<longleftrightarrow> empty_at k m"
  using spec_hash_inj [OF assms(1,2) hash_safe_empty [OF assms(1,3)]] spec_hash_empty [of k m env]
  by (auto simp: empty_at_def)

section \<open>Default hashes and paths\<close>

lemma default_hashes_list: "((\<lambda>ds. hash_pair env (hd ds) (hd ds) # ds) ^^ n) [EMPTY_HASH] = map (dflt env) (rev [0 ..< Suc n])"
  by (induction n) (simp_all add: leaf_hash_of_def)

lemma default_hashes_nth [simp]: "i \<le> TREE_DEPTH \<Longrightarrow> compute_default_hashes env ! i = dflt env (TREE_DEPTH - i)"
  by (simp add: compute_default_hashes_def default_hashes_list rev_nth del: upt_Suc)

lemma length_key_to_path: "length key = 32 \<Longrightarrow> length (key_to_path key) = TREE_DEPTH"
proof -
  have "length (key_to_path key) = 8 * length key" by (induction key) (simp_all add: key_to_path_def)
  then show "length key = 32 \<Longrightarrow> length (key_to_path key) = TREE_DEPTH" by (simp add: TREE_DEPTH_def)
qed

lemma byte_bits_inj:
  fixes a b :: byte
  assumes "\<forall>i < 8. (drop_bit i a AND 1 = 1) = (drop_bit i b AND 1 = 1)"
  shows "a = b"
proof (rule bit_word_eqI)
  fix n :: nat assume "n < LENGTH(8)"
  moreover have "bit w n \<longleftrightarrow> drop_bit n w AND 1 = 1" for w :: byte
    by (simp add: and_one_eq bit_iff_odd_drop_bit mod2_eq_if)
  ultimately show "bit a n = bit b n" using assms by simp
qed

text \<open>Different keys have different paths.\<close>

lemma key_to_path_inj: "length a = length b \<Longrightarrow> key_to_path a = key_to_path b \<longleftrightarrow> a = b"
proof (induction a b rule: list_induct2)
  case (Cons x xs y ys)
  let ?f = "\<lambda>b :: byte. map (\<lambda>i. drop_bit i b AND 1 = 1) (rev [0 ..< 8])"
  have "?f x = ?f y \<longleftrightarrow> x = y" using byte_bits_inj [of x y] by auto
  moreover have "key_to_path (z # zs) = ?f z @ key_to_path zs" for z zs by (simp add: key_to_path_def)
  ultimately show ?case using Cons by (auto simp del: upt_Suc)
qed simp

section \<open>The nodes of a map\<close>

type_synonym node_lookup = "bytes \<Rightarrow> TrieNode option"

primrec stored :: "crypto_env \<Rightarrow> node_lookup \<Rightarrow> nat \<Rightarrow> tmap \<Rightarrow> bool" where
  "stored env N 0 m \<longleftrightarrow> (\<forall>v. m [] = Some v \<longrightarrow> N (hash_bytes env v) = Some (TrieNode_leaf v))"
| "stored env N (Suc k) m \<longleftrightarrow>
     (\<not> empty_at (Suc k) m \<longrightarrow> N (spec_hash env (Suc k) m) =
        Some (inner_node (spec_hash env k (sub m False)) (spec_hash env k (sub m True))))
     \<and> stored env N k (sub m False) \<and> stored env N k (sub m True)"

text \<open>
  The hashes of the nodes of the run, and the values that spell two of them. Leaves and inner
  nodes are hashed alike, so the leaf of such a value has the hash of that inner node.
\<close>

definition node_hashes :: "crypto_env \<Rightarrow> bytes set \<Rightarrow> bytes set" where
  "node_hashes env M = insert EMPTY_HASH (sha256 env ` M)"

definition spells_node :: "crypto_env \<Rightarrow> bytes set \<Rightarrow> bytes \<Rightarrow> bool" where
  "spells_node env M v \<longleftrightarrow> (\<exists>l \<in> node_hashes env M. \<exists>r \<in> node_hashes env M. v = l @ r)"

lemma node_hashes_length: "digest_32 env \<Longrightarrow> h \<in> node_hashes env M \<Longrightarrow> length h = 32"
  by (auto simp: node_hashes_def EMPTY_HASH_def)

lemma spec_hash_node_hash: "msgs env k m \<subseteq> M \<Longrightarrow> spec_hash env k m \<in> node_hashes env M"
  by (cases k) (auto simp: node_hashes_def leaf_hash_of_def hash_bytes_def hash_pair_def split: option.split)

lemma spells_node_length: "digest_32 env \<Longrightarrow> spells_node env M v \<Longrightarrow> length v = 64"
  by (auto simp: spells_node_def node_hashes_length)

text \<open>What a stored node hashes: a leaf its value, an inner node its two children.\<close>

definition node_ok :: "crypto_env \<Rightarrow> bytes set \<Rightarrow> bytes \<Rightarrow> TrieNode \<Rightarrow> bool" where
  "node_ok env M h n \<longleftrightarrow>
     (\<exists>v. n = TrieNode_leaf v \<and> h = hash_bytes env v \<and> v \<in> M \<and> \<not> spells_node env M v)
     \<or> (\<exists>l r. n = inner_node l r \<and> h = hash_pair env l r \<and> l @ r \<in> M \<and> l \<in> node_hashes env M \<and> r \<in> node_hashes env M)"

definition store_ok :: "crypto_env \<Rightarrow> bytes set \<Rightarrow> node_lookup \<Rightarrow> bool" where
  "store_ok env M N \<longleftrightarrow> (\<forall>h n. N h = Some n \<longrightarrow> node_ok env M h n)"

lemma node_ok_unique:
  assumes "hash_safe env M" "node_ok env M h n" "node_ok env M h n'"
  shows "n = n'"
proof -
  have inj: "a = b" if "sha256 env a = sha256 env b" "a \<in> M" "b \<in> M" for a b
    using assms(1) that by (auto simp: hash_safe_def dest: inj_onD)
  have len: "length h = 32" if "h \<in> node_hashes env M" for h
    using node_hashes_length [OF hash_safe_digest [OF assms(1)] that] .
  have "\<not> spells_node env M v \<Longrightarrow> l \<in> node_hashes env M \<Longrightarrow> r \<in> node_hashes env M \<Longrightarrow> v \<noteq> l @ r" for v l r
    by (auto simp: spells_node_def)
  then show ?thesis
    using assms(2,3) inj len unfolding node_ok_def hash_bytes_def hash_pair_def
    by (elim disjE exE conjE) (metis append_eq_append_conv)+
qed

lemma node_insert_extends:
  "hash_safe env M \<Longrightarrow> store_ok env M N \<Longrightarrow> node_ok env M h n \<Longrightarrow> N \<subseteq>\<^sub>m N(h \<mapsto> n)"
  unfolding store_ok_def map_le_def by (metis domIff fun_upd_apply node_ok_unique not_Some_eq)

lemma store_ok_insert: "store_ok env M N \<Longrightarrow> node_ok env M h n \<Longrightarrow> store_ok env M (N(h \<mapsto> n))"
  by (simp add: store_ok_def)

lemma stored_mono: "N \<subseteq>\<^sub>m N' \<Longrightarrow> stored env N k m \<Longrightarrow> stored env N' k m"
  by (induction k arbitrary: m) (auto simp: map_le_def dom_def)

lemma stored_cong: "(\<And>p. length p = k \<Longrightarrow> m p = m' p) \<Longrightarrow> stored env N k m = stored env N k m'"
proof (induction k arbitrary: m m')
  case (Suc k)
  have "stored env N k (sub m b) = stored env N k (sub m' b)" "spec_hash env k (sub m b) = spec_hash env k (sub m' b)" for b
    using Suc.prems by (auto intro!: Suc.IH spec_hash_cong simp: sub_apply)
  moreover have "empty_at (Suc k) m = empty_at (Suc k) m'" using Suc.prems by (simp add: empty_at_def)
  ultimately show ?case by simp
qed simp

lemma stored_empty: "empty_at k m \<Longrightarrow> stored env N k m"
proof (induction k arbitrary: m)
  case (Suc k)
  have "empty_at k (sub m b)" for b using Suc.prems by (simp add: empty_at_def sub_apply)
  then show ?case using Suc by simp
qed (simp add: empty_at_def)

text \<open>A trie whose database reads do not fail, seen as a node lookup.\<close>

definition node_map :: "SparseMerkleTrie \<Rightarrow> trie_storage \<Rightarrow> node_lookup \<Rightarrow> bool" where
  "node_map t storage N \<longleftrightarrow> (\<forall>h. smt_get_node t storage h = Inr (N h))"

lemma node_map_insert:
  "node_map t storage N \<Longrightarrow> node_map (t\<lparr>smt_dirty_nodes := hm_insert h n (smt_dirty_nodes t)\<rparr>) storage (N(h \<mapsto> n))"
  by (simp add: node_map_def smt_get_node_def cong: option.case_cong)

lemma children_inner [simp]: "children ds d (inner_node l r) = (l, r)"
  by (simp add: children_def inner_node_def)

lemma leaf_value [simp]: "tn_value (TrieNode_leaf v) = Some v"
  by (simp add: TrieNode_leaf_def)

text \<open>
  One trie at one subtree: the setting of the walks. The trie's default hashes are those of
  the environment, and the subtree of height \<open>k\<close> is the one of the map \<open>m\<close>.
\<close>

definition subtree_rep :: "crypto_env \<Rightarrow> bytes set \<Rightarrow> SparseMerkleTrie \<Rightarrow> trie_storage \<Rightarrow> node_lookup \<Rightarrow> nat \<Rightarrow> tmap \<Rightarrow> bool" where
  "subtree_rep env M t storage N k m \<longleftrightarrow> hash_safe env M \<and> node_map t storage N \<and> store_ok env M N
     \<and> smt_default_hashes t = compute_default_hashes env \<and> k \<le> TREE_DEPTH \<and> stored env N k m \<and> msgs env k m \<subseteq> M
     \<and> (\<forall>p v. m p = Some v \<longrightarrow> \<not> spells_node env M v)"

lemma subtree_rep_sub: "subtree_rep env M t storage N (Suc k) m \<Longrightarrow> subtree_rep env M t storage N k (sub m b)"
  unfolding subtree_rep_def by (cases b) (auto simp: sub_apply)

lemma subtree_default:
  "subtree_rep env M t storage N k m \<Longrightarrow> smt_default_hashes t ! (TREE_DEPTH - k) = dflt env k"
  by (simp add: subtree_rep_def)

lemma subtree_default_iff:
  "subtree_rep env M t storage N k m \<Longrightarrow> spec_hash env k m = smt_default_hashes t ! (TREE_DEPTH - k) \<longleftrightarrow> empty_at k m"
  unfolding subtree_default using spec_hash_default_iff [of env M k m] by (simp add: subtree_rep_def)

lemma subtree_node:
  "subtree_rep env M t storage N (Suc k) m \<Longrightarrow> \<not> empty_at (Suc k) m \<Longrightarrow>
   smt_get_node t storage (spec_hash env (Suc k) m) =
     Inr (Some (inner_node (spec_hash env k (sub m False)) (spec_hash env k (sub m True))))"
  by (simp add: subtree_rep_def node_map_def)

lemma empty_at_sub: "empty_at (Suc k) m \<longleftrightarrow> empty_at k (sub m False) \<and> empty_at k (sub m True)"
proof
  show "empty_at k (sub m False) \<and> empty_at k (sub m True)" if "empty_at (Suc k) m"
    using that by (simp add: empty_at_def sub_apply)
  assume e: "empty_at k (sub m False) \<and> empty_at k (sub m True)"
  show "empty_at (Suc k) m"
    unfolding empty_at_def
  proof (intro allI impI)
    fix p :: "bool list" assume "length p = Suc k"
    then obtain b q where "p = b # q" "length q = k" by (cases p) auto
    with e show "m p = None" by (cases b) (auto simp: empty_at_def sub_apply)
  qed
qed

lemma depth_step: "Suc k \<le> TREE_DEPTH \<Longrightarrow> TREE_DEPTH - Suc k + 1 = TREE_DEPTH - k"
  by simp

lemma get_walk_correct:
  "subtree_rep env M t storage N k m \<Longrightarrow> length p = k \<Longrightarrow>
   get_walk t storage (TREE_DEPTH - k) p (spec_hash env k m) = Inr (m p)"
proof (induction k arbitrary: m p)
  case 0
  show ?case
  proof (cases "m []")
    case None
    then have "empty_at 0 m" by (simp add: empty_at_def)
    then show ?thesis using 0 None subtree_default_iff [OF 0(1)] by simp
  next
    case (Some v)
    then have "\<not> empty_at 0 m" by (simp add: empty_at_def)
    moreover have "smt_get_node t storage (hash_bytes env v) = Inr (Some (TrieNode_leaf v))"
      using 0(1) Some by (simp add: subtree_rep_def node_map_def)
    ultimately show ?thesis using 0 Some subtree_default_iff [OF 0(1)] by (simp add: leaf_hash_of_def)
  qed
next
  case (Suc k)
  from Suc.prems(2) obtain b q where p: "p = b # q" "length q = k" by (cases p) auto
  show ?case
  proof (cases "empty_at (Suc k) m")
    case True
    then have "m p = None" using Suc.prems(2) by (simp add: empty_at_def)
    then show ?thesis using True subtree_default_iff [OF Suc.prems(1)] p by simp
  next
    case False
    have k: "Suc k \<le> TREE_DEPTH" using Suc.prems(1) by (simp add: subtree_rep_def)
    have q: "m p = sub m b q" using p by (simp add: sub_apply)
    have "get_walk t storage (TREE_DEPTH - Suc k) p (spec_hash env (Suc k) m) =
        get_walk t storage (TREE_DEPTH - k) q (spec_hash env k (sub m b))"
      using False subtree_default_iff [OF Suc.prems(1)] subtree_node [OF Suc.prems(1) False] depth_step [OF k]
      unfolding p(1) by (simp del: spec_hash.simps)
    then show ?thesis unfolding q using Suc.IH [OF subtree_rep_sub [OF Suc.prems(1)] p(2)] by simp
  qed
qed

section \<open>Updates\<close>

lemma subtree_rep_extend:
  assumes "subtree_rep env M t storage N k m" "node_map t' storage N'" "N \<subseteq>\<^sub>m N'" "store_ok env M N'"
    "smt_default_hashes t' = smt_default_hashes t"
  shows "subtree_rep env M t' storage N' k m"
  using assms stored_mono [OF assms(3)] by (simp add: subtree_rep_def)

text \<open>
  The result of an update of a subtree: its hash is that of the updated map, the nodes
  that were there are still there, and those of the updated map are too.
\<close>

definition updated ::
  "crypto_env \<Rightarrow> bytes set \<Rightarrow> trie_storage \<Rightarrow> SparseMerkleTrie \<Rightarrow> node_lookup \<Rightarrow> nat \<Rightarrow> tmap \<Rightarrow> string + SparseMerkleTrie \<times> bytes \<Rightarrow> bool" where
  "updated env M storage t N k m' r \<longleftrightarrow> (\<exists>t' N'. r = Inr (t', spec_hash env k m') \<and> N \<subseteq>\<^sub>m N'
     \<and> subtree_rep env M t' storage N' k m' \<and> smt_default_hashes t' = smt_default_hashes t
     \<and> smt_root_hash t' = smt_root_hash t)"

lemma updatedI:
  "r = Inr (t', spec_hash env k m') \<Longrightarrow> N \<subseteq>\<^sub>m N' \<Longrightarrow> subtree_rep env M t' storage N' k m'
   \<Longrightarrow> smt_default_hashes t' = smt_default_hashes t \<Longrightarrow> smt_root_hash t' = smt_root_hash t
   \<Longrightarrow> updated env M storage t N k m' r"
  unfolding updated_def by blast

lemma node_ok_inner:
  "msgs env (Suc k) m \<subseteq> M \<Longrightarrow>
   node_ok env M (spec_hash env (Suc k) m) (inner_node (spec_hash env k (sub m False)) (spec_hash env k (sub m True)))"
  using spec_hash_node_hash [of env k "sub m False" M] spec_hash_node_hash [of env k "sub m True" M]
  by (auto simp: node_ok_def)

text \<open>Writing the inner node of an updated map above its updated children.\<close>

lemma subtree_rep_write:
  assumes "\<And>b. subtree_rep env M t storage N k (sub m b)" "Suc k \<le> TREE_DEPTH" "msgs env (Suc k) m \<subseteq> M"
    "\<forall>p v. m p = Some v \<longrightarrow> \<not> spells_node env M v"
  defines "n \<equiv> inner_node (spec_hash env k (sub m False)) (spec_hash env k (sub m True))"
  shows "N \<subseteq>\<^sub>m N(spec_hash env (Suc k) m \<mapsto> n)"
    and "subtree_rep env M (t\<lparr>smt_dirty_nodes := hm_insert (spec_hash env (Suc k) m) n (smt_dirty_nodes t)\<rparr>) storage
      (N(spec_hash env (Suc k) m \<mapsto> n)) (Suc k) m"
proof -
  note r = assms(1) [of False, unfolded subtree_rep_def]
  have ok: "node_ok env M (spec_hash env (Suc k) m) n" unfolding n_def using r assms(3) by (intro node_ok_inner) auto
  show e: "N \<subseteq>\<^sub>m N(spec_hash env (Suc k) m \<mapsto> n)" using r ok by (intro node_insert_extends) auto
  let ?t = "t\<lparr>smt_dirty_nodes := hm_insert (spec_hash env (Suc k) m) n (smt_dirty_nodes t)\<rparr>"
  have "subtree_rep env M ?t storage (N(spec_hash env (Suc k) m \<mapsto> n)) k (sub m b)" for b
    by (rule subtree_rep_extend [OF assms(1) _ e]) (use r ok in \<open>auto intro: node_map_insert store_ok_insert\<close>)
  then show "subtree_rep env M ?t storage (N(spec_hash env (Suc k) m \<mapsto> n)) (Suc k) m"
    using assms(2-4) by (simp add: subtree_rep_def n_def)
qed

lemma subtree_rep_update_other:
  assumes "subtree_rep env M t' storage N' k ((sub m b)(q := x))" "subtree_rep env M t storage N k (sub m (\<not> b))"
    "N \<subseteq>\<^sub>m N'" "smt_default_hashes t' = smt_default_hashes t"
  shows "subtree_rep env M t' storage N' k (sub (m(b # q := x)) b')"
proof (cases "b' = b")
  case False
  then have "b' = (\<not> b)" by auto
  then show ?thesis using assms subtree_rep_extend [OF assms(2), of t' N'] by (simp add: subtree_rep_def)
qed (use assms(1) in simp)

lemma set_recursive_correct:
  assumes "\<not> spells_node env M v"
  shows "subtree_rep env M t storage N k m \<Longrightarrow> length p = k \<Longrightarrow> msgs env k (m(p \<mapsto> v)) \<subseteq> M \<Longrightarrow>
    updated env M storage t N k (m(p \<mapsto> v))
      (set_recursive env storage (TREE_DEPTH - k) p (spec_hash env k m) (hash_bytes env v) (Some v) t)"
proof (induction k arbitrary: m p t N)
  case 0
  let ?t = "t\<lparr>smt_dirty_nodes := hm_insert (hash_bytes env v) (TrieNode_leaf v) (smt_dirty_nodes t)\<rparr>"
  let ?N = "N(hash_bytes env v \<mapsto> TrieNode_leaf v)"
  note r = "0.prems"(1) [unfolded subtree_rep_def]
  have ok: "node_ok env M (hash_bytes env v) (TrieNode_leaf v)" using "0.prems" assms by (auto simp: node_ok_def)
  have "N \<subseteq>\<^sub>m ?N" using r ok by (intro node_insert_extends) auto
  moreover have "subtree_rep env M ?t storage ?N 0 (m([] \<mapsto> v))"
    using r ok "0.prems" assms unfolding subtree_rep_def by (auto intro: node_map_insert store_ok_insert)
  ultimately show ?case using "0.prems"(2) unfolding updated_def
    by (intro exI [of _ ?t] exI [of _ ?N]) (simp add: leaf_hash_of_def)
next
  case (Suc k)
  from Suc.prems(2) obtain b q where p: "p = b # q" "length q = k" by (cases p) auto
  have k: "Suc k \<le> TREE_DEPTH" using Suc.prems(1) by (simp add: subtree_rep_def)
  let ?m = "m(b # q \<mapsto> v)"
  have "msgs env k ((sub m b)(q \<mapsto> v)) \<subseteq> M" using Suc.prems(3) unfolding p(1) by (rule msgs_sub_update)
  from Suc.IH [OF subtree_rep_sub [OF Suc.prems(1), of b] p(2) this] obtain t' N' where
    c: "set_recursive env storage (TREE_DEPTH - k) q (spec_hash env k (sub m b)) (hash_bytes env v) (Some v) t
        = Inr (t', spec_hash env k ((sub m b)(q \<mapsto> v)))" "N \<subseteq>\<^sub>m N'"
      "subtree_rep env M t' storage N' k ((sub m b)(q \<mapsto> v))" "smt_default_hashes t' = smt_default_hashes t"
      "smt_root_hash t' = smt_root_hash t"
    unfolding updated_def by blast
  have subs: "subtree_rep env M t' storage N' k (sub ?m b')" for b'
    by (rule subtree_rep_update_other [OF c(3) subtree_rep_sub [OF Suc.prems(1)] c(2,4)])
  have v: "\<forall>p v. ?m p = Some v \<longrightarrow> \<not> spells_node env M v" using Suc.prems(1) assms by (auto simp: subtree_rep_def)
  note w = subtree_rep_write [OF subs k Suc.prems(3) [unfolded p(1)] v]
  have lr: "(if spec_hash env (Suc k) m = smt_default_hashes t ! (TREE_DEPTH - Suc k)
      then Inr (smt_default_hashes t ! (TREE_DEPTH - Suc k + 1), smt_default_hashes t ! (TREE_DEPTH - Suc k + 1))
      else case smt_get_node t storage (spec_hash env (Suc k) m) of Inl e \<Rightarrow> Inl e
           | Inr node \<Rightarrow> Inr (children (smt_default_hashes t) (TREE_DEPTH - Suc k) (unwrap_or node TrieNode_empty)))
      = Inr (spec_hash env k (sub m False), spec_hash env k (sub m True))" (is "?lr = _")
  proof (cases "empty_at (Suc k) m")
    case True
    then have "spec_hash env k (sub m b) = dflt env k" for b
      by (intro spec_hash_empty) (auto simp: empty_at_def sub_apply)
    then show ?thesis
      using True subtree_default_iff [OF Suc.prems(1)] subtree_default [OF subtree_rep_sub [OF Suc.prems(1)]]
      by (simp only: depth_step [OF k] if_True)
  next
    case False
    then show ?thesis using subtree_default_iff [OF Suc.prems(1)] subtree_node [OF Suc.prems(1)] by simp
  qed
  let ?n = "inner_node (spec_hash env k (sub ?m False)) (spec_hash env k (sub ?m True))"
  let ?t = "t'\<lparr>smt_dirty_nodes := hm_insert (spec_hash env (Suc k) ?m) ?n (smt_dirty_nodes t')\<rparr>"
  have eq: "set_recursive env storage (TREE_DEPTH - Suc k) p (spec_hash env (Suc k) m) (hash_bytes env v) (Some v) t
      = Inr (?t, spec_hash env (Suc k) ?m)"
    unfolding p(1) set_recursive.simps lr using c(1) depth_step [OF k] by (cases b) (simp_all add: Let_def)
  show ?case
    unfolding p(1) by (rule updatedI [OF eq [unfolded p(1)] map_le_trans [OF c(2) w(1)] w(2)]) (simp_all add: c(4,5))
qed

lemma delete_recursive_correct:
  "subtree_rep env M t storage N k m \<Longrightarrow> length p = k \<Longrightarrow> msgs env k (m(p := None)) \<subseteq> M \<Longrightarrow>
    updated env M storage t N k (m(p := None))
      (delete_recursive env storage (TREE_DEPTH - k) p (spec_hash env k m) t)"
proof (induction k arbitrary: m p t N)
  case 0
  have p: "p = []" using "0.prems"(2) by simp
  have rep: "subtree_rep env M t storage N 0 (m([] := None))" using "0.prems" by (simp add: subtree_rep_def)
  have eq: "delete_recursive env storage (TREE_DEPTH - 0) p (spec_hash env 0 m) t
      = Inr (t, spec_hash env 0 (m([] := None)))"
    using p subtree_default [OF "0.prems"(1)] by (simp add: leaf_hash_of_def)
  show ?case unfolding p by (rule updatedI [OF eq [unfolded p] map_le_refl rep]) (rule refl)+
next
  case (Suc k)
  from Suc.prems(2) obtain b q where p: "p = b # q" "length q = k" by (cases p) auto
  have k: "Suc k \<le> TREE_DEPTH" using Suc.prems(1) by (simp add: subtree_rep_def)
  let ?m = "m(b # q := None)"
  have v: "\<forall>p v. ?m p = Some v \<longrightarrow> \<not> spells_node env M v" using Suc.prems(1) by (auto simp: subtree_rep_def)
  show ?case
  proof (cases "empty_at (Suc k) m")
    case True
    then have same: "?m p = m p" if "length p = Suc k" for p using that by (simp add: empty_at_def)
    have eq: "delete_recursive env storage (TREE_DEPTH - Suc k) p (spec_hash env (Suc k) m) t = Inr (t, spec_hash env (Suc k) ?m)"
      using True subtree_default_iff [OF Suc.prems(1)] spec_hash_cong [of "Suc k" ?m m env, OF same]
      unfolding p(1) by (simp only: delete_recursive.simps if_True simp_thms)
    have rep: "subtree_rep env M t storage N (Suc k) ?m"
      using Suc.prems(1,3) v stored_cong [of "Suc k" ?m m env N, OF same] p(1) unfolding subtree_rep_def by blast
    show ?thesis unfolding p(1) by (rule updatedI [OF eq [unfolded p(1)] map_le_refl rep]) (rule refl)+
  next
    case False
    have "msgs env k ((sub m b)(q := None)) \<subseteq> M" using Suc.prems(3) unfolding p(1) by (rule msgs_sub_update)
    from Suc.IH [OF subtree_rep_sub [OF Suc.prems(1), of b] p(2) this] obtain t' N' where
      c: "delete_recursive env storage (TREE_DEPTH - k) q (spec_hash env k (sub m b)) t
          = Inr (t', spec_hash env k ((sub m b)(q := None)))" "N \<subseteq>\<^sub>m N'"
        "subtree_rep env M t' storage N' k ((sub m b)(q := None))" "smt_default_hashes t' = smt_default_hashes t"
        "smt_root_hash t' = smt_root_hash t"
      unfolding updated_def by blast
    have subs: "subtree_rep env M t' storage N' k (sub ?m b')" for b'
      by (rule subtree_rep_update_other [OF c(3) subtree_rep_sub [OF Suc.prems(1)] c(2,4)])
    let ?l = "spec_hash env k (sub ?m False)" and ?r = "spec_hash env k (sub ?m True)"
    let ?t = "t'\<lparr>smt_dirty_nodes := hm_insert (spec_hash env (Suc k) ?m) (inner_node ?l ?r) (smt_dirty_nodes t')\<rparr>"
    have del: "delete_recursive env storage (TREE_DEPTH - Suc k) p (spec_hash env (Suc k) m) t =
        (if ?l = smt_default_hashes t' ! (TREE_DEPTH - k) \<and> ?r = smt_default_hashes t' ! (TREE_DEPTH - k)
         then Inr (t', smt_default_hashes t' ! (TREE_DEPTH - Suc k)) else Inr (?t, spec_hash env (Suc k) ?m))"
      using False subtree_default_iff [OF Suc.prems(1)] subtree_node [OF Suc.prems(1) False] c(1) depth_step [OF k]
      unfolding p(1) delete_recursive.simps by (cases b) (simp_all add: Let_def)
    have e: "?l = smt_default_hashes t' ! (TREE_DEPTH - k) \<longleftrightarrow> empty_at k (sub ?m False)"
      "?r = smt_default_hashes t' ! (TREE_DEPTH - k) \<longleftrightarrow> empty_at k (sub ?m True)"
      using subtree_default_iff [OF subs] by blast+
    show ?thesis
    proof (cases "empty_at (Suc k) ?m")
      case True
      have "subtree_rep env M t' storage N' (Suc k) ?m"
        using subs [of False] k v Suc.prems(3) stored_empty [OF True] p(1) unfolding subtree_rep_def by blast
      note rep = this
      then have "smt_default_hashes t' ! (TREE_DEPTH - Suc k) = spec_hash env (Suc k) ?m"
        using subtree_default_iff True by metis
      then have eq: "delete_recursive env storage (TREE_DEPTH - Suc k) p (spec_hash env (Suc k) m) t
          = Inr (t', spec_hash env (Suc k) ?m)"
        using True e unfolding del empty_at_sub by (simp only: if_True simp_thms)
      show ?thesis unfolding p(1) by (rule updatedI [OF eq [unfolded p(1)] c(2) rep c(4,5)])
    next
      case False
      then have eq: "delete_recursive env storage (TREE_DEPTH - Suc k) p (spec_hash env (Suc k) m) t
          = Inr (?t, spec_hash env (Suc k) ?m)"
        using e unfolding del empty_at_sub by (simp only: if_False simp_thms)
      note w = subtree_rep_write [OF subs k Suc.prems(3) [unfolded p(1)] v]
      show ?thesis
        unfolding p(1) by (rule updatedI [OF eq [unfolded p(1)] map_le_trans [OF c(2) w(1)] w(2)]) (simp_all add: c(4,5))
    qed
  qed
qed

section \<open>The trie as a map from keys\<close>

text \<open>
  The trie represents the map \<open>m\<close> from paths to values. That no value spells two node hashes
  matters: the leaf of such a value would replace the inner node with that hash. Any other value,
  of 64 bytes or not, is allowed.
\<close>

definition trie_rep :: "crypto_env \<Rightarrow> bytes set \<Rightarrow> trie_storage \<Rightarrow> SparseMerkleTrie \<Rightarrow> tmap \<Rightarrow> bool" where
  "trie_rep env M storage t m \<longleftrightarrow> smt_root_hash t = spec_hash env TREE_DEPTH m
     \<and> (\<exists>N. subtree_rep env M t storage N TREE_DEPTH m)"

lemma trie_rep_new:
  assumes "hash_safe env M"
  shows "trie_rep env M None (SparseMerkleTrie_new env) (\<lambda>_. None)"
proof -
  have "subtree_rep env M (SparseMerkleTrie_new env) None (\<lambda>_. None) TREE_DEPTH (\<lambda>_. None)"
    using assms by (auto simp: subtree_rep_def node_map_def smt_get_node_def SparseMerkleTrie_new_def Let_def
        store_ok_def hash_safe_def stored_empty empty_at_def)
  then show ?thesis unfolding trie_rep_def by (auto simp: SparseMerkleTrie_new_def Let_def)
qed

lemma trie_rep_get:
  assumes "trie_rep env M storage t m" "length key = 32"
  shows "smt_get t storage key = Inr (m (key_to_path key))"
proof -
  from assms(1) obtain N where r: "smt_root_hash t = spec_hash env TREE_DEPTH m" "subtree_rep env M t storage N TREE_DEPTH m"
    by (auto simp: trie_rep_def)
  from get_walk_correct [OF r(2) length_key_to_path [OF assms(2)]] r(1) show ?thesis by (simp add: smt_get_def)
qed

lemma trie_rep_root_update:
  "subtree_rep env M t storage N k m \<Longrightarrow> subtree_rep env M (t\<lparr>smt_root_hash := h\<rparr>) storage N k m"
  by (simp add: subtree_rep_def node_map_def smt_get_node_def cong: option.case_cong)

lemma trie_rep_set:
  assumes "trie_rep env M storage t m" "length key = 32" "\<not> spells_node env M v"
    and "msgs env TREE_DEPTH (m(key_to_path key \<mapsto> v)) \<subseteq> M"
  shows "\<exists>t'. smt_set env storage key v t = (t', Inr (smt_root_hash t'))
    \<and> trie_rep env M storage t' (m(key_to_path key \<mapsto> v))"
proof -
  let ?m = "m(key_to_path key \<mapsto> v)"
  from assms(1) obtain N where r: "smt_root_hash t = spec_hash env TREE_DEPTH m" "subtree_rep env M t storage N TREE_DEPTH m"
    by (auto simp: trie_rep_def)
  from set_recursive_correct [OF assms(3) r(2) length_key_to_path [OF assms(2)] assms(4)] obtain t' N' where
    t: "set_recursive env storage 0 (key_to_path key) (smt_root_hash t) (hash_bytes env v) (Some v) t
      = Inr (t', spec_hash env TREE_DEPTH ?m)" "subtree_rep env M t' storage N' TREE_DEPTH ?m"
    unfolding updated_def r(1) diff_self_eq_0 by blast
  then show ?thesis
    using trie_rep_root_update [OF t(2)] unfolding smt_set_def trie_rep_def
    by (intro exI [of _ "t'\<lparr>smt_root_hash := spec_hash env TREE_DEPTH ?m\<rparr>"]) auto
qed

lemma trie_rep_delete:
  assumes "trie_rep env M storage t m" "length key = 32"
    and "msgs env TREE_DEPTH (m(key_to_path key := None)) \<subseteq> M"
  shows "\<exists>t'. smt_delete env storage key t = (t', Inr (smt_root_hash t'))
    \<and> trie_rep env M storage t' (m(key_to_path key := None))"
proof -
  let ?m = "m(key_to_path key := None)"
  from assms(1) obtain N where r: "smt_root_hash t = spec_hash env TREE_DEPTH m" "subtree_rep env M t storage N TREE_DEPTH m"
    by (auto simp: trie_rep_def)
  from delete_recursive_correct [OF r(2) length_key_to_path [OF assms(2)] assms(3)] obtain t' N' where
    t: "delete_recursive env storage 0 (key_to_path key) (smt_root_hash t) t
      = Inr (t', spec_hash env TREE_DEPTH ?m)" "subtree_rep env M t' storage N' TREE_DEPTH ?m"
    unfolding updated_def r(1) diff_self_eq_0 by blast
  then show ?thesis
    using trie_rep_root_update [OF t(2)] unfolding smt_delete_def trie_rep_def
    by (intro exI [of _ "t'\<lparr>smt_root_hash := spec_hash env TREE_DEPTH ?m\<rparr>"]) auto
qed

end
