(* ===== verification/Rinku_Sparse_Proofs.thy ===== *)
theory Rinku_Sparse_Proofs
  imports Rinku_Sparse_Map Rinku_Machine
begin

text \<open>
  Proofs of the sparse Merkle trie: what \<open>prove\<close> and \<open>prove_multi\<close> return, that
  their proofs verify, and that no other value can be proved against the root; and the
  refinement of a map by sequences of trie operations.
\<close>

section \<open>Single proofs\<close>

primrec spec_siblings :: "crypto_env \<Rightarrow> tmap \<Rightarrow> bool list \<Rightarrow> bytes list" where
  "spec_siblings env m [] = []"
| "spec_siblings env m (b # p) = spec_hash env (length p) (sub m (\<not> b)) # spec_siblings env (sub m b) p"

text \<open>Recomputing the root, top down along the path.\<close>

primrec path_hash :: "crypto_env \<Rightarrow> bytes \<Rightarrow> bool list \<Rightarrow> bytes list \<Rightarrow> bytes" where
  "path_hash env lh [] ss = lh"
| "path_hash env lh (b # p) ss =
     (if b then hash_pair env (hd ss) (path_hash env lh p (tl ss)) else hash_pair env (path_hash env lh p (tl ss)) (hd ss))"

primrec path_msgs :: "crypto_env \<Rightarrow> bytes \<Rightarrow> bool list \<Rightarrow> bytes list \<Rightarrow> bytes set" where
  "path_msgs env lh [] ss = {}"
| "path_msgs env lh (b # p) ss =
     insert (if b then hd ss @ path_hash env lh p (tl ss) else path_hash env lh p (tl ss) @ hd ss) (path_msgs env lh p (tl ss))"

lemma length_spec_siblings [simp]: "length (spec_siblings env m p) = length p"
  by (induction p arbitrary: m) simp_all

lemma path_hash_spec: "path_hash env (leaf_hash_of env (m p)) p (spec_siblings env m p) = spec_hash env (length p) m"
proof (induction p arbitrary: m)
  case (Cons b p)
  have "m (b # p) = sub m b p" by (simp add: sub_apply)
  then show ?case using Cons [of "sub m b"] by (cases b) simp_all
qed simp

text \<open>The sibling at a level, the default one beyond the proof's list.\<close>

definition sibling_at :: "crypto_env \<Rightarrow> bytes list \<Rightarrow> nat \<Rightarrow> bytes" where
  "sibling_at env ss i = (if i < length ss then ss ! i else compute_default_hashes env ! (i + 1))"

lemma verify_fold_path_hash:
  "foldr (\<lambda>(i, go_right) h. let sibling = sibling_at env ss i
        in if go_right then hash_pair env sibling h else hash_pair env h sibling) (enumerate n path) lh
   = path_hash env lh path (map (sibling_at env ss) [n ..< n + length path])"
proof (induction path arbitrary: n)
  case (Cons b path)
  have "[n ..< n + length (b # path)] = n # [Suc n ..< Suc n + length path]"
    using upt_conv_Cons [of n "n + length (b # path)"] by simp
  then show ?case using Cons [of "Suc n"] by (simp del: upt_Suc)
qed simp

lemma sparse_verify_iff:
  "sparse_verify env p \<longleftrightarrow>
     path_hash env (leaf_hash_of env (sp_value p)) (key_to_path (sp_key p))
       (map (sibling_at env (sp_siblings p)) [0 ..< length (key_to_path (sp_key p))]) = sp_root p"
  using verify_fold_path_hash [of env "sp_siblings p" 0 "key_to_path (sp_key p)"]
  by (simp add: sparse_verify_def sibling_at_def [abs_def] Let_def)

lemma spec_siblings_empty: "empty_at (length p) m \<Longrightarrow> spec_siblings env m p = map (dflt env) (rev [0 ..< length p])"
proof (induction p arbitrary: m)
  case (Cons b p)
  then have "empty_at (length p) (sub m b)" for b using empty_at_sub [of "length p" m] by (cases b) simp_all
  then show ?case using Cons.IH [of "sub m b"] by (simp add: spec_hash_empty)
qed simp

lemma default_rest:
  assumes "smt_default_hashes t = compute_default_hashes env" "k \<le> TREE_DEPTH"
  shows "map (\<lambda>r. smt_default_hashes t ! (r + 1)) [TREE_DEPTH - k ..< TREE_DEPTH] = map (dflt env) (rev [0 ..< k])"
proof (rule nth_equalityI)
  fix i assume "i < length (map (\<lambda>r. smt_default_hashes t ! (r + 1)) [TREE_DEPTH - k ..< TREE_DEPTH])"
  then have i: "i < k" using assms(2) by simp
  then have "smt_default_hashes t ! (TREE_DEPTH - k + i + 1) = dflt env (k - i - 1)"
    unfolding assms(1) using assms(2) by (subst default_hashes_nth) (auto intro: arg_cong [of _ _ "dflt env"])
  then show "map (\<lambda>r. smt_default_hashes t ! (r + 1)) [TREE_DEPTH - k ..< TREE_DEPTH] ! i = map (dflt env) (rev [0 ..< k]) ! i"
    using i assms(2) by (simp add: rev_nth)
qed (use assms(2) in simp)

text \<open>The value \<open>prove\<close> reads off the hash at which its walk ends.\<close>

definition value_at :: "SparseMerkleTrie \<Rightarrow> trie_storage \<Rightarrow> bytes \<Rightarrow> string + bytes option" where
  "value_at t storage h =
     (if h \<noteq> smt_default_hashes t ! TREE_DEPTH
      then map_sum id (\<lambda>node. Option.bind node tn_value) (smt_get_node t storage h) else Inr None)"

lemma value_at_leaf:
  "subtree_rep env M t storage N 0 m \<Longrightarrow> value_at t storage (spec_hash env 0 m) = Inr (m [])"
  using get_walk_correct [of env M t storage N 0 m "[]"]
  by (auto simp: value_at_def split: sum.splits if_splits)

lemma value_at_default:
  assumes "subtree_rep env M t storage N (Suc k) m"
  shows "value_at t storage (dflt env (Suc k)) = Inr None"
proof -
  note r = assms [unfolded subtree_rep_def]
  have "tn_value n = None" if n: "N (dflt env (Suc k)) = Some n" for n
  proof -
    have "msgs env (Suc k) (\<lambda>_. None) \<subseteq> M" using hash_safe_empty [of env M "Suc k"] r by auto
    from node_ok_inner [OF this] have d: "node_ok env M (dflt env (Suc k)) (inner_node (dflt env k) (dflt env k))" by simp
    have "node_ok env M (dflt env (Suc k)) n" using n r by (simp add: store_ok_def)
    then have "n = inner_node (dflt env k) (dflt env k)" using node_ok_unique [OF _ _ d] r by blast
    then show ?thesis by (simp add: inner_node_def)
  qed
  then show ?thesis using r by (cases "N (dflt env (Suc k))") (auto simp: value_at_def node_map_def)
qed

lemma prove_walk_correct:
  "subtree_rep env M t storage N k m \<Longrightarrow> length p = k \<Longrightarrow>
   \<exists>h. prove_walk t storage (TREE_DEPTH - k) p (spec_hash env k m) = Inr (spec_siblings env m p, h)
     \<and> value_at t storage h = Inr (m p)"
proof (induction k arbitrary: m p)
  case 0
  then show ?case using value_at_leaf by simp
next
  case (Suc k)
  from Suc.prems(2) obtain b q where p: "p = b # q" "length q = k" by (cases p) auto
  have k: "Suc k \<le> TREE_DEPTH" and d: "smt_default_hashes t = compute_default_hashes env"
    using Suc.prems(1) by (simp_all add: subtree_rep_def)
  show ?case
  proof (cases "empty_at (Suc k) m")
    case True
    have "prove_walk t storage (TREE_DEPTH - Suc k) p (spec_hash env (Suc k) m)
        = Inr (spec_siblings env m p, spec_hash env (Suc k) m)"
      using True subtree_default_iff [OF Suc.prems(1)] default_rest [OF d k] spec_siblings_empty [of p m env] Suc.prems(2)
      unfolding p(1) by (simp only: prove_walk.simps Let_def if_True simp_thms)
    moreover have "value_at t storage (spec_hash env (Suc k) m) = Inr (m p)"
      using value_at_default [OF Suc.prems(1)] spec_hash_empty [OF True, of env] True Suc.prems(2)
      by (simp add: empty_at_def del: spec_hash.simps)
    ultimately show ?thesis by blast
  next
    case False
    from Suc.IH [OF subtree_rep_sub [OF Suc.prems(1)] p(2), of b] obtain h where
      h: "prove_walk t storage (TREE_DEPTH - k) q (spec_hash env k (sub m b)) = Inr (spec_siblings env (sub m b) q, h)"
        "value_at t storage h = Inr (sub m b q)" by blast
    have "prove_walk t storage (TREE_DEPTH - Suc k) p (spec_hash env (Suc k) m) = Inr (spec_siblings env m p, h)"
      using False subtree_default_iff [OF Suc.prems(1)] subtree_node [OF Suc.prems(1) False] depth_step [OF k] h(1) p(2)
      unfolding p(1) by (cases b) (simp_all add: Let_def del: spec_hash.simps)
    moreover have "m p = sub m b q" using p by (simp add: sub_apply)
    ultimately show ?thesis using h(2) by simp
  qed
qed

lemma trie_rep_prove:
  assumes "trie_rep env M storage t m" "length key = 32"
  shows "smt_prove t storage key = Inr \<lparr>sp_key = key, sp_value = m (key_to_path key),
    sp_siblings = spec_siblings env m (key_to_path key), sp_root = smt_root_hash t\<rparr>"
proof -
  from assms(1) obtain N where r: "smt_root_hash t = spec_hash env TREE_DEPTH m" "subtree_rep env M t storage N TREE_DEPTH m"
    by (auto simp: trie_rep_def)
  from prove_walk_correct [OF r(2) length_key_to_path [OF assms(2)]] obtain h where
    h: "prove_walk t storage 0 (key_to_path key) (smt_root_hash t) = Inr (spec_siblings env m (key_to_path key), h)"
      "value_at t storage h = Inr (m (key_to_path key))" unfolding r(1) by auto
  then show ?thesis
    using length_key_to_path [OF assms(2)] unfolding smt_prove_def value_at_def [symmetric] by simp
qed

lemma spec_proof_verifies:
  "length (key_to_path key) = TREE_DEPTH \<Longrightarrow> sparse_verify env \<lparr>sp_key = key, sp_value = m (key_to_path key),
    sp_siblings = spec_siblings env m (key_to_path key), sp_root = spec_hash env TREE_DEPTH m\<rparr>"
proof -
  assume l: "length (key_to_path key) = TREE_DEPTH"
  let ?s = "spec_siblings env m (key_to_path key)"
  have "map (sibling_at env ?s) [0 ..< length (key_to_path key)] = ?s"
    by (rule nth_equalityI) (simp_all add: sibling_at_def)
  then show ?thesis using path_hash_spec [of env m "key_to_path key"] l by (simp add: sparse_verify_iff)
qed

text \<open>The messages hashed to verify a proof.\<close>

definition sparse_proof_msgs :: "crypto_env \<Rightarrow> SparseProof \<Rightarrow> bytes set" where
  "sparse_proof_msgs env p = set_option (sp_value p)
     \<union> path_msgs env (leaf_hash_of env (sp_value p)) (key_to_path (sp_key p))
         (map (sibling_at env (sp_siblings p)) [0 ..< length (key_to_path (sp_key p))])"

lemma path_hash_length: "digest_32 env \<Longrightarrow> length lh = 32 \<Longrightarrow> length (path_hash env lh p ss) = 32"
  by (cases p) (simp_all add: hash_pair_def)

lemma length_leaf_hash [simp]: "digest_32 env \<Longrightarrow> length (leaf_hash_of env x) = 32"
  by (simp add: leaf_hash_of_def hash_bytes_def EMPTY_HASH_def split: option.split)

lemma path_hash_unique:
  assumes "hash_safe env M" "set_option x \<subseteq> M"
  shows "msgs env (length p) m \<subseteq> M \<Longrightarrow> path_msgs env (leaf_hash_of env x) p ss \<subseteq> M \<Longrightarrow>
    \<forall>s \<in> set ss. length s = 32 \<Longrightarrow> length p \<le> length ss \<Longrightarrow>
    path_hash env (leaf_hash_of env x) p ss = spec_hash env (length p) m \<Longrightarrow> x = m p"
proof (induction p arbitrary: m ss)
  case Nil
  then show ?case using leaf_hash_inj [OF assms, of "m []"] by simp
next
  case (Cons b p)
  from Cons.prems(4) obtain s ts where ss: "ss = s # ts" by (cases ss) auto
  have s: "length s = 32" "length (path_hash env (leaf_hash_of env x) p ts) = 32"
    using Cons.prems(3) ss assms(1) by (simp_all add: path_hash_length)
  have "path_hash env (leaf_hash_of env x) p ts = spec_hash env (length p) (sub m b)"
  proof (cases b)
    case True
    then show ?thesis
      using Cons.prems(1,2,5) hash_pair_inj [OF assms(1), of s "path_hash env (leaf_hash_of env x) p ts"] s(1) assms(1)
      unfolding ss by simp
  next
    case False
    then show ?thesis
      using Cons.prems(1,2,5) hash_pair_inj [OF assms(1), of "path_hash env (leaf_hash_of env x) p ts" s] s(2) assms(1)
      unfolding ss by simp
  qed
  moreover have "msgs env (length p) (sub m b) \<subseteq> M" using msgs_sub [of env "length p" m M b] Cons.prems(1) by (simp only: list.size(4) One_nat_def add_Suc_right add_0_right)
  ultimately have "x = sub m b p" using Cons.prems(2-4) ss by (intro Cons.IH [of _ ts]) simp_all
  then show ?case by (simp add: sub_apply)
qed

section \<open>Multiproofs\<close>

text \<open>The rest of a key's path below the subtree of height \<open>k\<close>.\<close>

definition suffix_at :: "bool list list \<Rightarrow> nat \<Rightarrow> nat \<Rightarrow> bool list" where
  "suffix_at paths k i = drop (TREE_DEPTH - k) (paths ! i)"

lemma suffix_at_Suc:
  "length (paths ! i) = TREE_DEPTH \<Longrightarrow> Suc k \<le> TREE_DEPTH \<Longrightarrow>
   suffix_at paths (Suc k) i = paths ! i ! (TREE_DEPTH - Suc k) # suffix_at paths k i"
  unfolding suffix_at_def using Cons_nth_drop_Suc [of "TREE_DEPTH - Suc k" "paths ! i"] by (simp add: Suc_diff_Suc)

text \<open>
  What a round of \<open>prove_multi_recursive\<close> delivers for the keys \<open>idxs\<close> of a subtree:
  their values, and helper nodes from which \<open>verify_recursive\<close> recomputes the subtree's hash
  and which it uses up exactly.
\<close>

definition multi_ok ::
  "crypto_env \<Rightarrow> bool list list \<Rightarrow> nat \<Rightarrow> tmap \<Rightarrow> nat list \<Rightarrow> bytes option list \<Rightarrow> bytes option list \<Rightarrow> (bytes \<times> nat) list \<Rightarrow> bool" where
  "multi_ok env paths k m idxs vs0 vs H \<longleftrightarrow> length vs = length vs0
     \<and> (\<forall>i < length vs0. vs ! i = (if i \<in> set idxs then m (suffix_at paths k i) else vs0 ! i))
     \<and> (\<forall>pre post leaves. (\<forall>i \<in> set idxs. i < length leaves \<and> leaves ! i = leaf_hash_of env (m (suffix_at paths k i))) \<longrightarrow>
          verify_recursive env (pre @ H @ post) paths leaves k idxs (length pre)
            = Some (spec_hash env k m, length pre + length H))"

lemma multi_okD:
  assumes "multi_ok env paths k m idxs vs0 vs H"
    "\<forall>i \<in> set idxs. i < length leaves \<and> leaves ! i = leaf_hash_of env (m (suffix_at paths k i))"
  shows "verify_recursive env (pre @ H @ post) paths leaves k idxs (length pre) = Some (spec_hash env k m, length pre + length H)"
  using assms unfolding multi_ok_def by blast

lemma fold_list_update_same:
  "length (fold (\<lambda>i vs. vs[i := x]) is vs) = length vs"
  "j < length vs \<Longrightarrow> fold (\<lambda>i vs. vs[i := x]) is vs ! j = (if j \<in> set is then x else vs ! j)"
  by (induction "is" arbitrary: vs) (auto simp: nth_list_update)

lemma prove_multi_leaf:
  assumes "subtree_rep env M t storage N 0 m" "idxs \<noteq> []" "\<forall>i \<in> set idxs. i < length vs0 \<and> vs0 ! i = None"
    "\<forall>i \<in> set idxs. length (paths ! i) = TREE_DEPTH"
  shows "\<exists>vs. prove_multi_recursive t storage paths 0 (spec_hash env 0 m) idxs (vs0, hs) = Inr (vs, hs @ [])
    \<and> multi_ok env paths 0 m idxs vs0 vs []"
proof -
  have e: "smt_default_hashes t ! TREE_DEPTH = EMPTY_HASH"
    using subtree_default [OF assms(1)] by (simp add: leaf_hash_of_def)
  have s: "suffix_at paths 0 i = []" if "i \<in> set idxs" for i using assms(4) that by (simp add: suffix_at_def)
  define vs where "vs = fold (\<lambda>i vs. vs[i := m []]) idxs vs0"
  have vals: "length vs = length vs0 \<and> (\<forall>i < length vs0. vs ! i = (if i \<in> set idxs then m (suffix_at paths 0 i) else vs0 ! i))"
    using s by (auto simp: vs_def fold_list_update_same)
  have "prove_multi_recursive t storage paths 0 (spec_hash env 0 m) idxs (vs0, hs) = Inr (vs, hs @ [])"
  proof (cases "m []")
    case None
    have "vs = vs0"
      by (rule nth_equalityI) (use assms(3) None in \<open>auto simp: vs_def fold_list_update_same\<close>)
    then show ?thesis using None by (simp add: leaf_hash_of_def)
  next
    case (Some v)
    then have "hash_bytes env v \<noteq> EMPTY_HASH"
      using subtree_default_iff [OF assms(1)] e by (auto simp: empty_at_def leaf_hash_of_def)
    moreover have "smt_get_node t storage (hash_bytes env v) = Inr (Some (TrieNode_leaf v))"
      using assms(1) Some by (simp add: subtree_rep_def node_map_def)
    ultimately show ?thesis using Some by (simp add: leaf_hash_of_def vs_def)
  qed
  moreover have "multi_ok env paths 0 m idxs vs0 vs []"
  proof -
    obtain i rest where "idxs = i # rest" using assms(2) by (cases idxs) auto
    then show ?thesis using vals s unfolding multi_ok_def by (auto simp: leaf_hash_of_def)
  qed
  ultimately show ?thesis by blast
qed

text \<open>The hashes of the two children, as \<open>prove_multi_recursive\<close> looks them up.\<close>

lemma multi_children:
  assumes "subtree_rep env M t storage N (Suc k) m"
  shows "(if spec_hash env (Suc k) m = smt_default_hashes t ! (TREE_DEPTH - Suc k)
      then Inr (smt_default_hashes t ! (TREE_DEPTH - Suc k + 1), smt_default_hashes t ! (TREE_DEPTH - Suc k + 1))
      else map_sum id (\<lambda>node. children (smt_default_hashes t) (TREE_DEPTH - Suc k) (unwrap_or node TrieNode_empty))
             (smt_get_node t storage (spec_hash env (Suc k) m)))
    = Inr (spec_hash env k (sub m False), spec_hash env k (sub m True))"
proof (cases "empty_at (Suc k) m")
  case True
  have k: "Suc k \<le> TREE_DEPTH" using assms by (simp add: subtree_rep_def)
  from True have "spec_hash env k (sub m b) = dflt env k" for b
    by (intro spec_hash_empty) (auto simp: empty_at_def sub_apply)
  then show ?thesis
    using True subtree_default_iff [OF assms] subtree_default [OF subtree_rep_sub [OF assms]]
    by (simp only: depth_step [OF k] if_True)
next
  case False
  then show ?thesis using subtree_default_iff [OF assms] subtree_node [OF assms] by simp
qed

text \<open>The values after the keys of both subtrees have been served.\<close>

lemma suffix_value:
  "length (paths ! i) = TREE_DEPTH \<Longrightarrow> Suc k \<le> TREE_DEPTH \<Longrightarrow>
   m (suffix_at paths (Suc k) i) = sub m (paths ! i ! (TREE_DEPTH - Suc k)) (suffix_at paths k i)"
  by (simp add: suffix_at_Suc sub_apply)

lemma multi_ok_one_side:
  assumes "multi_ok env paths k (sub m b) idxs vs0 vs H" "idxs \<noteq> []" "Suc k \<le> TREE_DEPTH"
    "\<forall>i \<in> set idxs. length (paths ! i) = TREE_DEPTH \<and> paths ! i ! (TREE_DEPTH - Suc k) = b"
  shows "multi_ok env paths (Suc k) m idxs vs0 vs ((spec_hash env k (sub m (\<not> b)), TREE_DEPTH - Suc k) # H)"
proof -
  let ?h = "(spec_hash env k (sub m (\<not> b)), TREE_DEPTH - Suc k)"
  have v: "m (suffix_at paths (Suc k) i) = sub m b (suffix_at paths k i)" if "i \<in> set idxs" for i
    using suffix_value [of paths i k m] assms(3) bspec [OF assms(4) that] by simp
  have keys: "filter (\<lambda>i. paths ! i ! (TREE_DEPTH - Suc k)) idxs = (if b then idxs else [])"
    "filter (\<lambda>i. \<not> paths ! i ! (TREE_DEPTH - Suc k)) idxs = (if b then [] else idxs)"
    using assms(4) by (auto simp: filter_empty_conv filter_id_conv)
  have "verify_recursive env (pre @ (?h # H) @ post) paths leaves (Suc k) idxs (length pre)
      = Some (spec_hash env (Suc k) m, length pre + length (?h # H))"
    if "\<forall>i \<in> set idxs. i < length leaves \<and> leaves ! i = leaf_hash_of env (m (suffix_at paths (Suc k) i))" for pre post leaves
  proof -
    have "verify_recursive env ((pre @ [?h]) @ H @ post) paths leaves k idxs (length (pre @ [?h]))
        = Some (spec_hash env k (sub m b), length (pre @ [?h]) + length H)"
      by (rule multi_okD [OF assms(1)]) (use that v in auto)
    then show ?thesis using assms(2) by (cases b) (simp_all add: keys Let_def nth_append)
  qed
  then show ?thesis using assms(1) v unfolding multi_ok_def by auto
qed

lemma multi_ok_both:
  assumes "multi_ok env paths k (sub m False) L vs0 vs1 H1" "multi_ok env paths k (sub m True) R vs1 vs H2"
    "L = filter (\<lambda>i. \<not> paths ! i ! (TREE_DEPTH - Suc k)) idxs" "R = filter (\<lambda>i. paths ! i ! (TREE_DEPTH - Suc k)) idxs"
    "L \<noteq> []" "R \<noteq> []" "Suc k \<le> TREE_DEPTH" "\<forall>i \<in> set idxs. length (paths ! i) = TREE_DEPTH"
  shows "multi_ok env paths (Suc k) m idxs vs0 vs (H1 @ H2)"
proof -
  have v: "m (suffix_at paths (Suc k) i) = sub m (paths ! i ! (TREE_DEPTH - Suc k)) (suffix_at paths k i)" if "i \<in> set idxs" for i
    using suffix_value [of paths i k m] assms(7) bspec [OF assms(8) that] by blast
  have "verify_recursive env (pre @ (H1 @ H2) @ post) paths leaves (Suc k) idxs (length pre)
      = Some (spec_hash env (Suc k) m, length pre + length (H1 @ H2))"
    if "\<forall>i \<in> set idxs. i < length leaves \<and> leaves ! i = leaf_hash_of env (m (suffix_at paths (Suc k) i))" for pre post leaves
  proof -
    have "verify_recursive env (pre @ H1 @ (H2 @ post)) paths leaves k L (length pre)
        = Some (spec_hash env k (sub m False), length pre + length H1)"
      by (rule multi_okD [OF assms(1)]) (use that v assms(3) in auto)
    moreover have "verify_recursive env ((pre @ H1) @ H2 @ post) paths leaves k R (length (pre @ H1))
        = Some (spec_hash env k (sub m True), length (pre @ H1) + length H2)"
      by (rule multi_okD [OF assms(2)]) (use that v assms(4) in auto)
    ultimately show ?thesis using assms(3-6) by (simp add: Let_def)
  qed
  moreover have "vs ! i = (if i \<in> set idxs then m (suffix_at paths (Suc k) i) else vs0 ! i)" if "i < length vs0" for i
    using that assms(1-4) v unfolding multi_ok_def by (cases "paths ! i ! (TREE_DEPTH - Suc k)") auto
  ultimately show ?thesis using assms(1,2) unfolding multi_ok_def by simp
qed

lemma prove_multi_correct:
  "subtree_rep env M t storage N k m \<Longrightarrow> idxs \<noteq> [] \<Longrightarrow> \<forall>i \<in> set idxs. i < length vs0 \<and> vs0 ! i = None \<Longrightarrow>
   \<forall>i \<in> set idxs. length (paths ! i) = TREE_DEPTH \<Longrightarrow>
   \<exists>vs H. prove_multi_recursive t storage paths k (spec_hash env k m) idxs (vs0, hs) = Inr (vs, hs @ H)
     \<and> multi_ok env paths k m idxs vs0 vs H"
proof (induction k arbitrary: m idxs vs0 hs)
  case 0
  from prove_multi_leaf [OF 0] show ?case by blast
next
  case (Suc k)
  let ?d = "TREE_DEPTH - Suc k"
  define L where "L = filter (\<lambda>i. \<not> paths ! i ! ?d) idxs"
  define R where "R = filter (\<lambda>i. paths ! i ! ?d) idxs"
  have k: "Suc k \<le> TREE_DEPTH" using Suc.prems(1) by (simp add: subtree_rep_def)
  note rep = subtree_rep_sub [OF Suc.prems(1)]
  let ?l = "spec_hash env k (sub m False)" and ?r = "spec_hash env k (sub m True)"
  have step: "prove_multi_recursive t storage paths (Suc k) (spec_hash env (Suc k) m) idxs (vs0, hs) =
      (if L = [] then prove_multi_recursive t storage paths k ?r R (vs0, hs @ [(?l, ?d)])
       else if R = [] then prove_multi_recursive t storage paths k ?l L (vs0, hs @ [(?r, ?d)])
       else (case prove_multi_recursive t storage paths k ?l L (vs0, hs) of
               Inl e \<Rightarrow> Inl e | Inr acc \<Rightarrow> prove_multi_recursive t storage paths k ?r R acc))"
    unfolding prove_multi_recursive.simps L_def R_def Let_def prod.case multi_children [OF Suc.prems(1)] sum.case by (rule refl)
  have sub: "set L \<subseteq> set idxs" "set R \<subseteq> set idxs" by (auto simp: L_def R_def)
  show ?case
  proof (cases "L = []")
    case True
    then have R: "R = idxs" by (auto simp: L_def R_def filter_empty_conv filter_id_conv)
    from Suc.IH [OF rep [of True] Suc.prems(2-4), of "hs @ [(?l, ?d)]"] obtain vs H where
      vs: "prove_multi_recursive t storage paths k ?r idxs (vs0, hs @ [(?l, ?d)]) = Inr (vs, (hs @ [(?l, ?d)]) @ H)"
        "multi_ok env paths k (sub m True) idxs vs0 vs H" by blast
    have "\<forall>i \<in> set idxs. paths ! i ! ?d" using True by (simp add: L_def filter_empty_conv)
    then have "multi_ok env paths (Suc k) m idxs vs0 vs ((?l, ?d) # H)"
      using multi_ok_one_side [OF vs(2) Suc.prems(2) k] Suc.prems(4) by simp
    then show ?thesis unfolding step using True vs(1) R by (intro exI [of _ vs] exI [of _ "(?l, ?d) # H"]) simp
  next
    case L: False
    show ?thesis
    proof (cases "R = []")
      case True
      then have L: "L = idxs" by (auto simp: L_def R_def filter_empty_conv filter_id_conv)
      from Suc.IH [OF rep [of False] Suc.prems(2-4), of "hs @ [(?r, ?d)]"] obtain vs H where
        vs: "prove_multi_recursive t storage paths k ?l idxs (vs0, hs @ [(?r, ?d)]) = Inr (vs, (hs @ [(?r, ?d)]) @ H)"
          "multi_ok env paths k (sub m False) idxs vs0 vs H" by blast
      have "\<forall>i \<in> set idxs. \<not> paths ! i ! ?d" using True by (simp add: R_def filter_empty_conv)
      then have "multi_ok env paths (Suc k) m idxs vs0 vs ((?r, ?d) # H)"
        using multi_ok_one_side [OF vs(2) Suc.prems(2) k] Suc.prems(4) by simp
      then show ?thesis unfolding step using True vs(1) L Suc.prems(2) by (intro exI [of _ vs] exI [of _ "(?r, ?d) # H"]) simp
    next
      case R: False
      from Suc.IH [OF rep [of False] L, of vs0 hs] sub(1) Suc.prems(3,4) obtain vs1 H1 where
        v1: "prove_multi_recursive t storage paths k ?l L (vs0, hs) = Inr (vs1, hs @ H1)"
          "multi_ok env paths k (sub m False) L vs0 vs1 H1" by blast
      have "\<forall>i \<in> set R. i < length vs1 \<and> vs1 ! i = None"
        using v1(2) Suc.prems(3) sub(2) unfolding multi_ok_def by (auto simp: L_def R_def)
      with Suc.IH [OF rep [of True] R, of vs1 "hs @ H1"] sub(2) Suc.prems(4) obtain vs H2 where
        v2: "prove_multi_recursive t storage paths k ?r R (vs1, hs @ H1) = Inr (vs, (hs @ H1) @ H2)"
          "multi_ok env paths k (sub m True) R vs1 vs H2" by blast
      have "multi_ok env paths (Suc k) m idxs vs0 vs (H1 @ H2)"
        by (rule multi_ok_both [OF v1(2) v2(2) L_def R_def L R k Suc.prems(4)])
      then show ?thesis unfolding step using L R v1(1) v2(1) by (intro exI [of _ vs] exI [of _ "H1 @ H2"]) simp
    qed
  qed
qed

end
