(* ===== verification/Rinku_Sparse_Properties.thy ===== *)
theory Rinku_Sparse_Properties
  imports Rinku_Sparse_Proofs
begin

text \<open>
  The properties of the sparse Merkle trie, and a small environment in which their
  hypotheses hold: a digest that numbers the nodes of a tree with one entry.
\<close>

section \<open>Sequences of operations\<close>

datatype trie_op = SetOp bytes bytes | DeleteOp bytes

primrec trie_apply :: "crypto_env \<Rightarrow> trie_storage \<Rightarrow> trie_op \<Rightarrow> SparseMerkleTrie \<Rightarrow> SparseMerkleTrie" where
  "trie_apply env storage (SetOp key v) t = fst (smt_set env storage key v t)"
| "trie_apply env storage (DeleteOp key) t = fst (smt_delete env storage key t)"

primrec map_apply :: "trie_op \<Rightarrow> tmap \<Rightarrow> tmap" where
  "map_apply (SetOp key v) m = m(key_to_path key \<mapsto> v)"
| "map_apply (DeleteOp key) m = m(key_to_path key := None)"

text \<open>Keys are hashes; the only values left out are those that spell two node hashes of the run.\<close>

primrec op_wf :: "crypto_env \<Rightarrow> bytes set \<Rightarrow> trie_op \<Rightarrow> bool" where
  "op_wf env M (SetOp key v) \<longleftrightarrow> length key = 32 \<and> \<not> spells_node env M v"
| "op_wf env M (DeleteOp key) \<longleftrightarrow> length key = 32"

definition op_ok :: "crypto_env \<Rightarrow> bytes set \<Rightarrow> trie_op \<Rightarrow> tmap \<Rightarrow> bool" where
  "op_ok env M op m \<longleftrightarrow> op_wf env M op \<and> msgs env TREE_DEPTH (map_apply op m) \<subseteq> M"

interpretation trie: simulation "trie_rep env M storage" "trie_apply env storage" map_apply "op_ok env M"
  for env M storage
proof unfold_locales
  fix c a op assume r: "trie_rep env M storage c a" and g: "op_ok env M op a"
  show "trie_rep env M storage (trie_apply env storage op c) (map_apply op a)"
  proof (cases op)
    case (SetOp key v)
    then show ?thesis using trie_rep_set [OF r, of key v] g by (auto simp: op_ok_def)
  next
    case (DeleteOp key)
    then show ?thesis using trie_rep_delete [OF r, of key] g by (auto simp: op_ok_def)
  qed
qed

text \<open>Every map on the way stays within the safe messages.\<close>

primrec ops_ok :: "crypto_env \<Rightarrow> bytes set \<Rightarrow> trie_op list \<Rightarrow> tmap \<Rightarrow> bool" where
  "ops_ok env M [] m \<longleftrightarrow> True"
| "ops_ok env M (op # ops) m \<longleftrightarrow> op_ok env M op m \<and> ops_ok env M ops (map_apply op m)"

lemma ops_ok_guarded: "ops_ok env M ops m = trie.guarded env M ops m"
  by (induction ops arbitrary: m) simp_all

definition run_trie :: "crypto_env \<Rightarrow> trie_op list \<Rightarrow> SparseMerkleTrie" where
  "run_trie env ops = fold (trie_apply env None) ops (SparseMerkleTrie_new env)"

definition run_map :: "trie_op list \<Rightarrow> tmap" where
  "run_map ops = fold map_apply ops (\<lambda>_. None)"

lemma run_rep:
  "hash_safe env M \<Longrightarrow> ops_ok env M ops (\<lambda>_. None) \<Longrightarrow> trie_rep env M None (run_trie env ops) (run_map ops)"
  unfolding run_trie_def run_map_def by (intro trie.sim_run trie_rep_new) (simp_all add: ops_ok_guarded)

section \<open>A small environment\<close>

text \<open>
  A digest that numbers the nodes of a tree with one entry: the empty subtree of height
  \<open>k\<close> is node \<open>k\<close>, the subtree of height \<open>k\<close> holding the entry is node
  \<open>1000 + k\<close>.
\<close>

definition node_number :: "nat \<Rightarrow> bytes" where
  "node_number n = [word_of_nat (n mod 256), word_of_nat (n div 256)] @ replicate 30 0"

definition number_of :: "bytes \<Rightarrow> nat" where
  "number_of b = unat (b ! 0) + 256 * unat (b ! 1)"

definition is_pair :: "bytes \<Rightarrow> bool" where
  "is_pair d \<longleftrightarrow> length d = 64 \<and> drop 2 (take 32 d) = replicate 30 0 \<and> drop 34 d = replicate 30 0"

definition numbering_digest :: "bytes \<Rightarrow> bytes" where
  "numbering_digest d =
     (if is_pair d then node_number (max (number_of (take 32 d)) (number_of (drop 32 d)) + 1) else node_number 1000)"

definition numbering_env :: crypto_env where
  "numbering_env = sample_env\<lparr>sha256_digest := numbering_digest\<rparr>"

primrec entry_messages :: "bool list \<Rightarrow> bytes set" where
  "entry_messages [] = {}"
| "entry_messages (b # p) =
     insert (if b then node_number (length p) @ node_number (1000 + length p) else node_number (1000 + length p) @ node_number (length p))
       (entry_messages p)"

definition numbered_messages :: "bool list \<Rightarrow> bytes \<Rightarrow> bytes set" where
  "numbered_messages p v = insert v ((\<lambda>i. node_number i @ node_number i) ` {..< 256} \<union> entry_messages p)"

definition left_key :: bytes where "left_key = replicate 32 0"

lemma length_node_number [simp]: "length (node_number n) = 32"
  by (simp add: node_number_def)

lemma number_of_node [simp]: "n < 65536 \<Longrightarrow> number_of (node_number n) = n"
  by (simp add: number_of_def node_number_def unat_of_nat)

lemma node_number_eq [simp]: "a < 65536 \<Longrightarrow> b < 65536 \<Longrightarrow> node_number a = node_number b \<longleftrightarrow> a = b"
  using number_of_node by metis

lemma node_number_0: "node_number 0 = EMPTY_HASH"
  by code_simp

lemma is_pair_nodes [simp]: "is_pair (node_number a @ node_number b)"
  by (simp add: is_pair_def node_number_def)

lemma numbering_pair [simp]:
  "a < 60000 \<Longrightarrow> b < 60000 \<Longrightarrow> sha256 numbering_env (node_number a @ node_number b) = node_number (max a b + 1)"
  by (simp add: sha256_def numbering_env_def numbering_digest_def is_pair_nodes)

lemma numbering_leaf [simp]: "\<not> is_pair v \<Longrightarrow> sha256 numbering_env v = node_number 1000"
  by (simp add: sha256_def numbering_env_def numbering_digest_def)

lemma numbering_digest_32: "digest_32 numbering_env"
  by (simp add: digest_32_def numbering_env_def numbering_digest_def)

lemma numbering_empty: "k \<le> 256 \<Longrightarrow> spec_hash numbering_env k (\<lambda>_. None) = node_number k"
  by (induction k) (simp_all add: hash_pair_def leaf_hash_of_def node_number_0)

definition single_entry :: "bool list \<Rightarrow> bytes \<Rightarrow> tmap" where
  "single_entry p v = [p \<mapsto> v]"

lemma single_entry_sub [simp]:
  "sub (single_entry (b # p) v) b' = (if b' = b then single_entry p v else (\<lambda>_. None))"
  unfolding single_entry_def sub_update by simp

lemma single_entry_at [simp]: "single_entry p v p = Some v"
  by (simp add: single_entry_def)

lemma numbering_single:
  "length p \<le> 256 \<Longrightarrow> \<not> is_pair v \<Longrightarrow> spec_hash numbering_env (length p) (single_entry p v) = node_number (1000 + length p)"
  by (induction p) (auto simp: hash_pair_def leaf_hash_of_def hash_bytes_def numbering_empty)

lemma numbered_empty: "k \<le> 256 \<Longrightarrow> msgs numbering_env k (\<lambda>_. None) \<subseteq> numbered_messages p v"
  by (induction k) (auto simp: numbering_empty numbered_messages_def)

lemma numbered_single:
  "length p \<le> 256 \<Longrightarrow> \<not> is_pair v \<Longrightarrow> msgs numbering_env (length p) (single_entry p v) \<subseteq> numbered_messages p v"
proof (induction p)
  case (Cons b p)
  then show ?case using numbered_empty [of "length p" p v] by (auto simp: numbering_empty numbering_single numbered_messages_def)
qed (simp add: numbered_messages_def)

lemma entry_message_digest:
  "length p \<le> 256 \<Longrightarrow> d \<in> entry_messages p \<Longrightarrow>
   \<exists>i < length p. sha256 numbering_env d = node_number (1001 + i) \<and> (d = node_number i @ node_number (1000 + i) \<or> d = node_number (1000 + i) @ node_number i)"
  by (induction p) (auto split: if_splits simp: less_Suc_eq)

lemma entry_messages_inj: "length p \<le> 256 \<Longrightarrow> inj_on (sha256 numbering_env) (entry_messages p)"
proof (induction p)
  case (Cons b p)
  have "node_number (1001 + length p) \<notin> sha256 numbering_env ` entry_messages p"
  proof
    assume "node_number (1001 + length p) \<in> sha256 numbering_env ` entry_messages p"
    then obtain d where "d \<in> entry_messages p" "node_number (1001 + length p) = sha256 numbering_env d" by blast
    with entry_message_digest [of p d] Cons.prems show False by auto
  qed
  then have "node_number (1001 + length p) \<notin> sha256 numbering_env ` (entry_messages p - X)" for X by blast
  with Cons show ?case by simp
qed simp

lemma image_disjointI: "(\<And>d. d \<in> B \<Longrightarrow> f d \<notin> f ` A) \<Longrightarrow> f ` (A - X) \<inter> f ` (B - Y) = {}"
proof (rule ccontr)
  assume h: "\<And>d. d \<in> B \<Longrightarrow> f d \<notin> f ` A" and "f ` (A - X) \<inter> f ` (B - Y) \<noteq> {}"
  then obtain a b where "a \<in> A" "b \<in> B" "f a = f b" by auto
  then show False using h [of b] by (metis imageI)
qed

lemma numbering_safe:
  assumes "length p \<le> 256" "\<not> is_pair v"
  shows "hash_safe numbering_env (numbered_messages p v)"
proof -
  let ?A = "insert v ((\<lambda>i. node_number i @ node_number i) ` {..< 256})"
  have e: "sha256 numbering_env d \<notin> sha256 numbering_env ` ?A \<and> sha256 numbering_env d \<noteq> EMPTY_HASH"
    if "d \<in> entry_messages p" for d
    using entry_message_digest [OF assms(1) that] assms by (auto simp: image_iff simp flip: node_number_0)
  have disj: "sha256 numbering_env ` (?A - X) \<inter> sha256 numbering_env ` (entry_messages p - Y) = {}" for X Y
    by (rule image_disjointI) (erule e [THEN conjunct1])
  have "inj_on (sha256 numbering_env) ?A" by (rule inj_onI) (use assms in auto)
  then have "inj_on (sha256 numbering_env) (?A \<union> entry_messages p)"
    unfolding inj_on_Un by (intro conjI entry_messages_inj [OF assms(1)] disj)
  then have "inj_on (sha256 numbering_env) (numbered_messages p v)" by (simp add: numbered_messages_def)
  moreover have "\<forall>d \<in> numbered_messages p v. sha256 numbering_env d \<noteq> EMPTY_HASH"
    using e assms by (auto simp: numbered_messages_def simp flip: node_number_0)
  ultimately show ?thesis
    using numbered_empty [of 256 p v] by (simp add: hash_safe_def numbering_digest_32 TREE_DEPTH_def)
qed

lemma numbering_not_spelled: "\<not> is_pair v \<Longrightarrow> \<not> spells_node numbering_env M v"
proof -
  have "\<exists>n. h = node_number n" if "h \<in> node_hashes numbering_env M" for h
    using that by (auto simp: node_hashes_def sha256_def numbering_env_def numbering_digest_def node_number_0 [symmetric])
  then show "\<not> is_pair v \<Longrightarrow> \<not> spells_node numbering_env M v" unfolding spells_node_def using is_pair_nodes by metis
qed

lemma not_pair_short [simp]: "length v \<noteq> 64 \<Longrightarrow> \<not> is_pair v"
  by (simp add: is_pair_def)

lemma left_key_path: "key_to_path left_key = replicate 256 False"
  by code_simp

lemma length_left_key [simp]: "length left_key = 32"
  by (simp add: left_key_def)

abbreviation left_messages :: "bytes set" where
  "left_messages \<equiv> numbered_messages (replicate 256 False) [1]"

lemma left_safe: "hash_safe numbering_env left_messages"
  by (rule numbering_safe) simp_all

lemma numbering_op:
  assumes "length key = 32" "\<not> is_pair v"
  shows "ops_ok numbering_env (numbered_messages (key_to_path key) v) [SetOp key v] (\<lambda>_. None)"
  using numbered_single [of "key_to_path key" v] assms length_key_to_path [of key]
  by (simp add: op_ok_def TREE_DEPTH_def single_entry_def numbering_not_spelled)

lemma numbering_ops: "ops_ok numbering_env left_messages [SetOp left_key [1]] (\<lambda>_. None)"
  using numbering_op [of left_key "[1]"] by (simp add: left_key_path)

lemma numbering_ops_delete:
  "ops_ok numbering_env left_messages [SetOp left_key [1], DeleteOp left_key] (\<lambda>_. None)"
  using numbering_ops numbered_empty [of 256 "replicate 256 False" "[1]"] by (simp add: op_ok_def left_key_path TREE_DEPTH_def)

section \<open>The trie as a map\<close>

text \<open>
  C9: the trie refines a map. After any sequence of insertions and deletions of 32-byte keys,
  every key reads what the last operation on it wrote, the root is the hash of the full tree over
  that map (so it does not depend on the order or the history of the operations), and
  \<open>prove\<close> returns a proof of the key's value, or of its absence, that verifies. Two
  conditions: the messages hashed are free of collisions and of preimages of the empty hash, and
  no value written is the concatenation of two node hashes of the run, since leaves and inner
  nodes are hashed alike and its leaf would overwrite that inner node.
\<close>
theorem trie_refines_map:
  assumes "hash_safe env M" "ops_ok env M ops (\<lambda>_. None)" "length key = 32"
  shows "smt_get (run_trie env ops) None key = Inr (run_map ops (key_to_path key))
    \<and> smt_root_hash (run_trie env ops) = spec_hash env TREE_DEPTH (run_map ops)
    \<and> (\<exists>p. smt_prove (run_trie env ops) None key = Inr p \<and> sparse_verify env p \<and> sp_key p = key
        \<and> sp_value p = run_map ops (key_to_path key) \<and> sp_root p = smt_root_hash (run_trie env ops))"
proof -
  note r = run_rep [OF assms(1,2)]
  have root: "smt_root_hash (run_trie env ops) = spec_hash env TREE_DEPTH (run_map ops)"
    using r by (simp add: trie_rep_def)
  from trie_rep_get [OF r assms(3)] trie_rep_prove [OF r assms(3)]
    spec_proof_verifies [OF length_key_to_path [OF assms(3)], of env "run_map ops"]
  show ?thesis by (simp add: root)
qed

text \<open>An account entry of 64 bytes.\<close>

definition long_entry :: bytes where
  "long_entry = as_bytes ''account:0123456789abcdef0123456789abcdef01234567:10000000000:0:0''"

lemma long_entry_64: "length long_entry = 64 \<and> \<not> is_pair long_entry"
  by code_simp

theorem trie_refines_map_witness:
  "smt_get (run_trie numbering_env [SetOp left_key long_entry]) None left_key = Inr (Some long_entry) \<and> length long_entry = 64"
proof -
  have "hash_safe numbering_env (numbered_messages (replicate 256 False) long_entry)" by (rule numbering_safe) (simp_all add: long_entry_64)
  moreover have "ops_ok numbering_env (numbered_messages (replicate 256 False) long_entry) [SetOp left_key long_entry] (\<lambda>_. None)"
    using numbering_op [of left_key long_entry] by (simp add: left_key_path long_entry_64)
  ultimately show ?thesis using trie_refines_map [OF _ _ length_left_key] by (simp add: run_map_def long_entry_64)
qed

lemma run_map_domain: "list_all (op_wf env M) ops \<Longrightarrow> length p \<noteq> TREE_DEPTH \<Longrightarrow> run_map ops p = None"
proof -
  have "list_all (op_wf env M) ops \<Longrightarrow> m p = None \<Longrightarrow> length p \<noteq> TREE_DEPTH \<Longrightarrow> fold map_apply ops m p = None" for m
  proof (induction ops arbitrary: m)
    case (Cons op ops)
    then have "map_apply op m p = None" by (cases op) (auto simp: length_key_to_path)
    with Cons show ?case by simp
  qed simp
  then show "list_all (op_wf env M) ops \<Longrightarrow> length p \<noteq> TREE_DEPTH \<Longrightarrow> run_map ops p = None" by (simp add: run_map_def)
qed

lemma ops_ok_wf: "ops_ok env M ops m \<Longrightarrow> list_all (op_wf env M) ops"
  by (induction ops arbitrary: m) (auto simp: op_ok_def)

text \<open>
  C20: the root commits to the state: two tries have the same root exactly when their
  operations leave the same map, as long as the messages hashed by both are free of collisions
  and of preimages of the empty hash and no value written is the concatenation of two node
  hashes among them.
\<close>
theorem trie_root_commits:
  assumes "hash_safe env M" "ops_ok env M ops (\<lambda>_. None)" "ops_ok env M ops' (\<lambda>_. None)"
  shows "smt_root_hash (run_trie env ops) = smt_root_hash (run_trie env ops') \<longleftrightarrow> run_map ops = run_map ops'"
proof -
  note r = run_rep [OF assms(1,2)] run_rep [OF assms(1,3)]
  have m: "msgs env TREE_DEPTH (run_map ops) \<subseteq> M" "msgs env TREE_DEPTH (run_map ops') \<subseteq> M"
    using r by (auto simp: trie_rep_def subtree_rep_def)
  have "run_map ops = run_map ops'" if "spec_hash env TREE_DEPTH (run_map ops) = spec_hash env TREE_DEPTH (run_map ops')"
  proof
    fix p show "run_map ops p = run_map ops' p"
      using spec_hash_inj [OF assms(1) m that, of p] run_map_domain [OF ops_ok_wf [OF assms(2)], of p]
        run_map_domain [OF ops_ok_wf [OF assms(3)], of p] by (cases "length p = TREE_DEPTH") simp_all
  qed
  moreover have "smt_root_hash (run_trie env ops) = spec_hash env TREE_DEPTH (run_map ops)"
    "smt_root_hash (run_trie env ops') = spec_hash env TREE_DEPTH (run_map ops')" using r by (simp_all add: trie_rep_def)
  ultimately show ?thesis by auto
qed

theorem trie_root_commits_witness:
  "smt_root_hash (run_trie numbering_env [SetOp left_key [1], DeleteOp left_key]) \<noteq>
   smt_root_hash (run_trie numbering_env [SetOp left_key [1]])"
  using trie_root_commits [OF left_safe numbering_ops_delete numbering_ops]
  by (simp add: run_map_def fun_eq_iff)

text \<open>
  C19: proofs are sound: whatever proof \<open>verify\<close> accepts against the root of a trie, with
  however many siblings, carries the value the trie holds for its key. Neither a false value
  nor a false absence can be proved. The messages hashed by the trie and by the verification of
  the proof are free of collisions and of preimages of the empty hash, no value written to the
  trie is the concatenation of two node hashes among them, and the key and the siblings of the
  proof have 32 bytes.
\<close>
theorem sparse_proof_sound:
  assumes "hash_safe env M" "ops_ok env M ops (\<lambda>_. None)"
    and "sparse_verify env p" "sp_root p = smt_root_hash (run_trie env ops)"
    and "length (sp_key p) = 32" "\<forall>s \<in> set (sp_siblings p). length s = 32" "sparse_proof_msgs env p \<subseteq> M"
  shows "smt_get (run_trie env ops) None (sp_key p) = Inr (sp_value p)"
proof -
  note r = run_rep [OF assms(1,2)]
  let ?path = "key_to_path (sp_key p)" and ?m = "run_map ops"
  let ?ss = "map (sibling_at env (sp_siblings p)) [0 ..< length ?path]"
  have l: "length ?path = TREE_DEPTH" using assms(5) by (rule length_key_to_path)
  have "length (sibling_at env (sp_siblings p) i) = 32" if "i < TREE_DEPTH" for i
    using assms(1,6) that by (auto simp: sibling_at_def)
  then have ss: "\<forall>s \<in> set ?ss. length s = 32" using l by auto
  have "sp_value p = ?m ?path"
  proof (rule path_hash_unique [OF assms(1) _ _ _ ss])
    show "set_option (sp_value p) \<subseteq> M" "path_msgs env (leaf_hash_of env (sp_value p)) ?path ?ss \<subseteq> M"
      using assms(7) by (simp_all add: sparse_proof_msgs_def)
    show "msgs env (length ?path) ?m \<subseteq> M" using r l by (auto simp: trie_rep_def subtree_rep_def)
    show "path_hash env (leaf_hash_of env (sp_value p)) ?path ?ss = spec_hash env (length ?path) ?m"
      using assms(3,4) r unfolding sparse_verify_iff l trie_rep_def by metis
  qed simp
  then show ?thesis using trie_rep_get [OF r assms(5)] by simp
qed

lemma path_msgs_spec:
  "path_msgs env (leaf_hash_of env (m p)) p (spec_siblings env m p) \<subseteq> msgs env (length p) m"
proof (induction p arbitrary: m)
  case (Cons b p)
  have "m (b # p) = sub m b p" by (simp add: sub_apply)
  then show ?case using Cons [of "sub m b"] path_hash_spec [of env "sub m b" p] by (cases b) auto
qed simp

lemma numbering_root:
  "smt_root_hash (run_trie numbering_env [SetOp left_key [1]]) = spec_hash numbering_env 256 (single_entry (replicate 256 False) [1])"
  using run_rep [OF left_safe numbering_ops]
  by (simp add: trie_rep_def run_map_def left_key_path single_entry_def TREE_DEPTH_def)

definition numbering_proof :: SparseProof where
  "numbering_proof = \<lparr>sp_key = left_key, sp_value = Some [1],
     sp_siblings = map node_number (rev [0 ..< 256]),
     sp_root = smt_root_hash (run_trie numbering_env [SetOp left_key [1]])\<rparr>"

lemma numbering_siblings: "length p \<le> 256 \<Longrightarrow> spec_siblings numbering_env (single_entry p v) p = map node_number (rev [0 ..< length p])"
  by (induction p) (simp_all add: numbering_empty)

lemma numbering_proof_siblings:
  "map (sibling_at numbering_env (sp_siblings numbering_proof)) [0 ..< 256] = spec_siblings numbering_env (single_entry (replicate 256 False) [1]) (replicate 256 False)"
  by (rule nth_equalityI) (simp_all add: numbering_siblings numbering_proof_def sibling_at_def)

lemma numbering_proof_msgs: "sparse_proof_msgs numbering_env numbering_proof \<subseteq> left_messages"
  using path_msgs_spec [of numbering_env "single_entry (replicate 256 False) [1]" "replicate 256 False"] numbered_single [of "replicate 256 False" "[1]"]
    numbering_proof_siblings
  by (auto simp: sparse_proof_msgs_def numbering_proof_def left_key_path numbered_messages_def)

lemma numbering_proof_verifies: "sparse_verify numbering_env numbering_proof"
  using path_hash_spec [of numbering_env "single_entry (replicate 256 False) [1]" "replicate 256 False"] numbering_proof_siblings
    numbering_root
  by (simp add: sparse_verify_iff numbering_proof_def left_key_path)

theorem sparse_proof_sound_witness:
  "smt_get (run_trie numbering_env [SetOp left_key [1]]) None (sp_key numbering_proof) = Inr (sp_value numbering_proof)"
  by (rule sparse_proof_sound [OF left_safe numbering_ops numbering_proof_verifies _ _ _ numbering_proof_msgs])
    (auto simp: numbering_proof_def)

text \<open>
  \<open>prove_multi\<close> succeeds for every non-empty list of keys, with repetitions, present or
  absent: it returns the value of each key, and \<open>SparseMultiProof::verify\<close> accepts the proof,
  using up all of its helper nodes.
\<close>
theorem multi_proof_verifies:
  assumes "hash_safe env M" "ops_ok env M ops (\<lambda>_. None)" "keys \<noteq> []" "\<forall>k \<in> set keys. length k = 32"
  shows "\<exists>p. smt_prove_multi (run_trie env ops) None keys = Inr p \<and> multi_verify env p = Some True
    \<and> smp_keys p = keys \<and> smp_values p = map (\<lambda>k. run_map ops (key_to_path k)) keys
    \<and> smp_root p = smt_root_hash (run_trie env ops)"
proof -
  let ?t = "run_trie env ops" and ?m = "run_map ops" and ?paths = "map key_to_path keys"
  let ?n = "length keys" and ?v = "map (\<lambda>k. run_map ops (key_to_path k)) keys"
  from run_rep [OF assms(1,2)] obtain N where r: "smt_root_hash ?t = spec_hash env TREE_DEPTH ?m"
    "subtree_rep env M ?t None N TREE_DEPTH ?m" by (auto simp: trie_rep_def)
  have path: "suffix_at ?paths TREE_DEPTH i = key_to_path (keys ! i)" if "i < ?n" for i
    using that by (simp add: suffix_at_def)
  have "\<forall>i \<in> set [0 ..< ?n]. length (?paths ! i) = TREE_DEPTH"
    using assms(4) by (auto simp: length_key_to_path)
  with prove_multi_correct [OF r(2), of "[0 ..< ?n]" "replicate ?n None" ?paths "[]"] assms(3) obtain vs H where
    p: "prove_multi_recursive ?t None ?paths TREE_DEPTH (spec_hash env TREE_DEPTH ?m) [0 ..< ?n] (replicate ?n None, []) = Inr (vs, [] @ H)"
      "multi_ok env ?paths TREE_DEPTH ?m [0 ..< ?n] (replicate ?n None) vs H" by auto
  have vs: "vs = ?v"
    by (rule nth_equalityI) (use p(2) path in \<open>simp_all add: multi_ok_def\<close>)
  have "verify_recursive env ([] @ H @ []) ?paths (map (leaf_hash_of env) ?v) TREE_DEPTH [0 ..< ?n] (length ([] :: (bytes \<times> nat) list))
      = Some (spec_hash env TREE_DEPTH ?m, length ([] :: (bytes \<times> nat) list) + length H)"
    by (rule multi_okD [OF p(2)]) (simp add: path)
  then show ?thesis using p(1) vs r(1) assms(3) by (simp add: smt_prove_multi_def multi_verify_def)
qed

theorem multi_proof_verifies_witness:
  "\<exists>p. smt_prove_multi (run_trie numbering_env [SetOp left_key [1]]) None [left_key, replicate 32 255, left_key] = Inr p
     \<and> multi_verify numbering_env p = Some True \<and> smp_values p = [Some [1], None, Some [1]]"
proof -
  have "key_to_path (replicate 32 255) \<noteq> key_to_path left_key" by code_simp
  then show ?thesis
    using multi_proof_verifies [OF left_safe numbering_ops, of "[left_key, replicate 32 255, left_key]"]
    by (auto simp: run_map_def)
qed

section \<open>Writing back and forking\<close>

text \<open>
  Forking, and flushing when every write succeeds, move the dirty nodes behind the cache: no
  lookup changes.
\<close>

lemma hm_get_fold_insert:
  "distinct (map fst nodes) \<Longrightarrow> hm_get (fold (\<lambda>(h, n). hm_insert h n) nodes cache) h =
     (case map_of nodes h of Some n \<Rightarrow> Some n | None \<Rightarrow> hm_get cache h)"
proof (induction nodes arbitrary: cache)
  case (Cons e nodes)
  obtain a n where e: "e = (a, n)" by (cases e)
  with Cons.prems have "map_of nodes a = None" by (simp add: map_of_eq_None_iff)
  with Cons e show ?case by (auto split: option.splits)
qed simp

lemma fork_get_node:
  "distinct (map fst (smt_dirty_nodes t)) \<Longrightarrow> smt_get_node (fork t) storage h = smt_get_node t storage h"
  using hm_get_fold_insert [of "smt_dirty_nodes t" "smt_cache t" h]
  by (simp add: smt_get_node_def fork_def split: option.splits)

text \<open>
  A failed write loses the nodes not yet drained: the trie keeps its root, but a node it
  needs is in neither map nor in the database.
\<close>

lemma flush_failure_loses_nodes:
  assumes "put h n st = Inl e"
  shows "flush_to_storage id put \<lparr>smt_root_hash = h, smt_cache = [], smt_dirty_nodes = [(h, n)], smt_default_hashes = ds\<rparr> st =
    (\<lparr>smt_root_hash = h, smt_cache = [], smt_dirty_nodes = [], smt_default_hashes = ds\<rparr>, st, Inl e)"
  using assms by (simp add: flush_to_storage_def)

section \<open>Ambiguous preimages\<close>

text \<open>
  Leaves and inner nodes are hashed alike: a value that spells two child hashes is hashed
  to the parent of the two. This is why \<open>op_wf\<close> excludes such values.
\<close>

lemma leaf_is_inner_hash: "hash_bytes env (l @ r) = hash_pair env l r"
  by (simp add: hash_bytes_def hash_pair_def)

lemma hash_contract_key_ambiguous:
  "hash_contract_key env (a @ '':'' @ b) c = hash_contract_key env a (b @ '':'' @ c)"
  by (simp add: hash_contract_key_def as_bytes_def)

end
