(* ===== verification/Rinku_Contract.thy ===== *)
theory Rinku_Contract
  imports Rinku_Text Rinku_Crypto
begin

text \<open>
  The data of \<open>rinku-node/src/contracts.rs\<close>: gas accounting, the stored state of a
  contract, the result of a call with the changes it makes, and the hashes and identifiers
  derived from them. A JSON value stands for the text it prints as; the runtime that executes
  a contract is not part of this theory.
\<close>

type_synonym json_value = string
type_synonym contract_data = "(string, json_value) hash_map"

section \<open>Gas\<close>

record GasSchedule =
  gs_base_execution :: u64
  gs_storage_read :: u64
  gs_storage_write :: u64
  gs_storage_delete :: u64
  gs_memory_alloc :: u64
  gs_log :: u64
  gs_emit :: u64
  gs_hash :: u64
  gs_balance_check :: u64
  gs_account_age_check :: u64
  gs_transfer :: u64
  gs_mint :: u64
  gs_burn :: u64

definition default_schedule :: GasSchedule where
  "default_schedule =
     \<lparr>gs_base_execution = 1000, gs_storage_read = 200, gs_storage_write = 5000, gs_storage_delete = 5000,
      gs_memory_alloc = 3, gs_log = 100, gs_emit = 500, gs_hash = 300, gs_balance_check = 100,
      gs_account_age_check = 100, gs_transfer = 8000, gs_mint = 6000, gs_burn = 6000\<rparr>"

definition schedule_get :: "GasSchedule \<Rightarrow> string \<Rightarrow> u64 option" where
  "schedule_get s operation = map_of
     [(''base_execution'', gs_base_execution s), (''storage_read'', gs_storage_read s),
      (''storage_write'', gs_storage_write s), (''storage_delete'', gs_storage_delete s),
      (''memory_alloc'', gs_memory_alloc s), (''log'', gs_log s), (''emit'', gs_emit s), (''hash'', gs_hash s),
      (''balance_check'', gs_balance_check s), (''account_age_check'', gs_account_age_check s),
      (''transfer'', gs_transfer s), (''mint'', gs_mint s), (''burn'', gs_burn s)] operation"

record GasMeter =
  gm_gas_used :: u64
  gm_gas_limit :: u64
  gm_schedule :: GasSchedule

definition GasMeter_new :: "u64 \<Rightarrow> GasSchedule \<Rightarrow> GasMeter" where
  "GasMeter_new gas_limit schedule = \<lparr>gm_gas_used = 0, gm_gas_limit = gas_limit, gm_schedule = schedule\<rparr>"

definition charge_custom :: "u64 \<Rightarrow> GasMeter \<Rightarrow> GasMeter \<times> bool" where
  "charge_custom amount g =
     (let used = gm_gas_used g + amount in (g\<lparr>gm_gas_used := used\<rparr>, used \<le> gm_gas_limit g))"

definition charge :: "string \<Rightarrow> u64 \<Rightarrow> GasMeter \<Rightarrow> GasMeter \<times> bool" where
  "charge operation multiplier g =
     (let cost = unwrap_or (schedule_get (gm_schedule g) operation) 0 * multiplier;
          used = gm_gas_used g + cost
      in (g\<lparr>gm_gas_used := used\<rparr>, used \<le> gm_gas_limit g))"

definition gas_remaining :: "GasMeter \<Rightarrow> u64" where
  "gas_remaining g = saturating_sub (gm_gas_limit g) (gm_gas_used g)"

definition is_out_of_gas :: "GasMeter \<Rightarrow> bool" where
  "is_out_of_gas g \<longleftrightarrow> gm_gas_used g > gm_gas_limit g"

section \<open>Contracts\<close>

record ContractState =
  ct_contract_id :: string
  ct_creator :: string
  ct_wasm_base64 :: string
  ct_deploy_url :: string
  ct_state :: contract_data
  ct_state_hash :: string
  ct_height :: u64
  ct_created_at :: u64
  ct_schema :: "json_value option"

record StateChange =
  sc_key :: string
  sc_old_value :: "json_value option"
  sc_new_value :: "json_value option"

record StateDiff =
  sd_contract_id :: string
  sd_height :: u64
  sd_changes :: "StateChange list"
  sd_pre_hash :: string
  sd_post_hash :: string

record ContractEvent =
  cv_contract_id :: string
  cv_event_name :: string
  cv_data :: contract_data
  cv_index :: nat

record ExecutionResult =
  er_success :: bool
  er_state_diff :: "StateDiff option"
  er_gas_used :: u64
  er_error :: "string option"
  er_logs :: "string list"
  er_events :: "ContractEvent list"

datatype ContractTransactionData =
  Deploy (deploy_wasm_base64: string) (deploy_init_state: contract_data)
| Call (call_contract_id: string) (call_entrypoint: string) (call_input: contract_data)

section \<open>Hashes and identifiers\<close>

definition hex_nibble :: "nat \<Rightarrow> char" where
  "hex_nibble d = ''0123456789abcdef'' ! (d mod 16)"

text \<open>\<open>format!("{:02x}")\<close> and \<open>format!("{:08x}")\<close>.\<close>

definition hex_digits :: "nat \<Rightarrow> nat \<Rightarrow> string" where
  "hex_digits width n = map (\<lambda>i. hex_nibble (n div 16 ^ i)) (rev [0 ..< width])"

definition state_hash_step :: "char \<Rightarrow> u32 \<Rightarrow> u32" where
  "state_hash_step c h = push_bit 5 h - h + of_char c"

definition compute_state_hash :: "contract_data \<Rightarrow> string" where
  "compute_state_hash state =
     (let keys = sort (hm_keys state);
          parts = List.map_filter (\<lambda>key. map_option (\<lambda>value. key @ '':'' @ value) (hm_get state key)) keys;
          h = fold state_hash_step (join_with '','' parts) 0
      in hex_digits 8 (unat h))"

definition create_contract_id :: "crypto_env \<Rightarrow> string \<Rightarrow> u64 \<Rightarrow> string" where
  "create_contract_id env creator nonce =
     (let data = ''rinku:contract:'' @ creator @ '':'' @ show_u nonce;
          hash = sha256_digest env (as_bytes data)
      in ''sc_'' @ concat (map (\<lambda>b. hex_digits 2 (unat b)) (take 20 hash)))"

text \<open>\<open>iter\<close> is the iteration order of the set of keys.\<close>

definition compute_state_diff ::
  "(string list \<Rightarrow> string list) \<Rightarrow> string \<Rightarrow> u64 \<Rightarrow> contract_data \<Rightarrow> contract_data \<Rightarrow> StateDiff" where
  "compute_state_diff iter contract_id height old_state new_state =
     (let all_keys = remdups (hm_keys old_state @ hm_keys new_state);
          changes = map (\<lambda>key. \<lparr>sc_key = key, sc_old_value = hm_get old_state key, sc_new_value = hm_get new_state key\<rparr>)
            (filter (\<lambda>key. hm_get old_state key \<noteq> hm_get new_state key) (iter all_keys))
      in \<lparr>sd_contract_id = contract_id, sd_height = height, sd_changes = changes,
          sd_pre_hash = compute_state_hash old_state, sd_post_hash = compute_state_hash new_state\<rparr>)"

text \<open>How the node writes a diff into the stored state of a contract.\<close>

definition apply_change :: "StateChange \<Rightarrow> contract_data \<Rightarrow> contract_data" where
  "apply_change change state =
     (case sc_new_value change of
        Some new_value \<Rightarrow> hm_insert (sc_key change) new_value state
      | None \<Rightarrow> hm_remove (sc_key change) state)"

definition apply_state_diff :: "StateDiff option \<Rightarrow> contract_data \<Rightarrow> contract_data" where
  "apply_state_diff diff state = (case diff of None \<Rightarrow> state | Some d \<Rightarrow> fold apply_change (sd_changes d) state)"

section \<open>Diffs\<close>

lemma fold_apply_change_get:
  "distinct (map sc_key cs) \<Longrightarrow> hm_get (fold apply_change cs m) k =
     (case map_of (map (\<lambda>c. (sc_key c, sc_new_value c)) cs) k of Some v \<Rightarrow> v | None \<Rightarrow> hm_get m k)"
proof (induction cs arbitrary: m)
  case (Cons c cs)
  have "map_of (map (\<lambda>c. (sc_key c, sc_new_value c)) cs) (sc_key c) = None"
    using Cons.prems by (auto simp: map_of_eq_None_iff)
  then show ?case using Cons by (cases "k = sc_key c") (auto simp: apply_change_def split: option.splits)
qed simp

text \<open>
  C17: the diff of two contract states, written into the first, gives the second, in whatever
  order the changed keys are listed; so a node that stores results by their diff holds the
  state the contract left, with the hash the diff announces.
\<close>
theorem state_diff_roundtrip:
  assumes "iteration_order iter" "hm_wf old" "hm_wf new"
  shows "hm_get (apply_state_diff (Some (compute_state_diff iter cid height old new)) old) = hm_get new
    \<and> compute_state_hash (apply_state_diff (Some (compute_state_diff iter cid height old new)) old)
      = sd_post_hash (compute_state_diff iter cid height old new)"
proof -
  let ?keys = "remdups (hm_keys old @ hm_keys new)"
  let ?ks = "filter (\<lambda>key. hm_get old key \<noteq> hm_get new key) (iter ?keys)"
  let ?m = "apply_state_diff (Some (compute_state_diff iter cid height old new)) old"
  have d: "distinct (iter ?keys)" and s: "set (iter ?keys) = set ?keys"
    using mset_eq_imp_distinct_iff [of "iter ?keys" ?keys] assms(1) iteration_order_set [OF assms(1), of ?keys] by (simp_all add: iteration_order_def)
  have look: "map_of (map (\<lambda>k. (k, hm_get new k)) xs) k = (if k \<in> set xs then Some (hm_get new k) else None)" for xs k
    by (induction xs) auto
  have get: "hm_get ?m k = hm_get new k" for k
  proof -
    have "k \<in> set ?keys \<or> hm_get old k = None \<and> hm_get new k = None" by (auto simp: map_of_eq_None_iff)
    then show ?thesis using d s look [of ?ks k]
      by (auto simp: apply_state_diff_def compute_state_diff_def Let_def fold_apply_change_get comp_def)
  qed
  have wf: "hm_wf ?m"
  proof -
    have "hm_wf (fold apply_change cs m)" if "hm_wf m" for cs m
      using that by (induction cs arbitrary: m) (simp_all add: apply_change_def split: option.split)
    then show ?thesis using assms(2) by (simp add: apply_state_diff_def)
  qed
  have "set (hm_keys ?m) = set (hm_keys new)" using get by (metis (no_types) domIff dom_map_of_conv_image_fst list.set_map set_eqI)
  then have "sort (hm_keys ?m) = sort (hm_keys new)"
    using wf assms(3) by (intro sorted_distinct_set_unique) (simp_all add: hm_wf_def)
  then have "compute_state_hash ?m = compute_state_hash new" by (simp add: compute_state_hash_def get)
  then show ?thesis using get by (simp add: compute_state_diff_def Let_def fun_eq_iff)
qed

theorem state_diff_roundtrip_witness:
  "hm_get (apply_state_diff (Some (compute_state_diff (\<lambda>xs. xs) ''c'' 1
     [(''a'', ''1''), (''b'', ''2'')] [(''b'', ''3''), (''d'', ''4'')])) [(''a'', ''1''), (''b'', ''2'')]) ''b'' = Some ''3''"
  using state_diff_roundtrip [OF iteration_order_id, of "[(''a'', ''1''), (''b'', ''2'')]" "[(''b'', ''3''), (''d'', ''4'')]" "''c''" 1]
  by (simp add: hm_wf_def)

end
