(* ===== verification/Rinku_State.thy ===== *)
theory Rinku_State
  imports Rinku_Cascade Rinku_Dag_Properties Rinku_Sparse_Properties Rinku_Contract
begin

text \<open>
  The state of a node, \<open>StateInner\<close> of \<open>rinku-node/src/state/mod.rs\<close>, with the methods
  that keep the trie of accounts and the pool of fast-path transactions. The fields that
  only serve display and configuration are left out.
\<close>

section \<open>State\<close>

datatype PartitionStatus = PartitionNormal | PartitionSuspected | Partitioned

record PartitionState =
  pt_status :: PartitionStatus
  pt_current_epoch :: "u64 option"
  pt_epoch_start_checkpoint :: "u64 option"
  pt_epoch_start_timestamp :: "u64 option"
  pt_visible_validators :: "string list"
  pt_visible_stake_pct :: f64
  pt_suspected_since :: "u64 option"
  pt_total_epochs :: u64
  pt_latest_merge_report :: "MergeReport option"
  pt_merge_history :: "MergeReport list"

definition PartitionState_default :: PartitionState where
  "PartitionState_default =
     \<lparr>pt_status = PartitionNormal, pt_current_epoch = None, pt_epoch_start_checkpoint = None,
      pt_epoch_start_timestamp = None, pt_visible_validators = [], pt_visible_stake_pct = Fin 1,
      pt_suspected_since = None, pt_total_epochs = 0, pt_latest_merge_report = None, pt_merge_history = []\<rparr>"

record FastPathFinalizedEntry =
  fe_from :: string
  fe_to :: string
  fe_amount :: u64
  fe_nonce :: u64
  fe_gas_price :: "u64 option"
  fe_kind :: "TransactionKind option"
  fe_hash :: string
  fe_finalized_at_ms :: u64

record 'g StateInner =
  si_dag :: "'g Dag"
  si_accounts :: "(string, Account) hash_map"
  si_validators :: "(string, Validator) hash_map"
  si_checkpoints :: "Checkpoint list"
  si_contracts :: "(string, ContractState) hash_map"
  si_current_gas_price :: u64
  si_total_burned :: u64
  si_total_to_validators :: u64
  si_total_transactions :: u64
  si_finality_times_ms :: "u64 list"
  si_finality_sum_ms :: u64
  si_finality_count :: u64
  si_finality_max_ms :: u64
  si_node_validator_address :: "string option"
  si_partition_state :: PartitionState
  si_fast_path_finalized_txs :: "(string, FastPathFinalizedEntry) hash_map"
  si_fast_path_finalized_order :: "string list"
  si_state_trie :: SparseMerkleTrie

section \<open>The trie of accounts\<close>

definition account_trie_value :: "string \<Rightarrow> Account \<Rightarrow> bytes" where
  "account_trie_value addr acc =
     as_bytes (''account:'' @ addr @ '':'' @ show_u (acc_balance acc) @ '':'' @ show_u (acc_nonce acc)
       @ '':'' @ show_u (acc_staked acc))"

definition build_state_trie_from_accounts ::
  "crypto_env \<Rightarrow> ((string \<times> Account) list \<Rightarrow> (string \<times> Account) list) \<Rightarrow> (string, Account) hash_map \<Rightarrow> SparseMerkleTrie" where
  "build_state_trie_from_accounts env iter accounts =
     fold (\<lambda>(addr, acc) trie. fst (smt_set env None (hash_account_key env addr) (account_trie_value addr acc) trie))
       (iter accounts) (SparseMerkleTrie_new env)"

definition update_state_trie_accounts :: "crypto_env \<Rightarrow> string list \<Rightarrow> 'g StateInner \<Rightarrow> 'g StateInner" where
  "update_state_trie_accounts env changed_addresses s =
     s\<lparr>si_state_trie := fold (\<lambda>addr trie.
         case hm_get (si_accounts s) addr of
           None \<Rightarrow> trie
         | Some acc \<Rightarrow> fst (smt_set env None (hash_account_key env addr) (account_trie_value addr acc) trie))
       changed_addresses (si_state_trie s)\<rparr>"

section \<open>The fast-path pool\<close>

definition MAX_FAST_PATH_POOL :: nat where "MAX_FAST_PATH_POOL = 5000"

text \<open>The loop pops the oldest hash until the pool is small enough or the queue is empty.\<close>

fun shrink_pool ::
  "(string, FastPathFinalizedEntry) hash_map \<Rightarrow> string list \<Rightarrow> (string, FastPathFinalizedEntry) hash_map \<times> string list" where
  "shrink_pool pool [] = (pool, [])"
| "shrink_pool pool (oldest # order) =
     (if length pool > MAX_FAST_PATH_POOL then shrink_pool (hm_remove oldest pool) order else (pool, oldest # order))"

definition clear_checkpoint_finalized_txs ::
  "(string list \<Rightarrow> string list) \<Rightarrow> string list \<Rightarrow> 'g StateInner \<Rightarrow> 'g StateInner \<times> nat" where
  "clear_checkpoint_finalized_txs iter finalized_hashes s =
     (let (pool, removed) = fold (\<lambda>hash (pool, removed).
            if hm_contains pool hash then (hm_remove hash pool, removed + 1) else (pool, removed))
            (iter finalized_hashes) (si_fast_path_finalized_txs s, 0);
          order = (if finalized_hashes \<noteq> []
                   then filter (\<lambda>h. h \<notin> set finalized_hashes) (si_fast_path_finalized_order s)
                   else si_fast_path_finalized_order s);
          (pool, order) = shrink_pool pool order
      in (s\<lparr>si_fast_path_finalized_txs := pool, si_fast_path_finalized_order := order\<rparr>, removed))"

definition account_changed :: "(string, Account) hash_map \<Rightarrow> string \<times> u64 \<times> u64 \<times> u64 \<Rightarrow> bool" where
  "account_changed accounts = (\<lambda>(addr, old_bal, old_nonce, old_staked).
     case hm_get accounts addr of
       Some acc \<Rightarrow> acc_balance acc \<noteq> old_bal \<or> acc_nonce acc \<noteq> old_nonce \<or> acc_staked acc \<noteq> old_staked
     | None \<Rightarrow> True)"

definition compute_changed_accounts :: "(string, u64 \<times> u64 \<times> u64) hash_map \<Rightarrow> 'g StateInner \<Rightarrow> string list" where
  "compute_changed_accounts pre_snapshot s =
     fold (\<lambda>addr changed. if \<not> hm_contains pre_snapshot addr then List.insert addr changed else changed) (hm_keys (si_accounts s))
       (fold (\<lambda>e changed. if account_changed (si_accounts s) e then List.insert (fst e) changed else changed) pre_snapshot [])"

section \<open>What changed\<close>

lemma fold_insert_filter:
  "set (fold (\<lambda>x acc. if P x then List.insert (f x) acc else acc) xs acc) = set acc \<union> f ` {x \<in> set xs. P x}"
  by (induction xs arbitrary: acc) auto

text \<open>The committed part of an account.\<close>

definition account_core :: "Account \<Rightarrow> u64 \<times> u64 \<times> u64" where
  "account_core acc = (acc_balance acc, acc_nonce acc, acc_staked acc)"

lemma changed_accounts_iff:
  assumes "hm_wf pre_snapshot"
  shows "addr \<in> set (compute_changed_accounts pre_snapshot s) \<longleftrightarrow>
    hm_get pre_snapshot addr \<noteq> map_option account_core (hm_get (si_accounts s) addr)"
proof -
  have keys: "set (compute_changed_accounts pre_snapshot s) =
      fst ` {e \<in> set pre_snapshot. account_changed (si_accounts s) e}
      \<union> {a \<in> set (hm_keys (si_accounts s)). hm_get pre_snapshot a = None}"
    unfolding compute_changed_accounts_def fold_insert_filter [where f = "\<lambda>a. a"] fold_insert_filter
    by (auto simp: hm_contains_def)
  show ?thesis
  proof (cases "hm_get pre_snapshot addr")
    case None
    then have "addr \<notin> fst ` set pre_snapshot" by (simp add: map_of_eq_None_iff)
    then have "addr \<in> set (compute_changed_accounts pre_snapshot s) \<longleftrightarrow> hm_get (si_accounts s) addr \<noteq> None"
      unfolding keys map_of_eq_None_iff [of "si_accounts s"] using None by auto
    then show ?thesis using None by simp
  next
    case (Some old)
    then have "e \<in> set pre_snapshot \<and> fst e = addr \<longleftrightarrow> e = (addr, old)" for e
      using assms map_of_is_SomeI [of pre_snapshot addr "snd e"] map_of_SomeD [OF Some] unfolding hm_wf_def
      by (metis fst_conv option.inject prod.collapse snd_conv)
    moreover have "addr \<in> set (compute_changed_accounts pre_snapshot s) \<longleftrightarrow>
        (\<exists>e. (e \<in> set pre_snapshot \<and> fst e = addr) \<and> account_changed (si_accounts s) e)"
      unfolding keys image_iff using Some by (simp del: split_paired_Ex split_paired_All) blast
    ultimately have "addr \<in> set (compute_changed_accounts pre_snapshot s) \<longleftrightarrow> account_changed (si_accounts s) (addr, old)"
      by metis
    then show ?thesis using Some by (cases old) (auto simp: account_changed_def account_core_def split: option.splits)
  qed
qed

section \<open>The trie commits to the accounts\<close>

definition account_op :: "crypto_env \<Rightarrow> string \<times> Account \<Rightarrow> trie_op" where
  "account_op env = (\<lambda>(addr, acc). SetOp (hash_account_key env addr) (account_trie_value addr acc))"

lemma build_state_trie_run:
  "build_state_trie_from_accounts env iter accounts = run_trie env (map (account_op env) (iter accounts))"
proof -
  have "fold (\<lambda>(addr, acc) trie. fst (smt_set env None (hash_account_key env addr) (account_trie_value addr acc) trie)) xs t
      = fold (trie_apply env None) (map (account_op env) xs) t" for xs t
    by (induction xs arbitrary: t) (auto simp: account_op_def)
  then show ?thesis by (simp add: build_state_trie_from_accounts_def run_trie_def)
qed

lemma account_key_path_inj:
  "digest_32 env \<Longrightarrow> key_to_path (hash_account_key env a) = key_to_path (hash_account_key env b) \<longleftrightarrow> hash_account_key env a = hash_account_key env b"
  by (intro key_to_path_inj) (simp add: hash_account_key_def hash_bytes_def)

lemma fold_account_ops:
  assumes "digest_32 env" "inj_on (hash_account_key env) (insert addr (fst ` set xs))" "distinct (map fst xs)"
  shows "fold map_apply (map (account_op env) xs) m (key_to_path (hash_account_key env addr)) =
    (case map_of xs addr of None \<Rightarrow> m (key_to_path (hash_account_key env addr)) | Some acc \<Rightarrow> Some (account_trie_value addr acc))"
  using assms(2,3)
proof (induction xs arbitrary: m)
  case (Cons e xs)
  obtain a acc where e: "e = (a, acc)" by (cases e)
  let ?p = "key_to_path (hash_account_key env addr)"
  have inj: "inj_on (hash_account_key env) (insert addr (fst ` set xs))"
    using Cons.prems(1) by (rule inj_on_subset) auto
  have IH: "fold map_apply (map (account_op env) (e # xs)) m ?p = (case map_of xs addr of
      None \<Rightarrow> map_apply (account_op env e) m ?p | Some acc \<Rightarrow> Some (account_trie_value addr acc))"
    using Cons.IH [OF inj] Cons.prems(2) by simp
  show ?case
  proof (cases "a = addr")
    case True
    then have "map_of xs addr = None" using Cons.prems(2) e by (simp add: map_of_eq_None_iff)
    then show ?thesis unfolding IH using True e by (simp add: account_op_def)
  next
    case False
    then have "hash_account_key env addr \<noteq> hash_account_key env a" using Cons.prems(1) e by (auto simp: inj_on_def)
    then have "?p \<noteq> key_to_path (hash_account_key env a)" using account_key_path_inj [OF assms(1)] by blast
    then show ?thesis unfolding IH using False e by (simp add: account_op_def split: option.split)
  qed
qed simp

lemma run_account_ops:
  assumes "digest_32 env" "inj_on (hash_account_key env) (insert addr (set (hm_keys accounts)))" "hm_wf accounts" "iteration_order iter"
  shows "run_map (map (account_op env) (iter accounts)) (key_to_path (hash_account_key env addr)) =
    map_option (account_trie_value addr) (hm_get accounts addr)"
proof -
  have "distinct (map fst (iter accounts))" using hm_wf_iter [OF assms(4,3)] by (simp add: hm_wf_def)
  moreover have "map_of (iter accounts) = map_of accounts" by (rule hm_get_iter [OF assms(4,3)])
  ultimately show ?thesis
    using fold_account_ops [OF assms(1), of addr "iter accounts" "\<lambda>_. None"] assms(2) iteration_order_set [OF assms(4), of accounts]
    by (simp add: run_map_def split: option.split)
qed

text \<open>
  The trie of the node commits to its accounts: whatever the iteration order of the hash
  map, it is built with the same root, and every account reads back with the balance, nonce
  and stake the node holds for it (absent accounts as absent).
\<close>
theorem state_trie_commits_accounts:
  assumes "hash_safe env M" "iteration_order iter" "iteration_order iter'" "hm_wf accounts"
    and "ops_ok env M (map (account_op env) (iter accounts)) (\<lambda>_. None)"
    and "ops_ok env M (map (account_op env) (iter' accounts)) (\<lambda>_. None)"
    and "inj_on (hash_account_key env) (insert addr (set (hm_keys accounts)))"
  shows "smt_get (build_state_trie_from_accounts env iter accounts) None (hash_account_key env addr)
      = Inr (map_option (account_trie_value addr) (hm_get accounts addr))
    \<and> smt_root_hash (build_state_trie_from_accounts env iter accounts) = smt_root_hash (build_state_trie_from_accounts env iter' accounts)"
proof -
  have d: "digest_32 env" using assms(1) by simp
  note r = run_rep [OF assms(1,5)] run_rep [OF assms(1,6)]
  have "length (hash_account_key env addr) = 32" using d by (simp add: hash_account_key_def hash_bytes_def)
  from trie_rep_get [OF r(1) this] run_account_ops [OF d assms(7,4,2)]
  have 1: "smt_get (build_state_trie_from_accounts env iter accounts) None (hash_account_key env addr)
      = Inr (map_option (account_trie_value addr) (hm_get accounts addr))" by (simp add: build_state_trie_run)
  have inj: "inj_on (hash_account_key env) (insert a (set (hm_keys accounts)))" if "a \<in> set (hm_keys accounts)" for a
    using assms(7) that by (simp add: insert_absorb inj_on_subset)
  have "run_map (map (account_op env) (iter accounts)) p = run_map (map (account_op env) (iter' accounts)) p" for p
  proof (cases "\<exists>a \<in> set (hm_keys accounts). p = key_to_path (hash_account_key env a)")
    case True
    then obtain a where a: "a \<in> set (hm_keys accounts)" "p = key_to_path (hash_account_key env a)" by blast
    show ?thesis unfolding a(2) run_account_ops [OF d inj [OF a(1)] assms(4,2)] run_account_ops [OF d inj [OF a(1)] assms(4,3)] ..
  next
    case False
    have "run_map (map (account_op env) xs) p = None" if "set xs = set accounts" for xs
    proof -
      have "fold map_apply (map (account_op env) ys) m p = m p" if "set ys \<subseteq> set accounts" for ys m
        using that False by (induction ys arbitrary: m) (auto simp: account_op_def)
      then show ?thesis using that by (simp add: run_map_def)
    qed
    then show ?thesis using iteration_order_set [OF assms(2), of accounts] iteration_order_set [OF assms(3), of accounts] by simp
  qed
  then have "run_map (map (account_op env) (iter accounts)) = run_map (map (account_op env) (iter' accounts))" by (rule ext)
  then show ?thesis using 1 r by (simp add: build_state_trie_run trie_rep_def)
qed

theorem state_trie_commits_accounts_witness:
  "smt_get (build_state_trie_from_accounts numbering_env (\<lambda>xs. xs) [(''a'', Account_new ''a'' 0)]) None (hash_account_key numbering_env ''a'')
     = Inr (Some (account_trie_value ''a'' (Account_new ''a'' 0)))"
proof -
  let ?v = "account_trie_value ''a'' (Account_new ''a'' 0)" and ?k = "hash_account_key numbering_env ''a''"
  have v: "\<not> is_pair ?v" by code_simp
  have k: "length ?k = 32" by (simp add: hash_account_key_def hash_bytes_def numbering_digest_32)
  have p: "length (key_to_path ?k) \<le> 256" using length_key_to_path [OF k] by (simp add: TREE_DEPTH_def)
  show ?thesis
    using state_trie_commits_accounts [OF numbering_safe [OF p v] iteration_order_id iteration_order_rev,
        of "[(''a'', Account_new ''a'' 0)]" "''a''"] numbering_op [OF k v]
    by (simp add: account_op_def hm_wf_def)
qed

section \<open>The pool stays bounded\<close>

lemma shrink_pool_bound:
  "length (fst (shrink_pool pool order)) \<le> MAX_FAST_PATH_POOL \<or> snd (shrink_pool pool order) = []"
  by (induction pool order rule: shrink_pool.induct) auto

lemma clear_checkpoint_finalized_bound:
  "length (si_fast_path_finalized_txs (fst (clear_checkpoint_finalized_txs iter hashes s))) \<le> MAX_FAST_PATH_POOL
   \<or> si_fast_path_finalized_order (fst (clear_checkpoint_finalized_txs iter hashes s)) = []"
  by (auto simp: clear_checkpoint_finalized_txs_def Let_def split: prod.split intro: shrink_pool_bound)
    (metis fst_conv shrink_pool_bound snd_conv)+

end
