(* ===== verification/Rinku_Partition.thy ===== *)
theory Rinku_Partition
  imports Rinku_State Rinku_Machine
begin

text \<open>
  \<open>rinku-node/src/state/partition.rs\<close> and \<open>rinku-node/src/partition_detector.rs\<close>: the
  state machine by which a node finds out that it has lost sight of too much stake, that it
  is partitioned, and that the partition has healed. The wall clock and the validators
  among the connected peers are arguments of a detection cycle.
\<close>

section \<open>Partition state\<close>

abbreviation on_partition :: "(PartitionState \<Rightarrow> PartitionState) \<Rightarrow> 'g StateInner \<Rightarrow> 'g StateInner" where
  "on_partition f s \<equiv> s\<lparr>si_partition_state := f (si_partition_state s)\<rparr>"

definition update_partition_visibility :: "string list \<Rightarrow> f64 \<Rightarrow> 'g StateInner \<Rightarrow> 'g StateInner" where
  "update_partition_visibility visible_validators visible_stake_pct =
     on_partition (\<lambda>p. p\<lparr>pt_visible_validators := visible_validators, pt_visible_stake_pct := visible_stake_pct\<rparr>)"

definition transition_to_suspected :: "u64 \<Rightarrow> 'g StateInner \<Rightarrow> 'g StateInner" where
  "transition_to_suspected now s =
     (if pt_status (si_partition_state s) = PartitionNormal
      then on_partition (\<lambda>p. p\<lparr>pt_status := PartitionSuspected, pt_suspected_since := Some now\<rparr>) s
      else s)"

definition last_height :: "Checkpoint list \<Rightarrow> u64" where
  "last_height cps = (if cps = [] then 0 else cp_height (last cps))"

definition transition_to_partitioned :: "u64 \<Rightarrow> 'g StateInner \<Rightarrow> 'g StateInner \<times> u64" where
  "transition_to_partitioned now s =
     (if pt_status (si_partition_state s) = PartitionSuspected
      then let checkpoint_height = last_height (si_checkpoints s);
               epoch = pt_total_epochs (si_partition_state s) + 1;
               s = on_partition (\<lambda>p. p\<lparr>pt_total_epochs := epoch, pt_status := Partitioned, pt_current_epoch := Some epoch,
                     pt_epoch_start_checkpoint := Some checkpoint_height, pt_epoch_start_timestamp := Some now,
                     pt_suspected_since := None\<rparr>) s
           in (s\<lparr>si_accounts := hm_map_values (\<lambda>a. a\<lparr>acc_partition_budget_spent := 0\<rparr>) (si_accounts s)\<rparr>, epoch)
      else (s, unwrap_or (pt_current_epoch (si_partition_state s)) 0))"

definition transition_to_normal :: "'g StateInner \<Rightarrow> 'g StateInner" where
  "transition_to_normal s =
     (if pt_status (si_partition_state s) \<noteq> PartitionNormal
      then on_partition (\<lambda>p. p\<lparr>pt_status := PartitionNormal, pt_current_epoch := None, pt_epoch_start_checkpoint := None,
             pt_epoch_start_timestamp := None, pt_suspected_since := None\<rparr>) s
      else s)"

definition get_current_partition_epoch :: "'g StateInner \<Rightarrow> u64 option" where
  "get_current_partition_epoch s = pt_current_epoch (si_partition_state s)"

definition is_partitioned :: "'g StateInner \<Rightarrow> bool" where
  "is_partitioned s \<longleftrightarrow> pt_status (si_partition_state s) = Partitioned"

definition MAX_MERGE_HISTORY :: nat where "MAX_MERGE_HISTORY = 50"

definition set_latest_merge_report :: "MergeReport \<Rightarrow> 'g StateInner \<Rightarrow> 'g StateInner" where
  "set_latest_merge_report report =
     on_partition (\<lambda>p.
       let history = pt_merge_history p @ [report];
           history = (if length history > MAX_MERGE_HISTORY then tl history else history)
       in p\<lparr>pt_merge_history := history, pt_latest_merge_report := Some report\<rparr>)"

definition get_merge_report_by_epoch :: "'g StateInner \<Rightarrow> u64 \<Rightarrow> MergeReport option" where
  "get_merge_report_by_epoch s epoch =
     find (\<lambda>r. rep_merge_epoch r = epoch) (pt_merge_history (si_partition_state s))"

definition set_partition_budget :: "string \<Rightarrow> u64 option \<Rightarrow> 'g StateInner \<Rightarrow> 'g StateInner \<times> bool" where
  "set_partition_budget address budget s =
     (case hm_get (si_accounts s) address of
        Some account \<Rightarrow>
          (let account = account\<lparr>acc_partition_budget := budget\<rparr>;
               account = (if budget = None then account\<lparr>acc_partition_budget_spent := 0\<rparr> else account)
           in (s\<lparr>si_accounts := hm_insert address account (si_accounts s)\<rparr>, True))
      | None \<Rightarrow> (s, False))"

section \<open>Detector\<close>

record PartitionDetectorConfig =
  pd_confirmation_timeout_ms :: u64
  pd_recovery_window_ms :: u64
  pd_stake_visibility_threshold :: f64
  pd_checkpoint_stall_multiplier :: u64
  pd_checkpoint_interval_ms :: u64

definition PartitionDetectorConfig_default :: PartitionDetectorConfig where
  "PartitionDetectorConfig_default =
     \<lparr>pd_confirmation_timeout_ms = 30000, pd_recovery_window_ms = 10000,
      pd_stake_visibility_threshold = rnd (6666 / 10000), pd_checkpoint_stall_multiplier = 3,
      pd_checkpoint_interval_ms = 15000\<rparr>"

text \<open>
  What a cycle tells the rest of the node: the events on the bus and the merge payload it
  has the gossip service send.
\<close>

datatype DetectorOutput =
  PartitionSuspectedEvent f64 "string list"
| PartitionConfirmedEvent u64 "string list"
| PartitionHealedEvent "string list"
| SendMergePayload u64

record PartitionDetector =
  det_config :: PartitionDetectorConfig
  det_event_bus :: bool
  det_gossip :: bool
  det_recovery_started_at :: "u64 option"

definition PartitionDetector_new :: "PartitionDetectorConfig \<Rightarrow> PartitionDetector" where
  "PartitionDetector_new config =
     \<lparr>det_config = config, det_event_bus = False, det_gossip = False, det_recovery_started_at = None\<rparr>"

type_synonym validators_order = "(string \<times> Validator) list \<Rightarrow> (string \<times> Validator) list"

definition visible_entry :: "string option \<Rightarrow> string list \<Rightarrow> string \<Rightarrow> bool" where
  "visible_entry our_address peers addr \<longleftrightarrow> our_address = Some addr \<or> addr \<in> set peers"

definition compute_visibility :: "validators_order \<Rightarrow> string list \<Rightarrow> 'g StateInner \<Rightarrow> string list \<times> f64" where
  "compute_visibility iter peer_validator_addresses s =
     (let known_validators = map fst (iter (si_validators s))
      in if known_validators = [] then ([], Fin 1)
         else let total_stake = wsum (map val_stake (hm_values (si_validators s)))
              in if total_stake = 0 then (known_validators, Fin 1)
                 else let visible = filter (\<lambda>(addr, validator). visible_entry (si_node_validator_address s) peer_validator_addresses addr)
                            (iter (si_validators s));
                          visible_stake = wsum (map (\<lambda>(addr, validator). val_stake validator) visible)
                      in (map fst visible, f64_div (f64_of_u64 visible_stake) (f64_of_u64 total_stake)))"

text \<open>
  One cycle. It reads the clock once at the start, and \<open>transition_to_suspected\<close> and
  \<open>transition_to_partitioned\<close> read it again: \<open>now\<close> and \<open>now'\<close>. The code takes the state
  lock anew for each of the calls; the cycle is one step here, which is exact for the detector
  and the status, epoch and times of the partition record, since no other task writes them.
  What other tasks may write between the calls are the validators, the checkpoints, the accounts
  and the merge reports.
\<close>

definition detect_cycle ::
  "validators_order \<Rightarrow> u64 \<Rightarrow> u64 \<Rightarrow> string list \<Rightarrow> PartitionDetector \<times> 'g StateInner
   \<Rightarrow> (PartitionDetector \<times> 'g StateInner) \<times> DetectorOutput list" where
  "detect_cycle iter now now' peers = (\<lambda>(d, s).
     let (visible_validators, visible_stake_pct) = compute_visibility iter peers s;
         s = update_partition_visibility visible_validators visible_stake_pct s;
         threshold = pd_stake_visibility_threshold (det_config d);
         bus = (\<lambda>events. if det_event_bus d then events else [])
     in case pt_status (si_partition_state s) of
          PartitionNormal \<Rightarrow>
            if f64_lt visible_stake_pct threshold
            then ((d\<lparr>det_recovery_started_at := None\<rparr>, transition_to_suspected now' s),
                  bus [PartitionSuspectedEvent visible_stake_pct
                         (filter (\<lambda>v. v \<notin> set visible_validators) (map fst (iter (si_validators s))))])
            else ((d, s), [])
        | PartitionSuspected \<Rightarrow>
            if f64_le threshold visible_stake_pct
            then ((d\<lparr>det_recovery_started_at := None\<rparr>, transition_to_normal s), [])
            else (case pt_suspected_since (si_partition_state s) of
                    None \<Rightarrow> ((d, s), [])
                  | Some suspected_since \<Rightarrow>
                      if now - suspected_since \<ge> pd_confirmation_timeout_ms (det_config d)
                      then let (s, epoch) = transition_to_partitioned now' s
                           in ((d, s), bus [PartitionConfirmedEvent epoch visible_validators])
                      else ((d, s), []))
        | Partitioned \<Rightarrow>
            if f64_le threshold visible_stake_pct
            then (case det_recovery_started_at d of
                    None \<Rightarrow> ((d\<lparr>det_recovery_started_at := Some now\<rparr>, s), [])
                  | Some started \<Rightarrow>
                      if now - started \<ge> pd_recovery_window_ms (det_config d)
                      then let fork_point = unwrap_or (pt_epoch_start_checkpoint (si_partition_state s)) 0
                           in ((d\<lparr>det_recovery_started_at := None\<rparr>, transition_to_normal s),
                               bus [PartitionHealedEvent visible_validators]
                               @ (if det_gossip d then [SendMergePayload fork_point] else []))
                      else ((d, s), []))
            else ((d\<lparr>det_recovery_started_at := None\<rparr>, s), []))"

section \<open>Invariant\<close>

text \<open>
  The history of a run: for every partition entered so far, the clock at the moment and the
  height of the last checkpoint before the cycle.
\<close>

type_synonym partition_log = "(u64 \<times> u64) list"

definition log_partition :: "u64 \<Rightarrow> 'g StateInner \<Rightarrow> 'g StateInner \<Rightarrow> partition_log \<Rightarrow> partition_log" where
  "log_partition now s s' past =
     (if \<not> is_partitioned s \<and> is_partitioned s' then past @ [(now, last_height (si_checkpoints s))] else past)"

definition part_inv :: "partition_log \<times> PartitionDetector \<times> 'g StateInner \<Rightarrow> bool" where
  "part_inv = (\<lambda>(past, d, s). let p = si_partition_state s; entered = (if pt_status p = Partitioned then Some (last past) else None) in
     pt_total_epochs p = of_nat (length past)
     \<and> (pt_status p = Partitioned \<longrightarrow> past \<noteq> [])
     \<and> pt_current_epoch p = map_option (\<lambda>_. of_nat (length past)) entered
     \<and> pt_epoch_start_timestamp p = map_option fst entered
     \<and> pt_epoch_start_checkpoint p = map_option snd entered
     \<and> (pt_status p = PartitionSuspected \<longleftrightarrow> pt_suspected_since p \<noteq> None)
     \<and> (det_recovery_started_at d \<noteq> None \<longrightarrow> pt_status p = Partitioned)
     \<and> length (pt_merge_history p) \<le> MAX_MERGE_HISTORY)"

inductive detector_step ::
  "partition_log \<times> PartitionDetector \<times> 'g StateInner \<Rightarrow> partition_log \<times> PartitionDetector \<times> 'g StateInner \<Rightarrow> bool" where
  cycle: "fst (detect_cycle iter now now' peers (d, s)) = (d', s') \<Longrightarrow> detector_step (past, d, s) (log_partition now' s s' past, d', s')"
| report: "detector_step (past, d, s) (past, d, set_latest_merge_report r s)"
| budget: "detector_step (past, d, s) (past, d, fst (set_partition_budget a b s))"
| elsewhere: "si_partition_state s' = si_partition_state s \<Longrightarrow> detector_step (past, d, s) (past, d, s')"

lemmas partition_ops = update_partition_visibility_def transition_to_suspected_def transition_to_partitioned_def
  transition_to_normal_def

text \<open>What one cycle does in each status, given the stake it sees.\<close>

lemma cycle_normal:
  assumes "pt_status (si_partition_state s) = PartitionNormal" "compute_visibility iter peers s = (v, pct)"
  shows "fst (detect_cycle iter now now' peers (d, s)) =
    (if f64_lt pct (pd_stake_visibility_threshold (det_config d))
     then (d\<lparr>det_recovery_started_at := None\<rparr>, on_partition (\<lambda>p. p\<lparr>pt_visible_validators := v, pt_visible_stake_pct := pct,
             pt_status := PartitionSuspected, pt_suspected_since := Some now'\<rparr>) s)
     else (d, update_partition_visibility v pct s))"
  using assms by (simp add: detect_cycle_def partition_ops)

lemma cycle_suspected:
  assumes "pt_status (si_partition_state s) = PartitionSuspected" "compute_visibility iter peers s = (v, pct)"
    "pt_suspected_since (si_partition_state s) = Some since"
  shows "fst (detect_cycle iter now now' peers (d, s)) =
    (if f64_le (pd_stake_visibility_threshold (det_config d)) pct
     then (d\<lparr>det_recovery_started_at := None\<rparr>, transition_to_normal (update_partition_visibility v pct s))
     else if now - since \<ge> pd_confirmation_timeout_ms (det_config d)
     then (d, fst (transition_to_partitioned now' (update_partition_visibility v pct s)))
     else (d, update_partition_visibility v pct s))"
  using assms by (simp add: detect_cycle_def update_partition_visibility_def split: prod.split)

lemma cycle_partitioned:
  assumes "pt_status (si_partition_state s) = Partitioned" "compute_visibility iter peers s = (v, pct)"
  shows "fst (detect_cycle iter now now' peers (d, s)) =
    (if f64_le (pd_stake_visibility_threshold (det_config d)) pct
     then (case det_recovery_started_at d of
             None \<Rightarrow> (d\<lparr>det_recovery_started_at := Some now\<rparr>, update_partition_visibility v pct s)
           | Some started \<Rightarrow> if now - started \<ge> pd_recovery_window_ms (det_config d)
               then (d\<lparr>det_recovery_started_at := None\<rparr>, transition_to_normal (update_partition_visibility v pct s))
               else (d, update_partition_visibility v pct s))
     else (d\<lparr>det_recovery_started_at := None\<rparr>, update_partition_visibility v pct s))"
  using assms by (simp add: detect_cycle_def update_partition_visibility_def Let_def split: option.split)

lemma cycle_inv:
  assumes "part_inv (past, d, s)" "fst (detect_cycle iter now now' peers (d, s)) = (d', s')"
  shows "part_inv (log_partition now' s s' past, d', s')"
proof -
  obtain v pct where v: "compute_visibility iter peers s = (v, pct)" by fastforce
  note inv = part_inv_def log_partition_def is_partitioned_def partition_ops Let_def
  show ?thesis
  proof (cases "pt_status (si_partition_state s)")
    case PartitionNormal
    then show ?thesis using assms unfolding cycle_normal [OF PartitionNormal v]
      by (auto simp: inv split: if_splits)
  next
    case PartitionSuspected
    then obtain since where since: "pt_suspected_since (si_partition_state s) = Some since"
      using assms(1) by (auto simp: part_inv_def Let_def)
    then show ?thesis using assms PartitionSuspected unfolding cycle_suspected [OF PartitionSuspected v since]
      by (auto simp: inv split: if_splits)
  next
    case Partitioned
    then show ?thesis using assms unfolding cycle_partitioned [OF Partitioned v]
      by (auto simp: inv split: option.splits if_splits)
  qed
qed

lemma part_inv_cong: "si_partition_state s' = si_partition_state s \<Longrightarrow> part_inv (past, d, s') \<longleftrightarrow> part_inv (past, d, s)"
  by (simp only: part_inv_def prod.case)

lemma set_partition_budget_frame: "si_partition_state (fst (set_partition_budget a b s)) = si_partition_state s"
  by (simp add: set_partition_budget_def Let_def split: option.split)

lemma detector_step_inv:
  assumes "part_inv c" "detector_step c c'"
  shows "part_inv c'"
  using assms(2)
proof cases
  case cycle
  then show ?thesis using cycle_inv assms(1) by simp
next
  case report
  then show ?thesis using assms(1) by (auto simp: part_inv_def set_latest_merge_report_def Let_def)
next
  case budget
  then show ?thesis using assms(1) part_inv_cong [OF set_partition_budget_frame] by metis
next
  case elsewhere
  then show ?thesis using assms(1) part_inv_cong by metis
qed

interpretation partition: invariant_system
  "\<lambda>(past, d, s). past = [] \<and> si_partition_state s = PartitionState_default \<and> det_recovery_started_at d = None" detector_step part_inv
proof (unfold_locales, goal_cases)
  case (1 c)
  then show ?case by (auto simp: part_inv_def PartitionState_default_def)
qed (rule detector_step_inv)

text \<open>
  C23: in every run of detection cycles, merge reports, budget changes and steps that leave the
  partition record alone, the record is coherent with the partitions entered so far: the number
  of epochs is their number; while the node is partitioned, and only then, the current epoch is
  that number, the start time is the clock at which the last partition was entered and the fork
  point the height of the last checkpoint then; the time of suspicion is set exactly while the
  node is suspected, a recovery is being timed only while it is partitioned, and the history of
  merges stays within its bound.
\<close>
theorem partition_record_coherent:
  assumes "si_partition_state s = PartitionState_default" "detector_step\<^sup>*\<^sup>* ([], PartitionDetector_new config, s) (past, d, s')"
  shows "part_inv (past, d, s')"
  by (rule partition.run_inv [OF _ assms(2)]) (simp add: assms(1) PartitionDetector_new_def)

section \<open>A small network\<close>

text \<open>The node watches one other validator, which holds all the stake.\<close>

definition watch_config :: PartitionDetectorConfig where
  "watch_config = PartitionDetectorConfig_default\<lparr>pd_stake_visibility_threshold := Fin (1 / 2)\<rparr>"

definition watch_state :: "PartitionState \<Rightarrow> (DagNode list \<times> (nat \<times> nat) list) StateInner" where
  "watch_state p =
     \<lparr>si_dag = Dag_new list_graph 8, si_accounts = [],
      si_validators = [(''v'', \<lparr>val_address = ''v'', val_stake = 1, val_first_stake_time = 0, val_bls_public_key = None, val_missed_checkpoints = 0\<rparr>)],
      si_checkpoints = [], si_contracts = [], si_current_gas_price = 1, si_total_burned = 0, si_total_to_validators = 0,
      si_total_transactions = 0, si_finality_times_ms = [], si_finality_sum_ms = 0, si_finality_count = 0, si_finality_max_ms = 0,
      si_node_validator_address = None, si_partition_state = p,
      si_fast_path_finalized_txs = [], si_fast_path_finalized_order = [], si_state_trie = SparseMerkleTrie_new sample_env\<rparr>"

lemma rnd_0 [simp]: "rnd 0 = Fin 0"
  by (simp add: rnd_def)

lemma rnd_1 [simp]: "rnd 1 = Fin 1"
  using f64_of_u64_exact [of 1] by (simp add: f64_of_u64_def urat_def)

lemma watch_visibility:
  "compute_visibility (\<lambda>xs. xs) [] (watch_state p) = ([], Fin 0)"
  "compute_visibility (\<lambda>xs. xs) [''v''] (watch_state p) = ([''v''], Fin 1)"
  by (simp_all add: compute_visibility_def watch_state_def visible_entry_def f64_of_u64_def urat_def)

lemma watch_fields [simp]: "si_partition_state (watch_state p) = p" "det_config (PartitionDetector_new c) = c"
  by (simp_all add: watch_state_def PartitionDetector_new_def)

lemma watch_height: "last_height (si_checkpoints (watch_state p)) = 0"
  by (simp add: watch_state_def last_height_def)

lemma watch_updates:
  "(watch_state p)\<lparr>si_partition_state := q\<rparr> = watch_state q" "(watch_state p)\<lparr>si_accounts := hm_map_values f (si_accounts (watch_state r))\<rparr> = watch_state p"
  by (simp_all add: watch_state_def hm_map_values_def)

definition partitioned_record :: PartitionState where
  "partitioned_record = PartitionState_default\<lparr>pt_status := Partitioned, pt_current_epoch := Some 1, pt_total_epochs := 1,
     pt_epoch_start_checkpoint := Some 7, pt_epoch_start_timestamp := Some 0\<rparr>"

theorem partition_record_coherent_witness:
  "let (d1, s1) = fst (detect_cycle (\<lambda>xs. xs) 5 6 [] (PartitionDetector_new watch_config, watch_state PartitionState_default));
       (d2, s2) = fst (detect_cycle (\<lambda>xs. xs) 30006 30007 [] (d1, s1))
   in part_inv ([(30007, 0)], d2, s2) \<and> pt_epoch_start_timestamp (si_partition_state s2) = Some 30007"
proof -
  let ?c = "(PartitionDetector_new watch_config, watch_state PartitionState_default)"
  let ?p = "PartitionState_default\<lparr>pt_visible_stake_pct := Fin 0, pt_status := PartitionSuspected, pt_suspected_since := Some 6\<rparr>"
  let ?q = "?p\<lparr>pt_total_epochs := 1, pt_status := Partitioned, pt_current_epoch := Some 1,
    pt_epoch_start_checkpoint := Some 0, pt_epoch_start_timestamp := Some 30007, pt_suspected_since := None\<rparr>"
  have 1: "fst (detect_cycle (\<lambda>xs. xs) 5 6 [] ?c) = (PartitionDetector_new watch_config, watch_state ?p)"
    using cycle_normal [OF _ watch_visibility(1), of PartitionState_default 5 6 "PartitionDetector_new watch_config"]
    by (simp add: watch_updates watch_config_def PartitionDetector_new_def PartitionState_default_def)
  have 2: "fst (detect_cycle (\<lambda>xs. xs) 30006 30007 [] (PartitionDetector_new watch_config, watch_state ?p)) = (PartitionDetector_new watch_config, watch_state ?q)"
    using cycle_suspected [OF _ watch_visibility(1), of ?p 6 30006 30007 "PartitionDetector_new watch_config"]
    by (simp add: partition_ops watch_updates watch_config_def PartitionDetectorConfig_default_def PartitionState_default_def f64_le_def
        watch_height Let_def)
  have "detector_step ([], ?c) ([], PartitionDetector_new watch_config, watch_state ?p)"
    using detector_step.cycle [OF 1, of "[]"] by (simp add: log_partition_def is_partitioned_def)
  moreover have "detector_step ([], PartitionDetector_new watch_config, watch_state ?p) ([(30007, 0)], PartitionDetector_new watch_config, watch_state ?q)"
    using detector_step.cycle [OF 2, of "[]"] by (simp add: log_partition_def is_partitioned_def watch_height)
  ultimately have "detector_step\<^sup>*\<^sup>* ([], ?c) ([(30007, 0)], PartitionDetector_new watch_config, watch_state ?q)" by simp
  from partition_record_coherent [OF _ this] show ?thesis unfolding 1 prod.case 2 Let_def by simp
qed

section \<open>Liveness\<close>

primrec detector_run ::
  "validators_order \<Rightarrow> (u64 \<times> u64 \<times> string list) list \<Rightarrow> PartitionDetector \<times> 'g StateInner
   \<Rightarrow> (PartitionDetector \<times> 'g StateInner) \<times> DetectorOutput list" where
  "detector_run iter [] c = (c, [])"
| "detector_run iter (x # xs) c =
     (let (c, out) = detect_cycle iter (fst x) (fst (snd x)) (snd (snd x)) c; (c, outs) = detector_run iter xs c in (c, out @ outs))"

lemma f64_lt_not_le: "f64_lt x y \<Longrightarrow> \<not> f64_le y x"
  by (cases x; cases y) (auto simp: f64_le_def)

lemma f64_le_not_lt: "f64_le y x \<Longrightarrow> \<not> f64_lt x y"
  using f64_lt_not_le by blast

text \<open>A cycle changes neither the validators nor the configuration, so what peers make visible stays the same.\<close>

lemma visibility_cong:
  "si_validators s' = si_validators s \<Longrightarrow> si_node_validator_address s' = si_node_validator_address s \<Longrightarrow>
   compute_visibility iter peers s' = compute_visibility iter peers s"
  by (simp only: compute_visibility_def)

lemma cycle_frame:
  assumes "detect_cycle iter now now' peers (d, s) = ((d', s'), out)"
  shows "det_config d' = det_config d \<and> det_gossip d' = det_gossip d \<and> si_validators s' = si_validators s
    \<and> si_node_validator_address s' = si_node_validator_address s \<and> si_checkpoints s' = si_checkpoints s"
  using assms unfolding detect_cycle_def Let_def prod.case
  by (auto simp: partition_ops Let_def split: prod.splits PartitionStatus.splits if_splits option.splits)


lemma detector_run_Cons:
  assumes "detector_run iter (x # xs) (d, s) = ((d', s'), out)"
  shows "\<exists>d1 s1 o1 o2. detect_cycle iter (fst x) (fst (snd x)) (snd (snd x)) (d, s) = ((d1, s1), o1)
    \<and> detector_run iter xs (d1, s1) = ((d', s'), o2) \<and> out = o1 @ o2"
  using assms by (auto split: prod.splits)

definition sees_less :: "validators_order \<Rightarrow> PartitionDetector \<times> 'g StateInner \<Rightarrow> u64 \<times> u64 \<times> string list \<Rightarrow> bool" where
  "sees_less iter = (\<lambda>(d, s) x. f64_lt (snd (compute_visibility iter (snd (snd x)) s)) (pd_stake_visibility_threshold (det_config d)))"

definition sees_enough :: "validators_order \<Rightarrow> PartitionDetector \<times> 'g StateInner \<Rightarrow> u64 \<times> u64 \<times> string list \<Rightarrow> bool" where
  "sees_enough iter = (\<lambda>(d, s) x. f64_le (pd_stake_visibility_threshold (det_config d)) (snd (compute_visibility iter (snd (snd x)) s)))"

lemma sees_frame:
  assumes "detect_cycle iter now now' peers (d, s) = ((d', s'), out)"
  shows "sees_less iter (d', s') = sees_less iter (d, s)" "sees_enough iter (d', s') = sees_enough iter (d, s)"
  using cycle_frame [OF assms] visibility_cong [of s' s iter] by (simp_all add: sees_less_def sees_enough_def)

text \<open>While less than the threshold is visible, a suspicion turns into a partition and stays one.\<close>

lemma low_keeps_partitioned:
  assumes "pt_status (si_partition_state s) = Partitioned" "sees_less iter (d, s) x"
    "detect_cycle iter (fst x) (fst (snd x)) (snd (snd x)) (d, s) = ((d', s'), out)"
  shows "pt_status (si_partition_state s') = Partitioned"
proof -
  obtain v pct where v: "compute_visibility iter (snd (snd x)) s = (v, pct)" by fastforce
  then show ?thesis using cycle_partitioned [OF assms(1) v, of "fst x" "fst (snd x)" d] assms f64_lt_not_le
    by (auto simp: sees_less_def update_partition_visibility_def)
qed

lemma low_keeps_suspected:
  assumes "pt_status (si_partition_state s) = PartitionSuspected" "pt_suspected_since (si_partition_state s) = Some t0"
    "sees_less iter (d, s) x" "detect_cycle iter (fst x) (fst (snd x)) (snd (snd x)) (d, s) = ((d', s'), out)"
  shows "if fst x - t0 \<ge> pd_confirmation_timeout_ms (det_config d) then pt_status (si_partition_state s') = Partitioned
    else pt_status (si_partition_state s') = PartitionSuspected \<and> pt_suspected_since (si_partition_state s') = Some t0"
proof -
  obtain v pct where v: "compute_visibility iter (snd (snd x)) s = (v, pct)" by fastforce
  then have "\<not> f64_le (pd_stake_visibility_threshold (det_config d)) pct" using assms(3) f64_lt_not_le by (auto simp: sees_less_def)
  then show ?thesis using cycle_suspected [OF assms(1) v assms(2), of "fst x" "fst (snd x)" d] assms(1,2,4)
    by (auto simp: partition_ops Let_def)
qed

lemma low_run:
  assumes "\<forall>x \<in> set xs. sees_less iter (d, s) x" "detector_run iter xs (d, s) = ((d', s'), out)"
    and "pt_status (si_partition_state s) = Partitioned \<or> pt_status (si_partition_state s) = PartitionSuspected
      \<and> pt_suspected_since (si_partition_state s) = Some t0
      \<and> (\<exists>x \<in> set xs. fst x - t0 \<ge> pd_confirmation_timeout_ms (det_config d))"
  shows "pt_status (si_partition_state s') = Partitioned"
  using assms
proof (induction xs arbitrary: d s out)
  case (Cons x xs)
  from detector_run_Cons [OF Cons.prems(2)] obtain d1 s1 o1 o2 where c: "detect_cycle iter (fst x) (fst (snd x)) (snd (snd x)) (d, s) = ((d1, s1), o1)"
    and run: "detector_run iter xs (d1, s1) = ((d', s'), o2)" by blast
  have low: "\<forall>x \<in> set xs. sees_less iter (d1, s1) x" using Cons.prems(1) sees_frame(1) [OF c] by simp
  have cfg: "det_config d1 = det_config d" using cycle_frame [OF c] by simp
  show ?case
  proof (rule Cons.IH [OF low run])
    show "pt_status (si_partition_state s1) = Partitioned \<or> pt_status (si_partition_state s1) = PartitionSuspected
      \<and> pt_suspected_since (si_partition_state s1) = Some t0
      \<and> (\<exists>x \<in> set xs. fst x - t0 \<ge> pd_confirmation_timeout_ms (det_config d1))"
      using Cons.prems(3)
    proof
      assume "pt_status (si_partition_state s) = Partitioned"
      then show ?thesis using low_keeps_partitioned [OF _ _ c] Cons.prems(1) by simp
    next
      assume h: "pt_status (si_partition_state s) = PartitionSuspected \<and> pt_suspected_since (si_partition_state s) = Some t0
        \<and> (\<exists>x \<in> set (x # xs). fst x - t0 \<ge> pd_confirmation_timeout_ms (det_config d))"
      then show ?thesis using low_keeps_suspected [OF _ _ _ c, of t0] Cons.prems(1) cfg by (auto split: if_splits)
    qed
  qed
qed auto

text \<open>
  C21: a node that loses sight of the stake threshold and does not regain it becomes
  partitioned: when every cycle sees less than the threshold and one of the later cycles
  comes a confirmation timeout after the suspicion was recorded in the first, the run ends partitioned.
\<close>
theorem partition_confirmed_eventually:
  assumes "pt_status (si_partition_state s) = PartitionNormal" "\<forall>x \<in> set ((t0, t0', peers) # xs). sees_less iter (d, s) x"
    and "\<exists>x \<in> set xs. fst x - t0' \<ge> pd_confirmation_timeout_ms (det_config d)"
  shows "pt_status (si_partition_state (snd (fst (detector_run iter ((t0, t0', peers) # xs) (d, s))))) = Partitioned"
proof -
  obtain v pct where v: "compute_visibility iter peers s = (v, pct)" by fastforce
  obtain d1 s1 o1 where c: "detect_cycle iter t0 t0' peers (d, s) = ((d1, s1), o1)" by (metis surj_pair)
  have "f64_lt pct (pd_stake_visibility_threshold (det_config d))" using assms(2) v by (simp add: sees_less_def)
  then have s1: "pt_status (si_partition_state s1) = PartitionSuspected" "pt_suspected_since (si_partition_state s1) = Some t0'"
    using cycle_normal [OF assms(1) v, of t0 t0' d] c by auto
  obtain d' s' o2 where run: "detector_run iter xs (d1, s1) = ((d', s'), o2)" by (metis surj_pair)
  have "pt_status (si_partition_state s') = Partitioned"
    by (rule low_run [OF _ run, of t0']) (use assms(2,3) s1 sees_frame(1) [OF c] cycle_frame [OF c] in auto)
  then show ?thesis using c run by simp
qed

theorem partition_confirmed_eventually_witness:
  "pt_status (si_partition_state (snd (fst (detector_run (\<lambda>xs. xs) [(0, 0, []), (30000, 30000, [])]
     (PartitionDetector_new watch_config, watch_state PartitionState_default))))) = Partitioned"
  using partition_confirmed_eventually [of "watch_state PartitionState_default" 0 0 "[]" "[(30000, 30000, [])]" "\<lambda>xs. xs" "PartitionDetector_new watch_config"]
  by (simp add: sees_less_def watch_visibility PartitionState_default_def watch_config_def PartitionDetectorConfig_default_def del: detector_run.simps)

text \<open>While enough stake is visible a recovery completes, and a node in normal operation stays there.\<close>

lemma high_keeps_normal:
  assumes "pt_status (si_partition_state s) = PartitionNormal" "sees_enough iter (d, s) x"
    "detect_cycle iter (fst x) (fst (snd x)) (snd (snd x)) (d, s) = ((d', s'), out)"
  shows "pt_status (si_partition_state s') = PartitionNormal"
proof -
  obtain v pct where v: "compute_visibility iter (snd (snd x)) s = (v, pct)" by fastforce
  then show ?thesis using cycle_normal [OF assms(1) v, of "fst x" "fst (snd x)" d] assms f64_le_not_lt
    by (auto simp: sees_enough_def update_partition_visibility_def)
qed

lemma high_recovers:
  assumes "pt_status (si_partition_state s) = Partitioned" "pt_epoch_start_checkpoint (si_partition_state s) = Some fp"
    "det_recovery_started_at d = Some t0" "sees_enough iter (d, s) x" "det_gossip d"
    "detect_cycle iter (fst x) (fst (snd x)) (snd (snd x)) (d, s) = ((d', s'), out)"
  shows "if fst x - t0 \<ge> pd_recovery_window_ms (det_config d)
    then pt_status (si_partition_state s') = PartitionNormal \<and> SendMergePayload fp \<in> set out
    else pt_status (si_partition_state s') = Partitioned \<and> pt_epoch_start_checkpoint (si_partition_state s') = Some fp
      \<and> det_recovery_started_at d' = Some t0"
proof -
  obtain v pct where v: "compute_visibility iter (snd (snd x)) s = (v, pct)" by fastforce
  then show ?thesis using assms
    by (auto simp: sees_enough_def detect_cycle_def partition_ops Let_def)
qed

lemma high_run_normal:
  assumes "\<forall>x \<in> set xs. sees_enough iter (d, s) x" "detector_run iter xs (d, s) = ((d', s'), out)"
    "pt_status (si_partition_state s) = PartitionNormal"
  shows "pt_status (si_partition_state s') = PartitionNormal"
  using assms
proof (induction xs arbitrary: d s out)
  case (Cons x xs)
  from detector_run_Cons [OF Cons.prems(2)] obtain d1 s1 o1 o2 where c: "detect_cycle iter (fst x) (fst (snd x)) (snd (snd x)) (d, s) = ((d1, s1), o1)"
    and run: "detector_run iter xs (d1, s1) = ((d', s'), o2)" by blast
  show ?case
    by (rule Cons.IH [OF _ run]) (use Cons.prems sees_frame(2) [OF c] high_keeps_normal [OF _ _ c] in auto)
qed simp

lemma high_run_recovers:
  assumes "\<forall>x \<in> set xs. sees_enough iter (d, s) x" "detector_run iter xs (d, s) = ((d', s'), out)" "det_gossip d"
    "pt_status (si_partition_state s) = Partitioned" "pt_epoch_start_checkpoint (si_partition_state s) = Some fp"
    "det_recovery_started_at d = Some t0" "\<exists>x \<in> set xs. fst x - t0 \<ge> pd_recovery_window_ms (det_config d)"
  shows "pt_status (si_partition_state s') = PartitionNormal \<and> SendMergePayload fp \<in> set out"
  using assms
proof (induction xs arbitrary: d s out)
  case (Cons x xs)
  from detector_run_Cons [OF Cons.prems(2)] obtain d1 s1 o1 o2 where c: "detect_cycle iter (fst x) (fst (snd x)) (snd (snd x)) (d, s) = ((d1, s1), o1)"
    and run: "detector_run iter xs (d1, s1) = ((d', s'), o2)" and out: "out = o1 @ o2" by blast
  have high: "\<forall>x \<in> set xs. sees_enough iter (d1, s1) x" "sees_enough iter (d, s) x"
    using Cons.prems(1) sees_frame(2) [OF c] by simp_all
  have fr: "det_config d1 = det_config d" "det_gossip d1" using cycle_frame [OF c] Cons.prems(3) by simp_all
  note step = high_recovers [OF Cons.prems(4,5,6) high(2) Cons.prems(3) c]
  show ?case
  proof (cases "fst x - t0 \<ge> pd_recovery_window_ms (det_config d)")
    case True
    then show ?thesis using step high_run_normal [OF high(1) run] out by simp
  next
    case False
    then have "pt_status (si_partition_state s') = PartitionNormal \<and> SendMergePayload fp \<in> set o2"
      using step Cons.prems(7) by (intro Cons.IH [OF high(1) run fr(2)]) (auto simp: fr)
    then show ?thesis by (simp add: out)
  qed
qed simp

text \<open>
  C22: a partition heals: when a partitioned node sees the stake threshold again in every cycle
  and one of the later cycles comes a recovery window after the first, it returns to normal
  operation and has its transactions since the fork point sent out for the merge. (The detector
  has a gossip service and is not timing a recovery yet; that a partitioned node has a fork
  point is part of the invariant above.)
\<close>
theorem partition_heals_eventually:
  assumes "pt_epoch_start_checkpoint (si_partition_state s) = Some fp" "pt_status (si_partition_state s) = Partitioned" "det_recovery_started_at d = None" "det_gossip d"
    and "\<forall>x \<in> set ((t0, t0', peers) # xs). sees_enough iter (d, s) x"
    and "\<exists>x \<in> set xs. fst x - t0 \<ge> pd_recovery_window_ms (det_config d)"
  shows "SendMergePayload fp \<in> set (snd (detector_run iter ((t0, t0', peers) # xs) (d, s)))
    \<and> pt_status (si_partition_state (snd (fst (detector_run iter ((t0, t0', peers) # xs) (d, s))))) = PartitionNormal"
proof -
  note fp = assms(1)
  obtain d' s' out where r: "detector_run iter ((t0, t0', peers) # xs) (d, s) = ((d', s'), out)" by (metis surj_pair)
  from detector_run_Cons [OF r] obtain d1 s1 o1 o2 where c: "detect_cycle iter t0 t0' peers (d, s) = ((d1, s1), o1)"
    and run: "detector_run iter xs (d1, s1) = ((d', s'), o2)" and out: "out = o1 @ o2" by auto
  obtain v pct where v: "compute_visibility iter peers s = (v, pct)" by fastforce
  have "f64_le (pd_stake_visibility_threshold (det_config d)) pct" using assms(5) v by (simp add: sees_enough_def)
  then have s1: "pt_status (si_partition_state s1) = Partitioned" "pt_epoch_start_checkpoint (si_partition_state s1) = Some fp"
    "det_recovery_started_at d1 = Some t0"
    using cycle_partitioned [OF assms(2) v, of t0 t0' d] c fp assms(2,3) by (auto simp: update_partition_visibility_def)
  have "pt_status (si_partition_state s') = PartitionNormal \<and> SendMergePayload fp \<in> set o2"
    by (rule high_run_recovers [OF _ run _ s1]) (use assms(4-6) sees_frame(2) [OF c] cycle_frame [OF c] in auto)
  then show ?thesis using fp out r by auto
qed

theorem partition_heals_eventually_witness:
  "SendMergePayload 7 \<in> set (snd (detector_run (\<lambda>xs. xs) [(0, 0, [''v'']), (10000, 10000, [''v''])]
     (PartitionDetector_new watch_config\<lparr>det_gossip := True\<rparr>, watch_state partitioned_record)))"
proof -
  let ?d = "PartitionDetector_new watch_config\<lparr>det_gossip := True\<rparr>" and ?s = "watch_state partitioned_record"
  have d: "det_config ?d = watch_config" "det_recovery_started_at ?d = None" "det_gossip ?d" by (simp_all add: PartitionDetector_new_def)
  have "\<forall>x \<in> set [(0, 0, [''v'']), (10000, 10000, [''v''])]. sees_enough (\<lambda>xs. xs) (?d, ?s) x"
    by (simp add: sees_enough_def watch_visibility d watch_config_def f64_le_def)
  moreover have "pt_status (si_partition_state ?s) = Partitioned" "pt_epoch_start_checkpoint (si_partition_state ?s) = Some 7"
    by (simp_all add: partitioned_record_def)
  moreover have "\<exists>x \<in> set [(10000, 10000, [''v''])]. fst x - 0 \<ge> pd_recovery_window_ms (det_config ?d)"
    by (simp add: d watch_config_def PartitionDetectorConfig_default_def)
  ultimately show ?thesis
    using partition_heals_eventually [of ?s 7 ?d 0 0 "[''v'']" "[(10000, 10000, [''v''])]" "\<lambda>xs. xs"] d by auto
qed

text \<open>
  A clock that steps back below the time of the suspicion confirms the partition at once: the
  difference of the two times wraps around.
\<close>

lemma clock_step_back_confirms:
  "pt_status (si_partition_state (snd (fst (detect_cycle (\<lambda>xs. xs) 99 99 []
     (PartitionDetector_new watch_config, watch_state (PartitionState_default\<lparr>pt_status := PartitionSuspected, pt_suspected_since := Some 100\<rparr>))))))
   = Partitioned"
  by (simp add: detect_cycle_def watch_visibility watch_config_def PartitionDetectorConfig_default_def partition_ops f64_le_def Let_def)

end
