(* ===== verification/Rinku_Merge_Orchestrator.thy ===== *)
theory Rinku_Merge_Orchestrator
  imports Rinku_Merge_Converge Rinku_Partition
begin

text \<open>
  \<open>rinku-node/src/merge/orchestrator.rs\<close>: running a merge against the transactions of the
  other side and writing its outcome to the node state. \<open>iter\<close> arguments are hash
  iteration orders, \<open>json\<close> is the serialisation of the report, \<open>now\<close> the wall clock
  in milliseconds. Progress events for subscribers and log lines are left out.
\<close>

definition NONCE_REUSE_STAKE_SLASH_PCT :: f64 where "NONCE_REUSE_STAKE_SLASH_PCT = Fin 1"
definition NONCE_REUSE_REPUTATION_PENALTY :: f64 where "NONCE_REUSE_REPUTATION_PENALTY = Fin (1 / 2)"
definition OVERDRAFT_REPUTATION_PENALTY :: f64 where "OVERDRAFT_REPUTATION_PENALTY = rnd (1 / 10)"
definition OVERDRAFT_DECAY_CHECKPOINTS :: u64 where "OVERDRAFT_DECAY_CHECKPOINTS = 100"

section \<open>Payload and summaries\<close>

definition resolve_remote_tx_weight :: "float_env \<Rightarrow> MergeRequest \<Rightarrow> SignedTransaction \<Rightarrow> f64" where
  "resolve_remote_tx_weight fe remote tx =
     (case hm_get (mr_tx_weights remote) (st_hash tx) of
        Some w \<Rightarrow> w
      | None \<Rightarrow>
          (case hm_get (mr_accounts remote) (tx_from (st_tx tx)) of
             Some a \<Rightarrow>
               (let ts_secs = (if tx_timestamp (st_tx tx) > 4000000000 then tx_timestamp (st_tx tx) div 1000
                               else tx_timestamp (st_tx tx))
                in calculate_account_weight fe a ts_secs)
           | None \<Rightarrow> Fin 1))"

definition after_fork :: "u64 \<Rightarrow> DagNode \<Rightarrow> bool" where
  "after_fork fork_point node = (case dn_checkpoint_height node of Some h \<Rightarrow> h > fork_point | None \<Rightarrow> True)"

definition prepare_merge_payload :: "'g petgraph \<Rightarrow> 'g StateInner \<Rightarrow> u64 \<Rightarrow> MergeRequest" where
  "prepare_merge_payload G s fork_point =
     (let nodes = filter (after_fork fork_point) (dag_nodes G (si_dag s))
      in \<lparr>mr_partition_epoch = unwrap_or (pt_current_epoch (si_partition_state s)) 0,
          mr_fork_point_checkpoint_height = fork_point,
          mr_transactions = map dn_tx nodes,
          mr_tx_weights = fold (\<lambda>node. hm_insert (dn_hash node) (dn_weight node)) nodes [],
          mr_accounts = si_accounts s,
          mr_checkpoints = filter (\<lambda>cp. cp_height cp > fork_point) (si_checkpoints s),
          mr_visible_stake_pct = pt_visible_stake_pct (si_partition_state s)\<rparr>)"

definition local_summaries :: "'g petgraph \<Rightarrow> 'g StateInner \<Rightarrow> u64 \<Rightarrow> PartitionTxSummary list" where
  "local_summaries G s fork_point =
     map (\<lambda>node. (from_signed_tx (dn_tx node) (dn_weight node))
            \<lparr>ps_partition_epoch := dn_partition_epoch node,
             ps_visible_stake_pct := pt_visible_stake_pct (si_partition_state s)\<rparr>)
       (filter (after_fork fork_point) (dag_nodes G (si_dag s)))"

definition remote_summaries :: "float_env \<Rightarrow> MergeRequest \<Rightarrow> PartitionTxSummary list" where
  "remote_summaries fe remote =
     map (\<lambda>tx. (from_signed_tx tx (resolve_remote_tx_weight fe remote tx))
            \<lparr>ps_partition_epoch := Some (mr_partition_epoch remote),
             ps_visible_stake_pct := mr_visible_stake_pct remote\<rparr>)
       (mr_transactions remote)"

text \<open>The accounts at the fork point are the current ones, whatever the height.\<close>

definition get_fork_point_accounts :: "'g StateInner \<Rightarrow> u64 \<Rightarrow> (string, Account) hash_map" where
  "get_fork_point_accounts s fork_point = si_accounts s"

section \<open>Penalties\<close>

definition direct_penalty :: "(string, Account) hash_map \<Rightarrow> DirectConflict \<Rightarrow> PenaltyAssessment" where
  "direct_penalty accounts conflict =
     \<lparr>pa_account = dc_account conflict, pa_violation_type = NonceReuse,
      pa_balance_penalty_micro = unwrap_or (map_option acc_balance (hm_get accounts (dc_account conflict))) 0 div 10,
      pa_stake_slash_pct = NONCE_REUSE_STAKE_SLASH_PCT, pa_reputation_penalty = NONCE_REUSE_REPUTATION_PENALTY,
      pa_decay_checkpoints = None,
      pa_conflicting_tx_hashes = [dc_local_tx_hash conflict, dc_remote_tx_hash conflict]\<rparr>"

definition overdraft_penalty :: "EconomicConflict \<Rightarrow> PenaltyAssessment" where
  "overdraft_penalty conflict =
     \<lparr>pa_account = ec_account conflict, pa_violation_type = CrossPartitionOverdraft,
      pa_balance_penalty_micro = 0, pa_stake_slash_pct = Fin 0,
      pa_reputation_penalty = OVERDRAFT_REPUTATION_PENALTY,
      pa_decay_checkpoints = Some OVERDRAFT_DECAY_CHECKPOINTS,
      pa_conflicting_tx_hashes = ec_local_tx_hashes conflict @ ec_remote_tx_hashes conflict\<rparr>"

definition assess_penalties ::
  "DirectConflict list \<Rightarrow> EconomicConflict list \<Rightarrow> (string, Account) hash_map \<Rightarrow> PenaltyAssessment list" where
  "assess_penalties direct_conflicts economic_conflicts accounts =
     (let (penalties, penalized) = fold (\<lambda>conflict (penalties, penalized).
            if dc_account conflict \<in> set penalized then (penalties, penalized)
            else (penalties @ [direct_penalty accounts conflict], dc_account conflict # penalized))
            direct_conflicts ([], [])
      in penalties @ map overdraft_penalty (filter (\<lambda>conflict. ec_account conflict \<notin> set penalized) economic_conflicts))"

section \<open>The report\<close>

definition merge_report ::
  "'g petgraph \<Rightarrow> float_env \<Rightarrow> (string list \<Rightarrow> string list) \<Rightarrow> u64 \<Rightarrow> 'g StateInner \<Rightarrow> MergeRequest \<Rightarrow> MergeReport" where
  "merge_report G fe iter now s remote =
     (let fork_point = mr_fork_point_checkpoint_height remote;
          local_txs = local_summaries G s fork_point;
          remote_txs = remote_summaries fe remote;
          accounts = get_fork_point_accounts s fork_point;
          (direct_conflicts, economic_conflicts) = detect_all_conflicts iter local_txs remote_txs accounts;
          resolutions = resolve_all_conflicts direct_conflicts economic_conflicts local_txs remote_txs accounts;
          losers = conflict_losers resolutions;
          rollback = cascade_rollback iter losers (local_txs @ remote_txs)
            (build_fork_point_balances_micro accounts) (build_fork_point_nonces accounts)
      in (MergeReport_new now (mr_partition_epoch remote) fork_point)
           \<lparr>rep_phase := StateReconciliation,
            rep_local_tx_count := length local_txs, rep_remote_tx_count := length remote_txs,
            rep_direct_conflicts := direct_conflicts, rep_economic_conflicts := economic_conflicts,
            rep_resolutions := resolutions,
            rep_cascade_rollbacks := rb_cascade_rollbacks rollback,
            rep_cascade_rejected_count := length (rb_cascade_rollbacks rollback),
            rep_final_balances_micro := Some (rb_final_balances_micro rollback),
            rep_transactions_kept := rb_surviving_tx_hashes rollback,
            rep_transactions_rejected :=
              remdups_adj (sort (iter losers @ map cb_tx_hash (rb_cascade_rollbacks rollback))),
            rep_penalties := assess_penalties direct_conflicts economic_conflicts accounts\<rparr>)"

section \<open>Applying the merge\<close>

definition merged_account :: "string \<Rightarrow> u64 \<Rightarrow> u64 \<Rightarrow> Account" where
  "merged_account addr balance now_secs = (Account_new addr now_secs)\<lparr>acc_balance := balance\<rparr>"

definition set_final_balance :: "u64 \<Rightarrow> string \<times> u64 \<Rightarrow> (string, Account) hash_map \<Rightarrow> (string, Account) hash_map" where
  "set_final_balance now_secs = (\<lambda>(addr, balance) accounts.
     case hm_get accounts addr of
       Some account \<Rightarrow> hm_insert addr (account\<lparr>acc_balance := balance\<rparr>) accounts
     | None \<Rightarrow> if balance > 0 then hm_insert addr (merged_account addr balance now_secs) accounts else accounts)"

definition remote_node :: "float_env \<Rightarrow> MergeRequest \<Rightarrow> u64 \<Rightarrow> u64 \<Rightarrow> u64 \<Rightarrow> SignedTransaction \<Rightarrow> DagNode" where
  "remote_node fe remote now epoch height tx =
     \<lparr>dn_hash = st_hash tx, dn_tx = tx, dn_parents = tx_parents (st_tx tx), dn_children = [],
      dn_weight = resolve_remote_tx_weight fe remote tx, dn_finalized = True, dn_checkpoint_height = Some height,
      dn_received_at_ms = Some now, dn_partition_epoch = Some epoch, dn_rolled_back = False, dn_fast_path_cert = None\<rparr>"

text \<open>\<open>let _ = state.dag.add_node(node)\<close>: an error leaves the DAG as it is.\<close>

definition or_unchanged :: "'a \<Rightarrow> 'e + 'a \<Rightarrow> 'a" where
  "or_unchanged d r = (case r of Inr d' \<Rightarrow> d' | Inl _ \<Rightarrow> d)"

definition ingest_tx ::
  "'g petgraph \<Rightarrow> float_env \<Rightarrow> MergeRequest \<Rightarrow> u64 \<Rightarrow> u64 \<Rightarrow> u64 \<Rightarrow> string list \<Rightarrow> SignedTransaction \<Rightarrow> 'g Dag \<Rightarrow> 'g Dag" where
  "ingest_tx G fe remote now epoch height surviving tx d =
     (if st_hash tx \<in> set surviving \<and> \<not> dag_contains d (st_hash tx)
      then or_unchanged d (add_node G now (remote_node fe remote now epoch height tx) d) else d)"

definition ingest_remote ::
  "'g petgraph \<Rightarrow> float_env \<Rightarrow> MergeRequest \<Rightarrow> u64 \<Rightarrow> u64 \<Rightarrow> u64 \<Rightarrow> string list \<Rightarrow> 'g Dag \<Rightarrow> 'g Dag" where
  "ingest_remote G fe remote now epoch height surviving =
     fold (ingest_tx G fe remote now epoch height surviving) (mr_transactions remote)"

definition reject_node :: "'g petgraph \<Rightarrow> string list \<Rightarrow> string list \<Rightarrow> string list \<Rightarrow> string \<Rightarrow> 'g Dag \<Rightarrow> 'g Dag" where
  "reject_node G direct_losers cascade_hashes rejected hash d =
     (if hash \<notin> set rejected then d
      else if hash \<in> set direct_losers then fst (dag_remove_node G hash d)
      else if hash \<in> set cascade_hashes
      then get_node_mut G hash (\<lambda>node. node\<lparr>dn_rolled_back := True\<rparr>) (unfinalize G hash d)
      else d)"

definition finalize_survivor :: "'g petgraph \<Rightarrow> u64 \<Rightarrow> string \<Rightarrow> 'g Dag \<Rightarrow> 'g Dag" where
  "finalize_survivor G height hash d =
     get_node_mut G hash (\<lambda>node. node\<lparr>dn_rolled_back := False\<rparr>) (or_unchanged d (mark_finalized G hash height d))"

definition penalize_account :: "u64 \<Rightarrow> PenaltyAssessment \<Rightarrow> Account \<Rightarrow> Account \<times> u64" where
  "penalize_account merge_height penalty account =
     (let account = (if pa_balance_penalty_micro penalty > 0
                     then account\<lparr>acc_balance := saturating_sub (acc_balance account) (pa_balance_penalty_micro penalty)\<rparr>
                     else account);
          slash = (if f64_lt (Fin 0) (pa_stake_slash_pct penalty)
                   then to_u64 (f64_round (f64_mul (f64_of_u64 (acc_staked account)) (pa_stake_slash_pct penalty)))
                   else 0);
          account = account\<lparr>acc_staked := saturating_sub (acc_staked account) slash,
                            acc_reputation_penalty := f64_min (f64_add (acc_reputation_penalty account) (pa_reputation_penalty penalty)) (Fin 1),
                            acc_partition_violations := acc_partition_violations account + 1\<rparr>;
          account = (case pa_decay_checkpoints penalty of
                       Some decay \<Rightarrow> account\<lparr>acc_penalty_decay_checkpoint := Some (merge_height + decay)\<rparr>
                     | None \<Rightarrow> account)
      in (account, slash))"

definition apply_penalty :: "u64 \<Rightarrow> PenaltyAssessment \<Rightarrow> 'g StateInner \<Rightarrow> 'g StateInner" where
  "apply_penalty merge_height penalty s =
     (case hm_get (si_accounts s) (pa_account penalty) of
        None \<Rightarrow> s
      | Some account \<Rightarrow>
          (let (account, slash_amount) = penalize_account merge_height penalty account;
               s = s\<lparr>si_accounts := hm_insert (pa_account penalty) account (si_accounts s)\<rparr>
           in if slash_amount > 0
              then s\<lparr>si_validators := hm_modify (pa_account penalty)
                       (\<lambda>v. v\<lparr>val_stake := saturating_sub (val_stake v) slash_amount\<rparr>) (si_validators s)\<rparr>
              else s))"

definition merge_state_root :: "crypto_env \<Rightarrow> (string, Account) hash_map \<Rightarrow> string" where
  "merge_state_root env accounts =
     sha256_hex env (join_with '','' (sort (map (\<lambda>(addr, acct).
       addr @ '':'' @ show_u (acc_balance acct) @ '':'' @ show_u (acc_nonce acct)) accounts)))"

definition merge_checkpoint ::
  "crypto_env \<Rightarrow> (MergeReport \<Rightarrow> string) \<Rightarrow> u64 \<Rightarrow> MergeReport \<Rightarrow> string list \<Rightarrow> u64 \<Rightarrow> 'g StateInner \<Rightarrow> Checkpoint" where
  "merge_checkpoint env json now_secs report surviving fork_point s =
     (let merge_height = fork_point + 1;
          fork_point_hash = map_option cp_hash (find (\<lambda>cp. cp_height cp = fork_point) (si_checkpoints s));
          tx_merkle_root = sha256_hex env (join_with '','' (sort surviving));
          state_root = merge_state_root env (si_accounts s);
          tips = word_of_nat (tip_count (si_dag s)) :: u32;
          checkpoint_hash = sha256_hex env (show_u merge_height @ '':'' @ tx_merkle_root @ '':'' @ state_root @ ''::''
            @ show_u tips @ '':'' @ show_u now_secs)
      in \<lparr>cp_height = merge_height, cp_hash = checkpoint_hash, cp_previous_hash = fork_point_hash,
          cp_tx_merkle_root = tx_merkle_root, cp_state_root = state_root, cp_receipt_root = [],
          cp_tip_count = tips, cp_timestamp = now_secs, cp_validator_signatures = [],
          cp_aggregated_signature = None, cp_signer_bitmap = None, cp_finalized_tx_hashes = surviving,
          cp_weight_trie_root = [], cp_provisional = False, cp_partition_epoch = Some (rep_merge_epoch report),
          cp_visible_stake_pct = Some (Fin 1), cp_merge_report_hash = Some (sha256_hex env (json report)),
          cp_view_change_certificate = None, cp_view = 0\<rparr>)"

definition retire_provisional :: "u64 \<Rightarrow> Checkpoint list \<Rightarrow> Checkpoint list" where
  "retire_provisional fork_point = filter (\<lambda>cp. cp_height cp \<le> fork_point \<or> \<not> cp_provisional cp)"

definition merge_dag ::
  "'g petgraph \<Rightarrow> float_env \<Rightarrow> u64 \<Rightarrow> MergeReport \<Rightarrow> MergeRequest \<Rightarrow> string list \<Rightarrow> u64 \<Rightarrow> 'g Dag \<Rightarrow> 'g Dag" where
  "merge_dag G fe now report remote surviving fork_point d =
     (let direct_losers = concat (map cr_loser_tx_hashes (rep_resolutions report));
          cascade_hashes = map cb_tx_hash (rep_cascade_rollbacks report);
          d = ingest_remote G fe remote now (rep_merge_epoch report) (fork_point + 1) surviving d;
          d = fold (reject_node G direct_losers cascade_hashes (rep_transactions_rejected report))
                (map dn_hash (dag_nodes G d)) d
      in fold (finalize_survivor G (fork_point + 1)) surviving d)"

text \<open>
  The whole write section. The count of surviving nonces the code collects on the way is
  not used by it. The second result is the new value of the cached checkpoint height.
\<close>

definition apply_merge_state ::
  "crypto_env \<Rightarrow> 'g petgraph \<Rightarrow> float_env \<Rightarrow> (MergeReport \<Rightarrow> string) \<Rightarrow> ((string \<times> u64) list \<Rightarrow> (string \<times> u64) list)
   \<Rightarrow> u64 \<Rightarrow> MergeReport \<Rightarrow> MergeRequest \<Rightarrow> (string, u64) hash_map \<Rightarrow> string list \<Rightarrow> u64 \<Rightarrow> 'g StateInner
   \<Rightarrow> 'g StateInner \<times> u64" where
  "apply_merge_state env G fe json iter now report remote final_balances surviving fork_point s =
     (let now_secs = now div 1000;
          s = s\<lparr>si_accounts := fold (set_final_balance now_secs) (iter final_balances) (si_accounts s),
                si_dag := merge_dag G fe now report remote surviving fork_point (si_dag s)\<rparr>;
          s = fold (apply_penalty (fork_point + 1)) (rep_penalties report) s;
          s = s\<lparr>si_checkpoints := retire_provisional fork_point (si_checkpoints s)\<rparr>;
          cp = merge_checkpoint env json now_secs report surviving fork_point s;
          s = s\<lparr>si_checkpoints := si_checkpoints s @ [cp]\<rparr>
      in (s, last_height (si_checkpoints s)))"

text \<open>
  \<open>execute_merge\<close> takes the read lock three times, for the nodes, the visible stake and the
  accounts (\<open>get_fork_point_accounts\<close>), and the write lock once, in \<open>apply_merge_state\<close>; other
  operations may run in between. So the states it reads are arguments of their own and need not
  be the state \<open>s\<close> it writes to. \<open>merge_view\<close> is what it has read, as one state. The clock is
  read when the report is started, when it is applied and when it is complete.
\<close>

definition merge_view :: "'g StateInner \<times> 'g StateInner \<times> 'g StateInner \<Rightarrow> 'g StateInner" where
  "merge_view = (\<lambda>(nodes_read, stake_read, accounts_read).
     nodes_read\<lparr>si_partition_state := si_partition_state stake_read, si_accounts := si_accounts accounts_read\<rparr>)"

definition execute_merge ::
  "crypto_env \<Rightarrow> 'g petgraph \<Rightarrow> float_env \<Rightarrow> (MergeReport \<Rightarrow> string) \<Rightarrow> (string list \<Rightarrow> string list)
   \<Rightarrow> ((string \<times> u64) list \<Rightarrow> (string \<times> u64) list) \<Rightarrow> u64 \<times> u64 \<times> u64
   \<Rightarrow> 'g StateInner \<times> 'g StateInner \<times> 'g StateInner \<Rightarrow> MergeRequest \<Rightarrow> 'g StateInner
   \<Rightarrow> 'g StateInner \<times> u64 \<times> MergeReport" where
  "execute_merge env G fe json iter iterb = (\<lambda>(started, applied, completed) reads remote s.
     let report = merge_report G fe iter started (merge_view reads) remote;
         (s, height) = apply_merge_state env G fe json iterb applied report remote
           (unwrap_or (rep_final_balances_micro report) []) (rep_transactions_kept report)
           (mr_fork_point_checkpoint_height remote) s
     in (s, height, report_complete completed report))"

end
