(* ===== verification/Rinku_Merge_State.thy ===== *)
theory Rinku_Merge_State
  imports Rinku_Merge_Orchestrator
begin

text \<open>
  What a merge leaves in the node: the DAG with its marks, the penalties, the checkpoints,
  and where the result is not what the protocol intends.
\<close>

section \<open>Marks\<close>

text \<open>The part of a node a merge writes: finalized, checkpoint height, rolled back.\<close>

definition mark :: "DagNode \<Rightarrow> bool \<times> u64 option \<times> bool" where
  "mark n = (dn_finalized n, dn_checkpoint_height n, dn_rolled_back n)"

definition marks :: "'g petgraph \<Rightarrow> 'g Dag \<Rightarrow> string \<rightharpoonup> bool \<times> u64 option \<times> bool" where
  "marks G d = (\<lambda>h. map_option mark (get_node G d h))"

text \<open>
  A pass over a list of keys in which each step changes the view at its own key only, and
  doing it twice is doing it once.
\<close>

locale pointwise_pass =
  fixes inv :: "'s \<Rightarrow> bool"
    and view :: "'s \<Rightarrow> 'k \<rightharpoonup> 'v"
    and step :: "'k \<Rightarrow> 's \<Rightarrow> 's"
    and f :: "'k \<Rightarrow> 'v option \<Rightarrow> 'v option"
  assumes step_inv: "inv s \<Longrightarrow> inv (step k s)"
    and step_view: "inv s \<Longrightarrow> view (step k s) = (view s)(k := f k (view s k))"
    and f_idem: "f k (f k x) = f k x"
begin

lemma pass:
  "inv s \<Longrightarrow> inv (fold step ks s) \<and> view (fold step ks s) = (\<lambda>k. if k \<in> set ks then f k (view s k) else view s k)"
proof (induction ks arbitrary: s)
  case (Cons k ks)
  from Cons.IH [OF step_inv [OF Cons.prems, of k]] show ?case
    by (auto simp: step_view [OF Cons.prems] f_idem)
qed simp

end

lemma marks_mut:
  assumes "petgraph_laws G" "dag_idx G d" "\<And>n. dn_hash (g n) = dn_hash n"
  shows "marks G (get_node_mut G h g d) = (marks G d)(h := map_option (\<lambda>n. mark (g n)) (get_node G d h))"
  unfolding marks_def get_node_mut_get(2) [OF assms] by (auto simp: fun_eq_iff option.map_comp comp_def)

text \<open>Setting the rolled back flag touches no index.\<close>

lemma mut_rolled_back_inv:
  assumes "petgraph_laws G" "dag_inv G d"
  shows "dag_inv G (get_node_mut G h (\<lambda>n. n\<lparr>dn_rolled_back := b\<rparr>) d)"
proof -
  have idx: "dag_idx G d" using assms(2) by (simp add: dag_inv_def)
  note mut = get_node_mut_get [OF assms(1) idx, of "\<lambda>n. n\<lparr>dn_rolled_back := b\<rparr>" h]
  have get: "get_node G (get_node_mut G h (\<lambda>n. n\<lparr>dn_rolled_back := b\<rparr>) d)
      = (get_node G d)(h := map_option (\<lambda>n. n\<lparr>dn_rolled_back := b\<rparr>) (get_node G d h))" by (rule mut(2)) simp
  show ?thesis
  proof (rule dag_invI [OF _ get])
    show "dag_idx G (get_node_mut G h (\<lambda>n. n\<lparr>dn_rolled_back := b\<rparr>) d)" by (rule mut(1)) simp
  qed (use assms(2) in \<open>simp_all add: dag_inv_def dag_view_defs, auto?\<close>)
qed

definition reject_mark :: "string list \<Rightarrow> string list \<Rightarrow> string list \<Rightarrow> string \<Rightarrow> (bool \<times> u64 option \<times> bool) option \<Rightarrow> (bool \<times> u64 option \<times> bool) option" where
  "reject_mark direct cascade rejected h x =
     (if h \<notin> set rejected then x else if h \<in> set direct then None
      else if h \<in> set cascade then map_option (\<lambda>_. (False, None, True)) x else x)"

lemma mark_del_child [simp]: "mark (del_child h n) = mark n"
  by (simp add: mark_def del_child_def)

lemma marks_remove:
  assumes "petgraph_laws G" "dag_inv G d"
  shows "marks G (fst (dag_remove_node G h d)) = (marks G d)(h := None)"
proof (cases "get_node G d h")
  case None
  then show ?thesis using dag_inv_views(1) [OF assms(2)]
    by (auto simp: dag_remove_node_absent marks_def fun_eq_iff)
next
  case (Some n)
  then have "get_node G (fst (dag_remove_node G h d)) = remove_map h (get_node G d)"
    using dag_remove_node_inv [OF assms(1) dag_inv_views(1,5) [OF assms(2)] Some refl] by simp
  then show ?thesis
    by (auto simp: marks_def fun_eq_iff remove_map_def unlink_map_def option.map_comp comp_def)
qed

interpretation reject: pointwise_pass
  "\<lambda>d. petgraph_laws G \<and> dag_inv G d" "marks G" "reject_node G direct cascade rejected" "reject_mark direct cascade rejected"
  for G direct cascade rejected
proof (unfold_locales, goal_cases)
  case (1 d h)
  then show ?case
    by (simp add: reject_node_def dag_remove_node_keeps(1) mut_rolled_back_inv unfinalize_inv)
next
  case (2 d h)
  then have u: "dag_inv G (unfinalize G h d)" "get_node G (unfinalize G h d) = clear_map {h} (get_node G d)"
    using unfinalize_inv by blast+
  have "marks G (get_node_mut G h (\<lambda>n. n\<lparr>dn_rolled_back := True\<rparr>) (unfinalize G h d))
      = (marks G d)(h := map_option (\<lambda>_. (False, None, True)) (marks G d h))"
    unfolding marks_mut [OF conjunct1 [OF 2] dag_inv_views(1) [OF u(1)], of "\<lambda>n. n\<lparr>dn_rolled_back := True\<rparr>", simplified]
    by (auto simp: fun_eq_iff marks_def u(2) clear_map_def mark_def option.map_comp comp_def)
  then show ?case using 2 by (auto simp: reject_node_def reject_mark_def marks_remove fun_eq_iff)
next
  case (3 h x)
  then show ?case by (simp add: reject_mark_def option.map_comp comp_def)
qed

interpretation finalize: pointwise_pass
  "\<lambda>d. petgraph_laws G \<and> dag_inv G d" "marks G" "finalize_survivor G height" "\<lambda>h. map_option (\<lambda>_. (True, Some height, False))"
  for G height
proof (unfold_locales, goal_cases)
  case (1 d h)
  then have "dag_inv G (or_unchanged d (mark_finalized G h height d))"
    using mark_finalized_inv [of G d h height] by (auto simp: or_unchanged_def split: sum.split)
  then show ?case using 1 by (simp add: finalize_survivor_def mut_rolled_back_inv)
next
  case (2 d h)
  let ?d = "or_unchanged d (mark_finalized G h height d)"
  have u: "dag_inv G ?d \<and> get_node G ?d = finalize_map {h} height (get_node G d)"
  proof (cases "mark_finalized G h height d")
    case (Inl e)
    then have "get_node G d h = None" by (auto simp: mark_finalized_def Let_def split: option.splits)
    then show ?thesis using 2 Inl by (auto simp: or_unchanged_def finalize_map_def)
  next
    case (Inr d')
    then show ?thesis using mark_finalized_inv [of G d h height] 2 by (simp add: or_unchanged_def)
  qed
  then show ?case
    unfolding finalize_survivor_def
      marks_mut [OF conjunct1 [OF 2] dag_inv_views(1) [OF conjunct1 [OF u]], of "\<lambda>n. n\<lparr>dn_rolled_back := False\<rparr>", simplified]
    by (auto simp: fun_eq_iff marks_def finalize_map_def mark_def option.map_comp comp_def)
next
  case (3 h x)
  then show ?case by (simp add: option.map_comp comp_def)
qed

section \<open>Ingesting the remote transactions\<close>

lemma remote_node_fields [simp]:
  "dn_hash (remote_node fe remote now epoch height tx) = st_hash tx"
  "dn_parents (remote_node fe remote now epoch height tx) = tx_parents (st_tx tx)"
  "dn_children (remote_node fe remote now epoch height tx) = []"
  by (simp_all add: remote_node_def)

lemma ingest_tx_inv:
  assumes "petgraph_laws G" "dag_inv G d"
  shows "dag_inv G (ingest_tx G fe remote now epoch height surviving tx d)"
  using add_node_inv [OF assms remote_node_fields(3)] assms(2)
  by (auto simp: ingest_tx_def or_unchanged_def split: sum.split)

lemma ingest_inv:
  assumes "petgraph_laws G"
  shows "dag_inv G d \<Longrightarrow> dag_inv G (fold (ingest_tx G fe remote now epoch height surviving) txs d)"
  by (induction txs arbitrary: d) (simp_all add: ingest_tx_inv [OF assms])

lemma node_hashes:
  assumes "dag_inv G d"
  shows "set (map dn_hash (dag_nodes G d)) = dom (get_node G d)"
  using dag_inv_views(1) [OF assms] get_node_map [of G d] by (auto simp: dag_idx_def node_map_None dom_def)

text \<open>While the DAG is below its capacity, adding a node adds exactly it.\<close>

lemma add_node_dom:
  assumes "petgraph_laws G" "dag_inv G d" "dn_children node = []" "node_count G d < dag_max_nodes d"
    "dn_hash node \<notin> set (dn_parents node)"
  shows "dom (get_node G (or_unchanged d (add_node G now node d))) = insert (dn_hash node) (dom (get_node G d))
    \<and> node_count G (or_unchanged d (add_node G now node d)) \<le> node_count G d + 1
    \<and> dag_max_nodes (or_unchanged d (add_node G now node d)) = dag_max_nodes d"
proof (cases "hm_contains (hash_to_index d) (dn_hash node)")
  case True
  then have "get_node G d (dn_hash node) \<noteq> None"
    using dag_inv_views(1) [OF assms(2)] get_node_None_index [of G d "dn_hash node"] by (auto simp: hm_contains_def)
  then show ?thesis using True by (auto simp: add_node_eq or_unchanged_def)
next
  case False
  then have "get_node G d (dn_hash node) = None" by (simp add: get_node_def hm_contains_def)
  note lnk = add_linked_inv [OF assms(1,2) this assms(3)]
  have "dom (get_node G (add_linked G node d)) = insert (dn_hash node) (dom (get_node G d))"
    unfolding lnk(2) by (auto simp: add_map_def real_parents_def split: if_splits)
  moreover have "node_count G x = card (dom (get_node G x))" if "dag_inv G x" for x
    using node_hashes [OF that] dag_idx_distinct [OF dag_inv_views(1) [OF that]]
    by (metis distinct_card length_map node_count_def)
  ultimately have c: "dom (get_node G (add_linked G node d)) = insert (dn_hash node) (dom (get_node G d))"
    "node_count G (add_linked G node d) \<le> node_count G d + 1"
    using lnk(1) assms(2) by (simp_all add: card_insert_le_m1)
  then have "add_node G now node d = Inr (add_linked G node d)"
    using False assms(4,5) lnk(3) by (auto simp: add_node_eq Let_def)
  then show ?thesis using c lnk(3) by (simp add: or_unchanged_def)
qed


lemma ingest_dom:
  assumes "petgraph_laws G" "dag_inv G d" "node_count G d + length txs \<le> dag_max_nodes d"
    "\<forall>tx \<in> set txs. st_hash tx \<notin> set (tx_parents (st_tx tx))"
  shows "dom (get_node G (fold (ingest_tx G fe remote now epoch height surviving) txs d))
    = dom (get_node G d) \<union> (st_hash ` set txs \<inter> set surviving)"
  using assms(2-4)
proof (induction txs arbitrary: d)
  case (Cons tx txs)
  let ?d = "ingest_tx G fe remote now epoch height surviving tx d"
  have d: "dag_inv G ?d" by (rule ingest_tx_inv [OF assms(1) Cons.prems(1)])
  have step: "dom (get_node G ?d) = dom (get_node G d) \<union> ({st_hash tx} \<inter> set surviving)
      \<and> node_count G ?d \<le> node_count G d + 1 \<and> dag_max_nodes ?d = dag_max_nodes d"
  proof (cases "st_hash tx \<in> set surviving \<and> \<not> dag_contains d (st_hash tx)")
    case True
    then show ?thesis
      using add_node_dom [OF assms(1) Cons.prems(1), of "remote_node fe remote now epoch height tx" now] Cons.prems(2,3)
      by (auto simp: ingest_tx_def)
  next
    case False
    then have "st_hash tx \<in> set surviving \<Longrightarrow> st_hash tx \<in> dom (get_node G d)"
      using dag_inv_views(1) [OF Cons.prems(1)] get_node_None_index [of G d "st_hash tx"]
      by (auto simp: dag_contains_def hm_contains_def)
    then show ?thesis using False by (auto simp: ingest_tx_def)
  qed
  have "node_count G ?d + length txs \<le> dag_max_nodes ?d" using step Cons.prems(2) by simp
  from Cons.IH [OF d this] Cons.prems(3) step show ?case by auto
qed simp

section \<open>The DAG after a merge\<close>

lemma merge_dag_marks:
  assumes "petgraph_laws G" "dag_inv G d"
    and d1_def: "d1 = ingest_remote G fe remote now (rep_merge_epoch report) (fork_point + 1) surviving d"
  shows "dag_inv G (merge_dag G fe now report remote surviving fork_point d)"
    and "marks G (merge_dag G fe now report remote surviving fork_point d) h =
      (let x = reject_mark (concat (map cr_loser_tx_hashes (rep_resolutions report))) (map cb_tx_hash (rep_cascade_rollbacks report))
             (rep_transactions_rejected report) h (marks G d1 h)
       in if h \<in> set surviving then map_option (\<lambda>_. (True, Some (fork_point + 1), False)) x else x)"
proof -
  have d1: "petgraph_laws G \<and> dag_inv G d1" using ingest_inv [OF assms(1,2)] assms(1) by (simp add: d1_def ingest_remote_def)
  let ?r = "fold (reject_node G (concat (map cr_loser_tx_hashes (rep_resolutions report))) (map cb_tx_hash (rep_cascade_rollbacks report))
             (rep_transactions_rejected report)) (map dn_hash (dag_nodes G d1)) d1"
  note rej = reject.pass [OF d1, of "concat (map cr_loser_tx_hashes (rep_resolutions report))" "map cb_tx_hash (rep_cascade_rollbacks report)"
      "rep_transactions_rejected report" "map dn_hash (dag_nodes G d1)"]
  note fin = finalize.pass [OF conjunct1 [OF rej], of "fork_point + 1" surviving]
  have eq: "merge_dag G fe now report remote surviving fork_point d = fold (finalize_survivor G (fork_point + 1)) surviving ?r"
    by (simp add: merge_dag_def d1_def Let_def)
  show "dag_inv G (merge_dag G fe now report remote surviving fork_point d)" using fin unfolding eq by blast
  have "marks G d1 h = None" if "h \<notin> set (map dn_hash (dag_nodes G d1))"
    using that d1 unfolding node_hashes [OF conjunct2 [OF d1]] by (auto simp: marks_def)
  then have "marks G ?r h = reject_mark (concat (map cr_loser_tx_hashes (rep_resolutions report))) (map cb_tx_hash (rep_cascade_rollbacks report))
             (rep_transactions_rejected report) h (marks G d1 h)"
    unfolding conjunct2 [OF rej] by (auto simp: reject_mark_def)
  then show "marks G (merge_dag G fe now report remote surviving fork_point d) h =
      (let x = reject_mark (concat (map cr_loser_tx_hashes (rep_resolutions report))) (map cb_tx_hash (rep_cascade_rollbacks report))
             (rep_transactions_rejected report) h (marks G d1 h)
       in if h \<in> set surviving then map_option (\<lambda>_. (True, Some (fork_point + 1), False)) x else x)"
    unfolding eq conjunct2 [OF fin] by (simp add: Let_def)
qed


lemma apply_penalty_frame [simp]:
  "si_dag (apply_penalty k p s) = si_dag s" "si_checkpoints (apply_penalty k p s) = si_checkpoints s"
  "si_state_trie (apply_penalty k p s) = si_state_trie s" "si_partition_state (apply_penalty k p s) = si_partition_state s"
  by (simp_all add: apply_penalty_def Let_def split: option.split prod.split)

lemma apply_penalties_frame [simp]:
  "si_dag (fold (apply_penalty k) ps s) = si_dag s" "si_checkpoints (fold (apply_penalty k) ps s) = si_checkpoints s"
  "si_state_trie (fold (apply_penalty k) ps s) = si_state_trie s"
  by (induction ps arbitrary: s) simp_all

lemma execute_merge_fields:
  assumes "execute_merge env G fe json iter iterb (t0, t1, t2) reads remote s = (s', height, rep)"
  shows "rep = report_complete t2 (merge_report G fe iter t0 (merge_view reads) remote)"
    "si_dag s' = merge_dag G fe t1 (merge_report G fe iter t0 (merge_view reads) remote) remote
       (rep_transactions_kept (merge_report G fe iter t0 (merge_view reads) remote)) (mr_fork_point_checkpoint_height remote) (si_dag s)"
    "si_state_trie s' = si_state_trie s"
    "\<exists>cp. si_checkpoints s' = retire_provisional (mr_fork_point_checkpoint_height remote) (si_checkpoints s) @ [cp]
       \<and> cp_height cp = mr_fork_point_checkpoint_height remote + 1 \<and> \<not> cp_provisional cp
       \<and> cp_finalized_tx_hashes cp = rep_transactions_kept (merge_report G fe iter t0 (merge_view reads) remote)"
    "height = mr_fork_point_checkpoint_height remote + 1"
  using assms by (auto simp: execute_merge_def apply_merge_state_def Let_def merge_checkpoint_def last_height_def)

text \<open>What the report says of the transactions, in terms of the cascade.\<close>

definition merge_txs :: "'g petgraph \<Rightarrow> float_env \<Rightarrow> 'g StateInner \<Rightarrow> MergeRequest \<Rightarrow> PartitionTxSummary list" where
  "merge_txs G fe s remote = local_summaries G s (mr_fork_point_checkpoint_height remote) @ remote_summaries fe remote"

lemma merge_report_sets:
  assumes "iteration_order iter" and rep_def: "rep = merge_report G fe iter t0 s remote"
    and losers_def: "losers = set (concat (map cr_loser_tx_hashes (rep_resolutions rep)))"
    and fallen_def: "fallen = set (map cb_tx_hash (rep_cascade_rollbacks rep))" and kept_def: "kept = set (rep_transactions_kept rep)"
  shows "set (rep_transactions_rejected rep) = losers \<union> fallen"
    "kept \<inter> (losers \<union> fallen) = {}" "losers \<inter> fallen = {}"
    "kept \<union> fallen = ps_tx_hash ` set (merge_txs G fe s remote) - losers"
proof -
  obtain d e where de: "detect_all_conflicts iter (local_summaries G s (mr_fork_point_checkpoint_height remote)) (remote_summaries fe remote)
      (get_fork_point_accounts s (mr_fork_point_checkpoint_height remote)) = (d, e)" by fastforce
  define L where "L = conflict_losers (rep_resolutions rep)"
  define R where "R = cascade_rollback iter L (merge_txs G fe s remote)
      (build_fork_point_balances_micro (si_accounts s)) (build_fork_point_nonces (si_accounts s))"
  have rep: "rep_cascade_rollbacks rep = rb_cascade_rollbacks R" "rep_transactions_kept rep = rb_surviving_tx_hashes R"
    "set (rep_transactions_rejected rep) = set (iter L) \<union> set (map cb_tx_hash (rb_cascade_rollbacks R))"
    unfolding R_def L_def rep_def merge_txs_def using de by (simp_all add: merge_report_def Let_def get_fork_point_accounts_def MergeReport_new_def)
  have L: "set L = losers" unfolding L_def losers_def set_conflict_losers by simp
  from cascade_partitions_txs_helper [OF assms(1), of L "merge_txs G fe s remote"] show
    "set (rep_transactions_rejected rep) = losers \<union> fallen" "kept \<inter> (losers \<union> fallen) = {}" "losers \<inter> fallen = {}"
    "kept \<union> fallen = ps_tx_hash ` set (merge_txs G fe s remote) - losers"
    unfolding rep kept_def fallen_def L [symmetric] iteration_order_set [OF assms(1)] R_def Let_def by blast+
qed


lemma summary_hashes:
  "ps_tx_hash ` set (merge_txs G fe s remote) \<subseteq>
     st_hash ` dn_tx ` set (dag_nodes G (si_dag s)) \<union> st_hash ` set (mr_transactions remote)"
  by (auto simp: merge_txs_def local_summaries_def remote_summaries_def from_signed_tx_def)

lemma merge_view_dag [simp]: "si_dag (merge_view (s1, s2, s3)) = si_dag s1"
  by (simp add: merge_view_def)

text \<open>The DAG read has none but nodes filed under the hash of their transaction, and they are still there when the merge is written.\<close>

definition merge_fits :: "'g petgraph \<Rightarrow> 'g StateInner \<Rightarrow> 'g StateInner \<Rightarrow> MergeRequest \<Rightarrow> bool" where
  "merge_fits G s1 s remote \<longleftrightarrow>
     node_count G (si_dag s) + length (mr_transactions remote) \<le> dag_max_nodes (si_dag s)
     \<and> (\<forall>tx \<in> set (mr_transactions remote). st_hash tx \<notin> set (tx_parents (st_tx tx)))
     \<and> (\<forall>n \<in> set (dag_nodes G (si_dag s1)). st_hash (dn_tx n) = dn_hash n \<and> get_node G (si_dag s) (dn_hash n) \<noteq> None)"

text \<open>
  C11: a merge leaves the DAG in order and as the report says, whatever ran between its reading
  the nodes, the stake and the accounts and its writing the outcome: the indices of the DAG are
  consistent, every transaction kept is in the DAG, finalized at the height of the merge
  checkpoint and not rolled back, every loser is gone, and every other rejected transaction that
  is still there is unfinalized and marked as rolled back. (The DAG has room for the remote
  transactions, no transaction names itself as parent, local nodes are filed under the
  hash of their transaction, and none of the nodes read has left the DAG meanwhile.)
\<close>
theorem merge_reconciles_dag:
  assumes "petgraph_laws G" "dag_inv G (si_dag s)" "iteration_order iter" "merge_fits G s1 s remote"
    and "execute_merge env G fe json iter iterb (t0, t1, t2) (s1, s2, s3) remote s = (s', height, rep)"
  shows "dag_inv G (si_dag s')
    \<and> (\<forall>h \<in> set (rep_transactions_kept rep). marks G (si_dag s') h = Some (True, Some (mr_fork_point_checkpoint_height remote + 1), False))
    \<and> (\<forall>res \<in> set (rep_resolutions rep). \<forall>h \<in> set (cr_loser_tx_hashes res). get_node G (si_dag s') h = None)
    \<and> (\<forall>c \<in> set (rep_cascade_rollbacks rep). marks G (si_dag s') (cb_tx_hash c) \<in> {None, Some (False, None, True)})"
proof -
  let ?v = "merge_view (s1, s2, s3)"
  let ?r = "merge_report G fe iter t0 ?v remote" and ?k = "mr_fork_point_checkpoint_height remote"
  let ?losers = "set (concat (map cr_loser_tx_hashes (rep_resolutions ?r)))"
  let ?fallen = "set (map cb_tx_hash (rep_cascade_rollbacks ?r))" and ?kept = "rep_transactions_kept ?r"
  note m = execute_merge_fields [OF assms(5)]
  note sets = merge_report_sets [OF assms(3) refl refl refl refl, of G fe t0 ?v remote]
  define d1 where "d1 = ingest_remote G fe remote t1 (rep_merge_epoch ?r) (?k + 1) ?kept (si_dag s)"
  note dag = merge_dag_marks [OF assms(1,2) d1_def]
  have dom: "dom (get_node G d1) = dom (get_node G (si_dag s)) \<union> (st_hash ` set (mr_transactions remote) \<inter> set ?kept)"
    unfolding d1_def ingest_remote_def using assms(4) by (intro ingest_dom [OF assms(1,2)]) (auto simp: merge_fits_def)
  have present: "marks G d1 h \<noteq> None" if "h \<in> set ?kept" for h
  proof -
    have "h \<in> ps_tx_hash ` set (merge_txs G fe ?v remote)" using sets(4) that by blast
    then have "h \<in> st_hash ` dn_tx ` set (dag_nodes G (si_dag s1)) \<union> st_hash ` set (mr_transactions remote)"
      using summary_hashes [of G fe ?v remote] by auto
    moreover have "st_hash ` dn_tx ` set (dag_nodes G (si_dag s1)) \<subseteq> dom (get_node G (si_dag s))"
      using assms(4) by (auto simp: merge_fits_def)
    ultimately have "h \<in> dom (get_node G d1)" using dom that by blast
    then show ?thesis by (auto simp: marks_def)
  qed
  have kept: "marks G (si_dag s') h = Some (True, Some (?k + 1), False)" if "h \<in> set ?kept" for h
  proof -
    have "h \<notin> set (rep_transactions_rejected ?r)" using sets(1,2) that by blast
    then show ?thesis unfolding m(2) dag(2) using present [OF that] that by (auto simp: reject_mark_def)
  qed
  have gone: "get_node G (si_dag s') h = None" if "h \<in> ?losers" for h
  proof -
    have "h \<in> set (rep_transactions_rejected ?r)" "h \<notin> set ?kept" using sets(1,2) that by blast+
    then have "marks G (si_dag s') h = None" unfolding m(2) dag(2) using that by (simp add: reject_mark_def)
    then show ?thesis by (simp add: marks_def)
  qed
  have fallen: "marks G (si_dag s') h \<in> {None, Some (False, None, True)}" if "h \<in> ?fallen" for h
  proof -
    have "h \<in> set (rep_transactions_rejected ?r)" "h \<notin> set ?kept" "h \<notin> ?losers" using sets(1-3) that by blast+
    then show ?thesis unfolding m(2) dag(2) using that by (cases "marks G d1 h") (auto simp: reject_mark_def)
  qed
  have "dag_inv G (si_dag s')" unfolding m(2) by (rule dag(1))
  then show ?thesis using kept gone fallen by (auto simp: m(1) report_complete_def)
qed

definition sample_request :: MergeRequest where
  "sample_request = \<lparr>mr_partition_epoch = 1, mr_fork_point_checkpoint_height = 0,
     mr_transactions = [\<lparr>st_tx = sample_tx ''x'' 0 [], st_hash = ''h'', st_signature = []\<rparr>],
     mr_tx_weights = [(''h'', Fin 1)], mr_accounts = [], mr_checkpoints = [], mr_visible_stake_pct = Fin 1\<rparr>"

theorem merge_reconciles_dag_witness:
  "dag_inv list_graph (si_dag (fst (execute_merge sample_env list_graph \<lparr>fe_ln_1p = id, fe_powf = \<lambda>x y. x, fe_powi = \<lambda>x n. x\<rparr> (\<lambda>r. [])
     (\<lambda>xs. xs) (\<lambda>xs. xs) (0, 0, 0) (watch_state PartitionState_default, watch_state PartitionState_default, watch_state PartitionState_default)
     sample_request (watch_state PartitionState_default))))"
proof -
  let ?s = "watch_state PartitionState_default"
  have "dag_inv list_graph (si_dag ?s)" by (simp add: watch_state_def dag_new_inv list_graph_laws)
  moreover have "merge_fits list_graph ?s ?s sample_request"
    by (simp add: merge_fits_def watch_state_def sample_request_def sample_tx_def Dag_new_def node_count_def list_graph_def)
  ultimately show ?thesis using merge_reconciles_dag [OF list_graph_laws _ iteration_order_id, of ?s ?s sample_request]
    by (metis prod.collapse)
qed

section \<open>Penalties\<close>

lemma direct_penalties:
  assumes "fold (\<lambda>conflict (penalties, penalized).
      if dc_account conflict \<in> set penalized then (penalties, penalized)
      else (penalties @ [direct_penalty accounts conflict], dc_account conflict # penalized)) cs (ps0, seen0) = (ps, seen)"
    and "set seen0 = pa_account ` set ps0" "distinct (map pa_account ps0)"
  shows "set seen = pa_account ` set ps \<and> distinct (map pa_account ps) \<and> set seen = set seen0 \<union> dc_account ` set cs"
  using assms
proof (induction cs arbitrary: ps0 seen0)
  case (Cons c cs)
  show ?case
  proof (cases "dc_account c \<in> set seen0")
    case True
    then show ?thesis using Cons.IH [OF _ Cons.prems(2,3)] Cons.prems(1) by auto
  next
    case False
    let ?ps = "ps0 @ [direct_penalty accounts c]" and ?seen = "dc_account c # seen0"
    have a: "pa_account (direct_penalty accounts c) = dc_account c" by (simp add: direct_penalty_def)
    have "set ?seen = pa_account ` set ?ps" "distinct (map pa_account ?ps)" using Cons.prems(2,3) False by (auto simp: a)
    from Cons.IH [OF _ this] Cons.prems(1) False show ?thesis by auto
  qed
qed auto

text \<open>
  Every account with a conflict is penalized exactly once: for reusing a nonce when it has
  a direct conflict, else for the overdraft.
\<close>
theorem penalties_once:
  assumes "distinct (map ec_account economic)"
  shows "distinct (map pa_account (assess_penalties direct economic accounts))
    \<and> pa_account ` set (assess_penalties direct economic accounts) = dc_account ` set direct \<union> ec_account ` set economic"
proof -
  obtain ps seen where f: "fold (\<lambda>conflict (penalties, penalized).
      if dc_account conflict \<in> set penalized then (penalties, penalized)
      else (penalties @ [direct_penalty accounts conflict], dc_account conflict # penalized)) direct ([], []) = (ps, seen)" by fastforce
  note d = direct_penalties [OF f]
  have o: "pa_account (overdraft_penalty c) = ec_account c" for c by (simp add: overdraft_penalty_def)
  have eq: "assess_penalties direct economic accounts
      = ps @ map overdraft_penalty (filter (\<lambda>c. ec_account c \<notin> set seen) economic)" by (simp add: assess_penalties_def f)
  have "distinct (map ec_account (filter P economic))" for P using assms by (simp add: distinct_map_filter)
  moreover have "pa_account ` set (assess_penalties direct economic accounts)
      = pa_account ` set ps \<union> ec_account ` {c \<in> set economic. ec_account c \<notin> set seen}"
    unfolding eq set_append set_map image_Un image_image o set_filter ..
  moreover have "set seen \<inter> ec_account ` {c \<in> set economic. ec_account c \<notin> set seen} = {}" by blast
  moreover have "dc_account ` set direct = pa_account ` set ps" "distinct (map pa_account ps)" "set seen = pa_account ` set ps" using d by auto
  ultimately show ?thesis by (auto simp: eq o comp_def disjoint_iff)
qed

theorem penalties_once_witness:
  "map pa_account (assess_penalties [] [] []) = [] \<and>
   pa_account ` set (assess_penalties [\<lparr>dc_account = ''a'', dc_nonce = 0, dc_local_tx_hash = ''x'', dc_remote_tx_hash = ''y'',
      dc_local_partition_epoch = None, dc_remote_partition_epoch = None\<rparr>] [] []) = {''a''}"
  using penalties_once [of "[]" "[\<lparr>dc_account = ''a'', dc_nonce = 0, dc_local_tx_hash = ''x'', dc_remote_tx_hash = ''y'',
      dc_local_partition_epoch = None, dc_remote_partition_epoch = None\<rparr>]" "[]"] by (simp add: assess_penalties_def)

lemma economic_accounts_distinct:
  assumes "iteration_order iter"
  shows "distinct (map ec_account (detect_economic_conflicts iter l r A))"
proof -
  have 1: "distinct (map ec_account (List.map_filter (economic_conflict l r A) xs))
      \<and> ec_account ` set (List.map_filter (economic_conflict l r A) xs) \<subseteq> set xs" if "distinct xs" for xs
    using that
  proof (induction xs)
    case (Cons x xs)
    then show ?case by (auto simp: map_filter_simps economic_conflict_def Let_def split: prod.splits option.splits if_splits)
  qed (simp add: map_filter_simps)
  have "distinct (senders l)"
  proof -
    have "distinct acc \<Longrightarrow> distinct (fold (\<lambda>tx acc. if ps_from tx \<noteq> ''genesis'' then List.insert (ps_from tx) acc else acc) l acc)" for acc
      by (induction l arbitrary: acc) auto
    then show ?thesis by (simp add: senders_def)
  qed
  then have "distinct (iter (filter (\<lambda>a. a \<in> set (senders r)) (senders l)))"
    using assms unfolding iteration_order_def by (metis distinct_filter mset_eq_imp_distinct_iff)
  from 1 [OF this] have "distinct (map ec_account (List.map_filter (economic_conflict l r A) (iter (filter (\<lambda>a. a \<in> set (senders r)) (senders l)))))" by blast
  then have "distinct (map ec_account (sort_key ec_account (List.map_filter (economic_conflict l r A) (iter (filter (\<lambda>a. a \<in> set (senders r)) (senders l))))))"
    by (metis mset_eq_imp_distinct_iff mset_map mset_sort)
  then show ?thesis by (simp add: detect_economic_conflicts_def Let_def)
qed

section \<open>Where the merge goes wrong\<close>

text \<open>
  The accounts at the fork point are the current ones: a local transaction that has been
  applied, so that the nonce of its sender is past its own, never survives.
\<close>

lemma applied_tx_rejected:
  assumes "iteration_order iter" "hm_get (si_accounts s) a = Some acc" "length (merge_txs G fe s remote) + unat (acc_nonce acc) < 2 ^ 64"
    and "tx \<in> set (cascade_order (conflict_losers (rep_resolutions (merge_report G fe iter t0 s remote))) (merge_txs G fe s remote))"
    and "ps_from tx = a" "ps_nonce tx < acc_nonce acc"
  shows "ps_tx_hash tx \<notin> set (rep_transactions_kept (merge_report G fe iter t0 s remote))"
proof
  let ?L = "conflict_losers (rep_resolutions (merge_report G fe iter t0 s remote))" and ?txs = "merge_txs G fe s remote"
  let ?fb = "build_fork_point_balances_micro (si_accounts s)" and ?fn = "build_fork_point_nonces (si_accounts s)"
  let ?mine = "account_survivors a iter ?L ?txs ?fb ?fn"
  assume "ps_tx_hash tx \<in> set (rep_transactions_kept (merge_report G fe iter t0 s remote))"
  moreover have "rep_transactions_kept (merge_report G fe iter t0 s remote) = rb_surviving_tx_hashes (cascade_rollback iter ?L ?txs ?fb ?fn)"
    by (simp add: merge_report_def Let_def get_fork_point_accounts_def merge_txs_def MergeReport_new_def split: prod.split)
  ultimately have "tx \<in> set ?mine" using assms(4,5) by (simp add: account_survivors_def survivors_def)
  then have "ps_nonce tx \<in> set (map ps_nonce ?mine)" by simp
  moreover have "map ps_nonce ?mine = map (\<lambda>i. amount_at ?fn a + word_of_nat i) [0 ..< length ?mine]"
    by (rule account_survivor_nonces)
  ultimately obtain i where i: "i < length ?mine" "ps_nonce tx = amount_at ?fn a + word_of_nat i" by auto
  have n: "amount_at ?fn a = acc_nonce acc" using assms(2) by (simp add: amount_at_def build_fork_point_nonces_def hm_map_values_def map_of_map)
  have "i < 2 ^ 64" "unat (acc_nonce acc) + i < 2 ^ 64"
    using i(1) length_account_survivors [of a iter ?L ?txs ?fb ?fn] assms(3) by linarith+
  then have "unat (acc_nonce acc + word_of_nat i) = unat (acc_nonce acc) + i"
    by (subst unat_add_no_overflow) (simp_all add: unat_of_nat)
  then show False using assms(6) i(2) n by (simp add: word_less_nat_alt)
qed

text \<open>
  A final checkpoint above the fork point stays in the list, and the merge checkpoint of a
  lower or equal height is pushed after it.
\<close>

lemma merge_checkpoint_not_above:
  assumes "execute_merge env G fe json iter iterb (t0, t1, t2) reads remote s = (s', height, rep)"
    and "cp \<in> set (si_checkpoints s)" "\<not> cp_provisional cp"
  shows "cp \<in> set (butlast (si_checkpoints s')) \<and> cp_height (last (si_checkpoints s')) = mr_fork_point_checkpoint_height remote + 1
    \<and> height = mr_fork_point_checkpoint_height remote + 1"
  using execute_merge_fields(4,5) [OF assms(1)] assms(2,3) by (auto simp: retire_provisional_def)

end
