(* ===== verification/Rinku_Rewards.thy ===== *)
theory Rinku_Rewards
  imports Rinku_Emission Rinku_Text
begin

text \<open>
  \<open>rinku-node/src/rewards.rs\<close>: stakes, the rewards for tips, stakes and witnesses, what
  is pending and what has been claimed. \<open>now\<close> is the wall clock in milliseconds and
  \<open>iter\<close> the iteration order of a hash table. Log lines and the texts of the error
  messages are left out; urls are ASCII.
\<close>

section \<open>Data\<close>

definition WITNESS_TTL_MS :: u64 where "WITNESS_TTL_MS = 3600000"
definition QUEUE_COMPACT_THRESHOLD :: nat where "QUEUE_COMPACT_THRESHOLD = 10000"
definition MAX_WITNESSED_ENTRIES :: nat where "MAX_WITNESSED_ENTRIES = 20000"
definition MAX_LIFETIME_ENTRIES :: nat where "MAX_LIFETIME_ENTRIES = 10000"
definition MAX_PENDING_ENTRIES :: nat where "MAX_PENDING_ENTRIES = 10000"
definition MAX_PROCESSED_HASHES :: nat where "MAX_PROCESSED_HASHES = 50000"
definition MIN_STAKE_AGE_MS :: u64 where "MIN_STAKE_AGE_MS = 15000"

record RewardConfig =
  rc_tip_reward_percent :: f64
  rc_stake_reward_percent :: f64
  rc_witness_reward_percent :: f64
  rc_min_stake_amount :: u64
  rc_min_stake_for_rewards :: u64
  rc_unstake_cooldown_ms :: u64

definition RewardConfig_default :: RewardConfig where
  "RewardConfig_default =
     \<lparr>rc_tip_reward_percent = rnd (1 / 100), rc_stake_reward_percent = rnd (5 / 1000),
      rc_witness_reward_percent = rnd (2 / 1000), rc_min_stake_amount = 10000000000,
      rc_min_stake_for_rewards = 10000000000, rc_unstake_cooldown_ms = 24 * 60 * 60 * 1000\<rparr>"

record StakePosition =
  sp_staker :: string
  sp_amount :: u64
  sp_staked_at :: u64
  sp_last_reward_at :: "u64 option"

record StakingStatus =
  sst_address :: string
  sst_position :: "StakePosition option"
  sst_stake_rewards_total :: u64
  sst_can_unstake :: bool
  sst_cooldown_remaining_ms :: u64

record TipReward =
  tr_recipient :: string
  tr_amount :: u64
  tr_tx_url :: string
  tr_tip_url :: string
  tr_timestamp :: u64

record StakeReward =
  sr_recipient :: string
  sr_amount :: u64
  sr_tx_url :: string
  sr_timestamp :: u64

record WitnessReward =
  wr_recipient :: string
  wr_amount :: u64
  wr_referenced_tx_url :: string
  wr_referencing_tx_url :: string
  wr_timestamp :: u64

datatype Reward = RewardTip TipReward | RewardStake StakeReward | RewardWitness WitnessReward

record RewardsSummary =
  rsm_address :: string
  rsm_tip_rewards :: u64
  rsm_stake_rewards :: u64
  rsm_witness_rewards :: u64
  rsm_total_rewards :: u64
  rsm_pending_rewards :: u64

record WitnessedEntry =
  we_key :: string
  we_ts :: u64

record LifetimeRewards =
  lt_tip_rewards :: u64
  lt_stake_rewards :: u64
  lt_witness_rewards :: u64

definition LifetimeRewards_default :: LifetimeRewards where
  "LifetimeRewards_default = \<lparr>lt_tip_rewards = 0, lt_stake_rewards = 0, lt_witness_rewards = 0\<rparr>"

record RewardsSnapshot =
  rsn_rewards :: "(string \<times> Reward list) list"
  rsn_stakes :: "(string \<times> StakePosition) list"
  rsn_pending_rewards :: "(string \<times> u64) list"
  rsn_witnessed_txs :: "(string \<times> u64) list"
  rsn_witnessed_queue :: "WitnessedEntry list"
  rsn_config :: RewardConfig
  rsn_lifetime_rewards :: "(string \<times> LifetimeRewards) list"
  rsn_claimed_rewards :: "(string \<times> u64) list"

record RewardsService =
  rw_config :: RewardConfig
  rw_rewards :: "(string, Reward list) hash_map"
  rw_stakes :: "(string, StakePosition) hash_map"
  rw_pending_rewards :: "(string, u64) hash_map"
  rw_lifetime_rewards :: "(string, LifetimeRewards) hash_map"
  rw_claimed_rewards :: "(string, u64) hash_map"
  rw_witnessed_txs :: "(string, u64) hash_map"
  rw_witnessed_queue :: "WitnessedEntry list"
  rw_witnessed_queue_head :: nat
  rw_processed_hashes :: "string list"
  rw_processed_order :: "string list"

record RewardsStats =
  rst_total_staked :: u64
  rst_rewards_count :: nat
  rst_stakes_count :: nat
  rst_witnessed_count :: nat
  rst_pending_count :: nat

definition RewardsService_new :: "RewardConfig \<Rightarrow> RewardsService" where
  "RewardsService_new config =
     \<lparr>rw_config = config, rw_rewards = [], rw_stakes = [], rw_pending_rewards = [], rw_lifetime_rewards = [],
      rw_claimed_rewards = [], rw_witnessed_txs = [], rw_witnessed_queue = [], rw_witnessed_queue_head = 0,
      rw_processed_hashes = [], rw_processed_order = []\<rparr>"

type_synonym stakes_order = "(string \<times> StakePosition) list \<Rightarrow> (string \<times> StakePosition) list"

section \<open>Amounts\<close>

definition get_total_staked :: "RewardsService \<Rightarrow> u64" where
  "get_total_staked s = wsum (map sp_amount (hm_values (rw_stakes s)))"

definition calculate_tip_reward :: "RewardsService \<Rightarrow> u64 \<Rightarrow> u64" where
  "calculate_tip_reward s txn_amount = f64_share txn_amount (rc_tip_reward_percent (rw_config s))"

definition calculate_stake_reward :: "RewardsService \<Rightarrow> u64 \<Rightarrow> u64 \<Rightarrow> u64" where
  "calculate_stake_reward s stake_amount txn_amount =
     (let total_staked = get_total_staked s
      in if total_staked = 0 then 0
         else let stake_share = f64_div (f64_of_u64 stake_amount) (f64_of_u64 total_staked)
              in to_u64 (f64_round (f64_mul (f64_mul (f64_of_u64 txn_amount) (rc_stake_reward_percent (rw_config s))) stake_share)))"

definition calculate_witness_reward :: "RewardsService \<Rightarrow> u64 \<Rightarrow> u64" where
  "calculate_witness_reward s txn_amount = f64_share txn_amount (rc_witness_reward_percent (rw_config s))"

section \<open>Recording rewards\<close>

fun reward_amount :: "Reward \<Rightarrow> u64" where
  "reward_amount (RewardTip r) = tr_amount r"
| "reward_amount (RewardStake r) = sr_amount r"
| "reward_amount (RewardWitness r) = wr_amount r"

fun add_lifetime :: "Reward \<Rightarrow> LifetimeRewards \<Rightarrow> LifetimeRewards" where
  "add_lifetime (RewardTip r) l = l\<lparr>lt_tip_rewards := lt_tip_rewards l + tr_amount r\<rparr>"
| "add_lifetime (RewardStake r) l = l\<lparr>lt_stake_rewards := lt_stake_rewards l + sr_amount r\<rparr>"
| "add_lifetime (RewardWitness r) l = l\<lparr>lt_witness_rewards := lt_witness_rewards l + wr_amount r\<rparr>"

definition push_reward :: "Reward \<Rightarrow> Reward list \<Rightarrow> Reward list" where
  "push_reward reward rewards = (let rewards = rewards @ [reward] in drop (length rewards - 100) rewards)"

definition add_pending_reward :: "string \<Rightarrow> u64 \<Rightarrow> RewardsService \<Rightarrow> RewardsService" where
  "add_pending_reward address amount s =
     s\<lparr>rw_pending_rewards := hm_entry address 0 (\<lambda>p. p + amount) (rw_pending_rewards s)\<rparr>"

definition add_reward :: "string \<Rightarrow> Reward \<Rightarrow> RewardsService \<Rightarrow> RewardsService" where
  "add_reward address reward s =
     add_pending_reward address (reward_amount reward)
       (s\<lparr>rw_lifetime_rewards := hm_entry address LifetimeRewards_default (add_lifetime reward) (rw_lifetime_rewards s),
          rw_rewards := hm_entry address [] (push_reward reward) (rw_rewards s)\<rparr>)"

definition process_tip_reward ::
  "u64 \<Rightarrow> string \<Rightarrow> string \<Rightarrow> string \<Rightarrow> u64 \<Rightarrow> RewardsService \<Rightarrow> RewardsService \<times> TipReward option" where
  "process_tip_reward now tx_url tip_url recipient txn_amount s =
     (let amount = calculate_tip_reward s txn_amount
      in if amount = 0 then (s, None)
         else let reward = \<lparr>tr_recipient = recipient, tr_amount = amount, tr_tx_url = tx_url, tr_tip_url = tip_url, tr_timestamp = now\<rparr>
              in (add_reward recipient (RewardTip reward) s, Some reward))"

definition get_active_validators_data :: "stakes_order \<Rightarrow> RewardsService \<Rightarrow> (string \<times> u64) list" where
  "get_active_validators_data iter s =
     map (\<lambda>p. (sp_staker p, sp_amount p))
       (filter (\<lambda>p. sp_amount p \<ge> rc_min_stake_amount (rw_config s)) (hm_values (iter (rw_stakes s))))"

definition stake_reward_step ::
  "u64 \<Rightarrow> string \<Rightarrow> u64 \<Rightarrow> string \<times> u64 \<Rightarrow> RewardsService \<times> StakeReward list \<Rightarrow> RewardsService \<times> StakeReward list" where
  "stake_reward_step now tx_url txn_amount = (\<lambda>(staker, stake_amount) (s, rewards).
     let amount = calculate_stake_reward s stake_amount txn_amount
     in if amount = 0 then (s, rewards)
        else let reward = \<lparr>sr_recipient = staker, sr_amount = amount, sr_tx_url = tx_url, sr_timestamp = now\<rparr>;
                 s = add_reward staker (RewardStake reward) s
             in (s\<lparr>rw_stakes := hm_modify staker (\<lambda>p. p\<lparr>sp_last_reward_at := Some now\<rparr>) (rw_stakes s)\<rparr>, rewards @ [reward]))"

definition process_stake_rewards ::
  "stakes_order \<Rightarrow> u64 \<Rightarrow> string \<Rightarrow> u64 \<Rightarrow> RewardsService \<Rightarrow> RewardsService \<times> StakeReward list" where
  "process_stake_rewards iter now tx_url txn_amount s =
     fold (stake_reward_step now tx_url txn_amount) (get_active_validators_data iter s) (s, [])"

definition compact_queue :: "RewardsService \<Rightarrow> RewardsService" where
  "compact_queue s =
     (if rw_witnessed_queue_head s \<ge> QUEUE_COMPACT_THRESHOLD
      then s\<lparr>rw_witnessed_queue := drop (rw_witnessed_queue_head s) (rw_witnessed_queue s), rw_witnessed_queue_head := 0\<rparr>
      else s)"

text \<open>The pruning loop removes the next \<open>n\<close> entries of the queue, or all that are left.\<close>

definition force_prune_witnessed :: "nat \<Rightarrow> RewardsService \<Rightarrow> RewardsService" where
  "force_prune_witnessed n s =
     (let oldest = take n (drop (rw_witnessed_queue_head s) (rw_witnessed_queue s))
      in compact_queue (s\<lparr>rw_witnessed_txs := fold (\<lambda>e. hm_remove (we_key e)) oldest (rw_witnessed_txs s),
                          rw_witnessed_queue_head := rw_witnessed_queue_head s + length oldest\<rparr>))"

definition witness_key :: "string \<Rightarrow> string \<Rightarrow> string" where
  "witness_key referencing_tx_url referenced_tx_url =
     take 16 (rev referencing_tx_url) @ '':'' @ take 16 (rev referenced_tx_url)"

definition process_witness_reward ::
  "u64 \<Rightarrow> string \<Rightarrow> string \<Rightarrow> string \<Rightarrow> u64 \<Rightarrow> RewardsService \<Rightarrow> RewardsService \<times> WitnessReward option" where
  "process_witness_reward now referencing_tx_url referenced_tx_url recipient txn_amount s =
     (let key = witness_key referencing_tx_url referenced_tx_url
      in if hm_contains (rw_witnessed_txs s) key then (s, None)
         else let amount = calculate_witness_reward s txn_amount
              in if amount = 0 then (s, None)
                 else let s = (if length (rw_witnessed_txs s) \<ge> MAX_WITNESSED_ENTRIES
                               then force_prune_witnessed (MAX_WITNESSED_ENTRIES div 4) s else s);
                          reward = \<lparr>wr_recipient = recipient, wr_amount = amount, wr_referenced_tx_url = referenced_tx_url,
                                    wr_referencing_tx_url = referencing_tx_url, wr_timestamp = now\<rparr>;
                          s = add_reward recipient (RewardWitness reward) s
                      in (s\<lparr>rw_witnessed_txs := hm_insert key now (rw_witnessed_txs s),
                            rw_witnessed_queue := rw_witnessed_queue s @ [\<lparr>we_key = key, we_ts = now\<rparr>]\<rparr>, Some reward))"

section \<open>Stakes\<close>

datatype RewardsError = BelowMinimumStake | NoStakeFound | CooldownNotComplete u64

definition mark_processed :: "string \<Rightarrow> RewardsService \<Rightarrow> RewardsService" where
  "mark_processed tx_hash s =
     (if tx_hash = [] then s
      else s\<lparr>rw_processed_hashes := List.insert tx_hash (rw_processed_hashes s),
             rw_processed_order := rw_processed_order s @ [tx_hash]\<rparr>)"

fun shrink_processed :: "string list \<Rightarrow> string list \<Rightarrow> string list \<times> string list" where
  "shrink_processed hashes [] = (hashes, [])"
| "shrink_processed hashes (oldest # order) =
     (if length hashes > MAX_PROCESSED_HASHES then shrink_processed (remove1 oldest hashes) order
      else (hashes, oldest # order))"

definition cap_processed :: "RewardsService \<Rightarrow> RewardsService" where
  "cap_processed s =
     (let (hashes, order) = shrink_processed (rw_processed_hashes s) (rw_processed_order s)
      in s\<lparr>rw_processed_hashes := hashes, rw_processed_order := order\<rparr>)"

text \<open>
  A hash that was seen before only counts as a duplicate while the staker has a position.
\<close>

definition rewards_stake ::
  "u64 \<Rightarrow> string \<Rightarrow> u64 \<Rightarrow> string \<Rightarrow> RewardsService \<Rightarrow> RewardsService \<times> (RewardsError + StakePosition)" where
  "rewards_stake now staker amount tx_hash s =
     (if amount < rc_min_stake_amount (rw_config s) then (s, Inl BelowMinimumStake)
      else case hm_get (rw_stakes s) staker of
        Some existing \<Rightarrow>
          if tx_hash \<noteq> [] \<and> tx_hash \<in> set (rw_processed_hashes s) then (s, Inr existing)
          else let existing = existing\<lparr>sp_amount := sp_amount existing + amount, sp_staked_at := now\<rparr>
               in (mark_processed tx_hash (s\<lparr>rw_stakes := hm_insert staker existing (rw_stakes s)\<rparr>), Inr existing)
      | None \<Rightarrow>
          let pos = \<lparr>sp_staker = staker, sp_amount = amount, sp_staked_at = now, sp_last_reward_at = None\<rparr>
          in (cap_processed (mark_processed tx_hash (s\<lparr>rw_stakes := hm_insert staker pos (rw_stakes s)\<rparr>)), Inr pos))"

definition register_stake_dedup :: "string \<Rightarrow> RewardsService \<Rightarrow> RewardsService" where
  "register_stake_dedup tx_hash s =
     (if tx_hash = [] \<or> tx_hash \<in> set (rw_processed_hashes s) then s else cap_processed (mark_processed tx_hash s))"

definition sync_stake_amount :: "u64 \<Rightarrow> string \<Rightarrow> u64 \<Rightarrow> RewardsService \<Rightarrow> RewardsService" where
  "sync_stake_amount now staker canonical_amount s =
     (if canonical_amount = 0 then s\<lparr>rw_stakes := hm_remove staker (rw_stakes s)\<rparr>
      else case hm_get (rw_stakes s) staker of
        Some existing \<Rightarrow> s\<lparr>rw_stakes := hm_insert staker (existing\<lparr>sp_amount := canonical_amount\<rparr>) (rw_stakes s)\<rparr>
      | None \<Rightarrow> s\<lparr>rw_stakes := hm_insert staker
          \<lparr>sp_staker = staker, sp_amount = canonical_amount, sp_staked_at = now, sp_last_reward_at = None\<rparr> (rw_stakes s)\<rparr>)"

definition unstake :: "u64 \<Rightarrow> string \<Rightarrow> RewardsService \<Rightarrow> RewardsService \<times> (RewardsError + u64)" where
  "unstake now staker s =
     (case hm_get (rw_stakes s) staker of
        None \<Rightarrow> (s, Inl NoStakeFound)
      | Some pos \<Rightarrow>
          let can_unstake_at = sp_staked_at pos + rc_unstake_cooldown_ms (rw_config s)
          in if now < can_unstake_at then (s, Inl (CooldownNotComplete (can_unstake_at - now)))
             else (s\<lparr>rw_stakes := hm_remove staker (rw_stakes s)\<rparr>, Inr (sp_amount pos)))"

definition get_stake :: "RewardsService \<Rightarrow> string \<Rightarrow> StakePosition option" where
  "get_stake s staker = hm_get (rw_stakes s) staker"

definition update_stake :: "string \<Rightarrow> u64 \<Rightarrow> RewardsService \<Rightarrow> RewardsService" where
  "update_stake staker new_amount s =
     s\<lparr>rw_stakes := hm_modify staker (\<lambda>p. p\<lparr>sp_amount := new_amount\<rparr>) (rw_stakes s)\<rparr>"

definition remove_stake :: "string \<Rightarrow> RewardsService \<Rightarrow> RewardsService" where
  "remove_stake staker s = s\<lparr>rw_stakes := hm_remove staker (rw_stakes s)\<rparr>"

fun stake_reward_of :: "Reward \<Rightarrow> u64 option" where
  "stake_reward_of (RewardStake r) = Some (sr_amount r)"
| "stake_reward_of _ = None"

definition get_staking_status :: "u64 \<Rightarrow> RewardsService \<Rightarrow> string \<Rightarrow> StakingStatus" where
  "get_staking_status now s address =
     (let pos_opt = hm_get (rw_stakes s) address;
          rewards = unwrap_or (hm_get (rw_rewards s) address) [];
          (can_unstake, cooldown_remaining_ms) =
            (case pos_opt of
               Some pos \<Rightarrow>
                 (let can_unstake_at = sp_staked_at pos + rc_unstake_cooldown_ms (rw_config s)
                  in if now \<ge> can_unstake_at then (True, 0) else (False, can_unstake_at - now))
             | None \<Rightarrow> (False, 0))
      in \<lparr>sst_address = address, sst_position = pos_opt,
          sst_stake_rewards_total = wsum (List.map_filter stake_reward_of rewards),
          sst_can_unstake = can_unstake, sst_cooldown_remaining_ms = cooldown_remaining_ms\<rparr>)"

section \<open>Pending and claimed\<close>

definition get_pending_rewards :: "RewardsService \<Rightarrow> string \<Rightarrow> u64" where
  "get_pending_rewards s address = unwrap_or (hm_get (rw_pending_rewards s) address) 0"

definition get_claimed_total :: "RewardsService \<Rightarrow> string \<Rightarrow> u64" where
  "get_claimed_total s address = unwrap_or (hm_get (rw_claimed_rewards s) address) 0"

definition get_lifetime :: "RewardsService \<Rightarrow> string \<Rightarrow> LifetimeRewards" where
  "get_lifetime s address = unwrap_or (hm_get (rw_lifetime_rewards s) address) LifetimeRewards_default"

definition get_rewards_summary :: "RewardsService \<Rightarrow> string \<Rightarrow> RewardsSummary" where
  "get_rewards_summary s address =
     (let pending = get_pending_rewards s address;
          claimed = get_claimed_total s address;
          lifetime = get_lifetime s address;
          authoritative_total = pending + claimed;
          tip = min (lt_tip_rewards lifetime) authoritative_total;
          witness = min (lt_witness_rewards lifetime) (saturating_sub authoritative_total tip);
          stake = saturating_sub authoritative_total (tip + witness)
      in \<lparr>rsm_address = address, rsm_tip_rewards = tip, rsm_stake_rewards = stake, rsm_witness_rewards = witness,
          rsm_total_rewards = authoritative_total, rsm_pending_rewards = pending\<rparr>)"

definition claim_rewards :: "string \<Rightarrow> RewardsService \<Rightarrow> RewardsService \<times> u64" where
  "claim_rewards address s =
     (let pending = get_pending_rewards s address
      in if pending > 0
         then (s\<lparr>rw_pending_rewards := hm_insert address 0 (rw_pending_rewards s),
                 rw_claimed_rewards := hm_insert address (get_claimed_total s address + pending) (rw_claimed_rewards s)\<rparr>, pending)
         else (s, pending))"

definition revert_share :: "string \<Rightarrow> u64 \<Rightarrow> RewardsService \<Rightarrow> RewardsService" where
  "revert_share staker share s =
     s\<lparr>rw_pending_rewards := hm_modify staker (\<lambda>p. saturating_sub p share) (rw_pending_rewards s),
       rw_lifetime_rewards := hm_modify staker
         (\<lambda>l. l\<lparr>lt_stake_rewards := saturating_sub (lt_stake_rewards l) share\<rparr>) (rw_lifetime_rewards s)\<rparr>"

definition rollback_rewards_above_height ::
  "stakes_order \<Rightarrow> u64 \<Rightarrow> EmissionService \<Rightarrow> RewardsService \<Rightarrow> RewardsService" where
  "rollback_rewards_above_height iter target_height emission s =
     (let last_height = es_last_reward_height emission
      in if target_height \<ge> last_height then s
         else let total_to_revert = wsum (rewards_between target_height last_height)
              in if total_to_revert = 0 then s
                 else let eligible = get_active_validators_data iter s;
                          total_stake = wsum (map snd eligible)
                      in if total_stake = 0 then s
                         else fold (\<lambda>(staker, stake_amount) s.
                             let share = stake_part total_to_revert total_stake stake_amount
                             in if share = 0 then s else revert_share staker share s) eligible s)"

definition sync_from_leader_v3 ::
  "string \<Rightarrow> u64 \<Rightarrow> u64 \<Rightarrow> u64 option \<Rightarrow> u64 \<Rightarrow> u64 \<Rightarrow> RewardsService \<Rightarrow> RewardsService" where
  "sync_from_leader_v3 address pending staked_at last_reward_at claimed_total staked_amount s =
     (let s = (if get_pending_rewards s address \<noteq> pending
               then s\<lparr>rw_pending_rewards := hm_insert address pending (rw_pending_rewards s)\<rparr> else s);
          s = (if get_claimed_total s address \<noteq> claimed_total
               then s\<lparr>rw_claimed_rewards := hm_insert address claimed_total (rw_claimed_rewards s)\<rparr> else s)
      in case hm_get (rw_stakes s) address of
           Some stake \<Rightarrow> s\<lparr>rw_stakes := hm_insert address
             (stake\<lparr>sp_amount := staked_amount, sp_staked_at := staked_at, sp_last_reward_at := last_reward_at\<rparr>) (rw_stakes s)\<rparr>
         | None \<Rightarrow>
             if staked_amount > 0
             then s\<lparr>rw_stakes := hm_insert address \<lparr>sp_staker = address, sp_amount = staked_amount, sp_staked_at = staked_at,
                      sp_last_reward_at = last_reward_at\<rparr> (rw_stakes s)\<rparr>
             else s)"

definition sync_stake_from_leader :: "u64 \<Rightarrow> string \<Rightarrow> u64 \<Rightarrow> bool \<Rightarrow> RewardsService \<Rightarrow> RewardsService" where
  "sync_stake_from_leader now address staked_amount balance_increased s =
     (let s = (case hm_get (rw_stakes s) address of
                 Some stake \<Rightarrow> s\<lparr>rw_stakes := hm_insert address (stake\<lparr>sp_amount := staked_amount\<rparr>) (rw_stakes s)\<rparr>
               | None \<Rightarrow>
                   if staked_amount > 0
                   then s\<lparr>rw_stakes := hm_insert address \<lparr>sp_staker = address, sp_amount = staked_amount, sp_staked_at = now,
                            sp_last_reward_at = None\<rparr> (rw_stakes s)\<rparr>
                   else s)
      in if balance_increased \<and> get_pending_rewards s address > 0
         then s\<lparr>rw_pending_rewards := hm_insert address 0 (rw_pending_rewards s)\<rparr> else s)"

section \<open>Checkpoint rewards\<close>

definition eligible_validators :: "stakes_order \<Rightarrow> u64 \<Rightarrow> RewardsService \<Rightarrow> (string \<times> u64) list" where
  "eligible_validators iter now s =
     map (\<lambda>p. (sp_staker p, sp_amount p))
       (filter (\<lambda>p. sp_amount p \<ge> rc_min_stake_amount (rw_config s) \<and> saturating_sub now (sp_staked_at p) \<ge> MIN_STAKE_AGE_MS)
         (hm_values (iter (rw_stakes s))))"

definition checkpoint_reward_step ::
  "u64 \<Rightarrow> u64 \<Rightarrow> u64 \<Rightarrow> string \<times> u64 \<Rightarrow> RewardsService \<times> (string \<times> u64) list \<Rightarrow> RewardsService \<times> (string \<times> u64) list" where
  "checkpoint_reward_step now reward total_eligible = (\<lambda>(staker, stake_amount) (s, distributions).
     let reward_amt = stake_part reward total_eligible stake_amount;
         stake_reward = \<lparr>sr_recipient = staker, sr_amount = reward_amt, sr_tx_url = ''checkpoint:'' @ show_u now, sr_timestamp = now\<rparr>
     in (add_reward staker (RewardStake stake_reward) s, distributions @ [(staker, reward_amt)]))"

text \<open>The clock is read twice: for the age of the stakes and for the time of the rewards.\<close>

definition distribute_checkpoint_rewards ::
  "stakes_order \<Rightarrow> u64 \<times> u64 \<Rightarrow> u64 \<Rightarrow> RewardsService \<Rightarrow> RewardsService \<times> (string \<times> u64) list" where
  "distribute_checkpoint_rewards iter = (\<lambda>(now, now') reward s.
     let eligible = eligible_validators iter now s;
         total_eligible = wsum (map snd eligible)
     in if total_eligible = 0 then (s, [])
        else fold (checkpoint_reward_step now' reward total_eligible) eligible (s, []))"

definition distribute_fee_to_validators ::
  "stakes_order \<Rightarrow> u64 \<times> u64 \<Rightarrow> u64 \<Rightarrow> RewardsService \<Rightarrow> RewardsService \<times> (string \<times> u64) list" where
  "distribute_fee_to_validators iter now fee s = distribute_checkpoint_rewards iter now fee s"

definition get_top_stakers :: "stakes_order \<Rightarrow> nat \<Rightarrow> RewardsService \<Rightarrow> StakePosition list" where
  "get_top_stakers iter limit s = take limit (sort_key (\<lambda>p. - int (unat (sp_amount p))) (hm_values (iter (rw_stakes s))))"

fun is_stake_reward :: "u64 \<Rightarrow> Reward \<Rightarrow> bool" where
  "is_stake_reward amount (RewardStake r) = (sr_amount r = amount)"
| "is_stake_reward amount _ = False"

text \<open>\<open>rposition\<close> and \<open>remove\<close>: the last element that matches is dropped.\<close>

definition remove_last :: "('a \<Rightarrow> bool) \<Rightarrow> 'a list \<Rightarrow> 'a list" where
  "remove_last P xs = (case dropWhile (\<lambda>x. \<not> P x) (rev xs) of
     [] \<Rightarrow> xs | x # before \<Rightarrow> rev before @ rev (takeWhile (\<lambda>x. \<not> P x) (rev xs)))"

definition reverse_reward :: "string \<Rightarrow> u64 \<Rightarrow> RewardsService \<Rightarrow> RewardsService" where
  "reverse_reward address amount s =
     (let s = revert_share address amount s
      in s\<lparr>rw_rewards := hm_modify address (remove_last (is_stake_reward amount)) (rw_rewards s)\<rparr>)"

section \<open>Pruning and snapshots\<close>

text \<open>
  The entries of the queue from its head that are older than \<open>cutoff\<close> are dropped; an entry of
  the table goes with them only if it still carries the time of the queue entry.
\<close>

definition expire_witnessed :: "WitnessedEntry \<Rightarrow> (string, u64) hash_map \<times> nat \<Rightarrow> (string, u64) hash_map \<times> nat" where
  "expire_witnessed e = (\<lambda>(txs, pruned).
     if hm_get txs (we_key e) = Some (we_ts e) then (hm_remove (we_key e) txs, pruned + 1) else (txs, pruned))"

definition keep_top :: "nat \<Rightarrow> (string \<times> u64) list \<Rightarrow> string list" where
  "keep_top n entries = take n (map fst (sort_key (\<lambda>e. - int (unat (snd e))) entries))"

definition lifetime_total :: "LifetimeRewards \<Rightarrow> u64" where
  "lifetime_total l = lt_tip_rewards l + lt_stake_rewards l + lt_witness_rewards l"

definition prune_witnessed :: "u64 \<Rightarrow> RewardsService \<Rightarrow> RewardsService \<times> nat" where
  "prune_witnessed now s =
     (let cutoff = saturating_sub now WITNESS_TTL_MS;
          expired = takeWhile (\<lambda>e. we_ts e < cutoff) (drop (rw_witnessed_queue_head s) (rw_witnessed_queue s));
          (txs, pruned) = fold expire_witnessed expired (rw_witnessed_txs s, 0)
      in (compact_queue (s\<lparr>rw_witnessed_txs := txs, rw_witnessed_queue_head := rw_witnessed_queue_head s + length expired\<rparr>), pruned))"

definition prune_old_data ::
  "((string \<times> u64) list \<Rightarrow> (string \<times> u64) list) \<Rightarrow> u64 \<Rightarrow> RewardsService \<Rightarrow> RewardsService \<times> nat" where
  "prune_old_data iter now s =
     (let (s, pruned) = prune_witnessed now s;
          pending = hm_retain (\<lambda>_ v. v \<noteq> 0) (rw_pending_rewards s);
          rewards = hm_retain (\<lambda>_ v. v \<noteq> []) (rw_rewards s);
          pruned = pruned + (length (rw_pending_rewards s) - length pending) + (length (rw_rewards s) - length rewards);
          lifetime = (if length (rw_lifetime_rewards s) > MAX_LIFETIME_ENTRIES
                      then let keep = keep_top MAX_LIFETIME_ENTRIES (iter (hm_map_values lifetime_total (rw_lifetime_rewards s)))
                           in hm_retain (\<lambda>k _. k \<in> set keep) (rw_lifetime_rewards s)
                      else rw_lifetime_rewards s);
          pending' = (if length pending > MAX_PENDING_ENTRIES
                      then let keep = keep_top MAX_PENDING_ENTRIES (iter pending)
                           in hm_retain (\<lambda>k _. k \<in> set keep) pending
                      else pending)
      in (s\<lparr>rw_pending_rewards := pending', rw_rewards := rewards, rw_lifetime_rewards := lifetime\<rparr>,
          pruned + (length (rw_lifetime_rewards s) - length lifetime) + (length pending - length pending')))"

definition rewards_get_stats :: "RewardsService \<Rightarrow> RewardsStats" where
  "rewards_get_stats s =
     \<lparr>rst_total_staked = get_total_staked s, rst_rewards_count = sum_list (map length (hm_values (rw_rewards s))),
      rst_stakes_count = length (rw_stakes s), rst_witnessed_count = length (rw_witnessed_txs s),
      rst_pending_count = length (rw_pending_rewards s)\<rparr>"

text \<open>The tables are written in some order and read back by inserting their entries.\<close>

definition rewards_to_json :: "RewardsService \<Rightarrow> RewardsSnapshot" where
  "rewards_to_json s =
     \<lparr>rsn_rewards = rw_rewards s, rsn_stakes = rw_stakes s, rsn_pending_rewards = rw_pending_rewards s,
      rsn_witnessed_txs = rw_witnessed_txs s,
      rsn_witnessed_queue = drop (rw_witnessed_queue_head s) (rw_witnessed_queue s), rsn_config = rw_config s,
      rsn_lifetime_rewards = rw_lifetime_rewards s, rsn_claimed_rewards = rw_claimed_rewards s\<rparr>"

definition hm_of_list :: "('k \<times> 'v) list \<Rightarrow> ('k, 'v) hash_map" where
  "hm_of_list entries = fold (\<lambda>(k, v). hm_insert k v) entries []"

definition rewards_from_json :: "RewardsSnapshot \<Rightarrow> RewardsService" where
  "rewards_from_json n =
     (RewardsService_new (rsn_config n))
       \<lparr>rw_rewards := hm_of_list (rsn_rewards n), rw_stakes := hm_of_list (rsn_stakes n),
        rw_pending_rewards := hm_of_list (rsn_pending_rewards n), rw_witnessed_txs := hm_of_list (rsn_witnessed_txs n),
        rw_lifetime_rewards := hm_of_list (rsn_lifetime_rewards n), rw_claimed_rewards := hm_of_list (rsn_claimed_rewards n),
        rw_witnessed_queue := rsn_witnessed_queue n, rw_witnessed_queue_head := 0\<rparr>"

definition hm_or_insert :: "'k \<times> 'v \<Rightarrow> ('k, 'v) hash_map \<Rightarrow> ('k, 'v) hash_map" where
  "hm_or_insert = (\<lambda>(k, v) m. if hm_contains m k then m else hm_insert k v m)"

definition merge_lifetime :: "string \<times> LifetimeRewards \<Rightarrow> (string, LifetimeRewards) hash_map \<Rightarrow> (string, LifetimeRewards) hash_map" where
  "merge_lifetime = (\<lambda>(addr, peer) m.
     if lifetime_total peer > lifetime_total (unwrap_or (hm_get m addr) LifetimeRewards_default)
     then hm_insert addr peer m else m)"

definition merge_greater :: "string \<times> u64 \<Rightarrow> (string, u64) hash_map \<Rightarrow> (string, u64) hash_map" where
  "merge_greater = (\<lambda>(k, v) m. if v > unwrap_or (hm_get m k) 0 then hm_insert k v m else m)"

definition merge_pending ::
  "(string, u64) hash_map \<Rightarrow> string \<Rightarrow> (string, u64) hash_map \<Rightarrow> (string, u64) hash_map" where
  "merge_pending snapshot_pending addr m =
     (let current_pending = unwrap_or (hm_get m addr) 0;
          correct_pending = (case hm_get snapshot_pending addr of Some pp \<Rightarrow> max pp current_pending | None \<Rightarrow> current_pending)
      in if correct_pending \<noteq> current_pending then hm_insert addr correct_pending m else m)"

definition rewards_merge_from :: "(string list \<Rightarrow> string list) \<Rightarrow> RewardsSnapshot \<Rightarrow> RewardsService \<Rightarrow> RewardsService" where
  "rewards_merge_from iter n s =
     (let lifetime = fold merge_lifetime (rsn_lifetime_rewards n) (rw_lifetime_rewards s);
          claimed = fold merge_greater (rsn_claimed_rewards n) (rw_claimed_rewards s);
          snapshot_pending = hm_of_list (rsn_pending_rewards n);
          all_addresses = remdups (hm_keys lifetime @ hm_keys claimed @ hm_keys (rw_pending_rewards s) @ hm_keys snapshot_pending)
      in s\<lparr>rw_lifetime_rewards := lifetime, rw_claimed_rewards := claimed,
           rw_pending_rewards := fold (merge_pending snapshot_pending) (iter all_addresses) (rw_pending_rewards s),
           rw_rewards := fold hm_or_insert (rsn_rewards n) (rw_rewards s),
           rw_stakes := fold hm_or_insert (rsn_stakes n) (rw_stakes s),
           rw_witnessed_txs := fold merge_greater (rsn_witnessed_txs n) (rw_witnessed_txs s)\<rparr>)"

end
