(* ===== verification/Rinku_Rewards_Properties.thy ===== *)
theory Rinku_Rewards_Properties
  imports Rinku_Rewards
begin

text \<open>
  Properties of the rewards service: what is pending and what was claimed add up to the
  rewards recorded, a checkpoint reward is shared out within its amount, a stake
  transaction counts once while it is remembered, and a restart restores the service.
\<close>

section \<open>Pending and claimed rewards\<close>

text \<open>\<open>X\<close>: the addresses whose books were overwritten from outside or cut.\<close>

definition reward_inv :: "string set \<Rightarrow> RewardsService \<Rightarrow> bool" where
  "reward_inv X s \<longleftrightarrow> hm_wf (rw_pending_rewards s) \<and> hm_wf (rw_lifetime_rewards s) \<and> hm_wf (rw_claimed_rewards s) \<and>
     (\<forall>a. a \<notin> X \<longrightarrow> get_pending_rewards s a + get_claimed_total s a = lifetime_total (get_lifetime s a))"

text \<open>The invariant reads three tables only.\<close>

lemma reward_inv_frame:
  "reward_inv X s \<Longrightarrow> rw_pending_rewards t = rw_pending_rewards s \<Longrightarrow> rw_lifetime_rewards t = rw_lifetime_rewards s
   \<Longrightarrow> rw_claimed_rewards t = rw_claimed_rewards s \<Longrightarrow> reward_inv X t"
  by (simp add: reward_inv_def get_pending_rewards_def get_claimed_total_def get_lifetime_def)

lemma lifetime_total_add [simp]: "lifetime_total (add_lifetime r l) = lifetime_total l + reward_amount r"
  by (cases r) (simp_all add: lifetime_total_def)

lemma get_after_add_reward [simp]:
  "get_pending_rewards (add_reward a r s) b = get_pending_rewards s b + (if b = a then reward_amount r else 0)"
  "get_claimed_total (add_reward a r s) b = get_claimed_total s b"
  "get_lifetime (add_reward a r s) b = (if b = a then add_lifetime r (get_lifetime s b) else get_lifetime s b)"
  "rw_stakes (add_reward a r s) = rw_stakes s" "rw_config (add_reward a r s) = rw_config s"
  by (simp_all add: add_reward_def add_pending_reward_def get_pending_rewards_def get_claimed_total_def get_lifetime_def hm_get_entry)

lemma wf_add_reward [simp]:
  "hm_wf (rw_pending_rewards s) \<Longrightarrow> hm_wf (rw_pending_rewards (add_reward a r s))"
  "hm_wf (rw_lifetime_rewards s) \<Longrightarrow> hm_wf (rw_lifetime_rewards (add_reward a r s))"
  "hm_wf (rw_claimed_rewards s) \<Longrightarrow> hm_wf (rw_claimed_rewards (add_reward a r s))"
  by (simp_all add: add_reward_def add_pending_reward_def)

lemma reward_inv_add_reward: "reward_inv X s \<Longrightarrow> reward_inv X (add_reward a r s)"
  by (simp add: reward_inv_def algebra_simps)

lemma reward_inv_tip: "reward_inv X s \<Longrightarrow> reward_inv X (fst (process_tip_reward now u v a amt s))"
  by (simp add: process_tip_reward_def Let_def reward_inv_add_reward)

lemma reward_inv_stake_rewards: "reward_inv X s \<Longrightarrow> reward_inv X (fst (process_stake_rewards iter now u amt s))"
proof -
  have step: "reward_inv X (fst (stake_reward_step now u amt e c))" if "reward_inv X (fst c)" for e c
    using that by (auto simp: stake_reward_step_def Let_def split: prod.splits
        intro: reward_inv_frame [OF reward_inv_add_reward])
  have "reward_inv X (fst c) \<Longrightarrow> reward_inv X (fst (fold (stake_reward_step now u amt) es c))" for es c
    by (induction es arbitrary: c) (simp_all add: step)
  then show "reward_inv X s \<Longrightarrow> ?thesis" by (simp add: process_stake_rewards_def)
qed

lemma compact_queue_tables [simp]:
  "rw_pending_rewards (compact_queue s) = rw_pending_rewards s" "rw_lifetime_rewards (compact_queue s) = rw_lifetime_rewards s"
  "rw_claimed_rewards (compact_queue s) = rw_claimed_rewards s" "rw_rewards (compact_queue s) = rw_rewards s"
  by (simp_all add: compact_queue_def)

lemma reward_inv_force_prune: "reward_inv X s \<Longrightarrow> reward_inv X (force_prune_witnessed n s)"
  by (erule reward_inv_frame) (simp_all add: force_prune_witnessed_def Let_def)

lemma reward_inv_witness: "reward_inv X s \<Longrightarrow> reward_inv X (fst (process_witness_reward now u v a amt s))"
proof -
  have "reward_inv X (t\<lparr>rw_witnessed_txs := x, rw_witnessed_queue := y\<rparr>)" if "reward_inv X t" for t x y
    using that by (rule reward_inv_frame) simp_all
  then show "reward_inv X s \<Longrightarrow> ?thesis"
    by (simp add: process_witness_reward_def Let_def reward_inv_add_reward reward_inv_force_prune)
qed

lemma checkpoint_fold:
  "fold (checkpoint_reward_step now reward t) es (s, ds) = (s', ds') \<Longrightarrow>
   ds' = ds @ map (\<lambda>(st, am). (st, stake_part reward t am)) es
   \<and> (\<forall>a. get_pending_rewards s' a = get_pending_rewards s a
        + wsum (map (\<lambda>(st, am). stake_part reward t am) (filter (\<lambda>e. fst e = a) es)))
   \<and> (reward_inv X s \<longrightarrow> reward_inv X s') \<and> rw_stakes s' = rw_stakes s"
proof (induction es arbitrary: s ds)
  case (Cons e es)
  obtain st am where e: "e = (st, am)" by (cases e)
  let ?r = "RewardStake \<lparr>sr_recipient = st, sr_amount = stake_part reward t am, sr_tx_url = ''checkpoint:'' @ show_u now, sr_timestamp = now\<rparr>"
  from Cons.prems have "fold (checkpoint_reward_step now reward t) es (add_reward st ?r s, ds @ [(st, stake_part reward t am)]) = (s', ds')"
    by (simp add: e checkpoint_reward_step_def Let_def)
  from Cons.IH [OF this] show ?case by (auto simp: e reward_inv_add_reward algebra_simps)
qed simp

lemma reward_inv_checkpoint: "reward_inv X s \<Longrightarrow> reward_inv X (fst (distribute_checkpoint_rewards iter now reward s))"
proof -
  obtain n m where n: "now = (n, m)" by (cases now)
  let ?es = "eligible_validators iter n s"
  obtain t ds where "fold (checkpoint_reward_step m reward (wsum (map snd ?es))) ?es (s, []) = (t, ds)" by fastforce
  from checkpoint_fold [OF this] this show "reward_inv X s \<Longrightarrow> ?thesis"
    by (simp add: distribute_checkpoint_rewards_def n Let_def)
qed

lemma mark_processed_tables [simp]:
  "rw_pending_rewards (mark_processed h s) = rw_pending_rewards s" "rw_lifetime_rewards (mark_processed h s) = rw_lifetime_rewards s"
  "rw_claimed_rewards (mark_processed h s) = rw_claimed_rewards s" "rw_stakes (mark_processed h s) = rw_stakes s"
  "rw_config (mark_processed h s) = rw_config s"
  by (simp_all add: mark_processed_def)

lemma cap_processed_tables [simp]:
  "rw_pending_rewards (cap_processed s) = rw_pending_rewards s" "rw_lifetime_rewards (cap_processed s) = rw_lifetime_rewards s"
  "rw_claimed_rewards (cap_processed s) = rw_claimed_rewards s" "rw_stakes (cap_processed s) = rw_stakes s"
  "rw_config (cap_processed s) = rw_config s"
  by (simp_all add: cap_processed_def split: prod.splits)

lemma reward_inv_stakes:
  "reward_inv X s \<Longrightarrow> reward_inv X (fst (rewards_stake now a amt h s))"
  "reward_inv X s \<Longrightarrow> reward_inv X (fst (unstake now a s))"
  "reward_inv X s \<Longrightarrow> reward_inv X (register_stake_dedup h s)"
  "reward_inv X s \<Longrightarrow> reward_inv X (sync_stake_amount now a amt s)"
  "reward_inv X s \<Longrightarrow> reward_inv X (update_stake a amt s)"
  "reward_inv X s \<Longrightarrow> reward_inv X (remove_stake a s)"
  by (erule reward_inv_frame; auto simp: rewards_stake_def unstake_def register_stake_dedup_def sync_stake_amount_def
      update_stake_def remove_stake_def Let_def
      split: option.splits)+

lemma reward_inv_claim: "reward_inv X s \<Longrightarrow> reward_inv X (fst (claim_rewards a s))"
  by (auto simp: reward_inv_def claim_rewards_def Let_def get_pending_rewards_def get_claimed_total_def get_lifetime_def algebra_simps)

text \<open>Operations that overwrite the books of some addresses leave those of the others alone.\<close>

lemma reward_inv_disturb:
  assumes "reward_inv X s" "hm_wf (rw_pending_rewards t)" "hm_wf (rw_lifetime_rewards t)" "hm_wf (rw_claimed_rewards t)"
    and "\<And>a. a \<notin> Y \<Longrightarrow> get_pending_rewards t a = get_pending_rewards s a \<and> get_claimed_total t a = get_claimed_total s a
      \<and> get_lifetime t a = get_lifetime s a"
  shows "reward_inv (X \<union> Y) t"
  using assms by (simp add: reward_inv_def)

lemmas reward_reads = get_pending_rewards_def get_claimed_total_def get_lifetime_def

lemma reward_inv_leader:
  "reward_inv X s \<Longrightarrow> reward_inv (X \<union> {a}) (sync_from_leader_v3 a p sa lr c amt s)"
  "reward_inv X s \<Longrightarrow> reward_inv (X \<union> (if up then {a} else {})) (sync_stake_from_leader now a amt up s)"
  "reward_inv X s \<Longrightarrow> reward_inv (X \<union> {a}) (reverse_reward a amt s)"
  by (rule reward_inv_disturb, assumption,
      auto simp: reward_inv_def sync_from_leader_v3_def sync_stake_from_leader_def reverse_reward_def revert_share_def reward_reads
        hm_get_modify Let_def split: option.split)+

lemma reward_inv_rollback:
  assumes "reward_inv X s"
  shows "reward_inv (X \<union> fst ` set (get_active_validators_data iter s)) (rollback_rewards_above_height iter h e s)"
proof -
  let ?step = "\<lambda>r t (staker, amount) s. let share = stake_part r t amount in if share = 0 then s else revert_share staker share s"
  have step: "reward_inv (Y \<union> {fst x}) (?step r t x u)" if "reward_inv Y u" for r t x u Y
    using that by (cases x) (auto simp: Let_def reward_inv_def revert_share_def reward_reads hm_get_modify)
  have "reward_inv (Y \<union> fst ` set xs) (fold (?step r t) xs u)" if "reward_inv Y u" for r t xs u Y
    using that
  proof (induction xs arbitrary: u Y)
    case (Cons x xs)
    from Cons.IH [OF step [OF Cons.prems]] show ?case by simp
  qed simp
  from this [OF assms] show ?thesis using assms by (auto simp: rollback_rewards_above_height_def Let_def reward_inv_def)
qed

lemma fold_merge_untouched:
  "a \<notin> fst ` set xs \<Longrightarrow> hm_get (fold merge_lifetime xs m) a = hm_get m a"
  "a \<notin> fst ` set ys \<Longrightarrow> hm_get (fold merge_greater ys k) a = hm_get k a"
  by (induction xs arbitrary: m, auto simp: merge_lifetime_def) (induction ys arbitrary: k, auto simp: merge_greater_def)

lemma fold_merge_wf:
  "hm_wf m \<Longrightarrow> hm_wf (fold merge_lifetime xs m)" "hm_wf k \<Longrightarrow> hm_wf (fold merge_greater ys k)" "hm_wf l \<Longrightarrow> hm_wf (fold (merge_pending P) as l)"
  by (induction xs arbitrary: m, auto simp: merge_lifetime_def) (induction ys arbitrary: k, auto simp: merge_greater_def,
      induction as arbitrary: l, auto simp: merge_pending_def Let_def)

lemma hm_of_list_None: "a \<notin> fst ` set xs \<Longrightarrow> hm_get (hm_of_list xs) a = None"
proof -
  have "a \<notin> fst ` set xs \<Longrightarrow> hm_get (fold (\<lambda>(k, v). hm_insert k v) xs m) a = hm_get m a" for m
    by (induction xs arbitrary: m) auto
  then show "a \<notin> fst ` set xs \<Longrightarrow> ?thesis" by (simp add: hm_of_list_def)
qed

lemma fold_merge_pending:
  "unwrap_or (hm_get (fold (merge_pending P) as m) a) 0 =
    (if a \<in> set as then case hm_get P a of Some pp \<Rightarrow> max pp (unwrap_or (hm_get m a) 0) | None \<Rightarrow> unwrap_or (hm_get m a) 0
     else unwrap_or (hm_get m a) 0)"
proof (induction as arbitrary: m)
  case (Cons b as)
  have "unwrap_or (hm_get (merge_pending P b m) a) 0 =
    (if a = b then case hm_get P a of Some pp \<Rightarrow> max pp (unwrap_or (hm_get m a) 0) | None \<Rightarrow> unwrap_or (hm_get m a) 0
     else unwrap_or (hm_get m a) 0)" for a
    by (auto simp: merge_pending_def Let_def split: option.splits)
  then show ?case using Cons.IH [of "merge_pending P b m"] by (auto split: option.splits)
qed simp

definition snapshot_addresses :: "RewardsSnapshot \<Rightarrow> string set" where
  "snapshot_addresses n = fst ` (set (rsn_pending_rewards n)) \<union> fst ` set (rsn_claimed_rewards n) \<union> fst ` set (rsn_lifetime_rewards n)"

lemma reward_inv_merge: "reward_inv X s \<Longrightarrow> reward_inv (X \<union> snapshot_addresses n) (rewards_merge_from iter n s)"
  by (rule reward_inv_disturb, assumption)
    (auto simp: reward_inv_def rewards_merge_from_def Let_def reward_reads snapshot_addresses_def fold_merge_wf fold_merge_untouched
      fold_merge_pending hm_of_list_None)

text \<open>What pruning beyond the caps takes away.\<close>

definition pruned_books :: "RewardsService \<Rightarrow> RewardsService \<Rightarrow> string set" where
  "pruned_books s t = {a. get_pending_rewards t a \<noteq> get_pending_rewards s a \<or> get_lifetime t a \<noteq> get_lifetime s a}"

lemma prune_witnessed_tables:
  "rw_pending_rewards (fst (prune_witnessed now s)) = rw_pending_rewards s" "rw_lifetime_rewards (fst (prune_witnessed now s)) = rw_lifetime_rewards s"
  "rw_claimed_rewards (fst (prune_witnessed now s)) = rw_claimed_rewards s"
  by (auto simp: prune_witnessed_def Let_def split: prod.split)

lemma reward_inv_prune:
  assumes "reward_inv X s" and t_def: "t = fst (prune_old_data iter now s)"
  shows "reward_inv (X \<union> pruned_books s t) t"
proof -
  have "rw_claimed_rewards t = rw_claimed_rewards s"
    unfolding t_def prune_old_data_def Let_def by (simp add: prune_witnessed_tables split: prod.split)
      (metis fst_conv prune_witnessed_tables(3))
  moreover have "hm_wf (rw_pending_rewards t)" "hm_wf (rw_lifetime_rewards t)"
    unfolding t_def prune_old_data_def Let_def using assms(1) prune_witnessed_tables [of now s]
    by (auto simp: reward_inv_def split: prod.split)
  ultimately show ?thesis
    using assms(1) by (intro reward_inv_disturb [OF assms(1)]) (auto simp: reward_inv_def pruned_books_def get_claimed_total_def)
qed

text \<open>Within the caps pruning takes nothing away.\<close>

lemma pruned_books_small:
  assumes "hm_wf (rw_pending_rewards s)" "length (rw_lifetime_rewards s) \<le> MAX_LIFETIME_ENTRIES" "length (rw_pending_rewards s) \<le> MAX_PENDING_ENTRIES"
  shows "pruned_books s (fst (prune_old_data iter now s)) = {}"
proof -
  obtain t n where p: "prune_witnessed now s = (t, n)" by (cases "prune_witnessed now s")
  then have t: "rw_pending_rewards t = rw_pending_rewards s" "rw_lifetime_rewards t = rw_lifetime_rewards s"
    using prune_witnessed_tables [of now s] by simp_all
  have small: "(MAX_PENDING_ENTRIES < length (hm_retain P (rw_pending_rewards s))) = False"
    "(MAX_LIFETIME_ENTRIES < length (rw_lifetime_rewards s)) = False" for P
    using assms(2,3) le_trans [OF length_filter_le assms(3)] by (simp_all add: hm_retain_def not_less)
  have eq: "fst (prune_old_data iter now s) = t\<lparr>rw_pending_rewards := hm_retain (\<lambda>_ v. v \<noteq> 0) (rw_pending_rewards s),
      rw_rewards := hm_retain (\<lambda>_ v. v \<noteq> []) (rw_rewards t), rw_lifetime_rewards := rw_lifetime_rewards s\<rparr>"
    unfolding prune_old_data_def p Let_def prod.case t small if_False fst_conv ..
  have "unwrap_or (hm_get (hm_retain (\<lambda>_ v. v \<noteq> 0) (rw_pending_rewards s)) a) 0 = unwrap_or (hm_get (rw_pending_rewards s) a) 0" for a
    using assms(1) by (auto simp: hm_get_retain split: option.splits)
  then show ?thesis unfolding eq pruned_books_def by (simp add: reward_reads)
qed

lemma fold_hm_insert_distinct:
  "distinct (map fst (m @ es)) \<Longrightarrow> fold (\<lambda>(k, v). hm_insert k v) es m = m @ es"
proof (induction es arbitrary: m)
  case (Cons e es)
  obtain k v where e: "e = (k, v)" by (cases e)
  have "AList.update k v m = m @ [(k, v)]" using Cons.prems e by (induction m) auto
  then show ?case using Cons.IH [of "m @ [(k, v)]"] Cons.prems by (simp add: e hm_insert_def)
qed simp

lemma hm_of_list_wf: "hm_wf m \<Longrightarrow> hm_of_list m = m"
  using fold_hm_insert_distinct [of "[]" m] by (simp add: hm_of_list_def hm_wf_def)

lemma reward_inv_restart:
  assumes "reward_inv X s"
  shows "reward_inv X (rewards_from_json (rewards_to_json s))"
proof -
  have "hm_wf (rw_pending_rewards s)" "hm_wf (rw_lifetime_rewards s)" "hm_wf (rw_claimed_rewards s)"
    using assms by (simp_all add: reward_inv_def)
  then show ?thesis
    by (intro reward_inv_frame [OF assms]) (simp_all add: rewards_from_json_def rewards_to_json_def RewardsService_new_def hm_of_list_wf)
qed

text \<open>
  The operations of the service. The set of addresses is history, not state: it grows by the
  addresses whose books an operation overwrites from a peer's or the leader's, reverses or cuts.
\<close>

inductive rewards_step :: "string set \<times> RewardsService \<Rightarrow> string set \<times> RewardsService \<Rightarrow> bool" where
  tip: "rewards_step (X, s) (X, fst (process_tip_reward now tx_url tip_url recipient amount s))"
| stake_rewards: "rewards_step (X, s) (X, fst (process_stake_rewards iter now tx_url amount s))"
| witness: "rewards_step (X, s) (X, fst (process_witness_reward now referencing referenced recipient amount s))"
| checkpoint: "rewards_step (X, s) (X, fst (distribute_checkpoint_rewards iter clock amount s))"
| stake: "rewards_step (X, s) (X, fst (rewards_stake now staker amount h s))"
| unstake: "rewards_step (X, s) (X, fst (unstake now staker s))"
| dedup: "rewards_step (X, s) (X, register_stake_dedup h s)"
| sync: "rewards_step (X, s) (X, sync_stake_amount now staker amount s)"
| update: "rewards_step (X, s) (X, update_stake staker amount s)"
| remove: "rewards_step (X, s) (X, remove_stake staker s)"
| claim: "rewards_step (X, s) (X, fst (claim_rewards a s))"
| restart: "rewards_step (X, s) (X, rewards_from_json (rewards_to_json s))"
| prune: "t = fst (prune_old_data itero now s) \<Longrightarrow> rewards_step (X, s) (X \<union> pruned_books s t, t)"
| merge: "rewards_step (X, s) (X \<union> snapshot_addresses n, rewards_merge_from itera n s)"
| leader: "rewards_step (X, s) (X \<union> {a}, sync_from_leader_v3 a pending staked_at last_reward_at claimed staked_amount s)"
| leader_stake: "rewards_step (X, s) (X \<union> (if balance_increased then {a} else {}), sync_stake_from_leader now a staked_amount balance_increased s)"
| reverse: "rewards_step (X, s) (X \<union> {a}, reverse_reward a amount s)"
| rollback: "rewards_step (X, s) (X \<union> fst ` set (get_active_validators_data iter s), rollback_rewards_above_height iter target emission s)"

lemma rewards_step_inv: "rewards_step c c' \<Longrightarrow> reward_inv (fst c) (snd c) \<Longrightarrow> reward_inv (fst c') (snd c')"
  by (induction rule: rewards_step.induct)
    (simp_all only: fst_conv snd_conv reward_inv_tip reward_inv_stake_rewards reward_inv_witness reward_inv_checkpoint reward_inv_stakes reward_inv_claim
      reward_inv_restart reward_inv_prune reward_inv_merge reward_inv_leader reward_inv_rollback)

interpretation rewards: invariant_system "\<lambda>(X, s). X = {} \<and> (\<exists>config. s = RewardsService_new config)" rewards_step "\<lambda>(X, s). reward_inv X s"
proof (unfold_locales, goal_cases)
  case (1 c)
  then show ?case
    by (auto simp: reward_inv_def RewardsService_new_def reward_reads lifetime_total_def LifetimeRewards_default_def)
next
  case (2 c c')
  then show ?case using rewards_step_inv [of c c'] by (simp add: case_prod_unfold)
qed

text \<open>
  C12: in every run of the rewards service the pending and claimed rewards of an account add up,
  modulo \<open>2 ^ 64\<close>, to the tip, stake and witness rewards recorded for it, unless its books were
  overwritten (by a merge with a peer's snapshot that names it, by the leader's figures),
  reversed, rolled back or cut by pruning beyond the caps: after those, and only those, the
  address counts as disturbed. A claim pays exactly what is pending, and, for every address, a
  second claim right after it pays nothing.
\<close>
theorem rewards_accounted:
  assumes "rewards_step\<^sup>*\<^sup>* ({}, RewardsService_new config) (X, s)"
  shows "(a \<notin> X \<longrightarrow> get_pending_rewards s a + get_claimed_total s a = lifetime_total (get_lifetime s a)
      \<and> get_claimed_total (fst (claim_rewards a s)) a = lifetime_total (get_lifetime s a))
    \<and> snd (claim_rewards a s) = get_pending_rewards s a
    \<and> snd (claim_rewards a (fst (claim_rewards a s))) = 0"
proof -
  have "reward_inv X s" using rewards.run_inv [OF _ assms] by auto
  then have b: "a \<notin> X \<Longrightarrow> get_pending_rewards s a + get_claimed_total s a = lifetime_total (get_lifetime s a)" by (simp add: reward_inv_def)
  let ?t = "fst (claim_rewards a s)"
  have "get_pending_rewards ?t a = 0" "get_claimed_total ?t a = get_claimed_total s a + get_pending_rewards s a"
    by (simp_all add: claim_rewards_def Let_def get_pending_rewards_def get_claimed_total_def word_gt_0)
  with b show ?thesis by (simp add: claim_rewards_def Let_def add.commute)
qed

theorem rewards_accounted_witness:
  "let s = fst (process_tip_reward 1 ''t'' ''u'' ''alice'' 1000 (RewardsService_new RewardConfig_default))
   in get_pending_rewards s ''alice'' + get_claimed_total s ''alice'' = lifetime_total (get_lifetime s ''alice'')
     \<and> snd (claim_rewards ''alice'' (fst (claim_rewards ''alice'' s))) = 0"
proof -
  let ?s = "RewardsService_new RewardConfig_default"
  have "rewards_step\<^sup>*\<^sup>* ({}, ?s) ({}, fst (process_tip_reward 1 ''t'' ''u'' ''alice'' 1000 ?s))"
    by (intro r_into_rtranclp rewards_step.tip)
  from rewards_accounted [OF this, of "''alice''"] show ?thesis unfolding Let_def by simp
qed

section \<open>Checkpoint rewards\<close>

lemma sum_div_shortfall:
  assumes "(d :: nat) > 0" "xs \<noteq> []"
  shows "p * sum_list xs div d < sum_list (map (\<lambda>x. p * x div d) xs) + length xs"
  using assms(2)
proof (induction xs rule: list_nonempty_induct)
  case (cons x xs)
  have "(p * x + p * sum_list xs) div d \<le> p * x div d + p * sum_list xs div d + 1"
  proof -
    have "p * x mod d + p * sum_list xs mod d < 2 * d"
      using mod_less_divisor [OF assms(1), of "p * x"] mod_less_divisor [OF assms(1), of "p * sum_list xs"] by linarith
    then have "(p * x mod d + p * sum_list xs mod d) div d < 2" using assms(1) by (simp add: div_less_iff_less_mult)
    then show ?thesis using div_add1_eq [of "p * x" "p * sum_list xs" d] by linarith
  qed
  with cons show ?case by (simp add: distrib_left)
qed simp

lemma stake_parts_shared:
  assumes "sum_list (map unat stakes) < 2 ^ 64" "wsum stakes \<noteq> 0"
  shows "map (unat \<circ> stake_part pool (wsum stakes)) stakes
      = map (\<lambda>y. unat pool * y div sum_list (map unat stakes)) (map unat stakes)"
    and "0 < sum_list (map unat stakes)"
proof -
  have t: "unat (wsum stakes) = sum_list (map unat stakes)" using assms(1) by (simp add: unat_wsum)
  show "0 < sum_list (map unat stakes)" using assms(2) by (simp flip: t add: unat_gt_0)
  have "unat (stake_part pool (wsum stakes) x) = unat pool * unat x div sum_list (map unat stakes)" if "x \<in> set stakes" for x
    using stake_part_le [of x "wsum stakes" pool] member_le_sum_list [of "unat x" "map unat stakes"] that by (simp add: t)
  then show "map (unat \<circ> stake_part pool (wsum stakes)) stakes
      = map (\<lambda>y. unat pool * y div sum_list (map unat stakes)) (map unat stakes)" by simp
qed

text \<open>
  C13: a checkpoint reward is shared out among the validators with enough stake that is old
  enough: the shares never add up to more than the reward, less than one unit per
  validator is left over, and what a validator's pending rewards grow by is what the list
  of distributions says.
\<close>
theorem checkpoint_rewards_shared:
  assumes "distribute_checkpoint_rewards iter now reward s = (s', ds)"
    and "eligible_validators iter (fst now) s \<noteq> []" "0 < rc_min_stake_amount (rw_config s)"
    and "sum_list (map (unat \<circ> snd) (eligible_validators iter (fst now) s)) < 2 ^ 64"
  shows "map fst ds = map fst (eligible_validators iter (fst now) s)
    \<and> sum_list (map (unat \<circ> snd) ds) \<le> unat reward
    \<and> unat reward < sum_list (map (unat \<circ> snd) ds) + length ds
    \<and> (\<forall>a. get_pending_rewards s' a = get_pending_rewards s a + wsum (map snd (filter (\<lambda>d. fst d = a) ds)))"
proof -
  let ?es = "eligible_validators iter (fst now) s"
  let ?stakes = "map snd ?es"
  let ?t = "sum_list (map unat ?stakes)"
  have b: "?t < 2 ^ 64" using assms(4) by (simp add: comp_def)
  obtain e where "e \<in> set ?es" using assms(2) by (cases ?es) auto
  then have "0 < snd e" using assms(3) by (auto simp: eligible_validators_def intro: less_le_trans)
  moreover have "unat (snd e) \<le> ?t" using \<open>e \<in> set ?es\<close> by (intro member_le_sum_list) auto
  ultimately have "0 < ?t" by (metis less_le_trans unat_gt_0 word_gt_0)
  moreover have "unat (wsum ?stakes) = ?t" using b by (intro unat_wsum) simp
  ultimately have w: "wsum ?stakes \<noteq> 0" by (metis less_irrefl unat_0)
  have ds: "ds = map (\<lambda>(st, am). (st, stake_part reward (wsum ?stakes) am)) ?es"
    and pend: "\<forall>a. get_pending_rewards s' a = get_pending_rewards s a
        + wsum (map (\<lambda>(st, am). stake_part reward (wsum ?stakes) am) (filter (\<lambda>e. fst e = a) ?es))"
    using assms(1) w by (auto simp: distribute_checkpoint_rewards_def Let_def split: prod.splits dest!: checkpoint_fold)
  have "map (unat \<circ> snd) ds = map (unat \<circ> stake_part reward (wsum ?stakes)) ?stakes" by (simp add: ds case_prod_beta)
  then have parts: "map (unat \<circ> snd) ds = map (\<lambda>y. unat reward * y div ?t) (map unat ?stakes)"
    using stake_parts_shared(1) [OF b w] by simp
  have cancel: "unat reward * ?t div ?t = unat reward" by (rule nonzero_mult_div_cancel_right) (metis less_irrefl \<open>0 < ?t\<close>)
  have "sum_list (map (unat \<circ> snd) ds) \<le> unat reward"
    unfolding parts using sum_div_le [of "unat reward" ?t "map unat ?stakes"] unfolding cancel .
  moreover have "unat reward < sum_list (map (unat \<circ> snd) ds) + length ds"
    using sum_div_shortfall [OF \<open>0 < ?t\<close>, of "map unat ?stakes" "unat reward"] assms(2) unfolding cancel parts by (simp add: ds)
  moreover have "map snd (filter (\<lambda>d. fst d = a) ds)
      = map (\<lambda>(st, am). stake_part reward (wsum ?stakes) am) (filter (\<lambda>e. fst e = a) ?es)" for a
    unfolding ds by (simp add: filter_map comp_def case_prod_beta)
  ultimately show ?thesis using pend by (auto simp: ds)
qed

definition sample_staked :: RewardsService where
  "sample_staked = fst (rewards_stake 0 ''v'' 5 ''h'' (RewardsService_new (RewardConfig_default\<lparr>rc_min_stake_amount := 3\<rparr>)))"

lemma sample_staked_fields:
  "rw_stakes sample_staked = [(''v'', \<lparr>sp_staker = ''v'', sp_amount = 5, sp_staked_at = 0, sp_last_reward_at = None\<rparr>)]"
  "rc_min_stake_amount (rw_config sample_staked) = 3" "rw_processed_hashes sample_staked = [''h'']"
  "rw_pending_rewards sample_staked = []"
  by (simp_all add: sample_staked_def rewards_stake_def RewardsService_new_def Let_def cap_processed_def mark_processed_def
      MAX_PROCESSED_HASHES_def List.insert_def)

theorem checkpoint_rewards_shared_witness:
  "let (s', ds) = distribute_checkpoint_rewards (\<lambda>xs. xs) (15000, 15000) 7 sample_staked
   in map fst ds = [''v''] \<and> sum_list (map (unat \<circ> snd) ds) \<le> 7"
proof -
  have e: "eligible_validators (\<lambda>xs. xs) 15000 sample_staked = [(''v'', 5)]"
    by (simp add: eligible_validators_def sample_staked_fields saturating_sub_def MIN_STAKE_AGE_MS_def)
  obtain s' ds where d: "distribute_checkpoint_rewards (\<lambda>xs. xs) (15000, 15000) 7 sample_staked = (s', ds)" by fastforce
  show ?thesis using checkpoint_rewards_shared [OF d] by (simp add: e d sample_staked_fields)
qed

section \<open>Stakes\<close>

lemma shrink_processed_small: "length hashes \<le> MAX_PROCESSED_HASHES \<Longrightarrow> shrink_processed hashes order = (hashes, order)"
  by (cases order) simp_all

lemma rewards_stake_cases:
  assumes "rc_min_stake_amount (rw_config s) \<le> amount" "h \<noteq> []" "length (rw_processed_hashes s) < MAX_PROCESSED_HASHES"
    and "hm_get (rw_stakes s) a = None \<or> h \<notin> set (rw_processed_hashes s)"
  shows "\<exists>p. rw_stakes (fst (rewards_stake now a amount h s)) = hm_insert a p (rw_stakes s)
    \<and> sp_amount p = amount + unwrap_or (map_option sp_amount (hm_get (rw_stakes s) a)) 0
    \<and> h \<in> set (rw_processed_hashes (fst (rewards_stake now a amount h s)))"
  using assms
  by (auto simp: rewards_stake_def Let_def mark_processed_def cap_processed_def shrink_processed_small List.insert_def add.commute
      split: option.splits)

text \<open>
  C14: a stake transaction counts once while it is remembered: the first time it adds its amount
  to the position of the staker and to no other, and its hash is remembered; in every later
  state in which the hash is still remembered and the staker still has a position, however it was
  reached, processing the transaction again, at whatever time and with whatever amount, changes
  nothing. (The hash is forgotten by a restart and after \<open>MAX_PROCESSED_HASHES\<close> others, and an
  unstake ends the position: then it counts again, see below.)
\<close>
theorem stake_counted_once:
  assumes "rc_min_stake_amount (rw_config s) \<le> amount" "h \<noteq> []" "h \<notin> set (rw_processed_hashes s)"
    and "length (rw_processed_hashes s) < MAX_PROCESSED_HASHES"
  shows "let s' = fst (rewards_stake now a amount h s)
    in (\<forall>b. map_option sp_amount (get_stake s' b) =
          (if b = a then Some (amount + unwrap_or (map_option sp_amount (get_stake s a)) 0) else map_option sp_amount (get_stake s b)))
     \<and> h \<in> set (rw_processed_hashes s')
     \<and> (\<forall>t now' amount'. h \<in> set (rw_processed_hashes t) \<longrightarrow> get_stake t a \<noteq> None \<longrightarrow> fst (rewards_stake now' a amount' h t) = t)"
proof -
  let ?s' = "fst (rewards_stake now a amount h s)"
  obtain p where p: "rw_stakes ?s' = hm_insert a p (rw_stakes s)"
    "sp_amount p = amount + unwrap_or (map_option sp_amount (hm_get (rw_stakes s) a)) 0" "h \<in> set (rw_processed_hashes ?s')"
    using rewards_stake_cases [OF assms(1,2,4), of a now] assms(3) by blast
  have "fst (rewards_stake now' a amount' h t) = t" if "h \<in> set (rw_processed_hashes t)" "get_stake t a \<noteq> None" for t now' amount'
    using that assms(2) by (auto simp: rewards_stake_def get_stake_def)
  with p show ?thesis by (simp add: Let_def get_stake_def)
qed

theorem stake_counted_once_witness:
  "let s = RewardsService_new (RewardConfig_default\<lparr>rc_min_stake_amount := 3\<rparr>); s' = fst (rewards_stake 0 ''v'' 5 ''h'' s);
       s'' = fst (process_tip_reward 1 ''t'' ''u'' ''alice'' 1000 s')
   in map_option sp_amount (get_stake s' ''v'') = Some 5 \<and> fst (rewards_stake 9 ''v'' 7 ''h'' s'') = s''"
proof -
  let ?s = "RewardsService_new (RewardConfig_default\<lparr>rc_min_stake_amount := 3\<rparr>)"
  let ?s' = "fst (rewards_stake 0 ''v'' 5 ''h'' ?s)" and ?s'' = "fst (process_tip_reward 1 ''t'' ''u'' ''alice'' 1000 (fst (rewards_stake 0 ''v'' 5 ''h'' ?s)))"
  have once: "map_option sp_amount (get_stake ?s' ''v'') = Some 5 \<and> ''h'' \<in> set (rw_processed_hashes ?s')
    \<and> (\<forall>t now' amount'. ''h'' \<in> set (rw_processed_hashes t) \<longrightarrow> get_stake t ''v'' \<noteq> None \<longrightarrow> fst (rewards_stake now' ''v'' amount' ''h'' t) = t)"
    using stake_counted_once [of ?s 5 "''h''" 0 "''v''"] by (simp add: RewardsService_new_def MAX_PROCESSED_HASHES_def get_stake_def Let_def)
  moreover have "rw_processed_hashes ?s'' = rw_processed_hashes ?s'" "get_stake ?s'' ''v'' = get_stake ?s' ''v''"
    by (simp_all add: process_tip_reward_def add_reward_def add_pending_reward_def get_stake_def Let_def)
  ultimately show ?thesis unfolding Let_def by (metis option.map_disc_iff option.simps(3))
qed

text \<open>
  The duplicate is recognised only while the staker has a position: after an unstake the
  same transaction stakes again.
\<close>

lemma stake_replayed_after_unstake:
  assumes "rc_min_stake_amount (rw_config s) \<le> amount" "h \<noteq> []" "length (rw_processed_hashes s) < MAX_PROCESSED_HASHES"
    and "unstake now a s = (s', Inr paid)"
  shows "map_option sp_amount (get_stake (fst (rewards_stake now' a amount h s')) a) = Some amount"
proof -
  have s': "s' = s\<lparr>rw_stakes := hm_remove a (rw_stakes s)\<rparr>"
    using assms(4) by (auto simp: unstake_def Let_def split: option.splits if_splits)
  then obtain p where "rw_stakes (fst (rewards_stake now' a amount h s')) = hm_insert a p (rw_stakes s')" "sp_amount p = amount"
    using rewards_stake_cases [of s' amount h a now'] assms(1-3) by auto
  then show ?thesis by (simp add: get_stake_def)
qed

section \<open>Snapshots\<close>

text \<open>
  A service that is saved and loaded again is the same service, but for the hashes of
  the stake transactions it has seen and the part of the witness queue it was done with.
\<close>
theorem rewards_restart_roundtrip:
  assumes "hm_wf (rw_rewards s)" "hm_wf (rw_stakes s)" "hm_wf (rw_pending_rewards s)" "hm_wf (rw_witnessed_txs s)"
    "hm_wf (rw_lifetime_rewards s)" "hm_wf (rw_claimed_rewards s)"
  shows "rewards_from_json (rewards_to_json s) =
    s\<lparr>rw_witnessed_queue := drop (rw_witnessed_queue_head s) (rw_witnessed_queue s), rw_witnessed_queue_head := 0,
      rw_processed_hashes := [], rw_processed_order := []\<rparr>"
  using assms by (simp add: rewards_from_json_def rewards_to_json_def RewardsService_new_def hm_of_list_wf)

theorem rewards_restart_roundtrip_witness:
  "rw_stakes (rewards_from_json (rewards_to_json sample_staked)) = rw_stakes sample_staked"
proof -
  have "hm_wf (rw_rewards sample_staked)" "hm_wf (rw_stakes sample_staked)" "hm_wf (rw_pending_rewards sample_staked)"
    "hm_wf (rw_witnessed_txs sample_staked)" "hm_wf (rw_lifetime_rewards sample_staked)" "hm_wf (rw_claimed_rewards sample_staked)"
    by (simp_all add: sample_staked_def rewards_stake_def RewardsService_new_def Let_def cap_processed_def mark_processed_def
        MAX_PROCESSED_HASHES_def List.insert_def hm_wf_def)
  from rewards_restart_roundtrip [OF this] show ?thesis by simp
qed

text \<open>
  Merging the snapshot of a peer that has not seen a claim brings the claimed rewards back:
  they can be claimed a second time.
\<close>

lemma merge_revives_claimed:
  assumes "iteration_order iter" "hm_wf (rsn_pending_rewards n)" "hm_get (rsn_pending_rewards n) a = Some amount"
    "get_pending_rewards s a = amount"
  shows "snd (claim_rewards a (rewards_merge_from iter n (fst (claim_rewards a s)))) = amount"
proof -
  let ?t = "fst (claim_rewards a s)"
  have "get_pending_rewards ?t a = 0" by (simp add: claim_rewards_def Let_def get_pending_rewards_def word_gt_0)
  moreover have "a \<in> fst ` set (rsn_pending_rewards n)" using assms(3) by (metis fst_conv image_eqI map_of_SomeD)
  ultimately have "get_pending_rewards (rewards_merge_from iter n ?t) a = amount"
    using assms(1-3) by (simp add: rewards_merge_from_def Let_def get_pending_rewards_def fold_merge_pending hm_of_list_wf iteration_order_set)
  then show ?thesis by (simp add: claim_rewards_def Let_def)
qed

end
