(* ===== verification/Rinku_Execution.thy ===== *)
theory Rinku_Execution
  imports Rinku_Partition Rinku_Rewards
begin

text \<open>
  \<open>rinku-node/src/state/transactions.rs\<close>, first part: executing transactions on the
  accounts. A checkpoint executes its transactions as a batch, the fast path executes those
  with a quorum of acknowledgements ahead of it, and a single finalized transaction is
  executed on its own. \<open>now\<close> is the wall clock, taken to stand still within one call;
  \<open>iter\<close> arguments are hash iteration orders; log lines are left out.
\<close>

section \<open>Cost and effect of a transaction\<close>

abbreviation st_from :: "SignedTransaction \<Rightarrow> string" where "st_from tx \<equiv> tx_from (st_tx tx)"
abbreviation st_to :: "SignedTransaction \<Rightarrow> string" where "st_to tx \<equiv> tx_to (st_tx tx)"
abbreviation st_nonce :: "SignedTransaction \<Rightarrow> u64" where "st_nonce tx \<equiv> tx_nonce (st_tx tx)"
abbreviation st_amount :: "SignedTransaction \<Rightarrow> u64" where "st_amount tx \<equiv> tx_amount (st_tx tx)"
abbreviation st_kind :: "SignedTransaction \<Rightarrow> TransactionKind option" where "st_kind tx \<equiv> tx_kind (st_tx tx)"

definition tx_gas_fee :: "u64 \<Rightarrow> SignedTransaction \<Rightarrow> u64" where
  "tx_gas_fee current_gas_price tx = unwrap_or (tx_gas_price (st_tx tx)) current_gas_price"

definition tx_cost :: "u64 \<Rightarrow> SignedTransaction \<Rightarrow> u64" where
  "tx_cost current_gas_price tx =
     (if st_kind tx = Some Stake then st_amount tx + tx_gas_fee current_gas_price tx
      else if st_kind tx \<in> {Some Unstake, Some ClaimRewards, Some Contract} then tx_gas_fee current_gas_price tx
      else st_amount tx + tx_gas_fee current_gas_price tx)"

definition pays_recipient :: "SignedTransaction \<Rightarrow> bool" where
  "pays_recipient tx \<longleftrightarrow> st_kind tx \<notin> {Some Stake, Some Unstake, Some ClaimRewards, Some Contract}"

text \<open>What an executed transaction takes from its sender.\<close>

definition debit_sender :: "bool \<Rightarrow> u64 \<Rightarrow> u64 \<Rightarrow> Account \<Rightarrow> Account" where
  "debit_sender is_in_partition cost nonce account =
     (let account = account\<lparr>acc_balance := acc_balance account - cost, acc_nonce := nonce + 1\<rparr>
      in if is_in_partition \<and> acc_partition_budget account \<noteq> None
         then account\<lparr>acc_partition_budget_spent := acc_partition_budget_spent account + cost\<rparr> else account)"

definition credit_account :: "string \<Rightarrow> u64 \<Rightarrow> u64 \<Rightarrow> (string, Account) hash_map \<Rightarrow> (string, Account) hash_map" where
  "credit_account to amount timestamp accounts =
     hm_entry to (Account_new to timestamp) (\<lambda>a. a\<lparr>acc_balance := acc_balance a + amount\<rparr>) accounts"

text \<open>
  The effect of executing \<open>tx\<close>: the sender is debited if it has an account, and the
  recipient of a transfer is credited in any case.
\<close>

definition apply_tx :: "bool \<Rightarrow> u64 \<Rightarrow> SignedTransaction \<Rightarrow> 'g StateInner \<Rightarrow> 'g StateInner" where
  "apply_tx is_in_partition price tx s =
     (let gas_fee = tx_gas_fee price tx;
          accounts = hm_modify (st_from tx) (debit_sender is_in_partition (tx_cost price tx) (st_nonce tx)) (si_accounts s);
          accounts = (if pays_recipient tx then credit_account (st_to tx) (st_amount tx) (tx_timestamp (st_tx tx)) accounts else accounts)
      in s\<lparr>si_accounts := accounts, si_total_burned := si_total_burned s + gas_fee div 2,
           si_total_to_validators := si_total_to_validators s + gas_fee div 2,
           si_total_transactions := si_total_transactions s + 1\<rparr>)"

section \<open>Batches\<close>

record BatchCoreResult =
  br_executed_count :: nat
  br_executed_hashes :: "string list"
  br_special_txs :: "SignedTransaction list"
  br_new_deferred :: "SignedTransaction list"
  br_gap_skipped_senders :: "string list"
  br_changed_addresses :: "string list"

text \<open>The local variables of \<open>execute_batch_inline\<close>.\<close>

record 'g batch =
  bt_state :: "'g StateInner"
  bt_executed_count :: nat
  bt_executed_hashes :: "string list"
  bt_special_txs :: "SignedTransaction list"
  bt_new_deferred :: "SignedTransaction list"
  bt_gap_skipped_senders :: "string list"
  bt_changed_addrs :: "string list"
  bt_balance_deferred :: "SignedTransaction list"

type_synonym nonce_index = "(string, u64 list) hash_map"

text \<open>The sets of nonces are \<open>BTreeSet\<close>s: ascending lists.\<close>

definition available_nonces :: "SignedTransaction list \<Rightarrow> nonce_index" where
  "available_nonces all_txs = fold (\<lambda>tx. hm_entry (st_from tx) [] (insort_insert (st_nonce tx))) all_txs []"

definition fast_path_nonce :: "'g StateInner \<Rightarrow> string \<Rightarrow> u64 option" where
  "fast_path_nonce s sender =
     (let nonces = map (\<lambda>e. fe_nonce e + 1) (filter (\<lambda>e. fe_from e = sender) (hm_values (si_fast_path_finalized_txs s)))
      in if nonces = [] then None else Some (foldr max nonces 0))"

text \<open>
  The first loop: a sender whose first nonce in the batch lies ahead of its account is moved
  up to it if the fast path has already executed the nonces in between.
\<close>

definition bridge_sender :: "string \<times> u64 list \<Rightarrow> 'g StateInner \<times> string list \<Rightarrow> 'g StateInner \<times> string list" where
  "bridge_sender = (\<lambda>(sender, nonces) (s, bridged).
     case hm_get (si_accounts s) sender of
       None \<Rightarrow> (s, bridged)
     | Some account \<Rightarrow>
         (case nonces of
            [] \<Rightarrow> (s, bridged)
          | first_nonce # _ \<Rightarrow>
              if first_nonce > acc_nonce account then
                (case fast_path_nonce s sender of
                   Some fp_n \<Rightarrow>
                     if fp_n \<ge> first_nonce
                     then (s\<lparr>si_accounts := hm_insert sender (account\<lparr>acc_nonce := first_nonce\<rparr>) (si_accounts s)\<rparr>, bridged @ [sender])
                     else (s, bridged)
                 | None \<Rightarrow> (s, bridged))
              else (s, bridged)))"

definition bridge_nonces ::
  "((string \<times> u64 list) list \<Rightarrow> (string \<times> u64 list) list) \<Rightarrow> nonce_index \<Rightarrow> 'g StateInner \<Rightarrow> 'g StateInner \<times> string list" where
  "bridge_nonces iter available s = fold bridge_sender (iter available) (s, [])"

definition execute_in_batch :: "bool \<Rightarrow> u64 \<Rightarrow> SignedTransaction \<Rightarrow> 'g batch \<Rightarrow> 'g batch" where
  "execute_in_batch is_in_partition price tx b =
     b\<lparr>bt_state := apply_tx is_in_partition price tx (bt_state b),
       bt_changed_addrs := List.insert (st_from tx)
         (if pays_recipient tx then List.insert (st_to tx) (bt_changed_addrs b) else bt_changed_addrs b),
       bt_executed_count := bt_executed_count b + 1,
       bt_executed_hashes := List.insert (st_hash tx) (bt_executed_hashes b),
       bt_special_txs := (if st_kind tx \<notin> {None, Some Consolidation} then bt_special_txs b @ [tx] else bt_special_txs b)\<rparr>"

definition defer_tx :: "SignedTransaction \<Rightarrow> 'g batch \<Rightarrow> 'g batch" where
  "defer_tx tx b = b\<lparr>bt_new_deferred := bt_new_deferred b @ [tx]\<rparr>"

definition batch_step :: "nonce_index \<Rightarrow> bool \<Rightarrow> u64 \<Rightarrow> SignedTransaction \<Rightarrow> 'g batch \<Rightarrow> 'g batch" where
  "batch_step available is_in_partition price tx b =
     (if st_kind tx = Some Consolidation then b
      else if st_from tx \<in> set (bt_gap_skipped_senders b) then defer_tx tx b
      else case hm_get (si_accounts (bt_state b)) (st_from tx) of
        None \<Rightarrow> execute_in_batch is_in_partition price tx b
      | Some from_account \<Rightarrow>
          if st_nonce tx \<noteq> acc_nonce from_account then
            (if st_nonce tx > acc_nonce from_account then
               (case hm_get available (st_from tx) of
                  Some sender_nonces \<Rightarrow>
                    if acc_nonce from_account \<notin> set sender_nonces
                    then defer_tx tx (b\<lparr>bt_gap_skipped_senders := List.insert (st_from tx) (bt_gap_skipped_senders b)\<rparr>)
                    else defer_tx tx b
                | None \<Rightarrow> defer_tx tx b)
             else b)
          else if acc_balance from_account < tx_cost price tx
          then b\<lparr>bt_balance_deferred := bt_balance_deferred b @ [tx]\<rparr>
          else execute_in_batch is_in_partition price tx b)"

text \<open>One pass over the transactions that were short of balance: \<open>(b, still_deferred, made_progress)\<close>.\<close>

definition retry_step ::
  "bool \<Rightarrow> u64 \<Rightarrow> SignedTransaction \<Rightarrow> 'g batch \<times> SignedTransaction list \<times> bool \<Rightarrow> 'g batch \<times> SignedTransaction list \<times> bool" where
  "retry_step is_in_partition price tx = (\<lambda>(b, still_deferred, made_progress).
     if st_hash tx \<in> set (bt_executed_hashes b) then (b, still_deferred, made_progress)
     else case hm_get (si_accounts (bt_state b)) (st_from tx) of
       None \<Rightarrow> (execute_in_batch is_in_partition price tx b, still_deferred, True)
     | Some from_account \<Rightarrow>
         if st_nonce tx \<noteq> acc_nonce from_account \<or> acc_balance from_account < tx_cost price tx
         then (b, still_deferred @ [tx], made_progress)
         else (execute_in_batch is_in_partition price tx b, still_deferred, True))"

definition tx_order :: "SignedTransaction \<Rightarrow> string \<times> u64 \<times> string" where
  "tx_order tx = (st_from tx, st_nonce tx, st_hash tx)"

definition MAX_CROSS_SENDER_PASSES :: nat where "MAX_CROSS_SENDER_PASSES = 5"

primrec retry_passes :: "bool \<Rightarrow> u64 \<Rightarrow> nat \<Rightarrow> 'g batch \<Rightarrow> 'g batch" where
  "retry_passes is_in_partition price 0 b = b"
| "retry_passes is_in_partition price (Suc passes) b =
     (if bt_balance_deferred b = [] then b
      else let (b, still_deferred, made_progress) =
                 fold (retry_step is_in_partition price) (sort_key tx_order (bt_balance_deferred b)) (b, [], False);
               b = b\<lparr>bt_balance_deferred := still_deferred\<rparr>
           in if made_progress then retry_passes is_in_partition price passes b else b)"

definition execute_batch_inline ::
  "((string \<times> u64 list) list \<Rightarrow> (string \<times> u64 list) list) \<Rightarrow> (string list \<Rightarrow> string list)
   \<Rightarrow> SignedTransaction list \<Rightarrow> nonce_index \<Rightarrow> 'g StateInner \<Rightarrow> 'g StateInner \<times> BatchCoreResult" where
  "execute_batch_inline itern iter all_txs available s =
     (let in_partition = is_partitioned s;
          price = si_current_gas_price s;
          (s, bridged) = bridge_nonces itern available s;
          b = fold (batch_step available in_partition price) all_txs
                \<lparr>bt_state = s, bt_executed_count = 0, bt_executed_hashes = [], bt_special_txs = [], bt_new_deferred = [],
                 bt_gap_skipped_senders = [], bt_changed_addrs = remdups bridged, bt_balance_deferred = []\<rparr>;
          b = retry_passes in_partition price MAX_CROSS_SENDER_PASSES b
      in (bt_state b,
          \<lparr>br_executed_count = bt_executed_count b, br_executed_hashes = bt_executed_hashes b,
           br_special_txs = bt_special_txs b, br_new_deferred = bt_new_deferred b,
           br_gap_skipped_senders = bt_gap_skipped_senders b, br_changed_addresses = iter (bt_changed_addrs b)\<rparr>))"

section \<open>The deferred queue\<close>

definition MAX_DEFERRED_RETRIES :: u32 where "MAX_DEFERRED_RETRIES = 3"
definition MAX_DEFERRED :: nat where "MAX_DEFERRED = 500"

record 'g NodeState =
  ns_inner :: "'g StateInner"
  ns_rewards :: RewardsService
  ns_deferred_batch_txs :: "SignedTransaction list"
  ns_deferred_retry_counts :: "(string, u32) hash_map"

abbreviation on_inner :: "('g StateInner \<Rightarrow> 'g StateInner) \<Rightarrow> 'g NodeState \<Rightarrow> 'g NodeState" where
  "on_inner f n \<equiv> n\<lparr>ns_inner := f (ns_inner n)\<rparr>"

abbreviation retry_count :: "(string, u32) hash_map \<Rightarrow> SignedTransaction \<Rightarrow> u32" where
  "retry_count counts tx \<equiv> unwrap_or (hm_get counts (st_hash tx)) 0"

text \<open>\<open>(all_txs, fast_path_skipped, from_deferred, expired_count, retry_counts)\<close>; the queue is taken.\<close>

definition prepare_batch_txs ::
  "SignedTransaction list \<Rightarrow> string list \<Rightarrow> 'g NodeState
   \<Rightarrow> 'g NodeState \<times> SignedTransaction list \<times> nat \<times> nat \<times> nat \<times> (string, u32) hash_map" where
  "prepare_batch_txs txs fast_path_already_finalized n =
     (let retry_counts = ns_deferred_retry_counts n;
          candidates = filter (\<lambda>dtx. st_hash dtx \<notin> set fast_path_already_finalized) (ns_deferred_batch_txs n);
          prev_deferred = filter (\<lambda>dtx. retry_count retry_counts dtx < MAX_DEFERRED_RETRIES) candidates;
          all_txs = filter (\<lambda>tx. st_hash tx \<notin> set fast_path_already_finalized) txs;
          existing = map st_hash all_txs;
          merged = all_txs @ filter (\<lambda>dtx. st_hash dtx \<notin> set existing) prev_deferred
      in (n\<lparr>ns_deferred_batch_txs := []\<rparr>, sort_key tx_order merged, length txs - length all_txs,
          length prev_deferred, length candidates - length prev_deferred, retry_counts))"

definition store_batch_deferred ::
  "SignedTransaction list \<Rightarrow> (string, u32) hash_map \<Rightarrow> 'g NodeState \<Rightarrow> 'g NodeState" where
  "store_batch_deferred new_deferred retry_counts n =
     (let new_deferred = (if length new_deferred > MAX_DEFERRED then take MAX_DEFERRED (sort_key st_nonce new_deferred) else new_deferred);
          final_hashes = map st_hash new_deferred;
          retry_counts = fold (\<lambda>dtx. hm_entry (st_hash dtx) 0 (\<lambda>c. c + 1)) new_deferred retry_counts;
          retry_counts = hm_retain (\<lambda>hash _. hash \<in> set final_hashes) retry_counts
      in n\<lparr>ns_deferred_batch_txs := new_deferred, ns_deferred_retry_counts := retry_counts\<rparr>)"

definition purge_stale_deferred_txs :: "'g NodeState \<Rightarrow> 'g NodeState" where
  "purge_stale_deferred_txs n =
     (let kept = filter (\<lambda>tx. case hm_get (si_accounts (ns_inner n)) (st_from tx) of
                   Some account \<Rightarrow> st_nonce tx \<ge> acc_nonce account | None \<Rightarrow> True) (ns_deferred_batch_txs n)
      in if length kept < length (ns_deferred_batch_txs n)
         then n\<lparr>ns_deferred_batch_txs := kept,
                ns_deferred_retry_counts := hm_retain (\<lambda>hash _. hash \<in> set (map st_hash kept)) (ns_deferred_retry_counts n)\<rparr>
         else n)"

end
