(* ===== verification/Rinku_Finalize.thy ===== *)
theory Rinku_Finalize
  imports Rinku_Execution
begin

text \<open>
  \<open>rinku-node/src/state/transactions.rs\<close>, third part: what follows the execution of a
  finalized transaction. Stakes, unstakes and claims reach the rewards service and the
  accounts, contract transactions are run, parents and validators are rewarded, and
  transactions that can no longer be executed leave the DAG. The parser of the data field and
  the contract runtime are arguments; a failing write of the contract file is only logged by
  the code and has no effect here.
\<close>

section \<open>Contract transactions\<close>

record contract_env =
  cx_from_data_field :: "string \<Rightarrow> ContractTransactionData option"
  cx_execute :: "string \<Rightarrow> string \<Rightarrow> string \<Rightarrow> contract_data \<Rightarrow> contract_data \<Rightarrow> u64 \<Rightarrow> u64 option \<Rightarrow> string \<Rightarrow> u64 \<Rightarrow> ExecutionResult"

definition BASE_TX_GAS :: u64 where "BASE_TX_GAS = 21000"

definition charge_contract_execution_fee ::
  "crypto_env \<Rightarrow> string \<Rightarrow> u64 \<Rightarrow> u64 \<Rightarrow> 'g StateInner \<Rightarrow> 'g StateInner" where
  "charge_contract_execution_fee env from gas_used gas_price s =
     (let additional_gas = saturating_sub gas_used BASE_TX_GAS;
          execution_fee = additional_gas * gas_price div BASE_TX_GAS
      in if execution_fee > 0
         then update_state_trie_accounts env [from]
           (s\<lparr>si_accounts := hm_modify from (\<lambda>a. a\<lparr>acc_balance := saturating_sub (acc_balance a) execution_fee\<rparr>) (si_accounts s),
              si_total_burned := si_total_burned s + execution_fee div 2,
              si_total_to_validators := si_total_to_validators s + execution_fee div 2\<rparr>)
         else s)"

definition store_contract :: "ContractState \<Rightarrow> 'g StateInner \<Rightarrow> 'g StateInner" where
  "store_contract contract s = s\<lparr>si_contracts := hm_insert (ct_contract_id contract) contract (si_contracts s)\<rparr>"

definition get_contract :: "'g StateInner \<Rightarrow> string \<Rightarrow> ContractState option" where
  "get_contract s contract_id = hm_get (si_contracts s) contract_id"

text \<open>\<open>None\<close> when the contract is not there.\<close>

definition update_contract_state ::
  "string \<Rightarrow> contract_data \<Rightarrow> string \<Rightarrow> u64 \<Rightarrow> 'g StateInner \<Rightarrow> 'g StateInner option" where
  "update_contract_state contract_id new_state state_hash new_height s =
     (case hm_get (si_contracts s) contract_id of
        Some contract \<Rightarrow> Some (s\<lparr>si_contracts := hm_insert contract_id
          (contract\<lparr>ct_state := new_state, ct_state_hash := state_hash, ct_height := new_height\<rparr>) (si_contracts s)\<rparr>)
      | None \<Rightarrow> None)"

definition deploy_contract ::
  "crypto_env \<Rightarrow> contract_env \<Rightarrow> SignedTransaction \<Rightarrow> string \<Rightarrow> contract_data \<Rightarrow> 'g StateInner \<Rightarrow> 'g StateInner" where
  "deploy_contract env cx tx wasm_base64 init_state s =
     (let gas_price = tx_gas_fee (si_current_gas_price s) tx;
          contract_id = create_contract_id env (st_from tx) (st_nonce tx);
          created_at = tx_timestamp (st_tx tx) div 1000;
          init_result = cx_execute cx contract_id wasm_base64 ''init'' [] init_state 1 (Some 1000000) (st_from tx) created_at;
          s = charge_contract_execution_fee env (st_from tx) (er_gas_used init_result) gas_price s;
          final_state = (if er_success init_result then apply_state_diff (er_state_diff init_result) init_state else init_state)
      in store_contract
           \<lparr>ct_contract_id = contract_id, ct_creator = st_from tx, ct_wasm_base64 = wasm_base64,
            ct_deploy_url = ''rinku://contract/'' @ contract_id, ct_state = final_state,
            ct_state_hash = compute_state_hash final_state, ct_height = 0, ct_created_at = created_at, ct_schema = None\<rparr> s)"

definition call_contract ::
  "crypto_env \<Rightarrow> contract_env \<Rightarrow> SignedTransaction \<Rightarrow> string \<Rightarrow> string \<Rightarrow> contract_data \<Rightarrow> 'g StateInner \<Rightarrow> 'g StateInner" where
  "call_contract env cx tx contract_id entrypoint input s =
     (case get_contract s contract_id of
        None \<Rightarrow> s
      | Some contract \<Rightarrow>
          let gas_price = tx_gas_fee (si_current_gas_price s) tx;
              new_height = ct_height contract + 1;
              result = cx_execute cx contract_id (ct_wasm_base64 contract) entrypoint input (ct_state contract) new_height
                         (tx_gas_limit (st_tx tx)) (st_from tx) (tx_timestamp (st_tx tx) div 1000);
              s = charge_contract_execution_fee env (st_from tx) (er_gas_used result) gas_price s
          in if er_success result
             then let new_state = apply_state_diff (er_state_diff result) (ct_state contract)
                  in unwrap_or (update_contract_state contract_id new_state (compute_state_hash new_state) new_height s) s
             else s)"

definition execute_contract_transaction ::
  "crypto_env \<Rightarrow> contract_env \<Rightarrow> SignedTransaction \<Rightarrow> ContractTransactionData \<Rightarrow> 'g StateInner \<Rightarrow> 'g StateInner" where
  "execute_contract_transaction env cx tx contract_data s =
     (case contract_data of
        Deploy wasm_base64 init_state \<Rightarrow> deploy_contract env cx tx wasm_base64 init_state s
      | Call contract_id entrypoint input \<Rightarrow> call_contract env cx tx contract_id entrypoint input s)"

definition run_contract_tx :: "crypto_env \<Rightarrow> contract_env \<Rightarrow> SignedTransaction \<Rightarrow> 'g StateInner \<Rightarrow> 'g StateInner" where
  "run_contract_tx env cx tx s =
     (case Option.bind (tx_data (st_tx tx)) (cx_from_data_field cx) of
        Some contract_data \<Rightarrow> execute_contract_transaction env cx tx contract_data s
      | None \<Rightarrow> s)"

section \<open>Stakes, unstakes and claims of a batch\<close>

record special_effects =
  sf_rewards :: RewardsService
  sf_unstake_credits :: "(string \<times> u64) list"
  sf_claim_credits :: "(string \<times> u64) list"
  sf_stake_deltas :: "(string, u64 \<times> u64) hash_map"

definition stake_effect :: "u64 \<Rightarrow> string list \<Rightarrow> SignedTransaction \<Rightarrow> special_effects \<Rightarrow> special_effects" where
  "stake_effect now skip_hashes tx e =
     (let rewards = fst (rewards_stake now (st_from tx) (st_amount tx) (st_hash tx) (sf_rewards e));
          staked_at = (case get_stake rewards (st_from tx) of Some p \<Rightarrow> sp_staked_at p | None \<Rightarrow> 0);
          delta = (case hm_get (sf_stake_deltas e) (st_from tx) of
                     Some (amount, since) \<Rightarrow> if st_hash tx \<in> set skip_hashes then (amount, since) else (amount + st_amount tx, since)
                   | None \<Rightarrow> if st_hash tx \<in> set skip_hashes then (0, staked_at) else (st_amount tx, staked_at))
      in e\<lparr>sf_rewards := rewards, sf_stake_deltas := hm_insert (st_from tx) delta (sf_stake_deltas e)\<rparr>)"

definition special_step :: "u64 \<Rightarrow> string list \<Rightarrow> SignedTransaction \<Rightarrow> special_effects \<Rightarrow> special_effects" where
  "special_step now skip_hashes tx e =
     (if st_kind tx = Some Stake then stake_effect now skip_hashes tx e
      else if st_kind tx = Some Unstake then
        (case unstake now (st_from tx) (sf_rewards e) of
           (rewards, Inr amount) \<Rightarrow> e\<lparr>sf_rewards := rewards, sf_unstake_credits := sf_unstake_credits e @ [(st_from tx, amount)]\<rparr>
         | (rewards, Inl _) \<Rightarrow> e\<lparr>sf_rewards := rewards\<rparr>)
      else if st_kind tx = Some ClaimRewards then
        (let (rewards, claimed) = claim_rewards (st_from tx) (sf_rewards e)
         in if claimed > 0
            then e\<lparr>sf_rewards := rewards, sf_claim_credits := sf_claim_credits e @ [(st_from tx, claimed)]\<rparr>
            else e\<lparr>sf_rewards := rewards\<rparr>)
      else e)"

definition unstake_credit :: "u64 \<Rightarrow> Account \<Rightarrow> Account" where
  "unstake_credit amount a = a\<lparr>acc_balance := acc_balance a + amount, acc_staked := 0\<rparr>"

definition claim_credit :: "u64 \<Rightarrow> Account \<Rightarrow> Account" where
  "claim_credit claimed a = a\<lparr>acc_balance := acc_balance a + claimed\<rparr>"

definition stake_delta :: "u64 \<times> u64 \<Rightarrow> Account \<Rightarrow> Account" where
  "stake_delta = (\<lambda>(delta_amount, staked_at) a.
     a\<lparr>acc_staked := acc_staked a + delta_amount, acc_first_seen := staked_at div 1000\<rparr>)"

text \<open>One of the three loops over the accounts: \<open>(accounts, special_changed)\<close>.\<close>

definition special_loop ::
  "('a \<Rightarrow> Account \<Rightarrow> Account) \<Rightarrow> (string \<times> 'a) list \<Rightarrow> (string, Account) hash_map \<times> string list \<Rightarrow> (string, Account) hash_map \<times> string list" where
  "special_loop f = fold (\<lambda>(addr, x) (accounts, changed).
     if hm_contains accounts addr then (hm_modify addr (f x) accounts, changed @ [addr]) else (accounts, changed))"

type_synonym delta_order = "(string \<times> u64 \<times> u64) list \<Rightarrow> (string \<times> u64 \<times> u64) list"

definition apply_special_effects :: "crypto_env \<Rightarrow> delta_order \<Rightarrow> special_effects \<Rightarrow> 'g StateInner \<Rightarrow> 'g StateInner" where
  "apply_special_effects env iter e s =
     (let (accounts, changed) = special_loop stake_delta (iter (sf_stake_deltas e))
            (special_loop claim_credit (sf_claim_credits e)
              (special_loop unstake_credit (sf_unstake_credits e) (si_accounts s, [])));
          s = s\<lparr>si_accounts := accounts\<rparr>
      in if changed \<noteq> [] then update_state_trie_accounts env changed s else s)"

text \<open>
  A transaction without a kind makes \<open>unwrap\<close> panic (\<open>None\<close>). The loop over the contract
  transactions runs after the other effects are in the accounts.
\<close>

definition process_batch_special_txs_with_skip ::
  "crypto_env \<Rightarrow> contract_env \<Rightarrow> delta_order \<Rightarrow> u64 \<Rightarrow> SignedTransaction list \<Rightarrow> string list \<Rightarrow> 'g NodeState \<Rightarrow> 'g NodeState option" where
  "process_batch_special_txs_with_skip env cx iter now special_txs skip_hashes n =
     (if list_ex (\<lambda>tx. st_kind tx = None) special_txs then None
      else let e = fold (special_step now skip_hashes) special_txs
                 \<lparr>sf_rewards = ns_rewards n, sf_unstake_credits = [], sf_claim_credits = [], sf_stake_deltas = []\<rparr>;
               s = apply_special_effects env iter e (ns_inner n);
               s = fold (run_contract_tx env cx)
                     (filter (\<lambda>tx. st_kind tx = Some Contract \<and> st_hash tx \<notin> set skip_hashes) special_txs) s
           in Some (n\<lparr>ns_inner := s, ns_rewards := sf_rewards e\<rparr>))"

definition process_batch_special_txs ::
  "crypto_env \<Rightarrow> contract_env \<Rightarrow> delta_order \<Rightarrow> u64 \<Rightarrow> SignedTransaction list \<Rightarrow> 'g NodeState \<Rightarrow> 'g NodeState option" where
  "process_batch_special_txs env cx iter now special_txs n = process_batch_special_txs_with_skip env cx iter now special_txs [] n"

section \<open>Rewards for parents and validators\<close>

definition normalize_parent :: "string \<Rightarrow> string" where
  "normalize_parent p =
     (case strip_prefix ''rinku://tx/h/'' p of
        Some h \<Rightarrow> h
      | None \<Rightarrow> (case strip_prefix ''rinku://tx/'' p of Some h \<Rightarrow> h | None \<Rightarrow> p))"

definition tx_hash_url :: "string \<Rightarrow> string" where
  "tx_hash_url hash = ''rinku://tx/h/'' @ hash"

record TxRewardInfo =
  ri_tx_url :: string
  ri_reward_base :: u64
  ri_first_parent_hash :: "string option"
  ri_witness_parents :: "(string \<times> string) list"

definition witness_parents :: "'g petgraph \<Rightarrow> 'g StateInner \<Rightarrow> SignedTransaction \<Rightarrow> (string \<times> string) list" where
  "witness_parents G s tx =
     List.map_filter (\<lambda>parent_ref.
       let ph = normalize_parent parent_ref
       in case get_node G (si_dag s) ph of
            Some node \<Rightarrow> if st_from (dn_tx node) \<noteq> st_from tx then Some (tx_hash_url ph, st_from (dn_tx node)) else None
          | None \<Rightarrow> None) (tx_parents (st_tx tx))"

definition reward_info :: "'g petgraph \<Rightarrow> 'g StateInner \<Rightarrow> SignedTransaction \<Rightarrow> TxRewardInfo option" where
  "reward_info G s tx =
     (let gas_fee = tx_gas_fee (si_current_gas_price s) tx
      in if st_amount tx = 0 \<and> gas_fee = 0 then None
         else Some \<lparr>ri_tx_url = tx_hash_url (st_hash tx), ri_reward_base = st_amount tx + gas_fee,
                    ri_first_parent_hash = (case tx_parents (st_tx tx) of p # _ \<Rightarrow> Some (normalize_parent p) | [] \<Rightarrow> None),
                    ri_witness_parents = witness_parents G s tx\<rparr>)"

definition pay_reward_info :: "u64 \<Rightarrow> string option \<Rightarrow> TxRewardInfo \<Rightarrow> RewardsService \<Rightarrow> RewardsService" where
  "pay_reward_info now validator_addr info rewards =
     (let rewards = (case (validator_addr, ri_first_parent_hash info) of
            (Some validator, Some parent_hash) \<Rightarrow>
              fst (process_tip_reward now (ri_tx_url info) (tx_hash_url parent_hash) validator (ri_reward_base info) rewards)
          | _ \<Rightarrow> rewards)
      in fold (\<lambda>(parent_url, parent_creator).
           fst \<circ> process_witness_reward now (ri_tx_url info) parent_url parent_creator (ri_reward_base info))
           (ri_witness_parents info) rewards)"

definition process_batch_reward_infos ::
  "'g petgraph \<Rightarrow> u64 \<Rightarrow> SignedTransaction list \<Rightarrow> string list \<Rightarrow> 'g NodeState \<Rightarrow> 'g NodeState" where
  "process_batch_reward_infos G now all_txs executed_hashes n =
     (let s = ns_inner n;
          infos = List.map_filter (reward_info G s)
            (filter (\<lambda>tx. st_hash tx \<in> set executed_hashes \<and> st_kind tx \<noteq> Some Consolidation) all_txs)
      in n\<lparr>ns_rewards := fold (pay_reward_info now (si_node_validator_address s)) infos (ns_rewards n)\<rparr>)"

definition execute_finalized_transaction_rewards ::
  "'g petgraph \<Rightarrow> u64 \<Rightarrow> SignedTransaction \<Rightarrow> 'g NodeState \<Rightarrow> 'g NodeState" where
  "execute_finalized_transaction_rewards G now tx n =
     (let s = ns_inner n;
          gas_fee = tx_gas_fee (si_current_gas_price s) tx;
          tx_url = tx_hash_url (st_hash tx);
          parents = map normalize_parent (tx_parents (st_tx tx));
          creators = List.map_filter (\<lambda>p. map_option (\<lambda>node. (tx_hash_url p, st_from (dn_tx node))) (get_node G (si_dag s) p)) parents
      in if st_amount tx > 0 \<or> gas_fee > 0
         then let reward_base = st_amount tx + gas_fee;
                  rewards = (case (si_node_validator_address s, parents) of
                      (Some validator, first_parent # _) \<Rightarrow>
                        fst (process_tip_reward now tx_url (tx_hash_url first_parent) validator reward_base (ns_rewards n))
                    | _ \<Rightarrow> ns_rewards n)
              in n\<lparr>ns_rewards := fold (\<lambda>(parent_url, parent_creator) rewards.
                     if parent_creator \<noteq> st_from tx
                     then fst (process_witness_reward now tx_url parent_url parent_creator reward_base rewards) else rewards)
                     creators rewards\<rparr>
         else n)"

section \<open>The whole batch\<close>

record batch_orders =
  bo_nonces :: "(string \<times> u64 list) list \<Rightarrow> (string \<times> u64 list) list"
  bo_changed :: "string list \<Rightarrow> string list"
  bo_deltas :: delta_order

definition execute_finalized_transactions_batch ::
  "crypto_env \<Rightarrow> 'g petgraph \<Rightarrow> contract_env \<Rightarrow> batch_orders \<Rightarrow> u64 \<Rightarrow> SignedTransaction list \<Rightarrow> string list \<Rightarrow> 'g NodeState
   \<Rightarrow> ('g NodeState \<times> string list) option" where
  "execute_finalized_transactions_batch env G cx orders now txs fast_path_already_finalized n =
     (let (n, all_txs, fast_path_skipped, from_deferred, expired_count, retry_counts) =
            prepare_batch_txs txs fast_path_already_finalized n
      in if all_txs = [] \<and> fast_path_skipped = 0 then Some (n, [])
         else let (s, result) = execute_batch_inline (bo_nonces orders) (bo_changed orders) all_txs (available_nonces all_txs) (ns_inner n);
                  s = (if br_changed_addresses result \<noteq> [] then update_state_trie_accounts env (br_changed_addresses result) s else s);
                  n = store_batch_deferred (br_new_deferred result) retry_counts (n\<lparr>ns_inner := s\<rparr>)
              in case process_batch_special_txs env cx (bo_deltas orders) now (br_special_txs result) n of
                   None \<Rightarrow> None
                 | Some n \<Rightarrow> Some (process_batch_reward_infos G now all_txs (br_executed_hashes result) n, br_executed_hashes result))"

section \<open>One transaction\<close>

definition update_account_staked ::
  "crypto_env \<Rightarrow> u64 \<Rightarrow> string \<Rightarrow> u64 \<Rightarrow> u64 option \<Rightarrow> 'g StateInner \<Rightarrow> 'g StateInner" where
  "update_account_staked env now_secs address staked_amount staked_at s =
     (let account = (case hm_get (si_accounts s) address of
            Some account \<Rightarrow>
              (case staked_at of
                 Some ts \<Rightarrow> account\<lparr>acc_staked := staked_amount, acc_first_seen := ts\<rparr>
               | None \<Rightarrow> account\<lparr>acc_staked := staked_amount\<rparr>)
          | None \<Rightarrow> (Account_new address (unwrap_or staked_at now_secs))\<lparr>acc_staked := staked_amount\<rparr>)
      in update_state_trie_accounts env [address] (s\<lparr>si_accounts := hm_insert address account (si_accounts s)\<rparr>))"

definition execute_transaction_side_effects ::
  "crypto_env \<Rightarrow> contract_env \<Rightarrow> u64 \<Rightarrow> SignedTransaction \<Rightarrow> 'g NodeState \<Rightarrow> 'g NodeState" where
  "execute_transaction_side_effects env cx now tx n =
     (let from = st_from tx
      in if st_kind tx = Some Stake then
           (case rewards_stake now from (st_amount tx) (st_hash tx) (ns_rewards n) of
              (rewards, Inl _) \<Rightarrow> n\<lparr>ns_rewards := rewards\<rparr>
            | (rewards, Inr _) \<Rightarrow>
                (let n = n\<lparr>ns_rewards := rewards\<rparr>
                 in case get_stake rewards from of
                      Some p \<Rightarrow> on_inner (update_account_staked env (now div 1000) from (sp_amount p) (Some (sp_staked_at p div 1000))) n
                    | None \<Rightarrow> n))
         else if st_kind tx = Some Unstake then
           (case unstake now from (ns_rewards n) of
              (rewards, Inl _) \<Rightarrow> n\<lparr>ns_rewards := rewards\<rparr>
            | (rewards, Inr amount) \<Rightarrow>
                on_inner (\<lambda>s. update_state_trie_accounts env [from]
                    (s\<lparr>si_accounts := hm_modify from (unstake_credit amount) (si_accounts s)\<rparr>)) (n\<lparr>ns_rewards := rewards\<rparr>))
         else if st_kind tx = Some ClaimRewards then
           (let (rewards, claimed) = claim_rewards from (ns_rewards n);
                n = n\<lparr>ns_rewards := rewards\<rparr>
            in if claimed > 0
               then on_inner (\<lambda>s. update_state_trie_accounts env [from]
                      (s\<lparr>si_accounts := hm_modify from (claim_credit claimed) (si_accounts s)\<rparr>)) n
               else n)
         else if st_kind tx = Some Contract then on_inner (run_contract_tx env cx tx) n
         else n)"

text \<open>
  The section of \<open>execute_finalized_transaction_core\<close> under the write lock, before the side
  effects: the state and whether \<open>tx\<close> was applied. The gas price, read under a lock of its own
  just before, is that of the same state.
\<close>

definition core_ledger :: "crypto_env \<Rightarrow> SignedTransaction \<Rightarrow> 'g StateInner \<Rightarrow> 'g StateInner \<times> bool" where
  "core_ledger env tx s =
     (let price = si_current_gas_price s;
          part = is_partitioned s;
          changed = st_from tx # (if pays_recipient tx \<and> st_to tx \<noteq> [] then [st_to tx] else []);
          apply = (\<lambda>s. (update_state_trie_accounts env changed (apply_tx part price tx s), True))
      in case hm_get (si_accounts s) (st_from tx) of
           None \<Rightarrow> apply s
         | Some account \<Rightarrow>
             if st_nonce tx < acc_nonce account then (s, False)
             else if st_nonce tx > acc_nonce account
               \<and> (case fast_path_nonce s (st_from tx) of Some fp_n \<Rightarrow> fp_n < st_nonce tx | None \<Rightarrow> True) then (s, False)
             else let s = (if st_nonce tx > acc_nonce account
                           then s\<lparr>si_accounts := hm_insert (st_from tx) (account\<lparr>acc_nonce := st_nonce tx\<rparr>) (si_accounts s)\<rparr> else s)
                  in if acc_balance account < tx_cost price tx then (s, False) else apply s)"

definition execute_finalized_transaction_core ::
  "crypto_env \<Rightarrow> contract_env \<Rightarrow> u64 \<Rightarrow> SignedTransaction \<Rightarrow> 'g NodeState \<Rightarrow> 'g NodeState \<times> bool" where
  "execute_finalized_transaction_core env cx now tx n =
     (if st_kind tx = Some Consolidation then (n, False)
      else let (s, applied) = core_ledger env tx (ns_inner n);
               n = n\<lparr>ns_inner := s\<rparr>
           in if applied then (execute_transaction_side_effects env cx now tx n, True) else (n, False))"

definition execute_finalized_transaction ::
  "crypto_env \<Rightarrow> 'g petgraph \<Rightarrow> contract_env \<Rightarrow> u64 \<Rightarrow> SignedTransaction \<Rightarrow> 'g NodeState \<Rightarrow> 'g NodeState" where
  "execute_finalized_transaction env G cx now tx n =
     (let (n, applied) = execute_finalized_transaction_core env cx now tx n
      in if applied then execute_finalized_transaction_rewards G now tx n else n)"

section \<open>Transactions that can no longer be executed\<close>

definition MAX_UNFINALIZED_DAG :: nat where "MAX_UNFINALIZED_DAG = 2000"

definition account_nonce_of :: "'g StateInner \<Rightarrow> string \<Rightarrow> u64" where
  "account_nonce_of s addr = (case hm_get (si_accounts s) addr of Some a \<Rightarrow> acc_nonce a | None \<Rightarrow> 0)"

definition nonces_reachable :: "u64 list \<Rightarrow> u64 \<Rightarrow> u64 \<Rightarrow> bool" where
  "nonces_reachable nonces account_nonce nonce =
     list_all (\<lambda>needed. of_nat needed \<in> set nonces) [unat account_nonce ..< unat nonce]"

definition is_zombie :: "'g StateInner \<Rightarrow> nonce_index \<Rightarrow> DagNode \<Rightarrow> bool" where
  "is_zombie s sender_nonces node =
     (let nonce = st_nonce (dn_tx node); account_nonce = account_nonce_of s (st_from (dn_tx node))
      in \<not> hm_contains (si_fast_path_finalized_txs s) (dn_hash node)
         \<and> (nonce < account_nonce
            \<or> nonce > account_nonce
              \<and> (case hm_get sender_nonces (st_from (dn_tx node)) of
                   Some nonces \<Rightarrow> \<not> nonces_reachable nonces account_nonce nonce | None \<Rightarrow> False)))"

definition overflow_hashes :: "'g StateInner \<Rightarrow> DagNode list \<Rightarrow> string list" where
  "overflow_hashes s remaining =
     (let overflow = map (\<lambda>n. (dn_hash n, saturating_sub (st_nonce (dn_tx n)) (account_nonce_of s (st_from (dn_tx n)))))
            (filter (\<lambda>n. \<not> hm_contains (si_fast_path_finalized_txs s) (dn_hash n)) remaining)
      in map fst (take (length remaining - MAX_UNFINALIZED_DAG) (sort_key (\<lambda>(_, gap). - int (unat gap)) overflow)))"

definition purge_zombie_dag_txs :: "'g petgraph \<Rightarrow> (string list \<Rightarrow> string list) \<Rightarrow> 'g StateInner \<Rightarrow> 'g StateInner" where
  "purge_zombie_dag_txs G iter s =
     (let unfinalized = get_unfinalized_nodes G iter (si_dag s);
          sender_nonces = available_nonces (map dn_tx unfinalized);
          zombie_hashes = map dn_hash (filter (is_zombie s sender_nonces) unfinalized);
          s = (if zombie_hashes \<noteq> [] then s\<lparr>si_dag := fst (remove_nodes_batch G zombie_hashes (si_dag s))\<rparr> else s);
          remaining = get_unfinalized_nodes G iter (si_dag s)
      in if length remaining > MAX_UNFINALIZED_DAG \<and> overflow_hashes s remaining \<noteq> []
         then s\<lparr>si_dag := fst (remove_nodes_batch G (overflow_hashes s remaining) (si_dag s))\<rparr> else s)"

end
