(* ===== verification/Rinku_Admission.thy ===== *)
theory Rinku_Admission
  imports Rinku_Finalize
begin

text \<open>
  How transactions get into the DAG: \<open>rinku-node/src/tx_auth.rs\<close>, the pending statistics of
  \<open>state/proofs.rs\<close> and the admission paths of \<open>state/transactions.rs\<close>, with the signature
  checks of \<open>rinku-core/src/crypto.rs\<close>. The ECDSA arithmetic (crate p256) is an argument.
  Public keys and addresses are ASCII. Admission takes the state lock four times and reads the
  clock four times; what the three reading sections and the clock say is a record of readings,
  the state of the writing section is an argument of its own. In the other paths the clock is
  read once for the node and, when the DAG is full, once more by the pruning; there one reading
  stands for both.
\<close>

section \<open>Signatures\<close>

record ecdsa_env =
  ec_point :: "bytes \<Rightarrow> bytes option"
  ec_signature :: "bytes \<Rightarrow> bool"
  ec_verify :: "bytes \<Rightarrow> bytes \<Rightarrow> bytes \<Rightarrow> bool"

text \<open>
  \<open>ec_point\<close> is the uncompressed encoding of the point a SEC1 encoding denotes, if it denotes
  one; \<open>ec_signature\<close> says whether bytes are a signature.
\<close>

datatype CryptoError = InvalidPublicKey | InvalidSignature | VerificationFailed

definition verify_signature :: "crypto_env \<Rightarrow> ecdsa_env \<Rightarrow> string \<Rightarrow> bytes \<Rightarrow> string \<Rightarrow> CryptoError + bool" where
  "verify_signature env ec public_key_hex message signature_hex =
     (case Option.bind (hex_decode env public_key_hex) (ec_point ec) of
        None \<Rightarrow> Inl InvalidPublicKey
      | Some point \<Rightarrow>
          (case hex_decode env signature_hex of
             None \<Rightarrow> Inl InvalidSignature
           | Some sig \<Rightarrow> if ec_signature ec sig then Inr (ec_verify ec point message sig) else Inl InvalidSignature))"

definition fingerprint_from_public_key_bytes :: "crypto_env \<Rightarrow> ecdsa_env \<Rightarrow> bytes \<Rightarrow> CryptoError + string" where
  "fingerprint_from_public_key_bytes env ec public_key =
     (case ec_point ec public_key of
        None \<Rightarrow> Inl InvalidPublicKey
      | Some uncompressed \<Rightarrow> Inr (take 40 (hex_encode env (sha256 env uncompressed))))"

definition fingerprint_from_public_key_hex :: "crypto_env \<Rightarrow> ecdsa_env \<Rightarrow> string \<Rightarrow> CryptoError + string" where
  "fingerprint_from_public_key_hex env ec public_key_hex =
     (case hex_decode env public_key_hex of
        None \<Rightarrow> Inl InvalidPublicKey
      | Some bytes \<Rightarrow> fingerprint_from_public_key_bytes env ec bytes)"

definition verify_tx_signature :: "crypto_env \<Rightarrow> ecdsa_env \<Rightarrow> string \<Rightarrow> string \<Rightarrow> string \<Rightarrow> CryptoError + unit" where
  "verify_tx_signature env ec public_key_hex tx_hash signature_hex =
     (case verify_signature env ec public_key_hex (as_bytes tx_hash) signature_hex of
        Inl e \<Rightarrow> Inl e
      | Inr ok \<Rightarrow> if ok then Inr () else Inl VerificationFailed)"

section \<open>Authenticity\<close>

datatype AdmitError =
  SystemTxRejected | GenesisNotAccepted | InvalidFaucetSignature | InvalidAnchorSignature | AnchorAmountNotZero
| UnknownValidator string | UnrecognizedSystemTx | NotASystemTx | MissingSignature | KeyMismatch | PublicKeyRequired
| BadPublicKey | FingerprintMismatch | BadTxSignature | GasPriceTooLow u64 u64 | NotDuringPartition TransactionKind
| PartitionBudgetExceeded u64 u64 | StakeBelowMinimum u64 u64 | MemoTooLarge nat | TooManyReferences nat
| ContractDataMissing | ContractDataTooLarge nat | InvalidContractData | WasmTooLarge nat | WasmEmpty
| ContractIdEmpty | EntrypointEmpty | TimestampInFuture | NoSuchAccount | InsufficientBalance u64 u64
| StaleNonce u64 u64 | WrongNonce u64 u64 | FaucetNonceConflict u64 u64 | DagRejected DagError

definition starts_with :: "string \<Rightarrow> string \<Rightarrow> bool" where
  "starts_with p s \<longleftrightarrow> take (length p) s = p"

definition is_system_transaction :: "SignedTransaction \<Rightarrow> bool" where
  "is_system_transaction tx \<longleftrightarrow>
     st_kind tx = Some Consolidation \<or> starts_with ''anchor-'' (st_signature tx)
     \<or> st_from tx = ''faucet'' \<or> st_from tx = ''genesis''"

definition reject_external_system_transaction :: "SignedTransaction \<Rightarrow> AdmitError + unit" where
  "reject_external_system_transaction tx = (if is_system_transaction tx then Inl SystemTxRejected else Inr ())"

definition validate_gossip_system_transaction :: "SignedTransaction \<Rightarrow> (string \<Rightarrow> bool) \<Rightarrow> AdmitError + unit" where
  "validate_gossip_system_transaction tx is_known_validator =
     (if \<not> is_system_transaction tx then Inr ()
      else if st_from tx = ''genesis'' then Inl GenesisNotAccepted
      else if st_from tx = ''faucet''
        then (if \<not> starts_with ''faucet-'' (st_signature tx) then Inl InvalidFaucetSignature else Inr ())
      else if st_kind tx = Some Consolidation \<or> starts_with ''anchor-'' (st_signature tx) then
        (if st_signature tx \<noteq> ''anchor-'' @ st_from tx then Inl InvalidAnchorSignature
         else if st_amount tx \<noteq> 0 then Inl AnchorAmountNotZero
         else if \<not> is_known_validator (st_from tx) then Inl (UnknownValidator (st_from tx))
         else Inr ())
      else Inl UnrecognizedSystemTx)"

definition to_lowercase :: "string \<Rightarrow> string" where
  "to_lowercase = map (\<lambda>c. let n = of_char c in if 65 \<le> n \<and> n \<le> 90 then char_of (n + 32 :: nat) else c)"

definition choose_pubkey :: "string option \<Rightarrow> string option \<Rightarrow> AdmitError + string" where
  "choose_pubkey provided known =
     (case (provided, known) of
        (Some p, Some k) \<Rightarrow> if to_lowercase p \<noteq> to_lowercase k then Inl KeyMismatch else Inr p
      | (Some p, None) \<Rightarrow> Inr p
      | (None, Some k) \<Rightarrow> Inr k
      | (None, None) \<Rightarrow> Inl PublicKeyRequired)"

definition verify_user_tx_authenticity ::
  "crypto_env \<Rightarrow> ecdsa_env \<Rightarrow> SignedTransaction \<Rightarrow> string option \<Rightarrow> string option \<Rightarrow> AdmitError + string" where
  "verify_user_tx_authenticity env ec tx provided_pubkey_hex known_pubkey_hex =
     (if is_system_transaction tx then Inl SystemTxRejected
      else if st_signature tx = [] \<or> starts_with ''faucet-'' (st_signature tx) then Inl MissingSignature
      else case choose_pubkey provided_pubkey_hex known_pubkey_hex of
        Inl e \<Rightarrow> Inl e
      | Inr pubkey \<Rightarrow>
          (case fingerprint_from_public_key_hex env ec pubkey of
             Inl _ \<Rightarrow> Inl BadPublicKey
           | Inr fingerprint \<Rightarrow>
               if fingerprint \<noteq> st_from tx then Inl FingerprintMismatch
               else (case verify_tx_signature env ec pubkey (st_hash tx) (st_signature tx) of
                       Inl _ \<Rightarrow> Inl BadTxSignature
                     | Inr _ \<Rightarrow> Inr pubkey)))"

section \<open>What is pending\<close>

text \<open>\<open>(pending_amount, pending_gas, pending_count)\<close>.\<close>

definition pending_step :: "u64 \<Rightarrow> u64 \<Rightarrow> DagNode \<Rightarrow> u64 \<times> u64 \<times> u64 \<Rightarrow> u64 \<times> u64 \<times> u64" where
  "pending_step price confirmed_nonce node = (\<lambda>(amount, gas, pending).
     if st_nonce (dn_tx node) < confirmed_nonce then (amount, gas, pending)
     else (if st_kind (dn_tx node) \<in> {Some Unstake, Some ClaimRewards} then amount else amount + st_amount (dn_tx node),
           gas + tx_gas_fee price (dn_tx node), pending + 1))"

definition get_pending_stats_for_sender ::
  "'g petgraph \<Rightarrow> (string list \<Rightarrow> string list) \<Rightarrow> 'g StateInner \<Rightarrow> string \<Rightarrow> u64 \<times> u64 \<times> u64" where
  "get_pending_stats_for_sender G iter s sender =
     fold (pending_step (si_current_gas_price s) (account_nonce_of s sender))
       (get_unfinalized_for_sender G iter (si_dag s) sender) (0, 0, 0)"

fun count_contiguous :: "u64 \<Rightarrow> u64 list \<Rightarrow> u64 \<Rightarrow> u64" where
  "count_contiguous confirmed_nonce [] contiguous = contiguous"
| "count_contiguous confirmed_nonce (nonce # nonces) contiguous =
     (if nonce = confirmed_nonce + contiguous then count_contiguous confirmed_nonce nonces (contiguous + 1) else contiguous)"

definition pending_nonces :: "'g petgraph \<Rightarrow> (string list \<Rightarrow> string list) \<Rightarrow> 'g StateInner \<Rightarrow> string \<Rightarrow> u64 list" where
  "pending_nonces G iter s sender =
     filter (\<lambda>n. n \<ge> account_nonce_of s sender)
       (map (\<lambda>node. st_nonce (dn_tx node)) (get_unfinalized_for_sender G iter (si_dag s) sender))"

text \<open>Sorting and \<open>dedup\<close> give the distinct nonces in ascending order.\<close>

definition get_effective_nonce :: "'g petgraph \<Rightarrow> (string list \<Rightarrow> string list) \<Rightarrow> 'g StateInner \<Rightarrow> string \<Rightarrow> u64" where
  "get_effective_nonce G iter s sender =
     (let confirmed_nonce = account_nonce_of s sender
      in confirmed_nonce + count_contiguous confirmed_nonce (remdups_adj (sort (pending_nonces G iter s sender))) 0)"

definition get_effective_balance :: "'g petgraph \<Rightarrow> (string list \<Rightarrow> string list) \<Rightarrow> 'g StateInner \<Rightarrow> string \<Rightarrow> u64" where
  "get_effective_balance G iter s sender =
     (let confirmed_balance = (case hm_get (si_accounts s) sender of Some a \<Rightarrow> acc_balance a | None \<Rightarrow> 0);
          (pending_amount, pending_gas, _) = get_pending_stats_for_sender G iter s sender
      in saturating_sub (saturating_sub confirmed_balance pending_amount) pending_gas)"

definition get_effective_balance_and_nonce ::
  "'g petgraph \<Rightarrow> (string list \<Rightarrow> string list) \<Rightarrow> 'g StateInner \<Rightarrow> string \<Rightarrow> u64 \<times> u64" where
  "get_effective_balance_and_nonce G iter s sender =
     (get_effective_balance G iter s sender, get_effective_nonce G iter s sender)"

section \<open>The checks of admission\<close>

definition MAX_MEMO_SIZE :: nat where "MAX_MEMO_SIZE = 1024"
definition MAX_REFERENCES :: nat where "MAX_REFERENCES = 4"
definition MAX_CONTRACT_DATA_SIZE :: nat where "MAX_CONTRACT_DATA_SIZE = 3 * 1024 * 1024"
definition MAX_WASM_SIZE :: nat where "MAX_WASM_SIZE = 2 * 1024 * 1024"
definition MAX_FUTURE_TIMESTAMP_MS :: u64 where "MAX_FUTURE_TIMESTAMP_MS = 30000"

text \<open>A list of checks; the first that fails is the error.\<close>

definition require :: "bool \<Rightarrow> AdmitError \<Rightarrow> AdmitError option" where
  "require ok e = (if ok then None else Some e)"

fun first_error :: "AdmitError option list \<Rightarrow> AdmitError option" where
  "first_error [] = None"
| "first_error (None # cs) = first_error cs"
| "first_error (Some e # cs) = Some e"

definition check_gas_price :: "u64 \<Rightarrow> SignedTransaction \<Rightarrow> AdmitError option" where
  "check_gas_price price tx =
     (case tx_gas_price (st_tx tx) of
        Some offered \<Rightarrow> require (offered \<ge> price) (GasPriceTooLow offered price)
      | None \<Rightarrow> None)"

text \<open>The remaining budget is an unsigned difference.\<close>

definition check_partition :: "'g StateInner \<Rightarrow> SignedTransaction \<Rightarrow> AdmitError option" where
  "check_partition s tx =
     (if is_partitioned s then
        (let kind = unwrap_or (st_kind tx) Transfer
         in case partition_safety kind of
              CpOnly \<Rightarrow> Some (NotDuringPartition kind)
            | Safe \<Rightarrow> None
            | BoundedSpend \<Rightarrow>
                let cost = st_amount tx + tx_gas_fee (si_current_gas_price s) tx
                in (case Option.bind (hm_get (si_accounts s) (st_from tx))
                           (\<lambda>a. map_option (\<lambda>budget. budget - acc_partition_budget_spent a) (acc_partition_budget a)) of
                      Some remaining \<Rightarrow> require (cost \<le> remaining) (PartitionBudgetExceeded cost remaining)
                    | None \<Rightarrow> None))
      else None)"

definition check_stake_minimum :: "u64 \<Rightarrow> SignedTransaction \<Rightarrow> AdmitError option" where
  "check_stake_minimum min_stake tx =
     require (st_kind tx \<noteq> Some Stake \<or> st_amount tx \<ge> min_stake) (StakeBelowMinimum min_stake (st_amount tx))"

definition check_memo :: "SignedTransaction \<Rightarrow> AdmitError option" where
  "check_memo tx =
     (case tx_memo (st_tx tx) of Some memo \<Rightarrow> require (length memo \<le> MAX_MEMO_SIZE) (MemoTooLarge (length memo)) | None \<Rightarrow> None)"

definition check_references :: "SignedTransaction \<Rightarrow> AdmitError option" where
  "check_references tx =
     (case tx_references (st_tx tx) of
        Some refs \<Rightarrow> require (length refs \<le> MAX_REFERENCES) (TooManyReferences (length refs)) | None \<Rightarrow> None)"

definition check_contract_data :: "ContractTransactionData \<Rightarrow> AdmitError option" where
  "check_contract_data contract_data =
     (case contract_data of
        Deploy wasm_base64 _ \<Rightarrow> first_error
          [require (length wasm_base64 * 3 div 4 \<le> MAX_WASM_SIZE) (WasmTooLarge (length wasm_base64 * 3 div 4)),
           require (wasm_base64 \<noteq> []) WasmEmpty]
      | Call contract_id entrypoint _ \<Rightarrow> first_error
          [require (contract_id \<noteq> []) ContractIdEmpty, require (entrypoint \<noteq> []) EntrypointEmpty])"

definition check_contract :: "contract_env \<Rightarrow> SignedTransaction \<Rightarrow> AdmitError option" where
  "check_contract cx tx =
     (if st_kind tx = Some Contract then
        (case tx_data (st_tx tx) of
           None \<Rightarrow> Some ContractDataMissing
         | Some data \<Rightarrow>
             if length data > MAX_CONTRACT_DATA_SIZE then Some (ContractDataTooLarge (length data))
             else (case cx_from_data_field cx data of
                     None \<Rightarrow> Some InvalidContractData
                   | Some contract_data \<Rightarrow> check_contract_data contract_data))
      else None)"

definition check_funds :: "'g petgraph \<Rightarrow> (string list \<Rightarrow> string list) \<Rightarrow> 'g StateInner \<Rightarrow> SignedTransaction \<Rightarrow> AdmitError option" where
  "check_funds G iter s tx =
     (let (effective_balance, _) = get_effective_balance_and_nonce G iter s (st_from tx);
          required_balance = tx_cost (si_current_gas_price s) tx
      in require (effective_balance \<ge> required_balance) (InsufficientBalance effective_balance required_balance))"

definition check_nonce :: "'g petgraph \<Rightarrow> (string list \<Rightarrow> string list) \<Rightarrow> 'g StateInner \<Rightarrow> SignedTransaction \<Rightarrow> AdmitError option" where
  "check_nonce G iter s tx =
     (let effective_nonce = get_effective_nonce G iter s (st_from tx)
      in require (st_nonce tx = effective_nonce) (WrongNonce effective_nonce (st_nonce tx)))"

definition check_account :: "'g petgraph \<Rightarrow> (string list \<Rightarrow> string list) \<Rightarrow> 'g StateInner \<Rightarrow> SignedTransaction \<Rightarrow> AdmitError option" where
  "check_account G iter s tx =
     (if st_from tx \<noteq> ''genesis'' then first_error
        [require (hm_contains (si_accounts s) (st_from tx)) NoSuchAccount,
         check_funds G iter s tx,
         require (st_nonce tx \<ge> account_nonce_of s (st_from tx)) (StaleNonce (account_nonce_of s (st_from tx)) (st_nonce tx)),
         check_nonce G iter s tx]
      else None)"

definition known_pubkey :: "'g StateInner \<Rightarrow> SignedTransaction \<Rightarrow> string option" where
  "known_pubkey s tx = Option.bind (hm_get (si_accounts s) (st_from tx)) acc_ecdsa_public_key"

text \<open>The first section, under a read lock.\<close>

definition user_checks ::
  "'g petgraph \<Rightarrow> contract_env \<Rightarrow> (string list \<Rightarrow> string list) \<Rightarrow> u64 \<Rightarrow> u64 \<Rightarrow> SignedTransaction \<Rightarrow> 'g StateInner \<Rightarrow> AdmitError option" where
  "user_checks G cx iter now_ms min_stake tx s = first_error
     [check_gas_price (si_current_gas_price s) tx, check_partition s tx, check_stake_minimum min_stake tx, check_memo tx,
      check_references tx, check_contract cx tx,
      require (tx_timestamp (st_tx tx) \<le> now_ms + MAX_FUTURE_TIMESTAMP_MS) TimestampInFuture,
      check_account G iter s tx]"

section \<open>Admission\<close>

definition client_parents :: "SignedTransaction \<Rightarrow> string list" where
  "client_parents tx = map normalize_parent (tx_parents (st_tx tx))"

text \<open>Parents that are not in the DAG are dropped; without any, two tips take their place.\<close>

definition choose_parents ::
  "'g petgraph \<Rightarrow> (string list \<Rightarrow> string list) \<Rightarrow> 'g StateInner \<Rightarrow> SignedTransaction \<Rightarrow> string list" where
  "choose_parents G iter s tx =
     (let valid = filter (\<lambda>p. p \<noteq> [] \<and> get_node G (si_dag s) p \<noteq> None) (client_parents tx)
      in if valid = [] then take 2 (iter (dag_tips (si_dag s))) else valid)"

definition new_dag_node :: "SignedTransaction \<Rightarrow> string list \<Rightarrow> f64 \<Rightarrow> u64 \<Rightarrow> DagNode" where
  "new_dag_node tx parents weight now_ms =
     \<lparr>dn_hash = st_hash tx, dn_tx = tx, dn_parents = parents, dn_children = [], dn_weight = weight, dn_finalized = False,
      dn_checkpoint_height = None, dn_received_at_ms = Some now_ms, dn_partition_epoch = None, dn_rolled_back = False,
      dn_fast_path_cert = None\<rparr>"

definition sender_weight :: "float_env \<Rightarrow> u64 \<Rightarrow> 'g StateInner \<Rightarrow> SignedTransaction \<Rightarrow> f64" where
  "sender_weight fe now_secs s tx =
     (case hm_get (si_accounts s) (st_from tx) of Some a \<Rightarrow> calculate_account_weight fe a now_secs | None \<Rightarrow> Fin 1)"

datatype TransactionResult = Accepted | Buffered

text \<open>The write section: the checks are repeated, the node added, the key bound to the account.\<close>

definition recheck ::
  "'g petgraph \<Rightarrow> (string list \<Rightarrow> string list) \<Rightarrow> SignedTransaction \<Rightarrow> 'g StateInner \<Rightarrow> AdmitError option" where
  "recheck G iter tx s =
     (if \<not> is_system_transaction tx then first_error [check_funds G iter s tx, check_nonce G iter s tx]
      else if st_from tx = ''faucet'' then
        (let effective_nonce = get_effective_nonce G iter s (st_from tx)
         in require (st_nonce tx = effective_nonce) (FaucetNonceConflict effective_nonce (st_nonce tx)))
      else None)"

definition bind_pubkey :: "string option \<Rightarrow> SignedTransaction \<Rightarrow> 'g StateInner \<Rightarrow> 'g StateInner \<times> (AdmitError + TransactionResult)" where
  "bind_pubkey bound_pubkey tx s =
     (case (bound_pubkey, hm_get (si_accounts s) (st_from tx)) of
        (Some pk, Some account) \<Rightarrow>
          (case acc_ecdsa_public_key account of
             None \<Rightarrow> (s\<lparr>si_accounts := hm_insert (st_from tx) (account\<lparr>acc_ecdsa_public_key := Some pk\<rparr>) (si_accounts s)\<rparr>, Inr Accepted)
           | Some existing \<Rightarrow> if to_lowercase existing = to_lowercase pk then (s, Inr Accepted) else (s, Inl KeyMismatch))
      | _ \<Rightarrow> (s, Inr Accepted))"

definition admit_commit ::
  "'g petgraph \<Rightarrow> (string list \<Rightarrow> string list) \<Rightarrow> u64 \<Rightarrow> SignedTransaction \<Rightarrow> DagNode \<Rightarrow> string option \<Rightarrow> 'g StateInner
   \<Rightarrow> 'g StateInner \<times> (AdmitError + TransactionResult)" where
  "admit_commit G iter now_ms tx node bound_pubkey s =
     (case recheck G iter tx s of
        Some e \<Rightarrow> (s, Inl e)
      | None \<Rightarrow>
          (case add_node G now_ms node (si_dag s) of
             Inl e \<Rightarrow> (s, Inl (DagRejected e))
           | Inr d \<Rightarrow> bind_pubkey bound_pubkey tx (s\<lparr>si_dag := d\<rparr>)))"

text \<open>
  What one admission reads before it writes: the state in which it looks up the sender's key, the
  state and the clock of its checks with the minimum stake of the rewards service, the state and
  the clock (in seconds) of the weight and the parents, the clock for the time of reception and,
  for the pruning of a full DAG, the clock under the write lock; and the iteration orders met.
\<close>

record 'g admit_readings =
  ar_key_state :: "'g StateInner"
  ar_check_state :: "'g StateInner"
  ar_check_order :: "string list \<Rightarrow> string list"
  ar_check_ms :: u64
  ar_min_stake :: u64
  ar_weight_secs :: u64
  ar_parent_state :: "'g StateInner"
  ar_parent_order :: "string list \<Rightarrow> string list"
  ar_received_ms :: u64
  ar_write_order :: "string list \<Rightarrow> string list"
  ar_write_ms :: u64

definition admit_node :: "float_env \<Rightarrow> 'g petgraph \<Rightarrow> 'g admit_readings \<Rightarrow> SignedTransaction \<Rightarrow> DagNode" where
  "admit_node fe G r tx =
     new_dag_node tx (choose_parents G (ar_parent_order r) (ar_parent_state r) tx)
       (sender_weight fe (ar_weight_secs r) (ar_parent_state r) tx) (ar_received_ms r)"

definition admit_transaction_inner ::
  "crypto_env \<Rightarrow> ecdsa_env \<Rightarrow> float_env \<Rightarrow> 'g petgraph \<Rightarrow> contract_env \<Rightarrow> 'g admit_readings
   \<Rightarrow> SignedTransaction \<Rightarrow> string option \<Rightarrow> bool \<Rightarrow> 'g StateInner \<Rightarrow> 'g StateInner \<times> (AdmitError + TransactionResult)" where
  "admit_transaction_inner env ec fe G cx r tx provided_pubkey_hex allow_system s =
     (let commit = (\<lambda>bound_pubkey. admit_commit G (ar_write_order r) (ar_write_ms r) tx (admit_node fe G r tx) bound_pubkey s)
      in if is_system_transaction tx
         then (if allow_system then commit None else (s, Inl SystemTxRejected))
         else case verify_user_tx_authenticity env ec tx provided_pubkey_hex (known_pubkey (ar_key_state r) tx) of
           Inl e \<Rightarrow> (s, Inl e)
         | Inr pubkey \<Rightarrow>
             (case user_checks G cx (ar_check_order r) (ar_check_ms r) (ar_min_stake r) tx (ar_check_state r) of
                Some e \<Rightarrow> (s, Inl e)
              | None \<Rightarrow> commit (Some pubkey)))"

definition add_transaction_authenticated ::
  "crypto_env \<Rightarrow> ecdsa_env \<Rightarrow> float_env \<Rightarrow> 'g petgraph \<Rightarrow> contract_env \<Rightarrow> 'g admit_readings
   \<Rightarrow> SignedTransaction \<Rightarrow> string option \<Rightarrow> 'g StateInner \<Rightarrow> 'g StateInner \<times> (AdmitError + TransactionResult)" where
  "add_transaction_authenticated env ec fe G cx r tx provided_pubkey_hex s =
     (case reject_external_system_transaction tx of
        Inl e \<Rightarrow> (s, Inl e)
      | Inr _ \<Rightarrow> admit_transaction_inner env ec fe G cx r tx provided_pubkey_hex False s)"

definition add_local_system_transaction ::
  "crypto_env \<Rightarrow> ecdsa_env \<Rightarrow> float_env \<Rightarrow> 'g petgraph \<Rightarrow> contract_env \<Rightarrow> 'g admit_readings
   \<Rightarrow> SignedTransaction \<Rightarrow> 'g StateInner \<Rightarrow> 'g StateInner \<times> (AdmitError + TransactionResult)" where
  "add_local_system_transaction env ec fe G cx r tx s =
     (if \<not> is_system_transaction tx then (s, Inl NotASystemTx)
      else admit_transaction_inner env ec fe G cx r tx None True s)"

definition add_transaction ::
  "crypto_env \<Rightarrow> ecdsa_env \<Rightarrow> float_env \<Rightarrow> 'g petgraph \<Rightarrow> contract_env \<Rightarrow> 'g admit_readings
   \<Rightarrow> SignedTransaction \<Rightarrow> 'g StateInner \<Rightarrow> 'g StateInner \<times> (AdmitError + TransactionResult)" where
  "add_transaction env ec fe G cx r tx s =
     (if is_system_transaction tx then add_local_system_transaction env ec fe G cx r tx s
      else add_transaction_authenticated env ec fe G cx r tx None s)"

section \<open>Transactions from peers\<close>

definition existing_parents :: "'g petgraph \<Rightarrow> 'g Dag \<Rightarrow> SignedTransaction \<Rightarrow> string list" where
  "existing_parents G d tx = filter (\<lambda>p. p = ''genesis'' \<or> get_node G d p \<noteq> None) (client_parents tx)"

definition add_transaction_dag_only :: "'g petgraph \<Rightarrow> u64 \<Rightarrow> SignedTransaction \<Rightarrow> 'g StateInner \<Rightarrow> AdmitError + 'g StateInner" where
  "add_transaction_dag_only G now_ms tx s =
     (if get_node G (si_dag s) (st_hash tx) \<noteq> None then Inr s
      else case add_node G now_ms (new_dag_node tx (existing_parents G (si_dag s) tx) (Fin 1) now_ms) (si_dag s) of
        Inl e \<Rightarrow> Inl (DagRejected e)
      | Inr d \<Rightarrow> Inr (s\<lparr>si_dag := d\<rparr>))"

definition add_transaction_from_sync ::
  "crypto_env \<Rightarrow> ecdsa_env \<Rightarrow> 'g petgraph \<Rightarrow> u64 \<Rightarrow> SignedTransaction \<Rightarrow> 'g StateInner \<Rightarrow> AdmitError + 'g StateInner" where
  "add_transaction_from_sync env ec G now_ms tx s =
     (case (is_system_transaction tx, known_pubkey s tx) of
        (False, Some pk) \<Rightarrow>
          (case verify_user_tx_authenticity env ec tx None (Some pk) of
             Inl e \<Rightarrow> Inl e
           | Inr _ \<Rightarrow> add_transaction_dag_only G now_ms tx s)
      | _ \<Rightarrow> add_transaction_dag_only G now_ms tx s)"

definition gossip_checks :: "SignedTransaction \<Rightarrow> 'g StateInner \<Rightarrow> AdmitError option" where
  "gossip_checks tx s = first_error
     [require (st_nonce tx \<ge> account_nonce_of s (st_from tx)) (StaleNonce (account_nonce_of s (st_from tx)) (st_nonce tx)),
      check_gas_price (si_current_gas_price s) tx]"

definition add_transaction_from_gossip_authenticated ::
  "crypto_env \<Rightarrow> ecdsa_env \<Rightarrow> 'g petgraph \<Rightarrow> u64 \<Rightarrow> SignedTransaction \<Rightarrow> string option \<Rightarrow> 'g StateInner \<Rightarrow> AdmitError + 'g StateInner" where
  "add_transaction_from_gossip_authenticated env ec G now_ms tx provided_pubkey_hex s =
     (if is_system_transaction tx then
        (case validate_gossip_system_transaction tx (\<lambda>_. hm_contains (si_validators s) (st_from tx)) of
           Inl e \<Rightarrow> Inl e
         | Inr _ \<Rightarrow> add_transaction_dag_only G now_ms tx s)
      else case verify_user_tx_authenticity env ec tx provided_pubkey_hex (known_pubkey s tx) of
        Inl e \<Rightarrow> Inl e
      | Inr pk \<Rightarrow>
          (case gossip_checks tx s of
             Some e \<Rightarrow> Inl e
           | None \<Rightarrow>
               (case add_transaction_dag_only G now_ms tx s of
                  Inl e \<Rightarrow> Inl e
                | Inr s \<Rightarrow> Inr (s\<lparr>si_accounts := hm_modify (st_from tx)
                    (\<lambda>a. if acc_ecdsa_public_key a = None then a\<lparr>acc_ecdsa_public_key := Some pk\<rparr> else a) (si_accounts s)\<rparr>))))"

definition force_add_step :: "'g petgraph \<Rightarrow> u64 \<Rightarrow> SignedTransaction \<Rightarrow> 'g StateInner \<times> nat \<Rightarrow> 'g StateInner \<times> nat" where
  "force_add_step G now_ms tx = (\<lambda>(s, added).
     if get_node G (si_dag s) (st_hash tx) \<noteq> None then (s, added)
     else case add_node G now_ms (new_dag_node tx (existing_parents G (si_dag s) tx) (Fin 1) now_ms) (si_dag s) of
       Inl _ \<Rightarrow> (s, added)
     | Inr d \<Rightarrow> (s\<lparr>si_dag := d\<rparr>, added + 1))"

definition force_add_transactions_batch_for_vote ::
  "'g petgraph \<Rightarrow> u64 \<Rightarrow> SignedTransaction list \<Rightarrow> 'g StateInner \<Rightarrow> 'g StateInner \<times> nat" where
  "force_add_transactions_batch_for_vote G now_ms txs s = fold (force_add_step G now_ms) txs (s, 0)"

section \<open>Many transactions at once\<close>

definition batch_check :: "'g petgraph \<Rightarrow> (string list \<Rightarrow> string list) \<Rightarrow> u64 \<Rightarrow> 'g StateInner \<Rightarrow> SignedTransaction \<Rightarrow> AdmitError option" where
  "batch_check G iter min_stake s tx =
     (let gas_fee = tx_gas_fee (si_current_gas_price s) tx;
          required_balance = (if st_kind tx \<in> {Some Unstake, Some ClaimRewards} then gas_fee else st_amount tx + gas_fee);
          effective_balance = get_effective_balance G iter s (st_from tx)
      in first_error
           [check_stake_minimum min_stake tx,
            require (st_from tx = ''genesis'' \<or> hm_contains (si_accounts s) (st_from tx)) NoSuchAccount,
            require (st_from tx = ''genesis'' \<or> effective_balance \<ge> required_balance) (InsufficientBalance effective_balance required_balance)])"

definition batch_add_step ::
  "float_env \<Rightarrow> 'g petgraph \<Rightarrow> (string list \<Rightarrow> string list) \<Rightarrow> u64 \<Rightarrow> u64 \<Rightarrow> 'g StateInner \<Rightarrow> SignedTransaction
   \<Rightarrow> 'g StateInner \<times> (AdmitError + unit) list \<Rightarrow> 'g StateInner \<times> (AdmitError + unit) list" where
  "batch_add_step fe G iter now_ms min_stake s0 tx = (\<lambda>(s, results).
     case batch_check G iter min_stake s0 tx of
       Some e \<Rightarrow> (s, results @ [Inl e])
     | None \<Rightarrow>
         (case add_node G now_ms (new_dag_node tx (choose_parents G iter s tx) (sender_weight fe (now_ms div 1000) s0 tx) now_ms) (si_dag s) of
            Inl e \<Rightarrow> (s, results @ [Inl (DagRejected e)])
          | Inr d \<Rightarrow> (s\<lparr>si_dag := d\<rparr>, results @ [Inr ()])))"

text \<open>All checks are made on the state before the first transaction is added.\<close>

definition add_transactions_batch ::
  "float_env \<Rightarrow> 'g petgraph \<Rightarrow> (string list \<Rightarrow> string list) \<Rightarrow> u64 \<Rightarrow> u64 \<Rightarrow> SignedTransaction list \<Rightarrow> 'g StateInner
   \<Rightarrow> 'g StateInner \<times> (AdmitError + unit) list" where
  "add_transactions_batch fe G iter now_ms min_stake txs s = fold (batch_add_step fe G iter now_ms min_stake s) txs (s, [])"

end
