(* ===== verification/Rinku_Execution_Properties.thy ===== *)
theory Rinku_Execution_Properties
  imports Rinku_Execution
begin

text \<open>
  A batch is a valid sequential run of the ledger: the specification is \<open>exec_run\<close>, which
  executes transactions one by one, each with the nonce its sender has reached and paid for
  out of its balance, and the batch with its deferrals and retries refines it.
\<close>

section \<open>The sequential ledger\<close>

definition executable :: "u64 \<Rightarrow> SignedTransaction \<Rightarrow> 'g StateInner \<Rightarrow> bool" where
  "executable price tx s \<longleftrightarrow> st_kind tx \<noteq> Some Consolidation \<and>
     (case hm_get (si_accounts s) (st_from tx) of
        None \<Rightarrow> True
      | Some a \<Rightarrow> st_nonce tx = acc_nonce a \<and> tx_cost price tx \<le> acc_balance a)"

fun exec_run :: "bool \<Rightarrow> u64 \<Rightarrow> SignedTransaction list \<Rightarrow> 'g StateInner \<Rightarrow> 'g StateInner option" where
  "exec_run part price [] s = Some s"
| "exec_run part price (tx # txs) s =
     (if executable price tx s then exec_run part price txs (apply_tx part price tx s) else None)"

lemma exec_run_append:
  "exec_run part price (xs @ ys) s = Option.bind (exec_run part price xs s) (exec_run part price ys)"
  by (induction xs arbitrary: s) auto

abbreviation is_special :: "SignedTransaction \<Rightarrow> bool" where
  "is_special tx \<equiv> st_kind tx \<notin> {None, Some Consolidation}"

text \<open>What the batch has done so far is the run \<open>trace\<close> of transactions out of \<open>M\<close>.\<close>

definition batch_ok ::
  "bool \<Rightarrow> u64 \<Rightarrow> 'g StateInner \<Rightarrow> SignedTransaction multiset \<Rightarrow> SignedTransaction list \<Rightarrow> 'g batch \<Rightarrow> bool" where
  "batch_ok part price s M trace b \<longleftrightarrow>
     exec_run part price trace s = Some (bt_state b)
     \<and> bt_executed_count b = length trace \<and> set (bt_executed_hashes b) = st_hash ` set trace
     \<and> bt_special_txs b = filter is_special trace
     \<and> mset trace + mset (bt_new_deferred b) + mset (bt_balance_deferred b) \<subseteq># M"

lemma batch_ok_mono: "batch_ok part price s M trace b \<Longrightarrow> M \<subseteq># N \<Longrightarrow> batch_ok part price s N trace b"
  unfolding batch_ok_def by (metis subset_mset.trans)

lemma batch_ok_execute:
  assumes "batch_ok part price s M trace b" "executable price tx (bt_state b)"
  shows "batch_ok part price s (add_mset tx M) (trace @ [tx]) (execute_in_batch part price tx b)"
  using assms by (auto simp: batch_ok_def execute_in_batch_def exec_run_append add.assoc)

lemma batch_ok_defer: "batch_ok part price s M trace b \<Longrightarrow> batch_ok part price s (add_mset tx M) trace (defer_tx tx b)"
  by (simp add: batch_ok_def defer_tx_def add.assoc)

lemma batch_ok_skip: "batch_ok part price s M trace b \<Longrightarrow> batch_ok part price s (add_mset tx M) trace b"
  by (erule batch_ok_mono) (simp add: subseteq_mset_def)

lemma batch_ok_gap [simp]:
  "batch_ok part price s M trace (b\<lparr>bt_gap_skipped_senders := x\<rparr>) = batch_ok part price s M trace b"
  by (simp add: batch_ok_def)

lemma batch_step_ok:
  assumes "batch_ok part price s M trace b"
  shows "\<exists>trace'. batch_ok part price s (add_mset tx M) trace' (batch_step available part price tx b)"
proof -
  note rules = batch_ok_skip [OF assms, of tx] batch_ok_defer [OF assms, of tx]
    batch_ok_defer [of part price s M trace "b\<lparr>bt_gap_skipped_senders := g\<rparr>" tx for g]
    batch_ok_execute [OF assms, of tx]
  have bal: "batch_ok part price s (add_mset tx M) trace (b\<lparr>bt_balance_deferred := bt_balance_deferred b @ [tx]\<rparr>)"
    using assms by (simp add: batch_ok_def add.assoc)
  show ?thesis
  proof (cases "hm_get (si_accounts (bt_state b)) (st_from tx)")
    case None
    then have "executable price tx (bt_state b)" if "st_kind tx \<noteq> Some Consolidation" using that by (simp add: executable_def)
    then show ?thesis using rules(1,2,4) None by (auto simp: batch_step_def)
  next
    case (Some a)
    then have "executable price tx (bt_state b)"
      if "st_kind tx \<noteq> Some Consolidation" "st_nonce tx = acc_nonce a" "\<not> acc_balance a < tx_cost price tx"
      using that by (simp add: executable_def not_less)
    then show ?thesis using rules bal assms Some by (auto simp: batch_step_def split: option.splits)
  qed
qed

lemma batch_fold_ok:
  "batch_ok part price s M trace b \<Longrightarrow>
   \<exists>trace'. batch_ok part price s (M + mset txs) trace' (fold (batch_step available part price) txs b)"
proof (induction txs arbitrary: M trace b)
  case (Cons tx txs)
  from batch_step_ok [OF Cons.prems] obtain trace' where
    "batch_ok part price s (add_mset tx M) trace' (batch_step available part price tx b)" by blast
  from Cons.IH [OF this] show ?case by simp
qed auto

text \<open>A retry pass keeps the run valid; what it does not execute stays deferred.\<close>

lemma execute_in_batch_deferred [simp]:
  "execute_in_batch part price tx (b\<lparr>bt_balance_deferred := y\<rparr>) = (execute_in_batch part price tx b)\<lparr>bt_balance_deferred := y\<rparr>"
  "bt_state (b\<lparr>bt_balance_deferred := y\<rparr>) = bt_state b"
  by (simp_all add: execute_in_batch_def)

lemma retry_step_cases:
  assumes "st_kind tx \<noteq> Some Consolidation"
  shows "retry_step part price tx (b, still, progress) \<in> {(b, still, progress), (b, still @ [tx], progress)}
    \<or> retry_step part price tx (b, still, progress) = (execute_in_batch part price tx b, still, True)
      \<and> executable price tx (bt_state b)"
  using assms by (simp add: retry_step_def executable_def not_less split: option.split)

lemma retry_fold_ok:
  assumes "batch_ok part price s M trace (b\<lparr>bt_balance_deferred := still @ txs\<rparr>)"
    and "\<forall>tx \<in> set txs. st_kind tx \<noteq> Some Consolidation"
    and "fold (retry_step part price) txs (b, still, progress) = (b', still', progress')"
  shows "\<exists>trace'. batch_ok part price s M trace' (b'\<lparr>bt_balance_deferred := still'\<rparr>)
    \<and> set still' \<subseteq> set still \<union> set txs"
  using assms
proof (induction txs arbitrary: b still progress trace)
  case (Cons tx txs)
  let ?b = "b\<lparr>bt_balance_deferred := still @ txs\<rparr>"
  have drop: "\<exists>N. M = add_mset tx N \<and> batch_ok part price s N trace ?b"
  proof -
    from Cons.prems(1) have sub: "mset trace + mset (bt_new_deferred b) + mset (still @ tx # txs) \<subseteq># M" by (simp add: batch_ok_def)
    then have "tx \<in># M" by (auto dest: mset_subset_eqD)
    then obtain N where N: "M = add_mset tx N" by (metis insert_DiffM)
    then show ?thesis using Cons.prems(1) by (auto simp: batch_ok_def add.assoc)
  qed
  then obtain N where N: "M = add_mset tx N" "batch_ok part price s N trace ?b" by blast
  consider (skip) "retry_step part price tx (b, still, progress) = (b, still, progress)"
    | (keep) "retry_step part price tx (b, still, progress) = (b, still @ [tx], progress)"
    | (exec) "retry_step part price tx (b, still, progress) = (execute_in_batch part price tx b, still, True)"
        "executable price tx (bt_state b)"
    using retry_step_cases [of tx part price b still progress] Cons.prems(2) by auto
  then show ?case
  proof cases
    case skip
    then show ?thesis using Cons.IH [OF batch_ok_mono [OF N(2), of M]] Cons.prems(2,3) N(1) by auto
  next
    case keep
    have "batch_ok part price s M trace (b\<lparr>bt_balance_deferred := (still @ [tx]) @ txs\<rparr>)" using Cons.prems(1) by simp
    from Cons.IH [OF this] keep Cons.prems(2,3) show ?thesis by auto
  next
    case exec
    have "batch_ok part price s M (trace @ [tx]) ((execute_in_batch part price tx b)\<lparr>bt_balance_deferred := still @ txs\<rparr>)"
      using batch_ok_execute [OF N(2), of tx] exec(2) unfolding N(1) execute_in_batch_deferred .
    from Cons.IH [OF this] exec(1) Cons.prems(2,3) show ?thesis by auto
  qed
qed auto

lemma retry_passes_ok:
  assumes "batch_ok part price s M trace b" "\<forall>tx \<in> set (bt_balance_deferred b). st_kind tx \<noteq> Some Consolidation"
  shows "\<exists>trace'. batch_ok part price s M trace' (retry_passes part price n b)"
  using assms
proof (induction n arbitrary: b trace)
  case (Suc n)
  let ?txs = "sort_key tx_order (bt_balance_deferred b)"
  obtain b' still' progress' where f: "fold (retry_step part price) ?txs (b, [], False) = (b', still', progress')"
    by (metis prod_cases3)
  have "batch_ok part price s M trace (b\<lparr>bt_balance_deferred := [] @ ?txs\<rparr>)" using Suc.prems(1) by (simp add: batch_ok_def)
  from retry_fold_ok [OF this _ f] Suc.prems(2) obtain trace' where
    ok: "batch_ok part price s M trace' (b'\<lparr>bt_balance_deferred := still'\<rparr>)" and "set still' \<subseteq> set (bt_balance_deferred b)" by auto
  then show ?case using Suc.IH [OF ok] Suc.prems by (auto simp: f Let_def)
qed auto


lemma batch_step_deferred_kind:
  "\<forall>t \<in> set (bt_balance_deferred b). st_kind t \<noteq> Some Consolidation \<Longrightarrow>
   \<forall>t \<in> set (bt_balance_deferred (batch_step available part price tx b)). st_kind t \<noteq> Some Consolidation"
  by (auto simp: batch_step_def defer_tx_def execute_in_batch_def split: option.splits)

lemma batch_fold_deferred_kind:
  "\<forall>t \<in> set (bt_balance_deferred b). st_kind t \<noteq> Some Consolidation \<Longrightarrow>
   \<forall>t \<in> set (bt_balance_deferred (fold (batch_step available part price) txs b)). st_kind t \<noteq> Some Consolidation"
proof (induction txs arbitrary: b)
  case (Cons tx txs)
  from Cons.IH [OF batch_step_deferred_kind [OF Cons.prems]] show ?case by simp
qed simp

lemma batch_trace:
  assumes "execute_batch_inline itern iter txs available s = (s', r)"
  shows "\<exists>trace. exec_run (is_partitioned s) (si_current_gas_price s) trace (fst (bridge_nonces itern available s)) = Some s'
    \<and> mset trace + mset (br_new_deferred r) \<subseteq># mset txs
    \<and> br_executed_count r = length trace \<and> set (br_executed_hashes r) = st_hash ` set trace
    \<and> br_special_txs r = filter is_special trace"
proof -
  let ?part = "is_partitioned s" and ?price = "si_current_gas_price s"
  obtain s0 bridged where br: "bridge_nonces itern available s = (s0, bridged)" by (cases "bridge_nonces itern available s")
  let ?b0 = "\<lparr>bt_state = s0, bt_executed_count = 0, bt_executed_hashes = [], bt_special_txs = [], bt_new_deferred = [],
      bt_gap_skipped_senders = [], bt_changed_addrs = remdups bridged, bt_balance_deferred = []\<rparr>"
  let ?b1 = "fold (batch_step available ?part ?price) txs ?b0"
  let ?b2 = "retry_passes ?part ?price MAX_CROSS_SENDER_PASSES ?b1"
  have "batch_ok ?part ?price s0 {#} [] ?b0" by (simp add: batch_ok_def)
  from batch_fold_ok [OF this] obtain t1 where "batch_ok ?part ?price s0 (mset txs) t1 ?b1" by auto
  moreover have "\<forall>t \<in> set (bt_balance_deferred ?b1). st_kind t \<noteq> Some Consolidation" by (rule batch_fold_deferred_kind) simp
  ultimately obtain trace where ok: "batch_ok ?part ?price s0 (mset txs) trace ?b2" using retry_passes_ok by blast
  have r: "s' = bt_state ?b2" "br_executed_count r = bt_executed_count ?b2" "br_executed_hashes r = bt_executed_hashes ?b2"
    "br_special_txs r = bt_special_txs ?b2" "br_new_deferred r = bt_new_deferred ?b2"
    using assms by (auto simp: execute_batch_inline_def br Let_def)
  have "mset trace + mset (br_new_deferred r) \<subseteq># mset txs"
    using ok mset_subset_eq_add_left [of "mset trace + mset (bt_new_deferred ?b2)" "mset (bt_balance_deferred ?b2)"]
    unfolding batch_ok_def r by (blast intro: subset_mset.trans)
  with ok show ?thesis by (intro exI [of _ trace]) (simp add: batch_ok_def r br)
qed

text \<open>
  C4: a batch refines the sequential ledger: the state it leaves is the state after running
  some of its transactions one by one, each executed at most once, with the nonce its sender
  had reached and covered by its balance; the count, the hashes and the special transactions
  it reports are those of that run, and what it defers was not run.
\<close>
theorem batch_refines_ledger:
  "let (s', r) = execute_batch_inline itern iter txs available s
   in \<exists>trace. exec_run (is_partitioned s) (si_current_gas_price s) trace (fst (bridge_nonces itern available s)) = Some s'
     \<and> mset trace + mset (br_new_deferred r) \<subseteq># mset txs
     \<and> br_executed_count r = length trace \<and> set (br_executed_hashes r) = st_hash ` set trace
     \<and> br_special_txs r = filter is_special trace"
  using batch_trace [of itern iter txs available s] by (auto split: prod.splits)

section \<open>Nonces\<close>

lemma apply_tx_account:
  assumes "hm_get (si_accounts s) x = Some a"
  shows "\<exists>a'. hm_get (si_accounts (apply_tx part price tx s)) x = Some a'
    \<and> acc_nonce a' = (if st_from tx = x then st_nonce tx + 1 else acc_nonce a)"
  using assms
  by (auto simp: apply_tx_def Let_def credit_account_def hm_get_entry hm_get_modify debit_sender_def)

lemma exec_run_nonces:
  assumes "exec_run part price trace s = Some s'" "hm_get (si_accounts s) x = Some a"
  shows "\<exists>a'. hm_get (si_accounts s') x = Some a'
    \<and> acc_nonce a' = acc_nonce a + of_nat (length (filter (\<lambda>tx. st_from tx = x) trace))
    \<and> map st_nonce (filter (\<lambda>tx. st_from tx = x) trace)
       = map (\<lambda>i. acc_nonce a + of_nat i) [0 ..< length (filter (\<lambda>tx. st_from tx = x) trace)]"
  using assms
proof (induction trace arbitrary: s a)
  case (Cons tx trace)
  from Cons.prems(1) have ex: "executable price tx s" and run: "exec_run part price trace (apply_tx part price tx s) = Some s'"
    by (auto split: if_splits)
  obtain a1 where a1: "hm_get (si_accounts (apply_tx part price tx s)) x = Some a1"
    "acc_nonce a1 = (if st_from tx = x then st_nonce tx + 1 else acc_nonce a)"
    using apply_tx_account [OF Cons.prems(2)] by blast
  let ?n = "length (filter (\<lambda>tx. st_from tx = x) trace)"
  note IH = Cons.IH [OF run a1(1)]
  show ?case
  proof (cases "st_from tx = x")
    case True
    have n: "acc_nonce a1 = acc_nonce a + 1" "st_nonce tx = acc_nonce a"
      using ex True Cons.prems(2) a1(2) by (auto simp: executable_def)
    have "map (\<lambda>i. acc_nonce a + of_nat i) [0 ..< Suc ?n] = acc_nonce a # map (\<lambda>i. acc_nonce a + 1 + of_nat i) [0 ..< ?n]"
      by (simp add: upt_rec [of 0 "Suc ?n"] map_Suc_upt [symmetric] comp_def ac_simps del: upt_Suc)
    then show ?thesis using IH True n by (auto simp: ac_simps simp del: upt_Suc)
  next
    case False
    then show ?thesis using IH a1(2) by simp
  qed
qed simp

lemma mset_filter_hashes:
  assumes "distinct (map st_hash txs)" "mset trace \<subseteq># mset txs"
  shows "mset (filter (\<lambda>tx. st_hash tx \<in> st_hash ` set trace) txs) = mset trace"
proof -
  have sub: "set trace \<subseteq> set txs" using assms(2) by (metis set_mset_mono set_mset_mset)
  have d: "distinct txs" using assms(1) by (simp add: distinct_map)
  obtain ys where "mset txs = mset (trace @ ys)" using assms(2) by (metis ex_mset mset_append mset_subset_eq_exists_conv)
  with d have "distinct trace" by (metis distinct_append mset_eq_imp_distinct_iff)
  moreover have "set (filter (\<lambda>tx. st_hash tx \<in> st_hash ` set trace) txs) = set trace"
    using sub assms(1) by (auto simp: distinct_map inj_on_def)
  ultimately show ?thesis using d set_eq_iff_mset_eq_distinct distinct_filter by metis
qed

text \<open>
  C8: no nonce is executed twice: in a batch of transactions with different hashes the
  executed ones of an account carry consecutive nonces from the one the account had reached
  (after the fast path), and the account ends just behind the last of them.
\<close>
theorem batch_nonces_consecutive:
  assumes "execute_batch_inline itern iter txs available s = (s', r)" "distinct (map st_hash txs)"
    and "hm_get (si_accounts (fst (bridge_nonces itern available s))) x = Some a"
  shows "let executed = filter (\<lambda>tx. st_from tx = x \<and> st_hash tx \<in> set (br_executed_hashes r)) txs
    in mset (map st_nonce executed) = mset (map (\<lambda>i. acc_nonce a + of_nat i) [0 ..< length executed])
      \<and> map_option acc_nonce (hm_get (si_accounts s') x) = Some (acc_nonce a + of_nat (length executed))"
proof -
  from batch_trace [OF assms(1)] obtain trace where
    run: "exec_run (is_partitioned s) (si_current_gas_price s) trace (fst (bridge_nonces itern available s)) = Some s'"
    and sub: "mset trace \<subseteq># mset txs" and h: "set (br_executed_hashes r) = st_hash ` set trace"
    by (blast intro: subset_mset.trans [OF mset_subset_eq_add_left])
  let ?executed = "filter (\<lambda>tx. st_from tx = x \<and> st_hash tx \<in> set (br_executed_hashes r)) txs"
  have "mset ?executed = filter_mset (\<lambda>tx. st_from tx = x) (mset (filter (\<lambda>tx. st_hash tx \<in> st_hash ` set trace) txs))"
    by (simp add: h filter_filter_mset conj_commute)
  also have "\<dots> = mset (filter (\<lambda>tx. st_from tx = x) trace)" using mset_filter_hashes [OF assms(2) sub] by simp
  finally have m: "mset ?executed = mset (filter (\<lambda>tx. st_from tx = x) trace)" .
  then have "length ?executed = length (filter (\<lambda>tx. st_from tx = x) trace)" by (metis size_mset)
  moreover have "mset (map st_nonce ?executed) = mset (map st_nonce (filter (\<lambda>tx. st_from tx = x) trace))"
    unfolding mset_map m ..
  ultimately show ?thesis using exec_run_nonces [OF run assms(3)] unfolding Let_def by (metis option.map(2))
qed


section \<open>Conservation\<close>

definition held :: "(string, Account) hash_map \<Rightarrow> nat" where
  "held accounts = sum_list (map (\<lambda>e. unat (acc_balance (snd e))) accounts)"

abbreviation balance_of :: "(string, Account) hash_map \<Rightarrow> string \<Rightarrow> nat" where
  "balance_of accounts x \<equiv> unat (unwrap_or (map_option acc_balance (hm_get accounts x)) 0)"

lemma held_insert: "hm_wf m \<Longrightarrow> held (hm_insert k v m) + balance_of m k = held m + unat (acc_balance v)"
proof (induction m)
  case (Cons e m)
  obtain k' v' where e: "e = (k', v')" by (cases e)
  have "hm_wf m" "k' \<notin> fst ` set m" using Cons.prems by (auto simp: hm_wf_def e)
  then show ?case using Cons.IH by (auto simp: e hm_insert_Cons held_def)
qed (simp add: held_def)

lemma balance_le_held: "balance_of m x \<le> held m"
  by (induction m) (auto simp: held_def)

lemma hm_wf_apply_tx: "hm_wf (si_accounts s) \<Longrightarrow> hm_wf (si_accounts (apply_tx part price tx s))"
  by (simp add: apply_tx_def Let_def credit_account_def)

text \<open>What leaves the balances when a transaction is executed: its gas and a staked amount.\<close>

definition tx_charge :: "u64 \<Rightarrow> SignedTransaction \<Rightarrow> nat" where
  "tx_charge price tx = unat (tx_gas_fee price tx) + (if st_kind tx = Some Stake then unat (st_amount tx) else 0)"

abbreviation fits :: "u64 \<Rightarrow> SignedTransaction \<Rightarrow> bool" where
  "fits price tx \<equiv> unat (st_amount tx) + unat (tx_gas_fee price tx) < 2 ^ 64"

lemma apply_tx_held:
  assumes "hm_wf (si_accounts s)" "hm_get (si_accounts s) (st_from tx) = Some a" "executable price tx s"
    "fits price tx" "held (si_accounts s) < 2 ^ 64"
  shows "held (si_accounts (apply_tx part price tx s)) + tx_charge price tx = held (si_accounts s)"
proof -
  let ?c = "tx_cost price tx" and ?m = "si_accounts s" and ?f = "debit_sender part (tx_cost price tx) (st_nonce tx)"
  let ?m1 = "hm_modify (st_from tx) ?f ?m"
  have c: "?c \<le> acc_balance a" using assms(2,3) by (simp add: executable_def)
  have "acc_balance (?f a) = acc_balance a - ?c" by (simp add: debit_sender_def Let_def)
  then have "unat (acc_balance (?f a)) + unat ?c = unat (acc_balance a)"
    using c by (simp add: unat_sub word_le_nat_alt)
  then have m1: "held ?m1 + unat ?c = held ?m" using held_insert [OF assms(1), of "st_from tx" "?f a"] assms(2) by (simp add: hm_modify_def)
  show ?thesis
  proof (cases "pays_recipient tx")
    case True
    then have cost: "unat ?c = unat (st_amount tx) + unat (tx_gas_fee price tx)"
      using assms(4) by (auto simp: pays_recipient_def tx_cost_def unat_word_ariths)
    let ?t = "tx_timestamp (st_tx tx)"
    let ?a = "unwrap_or (hm_get ?m1 (st_to tx)) (Account_new (st_to tx) ?t)"
    have bal: "unat (acc_balance ?a) = balance_of ?m1 (st_to tx)" by (cases "hm_get ?m1 (st_to tx)") (simp_all add: Account_new_def)
    have "unat (acc_balance ?a) + unat (st_amount tx) < 2 ^ 64"
      using balance_le_held [of ?m1 "st_to tx"] m1 cost assms(5) bal by linarith
    then have "unat (acc_balance ?a + st_amount tx) = unat (acc_balance ?a) + unat (st_amount tx)" by (simp add: unat_word_ariths)
    moreover have "hm_wf ?m1" using assms(1) by simp
    ultimately have "held (credit_account (st_to tx) (st_amount tx) ?t ?m1) = held ?m1 + unat (st_amount tx)"
      using held_insert [of ?m1 "st_to tx" "?a\<lparr>acc_balance := acc_balance ?a + st_amount tx\<rparr>"] bal
      by (simp add: credit_account_def hm_entry_def)
    moreover have "tx_charge price tx = unat (tx_gas_fee price tx)" using True by (simp add: tx_charge_def pays_recipient_def)
    ultimately show ?thesis using True m1 cost by (simp add: apply_tx_def Let_def)
  next
    case False
    then have "unat ?c = tx_charge price tx"
      using assms(4) by (auto simp: pays_recipient_def tx_cost_def tx_charge_def unat_word_ariths)
    then show ?thesis using False m1 by (simp add: apply_tx_def Let_def)
  qed
qed

lemma exec_run_held:
  assumes "exec_run part price trace s = Some s'" "hm_wf (si_accounts s)" "held (si_accounts s) < 2 ^ 64"
    and "\<forall>tx \<in> set trace. hm_contains (si_accounts s) (st_from tx) \<and> fits price tx"
  shows "held (si_accounts s') + sum_list (map (tx_charge price) trace) = held (si_accounts s)"
  using assms
proof (induction trace arbitrary: s)
  case (Cons tx trace)
  let ?s = "apply_tx part price tx s"
  from Cons.prems(1) have ex: "executable price tx s" and run: "exec_run part price trace ?s = Some s'" by (auto split: if_splits)
  obtain a where a: "hm_get (si_accounts s) (st_from tx) = Some a" using Cons.prems(4) by (auto simp: hm_contains_def)
  have one: "held (si_accounts ?s) + tx_charge price tx = held (si_accounts s)"
    using apply_tx_held [OF Cons.prems(2) a ex _ Cons.prems(3)] Cons.prems(4) by simp
  have "hm_contains (si_accounts ?s) x" if "hm_contains (si_accounts s) x" for x
    using that apply_tx_account [of s x] by (fastforce simp: hm_contains_def)
  then have "held (si_accounts s') + sum_list (map (tx_charge price) trace) = held (si_accounts ?s)"
    using Cons.prems(2-4) one by (intro Cons.IH [OF run]) (auto simp: hm_wf_apply_tx)
  with one show ?case by simp
qed simp

lemma bridge_sender_cases:
  "fst (bridge_sender (k, ns) (s, br)) = s
   \<or> (\<exists>a n. hm_get (si_accounts s) k = Some a
      \<and> fst (bridge_sender (k, ns) (s, br)) = s\<lparr>si_accounts := hm_insert k (a\<lparr>acc_nonce := n\<rparr>) (si_accounts s)\<rparr>)"
  by (cases "hm_get (si_accounts s) k"; cases ns; cases "fast_path_nonce s k") (simp_all add: bridge_sender_def, blast?)

lemma bridge_sender_accounts:
  assumes "bridge_sender e (s, bridged) = (s', bridged')" "hm_wf (si_accounts s)"
  shows "hm_wf (si_accounts s') \<and> held (si_accounts s') = held (si_accounts s)
    \<and> (\<forall>x. hm_contains (si_accounts s') x = hm_contains (si_accounts s) x)"
proof -
  consider "s' = s"
    | k a n where "hm_get (si_accounts s) k = Some a" "s' = s\<lparr>si_accounts := hm_insert k (a\<lparr>acc_nonce := n\<rparr>) (si_accounts s)\<rparr>"
    using bridge_sender_cases [of "fst e" "snd e" s bridged] assms(1) by auto
  then show ?thesis
  proof cases
    case 2
    then show ?thesis using held_insert [OF assms(2), of k "a\<lparr>acc_nonce := n\<rparr>"] assms(2) by (auto simp: hm_contains_def)
  qed (use assms(2) in simp)
qed

lemma bridge_nonces_accounts:
  assumes "hm_wf (si_accounts s)"
  shows "hm_wf (si_accounts (fst (bridge_nonces itern available s)))
    \<and> held (si_accounts (fst (bridge_nonces itern available s))) = held (si_accounts s)
    \<and> (\<forall>x. hm_contains (si_accounts (fst (bridge_nonces itern available s))) x = hm_contains (si_accounts s) x)"
proof -
  have "hm_wf (si_accounts s) \<Longrightarrow> hm_wf (si_accounts (fst (fold bridge_sender es (s, br))))
    \<and> held (si_accounts (fst (fold bridge_sender es (s, br)))) = held (si_accounts s)
    \<and> (\<forall>x. hm_contains (si_accounts (fst (fold bridge_sender es (s, br)))) x = hm_contains (si_accounts s) x)" for es br and s :: "'a StateInner"
  proof (induction es arbitrary: s br)
    case (Cons e es)
    obtain s1 br1 where e: "bridge_sender e (s, br) = (s1, br1)" by fastforce
    from bridge_sender_accounts [OF this Cons.prems] Cons.IH [of s1 br1] show ?case by (simp add: e)
  qed simp
  then show ?thesis using assms by (simp add: bridge_nonces_def)
qed

text \<open>
  C7: a batch whose transactions all have senders with an account and costs that fit 64 bits,
  on balances that add up to less than \<open>2 ^ 64\<close>, neither creates nor destroys money: the balances
  afterwards, the gas of the executed transactions and the amounts they staked add up to the
  balances before. (Without the conditions it does not hold: \<open>unknown_sender_mints\<close> and
  \<open>overflowing_transfer_is_free\<close> below.)
\<close>
theorem batch_conserves_value:
  assumes "execute_batch_inline itern iter txs available s = (s', r)" "distinct (map st_hash txs)"
    and "hm_wf (si_accounts s)" "held (si_accounts s) < 2 ^ 64"
    and "\<forall>tx \<in> set txs. hm_contains (si_accounts s) (st_from tx) \<and> fits (si_current_gas_price s) tx"
  shows "held (si_accounts s')
    + sum_list (map (tx_charge (si_current_gas_price s)) (filter (\<lambda>tx. st_hash tx \<in> set (br_executed_hashes r)) txs))
    = held (si_accounts s)"
proof -
  from batch_trace [OF assms(1)] obtain trace where
    run: "exec_run (is_partitioned s) (si_current_gas_price s) trace (fst (bridge_nonces itern available s)) = Some s'"
    and sub: "mset trace \<subseteq># mset txs" and h: "set (br_executed_hashes r) = st_hash ` set trace"
    by (blast intro: subset_mset.trans [OF mset_subset_eq_add_left])
  note br = bridge_nonces_accounts [OF assms(3), of itern available]
  have "set trace \<subseteq> set txs" using sub by (metis set_mset_mono set_mset_mset)
  with assms(4,5) br have "held (si_accounts s') + sum_list (map (tx_charge (si_current_gas_price s)) trace) = held (si_accounts s)"
    using exec_run_held [OF run] by auto
  moreover have "mset (map f (filter (\<lambda>tx. st_hash tx \<in> set (br_executed_hashes r)) txs)) = mset (map f trace)" for f
    using mset_filter_hashes [OF assms(2) sub] unfolding h mset_map by simp
  then have "sum_list (map f (filter (\<lambda>tx. st_hash tx \<in> set (br_executed_hashes r)) txs)) = sum_list (map f trace)"
    for f :: "SignedTransaction \<Rightarrow> nat"
    by (metis sum_mset_sum_list)
  ultimately show ?thesis by simp
qed

section \<open>A small batch\<close>

definition sample_pay :: "string \<Rightarrow> u64 \<Rightarrow> u64 \<Rightarrow> SignedTransaction" where
  "sample_pay h nonce amount = \<lparr>st_tx = \<lparr>tx_from = ''alice'', tx_to = ''bob'', tx_amount = amount, tx_nonce = nonce, tx_timestamp = 0,
     tx_parents = [], tx_kind = None, tx_gas_limit = None, tx_gas_price = Some 2, tx_data = None, tx_signature = None,
     tx_memo = None, tx_references = None\<rparr>, st_hash = h, st_signature = []\<rparr>"

definition sample_accounts :: "(string, Account) hash_map" where
  "sample_accounts = [(''alice'', (Account_new ''alice'' 0)\<lparr>acc_balance := 100\<rparr>)]"

definition sample_ledger :: "(DagNode list \<times> (nat \<times> nat) list) StateInner" where
  "sample_ledger = (watch_state PartitionState_default)\<lparr>si_accounts := sample_accounts\<rparr>"

lemma sample_ledger_fields [simp]:
  "si_accounts sample_ledger = sample_accounts" "si_current_gas_price sample_ledger = 1"
  "si_fast_path_finalized_txs sample_ledger = []"
  by (simp_all add: sample_ledger_def watch_state_def)

lemma sample_bridge: "si_accounts (fst (bridge_nonces (\<lambda>xs. xs) [(''alice'', [0, 1])] sample_ledger)) = sample_accounts"
  by (simp add: bridge_nonces_def bridge_sender_def sample_accounts_def Account_new_def)

theorem batch_nonces_consecutive_witness:
  "let (s', r) = execute_batch_inline (\<lambda>xs. xs) (\<lambda>xs. xs) [sample_pay ''h'' 0 10, sample_pay ''i'' 1 20] [(''alice'', [0, 1])] sample_ledger;
       executed = filter (\<lambda>tx. st_from tx = ''alice'' \<and> st_hash tx \<in> set (br_executed_hashes r)) [sample_pay ''h'' 0 10, sample_pay ''i'' 1 20]
   in map_option acc_nonce (hm_get (si_accounts s') ''alice'') = Some (of_nat (length executed))"
proof -
  let ?txs = "[sample_pay ''h'' 0 10, sample_pay ''i'' 1 20]" and ?a = "(Account_new ''alice'' 0)\<lparr>acc_balance := 100\<rparr>"
  obtain s' r where b: "execute_batch_inline (\<lambda>xs. xs) (\<lambda>xs. xs) ?txs [(''alice'', [0, 1])] sample_ledger = (s', r)" by fastforce
  have d: "distinct (map st_hash ?txs)" by (simp add: sample_pay_def)
  have a: "hm_get (si_accounts (fst (bridge_nonces (\<lambda>xs. xs) [(''alice'', [0, 1])] sample_ledger))) ''alice'' = Some ?a"
    unfolding sample_bridge by (simp add: sample_accounts_def)
  have n: "acc_nonce ?a = 0" by (simp add: Account_new_def)
  show ?thesis using conjunct2 [OF batch_nonces_consecutive [OF b d a, unfolded Let_def n add_0]] unfolding b Let_def prod.case .
qed

theorem batch_conserves_value_witness:
  "let (s', r) = execute_batch_inline (\<lambda>xs. xs) (\<lambda>xs. xs) [sample_pay ''h'' 0 10, sample_pay ''i'' 1 20] [(''alice'', [0, 1])] sample_ledger
   in held (si_accounts s') + sum_list (map (tx_charge 1)
        (filter (\<lambda>tx. st_hash tx \<in> set (br_executed_hashes r)) [sample_pay ''h'' 0 10, sample_pay ''i'' 1 20])) = 100"
proof -
  let ?txs = "[sample_pay ''h'' 0 10, sample_pay ''i'' 1 20]"
  obtain s' r where b: "execute_batch_inline (\<lambda>xs. xs) (\<lambda>xs. xs) ?txs [(''alice'', [0, 1])] sample_ledger = (s', r)" by fastforce
  have "held sample_accounts = 100" "hm_wf sample_accounts" by (simp_all add: held_def sample_accounts_def hm_wf_def)
  moreover have "\<forall>tx \<in> set ?txs. hm_contains sample_accounts (st_from tx) \<and> fits 1 tx"
    by (simp add: sample_pay_def sample_accounts_def hm_contains_def tx_gas_fee_def)
  moreover have "distinct (map st_hash ?txs)" by (simp add: sample_pay_def)
  ultimately show ?thesis using batch_conserves_value [OF b] unfolding b Let_def prod.case by simp
qed

section \<open>Where it overflows\<close>

text \<open>
  Amount and gas are added without a check. A transfer whose amount is the complement of its
  gas costs nothing, passes every balance check and credits the recipient all the same.
\<close>

lemma overflowing_transfer_is_free:
  assumes "st_kind tx = None" "st_amount tx = - tx_gas_fee price tx"
    and "hm_get (si_accounts s) (st_from tx) = Some a" "st_nonce tx = acc_nonce a" "st_to tx \<noteq> st_from tx"
  shows "executable price tx s
    \<and> map_option acc_balance (hm_get (si_accounts (apply_tx part price tx s)) (st_from tx)) = Some (acc_balance a)
    \<and> map_option acc_balance (hm_get (si_accounts (apply_tx part price tx s)) (st_to tx))
      = Some (unwrap_or (map_option acc_balance (hm_get (si_accounts s) (st_to tx))) 0 + st_amount tx)"
proof -
  have c: "tx_cost price tx = 0" using assms(1,2) by (simp add: tx_cost_def)
  then show ?thesis using assms
    by (cases "hm_get (si_accounts s) (st_to tx)")
      (auto simp: executable_def apply_tx_def Let_def pays_recipient_def credit_account_def hm_get_entry hm_get_modify
        debit_sender_def Account_new_def)
qed

text \<open>A transfer from an address without an account is executed, and mints its amount.\<close>

lemma unknown_sender_mints:
  assumes "st_kind tx = None" "hm_get (si_accounts s) (st_from tx) = None"
  shows "executable price tx s
    \<and> map_option acc_balance (hm_get (si_accounts (apply_tx part price tx s)) (st_to tx))
      = Some (unwrap_or (map_option acc_balance (hm_get (si_accounts s) (st_to tx))) 0 + st_amount tx)"
  using assms by (cases "hm_get (si_accounts s) (st_to tx)")
    (auto simp: executable_def apply_tx_def Let_def pays_recipient_def credit_account_def hm_get_entry hm_modify_def Account_new_def)

end
