(* ===== verification/Rinku_Fast_Execution.thy ===== *)
theory Rinku_Fast_Execution
  imports Rinku_Execution
begin

text \<open>
  \<open>rinku-node/src/state/transactions.rs\<close>, second part: \<open>execute_fast_path_batch\<close>, which
  executes transactions with a quorum of acknowledgements ahead of their checkpoint. Up to
  four passes are made over the batch, so that a transaction may wait for an earlier nonce
  of its sender or for a payment to it.
\<close>

section \<open>Data\<close>

datatype FastPathExecResult = Executed | AlreadyApplied | Rejected | Deferred

record FastPathExecEntry =
  xe_hash :: string
  xe_result :: FastPathExecResult
  xe_from_addr :: string
  xe_to_addr :: string
  xe_amount :: u64
  xe_from_account :: "Account option"
  xe_to_account :: "Account option"

definition exec_entry :: "SignedTransaction \<Rightarrow> FastPathExecResult \<Rightarrow> Account option \<Rightarrow> Account option \<Rightarrow> FastPathExecEntry" where
  "exec_entry tx result from_account to_account =
     \<lparr>xe_hash = st_hash tx, xe_result = result, xe_from_addr = st_from tx, xe_to_addr = st_to tx, xe_amount = st_amount tx,
      xe_from_account = from_account, xe_to_account = to_account\<rparr>"

text \<open>The local variables of the loop; \<open>fx_executed\<close> holds the settled indices.\<close>

record 'g fast_batch =
  fx_state :: "'g StateInner"
  fx_results :: "(nat, FastPathExecEntry) hash_map"
  fx_executed :: "nat list"
  fx_changed :: "string list"
  fx_skipped :: "string list"
  fx_progress :: bool

section \<open>One transaction\<close>

definition MAX_FINALITY_MS :: u64 where "MAX_FINALITY_MS = 300000"
definition MAX_PASSES :: nat where "MAX_PASSES = 4"

definition record_finality :: "u64 \<Rightarrow> SignedTransaction \<Rightarrow> 'g StateInner \<Rightarrow> 'g StateInner" where
  "record_finality now_ms tx s =
     (let timestamp = tx_timestamp (st_tx tx);
          tx_time_ms = (if timestamp < 4000000000 then timestamp * 1000 else timestamp);
          finality = saturating_sub now_ms tx_time_ms
      in if finality \<le> MAX_FINALITY_MS
         then s\<lparr>si_finality_sum_ms := si_finality_sum_ms s + finality, si_finality_count := si_finality_count s + 1,
                si_finality_max_ms := (if finality > si_finality_max_ms s then finality else si_finality_max_ms s),
                si_finality_times_ms := (if length (si_finality_times_ms s) \<ge> 1000 then tl (si_finality_times_ms s)
                                         else si_finality_times_ms s) @ [finality]\<rparr>
         else s)"

definition pool_entry :: "u64 \<Rightarrow> SignedTransaction \<Rightarrow> FastPathFinalizedEntry" where
  "pool_entry now_ms tx =
     \<lparr>fe_from = st_from tx, fe_to = st_to tx, fe_amount = st_amount tx, fe_nonce = st_nonce tx,
      fe_gas_price = tx_gas_price (st_tx tx), fe_kind = st_kind tx, fe_hash = st_hash tx, fe_finalized_at_ms = now_ms\<rparr>"

text \<open>The cap of the pool is the one \<open>clear_checkpoint_finalized_txs\<close> uses, 5000.\<close>

definition pool_insert :: "u64 \<Rightarrow> SignedTransaction \<Rightarrow> 'g StateInner \<Rightarrow> 'g StateInner" where
  "pool_insert now_ms tx s =
     (if hm_contains (si_fast_path_finalized_txs s) (st_hash tx) then s
      else let (pool, order) = shrink_pool (hm_insert (st_hash tx) (pool_entry now_ms tx) (si_fast_path_finalized_txs s))
                 (si_fast_path_finalized_order s @ [st_hash tx])
           in s\<lparr>si_fast_path_finalized_txs := pool, si_fast_path_finalized_order := order\<rparr>)"

definition fast_debit :: "u64 \<Rightarrow> SignedTransaction \<Rightarrow> Account \<Rightarrow> Account" where
  "fast_debit cost tx account =
     account\<lparr>acc_balance := saturating_sub (acc_balance account) cost, acc_nonce := st_nonce tx + 1,
             acc_staked := (if st_kind tx = Some Stake then acc_staked account + st_amount tx else acc_staked account)\<rparr>"

definition fast_pays :: "SignedTransaction \<Rightarrow> bool" where
  "fast_pays tx \<longleftrightarrow> st_kind tx \<notin> {Some Stake, Some Unstake, Some ClaimRewards} \<and> st_to tx \<noteq> []"

text \<open>The effect on the accounts; contract transactions do not get here, so the cost is \<open>tx_cost\<close>.\<close>

definition fast_accounts :: "u64 \<Rightarrow> u64 \<Rightarrow> SignedTransaction \<Rightarrow> (string, Account) hash_map \<Rightarrow> (string, Account) hash_map" where
  "fast_accounts price now_ms tx accounts =
     (let accounts = hm_modify (st_from tx) (fast_debit (tx_cost price tx) tx) accounts
      in if fast_pays tx then credit_account (st_to tx) (st_amount tx) (now_ms div 1000) accounts else accounts)"

definition fast_apply :: "u64 \<Rightarrow> SignedTransaction \<Rightarrow> 'g StateInner \<Rightarrow> 'g StateInner" where
  "fast_apply now_ms tx s =
     (let price = si_current_gas_price s;
          s = s\<lparr>si_accounts := fast_accounts price now_ms tx (si_accounts s),
                si_total_burned := si_total_burned s + tx_gas_fee price tx,
                si_total_transactions := si_total_transactions s + 1\<rparr>
      in pool_insert now_ms tx (record_finality now_ms tx s))"

definition settle :: "nat \<Rightarrow> FastPathExecEntry \<Rightarrow> 'g fast_batch \<Rightarrow> 'g fast_batch" where
  "settle idx entry b = b\<lparr>fx_results := hm_insert idx entry (fx_results b), fx_executed := List.insert idx (fx_executed b)\<rparr>"

definition fast_execute :: "u64 \<Rightarrow> nat \<Rightarrow> SignedTransaction \<Rightarrow> 'g fast_batch \<Rightarrow> 'g fast_batch" where
  "fast_execute now_ms idx tx b =
     (let s = fast_apply now_ms tx (fx_state b);
          from_snap = hm_get (si_accounts s) (st_from tx);
          to_snap = (if st_to tx \<noteq> [] then hm_get (si_accounts s) (st_to tx) else None)
      in settle idx (exec_entry tx Executed from_snap to_snap)
           (b\<lparr>fx_state := s, fx_changed := fx_changed b @ [st_from tx] @ (if fast_pays tx then [st_to tx] else []),
              fx_progress := True\<rparr>))"

definition fast_step :: "u64 \<Rightarrow> nat \<times> SignedTransaction \<Rightarrow> 'g fast_batch \<Rightarrow> 'g fast_batch" where
  "fast_step now_ms = (\<lambda>(idx, tx) b.
     if idx \<in> set (fx_executed b) then b
     else if st_from tx \<in> set (fx_skipped b) then b
     else if st_kind tx = Some Consolidation then settle idx (exec_entry tx AlreadyApplied None None) b
     else if st_kind tx = Some Contract then settle idx (exec_entry tx Deferred None None) b
     else case hm_get (si_accounts (fx_state b)) (st_from tx) of
       None \<Rightarrow> settle idx (exec_entry tx Rejected None None) b
     | Some acc \<Rightarrow>
         if acc_balance acc < tx_cost (si_current_gas_price (fx_state b)) tx
         then settle idx (exec_entry tx Rejected None None) b
         else if st_nonce tx < acc_nonce acc then settle idx (exec_entry tx AlreadyApplied None None) b
         else if st_nonce tx > acc_nonce acc then b\<lparr>fx_skipped := List.insert (st_from tx) (fx_skipped b)\<rparr>
         else fast_execute now_ms idx tx b)"

section \<open>The batch\<close>

primrec fast_passes :: "u64 \<Rightarrow> SignedTransaction list \<Rightarrow> nat \<Rightarrow> 'g fast_batch \<Rightarrow> 'g fast_batch" where
  "fast_passes now_ms txs 0 b = b"
| "fast_passes now_ms txs (Suc passes) b =
     (let b = fold (fast_step now_ms) (enumerate 0 txs) (b\<lparr>fx_progress := False, fx_skipped := []\<rparr>)
      in if fx_progress b then fast_passes now_ms txs passes b else b)"

definition fast_leftover :: "nat \<times> SignedTransaction \<Rightarrow> 'g fast_batch \<Rightarrow> 'g fast_batch" where
  "fast_leftover = (\<lambda>(idx, tx) b.
     if idx \<notin> set (fx_executed b) then b\<lparr>fx_results := hm_insert idx (exec_entry tx Deferred None None) (fx_results b)\<rparr> else b)"

definition fast_registers :: "SignedTransaction \<times> FastPathExecEntry \<Rightarrow> bool" where
  "fast_registers = (\<lambda>(tx, entry). xe_result entry = Executed \<and> st_kind tx \<in> {Some Stake, Some Unstake, Some ClaimRewards})"

definition fast_register :: "u64 \<Rightarrow> SignedTransaction \<Rightarrow> RewardsService \<Rightarrow> RewardsService" where
  "fast_register now tx rewards =
     (if st_kind tx = Some Stake then fst (rewards_stake now (st_from tx) (st_amount tx) (st_hash tx) rewards)
      else register_stake_dedup (st_hash tx) rewards)"

definition execute_fast_path_batch ::
  "crypto_env \<Rightarrow> u64 \<Rightarrow> SignedTransaction list \<Rightarrow> 'g NodeState \<Rightarrow> 'g NodeState \<times> FastPathExecEntry list" where
  "execute_fast_path_batch env now_ms txs n =
     (let b = fast_passes now_ms txs MAX_PASSES
            \<lparr>fx_state = ns_inner n, fx_results = [], fx_executed = [], fx_changed = [], fx_skipped = [], fx_progress = True\<rparr>;
          b = fold fast_leftover (enumerate 0 txs) b;
          s = (if fx_changed b \<noteq> [] then update_state_trie_accounts env (fx_changed b) (fx_state b) else fx_state b);
          results = List.map_filter (hm_get (fx_results b)) [0 ..< length txs];
          to_register = map fst (filter fast_registers (zip txs results))
      in (n\<lparr>ns_inner := s, ns_rewards := fold (fast_register now_ms) to_register (ns_rewards n)\<rparr>, results))"

section \<open>The sequential ledger of the fast path\<close>

definition fast_executable :: "u64 \<Rightarrow> SignedTransaction \<Rightarrow> (string, Account) hash_map \<Rightarrow> bool" where
  "fast_executable price tx accounts \<longleftrightarrow> st_kind tx \<notin> {Some Consolidation, Some Contract} \<and>
     (\<exists>a. hm_get accounts (st_from tx) = Some a \<and> st_nonce tx = acc_nonce a \<and> tx_cost price tx \<le> acc_balance a)"

fun fast_run :: "u64 \<Rightarrow> u64 \<Rightarrow> SignedTransaction list \<Rightarrow> (string, Account) hash_map \<Rightarrow> (string, Account) hash_map option" where
  "fast_run price now_ms [] accounts = Some accounts"
| "fast_run price now_ms (tx # txs) accounts =
     (if fast_executable price tx accounts then fast_run price now_ms txs (fast_accounts price now_ms tx accounts) else None)"

lemma fast_run_append:
  "fast_run price now (xs @ ys) m = Option.bind (fast_run price now xs m) (fast_run price now ys)"
  by (induction xs arbitrary: m) auto

lemma pool_and_finality_frame [simp]:
  "si_accounts (record_finality now tx s) = si_accounts s" "si_current_gas_price (record_finality now tx s) = si_current_gas_price s"
  "si_accounts (pool_insert now tx s) = si_accounts s" "si_current_gas_price (pool_insert now tx s) = si_current_gas_price s"
  by (simp_all add: record_finality_def pool_insert_def Let_def split: prod.splits)

lemma fast_apply_frame [simp]:
  "si_accounts (fast_apply now tx s) = fast_accounts (si_current_gas_price s) now tx (si_accounts s)"
  "si_current_gas_price (fast_apply now tx s) = si_current_gas_price s"
  by (simp_all add: fast_apply_def Let_def)

text \<open>
  The settled indices are those with a result; the executed ones, in the order in which they
  were executed, are a run of the ledger.
\<close>

definition fast_ok :: "u64 \<Rightarrow> u64 \<Rightarrow> SignedTransaction list \<Rightarrow> (string, Account) hash_map \<Rightarrow> nat list \<Rightarrow> 'g fast_batch \<Rightarrow> bool" where
  "fast_ok price now txs accounts trace b \<longleftrightarrow>
     si_current_gas_price (fx_state b) = price
     \<and> fast_run price now (map ((!) txs) trace) accounts = Some (si_accounts (fx_state b))
     \<and> distinct trace \<and> set trace \<subseteq> set (fx_executed b)
     \<and> (\<forall>i. i \<in> set (fx_executed b) \<longleftrightarrow> hm_get (fx_results b) i \<noteq> None)
     \<and> (\<forall>i e. hm_get (fx_results b) i = Some e \<longrightarrow> i < length txs \<and> xe_hash e = st_hash (txs ! i)
          \<and> (xe_result e = Executed \<longleftrightarrow> i \<in> set trace))"

lemma fast_ok_settle:
  assumes "fast_ok price now txs m trace b" "i < length txs" "i \<notin> set (fx_executed b)" "res \<noteq> Executed"
  shows "fast_ok price now txs m trace (settle i (exec_entry (txs ! i) res f t) b)"
  using assms unfolding fast_ok_def settle_def exec_entry_def by auto

lemma fast_ok_execute:
  assumes "fast_ok price now txs m trace b" "i < length txs" "i \<notin> set (fx_executed b)"
    "fast_executable price (txs ! i) (si_accounts (fx_state b))"
  shows "fast_ok price now txs m (trace @ [i]) (fast_execute now i (txs ! i) b)"
proof -
  have "i \<notin> set trace" using assms(1,3) by (auto simp: fast_ok_def)
  then show ?thesis using assms unfolding fast_ok_def
    by (auto simp: fast_execute_def Let_def settle_def exec_entry_def fast_run_append)
qed

lemma fast_step_ok:
  assumes "fast_ok price now txs m trace b" "i < length txs"
  shows "\<exists>trace'. fast_ok price now txs m trace' (fast_step now (i, txs ! i) b)"
proof (cases "i \<in> set (fx_executed b)")
  case True
  then show ?thesis using assms(1) by (auto simp: fast_step_def)
next
  case False
  have p: "si_current_gas_price (fx_state b) = price" using assms(1) by (simp add: fast_ok_def)
  have skip: "\<exists>trace'. fast_ok price now txs m trace' (b\<lparr>fx_skipped := x\<rparr>)" for x
    using assms(1) by (intro exI [of _ trace]) (simp add: fast_ok_def)
  note settled = fast_ok_settle [OF assms False]
  show ?thesis
  proof (cases "hm_get (si_accounts (fx_state b)) (st_from (txs ! i))")
    case None
    then show ?thesis using settled assms(1) False by (auto simp: fast_step_def)
  next
    case (Some a)
    have "\<exists>trace'. fast_ok price now txs m trace' (fast_execute now i (txs ! i) b)"
      if "st_kind (txs ! i) \<noteq> Some Consolidation" "st_kind (txs ! i) \<noteq> Some Contract"
        "\<not> acc_balance a < tx_cost price (txs ! i)" "\<not> st_nonce (txs ! i) < acc_nonce a" "\<not> acc_nonce a < st_nonce (txs ! i)"
    proof -
      have "st_nonce (txs ! i) = acc_nonce a" using that(4,5) by (simp add: not_less)
      then have "fast_executable price (txs ! i) (si_accounts (fx_state b))"
        using that Some by (simp add: fast_executable_def not_less)
      then show ?thesis using fast_ok_execute [OF assms False] by blast
    qed
    then show ?thesis using settled assms(1) False skip [of "List.insert (st_from (txs ! i)) (fx_skipped b)"] Some p
      by (auto simp: fast_step_def)
  qed
qed


lemma fast_fold_ok:
  assumes "fast_ok price now txs m trace b" "\<forall>(i, tx) \<in> set es. i < length txs \<and> tx = txs ! i"
  shows "\<exists>trace'. fast_ok price now txs m trace' (fold (fast_step now) es b)"
  using assms
proof (induction es arbitrary: trace b)
  case (Cons e es)
  obtain i where e: "e = (i, txs ! i)" "i < length txs" using Cons.prems(2) by auto
  from fast_step_ok [OF Cons.prems(1) e(2)] obtain trace' where "fast_ok price now txs m trace' (fast_step now e b)" by (auto simp: e)
  from Cons.IH [OF this] Cons.prems(2) show ?case by simp
qed auto

lemma enumerate_nth: "\<forall>(i, tx) \<in> set (enumerate 0 txs). i < length txs \<and> tx = txs ! i"
  by (auto simp: in_set_enumerate_eq)

lemma fast_passes_ok:
  "fast_ok price now txs m trace b \<Longrightarrow> \<exists>trace'. fast_ok price now txs m trace' (fast_passes now txs k b)"
proof (induction k arbitrary: trace b)
  case (Suc k)
  have "fast_ok price now txs m trace (b\<lparr>fx_progress := False, fx_skipped := []\<rparr>)" using Suc.prems by (simp add: fast_ok_def)
  from fast_fold_ok [OF this enumerate_nth] Suc.IH show ?case by (fastforce simp: Let_def)
qed auto

lemma fast_leftover_fold:
  assumes "\<forall>i. i \<in> set (fx_executed b) \<longleftrightarrow> hm_get (fx_results b) i \<noteq> None" "distinct (map fst es)"
  shows "fx_state (fold fast_leftover es b) = fx_state b \<and> fx_changed (fold fast_leftover es b) = fx_changed b
    \<and> (\<forall>i. hm_get (fx_results (fold fast_leftover es b)) i =
        (case hm_get (fx_results b) i of Some e \<Rightarrow> Some e
         | None \<Rightarrow> map_option (\<lambda>tx. exec_entry tx Deferred None None) (map_of es i)))"
proof -
  have "fx_executed (fold fast_leftover es b) = fx_executed b \<and> fx_state (fold fast_leftover es b) = fx_state b
    \<and> fx_changed (fold fast_leftover es b) = fx_changed b
    \<and> (\<forall>i. hm_get (fx_results (fold fast_leftover es b)) i =
        (if i \<in> set (fx_executed b) then hm_get (fx_results b) i
         else case map_of es i of Some tx \<Rightarrow> Some (exec_entry tx Deferred None None) | None \<Rightarrow> hm_get (fx_results b) i))"
    using assms(2)
  proof (induction es arbitrary: b)
    case (Cons e es)
    obtain i tx where e: "e = (i, tx)" by (cases e)
    let ?b = "fast_leftover (i, tx) b"
    have f: "fx_executed ?b = fx_executed b" "fx_state ?b = fx_state b" "fx_changed ?b = fx_changed b"
      "hm_get (fx_results ?b) j =
        (if j = i \<and> i \<notin> set (fx_executed b) then Some (exec_entry tx Deferred None None) else hm_get (fx_results b) j)" for j
      by (simp_all add: fast_leftover_def)
    have none: "map_of es i = None" "distinct (map fst es)" using Cons.prems by (auto simp: e map_of_eq_None_iff)
    have "hm_get (fx_results (fold fast_leftover es ?b)) j =
        (if j \<in> set (fx_executed b) then hm_get (fx_results b) j
         else case map_of (e # es) j of Some tx \<Rightarrow> Some (exec_entry tx Deferred None None) | None \<Rightarrow> hm_get (fx_results b) j)" for j
      using Cons.IH [OF none(2), of ?b] none(1) by (cases "j = i"; cases "map_of es j") (simp_all add: f e)
    with Cons.IH [OF none(2), of ?b] show ?case by (simp add: f e)
  qed auto
  then show ?thesis using assms(1) by (auto split: option.splits)
qed

lemma map_of_enumerate: "map_of (enumerate 0 txs) i = (if i < length txs then Some (txs ! i) else None)"
proof -
  have "distinct (map fst (enumerate 0 txs))" by simp
  then show ?thesis using in_set_enumerate_eq [of "(i, txs ! i)" 0 txs]
    by (auto simp: map_of_eq_None_iff in_set_enumerate_eq intro: map_of_is_SomeI)
qed

text \<open>
  C5: the fast path gives every transaction of a batch exactly one outcome, in the order of
  the batch, and the accounts it leaves are those after running the executed ones one by
  one, each once, with the nonce its sender had reached and covered by its balance.
\<close>
theorem fast_path_refines_ledger:
  "let (n', results) = execute_fast_path_batch env now txs n
   in map xe_hash results = map st_hash txs
    \<and> (\<exists>trace. distinct trace \<and> set trace = {i. i < length txs \<and> xe_result (results ! i) = Executed}
        \<and> fast_run (si_current_gas_price (ns_inner n)) now (map ((!) txs) trace) (si_accounts (ns_inner n))
          = Some (si_accounts (ns_inner n')))"
proof -
  let ?b0 = "\<lparr>fx_state = ns_inner n, fx_results = [], fx_executed = [], fx_changed = [], fx_skipped = [], fx_progress = True\<rparr>"
  let ?price = "si_current_gas_price (ns_inner n)" and ?m = "si_accounts (ns_inner n)"
  let ?b1 = "fast_passes now txs MAX_PASSES ?b0"
  let ?b2 = "fold fast_leftover (enumerate 0 txs) ?b1"
  have "fast_ok ?price now txs ?m [] ?b0" by (simp add: fast_ok_def)
  from fast_passes_ok [OF this] obtain trace where ok: "fast_ok ?price now txs ?m trace ?b1" by blast
  have "\<forall>i. i \<in> set (fx_executed ?b1) \<longleftrightarrow> hm_get (fx_results ?b1) i \<noteq> None" using ok by (simp add: fast_ok_def)
  note left = fast_leftover_fold [OF this, of "enumerate 0 txs", simplified map_of_enumerate]
  define entry where "entry i = (case hm_get (fx_results ?b1) i of Some e \<Rightarrow> e | None \<Rightarrow> exec_entry (txs ! i) Deferred None None)" for i
  have get: "hm_get (fx_results ?b2) i = Some (entry i)" if "i < length txs" for i
    using left that by (auto simp: entry_def split: option.splits)
  have results: "List.map_filter (hm_get (fx_results ?b2)) [0 ..< length txs] = map entry [0 ..< length txs]"
    using get by (simp add: map_filter_def)
  have e: "xe_hash (entry i) = st_hash (txs ! i) \<and> (xe_result (entry i) = Executed \<longleftrightarrow> i \<in> set trace)" if "i < length txs" for i
    using ok that by (auto simp: fast_ok_def entry_def exec_entry_def split: option.splits)
  have state: "si_accounts (ns_inner (fst (execute_fast_path_batch env now txs n))) = si_accounts (fx_state ?b1)"
    using left by (simp add: execute_fast_path_batch_def update_state_trie_accounts_def Let_def)
  have "snd (execute_fast_path_batch env now txs n) = map entry [0 ..< length txs]"
    using results by (simp add: execute_fast_path_batch_def Let_def)
  moreover have "map xe_hash (map entry [0 ..< length txs]) = map st_hash txs"
    by (rule nth_equalityI) (simp_all add: e)
  moreover have "set trace = {i. i < length txs \<and> xe_result (map entry [0 ..< length txs] ! i) = Executed}"
  proof -
    have "i < length txs" if "i \<in> set trace" for i using ok that by (fastforce simp: fast_ok_def)
    then show ?thesis using e by auto
  qed
  ultimately show ?thesis using ok state
    by (auto simp: fast_ok_def split_beta Let_def)
qed

end
