(* ===== verification/Rinku_Finalize_Properties.thy ===== *)
theory Rinku_Finalize_Properties
  imports Rinku_Finalize Rinku_Execution_Properties Rinku_Fast_Execution
begin

text \<open>
  Execution and the trie of accounts. A path of the node that changes accounts has to hand
  their addresses to \<open>update_state_trie_accounts\<close>, or the state root no longer commits to the
  accounts. The late batch and the fast path do; the batch executed with a checkpoint and a merge
  do not, and a single execution does not when it ends early. The addresses whose entries may be
  stale are tracked as a set.
\<close>

section \<open>The trie is current\<close>

text \<open>
  The trie is the result of writing accounts one after the other, and what was last written
  for an address outside the set \<open>D\<close> of stale ones is the account the node holds there.
\<close>

definition write_accounts :: "crypto_env \<Rightarrow> (string \<times> Account) list \<Rightarrow> SparseMerkleTrie \<Rightarrow> SparseMerkleTrie" where
  "write_accounts env = fold (\<lambda>(addr, acc) trie. fst (smt_set env None (hash_account_key env addr) (account_trie_value addr acc) trie))"

definition trie_current :: "crypto_env \<Rightarrow> string set \<Rightarrow> 'g StateInner \<Rightarrow> bool" where
  "trie_current env D s \<longleftrightarrow> (\<exists>ws. si_state_trie s = write_accounts env ws (SparseMerkleTrie_new env)
     \<and> (\<forall>addr acc. addr \<notin> D \<longrightarrow> hm_get (si_accounts s) addr = Some acc \<longrightarrow>
          map_option account_core (map_of (rev ws) addr) = Some (account_core acc)))"

text \<open>Outside \<open>changed\<close> the committed part of the accounts is the same.\<close>

definition same_outside :: "string set \<Rightarrow> (string, Account) hash_map \<Rightarrow> (string, Account) hash_map \<Rightarrow> bool" where
  "same_outside changed m m' \<longleftrightarrow> (\<forall>addr. addr \<notin> changed \<longrightarrow> map_option account_core (hm_get m' addr) = map_option account_core (hm_get m addr))"

lemma same_outside_refl [simp]: "same_outside S m m"
  by (simp add: same_outside_def)

lemma same_outside_trans: "same_outside S m m' \<Longrightarrow> same_outside T m' m'' \<Longrightarrow> S \<subseteq> U \<Longrightarrow> T \<subseteq> U \<Longrightarrow> same_outside U m m''"
  unfolding same_outside_def by (metis subsetD)

lemma same_outside_modify [simp]: "a \<in> S \<Longrightarrow> same_outside S m (hm_modify a f m)"
  by (auto simp: same_outside_def hm_modify_def split: option.split)

lemma same_outside_insert [simp]: "a \<in> S \<Longrightarrow> same_outside S m (hm_insert a x m)"
  by (auto simp: same_outside_def)

lemma update_trie_writes:
  "si_state_trie (update_state_trie_accounts env changed s) =
   write_accounts env (List.map_filter (\<lambda>addr. map_option (Pair addr) (hm_get (si_accounts s) addr)) changed) (si_state_trie s)"
proof -
  have "fold (\<lambda>addr trie. case hm_get m addr of None \<Rightarrow> trie
         | Some acc \<Rightarrow> fst (smt_set env None (hash_account_key env addr) (account_trie_value addr acc) trie)) changed t
     = write_accounts env (List.map_filter (\<lambda>addr. map_option (Pair addr) (hm_get m addr)) changed) t" for m t
    by (induction changed arbitrary: t) (auto simp: write_accounts_def map_filter_simps split: option.split)
  then show ?thesis by (simp add: update_state_trie_accounts_def)
qed

lemma write_accounts_append: "write_accounts env (xs @ ys) t = write_accounts env ys (write_accounts env xs t)"
  by (simp add: write_accounts_def)

lemma map_of_written:
  "map_of (rev (List.map_filter (\<lambda>addr. map_option (Pair addr) (hm_get m addr)) changed)) a =
   (if a \<in> set changed then hm_get m a else None)"
proof -
  let ?w = "List.map_filter (\<lambda>addr. map_option (Pair addr) (hm_get m addr)) changed"
  have s: "(x, y) \<in> set ?w \<longleftrightarrow> x \<in> set changed \<and> hm_get m x = Some y" for x y
    by (force simp: map_filter_def)
  show ?thesis
  proof (cases "map_of (rev ?w) a")
    case None
    then have "a \<notin> fst ` set ?w" by (simp add: map_of_eq_None_iff)
    then have "a \<in> set changed \<Longrightarrow> hm_get m a = None" using s [of a] by (metis fst_conv image_eqI not_None_eq)
    then show ?thesis using None by simp
  next
    case (Some y)
    then have "(a, y) \<in> set ?w" using map_of_SomeD [of "rev ?w" a y] by simp
    then show ?thesis using Some s [of a y] by simp
  qed
qed

lemma trie_current_written:
  assumes "trie_current env D s" "si_state_trie t = si_state_trie s" "same_outside (set changed \<union> E) (si_accounts s) (si_accounts t)" "D \<subseteq> set changed \<union> E"
  shows "trie_current env E (update_state_trie_accounts env changed t)"
proof -
  from assms(1) obtain ws where ws: "si_state_trie s = write_accounts env ws (SparseMerkleTrie_new env)"
    and cur: "\<And>addr acc. addr \<notin> D \<Longrightarrow> hm_get (si_accounts s) addr = Some acc \<Longrightarrow>
      map_option account_core (map_of (rev ws) addr) = Some (account_core acc)"
    unfolding trie_current_def by blast
  let ?w = "List.map_filter (\<lambda>addr. map_option (Pair addr) (hm_get (si_accounts t) addr)) changed"
  have "si_state_trie (update_state_trie_accounts env changed t) = write_accounts env (ws @ ?w) (SparseMerkleTrie_new env)"
    by (simp add: update_trie_writes assms(2) ws write_accounts_append)
  moreover have "map_option account_core (map_of (rev (ws @ ?w)) addr) = Some (account_core acc)"
    if "addr \<notin> E" "hm_get (si_accounts t) addr = Some acc" for addr acc
  proof (cases "addr \<in> set changed")
    case True
    then show ?thesis using that map_of_written [of "si_accounts t" changed addr] by (simp add: map_add_def)
  next
    case False
    with assms(3) that obtain b where "hm_get (si_accounts s) addr = Some b" "account_core b = account_core acc"
      unfolding same_outside_def by (metis (no_types, lifting) Un_iff map_option_eq_Some)
    then show ?thesis using cur [of addr b] map_of_written [of "si_accounts t" changed addr] False assms(4) that(1) by (auto simp: map_add_def)
  qed
  moreover have "si_accounts (update_state_trie_accounts env changed t) = si_accounts t" by (simp add: update_state_trie_accounts_def)
  ultimately show ?thesis unfolding trie_current_def by (intro exI [of _ "ws @ ?w"]) simp
qed

lemma update_trie_none [simp]: "update_state_trie_accounts env [] s = s"
  by (simp add: update_state_trie_accounts_def)

lemma same_outside_mono: "same_outside S m m' \<Longrightarrow> S \<subseteq> T \<Longrightarrow> same_outside T m m'"
  by (auto simp: same_outside_def)

lemma trie_current_update:
  "trie_current env D s \<Longrightarrow> si_state_trie t = si_state_trie s \<Longrightarrow> same_outside (set changed) (si_accounts s) (si_accounts t)
   \<Longrightarrow> trie_current env D (update_state_trie_accounts env changed t)"
  by (erule trie_current_written) (auto elim: same_outside_mono)

lemma trie_current_frame:
  "trie_current env D s \<Longrightarrow> si_state_trie t = si_state_trie s \<Longrightarrow> same_outside {} (si_accounts s) (si_accounts t) \<Longrightarrow> trie_current env D t"
  using trie_current_update [of env D s t "[]"] by simp

text \<open>Accounts changed without being written make their addresses stale.\<close>

lemma trie_current_stale:
  "trie_current env D s \<Longrightarrow> si_state_trie t = si_state_trie s \<Longrightarrow> same_outside S (si_accounts s) (si_accounts t) \<Longrightarrow> trie_current env (D \<union> S) t"
  using trie_current_written [of env D s t "[]" "D \<union> S"] same_outside_mono [of S "si_accounts s" "si_accounts t" "D \<union> S"] by simp

lemma trie_current_mono: "trie_current env D s \<Longrightarrow> D \<subseteq> E \<Longrightarrow> trie_current env E s"
  unfolding trie_current_def by blast

text \<open>The usual shape: the trie is updated unless nothing has changed.\<close>

lemma trie_current_changed:
  assumes "trie_current env D s" "si_state_trie t = si_state_trie s" "same_outside (set changed) (si_accounts s) (si_accounts t)"
  shows "trie_current env D (if changed \<noteq> [] then update_state_trie_accounts env changed t else t)"
  using trie_current_update [OF assms] trie_current_frame [OF assms(1,2)] assms(3) by auto

section \<open>The batch\<close>

lemma apply_tx_frame [simp]:
  "si_state_trie (apply_tx part price tx s) = si_state_trie s" "si_dag (apply_tx part price tx s) = si_dag s"
  by (simp_all add: apply_tx_def Let_def)

lemma apply_tx_outside:
  "st_from tx \<in> S \<Longrightarrow> (pays_recipient tx \<Longrightarrow> st_to tx \<in> S) \<Longrightarrow> same_outside S (si_accounts s) (si_accounts (apply_tx part price tx s))"
  unfolding apply_tx_def credit_account_def hm_entry_def Let_def
  by (auto intro!: same_outside_trans [where S = S and T = S and U = S and m = "si_accounts s", OF same_outside_modify same_outside_insert])

definition batch_tracks :: "'g StateInner \<Rightarrow> 'g batch \<Rightarrow> bool" where
  "batch_tracks s b \<longleftrightarrow> si_state_trie (bt_state b) = si_state_trie s \<and> si_dag (bt_state b) = si_dag s
     \<and> same_outside (set (bt_changed_addrs b)) (si_accounts s) (si_accounts (bt_state b))"

lemma execute_in_batch_fields [simp]:
  "bt_state (execute_in_batch part price tx b) = apply_tx part price tx (bt_state b)"
  "set (bt_changed_addrs (execute_in_batch part price tx b)) =
     set (bt_changed_addrs b) \<union> {st_from tx} \<union> (if pays_recipient tx then {st_to tx} else {})"
  by (auto simp: execute_in_batch_def)

lemma batch_tracks_execute: "batch_tracks s b \<Longrightarrow> batch_tracks s (execute_in_batch part price tx b)"
  unfolding batch_tracks_def by (auto intro: same_outside_trans [OF _ apply_tx_outside])

lemma batch_step_tracks: "batch_tracks s b \<Longrightarrow> batch_tracks s (batch_step available part price tx b)"
  by (auto simp: batch_step_def batch_tracks_execute split: option.split) (auto simp: batch_tracks_def defer_tx_def)

lemma retry_step_tracks: "batch_tracks s (fst x) \<Longrightarrow> batch_tracks s (fst (retry_step part price tx x))"
  by (auto simp: retry_step_def batch_tracks_execute split: option.split prod.splits)

lemma fold_keeps: "(\<And>x y. P y \<Longrightarrow> P (f x y)) \<Longrightarrow> P y \<Longrightarrow> P (fold f xs y)"
  by (induction xs arbitrary: y) auto

lemma retry_passes_tracks: "batch_tracks s b \<Longrightarrow> batch_tracks s (retry_passes part price k b)"
proof (induction k arbitrary: b)
  case (Suc k)
  have "batch_tracks s (fst (fold (retry_step part price) txs (b, [], False)))" for txs
    by (rule fold_keeps [where P = "\<lambda>x. batch_tracks s (fst x)"]) (simp_all add: retry_step_tracks Suc.prems)
  then have "batch_tracks s b'" if "fold (retry_step part price) txs (b, [], False) = (b', r)" for b' r txs
    using that by (metis fst_conv)
  moreover have "batch_tracks s (b'\<lparr>bt_balance_deferred := x\<rparr>) = batch_tracks s b'" for b' :: "'a batch" and x by (simp add: batch_tracks_def)
  ultimately show ?case using Suc by (auto simp: Let_def split: prod.split)
qed simp

lemma bridge_sender_outside:
  "same_outside (set bridged) m (si_accounts s) \<Longrightarrow> bridge_sender x (s, bridged) = (s', bridged') \<Longrightarrow>
   same_outside (set bridged') m (si_accounts s') \<and> si_state_trie s' = si_state_trie s \<and> si_dag s' = si_dag s"
  by (cases x) (auto simp: bridge_sender_def same_outside_def split: option.splits list.splits if_splits)

lemma bridge_nonces_outside:
  assumes "bridge_nonces iter available s = (s', bridged)"
  shows "same_outside (set bridged) (si_accounts s) (si_accounts s') \<and> si_state_trie s' = si_state_trie s \<and> si_dag s' = si_dag s"
proof -
  let ?P = "\<lambda>y. same_outside (set (snd y)) (si_accounts s) (si_accounts (fst y))
    \<and> si_state_trie (fst y) = si_state_trie s \<and> si_dag (fst y) = si_dag s"
  have "?P (fold bridge_sender (iter available) (s, []))"
  proof (rule fold_keeps [where P = ?P])
    show "?P (bridge_sender x y)" if "?P y" for x y
      using that bridge_sender_outside [of "snd y" "si_accounts s" "fst y" x "fst (bridge_sender x y)" "snd (bridge_sender x y)"] by simp
  qed simp
  then show ?thesis using assms by (simp add: bridge_nonces_def)
qed

lemma execute_batch_inline_tracks:
  assumes "execute_batch_inline itern iter txs available s = (s', r)" "iteration_order iter"
  shows "si_state_trie s' = si_state_trie s \<and> si_dag s' = si_dag s
    \<and> same_outside (set (br_changed_addresses r)) (si_accounts s) (si_accounts s')"
proof -
  obtain s1 bridged where b: "bridge_nonces itern available s = (s1, bridged)" by (cases "bridge_nonces itern available s")
  let ?b0 = "\<lparr>bt_state = s1, bt_executed_count = 0, bt_executed_hashes = [], bt_special_txs = [], bt_new_deferred = [],
                 bt_gap_skipped_senders = [], bt_changed_addrs = remdups bridged, bt_balance_deferred = []\<rparr>"
  have "batch_tracks s ?b0" using bridge_nonces_outside [OF b] by (simp add: batch_tracks_def)
  then have "batch_tracks s (retry_passes part price k (fold (batch_step available part price) txs ?b0))" for part price k
    by (intro retry_passes_tracks fold_keeps [where P = "batch_tracks s"] batch_step_tracks)
  then show ?thesis using assms b by (auto simp: execute_batch_inline_def Let_def batch_tracks_def iteration_order_set)
qed

section \<open>Special transactions and contracts\<close>

lemma special_loop_outside:
  assumes "same_outside (set changed) m accounts" "special_loop f xs (accounts, changed) = (accounts', changed')"
  shows "same_outside (set changed') m accounts'"
proof -
  let ?P = "\<lambda>y. same_outside (set (snd y)) m (fst y)"
  have "?P (special_loop f xs (accounts, changed))"
    unfolding special_loop_def
  proof (rule fold_keeps [where P = ?P])
    show "?P ((\<lambda>(addr, x) (accounts, changed). if hm_contains accounts addr
        then (hm_modify addr (f x) accounts, changed @ [addr]) else (accounts, changed)) e y)" if "?P y" for e y
      using that by (cases e; cases y)
        (auto intro: same_outside_trans [OF _ same_outside_modify [where S = "insert (fst e) (set (snd y))"]])
  qed (simp add: assms(1))
  then show ?thesis by (simp add: assms(2))
qed

lemma apply_special_effects_current: "trie_current env D s \<Longrightarrow> trie_current env D (apply_special_effects env iter e s)"
proof -
  assume c: "trie_current env D s"
  obtain a1 c1 where 1: "special_loop unstake_credit (sf_unstake_credits e) (si_accounts s, []) = (a1, c1)" by (meson surj_pair)
  obtain a2 c2 where 2: "special_loop claim_credit (sf_claim_credits e) (a1, c1) = (a2, c2)" by (meson surj_pair)
  obtain a3 c3 where 3: "special_loop stake_delta (iter (sf_stake_deltas e)) (a2, c2) = (a3, c3)" by (meson surj_pair)
  have "same_outside (set c3) (si_accounts s) a3"
    by (rule special_loop_outside [OF special_loop_outside [OF special_loop_outside [OF _ 1] 2] 3]) simp
  then show ?thesis
    using trie_current_changed [OF c, of "s\<lparr>si_accounts := a3\<rparr>" c3] by (simp add: apply_special_effects_def 1 2 3 Let_def)
qed

lemma charge_fee_current: "trie_current env D s \<Longrightarrow> trie_current env D (charge_contract_execution_fee env from gas price s)"
  by (auto simp: charge_contract_execution_fee_def Let_def intro: trie_current_update)

lemma store_contract_current: "trie_current env D s \<Longrightarrow> trie_current env D (store_contract c s)"
  by (erule trie_current_frame) (simp_all add: store_contract_def)

lemma update_contract_current: "trie_current env D s \<Longrightarrow> trie_current env D (unwrap_or (update_contract_state cid st h ht s) s)"
  by (erule trie_current_frame) (simp_all add: update_contract_state_def split: option.split)

lemma run_contract_current: "trie_current env D s \<Longrightarrow> trie_current env D (run_contract_tx env cx tx s)"
  by (auto simp: run_contract_tx_def execute_contract_transaction_def deploy_contract_def call_contract_def Let_def
      intro: charge_fee_current store_contract_current update_contract_current
      split: option.split ContractTransactionData.split)

lemma special_dag [simp]:
  "si_dag (update_state_trie_accounts env changed s) = si_dag s" "si_dag (apply_special_effects env iter e s) = si_dag s"
  "si_dag (charge_contract_execution_fee env from gas price s) = si_dag s" "si_dag (store_contract c s) = si_dag s"
  "si_dag (unwrap_or (update_contract_state cid st h ht s) s) = si_dag s"
  by (simp_all add: update_state_trie_accounts_def apply_special_effects_def charge_contract_execution_fee_def store_contract_def
      update_contract_state_def Let_def split: prod.split option.split)

lemma run_contract_dag [simp]: "si_dag (run_contract_tx env cx tx s) = si_dag s"
  by (simp add: run_contract_tx_def execute_contract_transaction_def deploy_contract_def call_contract_def Let_def
      split: option.split ContractTransactionData.split)

lemma process_special_dag:
  assumes "process_batch_special_txs_with_skip env cx iter now txs skip n = Some n'"
  shows "si_dag (ns_inner n') = si_dag (ns_inner n)"
proof -
  have "si_dag (fold (run_contract_tx env cx) xs s) = si_dag s" for xs and s :: "'a StateInner"
    by (induction xs arbitrary: s) simp_all
  then show ?thesis using assms
    by (auto simp: process_batch_special_txs_with_skip_def Let_def split: if_splits)
qed

lemma process_special_current:
  assumes "trie_current env D (ns_inner n)" "process_batch_special_txs_with_skip env cx iter now txs skip n = Some n'"
  shows "trie_current env D (ns_inner n')"
proof -
  have "trie_current env D (fold (run_contract_tx env cx) xs (apply_special_effects env iter e (ns_inner n)))" for xs e
    by (rule fold_keeps [where P = "trie_current env D"]) (simp_all add: run_contract_current apply_special_effects_current assms(1))
  then show ?thesis using assms(2)
    by (auto simp: process_batch_special_txs_with_skip_def Let_def split: if_splits)
qed

section \<open>The whole batch\<close>

lemma prepare_batch_inner [simp]: "ns_inner (fst (prepare_batch_txs txs fp n)) = ns_inner n"
  by (simp add: prepare_batch_txs_def Let_def)

lemma store_deferred_inner [simp]: "ns_inner (store_batch_deferred d c n) = ns_inner n"
  by (simp add: store_batch_deferred_def Let_def)

lemma reward_infos_inner [simp]: "ns_inner (process_batch_reward_infos G now txs hashes n) = ns_inner n"
  by (simp add: process_batch_reward_infos_def Let_def)

lemma special_txs_have_kind:
  assumes "execute_batch_inline itern iter txs available s = (s', r)"
  shows "\<not> list_ex (\<lambda>tx. st_kind tx = None) (br_special_txs r)"
  using batch_trace [OF assms] by (auto simp: list_ex_iff)

lemma batch_keeps_trie_and_dag:
  assumes "trie_current env D (ns_inner n)" "iteration_order (bo_changed orders)"
  shows "\<exists>n' hashes. execute_finalized_transactions_batch env G cx orders now txs fast n = Some (n', hashes)
    \<and> trie_current env D (ns_inner n') \<and> si_dag (ns_inner n') = si_dag (ns_inner n)"
proof -
  obtain n1 all_txs skipped from_def expired counts where p: "prepare_batch_txs txs fast n = (n1, all_txs, skipped, from_def, expired, counts)"
    by (metis surj_pair)
  then have n1: "ns_inner n1 = ns_inner n" using prepare_batch_inner [of txs fast n] by simp
  obtain s r where b: "execute_batch_inline (bo_nonces orders) (bo_changed orders) all_txs (available_nonces all_txs) (ns_inner n1) = (s, r)"
    by (metis surj_pair)
  let ?s = "if br_changed_addresses r \<noteq> [] then update_state_trie_accounts env (br_changed_addresses r) s else s"
  let ?n = "store_batch_deferred (br_new_deferred r) counts (n1\<lparr>ns_inner := ?s\<rparr>)"
  have cur: "trie_current env D (ns_inner ?n)"
    using trie_current_changed [OF assms(1), of s] execute_batch_inline_tracks [OF b assms(2)] by (simp add: n1 split del: if_split)
  obtain n2 where s2: "process_batch_special_txs_with_skip env cx (bo_deltas orders) now (br_special_txs r) [] ?n = Some n2"
    using special_txs_have_kind [OF b] by (simp add: process_batch_special_txs_with_skip_def Let_def)
  have "trie_current env D (ns_inner n2)" by (rule process_special_current [OF cur s2])
  moreover have "si_dag (ns_inner n2) = si_dag (ns_inner n)"
    using process_special_dag [OF s2] execute_batch_inline_tracks [OF b assms(2)] by (simp add: n1)
  ultimately show ?thesis using assms(1) by (simp add: execute_finalized_transactions_batch_def process_batch_special_txs_def p b [unfolded n1] s2 n1 Let_def)
qed

section \<open>The fast path\<close>

definition fast_tracks :: "'g StateInner \<Rightarrow> 'g fast_batch \<Rightarrow> bool" where
  "fast_tracks s b \<longleftrightarrow> si_state_trie (fx_state b) = si_state_trie s \<and> si_dag (fx_state b) = si_dag s
     \<and> same_outside (set (fx_changed b)) (si_accounts s) (si_accounts (fx_state b))"

lemma fast_apply_outside_accounts [simp]:
  "si_state_trie (fast_apply now tx s) = si_state_trie s" "si_dag (fast_apply now tx s) = si_dag s"
  by (simp_all add: fast_apply_def pool_insert_def record_finality_def Let_def split: prod.splits)

lemma fast_accounts_outside:
  "st_from tx \<in> S \<Longrightarrow> (fast_pays tx \<Longrightarrow> st_to tx \<in> S) \<Longrightarrow> same_outside S m (fast_accounts price now tx m)"
  unfolding fast_accounts_def credit_account_def hm_entry_def Let_def
  by (auto intro!: same_outside_trans [where S = S and T = S and U = S and m = m, OF same_outside_modify same_outside_insert])

lemma settle_fields [simp]: "fx_state (settle i e b) = fx_state b" "fx_changed (settle i e b) = fx_changed b"
  by (simp_all add: settle_def)

lemma fast_execute_tracks: "fast_tracks s b \<Longrightarrow> fast_tracks s (fast_execute now i tx b)"
  unfolding fast_tracks_def fast_execute_def Let_def
  by (auto intro: same_outside_trans [OF _ fast_accounts_outside])

lemma fast_step_tracks: "fast_tracks s b \<Longrightarrow> fast_tracks s (fast_step now e b)"
  by (cases e) (auto simp: fast_step_def fast_execute_tracks split: option.split, auto simp: fast_tracks_def)

lemma fast_passes_tracks: "fast_tracks s b \<Longrightarrow> fast_tracks s (fast_passes now txs k b)"
proof (induction k arbitrary: b)
  case (Suc k)
  have "fast_tracks s (b\<lparr>fx_progress := False, fx_skipped := []\<rparr>)" using Suc.prems by (simp add: fast_tracks_def)
  then have "fast_tracks s (fold (fast_step now) (enumerate 0 txs) (b\<lparr>fx_progress := False, fx_skipped := []\<rparr>))"
    by (intro fold_keeps [where P = "fast_tracks s"] fast_step_tracks)
  then show ?case using Suc.IH by (simp add: Let_def)
qed simp

lemma fast_leftover_tracks: "fast_tracks s b \<Longrightarrow> fast_tracks s (fast_leftover e b)"
  by (cases e) (simp add: fast_leftover_def fast_tracks_def)

lemma fast_path_keeps_trie_and_dag:
  assumes "trie_current env D (ns_inner n)"
  shows "trie_current env D (ns_inner (fst (execute_fast_path_batch env now txs n)))
    \<and> si_dag (ns_inner (fst (execute_fast_path_batch env now txs n))) = si_dag (ns_inner n)"
proof -
  let ?b0 = "\<lparr>fx_state = ns_inner n, fx_results = [], fx_executed = [], fx_changed = [], fx_skipped = [], fx_progress = True\<rparr>"
  have "fast_tracks (ns_inner n) ?b0" by (simp add: fast_tracks_def)
  then have "fast_tracks (ns_inner n) (fold fast_leftover (enumerate 0 txs) (fast_passes now txs MAX_PASSES ?b0))"
    by (intro fold_keeps [where P = "fast_tracks (ns_inner n)"] fast_leftover_tracks fast_passes_tracks)
  then show ?thesis
    using trie_current_changed [OF assms, of "fx_state (fold fast_leftover (enumerate 0 txs) (fast_passes now txs MAX_PASSES ?b0))"]
    by (simp add: execute_fast_path_batch_def Let_def fast_tracks_def split del: if_split) simp
qed

section \<open>One transaction\<close>

lemma staked_current: "trie_current env D s \<Longrightarrow> trie_current env D (update_account_staked env now a x t s)"
  unfolding update_account_staked_def Let_def by (erule trie_current_update) simp_all

lemma side_effects_current:
  assumes "trie_current env D (ns_inner n)"
  shows "trie_current env D (ns_inner (execute_transaction_side_effects env cx now tx n))"
    and "si_dag (ns_inner (execute_transaction_side_effects env cx now tx n)) = si_dag (ns_inner n)"
  using assms
  by (auto simp: execute_transaction_side_effects_def update_account_staked_def Let_def intro: run_contract_current staked_current trie_current_update
      split: prod.split sum.split option.split)

text \<open>
  The sender's entry may be stale afterwards, when the execution ends early, and the account
  with the empty address, which is credited but not written.
\<close>

definition single_stale :: "SignedTransaction \<Rightarrow> string set" where
  "single_stale tx = insert (st_from tx) (if st_to tx = [] then {[]} else {})"

lemma core_ledger_current:
  assumes "trie_current env D s"
  shows "trie_current env (D \<union> single_stale tx) (fst (core_ledger env tx s))" and "si_dag (fst (core_ledger env tx s)) = si_dag s"
proof -
  let ?changed = "st_from tx # (if pays_recipient tx \<and> st_to tx \<noteq> [] then [st_to tx] else [])"
  let ?bridged = "\<lambda>account. s\<lparr>si_accounts := hm_insert (st_from tx) (account\<lparr>acc_nonce := st_nonce tx\<rparr>) (si_accounts s)\<rparr>"
  have applied: "trie_current env (D \<union> single_stale tx) (update_state_trie_accounts env ?changed (apply_tx part price tx t))"
    if "same_outside {st_from tx} (si_accounts s) (si_accounts t)" "si_state_trie t = si_state_trie s" for part price t
    by (rule trie_current_written [OF assms]) (use that in \<open>auto simp: single_stale_def intro: same_outside_trans [OF that(1) apply_tx_outside]\<close>)
  have unchanged: "trie_current env (D \<union> single_stale tx) s" by (rule trie_current_mono [OF assms]) simp
  have bridged: "trie_current env (D \<union> single_stale tx) (?bridged account)" for account
    by (rule trie_current_stale [OF assms]) (simp_all add: single_stale_def)
  show "trie_current env (D \<union> single_stale tx) (fst (core_ledger env tx s))"
    using applied [of s] applied [of "?bridged _"] unchanged bridged by (auto simp: core_ledger_def Let_def split: option.split)
  show "si_dag (fst (core_ledger env tx s)) = si_dag s" by (simp add: core_ledger_def Let_def split: option.split)
qed

lemma rewards_inner [simp]: "ns_inner (execute_finalized_transaction_rewards G now tx n) = ns_inner n"
  by (simp add: execute_finalized_transaction_rewards_def Let_def)

lemma single_execution_stale:
  assumes "trie_current env D (ns_inner n)"
  shows "trie_current env (D \<union> single_stale tx) (ns_inner (execute_finalized_transaction env G cx now tx n))"
    and "si_dag (ns_inner (execute_finalized_transaction env G cx now tx n)) = si_dag (ns_inner n)"
proof -
  obtain s applied where c: "core_ledger env tx (ns_inner n) = (s, applied)" by fastforce
  have s: "trie_current env (D \<union> single_stale tx) s" "si_dag s = si_dag (ns_inner n)"
    using core_ledger_current [OF assms, of tx] by (simp_all add: c)
  have n: "trie_current env (D \<union> single_stale tx) (ns_inner n)" by (rule trie_current_mono [OF assms]) simp
  show "trie_current env (D \<union> single_stale tx) (ns_inner (execute_finalized_transaction env G cx now tx n))"
    using side_effects_current(1) [of env "D \<union> single_stale tx" "n\<lparr>ns_inner := s\<rparr>" cx now tx] s n
    by (simp add: execute_finalized_transaction_def execute_finalized_transaction_core_def c Let_def)
  show "si_dag (ns_inner (execute_finalized_transaction env G cx now tx n)) = si_dag (ns_inner n)"
    using side_effects_current(2) [of env "D \<union> single_stale tx" "n\<lparr>ns_inner := s\<rparr>" cx now tx] s
    by (simp add: execute_finalized_transaction_def execute_finalized_transaction_core_def c Let_def)
qed

section \<open>One transaction and a batch of one\<close>

lemma available_single: "available_nonces [tx] = [(st_from tx, [st_nonce tx])]"
  by (simp add: available_nonces_def hm_entry_def hm_insert_def insort_insert_key_def)

lemma retry_none: "bt_balance_deferred b = [] \<Longrightarrow> retry_passes part price k b = b"
  by (cases k) simp_all

abbreviation fresh_batch :: "'g StateInner \<Rightarrow> string list \<Rightarrow> 'g batch" where
  "fresh_batch s changed \<equiv>
     \<lparr>bt_state = s, bt_executed_count = 0, bt_executed_hashes = [], bt_special_txs = [], bt_new_deferred = [],
      bt_gap_skipped_senders = [], bt_changed_addrs = changed, bt_balance_deferred = []\<rparr>"

lemma batch_of_one:
  assumes "st_kind tx \<noteq> Some Consolidation" "hm_get (si_accounts s) (st_from tx) = Some a" "acc_nonce a = st_nonce tx"
  shows "let b = retry_passes part price (Suc k) (batch_step available part price tx (fresh_batch s changed))
    in bt_state b = (if acc_balance a < tx_cost price tx then s else apply_tx part price tx s)
      \<and> (st_hash tx \<in> set (bt_executed_hashes b) \<longleftrightarrow> \<not> acc_balance a < tx_cost price tx)"
  using assms by (simp add: batch_step_def retry_step_def execute_in_batch_def Let_def)

lemma batch_of_one_waits:
  assumes "hm_get (si_accounts s) (st_from tx) = Some a" "acc_nonce a \<noteq> st_nonce tx" "st_kind tx \<noteq> Some Consolidation"
  shows "let b = retry_passes part price k (batch_step available part price tx (fresh_batch s changed))
    in bt_state b = s \<and> bt_executed_hashes b = []"
  using assms by (auto simp: batch_step_def retry_none defer_tx_def Let_def split: option.split)

lemma core_ledger_cases:
  assumes "hm_get (si_accounts s) (st_from tx) = Some a"
    and "bridge_sender (st_from tx, [st_nonce tx]) (s, []) = (t, bridged)"
  shows "\<exists>b. hm_get (si_accounts t) (st_from tx) = Some b \<and> acc_balance b = acc_balance a
    \<and> core_ledger env tx s =
      (if acc_nonce b \<noteq> st_nonce tx \<or> acc_balance a < tx_cost (si_current_gas_price s) tx then (t, False)
       else (update_state_trie_accounts env (st_from tx # (if pays_recipient tx \<and> st_to tx \<noteq> [] then [st_to tx] else []))
               (apply_tx (is_partitioned s) (si_current_gas_price s) tx t), True))"
proof (cases "st_nonce tx > acc_nonce a \<and> (\<exists>fp. fast_path_nonce s (st_from tx) = Some fp \<and> st_nonce tx \<le> fp)")
  case True
  then obtain fp where fp: "acc_nonce a < st_nonce tx" "fast_path_nonce s (st_from tx) = Some fp" "st_nonce tx \<le> fp" by blast
  have t: "t = s\<lparr>si_accounts := hm_insert (st_from tx) (a\<lparr>acc_nonce := st_nonce tx\<rparr>) (si_accounts s)\<rparr>"
    using assms fp by (simp add: bridge_sender_def)
  have "\<not> st_nonce tx < acc_nonce a" "\<not> fp < st_nonce tx" using fp by auto
  then show ?thesis using assms(1) fp
    by (intro exI [of _ "a\<lparr>acc_nonce := st_nonce tx\<rparr>"]) (simp add: core_ledger_def t Let_def)
next
  case False
  have t: "t = s" using assms False by (auto simp: bridge_sender_def split: option.splits if_splits)
  have "core_ledger env tx s = (s, False)" if "acc_nonce a \<noteq> st_nonce tx"
  proof (cases "fast_path_nonce s (st_from tx)")
    case None
    then show ?thesis using assms(1) that by (simp add: core_ledger_def Let_def)
  next
    case (Some fp)
    then have "st_nonce tx > acc_nonce a \<longrightarrow> fp < st_nonce tx" using False by auto
    then show ?thesis using Some assms(1) that by (simp add: core_ledger_def Let_def)
  qed
  moreover have "core_ledger env tx s = (if acc_balance a < tx_cost (si_current_gas_price s) tx then (s, False)
       else (update_state_trie_accounts env (st_from tx # (if pays_recipient tx \<and> st_to tx \<noteq> [] then [st_to tx] else []))
               (apply_tx (is_partitioned s) (si_current_gas_price s) tx s), True))" if "acc_nonce a = st_nonce tx"
    using assms(1) that by (simp add: core_ledger_def Let_def)
  ultimately show ?thesis using assms(1) by (intro exI [of _ a]) (cases "acc_nonce a = st_nonce tx"; simp add: t)
qed

text \<open>
  Up to the side effects of its kind, a finalized transaction other than a consolidation that is
  executed on its own leaves the accounts and the totals as the batch of it alone does, and is
  applied in the same cases.
\<close>
lemma single_execution_is_batch:
  assumes "st_kind tx \<noteq> Some Consolidation" "iteration_order itern"
  shows "let (s1, applied) = core_ledger env tx s;
             (s2, r) = execute_batch_inline itern iter [tx] (available_nonces [tx]) s
         in s1\<lparr>si_state_trie := si_state_trie s\<rparr> = s2 \<and> (applied \<longleftrightarrow> st_hash tx \<in> set (br_executed_hashes r))"
proof -
  have it: "itern [x] = [x]" for x using assms(2) by (metis iteration_order_def mset_single_iff_right mset.simps mset_single_iff)
  show ?thesis
  proof (cases "hm_get (si_accounts s) (st_from tx)")
    case None
    then show ?thesis using assms(1)
      by (simp add: core_ledger_def execute_batch_inline_def bridge_nonces_def available_single it bridge_sender_def batch_step_def
          execute_in_batch_def retry_none Let_def update_state_trie_accounts_def apply_tx_def)
  next
    case (Some a)
    obtain t bridged where br: "bridge_sender (st_from tx, [st_nonce tx]) (s, []) = (t, bridged)" by (metis surj_pair)
    obtain b where b: "hm_get (si_accounts t) (st_from tx) = Some b" "acc_balance b = acc_balance a"
      and core: "core_ledger env tx s =
        (if acc_nonce b \<noteq> st_nonce tx \<or> acc_balance a < tx_cost (si_current_gas_price s) tx then (t, False)
         else (update_state_trie_accounts env (st_from tx # (if pays_recipient tx \<and> st_to tx \<noteq> [] then [st_to tx] else []))
               (apply_tx (is_partitioned s) (si_current_gas_price s) tx t), True))"
      using core_ledger_cases [OF Some br] by blast
    have trie: "si_state_trie t = si_state_trie s"
      using bridge_sender_outside [of "[]" "si_accounts s" s, OF _ br] by simp
    have batch: "execute_batch_inline itern iter [tx] (available_nonces [tx]) s = (s2, r) \<Longrightarrow>
        s2 = bt_state B \<and> br_executed_hashes r = bt_executed_hashes B"
      if "B = retry_passes (is_partitioned s) (si_current_gas_price s) (Suc 4)
        (batch_step (available_nonces [tx]) (is_partitioned s) (si_current_gas_price s) tx (fresh_batch t (remdups bridged)))" for s2 r B
      by (auto simp: execute_batch_inline_def bridge_nonces_def available_single it br that MAX_CROSS_SENDER_PASSES_def eval_nat_numeral Let_def)
    show ?thesis
    proof (cases "acc_nonce b = st_nonce tx")
      case True
      from batch_of_one [OF assms(1) b(1) this, of "is_partitioned s" "si_current_gas_price s" 4 "available_nonces [tx]" "remdups bridged"]
      show ?thesis using batch [OF refl] True trie unfolding core
        by (auto simp: b(2) Let_def update_state_trie_accounts_def split: prod.splits)
    next
      case False
      from batch_of_one_waits [OF b(1) this assms(1), of "is_partitioned s" "si_current_gas_price s" "Suc 4" "available_nonces [tx]" "remdups bridged"]
      show ?thesis using batch [OF refl] False trie unfolding core
        by (auto simp: Let_def split: prod.splits)
    qed
  qed
qed

section \<open>A small node\<close>

definition sample_runtime :: contract_env where
  "sample_runtime =
     \<lparr>cx_from_data_field = (\<lambda>_. None),
      cx_execute = (\<lambda>_ _ _ _ _ _ _ _ _. \<lparr>er_success = False, er_state_diff = None, er_gas_used = 0, er_error = None, er_logs = [], er_events = []\<rparr>)\<rparr>"

definition current_node :: "(DagNode list \<times> (nat \<times> nat) list) NodeState" where
  "current_node =
     \<lparr>ns_inner = sample_ledger\<lparr>si_state_trie := write_accounts sample_env sample_accounts (SparseMerkleTrie_new sample_env)\<rparr>,
      ns_rewards = RewardsService_new RewardConfig_default, ns_deferred_batch_txs = [], ns_deferred_retry_counts = []\<rparr>"

lemma current_node_ok: "trie_current sample_env {} (ns_inner current_node)"
  unfolding trie_current_def
  by (rule exI [of _ sample_accounts]) (simp add: current_node_def sample_accounts_def)

lemma single_execution_is_batch_witness:
  "let (s1, applied) = core_ledger sample_env (sample_pay ''h'' 0 10) sample_ledger;
       (s2, r) = execute_batch_inline (\<lambda>xs. xs) (\<lambda>xs. xs) [sample_pay ''h'' 0 10] (available_nonces [sample_pay ''h'' 0 10]) sample_ledger
   in s1\<lparr>si_state_trie := si_state_trie sample_ledger\<rparr> = s2 \<and> (applied \<longleftrightarrow> ''h'' \<in> set (br_executed_hashes r))"
  using single_execution_is_batch [of "sample_pay ''h'' 0 10" "\<lambda>xs. xs"] by (simp add: sample_pay_def)

section \<open>Where the paths differ\<close>

text \<open>
  A transaction executed on its own whose sender is moved up to its nonce and cannot pay
  returns before the trie is updated: the account has a new nonce, the trie the old one.
\<close>

lemma bridged_nonce_not_committed:
  assumes "hm_get (si_accounts s) (st_from tx) = Some a" "acc_nonce a < st_nonce tx"
    and "fast_path_nonce s (st_from tx) = Some fp" "st_nonce tx \<le> fp" "acc_balance a < tx_cost (si_current_gas_price s) tx"
  shows "si_state_trie (fst (core_ledger env tx s)) = si_state_trie s
    \<and> map_option acc_nonce (hm_get (si_accounts (fst (core_ledger env tx s))) (st_from tx)) = Some (st_nonce tx)"
proof -
  have "\<not> st_nonce tx < acc_nonce a" "\<not> fp < st_nonce tx" using assms(2,4) by auto
  then show ?thesis using assms by (simp add: core_ledger_def Let_def)
qed

text \<open>
  A stake below the minimum, finalized in a batch, is refused by the rewards service but added
  to the stake of the account all the same.
\<close>

lemma refused_stake_still_booked:
  assumes "st_kind tx = Some Stake" "st_amount tx < rc_min_stake_amount (rw_config (ns_rewards n))"
    and "hm_get (si_accounts (ns_inner n)) (st_from tx) = Some a"
  shows "\<exists>n'. process_batch_special_txs env cx (\<lambda>xs. xs) now [tx] n = Some n' \<and> ns_rewards n' = ns_rewards n
    \<and> map_option acc_staked (hm_get (si_accounts (ns_inner n')) (st_from tx)) = Some (acc_staked a + st_amount tx)"
  using assms
  by (auto simp: process_batch_special_txs_def process_batch_special_txs_with_skip_def special_step_def stake_effect_def
      rewards_stake_def apply_special_effects_def special_loop_def stake_delta_def hm_contains_def hm_insert_def hm_get_modify
      update_state_trie_accounts_def Let_def split: option.split)

end
