(* ===== verification/Rinku_Admission_Properties.thy ===== *)
theory Rinku_Admission_Properties
  imports Rinku_Admission Rinku_Finalize_Properties
begin

text \<open>
  What admission guarantees of a transaction it accepts, whatever other operations run between
  its critical sections, and what its checks do not cover.
\<close>

section \<open>The effective nonce\<close>

fun first_gap :: "u64 \<Rightarrow> u64 list \<Rightarrow> u64" where
  "first_gap e [] = e"
| "first_gap e (n # ns) = (if n = e then first_gap (e + 1) ns else e)"

lemma count_contiguous_gap: "c + count_contiguous c ns k = first_gap (c + k) ns"
  by (induction c ns k rule: count_contiguous.induct) (simp_all add: add.assoc)

lemma first_gap_spec:
  assumes "sorted_wrt (<) ns" "\<forall>n \<in> set ns. e \<le> n \<and> n < - 1"
  shows "e \<le> first_gap e ns \<and> first_gap e ns \<notin> set ns \<and> (\<forall>n. e \<le> n \<longrightarrow> n < first_gap e ns \<longrightarrow> n \<in> set ns)"
  using assms
proof (induction ns arbitrary: e)
  case (Cons m ns)
  show ?case
  proof (cases "m = e")
    case False
    then have "\<forall>n \<in> set (m # ns). e < n" using Cons.prems by (auto intro: le_neq_trans less_trans)
    then show ?thesis using False by auto
  next
    case True
    have "e < - 1" using Cons.prems(2) True by simp
    then have up: "e < e + 1" by (metis linorder_not_le order_less_irrefl inc_less_eq_triv_imp)
    have "\<forall>n \<in> set ns. e + 1 \<le> n \<and> n < - 1" using Cons.prems True by (auto intro: inc_le)
    from Cons.IH [OF _ this] Cons.prems(1) have IH: "e + 1 \<le> first_gap (e + 1) ns" "first_gap (e + 1) ns \<notin> set ns"
      "\<And>n. e + 1 \<le> n \<Longrightarrow> n < first_gap (e + 1) ns \<Longrightarrow> n \<in> set ns" by auto
    have "n \<in> set (m # ns)" if "e \<le> n" "n < first_gap (e + 1) ns" for n
      using that IH(3) [of n] True by (cases "n = e") (auto intro: inc_le le_neq_trans)
    then show ?thesis using IH(1,2) up True by auto
  qed
qed (simp add: not_less)

lemma strict_sorted_dedup: "sorted_wrt (<) (remdups_adj (sort (xs :: 'a::linorder list)))"
proof -
  have "sorted_wrt (<) (remdups_adj ys)" if "sorted ys" for ys :: "'a list"
    using that by (induction ys rule: remdups_adj.induct) (auto simp: less_le)
  then show ?thesis by simp
qed

text \<open>
  C15: the nonce a sender has to use next is the first one from its account nonce on that no
  pending transaction of it carries: every nonce below is pending, so it neither leaves a gap
  nor takes a nonce twice.
\<close>
theorem effective_nonce_first_free:
  assumes "- 1 \<notin> set (pending_nonces G iter s sender)"
  shows "account_nonce_of s sender \<le> get_effective_nonce G iter s sender
    \<and> get_effective_nonce G iter s sender \<notin> set (pending_nonces G iter s sender)
    \<and> (\<forall>n. account_nonce_of s sender \<le> n \<longrightarrow> n < get_effective_nonce G iter s sender \<longrightarrow> n \<in> set (pending_nonces G iter s sender))"
proof -
  let ?ns = "remdups_adj (sort (pending_nonces G iter s sender))"
  have "n < - 1" if "n \<in> set (pending_nonces G iter s sender)" for n
    using that assms by (metis le_neq_trans word_n1_ge)
  then have "\<forall>n \<in> set ?ns. account_nonce_of s sender \<le> n \<and> n < - 1" by (auto simp: pending_nonces_def)
  from first_gap_spec [OF strict_sorted_dedup this]
  show ?thesis by (simp add: get_effective_nonce_def count_contiguous_gap Let_def)
qed

section \<open>What admission guarantees\<close>

lemma first_error_None: "first_error cs = None \<longleftrightarrow> (\<forall>c \<in> set cs. c = None)"
  by (induction cs rule: first_error.induct) auto

lemma require_None [simp]: "require ok e = None \<longleftrightarrow> ok"
  by (simp add: require_def)

lemma authentic_SomeD:
  assumes "verify_user_tx_authenticity env ec tx provided known = Inr pk"
  shows "fingerprint_from_public_key_hex env ec pk = Inr (st_from tx) \<and> verify_tx_signature env ec pk (st_hash tx) (st_signature tx) = Inr ()"
  using assms by (auto simp: verify_user_tx_authenticity_def split: if_splits sum.splits)

lemma bind_pubkey_frame:
  assumes "bind_pubkey pk tx s = (s', r)"
  shows "si_dag s' = si_dag s \<and> (\<forall>addr. map_option account_core (hm_get (si_accounts s') addr) = map_option account_core (hm_get (si_accounts s) addr))"
  using assms by (auto simp: bind_pubkey_def account_core_def split: option.splits if_splits)

text \<open>
  What the sender has pending and what a transaction costs, without wrap-around: the amounts
  (of contract transactions too, when they are pending) and the gas.
\<close>

definition exact_pending :: "'g petgraph \<Rightarrow> (string list \<Rightarrow> string list) \<Rightarrow> 'g StateInner \<Rightarrow> string \<Rightarrow> nat" where
  "exact_pending G iter s sender =
     (\<Sum>node \<leftarrow> filter (\<lambda>node. account_nonce_of s sender \<le> st_nonce (dn_tx node)) (get_unfinalized_for_sender G iter (si_dag s) sender).
        (if st_kind (dn_tx node) \<in> {Some Unstake, Some ClaimRewards} then 0 else unat (st_amount (dn_tx node)))
        + unat (tx_gas_fee (si_current_gas_price s) (dn_tx node)))"

definition exact_cost :: "u64 \<Rightarrow> SignedTransaction \<Rightarrow> nat" where
  "exact_cost price tx =
     (if st_kind tx \<in> {Some Unstake, Some ClaimRewards, Some Contract} then 0 else unat (st_amount tx)) + unat (tx_gas_fee price tx)"

lemma exact_cost_fits: "exact_cost price tx < 2 ^ 64 \<Longrightarrow> unat (tx_cost price tx) = exact_cost price tx"
  by (auto simp: exact_cost_def tx_cost_def unat_add_no_overflow)

lemma pending_fold_exact:
  "fold (pending_step price nonce) nodes (a, g, k) = (a', g', k') \<Longrightarrow>
   unat a + unat g + (\<Sum>node \<leftarrow> filter (\<lambda>node. nonce \<le> st_nonce (dn_tx node)) nodes.
      (if st_kind (dn_tx node) \<in> {Some Unstake, Some ClaimRewards} then 0 else unat (st_amount (dn_tx node)))
      + unat (tx_gas_fee price (dn_tx node))) < 2 ^ 64 \<Longrightarrow>
   unat a' + unat g' = unat a + unat g + (\<Sum>node \<leftarrow> filter (\<lambda>node. nonce \<le> st_nonce (dn_tx node)) nodes.
      (if st_kind (dn_tx node) \<in> {Some Unstake, Some ClaimRewards} then 0 else unat (st_amount (dn_tx node)))
      + unat (tx_gas_fee price (dn_tx node)))"
proof (induction nodes arbitrary: a g k)
  case (Cons node nodes)
  let ?x = "if st_kind (dn_tx node) \<in> {Some Unstake, Some ClaimRewards} then 0 else st_amount (dn_tx node)"
    and ?f = "tx_gas_fee price (dn_tx node)"
  show ?case
  proof (cases "nonce \<le> st_nonce (dn_tx node)")
    case True
    have x: "unat ?x = (if st_kind (dn_tx node) \<in> {Some Unstake, Some ClaimRewards} then 0 else unat (st_amount (dn_tx node)))" by simp
    have step: "pending_step price nonce node (a, g, k) = (a + ?x, g + ?f, k + 1)" using True by (auto simp: pending_step_def)
    have fits: "unat (a + ?x) = unat a + unat ?x" "unat (g + ?f) = unat g + unat ?f"
      using Cons.prems(2) True x by (auto intro!: unat_add_no_overflow)
    show ?thesis using Cons.IH [of "a + ?x" "g + ?f" "k + 1"] Cons.prems True x fits step by simp
  next
    case False
    then have "pending_step price nonce node (a, g, k) = (a, g, k)" by (simp add: pending_step_def)
    then show ?thesis using Cons False by simp
  qed
qed simp

text \<open>What is left after the reserved funds covers a positive cost, so the balance covers all of it.\<close>

lemma check_funds_reserves:
  assumes "check_funds G iter s tx = None" "0 < exact_cost (si_current_gas_price s) tx"
    and fits: "exact_pending G iter s (st_from tx) + exact_cost (si_current_gas_price s) tx < 2 ^ 64"
  shows "exact_pending G iter s (st_from tx) + exact_cost (si_current_gas_price s) tx \<le> balance_of (si_accounts s) (st_from tx)"
proof -
  let ?b = "case hm_get (si_accounts s) (st_from tx) of Some a \<Rightarrow> acc_balance a | None \<Rightarrow> 0"
  obtain amount gas k where st: "get_pending_stats_for_sender G iter s (st_from tx) = (amount, gas, k)" by (metis surj_pair)
  have cost: "unat (tx_cost (si_current_gas_price s) tx) = exact_cost (si_current_gas_price s) tx" using fits by (intro exact_cost_fits) simp
  have "unat amount + unat gas = exact_pending G iter s (st_from tx)"
    using pending_fold_exact [OF st [unfolded get_pending_stats_for_sender_def]] fits by (simp add: exact_pending_def)
  moreover have "tx_cost (si_current_gas_price s) tx \<le> saturating_sub (saturating_sub ?b amount) gas"
    using assms(1) st by (simp add: check_funds_def get_effective_balance_and_nonce_def get_effective_balance_def Let_def)
  then have "unat (tx_cost (si_current_gas_price s) tx) \<le> unat ?b - unat amount - unat gas"
    by (simp add: word_le_nat_alt unat_saturating_sub)
  moreover have "unat ?b = balance_of (si_accounts s) (st_from tx)" by (simp split: option.split)
  ultimately show ?thesis using assms(2) cost by linarith
qed

lemma admitted_commit:
  assumes "add_transaction_authenticated env ec fe G cx r tx provided s = (s', Inr Accepted)"
  obtains pk d where "\<not> is_system_transaction tx" "verify_user_tx_authenticity env ec tx provided (known_pubkey (ar_key_state r) tx) = Inr pk"
    "check_funds G (ar_write_order r) s tx = None" "check_nonce G (ar_write_order r) s tx = None"
    "add_node G (ar_write_ms r) (admit_node fe G r tx) (si_dag s) = Inr d"
    "bind_pubkey (Some pk) tx (s\<lparr>si_dag := d\<rparr>) = (s', Inr Accepted)"
  using assms by (auto simp: add_transaction_authenticated_def reject_external_system_transaction_def admit_transaction_inner_def
      admit_commit_def recheck_def first_error_None Let_def split: if_splits sum.splits option.splits)

lemma add_node_known: "dag_inv G d \<Longrightarrow> get_node G d (dn_hash node) \<noteq> None \<Longrightarrow> add_node G now node d = Inr d"
  using get_node_None_index [OF dag_inv_views(1), of G d "dn_hash node"] by (simp add: add_node_eq hm_contains_def)

text \<open>
  C6: a transaction accepted from outside carries a valid signature of its hash under a key that
  belongs to its sender and has the next free nonce in the state in which it is added, whatever
  happened since it was first checked. If its cost is positive and neither the cost nor the sum
  of all the sender has pending overflows 64 bits, the balance there covers that sum and the
  cost (without these conditions it need not: a cost that wraps around to 0 is accepted with an
  empty balance). If its hash was not in the DAG yet the transaction is in it afterwards; if it
  was, the DAG is unchanged. The DAG stays consistent, and no balance, nonce or stake has changed.
\<close>
theorem admission_sound:
  assumes "petgraph_laws G" "dag_inv G (si_dag s)"
    and "add_transaction_authenticated env ec fe G cx r tx provided s = (s', Inr Accepted)"
  shows "(\<exists>pk. fingerprint_from_public_key_hex env ec pk = Inr (st_from tx)
        \<and> verify_tx_signature env ec pk (st_hash tx) (st_signature tx) = Inr ())
    \<and> st_nonce tx = get_effective_nonce G (ar_write_order r) s (st_from tx)
    \<and> (0 < exact_cost (si_current_gas_price s) tx \<longrightarrow>
        exact_pending G (ar_write_order r) s (st_from tx) + exact_cost (si_current_gas_price s) tx < 2 ^ 64 \<longrightarrow>
        exact_pending G (ar_write_order r) s (st_from tx) + exact_cost (si_current_gas_price s) tx \<le> balance_of (si_accounts s) (st_from tx))
    \<and> (if get_node G (si_dag s) (st_hash tx) = None then map_option dn_tx (get_node G (si_dag s') (st_hash tx)) = Some tx
       else si_dag s' = si_dag s)
    \<and> dag_inv G (si_dag s')
    \<and> (\<forall>addr. map_option account_core (hm_get (si_accounts s') addr) = map_option account_core (hm_get (si_accounts s) addr))"
proof -
  obtain pk d where a: "verify_user_tx_authenticity env ec tx provided (known_pubkey (ar_key_state r) tx) = Inr pk"
    "check_funds G (ar_write_order r) s tx = None" "check_nonce G (ar_write_order r) s tx = None"
    "add_node G (ar_write_ms r) (admit_node fe G r tx) (si_dag s) = Inr d"
    "bind_pubkey (Some pk) tx (s\<lparr>si_dag := d\<rparr>) = (s', Inr Accepted)"
    by (rule admitted_commit [OF assms(3)])
  have n: "dn_children (admit_node fe G r tx) = []" "dn_hash (admit_node fe G r tx) = st_hash tx" "dn_tx (admit_node fe G r tx) = tx"
    by (simp_all add: admit_node_def new_dag_node_def)
  have "get_node G d (st_hash tx) = Some (admit_node fe G r tx)" if "get_node G (si_dag s) (st_hash tx) = None"
    using add_node_kept(2) [OF assms(1,2) n(1) _ a(4)] that by (simp add: n)
  moreover have "d = si_dag s" if "get_node G (si_dag s) (st_hash tx) \<noteq> None"
    using add_node_known [OF assms(2), of "admit_node fe G r tx" "ar_write_ms r"] that a(4) by (simp add: n)
  moreover have "dag_inv G d" using add_node_inv [OF assms(1,2) n(1) a(4)] by blast
  moreover have "st_nonce tx = get_effective_nonce G (ar_write_order r) s (st_from tx)" using a(3) by (simp add: check_nonce_def Let_def)
  ultimately show ?thesis
    using authentic_SomeD [OF a(1)] bind_pubkey_frame [OF a(5)] check_funds_reserves [OF a(2)] by (auto simp: n)
qed

text \<open>
  A key that was authentic agrees with the one known then, so a mismatch found while writing
  means that another key was bound meanwhile.
\<close>

lemma authentic_known:
  assumes "verify_user_tx_authenticity env ec tx provided known = Inr pk" "to_lowercase existing \<noteq> to_lowercase pk"
  shows "known \<noteq> Some existing"
  using assms by (auto simp: verify_user_tx_authenticity_def choose_pubkey_def split: if_splits sum.splits option.splits)

text \<open>
  C16: a refused transaction leaves the state unchanged, an early key mismatch included, with one
  exception: when a key other than the authentic one it carries (by more than the case of its
  letters) is bound to the sender between the lookup of the key and the write section, the answer
  is a key mismatch although the DAG has been changed by adding the transaction.
\<close>
theorem refused_transaction_no_effect:
  assumes "add_transaction_authenticated env ec fe G cx r tx provided s = (s', Inl e)"
  shows "s' = s \<or> (\<exists>pk existing d. e = KeyMismatch
    \<and> verify_user_tx_authenticity env ec tx provided (known_pubkey (ar_key_state r) tx) = Inr pk
    \<and> known_pubkey s tx = Some existing \<and> to_lowercase existing \<noteq> to_lowercase pk \<and> known_pubkey (ar_key_state r) tx \<noteq> Some existing
    \<and> add_node G (ar_write_ms r) (admit_node fe G r tx) (si_dag s) = Inr d \<and> s' = s\<lparr>si_dag := d\<rparr>)"
proof (cases "s' = s")
  case False
  from assms False obtain pk d where c: "verify_user_tx_authenticity env ec tx provided (known_pubkey (ar_key_state r) tx) = Inr pk"
    "add_node G (ar_write_ms r) (admit_node fe G r tx) (si_dag s) = Inr d" "bind_pubkey (Some pk) tx (s\<lparr>si_dag := d\<rparr>) = (s', Inl e)"
    by (auto simp: add_transaction_authenticated_def reject_external_system_transaction_def admit_transaction_inner_def admit_commit_def
      Let_def split: if_splits sum.splits option.splits)
  from c(3) obtain existing where "e = KeyMismatch" "known_pubkey s tx = Some existing" "to_lowercase existing \<noteq> to_lowercase pk" "s' = s\<lparr>si_dag := d\<rparr>"
    by (auto simp: bind_pubkey_def known_pubkey_def split: option.splits if_splits)
  then show ?thesis using c authentic_known [OF c(1)] by blast
qed simp

section \<open>What the checks do not cover\<close>

text \<open>
  The signature is over the hash the transaction carries, and nothing compares that hash with
  the contents: with the same sender, hash and signature any recipient and amount are authentic.
\<close>

lemma signature_does_not_bind_contents:
  assumes "st_hash tx' = st_hash tx" "st_signature tx' = st_signature tx" "st_from tx' = st_from tx"
    and "st_kind tx \<noteq> Some Consolidation" "st_kind tx' \<noteq> Some Consolidation"
  shows "verify_user_tx_authenticity env ec tx' provided known = verify_user_tx_authenticity env ec tx provided known"
  unfolding verify_user_tx_authenticity_def is_system_transaction_def assms(1-3) using assms(4,5) by simp

text \<open>
  The partition budget is checked against an unsigned difference: once more than the budget has
  been spent, which several pending transactions can do together, the rest is enormous.
\<close>

lemma overspent_budget_lifts_limit:
  assumes "hm_get (si_accounts s) (st_from tx) = Some a" "acc_partition_budget a = Some budget"
    and "acc_partition_budget_spent a = budget + 1" "st_kind tx = Some Transfer"
  shows "check_partition s tx = None"
  using assms by (simp add: check_partition_def Let_def word_n1_ge)

section \<open>A small admission\<close>

definition sample_ec :: ecdsa_env where
  "sample_ec = \<lparr>ec_point = Some, ec_signature = (\<lambda>_. True), ec_verify = (\<lambda>_ _ _. True)\<rparr>"

definition sample_floats :: float_env where
  "sample_floats = \<lparr>fe_ln_1p = (\<lambda>_. Fin 1), fe_powf = (\<lambda>_ _. Fin 1), fe_powi = (\<lambda>_ _. Fin 1)\<rparr>"

definition sample_address :: string where
  "sample_address = take 40 (hex_encode sample_env (sha256 sample_env [0]))"

definition sample_transfer :: SignedTransaction where
  "sample_transfer = (sample_pay ''h'' 0 10)\<lparr>st_signature := ''00'', st_tx := (st_tx (sample_pay ''h'' 0 10))\<lparr>tx_from := sample_address\<rparr>\<rparr>"

definition sample_bank :: "(DagNode list \<times> (nat \<times> nat) list) StateInner" where
  "sample_bank = (watch_state PartitionState_default)
     \<lparr>si_accounts := [(sample_address, (Account_new sample_address 0)\<lparr>acc_balance := 100\<rparr>)]\<rparr>"

lemma sample_key: "fingerprint_from_public_key_hex sample_env sample_ec ''00'' = Inr sample_address"
proof -
  have "hex_decode sample_env ''00'' = Some [0]" by code_simp
  then show ?thesis by (simp add: fingerprint_from_public_key_hex_def fingerprint_from_public_key_bytes_def sample_ec_def sample_address_def)
qed

lemma sample_address_user: "sample_address \<noteq> ''faucet'' \<and> sample_address \<noteq> ''genesis''"
  by code_simp

lemma sample_transfer_fields [simp]:
  "st_from sample_transfer = sample_address" "st_hash sample_transfer = ''h''" "st_signature sample_transfer = ''00''"
  "st_kind sample_transfer = None" "st_nonce sample_transfer = 0" "st_amount sample_transfer = 10"
  "tx_gas_price (st_tx sample_transfer) = Some 2" "tx_memo (st_tx sample_transfer) = None"
  "tx_references (st_tx sample_transfer) = None" "tx_timestamp (st_tx sample_transfer) = 0" "tx_parents (st_tx sample_transfer) = []"
  by (simp_all add: sample_transfer_def sample_pay_def)

lemma sample_authentic: "verify_user_tx_authenticity sample_env sample_ec sample_transfer (Some ''00'') None = Inr ''00''"
proof -
  have h: "hex_decode sample_env ''00'' = Some [0]" by code_simp
  show ?thesis using sample_address_user sample_key h
    by (simp add: verify_user_tx_authenticity_def is_system_transaction_def starts_with_def choose_pubkey_def verify_tx_signature_def
        verify_signature_def sample_ec_def)
qed

lemma sample_bank_fields [simp]:
  "si_accounts sample_bank = [(sample_address, (Account_new sample_address 0)\<lparr>acc_balance := 100\<rparr>)]"
  "si_current_gas_price sample_bank = 1" "si_dag sample_bank = Dag_new list_graph 8" "is_partitioned sample_bank = False"
  by (simp_all add: sample_bank_def watch_state_def PartitionState_default_def is_partitioned_def)

lemma sample_unfinalized [simp]: "get_unfinalized_for_sender list_graph iter (Dag_new list_graph 8) a = []"
  by (simp add: get_unfinalized_for_sender_def Dag_new_def)

lemma sample_checks: "user_checks list_graph sample_runtime (\<lambda>xs. xs) 0 1 sample_transfer sample_bank = None"
  "check_funds list_graph (\<lambda>xs. xs) sample_bank sample_transfer = None" "check_nonce list_graph (\<lambda>xs. xs) sample_bank sample_transfer = None"
  by (simp_all add: user_checks_def check_gas_price_def check_partition_def check_stake_minimum_def check_memo_def check_references_def
      check_contract_def check_account_def first_error_None check_funds_def check_nonce_def get_effective_balance_and_nonce_def
      get_effective_balance_def get_effective_nonce_def get_pending_stats_for_sender_def pending_nonces_def account_nonce_of_def
      Account_new_def hm_contains_def tx_cost_def tx_gas_fee_def saturating_sub_def Let_def)

definition sample_readings :: "(DagNode list \<times> (nat \<times> nat) list) admit_readings" where
  "sample_readings =
     \<lparr>ar_key_state = sample_bank, ar_check_state = sample_bank, ar_check_order = (\<lambda>xs. xs), ar_check_ms = 0, ar_min_stake = 1,
      ar_weight_secs = 0, ar_parent_state = sample_bank, ar_parent_order = (\<lambda>xs. xs), ar_received_ms = 0,
      ar_write_order = (\<lambda>xs. xs), ar_write_ms = 0\<rparr>"

lemma sample_readings_fields [simp]:
  "ar_key_state sample_readings = sample_bank" "ar_check_state sample_readings = sample_bank" "ar_check_order sample_readings = (\<lambda>xs. xs)"
  "ar_check_ms sample_readings = 0" "ar_min_stake sample_readings = 1" "ar_parent_state sample_readings = sample_bank"
  "ar_parent_order sample_readings = (\<lambda>xs. xs)" "ar_write_order sample_readings = (\<lambda>xs. xs)" "ar_write_ms sample_readings = 0"
  by (simp_all add: sample_readings_def)

lemma sample_admitted:
  "\<exists>s'. add_transaction_authenticated sample_env sample_ec fe list_graph sample_runtime sample_readings sample_transfer (Some ''00'') sample_bank
     = (s', Inr Accepted)"
proof -
  have "\<not> is_system_transaction sample_transfer"
    using sample_address_user by (simp add: is_system_transaction_def starts_with_def)
  moreover have "known_pubkey sample_bank sample_transfer = None" by (simp add: known_pubkey_def Account_new_def)
  moreover have "choose_parents list_graph (\<lambda>xs. xs) sample_bank sample_transfer = []"
    by (simp add: choose_parents_def client_parents_def Dag_new_def)
  moreover have "add_node list_graph now (new_dag_node sample_transfer [] w t) (Dag_new list_graph 8) \<noteq> Inl e" for now w t e
    by (simp add: add_node_eq Dag_new_def hm_contains_def new_dag_node_def)
  ultimately show ?thesis using sample_authentic sample_checks
    by (auto simp: add_transaction_authenticated_def reject_external_system_transaction_def admit_transaction_inner_def admit_commit_def
        admit_node_def recheck_def first_error_None bind_pubkey_def Account_new_def Let_def split: sum.split)
qed

theorem effective_nonce_first_free_witness:
  "get_effective_nonce list_graph (\<lambda>xs. xs) sample_bank sample_address \<notin> set (pending_nonces list_graph (\<lambda>xs. xs) sample_bank sample_address)"
  using effective_nonce_first_free [of list_graph "\<lambda>xs. xs" sample_bank sample_address] by (simp add: pending_nonces_def)

theorem admission_sound_witness:
  "(\<exists>pk. fingerprint_from_public_key_hex sample_env sample_ec pk = Inr sample_address
      \<and> verify_tx_signature sample_env sample_ec pk ''h'' ''00'' = Inr ())
   \<and> exact_cost 1 sample_transfer = 12 \<and> exact_cost 1 sample_transfer \<le> balance_of (si_accounts sample_bank) sample_address"
proof -
  obtain s' where s': "add_transaction_authenticated sample_env sample_ec sample_floats list_graph sample_runtime sample_readings sample_transfer
      (Some ''00'') sample_bank = (s', Inr Accepted)" using sample_admitted by blast
  have d: "dag_inv list_graph (si_dag sample_bank)" by (simp add: dag_new_inv list_graph_laws)
  have "exact_pending list_graph (\<lambda>xs. xs) sample_bank sample_address = 0" by (simp add: exact_pending_def)
  moreover have "exact_cost 1 sample_transfer = 12" by (simp add: exact_cost_def tx_gas_fee_def)
  ultimately show ?thesis using admission_sound [OF list_graph_laws d s'] by simp
qed

theorem refused_transaction_no_effect_witness:
  "fst (add_transaction_authenticated sample_env sample_ec sample_floats list_graph sample_runtime sample_readings sample_transfer None sample_bank)
   = sample_bank"
proof -
  have "\<not> is_system_transaction sample_transfer"
    using sample_address_user by (simp add: is_system_transaction_def starts_with_def)
  then have "add_transaction_authenticated sample_env sample_ec sample_floats list_graph sample_runtime sample_readings sample_transfer None sample_bank
     = (sample_bank, Inl PublicKeyRequired)"
    by (simp add: add_transaction_authenticated_def reject_external_system_transaction_def admit_transaction_inner_def
        verify_user_tx_authenticity_def choose_pubkey_def known_pubkey_def Account_new_def starts_with_def)
  from refused_transaction_no_effect [OF this] this show ?thesis by simp
qed

end
