(* ===== verification/Rinku_Leader.thy ===== *)
theory Rinku_Leader
  imports Rinku_Crypto Rinku_F64 Rinku_Collections
begin

text \<open>
  \<open>rinku-node/src/leader_election.rs\<close>: who creates the next checkpoint. The leader is drawn
  by stake from randomness that every node derives from the height and the previous
  checkpoint; the others are ranked as backups.
\<close>

section \<open>Data\<close>

record ValidatorInfo =
  vi_address :: string
  vi_public_url :: "string option"
  vi_stake :: u64
  vi_bls_public_key :: "bytes option"

record LeaderElectionResult =
  le_leader_address :: string
  le_leader_url :: "string option"
  le_is_local :: bool
  le_slot :: u64
  le_randomness :: bytes

record LeaderElection =
  el_local_address :: string
  el_local_url :: "string option"

definition LeaderElection_new :: "string \<Rightarrow> string option \<Rightarrow> LeaderElection" where
  "LeaderElection_new local_address local_url = \<lparr>el_local_address = local_address, el_local_url = local_url\<rparr>"

section \<open>Randomness\<close>

text \<open>\<open>u64::to_le_bytes\<close> and \<open>u64::from_le_bytes\<close>.\<close>

definition to_le_bytes :: "u64 \<Rightarrow> bytes" where
  "to_le_bytes n = map (\<lambda>i. of_nat (unat n div 256 ^ i)) [0 ..< 8]"

definition from_le_bytes :: "bytes \<Rightarrow> u64" where
  "from_le_bytes bs = of_nat (sum_list (map (\<lambda>i. unat (bs ! i) * 256 ^ i) [0 ..< 8]))"

definition compute_randomness :: "crypto_env \<Rightarrow> u64 \<Rightarrow> string \<Rightarrow> bytes" where
  "compute_randomness env checkpoint_height previous_hash =
     sha256_digest env (as_bytes ''RINKU_LEADER_ELECTION_V1'' @ to_le_bytes checkpoint_height @ as_bytes previous_hash)"

definition randomness_to_f64 :: "bytes \<Rightarrow> f64" where
  "randomness_to_f64 randomness = f64_div (f64_of_u64 (from_le_bytes randomness)) (f64_of_u64 (- 1))"

definition randomness_to_index :: "bytes \<Rightarrow> nat \<Rightarrow> nat" where
  "randomness_to_index randomness n = (if n = 0 then 0 else unat (from_le_bytes randomness) mod n)"

section \<open>Elections\<close>

text \<open>The first entry at which the sum of the stakes reaches the target.\<close>

fun pick_by_stake :: "('a \<Rightarrow> u64) \<Rightarrow> f64 \<Rightarrow> u64 \<Rightarrow> 'a list \<Rightarrow> 'a option" where
  "pick_by_stake stake target cumulative [] = None"
| "pick_by_stake stake target cumulative (v # vs) =
     (let cumulative = cumulative + max (stake v) 1
      in if f64_le target (f64_of_u64 cumulative) then Some v else pick_by_stake stake target cumulative vs)"

definition elect_leader ::
  "crypto_env \<Rightarrow> LeaderElection \<Rightarrow> u64 \<Rightarrow> string \<Rightarrow> ValidatorInfo list \<Rightarrow> LeaderElectionResult option" where
  "elect_leader env e checkpoint_height previous_checkpoint_hash validators =
     (if validators = [] then None
      else let randomness = compute_randomness env checkpoint_height previous_checkpoint_hash;
               total_stake = wsum (map (\<lambda>v. max (vi_stake v) 1) validators)
           in if total_stake = 0 then None
              else let sorted = sort_key vi_address validators;
                       target = f64_mul (randomness_to_f64 randomness) (f64_of_u64 total_stake)
                   in case pick_by_stake vi_stake target 0 sorted of
                        Some v \<Rightarrow> Some \<lparr>le_leader_address = vi_address v, le_leader_url = vi_public_url v,
                          le_is_local = (vi_address v = el_local_address e \<or> vi_public_url v = el_local_url e),
                          le_slot = checkpoint_height, le_randomness = randomness\<rparr>
                      | None \<Rightarrow> Some \<lparr>le_leader_address = vi_address (hd sorted), le_leader_url = vi_public_url (hd sorted),
                          le_is_local = (vi_address (hd sorted) = el_local_address e),
                          le_slot = checkpoint_height, le_randomness = randomness\<rparr>)"

definition elect_leader_from_peers ::
  "crypto_env \<Rightarrow> LeaderElection \<Rightarrow> u64 \<Rightarrow> string \<Rightarrow> string list \<Rightarrow> string option \<Rightarrow> LeaderElectionResult" where
  "elect_leader_from_peers env e checkpoint_height previous_checkpoint_hash peer_urls local_url =
     (let randomness = compute_randomness env checkpoint_height previous_checkpoint_hash;
          all_urls = sort (case local_url of Some url \<Rightarrow> if url \<in> set peer_urls then peer_urls else peer_urls @ [url] | None \<Rightarrow> peer_urls)
      in if all_urls = []
         then \<lparr>le_leader_address = el_local_address e, le_leader_url = el_local_url e, le_is_local = True,
               le_slot = checkpoint_height, le_randomness = randomness\<rparr>
         else let leader_url = all_urls ! randomness_to_index randomness (length all_urls)
              in \<lparr>le_leader_address = leader_url, le_leader_url = Some leader_url, le_is_local = (local_url = Some leader_url),
                  le_slot = checkpoint_height, le_randomness = randomness\<rparr>)"

text \<open>The registry, with the node itself added at stake 1 when it is not in it, by address.\<close>

definition all_validators :: "(string \<times> u64) list \<Rightarrow> string \<Rightarrow> (string \<times> u64) list" where
  "all_validators registry local_address =
     sort_key fst (if local_address \<in> fst ` set registry then registry else registry @ [(local_address, 1)])"

definition elected :: "f64 \<Rightarrow> (string \<times> u64) list \<Rightarrow> string" where
  "elected random_value validators =
     (let total_stake = wsum (map (\<lambda>(_, s). max s 1) validators)
      in if total_stake = 0 then fst (hd validators)
         else case pick_by_stake snd (f64_mul random_value (f64_of_u64 total_stake)) 0 validators of
                Some (addr, _) \<Rightarrow> addr
              | None \<Rightarrow> fst (hd validators))"

text \<open>The list is never empty, as the node itself is in it.\<close>

definition elect_leader_from_validator_addresses ::
  "crypto_env \<Rightarrow> u64 \<Rightarrow> string \<Rightarrow> (string \<times> u64) list \<Rightarrow> string \<Rightarrow> LeaderElectionResult" where
  "elect_leader_from_validator_addresses env checkpoint_height previous_checkpoint_hash registry local_address =
     (let randomness = compute_randomness env checkpoint_height previous_checkpoint_hash;
          leader_address = elected (randomness_to_f64 randomness) (all_validators registry local_address)
      in \<lparr>le_leader_address = leader_address, le_leader_url = None, le_is_local = (leader_address = local_address),
          le_slot = checkpoint_height, le_randomness = randomness\<rparr>)"

definition backup_order :: "crypto_env \<Rightarrow> bytes \<Rightarrow> string \<Rightarrow> (string \<times> u64) list \<Rightarrow> nat list" where
  "backup_order env randomness leader_address validators =
     (let order_seed = sha256_digest env (as_bytes ''RINKU_BACKUP_ORDER_V1'' @ randomness)
      in sort_key (\<lambda>i. from_le_bytes (sha256_digest env (order_seed @ to_le_bytes (of_nat i))))
           (filter (\<lambda>i. fst (validators ! i) \<noteq> leader_address) [0 ..< length validators]))"

fun rank_of :: "string \<Rightarrow> (string \<times> u64) list \<Rightarrow> nat \<Rightarrow> nat list \<Rightarrow> nat option" where
  "rank_of local_address validators rank [] = None"
| "rank_of local_address validators rank (idx # order) =
     (if fst (validators ! idx) = local_address then Some rank else rank_of local_address validators (Suc rank) order)"

definition get_backup_rank :: "crypto_env \<Rightarrow> u64 \<Rightarrow> string \<Rightarrow> (string \<times> u64) list \<Rightarrow> string \<Rightarrow> u32 option" where
  "get_backup_rank env checkpoint_height previous_checkpoint_hash registry local_address =
     (let result = elect_leader_from_validator_addresses env checkpoint_height previous_checkpoint_hash registry local_address;
          validators = all_validators registry local_address;
          order = backup_order env (compute_randomness env checkpoint_height previous_checkpoint_hash) (le_leader_address result) validators
      in if le_is_local result then None
         else Some (of_nat (unwrap_or (rank_of local_address validators 0 order) (length validators - 1))))"

section \<open>The service\<close>

record LeaderElectionConfig =
  lc_leader_timeout_ms :: u64
  lc_fallback_enabled :: bool
  lc_min_validators_for_election :: nat

definition LeaderElectionConfig_default :: LeaderElectionConfig where
  "LeaderElectionConfig_default =
     \<lparr>lc_leader_timeout_ms = 45000, lc_fallback_enabled = True, lc_min_validators_for_election = 1\<rparr>"

record LeaderElectionService =
  ls_election :: LeaderElection
  ls_config :: LeaderElectionConfig
  ls_last_checkpoint_time :: u64
  ls_missed_slots :: u32

definition LeaderElectionService_new :: "string \<Rightarrow> string option \<Rightarrow> LeaderElectionConfig \<Rightarrow> LeaderElectionService" where
  "LeaderElectionService_new local_address local_url config =
     \<lparr>ls_election = LeaderElection_new local_address local_url, ls_config = config, ls_last_checkpoint_time = 0, ls_missed_slots = 0\<rparr>"

definition should_create_checkpoint ::
  "crypto_env \<Rightarrow> LeaderElectionService \<Rightarrow> u64 \<Rightarrow> string \<Rightarrow> string list \<Rightarrow> string option \<Rightarrow> bool \<times> LeaderElectionResult" where
  "should_create_checkpoint env s checkpoint_height previous_checkpoint_hash peer_urls local_url =
     (let result = elect_leader_from_peers env (ls_election s) checkpoint_height previous_checkpoint_hash peer_urls local_url
      in (le_is_local result, result))"

definition should_create_checkpoint_from_validators ::
  "crypto_env \<Rightarrow> u64 \<Rightarrow> string \<Rightarrow> (string \<times> u64) list \<Rightarrow> string \<Rightarrow> bool \<times> LeaderElectionResult" where
  "should_create_checkpoint_from_validators env checkpoint_height previous_checkpoint_hash registry local_address =
     (let result = elect_leader_from_validator_addresses env checkpoint_height previous_checkpoint_hash registry local_address
      in (le_is_local result, result))"

text \<open>\<open>now - leader_last_seen_ms\<close> is unsigned; a fallback is an election at a height far above.\<close>

definition should_fallback ::
  "crypto_env \<Rightarrow> u64 \<Rightarrow> u64 \<Rightarrow> string \<Rightarrow> string list \<Rightarrow> string option \<Rightarrow> u64 \<Rightarrow> LeaderElectionService \<Rightarrow> LeaderElectionService \<times> bool" where
  "should_fallback env now checkpoint_height previous_checkpoint_hash peer_urls local_url leader_last_seen_ms s =
     (let elect = (\<lambda>height. elect_leader_from_peers env (ls_election s) height previous_checkpoint_hash peer_urls local_url)
      in if \<not> lc_fallback_enabled (ls_config s) then (s, False)
         else if now - leader_last_seen_ms < lc_leader_timeout_ms (ls_config s) then (s, False)
         else if le_is_local (elect checkpoint_height) then (s, False)
         else if le_is_local (elect (checkpoint_height + 1000000)) then (s\<lparr>ls_missed_slots := ls_missed_slots s + 1\<rparr>, True)
         else (s, False))"

definition record_checkpoint_created :: "u64 \<Rightarrow> LeaderElectionService \<Rightarrow> LeaderElectionService" where
  "record_checkpoint_created now s = s\<lparr>ls_last_checkpoint_time := now\<rparr>"

section \<open>Agreement\<close>

lemma all_validators_member: "local \<in> fst ` set registry \<Longrightarrow> all_validators registry local = sort_key fst registry"
  by (simp add: all_validators_def)

lemma sort_fst_unique:
  assumes "distinct (map fst xs)" "mset xs = mset ys"
  shows "sort_key fst xs = sort_key fst (ys :: (string \<times> 'a) list)"
  using sort_key_inj_key_eq [of xs "sort_key fst ys" fst] assms by (simp add: distinct_map)

lemma pick_by_stake_mem: "pick_by_stake stake target c vs = Some v \<Longrightarrow> v \<in> set vs"
  by (induction vs arbitrary: c) (auto simp: Let_def split: if_splits)

lemma sort_key_Nil_iff [simp]: "sort_key f xs = [] \<longleftrightarrow> xs = []"
  by (metis length_0_conv length_sort)

lemma elected_mem: "vs \<noteq> [] \<Longrightarrow> elected r vs \<in> fst ` set vs"
proof -
  assume "vs \<noteq> []"
  then have "fst (hd vs) \<in> fst ` set vs" by simp
  then show ?thesis by (auto simp: elected_def Let_def split: option.split dest!: pick_by_stake_mem intro: rev_image_eqI)
qed

text \<open>The election, seen by a member of the registry.\<close>

lemma elect_member:
  assumes "distinct (map fst registry)" "mset registry' = mset registry" "a \<in> fst ` set registry"
  shows "elect_leader_from_validator_addresses env height prev registry' a =
    \<lparr>le_leader_address = elected (randomness_to_f64 (compute_randomness env height prev)) (sort_key fst registry), le_leader_url = None,
     le_is_local = (elected (randomness_to_f64 (compute_randomness env height prev)) (sort_key fst registry) = a),
     le_slot = height, le_randomness = compute_randomness env height prev\<rparr>"
proof -
  have "all_validators registry' a = sort_key fst registry"
    using all_validators_member [of a registry'] assms sort_fst_unique [of registry registry'] by (metis set_mset_mset)
  then show ?thesis by (simp add: elect_leader_from_validator_addresses_def Let_def)
qed

text \<open>
  C34: registered validators that hold the same registry, without repeated addresses and in
  whatever order, elect the same leader, which is one of them, so exactly one of the registered
  validators creates the checkpoint. A node that is not in the registry is outside this
  statement: it adds itself with stake 1 before the draw (\<open>unregistered_elects_itself\<close>).
\<close>
theorem one_validator_creates:
  assumes "distinct (map fst registry)" "registry \<noteq> []"
  shows "\<exists>leader \<in> fst ` set registry. \<forall>a \<in> fst ` set registry. \<forall>registry'. mset registry' = mset registry \<longrightarrow>
    fst (should_create_checkpoint_from_validators env height prev registry' a) = (a = leader)
    \<and> le_leader_address (snd (should_create_checkpoint_from_validators env height prev registry' a)) = leader"
proof -
  let ?leader = "elected (randomness_to_f64 (compute_randomness env height prev)) (sort_key fst registry)"
  have "?leader \<in> fst ` set registry" using elected_mem [of "sort_key fst registry"] assms(2) by simp
  then show ?thesis using elect_member [OF assms(1)]
    by (intro bexI [of _ ?leader]) (auto simp: should_create_checkpoint_from_validators_def Let_def)
qed

section \<open>Backups\<close>

lemma mem_fst_nth: "x \<in> fst ` set vs \<Longrightarrow> \<exists>i < length vs. fst (vs ! i) = x"
  by (auto simp: in_set_conv_nth) (metis fst_conv)

lemma rank_of_bounds: "rank_of a vs k order = Some r \<Longrightarrow> k \<le> r \<and> r < k + length order \<and> fst (vs ! (order ! (r - k))) = a"
proof (induction order arbitrary: k)
  case (Cons i order)
  show ?case
  proof (cases "fst (vs ! i) = a")
    case False
    then have "rank_of a vs (Suc k) order = Some r" using Cons.prems by simp
    from Cons.IH [OF this] have "Suc k \<le> r \<and> r < Suc k + length order \<and> fst (vs ! (order ! (r - Suc k))) = a" .
    moreover from this have "r - k = Suc (r - Suc k)" by linarith
    ultimately show ?thesis by simp
  qed (use Cons.prems in simp)
qed simp

lemma rank_of_found: "i \<in> set order \<Longrightarrow> fst (vs ! i) = a \<Longrightarrow> rank_of a vs k order \<noteq> None"
  by (induction order arbitrary: k) auto

lemma backup_ranks_differ:
  assumes "distinct (map fst registry)" "length registry < 2 ^ 32" "mset registry' = mset registry"
    and "a \<in> fst ` set registry" "b \<in> fst ` set registry"
    and "get_backup_rank env height prev registry a = Some r" "get_backup_rank env height prev registry' b = Some r"
  shows "a = b \<and> unat r + 1 < length registry"
proof -
  let ?vs = "sort_key fst registry" and ?rnd = "compute_randomness env height prev"
  let ?leader = "elected (randomness_to_f64 ?rnd) ?vs"
  let ?order = "backup_order env ?rnd ?leader ?vs"
  have len: "length ?order \<le> length registry - 1"
  proof -
    have "?vs \<noteq> []" using assms(4) by auto
    from mem_fst_nth [OF elected_mem [OF this]] obtain i where "i < length ?vs" "fst (?vs ! i) = ?leader" by blast
    then have "length (filter (\<lambda>i. fst (?vs ! i) \<noteq> ?leader) [0 ..< length ?vs]) < length [0 ..< length ?vs]"
      by (intro length_filter_less [of i]) auto
    then show ?thesis by (simp add: backup_order_def Let_def)
  qed
  have rank: "\<exists>k. rank_of x ?vs 0 ?order = Some k \<and> r = of_nat k"
    if "x \<in> fst ` set registry" "get_backup_rank env height prev rs x = Some r" "mset rs = mset registry" for x rs
  proof -
    note x = that
    have v: "all_validators rs x = ?vs"
      using all_validators_member [of x rs] that sort_fst_unique [OF assms(1), of rs] by (metis set_mset_mset)
    have l: "?leader \<noteq> x" using that(2) unfolding get_backup_rank_def elect_member [OF assms(1) that(3,1)] by (auto simp: Let_def split: if_splits)
    obtain i where "i < length ?vs" "fst (?vs ! i) = x" using mem_fst_nth [of x ?vs] x(1) by auto
    then have "rank_of x ?vs 0 ?order \<noteq> None" using l by (intro rank_of_found [of i]) (auto simp: backup_order_def Let_def)
    then show ?thesis using that(2) l unfolding get_backup_rank_def elect_member [OF assms(1) that(3,1)] v by (auto simp: Let_def)
  qed
  obtain k where k: "rank_of a ?vs 0 ?order = Some k" "r = of_nat k" using rank [OF assms(4,6) refl] by blast
  obtain l where l: "rank_of b ?vs 0 ?order = Some l" "r = of_nat l" using rank [OF assms(5,7,3)] by blast
  note kl = rank_of_bounds [OF k(1)] rank_of_bounds [OF l(1)]
  have "k < 2 ^ 32" "l < 2 ^ 32" using kl len assms(2) by auto
  moreover have "unat (of_nat j :: u32) = j" if "j < 2 ^ 32" for j using that by (simp add: unat_of_nat take_bit_nat_eq_self)
  ultimately have "unat r = k" "unat r = l" using k(2) l(2) by metis+
  then show ?thesis using kl len by auto
qed

lemma backup_rank_member:
  assumes "distinct (map fst registry)" "mset registry' = mset registry" "a \<in> fst ` set registry"
  shows "get_backup_rank env height prev registry' a = get_backup_rank env height prev registry a"
    and "get_backup_rank env height prev registry a = None \<longleftrightarrow>
      elected (randomness_to_f64 (compute_randomness env height prev)) (sort_key fst registry) = a"
proof -
  have "all_validators registry' a = all_validators registry a"
    using all_validators_member [of a] assms sort_fst_unique [OF assms(1), of registry'] by (metis set_mset_mset)
  then show "get_backup_rank env height prev registry' a = get_backup_rank env height prev registry a"
    unfolding get_backup_rank_def elect_member [OF assms] elect_member [OF assms(1) refl assms(3)] by simp
  show "get_backup_rank env height prev registry a = None \<longleftrightarrow>
      elected (randomness_to_f64 (compute_randomness env height prev)) (sort_key fst registry) = a"
    unfolding get_backup_rank_def elect_member [OF assms(1) refl assms(3)] by (simp add: Let_def)
qed

text \<open>
  C35: every registered validator computes its backup rank in the same order, whatever the order
  of its copy of the registry (fewer than \<open>2 ^ 32\<close> validators, no repeated addresses): no two
  have the same rank, exactly the validator elected leader for the same height and previous hash
  has none, and the ranks are below the number of the other validators.
\<close>
theorem backup_ranks_distinct:
  assumes "distinct (map fst registry)" "length registry < 2 ^ 32" "mset registry' = mset registry"
  shows "inj_on (get_backup_rank env height prev registry) (fst ` set registry)
    \<and> (\<forall>a \<in> fst ` set registry. get_backup_rank env height prev registry' a = get_backup_rank env height prev registry a
        \<and> (get_backup_rank env height prev registry a = None \<longleftrightarrow>
             le_leader_address (elect_leader_from_validator_addresses env height prev registry' a) = a)
        \<and> (\<forall>r. get_backup_rank env height prev registry a = Some r \<longrightarrow> unat r + 1 < length registry))"
proof -
  have inj: "a = b" if "a \<in> fst ` set registry" "b \<in> fst ` set registry"
    "get_backup_rank env height prev registry a = get_backup_rank env height prev registry b" for a b
  proof (cases "get_backup_rank env height prev registry a")
    case None
    with that(3) have "get_backup_rank env height prev registry b = None" by simp
    then show ?thesis using None unfolding backup_rank_member(2) [OF assms(1) refl that(1)] backup_rank_member(2) [OF assms(1) refl that(2)]
      by blast
  next
    case (Some r)
    then show ?thesis using that(3) backup_ranks_differ [OF assms(1,2) refl that(1,2), of env height prev r] by simp
  qed
  have bound: "unat r + 1 < length registry" if "a \<in> fst ` set registry" "get_backup_rank env height prev registry a = Some r" for a r
    using backup_ranks_differ [OF assms(1,2) refl that(1,1,2,2)] by simp
  have leader: "get_backup_rank env height prev registry a = None \<longleftrightarrow>
      le_leader_address (elect_leader_from_validator_addresses env height prev registry' a) = a" if "a \<in> fst ` set registry" for a
    using backup_rank_member(2) [OF assms(1) refl that] by (simp add: elect_member [OF assms(1,3) that])
  show ?thesis by (intro conjI inj_onI ballI allI impI inj bound leader backup_rank_member(1) [OF assms(1,3)])
qed

theorem backup_ranks_distinct_witness:
  "get_backup_rank sample_env 1 ''p'' [(''a'', 3), (''b'', 2)] ''a'' \<noteq> get_backup_rank sample_env 1 ''p'' [(''a'', 3), (''b'', 2)] ''b''
   \<and> (get_backup_rank sample_env 1 ''p'' [(''a'', 3), (''b'', 2)] ''a'' = None \<longleftrightarrow>
        le_leader_address (elect_leader_from_validator_addresses sample_env 1 ''p'' [(''a'', 3), (''b'', 2)] ''a'') = ''a'')"
  using backup_ranks_distinct [of "[(''a'', 3), (''b'', 2)]" "[(''a'', 3), (''b'', 2)]" sample_env 1 "''p''"]
  by (auto simp: inj_on_def)

theorem one_validator_creates_witness:
  "\<exists>leader \<in> {''a'', ''b''}. fst (should_create_checkpoint_from_validators sample_env 1 ''p'' [(''b'', 2), (''a'', 3)] ''a'') = (''a'' = leader)
     \<and> fst (should_create_checkpoint_from_validators sample_env 1 ''p'' [(''a'', 3), (''b'', 2)] ''b'') = (''b'' = leader)"
proof -
  obtain leader where "leader \<in> {''a'', ''b''}" "\<And>a rs. a \<in> {''a'', ''b''} \<Longrightarrow> mset rs = mset [(''a'', 3), (''b'', 2)] \<Longrightarrow>
      fst (should_create_checkpoint_from_validators sample_env 1 ''p'' rs a) = (a = leader)"
    using one_validator_creates [of "[(''a'', 3), (''b'', 2)]" sample_env 1 "''p''"] by auto
  then show ?thesis by (intro bexI [of _ leader]) (simp_all add: add_mset_commute)
qed

section \<open>Who is not registered\<close>

text \<open>
  A node that is not in the registry takes part with stake 1 all the same: with an empty
  registry every node elects itself.
\<close>

lemma unregistered_elects_itself: "le_is_local (elect_leader_from_validator_addresses env height prev [] a)"
proof -
  have "all_validators [] a = [(a, 1)]" by (simp add: all_validators_def)
  then have "elected r (all_validators [] a) = a" for r using elected_mem [of "[(a, 1)]" r] by simp
  then show ?thesis by (simp add: elect_leader_from_validator_addresses_def Let_def)
qed

end
