(* ===== verification/Rinku_Validator_Set.thy ===== *)
theory Rinku_Validator_Set
  imports Rinku_Types Rinku_Crypto Rinku_Collections Rinku_Machine
begin

text \<open>
  \<open>rinku-node/src/validator_identity.rs\<close>: the validators by stage of their life (pending,
  active, exiting, exited), the epochs that move them on, and slashing. The state of the service
  is \<open>ValidatorSetState\<close>; its key files are left out. Every operation ends by writing the
  state to disk: \<open>saved\<close> tells whether that succeeded, and an operation that returns the
  error of the write has changed the state in memory all the same.
\<close>

section \<open>Data\<close>

definition MIN_VALIDATOR_STAKE :: u64 where "MIN_VALIDATOR_STAKE = 10000000000"
definition GENESIS_VALIDATOR_STAKE :: u64 where "GENESIS_VALIDATOR_STAKE = 5000000000000"
definition ACTIVATION_DELAY_EPOCHS :: u64 where "ACTIVATION_DELAY_EPOCHS = 2"
definition EXIT_DELAY_EPOCHS :: u64 where "EXIT_DELAY_EPOCHS = 4"
definition EPOCH_LENGTH_MS :: u64 where "EPOCH_LENGTH_MS = 60000"

datatype ValidatorStatus = PendingActivation | Active | PendingExit | Exited | Slashed

record ValidatorIdentity =
  vd_address :: string
  vd_bls_public_key :: bytes
  vd_bls_public_key_hex :: string
  vd_stake :: u64
  vd_status :: ValidatorStatus
  vd_activation_epoch :: u64
  vd_exit_epoch :: "u64 option"
  vd_slashed :: bool
  vd_effective_stake :: u64
  vd_missed_checkpoints :: u32
  vd_last_checkpoint_signed :: u64

definition voting_power :: "u64 \<Rightarrow> ValidatorIdentity \<Rightarrow> f64" where
  "voting_power total_stake v =
     (if total_stake = 0 \<or> vd_effective_stake v = 0 then Fin 0
      else f64_div (f64_of_u64 (vd_effective_stake v)) (f64_of_u64 total_stake))"

definition is_active :: "ValidatorIdentity \<Rightarrow> bool" where
  "is_active v \<longleftrightarrow> vd_status v = Active \<and> \<not> vd_slashed v"

record ValidatorSetState =
  vss_current_epoch :: u64
  vss_epoch_start_time :: u64
  vss_active_validators :: "(string, ValidatorIdentity) hash_map"
  vss_pending_validators :: "(string, ValidatorIdentity) hash_map"
  vss_exiting_validators :: "(string, ValidatorIdentity) hash_map"
  vss_exited_validators :: "(string, ValidatorIdentity) hash_map"
  vss_total_active_stake :: u64
  vss_finalized_checkpoint_height :: u64

definition ValidatorSetState_default :: "u64 \<Rightarrow> ValidatorSetState" where
  "ValidatorSetState_default now_secs =
     \<lparr>vss_current_epoch = 0, vss_epoch_start_time = now_secs * 1000, vss_active_validators = [],
      vss_pending_validators = [], vss_exiting_validators = [], vss_exited_validators = [],
      vss_total_active_stake = 0, vss_finalized_checkpoint_height = 0\<rparr>"

datatype validator_set_error =
  StakeBelowMinimum | AlreadyRegistered | ValidatorNotFound | ValidatorNotActive | SaveFailed

record EpochTransitionResult =
  et_old_epoch :: u64
  et_new_epoch :: u64
  et_activated :: "string list"
  et_exited :: "string list"

section \<open>Queries\<close>

definition is_active_validator :: "ValidatorSetState \<Rightarrow> string \<Rightarrow> bool" where
  "is_active_validator s address \<longleftrightarrow>
     (case hm_get (vss_active_validators s) address of Some v \<Rightarrow> is_active v | None \<Rightarrow> False)"

definition or_else :: "'a option \<Rightarrow> 'a option \<Rightarrow> 'a option" where
  "or_else a b = (case a of Some x \<Rightarrow> Some x | None \<Rightarrow> b)"

definition get_validator_bls_key :: "ValidatorSetState \<Rightarrow> string \<Rightarrow> bytes option" where
  "get_validator_bls_key s address =
     or_else (map_option vd_bls_public_key (hm_get (vss_active_validators s) address))
       (map_option vd_bls_public_key (hm_get (vss_pending_validators s) address))"

definition get_validator_stake :: "ValidatorSetState \<Rightarrow> string \<Rightarrow> u64 option" where
  "get_validator_stake s address =
     or_else (map_option vd_effective_stake (hm_get (vss_active_validators s) address))
       (map_option vd_stake (hm_get (vss_pending_validators s) address))"

definition get_validator :: "ValidatorSetState \<Rightarrow> string \<Rightarrow> ValidatorIdentity option" where
  "get_validator s address =
     or_else (or_else (hm_get (vss_active_validators s) address) (hm_get (vss_pending_validators s) address))
       (hm_get (vss_exiting_validators s) address)"

section \<open>Operations\<close>

text \<open>The sum over a hash table does not depend on its order.\<close>

definition active_stake :: "(string, ValidatorIdentity) hash_map \<Rightarrow> u64" where
  "active_stake m = wsum (map vd_effective_stake (filter is_active (hm_values m)))"

definition recalculate_total_stake :: "ValidatorSetState \<Rightarrow> ValidatorSetState" where
  "recalculate_total_stake s = s\<lparr>vss_total_active_stake := active_stake (vss_active_validators s)\<rparr>"

definition saved_result :: "bool \<Rightarrow> 'a \<Rightarrow> validator_set_error + 'a" where
  "saved_result saved x = (if saved then Inr x else Inl SaveFailed)"

definition register_validator ::
  "crypto_env \<Rightarrow> bool \<Rightarrow> string \<Rightarrow> bytes \<Rightarrow> u64 \<Rightarrow> ValidatorSetState
   \<Rightarrow> ValidatorSetState \<times> (validator_set_error + ValidatorIdentity)" where
  "register_validator env saved address bls_public_key stake s =
     (if stake < MIN_VALIDATOR_STAKE then (s, Inl StakeBelowMinimum)
      else if hm_contains (vss_active_validators s) address \<or> hm_contains (vss_pending_validators s) address
      then (s, Inl AlreadyRegistered)
      else let identity = \<lparr>vd_address = address, vd_bls_public_key = bls_public_key,
                 vd_bls_public_key_hex = hex_encode env bls_public_key, vd_stake = stake, vd_status = PendingActivation,
                 vd_activation_epoch = vss_current_epoch s + ACTIVATION_DELAY_EPOCHS, vd_exit_epoch = None, vd_slashed = False,
                 vd_effective_stake = stake, vd_missed_checkpoints = 0, vd_last_checkpoint_signed = 0\<rparr>
           in (s\<lparr>vss_pending_validators := hm_insert address identity (vss_pending_validators s)\<rparr>, saved_result saved identity))"

definition raise_stake :: "u64 \<Rightarrow> ValidatorIdentity \<Rightarrow> ValidatorIdentity" where
  "raise_stake amount v = v\<lparr>vd_stake := vd_stake v + amount, vd_effective_stake := vd_stake v + amount\<rparr>"

definition add_stake ::
  "bool \<Rightarrow> string \<Rightarrow> u64 \<Rightarrow> ValidatorSetState \<Rightarrow> ValidatorSetState \<times> (validator_set_error + u64)" where
  "add_stake saved address amount s =
     (case hm_get (vss_active_validators s) address of
        Some v \<Rightarrow> (recalculate_total_stake (s\<lparr>vss_active_validators := hm_insert address (raise_stake amount v) (vss_active_validators s)\<rparr>),
                   saved_result saved (vd_stake v + amount))
      | None \<Rightarrow>
          (case hm_get (vss_pending_validators s) address of
             Some v \<Rightarrow> (s\<lparr>vss_pending_validators := hm_insert address (raise_stake amount v) (vss_pending_validators s)\<rparr>,
                        saved_result saved (vd_stake v + amount))
           | None \<Rightarrow> (s, Inl ValidatorNotFound)))"

definition initiate_exit :: "bool \<Rightarrow> string \<Rightarrow> ValidatorSetState \<Rightarrow> ValidatorSetState \<times> (validator_set_error + u64)" where
  "initiate_exit saved address s =
     (case hm_get (vss_active_validators s) address of
        None \<Rightarrow> (s, Inl ValidatorNotActive)
      | Some v \<Rightarrow>
          let exit_epoch = vss_current_epoch s + EXIT_DELAY_EPOCHS;
              exiting = v\<lparr>vd_status := PendingExit, vd_exit_epoch := Some exit_epoch\<rparr>
          in (recalculate_total_stake (s\<lparr>vss_active_validators := hm_remove address (vss_active_validators s),
                vss_exiting_validators := hm_insert address exiting (vss_exiting_validators s)\<rparr>),
              saved_result saved exit_epoch))"

text \<open>\<open>validator.stake -= slash_amount\<close> is unsigned.\<close>

definition slashed_identity :: "f64 \<Rightarrow> ValidatorIdentity \<Rightarrow> ValidatorIdentity" where
  "slashed_identity slash_percent v =
     (let stake = vd_stake v - f64_trunc_share (vd_stake v) slash_percent
      in v\<lparr>vd_stake := stake, vd_effective_stake := stake, vd_slashed := True, vd_status := Slashed\<rparr>)"

definition slash_validator ::
  "bool \<Rightarrow> string \<Rightarrow> f64 \<Rightarrow> ValidatorSetState \<Rightarrow> ValidatorSetState \<times> (validator_set_error + u64)" where
  "slash_validator saved address slash_percent s =
     (case hm_get (vss_active_validators s) address of
        Some v \<Rightarrow> (recalculate_total_stake (s\<lparr>vss_active_validators := hm_insert address (slashed_identity slash_percent v) (vss_active_validators s)\<rparr>),
                   saved_result saved (f64_trunc_share (vd_stake v) slash_percent))
      | None \<Rightarrow>
          (case hm_get (vss_exiting_validators s) address of
             Some v \<Rightarrow> (recalculate_total_stake (s\<lparr>vss_exiting_validators := hm_insert address (slashed_identity slash_percent v) (vss_exiting_validators s)\<rparr>),
                        saved_result saved (f64_trunc_share (vd_stake v) slash_percent))
           | None \<Rightarrow> (s, Inl ValidatorNotFound)))"

text \<open>One entry of the drained tables: moved on when its epoch has come, put back otherwise.\<close>

fun activate_entry ::
  "u64 \<Rightarrow> string \<times> ValidatorIdentity \<Rightarrow> ValidatorSetState \<times> string list \<Rightarrow> ValidatorSetState \<times> string list" where
  "activate_entry new_epoch (addr, v) (s, activated) =
     (if vd_activation_epoch v \<le> new_epoch
      then (s\<lparr>vss_active_validators := hm_insert addr (v\<lparr>vd_status := Active\<rparr>) (vss_active_validators s)\<rparr>, activated @ [addr])
      else (s\<lparr>vss_pending_validators := hm_insert addr v (vss_pending_validators s)\<rparr>, activated))"

definition exit_due :: "u64 \<Rightarrow> ValidatorIdentity \<Rightarrow> bool" where
  "exit_due new_epoch v \<longleftrightarrow> (case vd_exit_epoch v of Some e \<Rightarrow> e \<le> new_epoch | None \<Rightarrow> False)"

fun exit_entry ::
  "u64 \<Rightarrow> string \<times> ValidatorIdentity \<Rightarrow> ValidatorSetState \<times> string list \<Rightarrow> ValidatorSetState \<times> string list" where
  "exit_entry new_epoch (addr, v) (s, exited) =
     (if exit_due new_epoch v
      then (s\<lparr>vss_exited_validators := hm_insert addr (v\<lparr>vd_status := Exited\<rparr>) (vss_exited_validators s)\<rparr>, exited @ [addr])
      else (s\<lparr>vss_exiting_validators := hm_insert addr v (vss_exiting_validators s)\<rparr>, exited))"

definition process_epoch_transition ::
  "((string \<times> ValidatorIdentity) list \<Rightarrow> (string \<times> ValidatorIdentity) list) \<Rightarrow> u64 \<Rightarrow> ValidatorSetState
   \<Rightarrow> ValidatorSetState \<times> EpochTransitionResult" where
  "process_epoch_transition iter now s =
     (let elapsed = now - vss_epoch_start_time s
      in if elapsed < EPOCH_LENGTH_MS then (s, \<lparr>et_old_epoch = 0, et_new_epoch = 0, et_activated = [], et_exited = []\<rparr>)
         else let epochs_passed = elapsed div EPOCH_LENGTH_MS;
                  new_epoch = vss_current_epoch s + epochs_passed;
                  (s1, activated) = fold (activate_entry new_epoch) (iter (vss_pending_validators s)) (s\<lparr>vss_pending_validators := []\<rparr>, []);
                  (s2, exited) = fold (exit_entry new_epoch) (iter (vss_exiting_validators s1)) (s1\<lparr>vss_exiting_validators := []\<rparr>, [])
              in (recalculate_total_stake (s2\<lparr>vss_current_epoch := new_epoch, vss_epoch_start_time := now - elapsed mod EPOCH_LENGTH_MS\<rparr>),
                  \<lparr>et_old_epoch = new_epoch - epochs_passed, et_new_epoch = new_epoch, et_activated = activated, et_exited = exited\<rparr>))"

definition record_checkpoint_participation :: "string list \<Rightarrow> u64 \<Rightarrow> ValidatorSetState \<Rightarrow> ValidatorSetState" where
  "record_checkpoint_participation signers checkpoint_height s =
     s\<lparr>vss_active_validators := map (\<lambda>(addr, v). (addr,
         if addr \<in> set signers then v\<lparr>vd_last_checkpoint_signed := checkpoint_height\<rparr>
         else v\<lparr>vd_missed_checkpoints := vd_missed_checkpoints v + 1\<rparr>)) (vss_active_validators s)\<rparr>"

definition restore_state :: "ValidatorSetState \<Rightarrow> ValidatorSetState \<Rightarrow> ValidatorSetState" where
  "restore_state state s = recalculate_total_stake state"

text \<open>The BLS key of a legacy entry is hexadecimal or base64 (\<open>decode\<close>).\<close>

definition legacy_identity :: "crypto_env \<Rightarrow> (string \<Rightarrow> bytes option) \<Rightarrow> string \<Rightarrow> Validator \<Rightarrow> ValidatorIdentity" where
  "legacy_identity env url_decode addr legacy =
     (let bls_key = unwrap_or (Option.bind (val_bls_public_key legacy) (\<lambda>k. or_else (hex_decode env k) (url_decode k))) []
      in \<lparr>vd_address = addr, vd_bls_public_key = bls_key, vd_bls_public_key_hex = hex_encode env bls_key,
          vd_stake = val_stake legacy, vd_status = Active, vd_activation_epoch = 0, vd_exit_epoch = None, vd_slashed = False,
          vd_effective_stake = val_stake legacy, vd_missed_checkpoints = val_missed_checkpoints legacy, vd_last_checkpoint_signed = 0\<rparr>)"

definition sync_from_legacy_validators ::
  "crypto_env \<Rightarrow> (string \<Rightarrow> bytes option) \<Rightarrow> (string, Validator) hash_map \<Rightarrow> ValidatorSetState \<Rightarrow> ValidatorSetState" where
  "sync_from_legacy_validators env url_decode validators s =
     (let new_validators = fold (\<lambda>(addr, legacy). hm_insert addr (legacy_identity env url_decode addr legacy)) validators []
      in recalculate_total_stake (s\<lparr>vss_active_validators := new_validators, vss_pending_validators := [], vss_exiting_validators := []\<rparr>))"

definition genesis_identity :: "crypto_env \<Rightarrow> u64 \<Rightarrow> string \<Rightarrow> bytes \<Rightarrow> ValidatorIdentity" where
  "genesis_identity env epoch address bls_public_key =
     \<lparr>vd_address = address, vd_bls_public_key = bls_public_key, vd_bls_public_key_hex = hex_encode env bls_public_key,
      vd_stake = GENESIS_VALIDATOR_STAKE, vd_status = Active, vd_activation_epoch = epoch, vd_exit_epoch = None, vd_slashed = False,
      vd_effective_stake = GENESIS_VALIDATOR_STAKE, vd_missed_checkpoints = 0, vd_last_checkpoint_signed = 0\<rparr>"

definition seed_genesis_validators :: "crypto_env \<Rightarrow> (string \<times> bytes) list \<Rightarrow> ValidatorSetState \<Rightarrow> ValidatorSetState" where
  "seed_genesis_validators env validators s =
     (let new_validators = fold (\<lambda>(address, key). hm_insert address (genesis_identity env (vss_current_epoch s) address key)) validators []
      in recalculate_total_stake (s\<lparr>vss_active_validators := new_validators, vss_pending_validators := [], vss_exiting_validators := []\<rparr>))"

section \<open>Tables\<close>

text \<open>A table is keyed by address and all its entries satisfy \<open>P\<close>.\<close>

definition table_ok :: "(ValidatorIdentity \<Rightarrow> bool) \<Rightarrow> (string, ValidatorIdentity) hash_map \<Rightarrow> bool" where
  "table_ok P m \<longleftrightarrow> hm_wf m \<and> (\<forall>k v. hm_get m k = Some v \<longrightarrow> vd_address v = k \<and> P v)"

lemma table_ok_Nil [simp]: "table_ok P []"
  by (simp add: table_ok_def)

lemma table_ok_insert [simp]: "table_ok P m \<Longrightarrow> vd_address v = k \<Longrightarrow> P v \<Longrightarrow> table_ok P (hm_insert k v m)"
  by (simp add: table_ok_def)

lemma table_ok_remove [simp]: "table_ok P m \<Longrightarrow> table_ok P (hm_remove k m)"
  by (simp add: table_ok_def)

lemma table_okD: "table_ok P m \<Longrightarrow> hm_get m k = Some v \<Longrightarrow> vd_address v = k \<and> P v"
  by (simp add: table_ok_def)

lemma table_ok_change:
  "table_ok P m \<Longrightarrow> hm_get m k = Some v \<Longrightarrow> vd_address w = vd_address v \<Longrightarrow> (P v \<Longrightarrow> P w) \<Longrightarrow> table_ok P (hm_insert k w m)"
  by (simp add: table_ok_def)

lemma table_ok_mem: "table_ok P m \<Longrightarrow> (k, v) \<in> set m \<Longrightarrow> vd_address v = k \<and> P v"
  by (simp add: table_ok_def hm_get_iff_mem)

lemma table_ok_mono: "table_ok P m \<Longrightarrow> (\<And>v. P v \<Longrightarrow> Q v) \<Longrightarrow> table_ok Q m"
  by (simp add: table_ok_def)

lemma table_ok_fold:
  "table_ok P m \<Longrightarrow> (\<And>k x. (k, x) \<in> set xs \<Longrightarrow> vd_address (f k x) = k \<and> P (f k x))
   \<Longrightarrow> table_ok P (fold (\<lambda>(k, x). hm_insert k (f k x)) xs m)"
  by (induction xs arbitrary: m) auto

lemma hm_wf_map_entries: "hm_wf (map (\<lambda>(k, v). (k, f k v)) m) = hm_wf m"
  by (simp add: hm_wf_def comp_def case_prod_unfold)

lemma hm_get_map_entries: "hm_get (map (\<lambda>(k, v). (k, f k v)) m) k = map_option (f k) (hm_get m k)"
  by (induction m) auto

section \<open>The life of a validator\<close>

definition pending_ok :: "u64 \<Rightarrow> ValidatorIdentity \<Rightarrow> bool" where
  "pending_ok epoch v \<longleftrightarrow> vd_effective_stake v = vd_stake v \<and> vd_status v = PendingActivation \<and> \<not> vd_slashed v
     \<and> epoch < vd_activation_epoch v"

definition active_ok :: "u64 \<Rightarrow> ValidatorIdentity \<Rightarrow> bool" where
  "active_ok epoch v \<longleftrightarrow> vd_effective_stake v = vd_stake v \<and> vd_activation_epoch v \<le> epoch
     \<and> vd_status v = (if vd_slashed v then Slashed else Active)"

definition exiting_ok :: "u64 \<Rightarrow> ValidatorIdentity \<Rightarrow> bool" where
  "exiting_ok epoch v \<longleftrightarrow> vd_effective_stake v = vd_stake v \<and> vd_status v \<in> {PendingExit, Slashed} \<and> \<not> exit_due epoch v"

definition exited_ok :: "u64 \<Rightarrow> ValidatorIdentity \<Rightarrow> bool" where
  "exited_ok epoch v \<longleftrightarrow> vd_status v = Exited \<and> exit_due epoch v"

lemmas stage_defs = pending_ok_def active_ok_def exiting_ok_def exited_ok_def

definition joined_ok :: "u64 \<Rightarrow> ValidatorSetState \<Rightarrow> bool" where
  "joined_ok epoch s \<longleftrightarrow> table_ok (pending_ok epoch) (vss_pending_validators s) \<and> table_ok (active_ok epoch) (vss_active_validators s)
     \<and> (\<forall>a. hm_get (vss_pending_validators s) a = None \<or> hm_get (vss_active_validators s) a = None)"

definition leaving_ok :: "u64 \<Rightarrow> ValidatorSetState \<Rightarrow> bool" where
  "leaving_ok epoch s \<longleftrightarrow> table_ok (exiting_ok epoch) (vss_exiting_validators s) \<and> table_ok (exited_ok epoch) (vss_exited_validators s)"

definition stages_ok :: "u64 \<Rightarrow> ValidatorSetState \<Rightarrow> bool" where
  "stages_ok epoch s \<longleftrightarrow> joined_ok epoch s \<and> leaving_ok epoch s"

lemmas stages_defs = stages_ok_def joined_ok_def leaving_ok_def

definition vset_inv :: "ValidatorSetState \<Rightarrow> bool" where
  "vset_inv s \<longleftrightarrow> stages_ok (vss_current_epoch s) s
     \<and> vss_total_active_stake s = active_stake (vss_active_validators s)
     \<and> unat (vss_current_epoch s) * 60000 \<le> unat (vss_epoch_start_time s)"

text \<open>
  The operations in any order. The clock of a transition is not before the start of the epoch;
  a restored state is one that satisfied the invariant when it was stored.
\<close>

inductive vset_step :: "crypto_env \<Rightarrow> ValidatorSetState \<Rightarrow> ValidatorSetState \<Rightarrow> bool" for env where
  vs_register: "vset_step env s (fst (register_validator env saved address key stake s))"
| vs_add_stake: "vset_step env s (fst (add_stake saved address amount s))"
| vs_exit: "vset_step env s (fst (initiate_exit saved address s))"
| vs_slash: "vset_step env s (fst (slash_validator saved address percent s))"
| vs_epoch: "iteration_order iter \<Longrightarrow> vss_epoch_start_time s \<le> now \<Longrightarrow> vset_step env s (fst (process_epoch_transition iter now s))"
| vs_participation: "vset_step env s (record_checkpoint_participation signers height s)"
| vs_restore: "vset_inv snapshot \<Longrightarrow> vset_step env s (restore_state snapshot s)"
| vs_sync: "vset_step env s (sync_from_legacy_validators env url_decode validators s)"
| vs_seed: "vset_step env s (seed_genesis_validators env genesis s)"

lemma recalculate_inv:
  "stages_ok (vss_current_epoch s) s \<Longrightarrow> unat (vss_current_epoch s) * 60000 \<le> unat (vss_epoch_start_time s)
   \<Longrightarrow> vset_inv (recalculate_total_stake s)"
  by (simp add: vset_inv_def stages_defs recalculate_total_stake_def)

text \<open>Epochs are counted since the clock's zero, so the delays never wrap.\<close>

lemma epoch_delay: "vset_inv s \<Longrightarrow> unat d \<le> 4 \<Longrightarrow> d \<noteq> 0 \<Longrightarrow> vss_current_epoch s < vss_current_epoch s + d"
proof -
  assume a: "vset_inv s" "unat d \<le> 4" "d \<noteq> 0"
  have "unat (vss_current_epoch s) * 60000 < 2 ^ 64"
    using a(1) unat_u64_bound [of "vss_epoch_start_time s"] by (simp add: vset_inv_def)
  then have "unat (vss_current_epoch s + d) = unat (vss_current_epoch s) + unat d"
    using a(2) by (intro unat_add_no_overflow) simp
  moreover have "0 < unat d" using a(3) by (simp add: unat_gt_0)
  ultimately show ?thesis by (simp add: word_less_nat_alt)
qed

lemma register_inv: "vset_inv s \<Longrightarrow> vset_inv (fst (register_validator env saved address key stake s))"
  using epoch_delay [of s ACTIVATION_DELAY_EPOCHS]
  by (auto simp: register_validator_def vset_inv_def stages_defs pending_ok_def Let_def hm_contains_def ACTIVATION_DELAY_EPOCHS_def)

lemma add_stake_inv: "vset_inv s \<Longrightarrow> vset_inv (fst (add_stake saved address amount s))"
  apply (simp add: add_stake_def split: option.split)
  apply (intro conjI impI allI recalculate_inv)
    apply (auto simp: vset_inv_def stages_defs raise_stake_def stage_defs elim!: table_ok_change)
  apply (metis option.distinct(1))
  done

lemma initiate_exit_inv: "vset_inv s \<Longrightarrow> vset_inv (fst (initiate_exit saved address s))"
  apply (cases "hm_get (vss_active_validators s) address")
   apply (simp add: initiate_exit_def)
  apply (simp add: initiate_exit_def Let_def)
  apply (rule recalculate_inv)
  using epoch_delay [of s EXIT_DELAY_EPOCHS]
   apply (auto simp: vset_inv_def stages_defs stage_defs exit_due_def EXIT_DELAY_EPOCHS_def dest: table_okD)
  done

lemma slash_validator_inv: "vset_inv s \<Longrightarrow> vset_inv (fst (slash_validator saved address percent s))"
  apply (simp add: slash_validator_def split: option.split)
  apply (intro conjI impI allI recalculate_inv)
    apply (auto simp: vset_inv_def stages_defs slashed_identity_def Let_def stage_defs exit_due_def elim!: table_ok_change)
  done

lemma active_stake_map:
  "(\<And>k v. is_active (f k v) = is_active v \<and> vd_effective_stake (f k v) = vd_effective_stake v)
   \<Longrightarrow> active_stake (map (\<lambda>(k, v). (k, f k v)) m) = active_stake m"
  unfolding active_stake_def by (induction m) auto

lemma participation_inv: "vset_inv s \<Longrightarrow> vset_inv (record_checkpoint_participation signers height s)"
proof -
  let ?f = "\<lambda>addr v. if addr \<in> set signers then v\<lparr>vd_last_checkpoint_signed := height\<rparr> else v\<lparr>vd_missed_checkpoints := vd_missed_checkpoints v + 1\<rparr>"
  let ?m = "map (\<lambda>(addr, v). (addr, ?f addr v)) (vss_active_validators s)"
  assume "vset_inv s"
  moreover have "active_stake ?m = active_stake (vss_active_validators s)"
    by (rule active_stake_map) (simp add: is_active_def)
  ultimately show ?thesis
    by (auto simp: record_checkpoint_participation_def vset_inv_def stages_defs table_ok_def hm_wf_map_entries hm_get_map_entries active_ok_def)
qed

text \<open>The two loops of a transition.\<close>

lemma activate_fold:
  assumes "distinct (map fst xs)"
    and "\<And>k v. (k, v) \<in> set xs \<Longrightarrow> vd_address v = k \<and> pending_ok epoch v
      \<and> hm_get (vss_active_validators s) k = None \<and> hm_get (vss_pending_validators s) k = None"
    and "joined_ok new_epoch s"
  shows "\<exists>active pending l. fold (activate_entry new_epoch) xs (s, l0) = (s\<lparr>vss_active_validators := active, vss_pending_validators := pending\<rparr>, l)
    \<and> joined_ok new_epoch (s\<lparr>vss_active_validators := active, vss_pending_validators := pending\<rparr>)"
  using assms
proof (induction xs arbitrary: s l0)
  case Nil
  then show ?case by - (rule exI [of _ "vss_active_validators s"], rule exI [of _ "vss_pending_validators s"], simp)
next
  case (Cons x xs)
  obtain k v where x: "x = (k, v)" by fastforce
  obtain s' l' where s': "activate_entry new_epoch x (s, l0) = (s', l')" by fastforce
  obtain active pending where fr: "s' = s\<lparr>vss_active_validators := active, vss_pending_validators := pending\<rparr>"
    "active = (if vd_activation_epoch v \<le> new_epoch then hm_insert k (v\<lparr>vd_status := Active\<rparr>) (vss_active_validators s) else vss_active_validators s)"
    "pending = (if vd_activation_epoch v \<le> new_epoch then vss_pending_validators s else hm_insert k v (vss_pending_validators s))"
    using s' by (auto simp: x split: if_splits)
  have v: "vd_address v = k \<and> pending_ok epoch v \<and> hm_get (vss_active_validators s) k = None \<and> hm_get (vss_pending_validators s) k = None"
    using Cons.prems(2) [of k v] x by simp
  have "joined_ok new_epoch s'"
    using v Cons.prems(3) by (auto simp: fr joined_ok_def pending_ok_def active_ok_def not_le)
  moreover have "vd_address v = k \<and> pending_ok epoch v \<and> hm_get (vss_active_validators s') k = None \<and> hm_get (vss_pending_validators s') k = None"
    if "(k, v) \<in> set xs" for k v
  proof -
    have "k \<noteq> fst x" using that Cons.prems(1) by (auto intro: rev_image_eqI)
    then show ?thesis using that Cons.prems(2) [of k v] by (simp add: fr x)
  qed
  ultimately obtain active' pending' l where "fold (activate_entry new_epoch) xs (s', l') = (s'\<lparr>vss_active_validators := active', vss_pending_validators := pending'\<rparr>, l)"
    "joined_ok new_epoch (s'\<lparr>vss_active_validators := active', vss_pending_validators := pending'\<rparr>)"
    using Cons.IH [of s' l'] Cons.prems(1) by auto
  then show ?case by (intro exI [of _ active'] exI [of _ pending'] exI [of _ l]) (simp add: s', simp add: fr(1))
qed

lemma exit_fold:
  assumes "\<And>k v. (k, v) \<in> set xs \<Longrightarrow> vd_address v = k \<and> exiting_ok epoch v" "leaving_ok new_epoch s"
  shows "\<exists>exiting exited l. fold (exit_entry new_epoch) xs (s, l0) = (s\<lparr>vss_exiting_validators := exiting, vss_exited_validators := exited\<rparr>, l)
    \<and> leaving_ok new_epoch (s\<lparr>vss_exiting_validators := exiting, vss_exited_validators := exited\<rparr>)"
  using assms
proof (induction xs arbitrary: s l0)
  case Nil
  then show ?case by - (rule exI [of _ "vss_exiting_validators s"], rule exI [of _ "vss_exited_validators s"], simp)
next
  case (Cons x xs)
  obtain k v where x: "x = (k, v)" by fastforce
  obtain s' l' where s': "exit_entry new_epoch x (s, l0) = (s', l')" by fastforce
  obtain exiting exited where fr: "s' = s\<lparr>vss_exiting_validators := exiting, vss_exited_validators := exited\<rparr>"
    "exiting = (if exit_due new_epoch v then vss_exiting_validators s else hm_insert k v (vss_exiting_validators s))"
    "exited = (if exit_due new_epoch v then hm_insert k (v\<lparr>vd_status := Exited\<rparr>) (vss_exited_validators s) else vss_exited_validators s)"
    using s' by (auto simp: x split: if_splits)
  have "vd_address v = k \<and> exiting_ok epoch v" using Cons.prems(1) [of k v] x by simp
  then have "leaving_ok new_epoch s'" using Cons.prems(2) by (auto simp: fr leaving_ok_def exiting_ok_def exited_ok_def exit_due_def)
  then obtain exiting' exited' l where "fold (exit_entry new_epoch) xs (s', l') = (s'\<lparr>vss_exiting_validators := exiting', vss_exited_validators := exited'\<rparr>, l)"
    "leaving_ok new_epoch (s'\<lparr>vss_exiting_validators := exiting', vss_exited_validators := exited'\<rparr>)"
    using Cons.IH [of s' l', OF Cons.prems(1)] by auto
  then show ?case by (intro exI [of _ exiting'] exI [of _ exited'] exI [of _ l]) (simp add: s', simp add: fr(1))
qed

text \<open>The clock of a transition that is due.\<close>

lemma epoch_clock:
  assumes "unat epoch * 60000 \<le> unat start" "start \<le> (now :: u64)"
  defines "passed \<equiv> (now - start) div EPOCH_LENGTH_MS"
  shows "unat (epoch + passed) = unat epoch + unat passed" "epoch \<le> epoch + passed"
    and "unat (epoch + passed) * 60000 \<le> unat (now - (now - start) mod EPOCH_LENGTH_MS)"
proof -
  let ?e = "unat now - unat start"
  have e: "unat (now - start) = ?e" using assms(2) by (simp add: unat_sub)
  have p: "unat passed = ?e div 60000" and r: "unat ((now - start) mod EPOCH_LENGTH_MS) = ?e mod 60000"
    by (simp_all add: passed_def EPOCH_LENGTH_MS_def unat_div unat_mod e)
  have "?e div 60000 * 60000 + ?e mod 60000 = ?e" by (rule div_mult_mod_eq)
  moreover have "unat start \<le> unat now" using assms(2) by (simp add: word_le_nat_alt)
  ultimately have b: "(unat epoch + ?e div 60000) * 60000 + ?e mod 60000 \<le> unat now" using assms(1) by (simp add: add_mult_distrib)
  then show s: "unat (epoch + passed) = unat epoch + unat passed"
    using unat_u64_bound [of now] p by (intro unat_add_no_overflow) simp
  then show "epoch \<le> epoch + passed" by (simp add: word_le_nat_alt)
  have "unat (now - (now - start) mod EPOCH_LENGTH_MS) = unat now - ?e mod 60000"
    using b r by (subst unat_sub) (simp_all add: word_le_nat_alt)
  then show "unat (epoch + passed) * 60000 \<le> unat (now - (now - start) mod EPOCH_LENGTH_MS)" unfolding s p using b by linarith
qed

lemma epoch_inv:
  assumes "vset_inv s" "iteration_order iter" "vss_epoch_start_time s \<le> now"
  shows "vset_inv (fst (process_epoch_transition iter now s))"
proof (cases "now - vss_epoch_start_time s < EPOCH_LENGTH_MS")
  case False
  define new_epoch where "new_epoch = vss_current_epoch s + (now - vss_epoch_start_time s) div EPOCH_LENGTH_MS"
  have clock: "vss_current_epoch s \<le> new_epoch"
    "unat new_epoch * 60000 \<le> unat (now - (now - vss_epoch_start_time s) mod EPOCH_LENGTH_MS)"
    using epoch_clock [of "vss_current_epoch s" "vss_epoch_start_time s" now] assms(1,3) by (simp_all add: new_epoch_def vset_inv_def)
  have s: "joined_ok (vss_current_epoch s) s" "leaving_ok (vss_current_epoch s) s" using assms(1) by (simp_all add: vset_inv_def stages_ok_def)
  have mono: "active_ok (vss_current_epoch s) v \<Longrightarrow> active_ok new_epoch v" "exited_ok (vss_current_epoch s) v \<Longrightarrow> exited_ok new_epoch v" for v
    using clock(1) by (auto simp: active_ok_def exited_ok_def exit_due_def split: option.splits)
  have wf: "hm_wf (vss_pending_validators s)" "hm_wf (vss_exiting_validators s)" using s by (auto simp: joined_ok_def leaving_ok_def table_ok_def)
  obtain active pending l where s1: "fold (activate_entry new_epoch) (iter (vss_pending_validators s)) (s\<lparr>vss_pending_validators := []\<rparr>, [])
      = (s\<lparr>vss_active_validators := active, vss_pending_validators := pending\<rparr>, l)"
    "joined_ok new_epoch (s\<lparr>vss_active_validators := active, vss_pending_validators := pending\<rparr>)"
  proof -
    have "distinct (map fst (iter (vss_pending_validators s)))" using hm_wf_iter [OF assms(2) wf(1)] by (simp add: hm_wf_def)
    moreover have "vd_address v = k \<and> pending_ok (vss_current_epoch s) v \<and> hm_get (vss_active_validators s) k = None"
      if "(k, v) \<in> set (iter (vss_pending_validators s))" for k v
    proof -
      have "hm_get (vss_pending_validators s) k = Some v" using that wf(1) iteration_order_set [OF assms(2)] by (simp add: hm_get_iff_mem)
      moreover have "hm_get (vss_pending_validators s) k = None \<or> hm_get (vss_active_validators s) k = None" using s(1) by (simp add: joined_ok_def)
      ultimately show ?thesis using s(1) table_okD [of _ "vss_pending_validators s" k v] by (auto simp: joined_ok_def)
    qed
    moreover have "joined_ok new_epoch (s\<lparr>vss_pending_validators := []\<rparr>)" using s(1) by (auto simp: joined_ok_def intro: table_ok_mono mono)
    ultimately show ?thesis
      using activate_fold [of "iter (vss_pending_validators s)" "vss_current_epoch s" "s\<lparr>vss_pending_validators := []\<rparr>" new_epoch "[]"] that by force
  qed
  let ?s1 = "s\<lparr>vss_active_validators := active, vss_pending_validators := pending\<rparr>"
  obtain exiting exited l' where s2: "fold (exit_entry new_epoch) (iter (vss_exiting_validators s)) (?s1\<lparr>vss_exiting_validators := []\<rparr>, [])
      = (?s1\<lparr>vss_exiting_validators := exiting, vss_exited_validators := exited\<rparr>, l')"
    "leaving_ok new_epoch (?s1\<lparr>vss_exiting_validators := exiting, vss_exited_validators := exited\<rparr>)"
  proof -
    have "vd_address v = k \<and> exiting_ok (vss_current_epoch s) v" if "(k, v) \<in> set (iter (vss_exiting_validators s))" for k v
      using that s(2) iteration_order_set [OF assms(2)] table_ok_mem [of "exiting_ok (vss_current_epoch s)" "vss_exiting_validators s" k v]
      by (simp add: leaving_ok_def)
    moreover have "leaving_ok new_epoch (?s1\<lparr>vss_exiting_validators := []\<rparr>)" using s(2) by (auto simp: leaving_ok_def intro: table_ok_mono mono)
    ultimately show ?thesis
      using exit_fold [of "iter (vss_exiting_validators s)" "vss_current_epoch s" new_epoch "?s1\<lparr>vss_exiting_validators := []\<rparr>" "[]"] that by force
  qed
  show ?thesis using False clock s1(2) s2(2)
    by (simp add: process_epoch_transition_def Let_def s1(1) s2(1) flip: new_epoch_def) (rule recalculate_inv; simp add: stages_defs)
qed (use assms(1) in \<open>simp add: process_epoch_transition_def\<close>)

lemma restore_inv: "vset_inv snapshot \<Longrightarrow> vset_inv (restore_state snapshot s)"
  by (simp add: restore_state_def recalculate_inv vset_inv_def [of snapshot])

lemma replaced_inv:
  "vset_inv s \<Longrightarrow> table_ok (active_ok (vss_current_epoch s)) m
   \<Longrightarrow> vset_inv (recalculate_total_stake (s\<lparr>vss_active_validators := m, vss_pending_validators := [], vss_exiting_validators := []\<rparr>))"
  by (intro recalculate_inv) (simp_all add: vset_inv_def stages_defs)

lemma sync_inv: "vset_inv s \<Longrightarrow> vset_inv (sync_from_legacy_validators env url_decode validators s)"
  unfolding sync_from_legacy_validators_def Let_def
  by (intro replaced_inv table_ok_fold) (auto simp: legacy_identity_def Let_def active_ok_def)

lemma seed_inv: "vset_inv s \<Longrightarrow> vset_inv (seed_genesis_validators env genesis s)"
  unfolding seed_genesis_validators_def Let_def
  by (intro replaced_inv table_ok_fold) (auto simp: genesis_identity_def active_ok_def)

interpretation validator_set: invariant_system "\<lambda>s. \<exists>now. s = ValidatorSetState_default now" "vset_step env" vset_inv for env
proof unfold_locales
  show "\<exists>now. s = ValidatorSetState_default now \<Longrightarrow> vset_inv s" for s
    by (auto simp: ValidatorSetState_default_def vset_inv_def stages_defs active_stake_def)
  show "vset_inv s \<Longrightarrow> vset_step env s t \<Longrightarrow> vset_inv t" for s t
    by (erule vset_step.cases)
      (simp_all add: register_inv add_stake_inv initiate_exit_inv slash_validator_inv epoch_inv participation_inv restore_inv sync_inv seed_inv)
qed

text \<open>
  C36: whatever operations come in whatever order, the total stake is the sum over the active
  validators that were not slashed, and every validator is in the table its epochs call for:
  it waits until its activation epoch, is active from then on, leaves at its exit epoch and not
  earlier, and no address is pending and active at once.
\<close>
theorem validator_set_consistent:
  assumes "(vset_step env)\<^sup>*\<^sup>* (ValidatorSetState_default start) s"
  shows "vss_total_active_stake s = wsum (map vd_effective_stake (filter (\<lambda>v. vd_status v = Active \<and> \<not> vd_slashed v) (hm_values (vss_active_validators s))))
    \<and> (\<forall>a v. hm_get (vss_pending_validators s) a = Some v \<longrightarrow>
         vd_status v = PendingActivation \<and> vss_current_epoch s < vd_activation_epoch v \<and> hm_get (vss_active_validators s) a = None)
    \<and> (\<forall>a v. hm_get (vss_active_validators s) a = Some v \<longrightarrow>
         vd_status v = (if vd_slashed v then Slashed else Active) \<and> vd_activation_epoch v \<le> vss_current_epoch s)
    \<and> (\<forall>a v. hm_get (vss_exiting_validators s) a = Some v \<longrightarrow> \<not> exit_due (vss_current_epoch s) v)
    \<and> (\<forall>a v. hm_get (vss_exited_validators s) a = Some v \<longrightarrow> vd_status v = Exited \<and> exit_due (vss_current_epoch s) v)"
proof -
  have "vset_inv s" using validator_set.run_inv [OF _ assms] by blast
  then have inv: "joined_ok (vss_current_epoch s) s" "leaving_ok (vss_current_epoch s) s"
    "vss_total_active_stake s = active_stake (vss_active_validators s)"
    by (simp_all add: vset_inv_def stages_ok_def)
  have "hm_get (vss_active_validators s) a = None" if "hm_get (vss_pending_validators s) a = Some v" for a v
    using inv(1) that unfolding joined_ok_def by (metis option.distinct(1))
  with inv show ?thesis
    unfolding active_stake_def is_active_def joined_ok_def leaving_ok_def table_ok_def stage_defs by blast
qed

section \<open>Slashed validators\<close>

text \<open>
  A slashed validator stays in the table of the active ones with what is left of its stake,
  although the total no longer contains it.
\<close>

lemma slashed_outside_total:
  assumes "vset_inv s" "hm_get (vss_active_validators s) a = Some v" and t_def: "t = fst (slash_validator saved a percent s)"
  shows "hm_get (vss_active_validators t) a = Some (slashed_identity percent v)"
    and "vd_effective_stake (slashed_identity percent v) = vd_stake v - f64_trunc_share (vd_stake v) percent"
    and "\<not> is_active_validator t a"
    and "vss_total_active_stake t = wsum (map vd_effective_stake (filter is_active (hm_values (hm_remove a (vss_active_validators s)))))"
proof -
  have wf: "hm_wf (vss_active_validators s)" using assms(1) by (simp add: vset_inv_def stages_defs table_ok_def)
  have "\<not> is_active (slashed_identity percent v)" by (simp add: is_active_def slashed_identity_def Let_def)
  then have "map vd_effective_stake (filter is_active (hm_values (hm_insert a (slashed_identity percent v) m)))
      = map vd_effective_stake (filter is_active (hm_values (hm_remove a m)))" if "hm_wf m" "hm_get m a \<noteq> None" for m
    using that by (induction m) (auto simp: hm_insert_Cons hm_remove_def hm_wf_def delete_id split: if_splits)
  then show "vss_total_active_stake t = wsum (map vd_effective_stake (filter is_active (hm_values (hm_remove a (vss_active_validators s)))))"
    using wf assms(2) by (simp add: t_def slash_validator_def recalculate_total_stake_def active_stake_def)
qed (use assms(2) in \<open>simp_all add: t_def slash_validator_def recalculate_total_stake_def is_active_validator_def is_active_def slashed_identity_def Let_def\<close>)

text \<open>A slashed validator that exits and registers again is a new validator.\<close>

lemma slashed_registers_again:
  assumes "hm_get (vss_active_validators s) a = Some v" "hm_get (vss_pending_validators s) a = None" "MIN_VALIDATOR_STAKE \<le> stake"
  shows "\<exists>w. snd (register_validator env True a key stake (fst (initiate_exit True a s))) = Inr w \<and> \<not> vd_slashed w \<and> vd_stake w = stake"
  using assms by (simp add: initiate_exit_def register_validator_def recalculate_total_stake_def hm_contains_def saved_result_def Let_def not_less)

section \<open>A sample run\<close>

definition sample_set :: ValidatorSetState where
  "sample_set = fst (register_validator sample_env True ''v'' [1] MIN_VALIDATOR_STAKE (ValidatorSetState_default 0))"

theorem validator_set_consistent_witness:
  "(vset_step sample_env)\<^sup>*\<^sup>* (ValidatorSetState_default 0) (fst (process_epoch_transition (\<lambda>xs. xs) 120000 sample_set))
   \<and> vss_total_active_stake (fst (process_epoch_transition (\<lambda>xs. xs) 120000 sample_set)) = MIN_VALIDATOR_STAKE"
proof -
  have run: "(vset_step sample_env)\<^sup>*\<^sup>* (ValidatorSetState_default 0) (fst (process_epoch_transition (\<lambda>xs. xs) 120000 sample_set))"
  proof (rule converse_rtranclp_into_rtranclp)
    show "vset_step sample_env (ValidatorSetState_default 0) sample_set" unfolding sample_set_def by (rule vs_register)
    show "(vset_step sample_env)\<^sup>*\<^sup>* sample_set (fst (process_epoch_transition (\<lambda>xs. xs) 120000 sample_set))"
      by (intro r_into_rtranclp vs_epoch iteration_order_id) (simp add: sample_set_def register_validator_def ValidatorSetState_default_def Let_def MIN_VALIDATOR_STAKE_def hm_contains_def)
  qed
  have "hm_values (vss_active_validators (fst (process_epoch_transition (\<lambda>xs. xs) 120000 sample_set))) = [genesis_identity sample_env 2 ''v'' [1] \<lparr>vd_stake := MIN_VALIDATOR_STAKE, vd_effective_stake := MIN_VALIDATOR_STAKE\<rparr>]"
    by (simp add: process_epoch_transition_def sample_set_def register_validator_def ValidatorSetState_default_def genesis_identity_def
      recalculate_total_stake_def Let_def EPOCH_LENGTH_MS_def MIN_VALIDATOR_STAKE_def ACTIVATION_DELAY_EPOCHS_def hm_contains_def)
  then show ?thesis using run validator_set_consistent [OF run] by (simp add: genesis_identity_def)
qed

end
