(* ===== verification/Rinku_Consensus.thy ===== *)
theory Rinku_Consensus
  imports Rinku_State Rinku_Slashing Rinku_Fast_Path Rinku_Leader Rinku_Validator_Set
begin

text \<open>
  \<open>rinku-node/src/consensus.rs\<close>: voting rounds on checkpoints. A round freezes the validators
  with their power, collects signed votes until they hold a quorum of the power, and yields a
  finality proof; validators that sign two checkpoints of one height are slashed, and validators
  that miss checkpoints are reported. The state of the node is an argument that is only read; the
  slashing service and the validator set, which other parts of the node share, are fields. Clocks
  and the success of writing the validator set are arguments.
\<close>

section \<open>Data\<close>

definition QUORUM_THRESHOLD :: f64 where "QUORUM_THRESHOLD = rnd (6666 / 10000)"
definition SUPER_MAJORITY_THRESHOLD :: f64 where "SUPER_MAJORITY_THRESHOLD = rnd (75 / 100)"

datatype VoteType = Prepare | Commit | Finalize

fun vote_type_u8 :: "VoteType \<Rightarrow> byte" where
  "vote_type_u8 Prepare = 0"
| "vote_type_u8 Commit = 1"
| "vote_type_u8 Finalize = 2"

record Vote =
  vote_validator :: string
  vote_vote_type :: VoteType
  vote_checkpoint_height :: u64
  vote_checkpoint_hash :: string
  vote_signature :: bytes
  vote_timestamp :: u64

definition vote_message :: "Vote \<Rightarrow> bytes" where
  "vote_message v = [vote_type_u8 (vote_vote_type v)] @ to_le_bytes (vote_checkpoint_height v) @ as_bytes (vote_checkpoint_hash v)"

record ValidatorSnapshot =
  snap_address :: string
  snap_voting_power :: u64
  snap_bls_public_key :: bytes

record VoteAccumulator =
  va_checkpoint_height :: u64
  va_checkpoint_hash :: string
  va_votes :: "(string, Vote) hash_map"
  va_total_voting_power :: u64
  va_accumulated_power :: u64
  va_signatures :: "bytes list"
  va_signer_indices :: "nat list"
  va_frozen_validators :: "ValidatorSnapshot list"

definition VoteAccumulator_new :: "u64 \<Rightarrow> string \<Rightarrow> u64 \<Rightarrow> ValidatorSnapshot list \<Rightarrow> VoteAccumulator" where
  "VoteAccumulator_new height h total_power validators =
     \<lparr>va_checkpoint_height = height, va_checkpoint_hash = h, va_votes = [], va_total_voting_power = total_power,
      va_accumulated_power = 0, va_signatures = [], va_signer_indices = [], va_frozen_validators = validators\<rparr>"

definition frozen_index :: "VoteAccumulator \<Rightarrow> string \<Rightarrow> nat option" where
  "frozen_index a address = position (\<lambda>v. snap_address v = address) (va_frozen_validators a)"

definition frozen_validator :: "VoteAccumulator \<Rightarrow> string \<Rightarrow> ValidatorSnapshot option" where
  "frozen_validator a address = find (\<lambda>v. snap_address v = address) (va_frozen_validators a)"

text \<open>\<open>iter_mut().find\<close>: the first match is changed.\<close>

fun modify_first :: "('a \<Rightarrow> bool) \<Rightarrow> ('a \<Rightarrow> 'a) \<Rightarrow> 'a list \<Rightarrow> 'a list" where
  "modify_first P f [] = []"
| "modify_first P f (x # xs) = (if P x then f x # xs else x # modify_first P f xs)"

definition reduce_validator_power :: "string \<Rightarrow> f64 \<Rightarrow> VoteAccumulator \<Rightarrow> VoteAccumulator \<times> u64 option" where
  "reduce_validator_power address reduction_ratio a =
     (case frozen_validator a address of
        None \<Rightarrow> (a, None)
      | Some validator \<Rightarrow>
          let reduction = f64_trunc_share (snap_voting_power validator) reduction_ratio
          in (a\<lparr>va_frozen_validators := modify_first (\<lambda>v. snap_address v = address)
                  (\<lambda>v. v\<lparr>snap_voting_power := saturating_sub (snap_voting_power v) reduction\<rparr>) (va_frozen_validators a),
                va_total_voting_power := saturating_sub (va_total_voting_power a) reduction,
                va_accumulated_power := (if hm_contains (va_votes a) address then saturating_sub (va_accumulated_power a) reduction
                                         else va_accumulated_power a)\<rparr>, Some reduction))"

definition voting_power_ratio :: "VoteAccumulator \<Rightarrow> f64" where
  "voting_power_ratio a =
     (if va_total_voting_power a = 0 then Fin 0
      else f64_div (f64_of_u64 (va_accumulated_power a)) (f64_of_u64 (va_total_voting_power a)))"

definition quorum_reached :: "VoteAccumulator \<Rightarrow> bool" where
  "quorum_reached a \<longleftrightarrow> f64_le QUORUM_THRESHOLD (voting_power_ratio a)"

definition super_majority_reached :: "VoteAccumulator \<Rightarrow> bool" where
  "super_majority_reached a \<longleftrightarrow> f64_le SUPER_MAJORITY_THRESHOLD (voting_power_ratio a)"

definition accumulate_vote :: "Vote \<Rightarrow> u64 \<Rightarrow> nat \<Rightarrow> VoteAccumulator \<Rightarrow> VoteAccumulator \<times> bool" where
  "accumulate_vote vote vote_power signer_index a =
     (if hm_contains (va_votes a) (vote_validator vote) then (a, False)
      else (a\<lparr>va_signatures := va_signatures a @ [vote_signature vote], va_signer_indices := va_signer_indices a @ [signer_index],
              va_accumulated_power := va_accumulated_power a + vote_power,
              va_votes := hm_insert (vote_validator vote) vote (va_votes a)\<rparr>, True))"

definition accumulator_signers :: "(string list \<Rightarrow> string list) \<Rightarrow> VoteAccumulator \<Rightarrow> string list" where
  "accumulator_signers iter a = iter (hm_keys (va_votes a))"

record FinalityProof =
  fpr_checkpoint_height :: u64
  fpr_checkpoint_hash :: string
  fpr_aggregated_signature :: bytes
  fpr_signer_bitmap :: bytes
  fpr_total_stake_voted :: u64
  fpr_total_stake :: u64
  fpr_quorum_threshold :: f64
  fpr_timestamp :: u64

definition finality_proof_is_valid :: "FinalityProof \<Rightarrow> bool" where
  "finality_proof_is_valid p \<longleftrightarrow>
     f64_le (fpr_quorum_threshold p)
       (if fpr_total_stake p > 0 then f64_div (f64_of_u64 (fpr_total_stake_voted p)) (f64_of_u64 (fpr_total_stake p)) else Fin 0)"

record QuorumVerificationResult =
  qv_valid :: bool
  qv_verified_stake :: u64
  qv_total_stake :: u64
  qv_quorum_reached :: bool
  qv_error :: bool

text \<open>\<open>DoubleSignEvidence\<close> of this file.\<close>

record DoubleSignVotes =
  dv_validator :: string
  dv_height :: u64
  dv_hash1 :: string
  dv_hash2 :: string
  dv_signature1 :: bytes
  dv_signature2 :: bytes

datatype VoteResult = VoteAccepted | DuplicateVote | QuorumReached

datatype consensus_error =
  NoActiveStake | NoVotingRound | UnknownValidator | InactiveValidator | MissingBlsKey | InvalidVoteSignature
| WrongCheckpointHash | QuorumNotReached | AggregationFailed | SerializationFailed

record ConsensusService =
  cs_validator_service :: "ValidatorSetState option"
  cs_pending_votes :: "(u64, VoteAccumulator) hash_map"
  cs_finalized_heights :: "u64 list"
  cs_last_finalized_height :: u64
  cs_vote_history :: "(string \<times> u64, Vote) hash_map"
  cs_slashed_validators :: "string list"
  cs_slashing_service :: SlashingService
  cs_liveness_tracking :: "(string, u32) hash_map"

definition ConsensusService_new :: ConsensusService where
  "ConsensusService_new =
     \<lparr>cs_validator_service = None, cs_pending_votes = [], cs_finalized_heights = [], cs_last_finalized_height = 0,
      cs_vote_history = [], cs_slashed_validators = [], cs_slashing_service = SlashingService_new, cs_liveness_tracking = []\<rparr>"

definition with_slashing_service :: "SlashingService \<Rightarrow> ConsensusService \<Rightarrow> ConsensusService" where
  "with_slashing_service slashing c = c\<lparr>cs_slashing_service := slashing\<rparr>"

definition with_validator_service :: "ValidatorSetState \<Rightarrow> ConsensusService \<Rightarrow> ConsensusService" where
  "with_validator_service validator_service c = c\<lparr>cs_validator_service := Some validator_service\<rparr>"

text \<open>
  \<open>bls.rs\<close> parses the signatures with \<open>blst\<close>, aggregates and compresses them: the field is
  that call on a list that is not empty.
\<close>

record bls_env = ack_env +
  be_aggregate :: "bytes list \<Rightarrow> bytes option"

definition aggregate_signatures :: "'a bls_env_scheme \<Rightarrow> bytes list \<Rightarrow> bytes option" where
  "aggregate_signatures env signatures = (if signatures = [] then None else be_aggregate env signatures)"

section \<open>Validators of a round\<close>

definition legacy_bls_key :: "'a ack_env_scheme \<Rightarrow> Validator \<Rightarrow> bytes" where
  "legacy_bls_key env v = unwrap_or (Option.bind (val_bls_public_key v) (hex_decode (ae_crypto env))) []"

text \<open>Address, power and key of the validators, from the validator set or from the node's state, with their total power.\<close>

definition registered_validators ::
  "'a ack_env_scheme \<Rightarrow> 'g StateInner \<Rightarrow> ConsensusService \<Rightarrow> ValidatorSnapshot list" where
  "registered_validators env st c =
     (case cs_validator_service c of
        Some vs \<Rightarrow> map (\<lambda>(addr, v). \<lparr>snap_address = addr, snap_voting_power = vd_effective_stake v, snap_bls_public_key = vd_bls_public_key v\<rparr>)
          (vss_active_validators vs)
      | None \<Rightarrow> map (\<lambda>(addr, v). \<lparr>snap_address = addr, snap_voting_power = val_stake v, snap_bls_public_key = legacy_bls_key env v\<rparr>)
          (si_validators st))"

definition registered_stake :: "'g StateInner \<Rightarrow> ConsensusService \<Rightarrow> u64" where
  "registered_stake st c =
     (case cs_validator_service c of
        Some vs \<Rightarrow> vss_total_active_stake vs
      | None \<Rightarrow> wsum (map val_stake (hm_values (si_validators st))))"

definition start_voting_round ::
  "'a ack_env_scheme \<Rightarrow> 'g StateInner \<Rightarrow> Checkpoint \<Rightarrow> ConsensusService \<Rightarrow> consensus_error + ConsensusService" where
  "start_voting_round env st checkpoint c =
     (let frozen_validators = sort_key snap_address (registered_validators env st c);
          total_stake = registered_stake st c
      in if total_stake = 0 then Inl NoActiveStake
         else Inr (c\<lparr>cs_pending_votes := hm_insert (cp_height checkpoint)
                (VoteAccumulator_new (cp_height checkpoint) (cp_hash checkpoint) total_stake frozen_validators) (cs_pending_votes c)\<rparr>))"

definition get_sorted_validators :: "'g StateInner \<Rightarrow> ConsensusService \<Rightarrow> string list" where
  "get_sorted_validators st c =
     (case cs_validator_service c of
        Some vs \<Rightarrow> sort (hm_keys (vss_active_validators vs))
      | None \<Rightarrow> sort (hm_keys (si_validators st)))"

definition get_validator_index_deterministic :: "string \<Rightarrow> string list \<Rightarrow> nat" where
  "get_validator_index_deterministic address validators = unwrap_or (position (\<lambda>a. a = address) validators) 0"

text \<open>Power, key and index of the voter: from the frozen validators, or without them from the current ones.\<close>

definition voter ::
  "'a ack_env_scheme \<Rightarrow> 'g StateInner \<Rightarrow> ConsensusService \<Rightarrow> VoteAccumulator \<Rightarrow> string \<Rightarrow> consensus_error + u64 \<times> bytes \<times> nat" where
  "voter env st c a address =
     (if va_frozen_validators a \<noteq> [] then
        (case (frozen_validator a address, frozen_index a address) of
           (Some v, Some idx) \<Rightarrow> Inr (snap_voting_power v, snap_bls_public_key v, idx)
         | _ \<Rightarrow> Inl UnknownValidator)
      else case cs_validator_service c of
        Some vs \<Rightarrow>
          (case get_validator vs address of
             None \<Rightarrow> Inl UnknownValidator
           | Some v \<Rightarrow> if \<not> is_active v then Inl InactiveValidator
               else Inr (vd_effective_stake v, vd_bls_public_key v,
                 get_validator_index_deterministic address (get_sorted_validators st c)))
      | None \<Rightarrow>
          (case hm_get (si_validators st) address of
             None \<Rightarrow> Inl UnknownValidator
           | Some v \<Rightarrow> Inr (val_stake v, legacy_bls_key env v,
               get_validator_index_deterministic address (get_sorted_validators st c))))"

section \<open>Double signing\<close>

text \<open>
  \<open>None\<close> is the panic of cutting a hash inside a character. \<open>now\<close> and \<open>now'\<close> are the clock
  readings of \<open>submit_double_sign_evidence\<close> and \<open>slash\<close>.
\<close>

definition handle_double_sign_detection ::
  "'a ack_env_scheme \<Rightarrow> bool \<Rightarrow> u64 \<Rightarrow> u64 \<Rightarrow> DoubleSignVotes \<Rightarrow> ConsensusService \<Rightarrow> (ConsensusService \<times> u64 option) option" where
  "handle_double_sign_detection env saved now now' evidence c =
     (let (vs', slashed_amount) = (case cs_validator_service c of
            Some vs \<Rightarrow> if get_validator vs (dv_validator evidence) \<noteq> None
              then let (vs', r) = slash_validator saved (dv_validator evidence) (rnd (15 / 100)) vs
                   in (Some vs', case r of Inr n \<Rightarrow> Some n | Inl _ \<Rightarrow> None)
              else (Some vs, None)
          | None \<Rightarrow> (None, None));
          slashing = fst (submit_double_sign_evidence now (dv_validator evidence) (dv_height evidence) (dv_hash1 evidence) (dv_hash2 evidence)
            (ae_url_encode env (dv_signature1 evidence)) (Some (ae_url_encode env (dv_signature2 evidence))) (cs_slashing_service c));
          c = c\<lparr>cs_validator_service := vs', cs_slashing_service := slashing\<rparr>
      in case slashed_amount of
           None \<Rightarrow> Some (c, None)
         | Some slashed \<Rightarrow>
             (case (str_take (min 8 (length (dv_hash1 evidence))) (dv_hash1 evidence), str_take (min 8 (length (dv_hash2 evidence))) (dv_hash2 evidence)) of
                (Some h1, Some h2) \<Rightarrow>
                  let original_stake = to_u64 (f64_div (f64_of_u64 slashed) (rnd (15 / 100)));
                      slashing = fst (slash now' (dv_validator evidence) original_stake DoubleSign (dv_height evidence)
                        (Some (''Double-sign: '' @ h1 @ '' vs '' @ h2)) slashing)
                  in Some (c\<lparr>cs_slashing_service := slashing,
                       cs_pending_votes := hm_map_values (\<lambda>a. fst (reduce_validator_power (dv_validator evidence) (rnd (15 / 100)) a)) (cs_pending_votes c)\<rparr>,
                     Some slashed)
              | _ \<Rightarrow> None))"

definition double_sign_of :: "Vote \<Rightarrow> ConsensusService \<Rightarrow> DoubleSignVotes option" where
  "double_sign_of vote c =
     (case hm_get (cs_vote_history c) (vote_validator vote, vote_checkpoint_height vote) of
        Some existing \<Rightarrow>
          if vote_checkpoint_hash existing \<noteq> vote_checkpoint_hash vote \<and> vote_validator vote \<notin> set (cs_slashed_validators c)
          then Some \<lparr>dv_validator = vote_validator vote, dv_height = vote_checkpoint_height vote,
                 dv_hash1 = vote_checkpoint_hash existing, dv_hash2 = vote_checkpoint_hash vote,
                 dv_signature1 = vote_signature existing, dv_signature2 = vote_signature vote\<rparr>
          else None
      | None \<Rightarrow> None)"

definition punish_double_sign ::
  "'a ack_env_scheme \<Rightarrow> bool \<Rightarrow> u64 \<Rightarrow> u64 \<Rightarrow> Vote \<Rightarrow> ConsensusService \<Rightarrow> ConsensusService option" where
  "punish_double_sign env saved now now' vote c =
     (case double_sign_of vote c of
        None \<Rightarrow> Some c
      | Some evidence \<Rightarrow>
          map_option (\<lambda>(c, slashed). if slashed \<noteq> None then c\<lparr>cs_slashed_validators := List.insert (vote_validator vote) (cs_slashed_validators c)\<rparr> else c)
            (handle_double_sign_detection env saved now now' evidence c))"

definition check_double_signing :: "string \<Rightarrow> u64 \<Rightarrow> string \<Rightarrow> bytes \<Rightarrow> ConsensusService \<Rightarrow> DoubleSignVotes option" where
  "check_double_signing validator height h signature c =
     Option.bind (hm_get (cs_pending_votes c) height) (\<lambda>a. Option.bind (hm_get (va_votes a) validator) (\<lambda>existing.
       if vote_checkpoint_hash existing \<noteq> h
       then Some \<lparr>dv_validator = validator, dv_height = height, dv_hash1 = vote_checkpoint_hash existing, dv_hash2 = h,
              dv_signature1 = vote_signature existing, dv_signature2 = signature\<rparr>
       else None))"

section \<open>Votes\<close>

text \<open>The round the vote is for, after the checks and the punishment.\<close>

definition count_round_vote :: "Vote \<Rightarrow> u64 \<Rightarrow> nat \<Rightarrow> ConsensusService \<Rightarrow> ConsensusService \<times> (consensus_error + VoteResult)" where
  "count_round_vote vote vote_power signer_index c =
     (case hm_get (cs_pending_votes c) (vote_checkpoint_height vote) of
        None \<Rightarrow> (c, Inl NoVotingRound)
      | Some a \<Rightarrow>
          let (a, is_new) = accumulate_vote vote vote_power signer_index a;
              c = c\<lparr>cs_pending_votes := hm_insert (vote_checkpoint_height vote) a (cs_pending_votes c)\<rparr>
          in if \<not> is_new then (c, Inr DuplicateVote)
             else if quorum_reached a \<and> va_checkpoint_height a \<notin> set (cs_finalized_heights c)
             then (c\<lparr>cs_finalized_heights := va_checkpoint_height a # cs_finalized_heights c,
                     cs_last_finalized_height := va_checkpoint_height a\<rparr>, Inr QuorumReached)
             else (c, Inr VoteAccepted))"

definition process_vote ::
  "'a ack_env_scheme \<Rightarrow> 'g StateInner \<Rightarrow> bool \<Rightarrow> u64 \<Rightarrow> u64 \<Rightarrow> Vote \<Rightarrow> ConsensusService
   \<Rightarrow> (ConsensusService \<times> (consensus_error + VoteResult)) option" where
  "process_vote env st saved now now' vote c =
     (case hm_get (cs_pending_votes c) (vote_checkpoint_height vote) of
        None \<Rightarrow> Some (c, Inl NoVotingRound)
      | Some a \<Rightarrow>
          (case voter env st c a (vote_validator vote) of
             Inl e \<Rightarrow> Some (c, Inl e)
           | Inr (vote_power, bls_pubkey, signer_index) \<Rightarrow>
               if bls_pubkey = [] then Some (c, Inl MissingBlsKey)
               else if \<not> ae_bls_verify env (vote_message vote) (vote_signature vote) bls_pubkey then Some (c, Inl InvalidVoteSignature)
               else map_option (\<lambda>c.
                      let c = c\<lparr>cs_vote_history := hm_insert (vote_validator vote, vote_checkpoint_height vote) vote (cs_vote_history c)\<rparr>
                      in if vote_checkpoint_hash vote \<noteq> va_checkpoint_hash a then (c, Inl WrongCheckpointHash)
                         else count_round_vote vote vote_power signer_index c)
                    (punish_double_sign env saved now now' vote c)))"

section \<open>Liveness and cleaning up\<close>

definition validator_stake_of :: "'g StateInner \<Rightarrow> ConsensusService \<Rightarrow> string \<Rightarrow> u64" where
  "validator_stake_of st c validator =
     (case cs_validator_service c of
        Some vs \<Rightarrow> (case get_validator vs validator of Some v \<Rightarrow> vd_effective_stake v | None \<Rightarrow> 0)
      | None \<Rightarrow> (case hm_get (si_validators st) validator of Some v \<Rightarrow> val_stake v | None \<Rightarrow> 0))"

text \<open>\<open>clock\<close> gives the two readings of each report.\<close>

definition track_validator ::
  "'g StateInner \<Rightarrow> (string \<Rightarrow> u64 \<times> u64) \<Rightarrow> u64 \<Rightarrow> string list \<Rightarrow> string \<Rightarrow> ConsensusService \<Rightarrow> ConsensusService" where
  "track_validator st clock checkpoint_height participating validator c =
     (if validator \<notin> set participating then
        let n = unwrap_or (hm_get (cs_liveness_tracking c) validator) 0 + 1;
            c = c\<lparr>cs_liveness_tracking := hm_insert validator n (cs_liveness_tracking c)\<rparr>;
            stake = validator_stake_of st c validator
        in if n \<ge> LIVENESS_MISS_THRESHOLD \<and> stake > 0
           then c\<lparr>cs_slashing_service := fst (record_liveness_failure (fst (clock validator)) (snd (clock validator)) validator checkpoint_height stake
                  (cs_slashing_service c))\<rparr>
           else c
      else c\<lparr>cs_slashing_service := reset_liveness_counter validator (cs_slashing_service c),
             cs_liveness_tracking := hm_remove validator (cs_liveness_tracking c)\<rparr>)"

definition track_liveness ::
  "(string list \<Rightarrow> string list) \<Rightarrow> 'g StateInner \<Rightarrow> (string \<Rightarrow> u64 \<times> u64) \<Rightarrow> u64 \<Rightarrow> string list \<Rightarrow> ConsensusService \<Rightarrow> ConsensusService" where
  "track_liveness iter st clock checkpoint_height participating_validators c =
     fold (track_validator st clock checkpoint_height participating_validators)
       (iter (case cs_validator_service c of Some vs \<Rightarrow> hm_keys (vss_active_validators vs) | None \<Rightarrow> hm_keys (si_validators st))) c"

definition cleanup_old_vote_history :: "u64 \<Rightarrow> ConsensusService \<Rightarrow> ConsensusService" where
  "cleanup_old_vote_history keep_after_height c =
     c\<lparr>cs_vote_history := hm_retain (\<lambda>(_, height) _. height \<ge> keep_after_height) (cs_vote_history c)\<rparr>"

definition is_validator_slashed :: "ConsensusService \<Rightarrow> string \<Rightarrow> bool" where
  "is_validator_slashed c validator \<longleftrightarrow> validator \<in> set (cs_slashed_validators c)"

definition clear_slashed_set :: "ConsensusService \<Rightarrow> ConsensusService" where
  "clear_slashed_set c = c\<lparr>cs_slashed_validators := []\<rparr>"

definition cleanup_old_rounds :: "u64 \<Rightarrow> ConsensusService \<Rightarrow> ConsensusService" where
  "cleanup_old_rounds keep_after c =
     c\<lparr>cs_pending_votes := hm_retain (\<lambda>h _. h \<ge> keep_after) (cs_pending_votes c),
       cs_finalized_heights := filter (\<lambda>h. h \<ge> keep_after) (cs_finalized_heights c)\<rparr>"

section \<open>Proofs of finality\<close>

definition create_finality_proof ::
  "'a bls_env_scheme \<Rightarrow> 'g StateInner \<Rightarrow> u64 \<Rightarrow> u64 \<Rightarrow> ConsensusService \<Rightarrow> consensus_error + FinalityProof" where
  "create_finality_proof env st now height c =
     (case hm_get (cs_pending_votes c) height of
        None \<Rightarrow> Inl NoVotingRound
      | Some a \<Rightarrow>
          if \<not> quorum_reached a then Inl QuorumNotReached
          else case aggregate_signatures env (va_signatures a) of
                 None \<Rightarrow> Inl AggregationFailed
               | Some aggregated \<Rightarrow> Inr \<lparr>fpr_checkpoint_height = height, fpr_checkpoint_hash = va_checkpoint_hash a,
                   fpr_aggregated_signature = aggregated,
                   fpr_signer_bitmap = create_signer_bitmap (va_signer_indices a) (length (get_sorted_validators st c)),
                   fpr_total_stake_voted = va_accumulated_power a, fpr_total_stake = va_total_voting_power a,
                   fpr_quorum_threshold = QUORUM_THRESHOLD, fpr_timestamp = now\<rparr>)"

definition vote_signatures ::
  "'a ack_env_scheme \<Rightarrow> 'g StateInner \<Rightarrow> ConsensusService \<Rightarrow> (string \<times> Vote) list \<Rightarrow> ValidatorSignature list" where
  "vote_signatures env st c votes =
     List.map_filter (\<lambda>(addr, vote).
       case cs_validator_service c of
         Some vs \<Rightarrow> map_option (\<lambda>v. \<lparr>vs_validator = addr, vs_signature = ae_url_encode env (vote_signature vote),
             vs_weight = vd_effective_stake v, vs_bls_public_key = Some (ae_url_encode env (vd_bls_public_key v))\<rparr>) (get_validator vs addr)
       | None \<Rightarrow> map_option (\<lambda>v. \<lparr>vs_validator = addr, vs_signature = ae_url_encode env (vote_signature vote),
             vs_weight = val_stake v, vs_bls_public_key = val_bls_public_key v\<rparr>) (hm_get (si_validators st) addr)) votes"

text \<open>The signatures are written to the checkpoint before the aggregation may fail.\<close>

definition apply_votes_to_checkpoint ::
  "'a bls_env_scheme \<Rightarrow> ((string \<times> Vote) list \<Rightarrow> (string \<times> Vote) list) \<Rightarrow> 'g StateInner \<Rightarrow> u64 \<Rightarrow> ConsensusService \<Rightarrow> Checkpoint
   \<Rightarrow> Checkpoint \<times> (consensus_error + unit)" where
  "apply_votes_to_checkpoint env iter st height c checkpoint =
     (case hm_get (cs_pending_votes c) height of
        None \<Rightarrow> (checkpoint, Inl NoVotingRound)
      | Some a \<Rightarrow>
          if \<not> quorum_reached a then (checkpoint, Inl QuorumNotReached)
          else let checkpoint = checkpoint\<lparr>cp_validator_signatures := vote_signatures env st c (iter (va_votes a))\<rparr>
               in case aggregate_signatures env (va_signatures a) of
                    None \<Rightarrow> (checkpoint, Inl AggregationFailed)
                  | Some aggregated \<Rightarrow> (checkpoint\<lparr>cp_aggregated_signature := Some (ae_url_encode env aggregated),
                      cp_signer_bitmap := Some (create_signer_bitmap (va_signer_indices a) (length (get_sorted_validators st c)))\<rparr>, Inr ()))"

text \<open>A signature of the checkpoint counts when its validator is registered and its base64 and BLS signature are valid.\<close>

definition signature_stake ::
  "'a ack_env_scheme \<Rightarrow> (string, u64 \<times> bytes) hash_map \<Rightarrow> bytes \<Rightarrow> ValidatorSignature \<Rightarrow> u64" where
  "signature_stake env validators_map checkpoint_hash sig =
     (case hm_get validators_map (vs_validator sig) of
        None \<Rightarrow> 0
      | Some (stake, bls_pk) \<Rightarrow>
          (case ae_url_decode env (vs_signature sig) of
             None \<Rightarrow> 0
           | Some signature \<Rightarrow> if ae_bls_verify env checkpoint_hash signature bls_pk then stake else 0))"

definition verify_checkpoint_quorum ::
  "'a ack_env_scheme \<Rightarrow> 'g StateInner \<Rightarrow> ConsensusService \<Rightarrow> Checkpoint \<Rightarrow> QuorumVerificationResult" where
  "verify_checkpoint_quorum env st c checkpoint =
     (let total_stake = registered_stake st c;
          validators_map = map (\<lambda>v. (snap_address v, snap_voting_power v, snap_bls_public_key v)) (registered_validators env st c);
          checkpoint_hash = unwrap_or (hex_decode (ae_crypto env) (cp_hash checkpoint)) []
      in if total_stake = 0
         then \<lparr>qv_valid = False, qv_verified_stake = 0, qv_total_stake = 0, qv_quorum_reached = False, qv_error = True\<rparr>
         else let verified_stake = foldl (\<lambda>acc sig. acc + signature_stake env validators_map checkpoint_hash sig) 0 (cp_validator_signatures checkpoint);
                  quorum = f64_le QUORUM_THRESHOLD (f64_div (f64_of_u64 verified_stake) (f64_of_u64 total_stake))
              in \<lparr>qv_valid = quorum, qv_verified_stake = verified_stake, qv_total_stake = total_stake, qv_quorum_reached = quorum, qv_error = \<not> quorum\<rparr>)"

definition is_finalized :: "ConsensusService \<Rightarrow> u64 \<Rightarrow> bool" where
  "is_finalized c height \<longleftrightarrow> height \<in> set (cs_finalized_heights c)"

section \<open>Transactions\<close>

text \<open>\<open>tx_json\<close> is \<open>serde_json::to_string\<close>; the hash is over the transaction without its signature.\<close>

definition required_balance :: "Transaction \<Rightarrow> u64" where
  "required_balance tx =
     (let gas_fee = unwrap_or (tx_gas_price tx) 100000
      in if tx_kind tx = Some Unstake then gas_fee else tx_amount tx + gas_fee)"

definition validate_transaction ::
  "crypto_env \<Rightarrow> (Transaction \<Rightarrow> string option) \<Rightarrow> 'g StateInner \<Rightarrow> SignedTransaction \<Rightarrow> consensus_error + bool" where
  "validate_transaction env tx_json st tx =
     (case tx_json ((st_tx tx)\<lparr>tx_signature := None\<rparr>) of
        None \<Rightarrow> Inl SerializationFailed
      | Some json \<Rightarrow> Inr (
          sha256_hex env json = st_hash tx
          \<and> (tx_amount (st_tx tx) = 0 \<longrightarrow> tx_kind (st_tx tx) = Some Unstake)
          \<and> (case hm_get (si_accounts st) (tx_from (st_tx tx)) of
               Some account \<Rightarrow> required_balance (st_tx tx) \<le> acc_balance account \<and> tx_nonce (st_tx tx) = acc_nonce account
             | None \<Rightarrow> tx_from (st_tx tx) = ''genesis'')
          \<and> list_all (\<lambda>parent. parent \<noteq> [] \<longrightarrow> dag_contains (si_dag st) parent) (tx_parents (st_tx tx))))"

definition consensus_transaction_weight :: "float_env \<Rightarrow> u64 \<Rightarrow> 'g StateInner \<Rightarrow> SignedTransaction \<Rightarrow> f64" where
  "consensus_transaction_weight fe now st tx =
     (case hm_get (si_accounts st) (tx_from (st_tx tx)) of Some account \<Rightarrow> calculate_account_weight fe account now | None \<Rightarrow> Fin 1)"

end
