(* ===== verification/Rinku_Consensus_Properties.thy ===== *)
theory Rinku_Consensus_Properties
  imports Rinku_Consensus Rinku_Partition
begin

text \<open>
  What voting rounds guarantee. In every run the votes a round holds are signed by validators
  frozen in it, one each, for its checkpoint; a height is reported final once; a checkpoint whose
  signers are distinct is accepted by the stake of those who really signed. The last section shows
  where the code counts too much.
\<close>

section \<open>Frozen validators\<close>

definition frozen_keys :: "VoteAccumulator \<Rightarrow> (string \<times> bytes) list" where
  "frozen_keys a = map (\<lambda>v. (snap_address v, snap_bls_public_key v)) (va_frozen_validators a)"

lemma map_modify_first: "(\<And>x. g (f x) = g x) \<Longrightarrow> map g (modify_first P f xs) = map g xs"
  by (induction xs) auto

lemma frozen_keys_reduce [simp]: "frozen_keys (fst (reduce_validator_power address r a)) = frozen_keys a"
  by (simp add: frozen_keys_def reduce_validator_power_def Let_def map_modify_first split: option.split)

lemma reduce_fields [simp]:
  "va_votes (fst (reduce_validator_power address r a)) = va_votes a"
  "va_signatures (fst (reduce_validator_power address r a)) = va_signatures a"
  "va_signer_indices (fst (reduce_validator_power address r a)) = va_signer_indices a"
  "va_checkpoint_height (fst (reduce_validator_power address r a)) = va_checkpoint_height a"
  "va_checkpoint_hash (fst (reduce_validator_power address r a)) = va_checkpoint_hash a"
  by (simp_all add: reduce_validator_power_def Let_def split: option.split)

lemma fst_frozen_keys: "map fst (frozen_keys a) = map snap_address (va_frozen_validators a)"
  by (simp add: frozen_keys_def)

lemma position_map: "position (\<lambda>x. P (f x)) xs = position P (map f xs)"
  by (induction xs) auto

lemma frozen_index_keys: "frozen_index a address = position (\<lambda>x. x = address) (map fst (frozen_keys a))"
  unfolding frozen_index_def fst_frozen_keys by (rule position_map)

section \<open>Rounds\<close>

text \<open>A vote counts for a round when it is for its checkpoint and signed by a frozen validator.\<close>

definition vote_signed :: "'a ack_env_scheme \<Rightarrow> VoteAccumulator \<Rightarrow> Vote \<Rightarrow> bool" where
  "vote_signed env a v \<longleftrightarrow> vote_checkpoint_height v = va_checkpoint_height a \<and> vote_checkpoint_hash v = va_checkpoint_hash a
     \<and> (\<exists>key. (vote_validator v, key) \<in> set (frozen_keys a) \<and> key \<noteq> [] \<and> ae_bls_verify env (vote_message v) (vote_signature v) key)"

definition round_ok :: "'a ack_env_scheme \<Rightarrow> u64 \<Rightarrow> VoteAccumulator \<Rightarrow> bool" where
  "round_ok env h a \<longleftrightarrow> va_checkpoint_height a = h \<and> frozen_keys a \<noteq> [] \<and> distinct (map fst (frozen_keys a)) \<and> hm_wf (va_votes a)
     \<and> (\<forall>k v. hm_get (va_votes a) k = Some v \<longrightarrow> vote_validator v = k \<and> vote_signed env a v)
     \<and> va_signatures a = map vote_signature (hm_values (va_votes a))
     \<and> map Some (va_signer_indices a) = map (frozen_index a) (hm_keys (va_votes a))"

definition power_of :: "VoteAccumulator \<Rightarrow> string \<Rightarrow> u64" where
  "power_of a address = (case frozen_validator a address of Some v \<Rightarrow> snap_voting_power v | None \<Rightarrow> 0)"

definition power_ok :: "VoteAccumulator \<Rightarrow> bool" where
  "power_ok a \<longleftrightarrow> va_accumulated_power a = wsum (map (power_of a) (hm_keys (va_votes a)))
     \<and> va_total_voting_power a = wsum (map snap_voting_power (va_frozen_validators a))"

lemma frozen_index_cong: "frozen_keys a = frozen_keys b \<Longrightarrow> frozen_index a = frozen_index b"
  by (simp add: fun_eq_iff frozen_index_keys)

lemma vote_signed_cong:
  "frozen_keys a = frozen_keys b \<Longrightarrow> va_checkpoint_height a = va_checkpoint_height b \<Longrightarrow> va_checkpoint_hash a = va_checkpoint_hash b
   \<Longrightarrow> vote_signed env a = vote_signed env b"
  by (simp add: fun_eq_iff vote_signed_def)

lemma round_ok_reduce: "round_ok env h a \<Longrightarrow> round_ok env h (fst (reduce_validator_power address r a))"
  using vote_signed_cong [of "fst (reduce_validator_power address r a)" a env] frozen_index_cong [of "fst (reduce_validator_power address r a)" a]
  by (simp add: round_ok_def)

lemma hm_insert_fresh: "\<not> hm_contains m k \<Longrightarrow> hm_insert k v m = m @ [(k, v)]"
  by (induction m) (auto simp: hm_insert_Cons hm_contains_def split: if_splits)

lemma round_ok_vote:
  assumes "round_ok env h a" "vote_signed env a vote" "frozen_index a (vote_validator vote) = Some i" "accumulate_vote vote p i a = (a', is_new)"
  shows "round_ok env h a'"
proof (cases "hm_contains (va_votes a) (vote_validator vote)")
  case False
  then have a': "a' = a\<lparr>va_signatures := va_signatures a @ [vote_signature vote], va_signer_indices := va_signer_indices a @ [i],
      va_accumulated_power := va_accumulated_power a + p, va_votes := va_votes a @ [(vote_validator vote, vote)]\<rparr>"
    using assms(4) by (simp add: accumulate_vote_def hm_insert_fresh)
  have keys: "frozen_keys a' = frozen_keys a" by (simp add: a' frozen_keys_def)
  have "hm_wf (va_votes a')" "hm_get (va_votes a') k = (if k = vote_validator vote then Some vote else hm_get (va_votes a) k)" for k
    using assms(1) False hm_insert_fresh [OF False, of vote] hm_get_insert [of "vote_validator vote" vote "va_votes a" k]
      hm_wf_insert [of "va_votes a" "vote_validator vote" vote] by (simp_all add: a' round_ok_def)
  moreover have "vote_signed env a' = vote_signed env a" by (rule vote_signed_cong [OF keys]) (simp_all add: a')
  ultimately show ?thesis using assms(1-3) frozen_index_cong [OF keys] by (simp add: round_ok_def keys) (simp add: a')
qed (use assms(1,4) in \<open>simp add: accumulate_vote_def\<close>)

lemma power_ok_vote:
  assumes "power_ok a" "frozen_validator a (vote_validator vote) = Some w" "accumulate_vote vote (snap_voting_power w) i a = (a', is_new)"
  shows "power_ok a'"
proof (cases "hm_contains (va_votes a) (vote_validator vote)")
  case False
  have "power_of (a\<lparr>va_signatures := x, va_signer_indices := y, va_accumulated_power := z, va_votes := vs\<rparr>) = power_of a" for x y z vs
    by (simp add: power_of_def frozen_validator_def fun_eq_iff)
  then show ?thesis using assms False by (auto simp: accumulate_vote_def hm_insert_fresh power_ok_def) (simp add: power_of_def)
qed (use assms in \<open>simp add: accumulate_vote_def\<close>)

section \<open>Runs\<close>

text \<open>
  The service beside the state of the node it reads. The rest of the node changes that state, the
  validator set and the slashing records in between. A step reports the height it finalizes and
  the height below which it forgets.
\<close>

datatype round_event = Reported u64 | Forgotten u64 | Silent

inductive consensus_step ::
  "'a ack_env_scheme \<Rightarrow> 'g StateInner \<times> ConsensusService \<Rightarrow> round_event \<Rightarrow> 'g StateInner \<times> ConsensusService \<Rightarrow> bool" for env where
  start_round: "start_voting_round env st checkpoint c = Inr c' \<Longrightarrow> consensus_step env (st, c) Silent (st, c')"
| vote_counted: "process_vote env st saved now now' vote c = Some (c', r) \<Longrightarrow>
    consensus_step env (st, c) (if r = Inr QuorumReached then Reported (vote_checkpoint_height vote) else Silent) (st, c')"
| double_sign: "handle_double_sign_detection env saved now now' evidence c = Some (c', slashed) \<Longrightarrow> consensus_step env (st, c) Silent (st, c')"
| liveness: "consensus_step env (st, c) Silent (st, track_liveness iter st clock height participating c)"
| forget_history: "consensus_step env (st, c) Silent (st, cleanup_old_vote_history k c)"
| forget_slashed: "consensus_step env (st, c) Silent (st, clear_slashed_set c)"
| forget_rounds: "consensus_step env (st, c) (Forgotten k) (st, cleanup_old_rounds k c)"
| validators_change: "cs_validator_service c = Some vs \<Longrightarrow> vset_step cenv vs vs' \<Longrightarrow>
    consensus_step env (st, c) Silent (st, c\<lparr>cs_validator_service := Some vs'\<rparr>)"
| slashing_change: "consensus_step env (st, c) Silent (st, c\<lparr>cs_slashing_service := slashing\<rparr>)"
| node_change: "hm_wf (si_validators st') \<Longrightarrow> consensus_step env (st, c) Silent (st', c)"

definition consensus_init :: "'g StateInner \<times> ConsensusService \<Rightarrow> bool" where
  "consensus_init = (\<lambda>(st, c). hm_wf (si_validators st) \<and> cs_pending_votes c = [] \<and> cs_finalized_heights c = []
     \<and> (\<forall>vs. cs_validator_service c = Some vs \<longrightarrow> vset_inv vs))"

definition rounds_ok :: "'a ack_env_scheme \<Rightarrow> ConsensusService \<Rightarrow> bool" where
  "rounds_ok env c \<longleftrightarrow> (\<forall>h a. hm_get (cs_pending_votes c) h = Some a \<longrightarrow> round_ok env h a \<and> (cs_validator_service c = None \<longrightarrow> power_ok a))"

definition consensus_inv :: "'a ack_env_scheme \<Rightarrow> 'g StateInner \<times> ConsensusService \<Rightarrow> bool" where
  "consensus_inv env = (\<lambda>(st, c). hm_wf (si_validators st) \<and> (\<forall>vs. cs_validator_service c = Some vs \<longrightarrow> vset_inv vs)
     \<and> hm_wf (cs_pending_votes c) \<and> rounds_ok env c)"

lemma rounds_ok_insert: "rounds_ok env c \<Longrightarrow> round_ok env h a \<and> (cs_validator_service c = None \<longrightarrow> power_ok a)
    \<Longrightarrow> rounds_ok env (c\<lparr>cs_pending_votes := hm_insert h a (cs_pending_votes c)\<rparr>)"
  by (simp add: rounds_ok_def)

lemma rounds_ok_frame: "rounds_ok env c \<Longrightarrow> cs_pending_votes c' = cs_pending_votes c
    \<Longrightarrow> cs_validator_service c' = None \<longleftrightarrow> cs_validator_service c = None \<Longrightarrow> rounds_ok env c'"
  by (simp add: rounds_ok_def)

text \<open>A new round freezes at least one validator, each address once.\<close>

lemma registered_validators_keys:
  "map snap_address (registered_validators env st c) = (case cs_validator_service c of Some vs \<Rightarrow> hm_keys (vss_active_validators vs) | None \<Rightarrow> hm_keys (si_validators st))"
  by (auto simp: registered_validators_def split: option.split)

lemma registered_distinct: "consensus_inv env (st, c) \<Longrightarrow> distinct (map snap_address (registered_validators env' st c))"
  by (auto simp: registered_validators_keys consensus_inv_def vset_inv_def stages_defs table_ok_def hm_wf_def split: option.split)

lemma registered_nonempty: "consensus_inv env (st, c) \<Longrightarrow> registered_stake st c \<noteq> 0 \<Longrightarrow> registered_validators env' st c \<noteq> []"
  by (auto simp: registered_stake_def registered_validators_def consensus_inv_def vset_inv_def active_stake_def split: option.splits)

lemma round_ok_new:
  assumes "consensus_inv env (st, c)" "registered_stake st c \<noteq> 0"
  shows "round_ok env h (VoteAccumulator_new h hash (registered_stake st c) (sort_key snap_address (registered_validators env st c)))"
    and "cs_validator_service c = None \<Longrightarrow> power_ok (VoteAccumulator_new h hash (registered_stake st c) (sort_key snap_address (registered_validators env st c)))"
proof -
  let ?a = "VoteAccumulator_new h hash (registered_stake st c) (sort_key snap_address (registered_validators env st c))"
  have "map fst (frozen_keys ?a) = map snap_address (sort_key snap_address (registered_validators env st c))"
    by (simp add: frozen_keys_def VoteAccumulator_new_def)
  moreover have "mset (map snap_address (sort_key snap_address (registered_validators env st c))) = mset (map snap_address (registered_validators env st c))" by simp
  ultimately have "distinct (map fst (frozen_keys ?a))" using registered_distinct [OF assms(1), of env] by (metis mset_eq_imp_distinct_iff)
  moreover have "frozen_keys ?a \<noteq> []" using registered_nonempty [OF assms, of env] by (simp add: frozen_keys_def VoteAccumulator_new_def)
  ultimately show "round_ok env h ?a" by (simp add: round_ok_def) (simp add: VoteAccumulator_new_def)
  assume "cs_validator_service c = None"
  then have "registered_stake st c = wsum (map snap_voting_power (registered_validators env st c))"
    by (simp add: registered_stake_def registered_validators_def comp_def case_prod_unfold)
  also have "\<dots> = wsum (map snap_voting_power (sort_key snap_address (registered_validators env st c)))" by (rule wsum_mset_eq) simp
  finally show "power_ok ?a" by (simp add: power_ok_def VoteAccumulator_new_def)
qed

lemma start_round_inv: "consensus_inv env (st, c) \<Longrightarrow> start_voting_round env st checkpoint c = Inr c' \<Longrightarrow> consensus_inv env (st, c')"
proof -
  assume inv: "consensus_inv env (st, c)" and start: "start_voting_round env st checkpoint c = Inr c'"
  have total: "registered_stake st c \<noteq> 0" using start by (auto simp: start_voting_round_def Let_def)
  let ?a = "VoteAccumulator_new (cp_height checkpoint) (cp_hash checkpoint) (registered_stake st c) (sort_key snap_address (registered_validators env st c))"
  have "c' = c\<lparr>cs_pending_votes := hm_insert (cp_height checkpoint) ?a (cs_pending_votes c)\<rparr>"
    using start total by (simp add: start_voting_round_def Let_def)
  then show ?thesis using inv round_ok_new [OF inv total] rounds_ok_insert [of env c "cp_height checkpoint" ?a] by (simp add: consensus_inv_def)
qed

text \<open>Punishing a double vote reduces powers, and only with a validator set.\<close>

lemma handle_frame:
  assumes "handle_double_sign_detection env saved now now' evidence c = Some (c', slashed)"
  shows "cs_finalized_heights c' = cs_finalized_heights c"
    and "\<exists>f \<in> {\<lambda>a. a, \<lambda>a. fst (reduce_validator_power (dv_validator evidence) (rnd (15 / 100)) a)}. cs_pending_votes c' = hm_map_values f (cs_pending_votes c)"
    and "cs_validator_service c = None \<Longrightarrow> cs_validator_service c' = None \<and> cs_pending_votes c' = cs_pending_votes c"
    and "\<forall>vs. cs_validator_service c = Some vs \<longrightarrow> vset_inv vs \<Longrightarrow> cs_validator_service c' = Some vs' \<Longrightarrow> vset_inv vs'"
    and "cs_validator_service c' = None \<longleftrightarrow> cs_validator_service c = None"
proof -
  have id: "hm_map_values (\<lambda>a. a) m = m" for m :: "(u64, VoteAccumulator) hash_map" by (simp add: hm_map_values_def)
  note defs = handle_double_sign_detection_def Let_def case_prod_unfold
  show "cs_finalized_heights c' = cs_finalized_heights c"
    using assms by (auto simp: defs split: option.splits if_splits sum.splits)
  show "\<exists>f \<in> {\<lambda>a. a, \<lambda>a. fst (reduce_validator_power (dv_validator evidence) (rnd (15 / 100)) a)}. cs_pending_votes c' = hm_map_values f (cs_pending_votes c)"
    using assms by (auto simp: defs id split: option.splits if_splits sum.splits)
  show "cs_validator_service c = None \<Longrightarrow> cs_validator_service c' = None \<and> cs_pending_votes c' = cs_pending_votes c"
    using assms by (auto simp: defs)
  show "\<forall>vs. cs_validator_service c = Some vs \<longrightarrow> vset_inv vs \<Longrightarrow> cs_validator_service c' = Some vs' \<Longrightarrow> vset_inv vs'"
    using assms slash_validator_inv by (auto simp: defs split: option.splits if_splits sum.splits)
  show "cs_validator_service c' = None \<longleftrightarrow> cs_validator_service c = None"
    using assms by (auto simp: defs split: option.splits if_splits sum.splits)
qed

lemma handle_inv:
  assumes "consensus_inv env (st, c)" "handle_double_sign_detection env saved now now' evidence c = Some (c', slashed)"
  shows "consensus_inv env (st, c')"
proof -
  note frame = handle_frame [OF assms(2)]
  obtain f where f: "f \<in> {\<lambda>a. a, \<lambda>a. fst (reduce_validator_power (dv_validator evidence) (rnd (15 / 100)) a)}"
    "cs_pending_votes c' = hm_map_values f (cs_pending_votes c)" using frame(2) by blast
  have "rounds_ok env c'"
  proof (cases "cs_validator_service c = None")
    case True
    then show ?thesis using assms(1) frame(3) by (auto simp: consensus_inv_def elim: rounds_ok_frame)
  next
    case False
    then have "cs_validator_service c' \<noteq> None" using frame(5) by simp
    moreover have "round_ok env h (f a)" if "round_ok env h a" for h a using f(1) round_ok_reduce [OF that] that by auto
    ultimately show ?thesis using assms(1) by (auto simp: consensus_inv_def rounds_ok_def f(2) hm_get_map_values)
  qed
  moreover have "\<forall>vs. cs_validator_service c' = Some vs \<longrightarrow> vset_inv vs"
    using assms(1) frame(4) unfolding consensus_inv_def by fast
  ultimately show ?thesis using assms(1) by (simp add: consensus_inv_def f(2))
qed

lemma punish_inv:
  assumes "consensus_inv env (st, c)" "punish_double_sign env saved now now' vote c = Some c'"
  shows "consensus_inv env (st, c')" "cs_finalized_heights c' = cs_finalized_heights c"
    and "cs_validator_service c' = None \<longleftrightarrow> cs_validator_service c = None"
    and "cs_validator_service c = None \<Longrightarrow> cs_pending_votes c' = cs_pending_votes c"
    and "hm_get (cs_pending_votes c) h = Some a \<Longrightarrow> \<exists>a'. hm_get (cs_pending_votes c') h = Some a' \<and> frozen_keys a' = frozen_keys a
      \<and> va_checkpoint_hash a' = va_checkpoint_hash a"
proof -
  consider (none) "c' = c" | (handled) evidence c1 slashed where "handle_double_sign_detection env saved now now' evidence c = Some (c1, slashed)"
      "c' = c1 \<or> (\<exists>l. c' = c1\<lparr>cs_slashed_validators := l\<rparr>)"
    using assms(2) by (auto simp: punish_double_sign_def split: option.splits if_splits)
  then have "consensus_inv env (st, c') \<and> cs_finalized_heights c' = cs_finalized_heights c
    \<and> (cs_validator_service c' = None \<longleftrightarrow> cs_validator_service c = None) \<and> (cs_validator_service c = None \<longrightarrow> cs_pending_votes c' = cs_pending_votes c)
    \<and> (\<forall>h a. hm_get (cs_pending_votes c) h = Some a \<longrightarrow> (\<exists>a'. hm_get (cs_pending_votes c') h = Some a' \<and> frozen_keys a' = frozen_keys a
      \<and> va_checkpoint_hash a' = va_checkpoint_hash a))"
  proof cases
    case handled
    have same: "consensus_inv env (st, c') = consensus_inv env (st, c1)" "cs_pending_votes c' = cs_pending_votes c1"
      "cs_finalized_heights c' = cs_finalized_heights c1" "cs_validator_service c' = cs_validator_service c1"
      using handled(2) by (auto simp: consensus_inv_def rounds_ok_def)
    note frame = handle_frame [OF handled(1)]
    have "\<exists>a'. hm_get (cs_pending_votes c1) h = Some a' \<and> frozen_keys a' = frozen_keys a \<and> va_checkpoint_hash a' = va_checkpoint_hash a"
      if "hm_get (cs_pending_votes c) h = Some a" for h a
      using frame(2) that by (auto simp: hm_get_map_values)
    then show ?thesis using handle_inv [OF assms(1) handled(1)] frame(1,3,5) unfolding same by blast
  qed (use assms(1) in auto)
  then show "consensus_inv env (st, c')" "cs_finalized_heights c' = cs_finalized_heights c"
    "cs_validator_service c' = None \<longleftrightarrow> cs_validator_service c = None"
    "cs_validator_service c = None \<Longrightarrow> cs_pending_votes c' = cs_pending_votes c"
    "hm_get (cs_pending_votes c) h = Some a \<Longrightarrow> \<exists>a'. hm_get (cs_pending_votes c') h = Some a' \<and> frozen_keys a' = frozen_keys a
      \<and> va_checkpoint_hash a' = va_checkpoint_hash a" by blast+
qed

lemma voter_frozen:
  assumes "round_ok env h a" "voter env' st c a address = Inr (p, key, i)"
  shows "\<exists>w. frozen_validator a address = Some w \<and> p = snap_voting_power w \<and> key = snap_bls_public_key w"
    and "(address, key) \<in> set (frozen_keys a)" "frozen_index a address = Some i"
proof -
  have "va_frozen_validators a \<noteq> []" using assms(1) by (simp add: round_ok_def frozen_keys_def)
  then obtain w where w: "frozen_validator a address = Some w" "frozen_index a address = Some i" "p = snap_voting_power w" "key = snap_bls_public_key w"
    using assms(2) by (auto simp: voter_def split: option.splits)
  then show "\<exists>w. frozen_validator a address = Some w \<and> p = snap_voting_power w \<and> key = snap_bls_public_key w" "frozen_index a address = Some i" by blast+
  have "w \<in> set (va_frozen_validators a)" "snap_address w = address"
    using w(1) by (auto simp: frozen_validator_def find_Some_iff)
  then show "(address, key) \<in> set (frozen_keys a)" using w(4) by (auto simp: frozen_keys_def)
qed

text \<open>What a vote that passes the checks does.\<close>

lemma process_voteE:
  assumes "process_vote env st saved now now' vote c = Some (c', r)" "c' \<noteq> c \<or> (\<exists>x. r = Inr x)"
  obtains a p key i c1 where "hm_get (cs_pending_votes c) (vote_checkpoint_height vote) = Some a" "voter env st c a (vote_validator vote) = Inr (p, key, i)"
    "key \<noteq> []" "ae_bls_verify env (vote_message vote) (vote_signature vote) key" "punish_double_sign env saved now now' vote c = Some c1"
    "(c', r) = (let c2 = c1\<lparr>cs_vote_history := hm_insert (vote_validator vote, vote_checkpoint_height vote) vote (cs_vote_history c1)\<rparr>
       in if vote_checkpoint_hash vote \<noteq> va_checkpoint_hash a then (c2, Inl WrongCheckpointHash) else count_round_vote vote p i c2)"
proof -
  obtain a where a: "hm_get (cs_pending_votes c) (vote_checkpoint_height vote) = Some a"
    using assms by (auto simp: process_vote_def split: option.splits)
  then obtain p key i where v: "voter env st c a (vote_validator vote) = Inr (p, key, i)"
    using assms by (auto simp: process_vote_def split: sum.splits)
  then show ?thesis using assms a v that [OF a v] by (auto simp: process_vote_def split: if_splits)
qed

lemma count_round_vote_inv:
  assumes "consensus_inv env (st, c)" "count_round_vote vote p i c = (c', r)" "hm_get (cs_pending_votes c) (vote_checkpoint_height vote) = Some a"
    and "vote_signed env a vote" "frozen_index a (vote_validator vote) = Some i"
    and "cs_validator_service c = None \<Longrightarrow> \<exists>w. frozen_validator a (vote_validator vote) = Some w \<and> p = snap_voting_power w"
  shows "consensus_inv env (st, c')" "cs_validator_service c' = cs_validator_service c"
    and "if r = Inr QuorumReached
      then vote_checkpoint_height vote \<notin> set (cs_finalized_heights c) \<and> cs_finalized_heights c' = vote_checkpoint_height vote # cs_finalized_heights c
        \<and> (\<exists>a'. hm_get (cs_pending_votes c') (vote_checkpoint_height vote) = Some a' \<and> quorum_reached a')
      else cs_finalized_heights c' = cs_finalized_heights c"
proof -
  let ?h = "vote_checkpoint_height vote"
  obtain a' is_new where a': "accumulate_vote vote p i a = (a', is_new)" by fastforce
  have ok: "round_ok env ?h a" "cs_validator_service c = None \<Longrightarrow> power_ok a" using assms(1,3) by (auto simp: consensus_inv_def rounds_ok_def)
  have ok': "round_ok env ?h a'" using round_ok_vote [OF ok(1) assms(4,5) a'] .
  have "power_ok a'" if "cs_validator_service c = None"
    using power_ok_vote [OF ok(2) [OF that]] assms(6) [OF that] a' by auto
  then have rounds: "rounds_ok env (c\<lparr>cs_pending_votes := hm_insert ?h a' (cs_pending_votes c)\<rparr>)"
    using assms(1) ok' by (intro rounds_ok_insert) (auto simp: consensus_inv_def)
  have h: "va_checkpoint_height a' = ?h" using ok' by (simp add: round_ok_def)
  have c': "cs_pending_votes c' = hm_insert ?h a' (cs_pending_votes c)" "cs_validator_service c' = cs_validator_service c"
    using assms(2,3) a' by (auto simp: count_round_vote_def Let_def split: if_splits)
  show "cs_validator_service c' = cs_validator_service c" by (rule c'(2))
  show "consensus_inv env (st, c')" using assms(1) rounds c' by (auto simp: consensus_inv_def rounds_ok_def)
  show "if r = Inr QuorumReached
      then ?h \<notin> set (cs_finalized_heights c) \<and> cs_finalized_heights c' = ?h # cs_finalized_heights c
        \<and> (\<exists>a'. hm_get (cs_pending_votes c') ?h = Some a' \<and> quorum_reached a')
      else cs_finalized_heights c' = cs_finalized_heights c"
    using assms(2,3) a' h by (auto simp: count_round_vote_def Let_def split: if_splits)
qed

lemma process_vote_inv:
  assumes "consensus_inv env (st, c)" "process_vote env st saved now now' vote c = Some (c', r)"
  shows "consensus_inv env (st, c')" "cs_validator_service c' = None \<longleftrightarrow> cs_validator_service c = None"
    and "if r = Inr QuorumReached
      then vote_checkpoint_height vote \<notin> set (cs_finalized_heights c) \<and> cs_finalized_heights c' = vote_checkpoint_height vote # cs_finalized_heights c
        \<and> (\<exists>a'. hm_get (cs_pending_votes c') (vote_checkpoint_height vote) = Some a' \<and> quorum_reached a')
      else cs_finalized_heights c' = cs_finalized_heights c"
proof -
  let ?h = "vote_checkpoint_height vote"
  let ?post = "consensus_inv env (st, c') \<and> (cs_validator_service c' = None \<longleftrightarrow> cs_validator_service c = None)
    \<and> (if r = Inr QuorumReached then ?h \<notin> set (cs_finalized_heights c) \<and> cs_finalized_heights c' = ?h # cs_finalized_heights c
        \<and> (\<exists>a'. hm_get (cs_pending_votes c') ?h = Some a' \<and> quorum_reached a') else cs_finalized_heights c' = cs_finalized_heights c)"
  have ?post
  proof (cases "c' \<noteq> c \<or> (\<exists>x. r = Inr x)")
    case True
    obtain a p key i c1 where v: "hm_get (cs_pending_votes c) ?h = Some a" "voter env st c a (vote_validator vote) = Inr (p, key, i)"
      "key \<noteq> []" "ae_bls_verify env (vote_message vote) (vote_signature vote) key" "punish_double_sign env saved now now' vote c = Some c1"
      "(c', r) = (let c2 = c1\<lparr>cs_vote_history := hm_insert (vote_validator vote, ?h) vote (cs_vote_history c1)\<rparr>
         in if vote_checkpoint_hash vote \<noteq> va_checkpoint_hash a then (c2, Inl WrongCheckpointHash) else count_round_vote vote p i c2)"
      by (rule process_voteE [OF assms(2) True])
    define c2 where "c2 = c1\<lparr>cs_vote_history := hm_insert (vote_validator vote, ?h) vote (cs_vote_history c1)\<rparr>"
    note punished = punish_inv [OF assms(1) v(5)]
    have inv2: "consensus_inv env (st, c2)" using punished(1) by (simp add: consensus_inv_def rounds_ok_def c2_def)
    have ok: "round_ok env ?h a" using assms(1) v(1) by (simp add: consensus_inv_def rounds_ok_def)
    note frozen = voter_frozen [OF ok v(2)]
    obtain a1 where a1: "hm_get (cs_pending_votes c2) ?h = Some a1" "frozen_keys a1 = frozen_keys a" "va_checkpoint_hash a1 = va_checkpoint_hash a"
      using punished(5) [OF v(1)] by (auto simp: c2_def)
    show ?thesis
    proof (cases "vote_checkpoint_hash vote = va_checkpoint_hash a")
      case False
      then show ?thesis using v(6) inv2 punished by (simp add: c2_def [symmetric]) (simp add: c2_def)
    next
      case hash: True
      then have count: "count_round_vote vote p i c2 = (c', r)" using v(6) by (simp add: c2_def)
      have "va_checkpoint_height a1 = ?h" using inv2 a1(1) by (auto simp: consensus_inv_def rounds_ok_def round_ok_def)
      then have signed: "vote_signed env a1 vote" using frozen(2) v(3,4) a1(2,3) hash by (auto simp: vote_signed_def)
      have "\<exists>w. frozen_validator a1 (vote_validator vote) = Some w \<and> p = snap_voting_power w" if "cs_validator_service c2 = None"
      proof -
        have "cs_validator_service c = None" using that punished(3) by (simp add: c2_def)
        then have "a1 = a" using punished(4) v(1) a1(1) by (simp add: c2_def)
        then show ?thesis using frozen(1) by auto
      qed
      moreover have "cs_finalized_heights c2 = cs_finalized_heights c" "cs_validator_service c2 = None \<longleftrightarrow> cs_validator_service c = None"
        using punished(2,3) by (simp_all add: c2_def)
      ultimately show ?thesis using count_round_vote_inv [OF inv2 count a1(1) signed] frozen(3) frozen_index_cong [OF a1(2)]
        by (cases "r = Inr QuorumReached") simp_all
    qed
  qed (use assms in auto)
  then show "consensus_inv env (st, c')" "cs_validator_service c' = None \<longleftrightarrow> cs_validator_service c = None"
    "if r = Inr QuorumReached then ?h \<notin> set (cs_finalized_heights c) \<and> cs_finalized_heights c' = ?h # cs_finalized_heights c
        \<and> (\<exists>a'. hm_get (cs_pending_votes c') ?h = Some a' \<and> quorum_reached a') else cs_finalized_heights c' = cs_finalized_heights c" by blast+
qed

lemma track_liveness_frame:
  "cs_pending_votes (track_liveness iter st clock height participating c) = cs_pending_votes c"
  "cs_finalized_heights (track_liveness iter st clock height participating c) = cs_finalized_heights c"
  "cs_validator_service (track_liveness iter st clock height participating c) = cs_validator_service c"
proof -
  let ?same = "\<lambda>c c'. cs_pending_votes c' = cs_pending_votes c \<and> cs_finalized_heights c' = cs_finalized_heights c
    \<and> cs_validator_service c' = cs_validator_service c"
  have "?same c (track_validator st clock height participating v c)" for v c
    by (simp add: track_validator_def Let_def)
  then have "?same c (fold (track_validator st clock height participating) vs c)" for vs
    by (induction vs arbitrary: c) auto
  then show "cs_pending_votes (track_liveness iter st clock height participating c) = cs_pending_votes c"
    "cs_finalized_heights (track_liveness iter st clock height participating c) = cs_finalized_heights c"
    "cs_validator_service (track_liveness iter st clock height participating c) = cs_validator_service c"
    by (simp_all add: track_liveness_def)
qed

text \<open>The set of finalized heights, as the events of a run describe it.\<close>

fun finalized_after :: "u64 set \<Rightarrow> round_event list \<Rightarrow> u64 set" where
  "finalized_after F [] = F"
| "finalized_after F (Reported h # es) = finalized_after (insert h F) es"
| "finalized_after F (Forgotten k # es) = finalized_after {h \<in> F. k \<le> h} es"
| "finalized_after F (Silent # es) = finalized_after F es"

lemma consensus_step_inv:
  assumes "consensus_step env s e t" "consensus_inv env s"
  shows "consensus_inv env t \<and> set (cs_finalized_heights (snd t)) = finalized_after (set (cs_finalized_heights (snd s))) [e]
    \<and> (\<forall>h. e = Reported h \<longrightarrow> h \<notin> set (cs_finalized_heights (snd s)))"
  using assms
proof (induction rule: consensus_step.induct)
  case (start_round st checkpoint c c')
  then show ?case using start_round_inv [of env st c checkpoint c'] by (auto simp: start_voting_round_def Let_def split: if_splits)
next
  case (vote_counted st saved now now' vote c c' r)
  then show ?case using process_vote_inv [of env st c saved now now' vote c' r] by auto
next
  case (double_sign saved now now' evidence c c' slashed st)
  then show ?case using handle_inv [of env st c saved now now' evidence c' slashed] handle_frame(1) [OF double_sign(1)] by auto
next
  case (validators_change c vs cenv vs' st)
  then show ?case using validator_set.step_inv [of vs cenv vs'] by (auto simp: consensus_inv_def rounds_ok_def)
qed (auto simp: consensus_inv_def rounds_ok_def track_liveness_frame cleanup_old_vote_history_def clear_slashed_set_def cleanup_old_rounds_def
  hm_get_retain split: option.splits if_splits)

interpretation consensus: invariant_system consensus_init "\<lambda>s t. \<exists>e. consensus_step env s e t" "consensus_inv env" for env
proof unfold_locales
  show "consensus_init s \<Longrightarrow> consensus_inv env s" for s by (auto simp: consensus_init_def consensus_inv_def rounds_ok_def)
qed (use consensus_step_inv in blast)

inductive consensus_run ::
  "'a ack_env_scheme \<Rightarrow> 'g StateInner \<times> ConsensusService \<Rightarrow> round_event list \<Rightarrow> 'g StateInner \<times> ConsensusService \<Rightarrow> bool" for env where
  run_stop: "consensus_run env s [] s"
| run_step: "consensus_step env s e t \<Longrightarrow> consensus_run env t es u \<Longrightarrow> consensus_run env s (e # es) u"

lemma consensus_run_reaches: "consensus_run env s es t \<Longrightarrow> (\<lambda>s t. \<exists>e. consensus_step env s e t)\<^sup>*\<^sup>* s t"
  by (induction rule: consensus_run.induct) (auto intro: converse_rtranclp_into_rtranclp)

lemma consensus_run_inv: "consensus_init s \<Longrightarrow> consensus_run env s es t \<Longrightarrow> consensus_inv env t"
  using consensus.run_inv consensus_run_reaches by blast

text \<open>
  C37: when a vote is reported to complete the quorum of its checkpoint, the round holds a quorum by
  the votes of its frozen validators: each vote is for this checkpoint, with a valid signature of a
  frozen validator, no validator votes twice, the signatures and indices handed to the finality
  proof are those of the votes; and when the powers come from the node's state, the counted power is
  the sum of the voters' powers and the total that of all frozen validators.
\<close>
theorem quorum_is_signed:
  assumes "consensus_init s0" "consensus_run env s0 es (st, c)" "process_vote env st saved now now' vote c = Some (c', Inr QuorumReached)"
  shows "\<exists>a. hm_get (cs_pending_votes c') (vote_checkpoint_height vote) = Some a \<and> quorum_reached a \<and> distinct (hm_keys (va_votes a))
    \<and> (\<forall>k v. hm_get (va_votes a) k = Some v \<longrightarrow> vote_validator v = k \<and> vote_checkpoint_height v = vote_checkpoint_height vote
        \<and> vote_checkpoint_hash v = va_checkpoint_hash a
        \<and> (\<exists>w \<in> set (va_frozen_validators a). snap_address w = k \<and> ae_bls_verify env (vote_message v) (vote_signature v) (snap_bls_public_key w)))
    \<and> va_signatures a = map vote_signature (hm_values (va_votes a)) \<and> map Some (va_signer_indices a) = map (frozen_index a) (hm_keys (va_votes a))
    \<and> (cs_validator_service c = None \<longrightarrow> va_accumulated_power a = wsum (map (power_of a) (hm_keys (va_votes a)))
        \<and> va_total_voting_power a = wsum (map snap_voting_power (va_frozen_validators a)))"
proof -
  note inv = consensus_run_inv [OF assms(1,2)]
  note post = process_vote_inv [OF inv assms(3)]
  obtain a where a: "hm_get (cs_pending_votes c') (vote_checkpoint_height vote) = Some a" "quorum_reached a" using post(3) by auto
  have ok: "round_ok env (vote_checkpoint_height vote) a" "cs_validator_service c' = None \<Longrightarrow> power_ok a"
    using post(1) a(1) by (auto simp: consensus_inv_def rounds_ok_def)
  have "\<exists>w \<in> set (va_frozen_validators a). snap_address w = vote_validator v \<and> ae_bls_verify env (vote_message v) (vote_signature v) (snap_bls_public_key w)"
    if "vote_signed env a v" for v
    using that by (auto simp: vote_signed_def frozen_keys_def)
  then have "\<forall>k v. hm_get (va_votes a) k = Some v \<longrightarrow> vote_validator v = k \<and> vote_checkpoint_height v = vote_checkpoint_height vote
      \<and> vote_checkpoint_hash v = va_checkpoint_hash a
      \<and> (\<exists>w \<in> set (va_frozen_validators a). snap_address w = k \<and> ae_bls_verify env (vote_message v) (vote_signature v) (snap_bls_public_key w))"
    using ok(1) by (auto simp: round_ok_def vote_signed_def) metis
  then show ?thesis using a ok post(2) by (intro exI [of _ a]) (simp add: round_ok_def hm_wf_def power_ok_def)
qed

lemma finalized_after_append: "finalized_after F (es @ es') = finalized_after (finalized_after F es) es'"
  by (induction F es rule: finalized_after.induct) auto

lemma consensus_run_finalized:
  "consensus_run env s es t \<Longrightarrow> consensus_inv env s \<Longrightarrow>
   set (cs_finalized_heights (snd t)) = finalized_after (set (cs_finalized_heights (snd s))) es
   \<and> (\<forall>us h vs. es = us @ Reported h # vs \<longrightarrow> h \<notin> finalized_after (set (cs_finalized_heights (snd s))) us)"
proof (induction rule: consensus_run.induct)
  case (run_step s e t es u)
  note step = consensus_step_inv [OF run_step.hyps(1) run_step.prems]
  have t: "finalized_after (set (cs_finalized_heights (snd t))) us = finalized_after (set (cs_finalized_heights (snd s))) (e # us)" for us
    using finalized_after_append [of "set (cs_finalized_heights (snd s))" "[e]" us] step by simp
  from run_step.IH step have IH: "set (cs_finalized_heights (snd u)) = finalized_after (set (cs_finalized_heights (snd t))) es"
    "\<And>us h vs. es = us @ Reported h # vs \<Longrightarrow> h \<notin> finalized_after (set (cs_finalized_heights (snd t))) us" by blast+
  show ?case
  proof (intro conjI allI impI)
    show "set (cs_finalized_heights (snd u)) = finalized_after (set (cs_finalized_heights (snd s))) (e # es)" using IH(1) t by simp
    show "h \<notin> finalized_after (set (cs_finalized_heights (snd s))) us" if "e # es = us @ Reported h # vs" for us h vs
      using that step IH(2) t by (cases us) auto
  qed
qed simp

text \<open>
  C38: no height is reported final twice, unless the service was told in between to forget it; the
  finalized heights are exactly those reported and not forgotten.
\<close>
theorem height_reported_once:
  assumes "consensus_init s" "consensus_run env s es t"
  shows "set (cs_finalized_heights (snd t)) = finalized_after {} es
    \<and> (\<forall>us h vs. es = us @ Reported h # vs \<longrightarrow> h \<notin> finalized_after {} us)"
proof -
  have "set (cs_finalized_heights (snd s)) = {}" "consensus_inv env s"
    using assms(1) consensus.init_inv by (auto simp: consensus_init_def)
  then show ?thesis using consensus_run_finalized [OF assms(2)] by simp
qed

section \<open>Verifying a checkpoint\<close>

definition signature_valid :: "'a ack_env_scheme \<Rightarrow> bytes \<Rightarrow> ValidatorSnapshot \<Rightarrow> ValidatorSignature \<Rightarrow> bool" where
  "signature_valid env checkpoint_hash w sig \<longleftrightarrow>
     (case ae_url_decode env (vs_signature sig) of Some signature \<Rightarrow> ae_bls_verify env checkpoint_hash signature (snap_bls_public_key w) | None \<Rightarrow> False)"

definition signed_by :: "'a ack_env_scheme \<Rightarrow> bytes \<Rightarrow> ValidatorSignature list \<Rightarrow> ValidatorSnapshot \<Rightarrow> bool" where
  "signed_by env checkpoint_hash sigs w \<longleftrightarrow> (\<exists>sig \<in> set sigs. vs_validator sig = snap_address w \<and> signature_valid env checkpoint_hash w sig)"

lemma wsum_filter_disj:
  "(\<And>x. x \<in> set xs \<Longrightarrow> \<not> (P x \<and> Q x)) \<Longrightarrow>
   wsum (map f (filter (\<lambda>x. P x \<or> Q x) xs)) = wsum (map f (filter P xs)) + wsum (map f (filter Q xs))"
  by (induction xs) (auto simp: ac_simps)

lemma signature_stake_filter:
  "distinct (map snap_address vs) \<Longrightarrow>
   signature_stake env (map (\<lambda>v. (snap_address v, snap_voting_power v, snap_bls_public_key v)) vs) h sig
   = wsum (map snap_voting_power (filter (\<lambda>w. vs_validator sig = snap_address w \<and> signature_valid env h w sig) vs))"
proof (induction vs)
  case (Cons v vs)
  have "filter (\<lambda>w. vs_validator sig = snap_address w \<and> signature_valid env h w sig) vs = []" if "vs_validator sig = snap_address v"
    using Cons.prems that by (auto simp: filter_empty_conv image_iff)
  then show ?case using Cons by (auto simp: signature_stake_def signature_valid_def split: option.splits)
qed (simp add: signature_stake_def)

lemma foldl_signature_stake: "foldl (\<lambda>acc sig. acc + f sig) (b :: u64) sigs = b + wsum (map f sigs)"
  by (induction sigs arbitrary: b) (auto simp: ac_simps)

lemma wsum_signatures:
  assumes "distinct (map snap_address vs)" "distinct (map vs_validator sigs)"
  shows "wsum (map (signature_stake env (map (\<lambda>v. (snap_address v, snap_voting_power v, snap_bls_public_key v)) vs) h) sigs)
    = wsum (map snap_voting_power (filter (signed_by env h sigs) vs))"
  using assms(2)
proof (induction sigs)
  case (Cons sig sigs)
  have cons: "signed_by env h (sig # sigs) = (\<lambda>w. vs_validator sig = snap_address w \<and> signature_valid env h w sig \<or> signed_by env h sigs w)"
    by (auto simp: signed_by_def fun_eq_iff)
  have "\<not> (vs_validator sig = snap_address w \<and> signature_valid env h w sig \<and> signed_by env h sigs w)" for w
    using Cons.prems by (auto simp: signed_by_def image_iff)
  then have "wsum (map snap_voting_power (filter (signed_by env h (sig # sigs)) vs))
      = wsum (map snap_voting_power (filter (\<lambda>w. vs_validator sig = snap_address w \<and> signature_valid env h w sig) vs))
        + wsum (map snap_voting_power (filter (signed_by env h sigs) vs))"
    using wsum_filter_disj [of vs "\<lambda>w. vs_validator sig = snap_address w \<and> signature_valid env h w sig" "signed_by env h sigs" snap_voting_power]
    by (simp add: cons)
  then show ?case using Cons signature_stake_filter [OF assms(1)] by simp
qed (simp add: signed_by_def)

text \<open>
  C39: a checkpoint whose signers are distinct is accepted exactly when the stake of the registered
  validators with a valid signature among its signatures reaches the quorum.
\<close>
theorem verified_stake_counts_signers:
  assumes "consensus_init s0" "consensus_run env s0 es (st, c)" "distinct (map vs_validator (cp_validator_signatures checkpoint))"
    and "registered_stake st c \<noteq> 0"
  shows "qv_verified_stake (verify_checkpoint_quorum env st c checkpoint) = wsum (map snap_voting_power
      (filter (signed_by env (unwrap_or (hex_decode (ae_crypto env) (cp_hash checkpoint)) []) (cp_validator_signatures checkpoint)) (registered_validators env st c)))
    \<and> (qv_valid (verify_checkpoint_quorum env st c checkpoint) \<longleftrightarrow>
      f64_le QUORUM_THRESHOLD (f64_div (f64_of_u64 (qv_verified_stake (verify_checkpoint_quorum env st c checkpoint))) (f64_of_u64 (registered_stake st c))))"
  using wsum_signatures [OF registered_distinct [OF consensus_run_inv [OF assms(1,2)]] assms(3)] assms(4)
  by (simp add: verify_checkpoint_quorum_def Let_def foldl_signature_stake)

section \<open>Where the code counts too much\<close>

text \<open>A signature that is listed several times counts each time.\<close>

lemma filter_unique: "distinct (map f xs) \<Longrightarrow> w \<in> set xs \<Longrightarrow> P w \<Longrightarrow> filter (\<lambda>x. f w = f x \<and> P x) xs = [w]"
  by (induction xs) (auto simp: filter_empty_conv image_iff)

lemma repeated_signature_counts:
  assumes "registered_stake st c \<noteq> 0" "distinct (map snap_address (registered_validators env st c))" "w \<in> set (registered_validators env st c)"
    and "vs_validator sig = snap_address w" "signature_valid env (unwrap_or (hex_decode (ae_crypto env) (cp_hash checkpoint)) []) w sig"
    and "cp_validator_signatures checkpoint = replicate n sig"
  shows "qv_verified_stake (verify_checkpoint_quorum env st c checkpoint) = of_nat n * snap_voting_power w"
proof -
  let ?h = "unwrap_or (hex_decode (ae_crypto env) (cp_hash checkpoint)) []" and ?vs = "registered_validators env st c"
  have "signed_by env ?h [sig] = (\<lambda>w. vs_validator sig = snap_address w \<and> signature_valid env ?h w sig)" by (auto simp: signed_by_def fun_eq_iff)
  moreover have "filter (\<lambda>w. vs_validator sig = snap_address w \<and> signature_valid env ?h w sig) ?vs = [w]"
    using filter_unique [OF assms(2,3), of "\<lambda>w. signature_valid env ?h w sig"] assms(4,5) by simp
  ultimately have one: "signature_stake env (map (\<lambda>v. (snap_address v, snap_voting_power v, snap_bls_public_key v)) ?vs) ?h sig = snap_voting_power w"
    using signature_stake_filter [OF assms(2), of env ?h sig] by simp
  have "wsum (replicate n x) = of_nat n * x" for x :: u64 by (induction n) (simp_all add: distrib_right)
  then show ?thesis using assms(1,6) one by (simp add: verify_checkpoint_quorum_def Let_def foldl_signature_stake)
qed

text \<open>
  The votes of a round are signatures of type, height and hash text; the verifier checks signatures
  of the decoded hash, which is a shorter message.
\<close>

lemma vote_message_differs:
  assumes "\<And>s b. hex_decode env s = Some b \<Longrightarrow> length s = 2 * length b"
  shows "vote_message v \<noteq> unwrap_or (hex_decode env (vote_checkpoint_hash v)) []"
proof
  assume eq: "vote_message v = unwrap_or (hex_decode env (vote_checkpoint_hash v)) []"
  have "length (vote_message v) = 9 + length (vote_checkpoint_hash v)" by (simp add: vote_message_def to_le_bytes_def)
  then show False using assms [of "vote_checkpoint_hash v"] eq by (cases "hex_decode env (vote_checkpoint_hash v)") auto
qed

text \<open>A validator that is slashed by its own vote is counted with the power it had before, although the total is reduced.\<close>

lemma slashed_vote_counts_in_full:
  assumes "consensus_inv env (st, c)" "hm_get (cs_pending_votes c) (vote_checkpoint_height vote) = Some a"
    and "voter env st c a (vote_validator vote) = Inr (p, key, i)" "key \<noteq> []" "ae_bls_verify env (vote_message vote) (vote_signature vote) key"
    and "double_sign_of vote c = Some evidence" "handle_double_sign_detection env saved now now' evidence c = Some (c1, Some slashed)"
    and "vote_checkpoint_hash vote = va_checkpoint_hash a" "\<not> hm_contains (va_votes a) (vote_validator vote)"
  shows "\<exists>c' r a'. process_vote env st saved now now' vote c = Some (c', Inr r) \<and> hm_get (cs_pending_votes c') (vote_checkpoint_height vote) = Some a'
    \<and> va_accumulated_power a' = va_accumulated_power a + p
    \<and> va_total_voting_power a' = saturating_sub (va_total_voting_power a) (f64_trunc_share p (rnd (15 / 100)))
    \<and> power_of a' (vote_validator vote) = saturating_sub p (f64_trunc_share p (rnd (15 / 100)))"
proof -
  let ?h = "vote_checkpoint_height vote" and ?k = "vote_validator vote"
  obtain w where w: "frozen_validator a ?k = Some w" "p = snap_voting_power w"
    using voter_frozen(1) [OF _ assms(3)] assms(1,2) by (force simp: consensus_inv_def rounds_ok_def)
  have ev: "dv_validator evidence = ?k" using assms(6) by (auto simp: double_sign_of_def split: option.splits if_splits)
  let ?f = "\<lambda>a. fst (reduce_validator_power ?k (rnd (15 / 100)) a)"
  have c1: "cs_pending_votes c1 = hm_map_values ?f (cs_pending_votes c)"
    using assms(7) ev by (auto simp: handle_double_sign_detection_def Let_def case_prod_unfold split: option.splits if_splits sum.splits)
  have find: "find P (modify_first P g xs) = map_option g (find P xs)" if "\<And>x. P x \<Longrightarrow> P (g x)" for P and g :: "ValidatorSnapshot \<Rightarrow> ValidatorSnapshot" and xs
    using that by (induction xs) auto
  have power: "power_of (?f a) ?k = saturating_sub p (f64_trunc_share p (rnd (15 / 100)))"
    using w by (simp add: power_of_def frozen_validator_def reduce_validator_power_def Let_def find)
  have fields: "va_accumulated_power (?f a) = va_accumulated_power a" "va_total_voting_power (?f a) = saturating_sub (va_total_voting_power a) (f64_trunc_share p (rnd (15 / 100)))"
    using w assms(9) by (simp_all add: reduce_validator_power_def Let_def)
  obtain c2 where c2: "punish_double_sign env saved now now' vote c = Some c2" "cs_pending_votes c2 = cs_pending_votes c1"
    using assms(6,7) by (simp add: punish_double_sign_def)
  define c3 where "c3 = c2\<lparr>cs_vote_history := hm_insert (?k, ?h) vote (cs_vote_history c2)\<rparr>"
  have r: "hm_get (cs_pending_votes c3) ?h = Some (?f a)" by (simp add: c3_def c2(2) c1 hm_get_map_values assms(2))
  obtain a' where a': "accumulate_vote vote p i (?f a) = (a', True)" "va_accumulated_power a' = va_accumulated_power (?f a) + p"
    "va_total_voting_power a' = va_total_voting_power (?f a)" "va_frozen_validators a' = va_frozen_validators (?f a)"
    using assms(9) by (simp add: accumulate_vote_def)
  have "\<exists>c' x. count_round_vote vote p i c3 = (c', Inr x) \<and> hm_get (cs_pending_votes c') ?h = Some a'"
    using r a'(1) by (cases "quorum_reached a' \<and> va_checkpoint_height a' \<notin> set (cs_finalized_heights c3)") (simp_all add: count_round_vote_def Let_def)
  moreover have "process_vote env st saved now now' vote c = Some (count_round_vote vote p i c3)"
    using assms(2-5,8) c2(1) by (simp add: process_vote_def c3_def)
  moreover have "power_of a' ?k = power_of (?f a) ?k" by (simp add: power_of_def frozen_validator_def a'(4))
  ultimately show ?thesis using a' fields power by auto
qed

text \<open>A slashed validator is frozen into the next round with its remaining power, which the total leaves out.\<close>

lemma slashed_validator_frozen:
  assumes "vset_inv vs" "hm_get (vss_active_validators vs) a = Some v" "cs_validator_service c = Some (fst (slash_validator saved a percent vs))"
  shows "(\<exists>w \<in> set (registered_validators env st c). snap_address w = a \<and> snap_voting_power w = vd_stake v - f64_trunc_share (vd_stake v) percent)
    \<and> registered_stake st c = wsum (map vd_effective_stake (filter is_active (hm_values (hm_remove a (vss_active_validators vs)))))"
proof -
  have "(a, slashed_identity percent v) \<in> set (vss_active_validators (fst (slash_validator saved a percent vs)))"
    using slashed_outside_total(1) [OF assms(1,2) refl] by (rule map_of_SomeD)
  then show ?thesis using slashed_outside_total(2,4) [OF assms(1,2) refl] by (auto simp: registered_validators_def registered_stake_def assms(3) intro!: rev_bexI)
qed

section \<open>A sample round\<close>

definition voting_state :: "(DagNode list \<times> (nat \<times> nat) list) StateInner" where
  "voting_state = (watch_state PartitionState_default)\<lparr>si_validators := [(''v'',
     \<lparr>val_address = ''v'', val_stake = 1, val_first_stake_time = 0, val_bls_public_key = Some (sample_hex_encode [1]), val_missed_checkpoints = 0\<rparr>)]\<rparr>"

definition voted_checkpoint :: Checkpoint where
  "voted_checkpoint =
     \<lparr>cp_height = 1, cp_hash = sample_hex_encode [7], cp_previous_hash = None, cp_tx_merkle_root = [], cp_state_root = [], cp_receipt_root = [],
      cp_tip_count = 0, cp_timestamp = 0,
      cp_validator_signatures = [\<lparr>vs_validator = ''v'', vs_signature = sample_hex_encode [0, 7, 1], vs_weight = 1, vs_bls_public_key = None\<rparr>],
      cp_aggregated_signature = None, cp_signer_bitmap = None, cp_finalized_tx_hashes = [], cp_weight_trie_root = [], cp_provisional = False,
      cp_partition_epoch = None, cp_visible_stake_pct = None, cp_merge_report_hash = None, cp_view_change_certificate = None, cp_view = 0\<rparr>"

definition voting_service :: ConsensusService where
  "voting_service = ConsensusService_new\<lparr>cs_pending_votes :=
     [(1, VoteAccumulator_new 1 (sample_hex_encode [7]) 1 [\<lparr>snap_address = ''v'', snap_voting_power = 1, snap_bls_public_key = [1]\<rparr>])]\<rparr>"

definition voting_vote :: Vote where
  "voting_vote = \<lparr>vote_validator = ''v'', vote_vote_type = Commit, vote_checkpoint_height = 1, vote_checkpoint_hash = sample_hex_encode [7],
     vote_signature = 0 # ([1] @ to_le_bytes 1 @ as_bytes (sample_hex_encode [7])) @ [1], vote_timestamp = 0\<rparr>"

lemma voting_validators:
  "registered_validators sample_ack_env voting_state ConsensusService_new = [\<lparr>snap_address = ''v'', snap_voting_power = 1, snap_bls_public_key = [1]\<rparr>]"
  "registered_stake voting_state ConsensusService_new = 1"
  by (simp_all add: registered_validators_def registered_stake_def ConsensusService_new_def voting_state_def legacy_bls_key_def
    sample_ack_env_def sample_env_def sample_hex_roundtrip)

lemma voting_init: "consensus_init (voting_state, ConsensusService_new)"
  by (simp add: consensus_init_def ConsensusService_new_def voting_state_def hm_wf_def)

lemma voting_started: "consensus_step sample_ack_env (voting_state, ConsensusService_new) Silent (voting_state, voting_service)"
  by (rule start_round [of _ _ voted_checkpoint])
    (simp add: start_voting_round_def Let_def voting_validators voting_service_def voted_checkpoint_def, simp add: ConsensusService_new_def)

lemma voting_quorum: "quorum_reached a" if "va_accumulated_power a = 1" "va_total_voting_power a = 1"
proof -
  have "f64_of_u64 1 = Fin 1" using f64_of_u64_exact [of 1] by (simp add: urat_def)
  moreover have "rnd (6666 / 10000) = Fin (rndq (6666 / 10000))" "rndq (6666 / 10000) \<le> 1"
    using rnd_literal_bounds [of "6666 / 10000" 1] representable_of_nat [of 1] by simp_all
  ultimately show ?thesis using that by (simp add: quorum_reached_def voting_power_ratio_def QUORUM_THRESHOLD_def f64_le_def order_le_less)
qed

lemma voting_counted: "\<exists>c'. process_vote sample_ack_env voting_state True 0 0 voting_vote voting_service = Some (c', Inr QuorumReached)"
proof -
  let ?a = "VoteAccumulator_new 1 (sample_hex_encode [7]) 1 [\<lparr>snap_address = ''v'', snap_voting_power = 1, snap_bls_public_key = [1]\<rparr>]"
  have v: "voter sample_ack_env voting_state voting_service ?a ''v'' = Inr (1, [1], 0)"
    by (simp add: voter_def VoteAccumulator_new_def frozen_validator_def frozen_index_def)
  have "punish_double_sign sample_ack_env True 0 0 voting_vote voting_service = Some voting_service"
    by (simp add: punish_double_sign_def double_sign_of_def voting_service_def ConsensusService_new_def)
  moreover have "\<exists>c'. count_round_vote voting_vote 1 0 (voting_service\<lparr>cs_vote_history := x\<rparr>) = (c', Inr QuorumReached)" for x
    by (simp add: count_round_vote_def voting_vote_def voting_service_def ConsensusService_new_def accumulate_vote_def VoteAccumulator_new_def hm_contains_def
      voting_quorum Let_def)
  ultimately show ?thesis using v
    by (simp add: process_vote_def voting_service_def voting_vote_def sample_ack_env_def vote_message_def VoteAccumulator_new_def ConsensusService_new_def)
qed

theorem quorum_is_signed_witness:
  "\<exists>c' a. process_vote sample_ack_env voting_state True 0 0 voting_vote voting_service = Some (c', Inr QuorumReached)
     \<and> hm_get (cs_pending_votes c') 1 = Some a \<and> quorum_reached a \<and> distinct (hm_keys (va_votes a))"
proof -
  obtain c' where "process_vote sample_ack_env voting_state True 0 0 voting_vote voting_service = Some (c', Inr QuorumReached)"
    using voting_counted by blast
  then show ?thesis
    using quorum_is_signed [OF voting_init run_step [OF voting_started run_stop]] by (fastforce simp: voting_vote_def)
qed

theorem height_reported_once_witness:
  "\<exists>c'. consensus_run sample_ack_env (voting_state, ConsensusService_new) [Silent, Reported 1] (voting_state, c') \<and> set (cs_finalized_heights c') = {1}"
proof -
  obtain c' where "process_vote sample_ack_env voting_state True 0 0 voting_vote voting_service = Some (c', Inr QuorumReached)"
    using voting_counted by blast
  then have step: "consensus_step sample_ack_env (voting_state, voting_service) (Reported 1) (voting_state, c')"
    using vote_counted [of sample_ack_env voting_state True 0 0 voting_vote voting_service c' "Inr QuorumReached"] by (simp add: voting_vote_def)
  have run: "consensus_run sample_ack_env (voting_state, ConsensusService_new) [Silent, Reported 1] (voting_state, c')"
    by (rule run_step [OF voting_started run_step [OF step run_stop]])
  then show ?thesis using height_reported_once [OF voting_init run] by auto
qed

theorem verified_stake_counts_signers_witness:
  "qv_verified_stake (verify_checkpoint_quorum sample_ack_env voting_state ConsensusService_new voted_checkpoint) = 1"
proof -
  have "signed_by sample_ack_env (unwrap_or (hex_decode (ae_crypto sample_ack_env) (cp_hash voted_checkpoint)) []) (cp_validator_signatures voted_checkpoint)
    \<lparr>snap_address = ''v'', snap_voting_power = 1, snap_bls_public_key = [1]\<rparr>"
    by (simp add: signed_by_def voted_checkpoint_def signature_valid_def sample_ack_env_def sample_env_def sample_hex_roundtrip)
  then show ?thesis
    using verified_stake_counts_signers [OF voting_init run_stop, of voted_checkpoint sample_ack_env]
    by (simp add: voting_validators) (simp add: voted_checkpoint_def)
qed

end
