(* ===== verification/Spec2Isabelle.thy ===== *)
theory Spec2Isabelle
  imports Rinku_Multiproof Rinku_Emission Rinku_Slashing Rinku_Fast_Path Rinku_Merge_State
    Rinku_Rewards_Properties Rinku_Admission_Properties Rinku_Consensus_Properties
begin

text \<open>
  Verification of the Rinku ledger node.

  \<^bold>\<open>The program.\<close> Rinku is a proof-of-stake ledger whose transactions form a directed acyclic
  graph. \<open>packages/rinku-core\<close> holds what clients and nodes share: hashing, Merkle trees,
  the data types, transaction weights and the DAG. \<open>packages/rinku-node\<close> is the node: a
  transaction enters the DAG, is acknowledged by validators on the fast path, executed on the
  accounts either there or with its checkpoint, and rewarded; checkpoints emit new coins, the
  accounts are committed to by a sparse Merkle trie, misbehaviour is slashed, and when the
  network splits a detector notices it, both sides go on, and a merge reconciles their
  histories.

  \<^bold>\<open>Modelling.\<close> Structs are records, enums datatypes, \<open>u64\<close> and \<open>u32\<close> words with
  the wrap-around of the release profile, \<open>f64\<close> the rationals with an explicit rounding
  (\<open>Rinku_F64\<close>), strings byte lists, hash tables association lists with distinct keys
  (\<open>Rinku_Collections\<close>). Errors and panics are values of sum and option types. State is passed
  explicitly, and a section under one lock is one step. Operations that take the lock several
  times are split where others may interfere with what is proved of them: the two halves of
  \<open>add_ack_checked\<close> are steps of their own; admission and \<open>execute_merge\<close> are given the states
  and clocks their earlier sections have read, which need not be the state they write. A cycle of
  the partition detector is one step, since no other task writes its part of the state, and so is
  the execution of a finalized transaction or batch with the special transactions and rewards
  that follow it: their sections run here without anything in between. What is not in the
  sources is an argument: SHA-256 and hex (\<open>crypto_env\<close>), the graph of the crate petgraph
  with the laws its documentation gives, BLS and base64 (\<open>ack_env\<close>), the P-256
  arithmetic (\<open>ecdsa_env\<close>), the contract runtime (\<open>contract_env\<close>), \<open>powi\<close>,
  \<open>powf\<close> and \<open>ln_1p\<close> (\<open>float_env\<close>), the node database, the wall clock, and the
  iteration order of every hash table that is iterated. Theorems quantify over all of them; no
  collision-freeness of SHA-256 is assumed globally, a theorem names the messages among which
  none may collide. Log lines and the texts of error messages are left out.

  \<^bold>\<open>Theories and sources.\<close>
  \<^item> \<open>Rinku_Prelude\<close>, \<open>Rinku_Collections\<close>, \<open>Rinku_F64\<close>, \<open>Rinku_Text\<close>,
    \<open>Rinku_Machine\<close>: integers, tables, floating point, decimal text, and the locale of a
    machine with an invariant, which the stateful components interpret.
  \<^item> \<open>Rinku_Crypto\<close> (\<open>crypto.rs\<close>), \<open>Rinku_Types\<close> (\<open>types.rs\<close>).
  \<^item> \<open>Rinku_Hash_Tree\<close>: the interface of the two binary hash trees, interpreted by
    \<open>Rinku_Merkle\<close> and \<open>Rinku_Multiproof\<close> (\<open>merkle.rs\<close>) and \<open>Rinku_Weight\<close>
    (\<open>weight.rs\<close>). Proofs handed out verify; two accepted proofs for one position agree or
    exhibit a collision; vote tallies count a validator once.
  \<^item> \<open>Rinku_Dag\<close> (\<open>dag.rs\<close>) with \<open>Rinku_Dag_Grow\<close>, \<open>_Finalize\<close>, \<open>_Remove\<close>,
    \<open>_Rebuild\<close>, \<open>_Search\<close>, \<open>_Invariant\<close>, \<open>_Properties\<close>: the five indices describe the
    graph after every sequence of operations, pruning removes exactly what it should, the
    search terminates and is exact.
  \<^item> \<open>Rinku_Sparse_Trie\<close> (\<open>sparse_merkle_trie.rs\<close>) with \<open>Rinku_Sparse_Map\<close>,
    \<open>_Proofs\<close>, \<open>_Properties\<close>: the trie refines a finite map, its root commits to the map,
    proofs are sound, for sequences of writes among whose hashes none collide and of whose values
    none is the concatenation of two node hashes of the same run (nodes and values share one
    store, so such a value would overwrite a node). Values of any length are covered; an account
    entry of 64 bytes is excluded only if it is made of two such digests.
  \<^item> \<open>Rinku_Emission\<close> (\<open>emission.rs\<close>, \<open>gas.rs\<close>), \<open>Rinku_Slashing\<close>
    (\<open>slashing.rs\<close>, \<open>bls.rs\<close>), \<open>Rinku_Rewards\<close> and \<open>Rinku_Rewards_Properties\<close>
    (\<open>rewards.rs\<close>): schedules, shares, stakes, unbonding, claims.
  \<^item> \<open>Rinku_Fast_Path\<close> (\<open>fast_path.rs\<close>): acknowledgements, quorums, interleavings.
  \<^item> \<open>Rinku_State\<close> (\<open>state/mod.rs\<close>): the state record, the account trie, the fast-path pool.
  \<^item> \<open>Rinku_Contract\<close> (\<open>contracts.rs\<close>): stored contracts, gas, diffs and state hashes.
  \<^item> \<open>Rinku_Execution\<close>, \<open>Rinku_Fast_Execution\<close>, \<open>Rinku_Finalize\<close> with
    \<open>Rinku_Execution_Properties\<close> and \<open>Rinku_Finalize_Properties\<close> (\<open>state/transactions.rs\<close>):
    execution of batches and of the fast path refines a sequential ledger, keeps nonces
    consecutive and, for known senders and costs that fit, conserves value; stakes, claims,
    contracts and rewards follow it; and which accounts are written to the trie. The accounts
    after the write section of a single execution are those of a batch of one (but for
    consolidations).
  \<^item> \<open>Rinku_Admission\<close>, \<open>Rinku_Admission_Properties\<close> (\<open>tx_auth.rs\<close>,
    \<open>state/proofs.rs\<close>, \<open>state/transactions.rs\<close>): authenticity, pending funds and nonces,
    and the paths into the DAG. What is accepted is signed, next in line and, where no sum of
    costs wraps, paid for.
  \<^item> \<open>Rinku_Leader\<close> (\<open>leader_election.rs\<close>): registered validators with the same registry
    elect the same leader and agree on the order of the backups; a node that is not registered
    adds itself and may elect another.
  \<^item> \<open>Rinku_Validator_Set\<close> (\<open>validator_identity.rs\<close>), \<open>Rinku_Consensus\<close> and
    \<open>Rinku_Consensus_Properties\<close> (\<open>consensus.rs\<close>): the stages of a validator's life and
    the stake that counts; voting rounds, whose quorums consist of valid signatures of distinct
    validators, and the places where the code counts too much.
  \<^item> \<open>Rinku_Partition\<close> (\<open>state/partition.rs\<close>, \<open>partition_detector.rs\<close>): the detector as
    a state machine, with its liveness.
  \<^item> \<open>Rinku_Merge\<close>, \<open>Rinku_Cascade\<close>, \<open>Rinku_Cascade_Properties\<close>,
    \<open>Rinku_Merge_Converge\<close>, \<open>Rinku_Merge_Orchestrator\<close>, \<open>Rinku_Merge_State\<close> (\<open>merge/\<close>):
    conflict detection, resolution, cascade rollback; from the same accounts both sides reach
    the same result, the survivors replay on the ledger from them, and the DAG is reconciled.
  \<^item> This theory: admission, gossip, votes, the executions (fast path, late batch, single,
    checkpoint), DAG operations, merges, the detector, purges and rebuilding as one machine. In
    its runs the DAG stays consistent and the account trie is current at every address but the
    stale ones, which a set keeps track of: checkpoint batches, merges and failing single
    executions change accounts without writing the trie.

  \<^bold>\<open>Bounds and fuel.\<close> The breadth-first searches of the DAG run with the number of nodes as
  fuel, and the property of the search says that the queue is empty by then. The recursion of the trie is over the
  remaining height. The cascade loop and the depth of a rollback terminate by measures. The
  five retry passes of a batch and the four of the fast path are the constants of the code.

  \<^bold>\<open>Not modelled.\<close> Networking, HTTP and gossip, the terminal interface, storage and the
  write-ahead log (I/O around the modelled operations); key handling and the BLS and ECDSA
  arithmetic (calls of crates); the WebAssembly runtime; the production and exchange of
  checkpoints, of which \<open>state/checkpoints.rs\<close> is represented by what it calls (the batch, the
  special transactions, the pool, the DAG); the setters of \<open>state/accounts.rs\<close>, snapshots,
  synchronisation and the rollback of a checkpoint, which appear in the machine of this theory as
  arbitrary changes of accounts; the TypeScript packages.
\<close>

section \<open>The node as a whole\<close>

text \<open>
  The operations of the node on its state, in any order: transactions submitted from outside,
  produced locally, received from peers, from synchronisation or with a vote, executed on the fast
  path, in the late batch of a sync push (\<open>execute_finalized_transactions_batch\<close>), on their own, or
  with a checkpoint (\<open>apply_checkpoint\<close> and \<open>apply_checkpoint_with_finalized_hashes\<close> run
  \<open>execute_batch_inline\<close>, work on the DAG and the fast-path pool and process the special
  transactions, each a step here); the write section of a merge, with any report; the partition
  detector; purges; and the rebuilding of the account trie before a checkpoint is produced. What
  else writes accounts (the setters of \<open>state/accounts.rs\<close>, the registration of validators,
  accounts taken over from a peer, a snapshot or a proof, the rollback of a checkpoint) is not
  modelled function by function: it is a composition of the steps \<open>other_accounts\<close>, any
  change of the accounts at the addresses \<open>A\<close>, \<open>trie_write\<close>, the call of
  \<open>update_state_trie_accounts\<close> such a function may end with, and \<open>rebuild\<close>.

  A pair of the set of addresses whose entries in the account trie may be stale and the node. The
  set is history, not state of the node: it grows by what an operation changes in the accounts
  without writing the trie, shrinks by what is written there, and a rebuilt trie empties it. In \<open>submit\<close> and \<open>local_system\<close> the
  earlier sections of admission may have read any states. A hash table has distinct keys, which
  \<open>rebuild\<close> states for the accounts.
\<close>

inductive node_step ::
  "crypto_env \<Rightarrow> ecdsa_env \<Rightarrow> float_env \<Rightarrow> 'g petgraph \<Rightarrow> contract_env \<Rightarrow> string set \<times> 'g NodeState \<Rightarrow> string set \<times> 'g NodeState \<Rightarrow> bool"
  for env ec fe G cx where
  submit: "add_transaction_authenticated env ec fe G cx r tx provided (ns_inner n) = (s', result)
    \<Longrightarrow> node_step env ec fe G cx (D, n) (D, n\<lparr>ns_inner := s'\<rparr>)"
| local_system: "add_local_system_transaction env ec fe G cx r tx (ns_inner n) = (s', result)
    \<Longrightarrow> node_step env ec fe G cx (D, n) (D, n\<lparr>ns_inner := s'\<rparr>)"
| gossip: "add_transaction_from_gossip_authenticated env ec G now tx provided (ns_inner n) = Inr s'
    \<Longrightarrow> node_step env ec fe G cx (D, n) (D, n\<lparr>ns_inner := s'\<rparr>)"
| sync: "add_transaction_from_sync env ec G now tx (ns_inner n) = Inr s' \<Longrightarrow> node_step env ec fe G cx (D, n) (D, n\<lparr>ns_inner := s'\<rparr>)"
| vote: "force_add_transactions_batch_for_vote G now txs (ns_inner n) = (s', added)
    \<Longrightarrow> node_step env ec fe G cx (D, n) (D, n\<lparr>ns_inner := s'\<rparr>)"
| fast_path: "execute_fast_path_batch env now txs n = (n', results) \<Longrightarrow> node_step env ec fe G cx (D, n) (D, n')"
| late_batch: "iteration_order (bo_changed orders) \<Longrightarrow>
    execute_finalized_transactions_batch env G cx orders now txs fast n = Some (n', hashes) \<Longrightarrow> node_step env ec fe G cx (D, n) (D, n')"
| single: "node_step env ec fe G cx (D, n) (D \<union> single_stale tx, execute_finalized_transaction env G cx now tx n)"
| checkpoint_batch: "iteration_order iter \<Longrightarrow> execute_batch_inline itern iter txs available (ns_inner n) = (s', r)
    \<Longrightarrow> node_step env ec fe G cx (D, n) (D \<union> set (br_changed_addresses r), n\<lparr>ns_inner := s'\<rparr>)"
| dag_work: "dag_step G (si_dag (ns_inner n)) d \<Longrightarrow> node_step env ec fe G cx (D, n) (D, n\<lparr>ns_inner := (ns_inner n)\<lparr>si_dag := d\<rparr>\<rparr>)"
| clear_pool: "node_step env ec fe G cx (D, n) (D, n\<lparr>ns_inner := fst (clear_checkpoint_finalized_txs iter hashes (ns_inner n))\<rparr>)"
| special_txs: "process_batch_special_txs_with_skip env cx deltas now txs skip n = Some n' \<Longrightarrow> node_step env ec fe G cx (D, n) (D, n')"
| merge: "apply_merge_state env G fe json iterb now report remote final_balances surviving fork_point (ns_inner n) = (s', height)
    \<Longrightarrow> iteration_order iterb
    \<Longrightarrow> node_step env ec fe G cx (D, n) (D \<union> fst ` set final_balances \<union> pa_account ` set (rep_penalties report), n\<lparr>ns_inner := s'\<rparr>)"
| detector: "fst (detect_cycle iterv now now' peers (d, ns_inner n)) = (d', s') \<Longrightarrow> node_step env ec fe G cx (D, n) (D, n\<lparr>ns_inner := s'\<rparr>)"
| purge_deferred: "node_step env ec fe G cx (D, n) (D, purge_stale_deferred_txs n)"
| purge_zombies: "node_step env ec fe G cx (D, n) (D, n\<lparr>ns_inner := purge_zombie_dag_txs G iter (ns_inner n)\<rparr>)"
| other_accounts: "same_outside A (si_accounts (ns_inner n)) accounts
    \<Longrightarrow> node_step env ec fe G cx (D, n) (D \<union> A, n\<lparr>ns_inner := (ns_inner n)\<lparr>si_accounts := accounts\<rparr>\<rparr>)"
| trie_write: "node_step env ec fe G cx (D, n) (D - set changed, n\<lparr>ns_inner := update_state_trie_accounts env changed (ns_inner n)\<rparr>)"
| rebuild: "iteration_order itera \<Longrightarrow> hm_wf (si_accounts (ns_inner n))
    \<Longrightarrow> node_step env ec fe G cx (D, n) ({}, n\<lparr>ns_inner := (ns_inner n)
          \<lparr>si_state_trie := build_state_trie_from_accounts env itera (si_accounts (ns_inner n))\<rparr>\<rparr>)"

inductive_cases node_stepE: "node_step env ec fe G cx c c'"























section \<open>Checkpoints leave the trie behind\<close>

text \<open>
  The batch a checkpoint executes changes the accounts and leaves the trie as it was: after the
  payment of the sample the balance of the sender has changed, its entry in the trie has not.
  Until the trie is rebuilt, state roots and account proofs are of the old accounts.
\<close>

lemma checkpoint_batch_not_committed:
  assumes "iteration_order iter" "execute_batch_inline itern iter txs available s = (s', r)"
  shows "si_state_trie s' = si_state_trie s"
  using execute_batch_inline_tracks [OF assms(2,1)] by simp

lemma merge_not_committed:
  "apply_merge_state env G fe json iterb now report remote final_balances surviving fork_point s = (s', height) \<Longrightarrow> si_state_trie s' = si_state_trie s"
  by (auto simp: apply_merge_state_def Let_def)

end
